(* ===== verification/Hi_Prelude.thy ===== *)
theory Hi_Prelude
  imports Main "HOL-Library.Word" "HOL-Library.List_Lexorder" "HOL-Library.Char_ord"
    "HOL-Library.Sublist"
begin

text \<open>
  Shared vocabulary of the development: the machine integers of the Rust sources with their checked
  and saturating operations, results as sums with the error on the left, the string trimming of the
  standard library, and the lemma collections the component theories extend.
\<close>

section \<open>Lemma collections\<close>

named_theorems rust_arith \<open>unsigned readings of checked and saturating word operations\<close>
named_theorems op_defs \<open>definitions of the components' operations, for unfolding in invariant proofs\<close>

section \<open>Machine integers\<close>

type_synonym u8 = "8 word"
type_synonym u16 = "16 word"
type_synonym u32 = "32 word"
type_synonym u64 = "64 word"

text \<open>The sources run on 64-bit targets, so \<open>usize\<close> is as wide as \<open>u64\<close>.\<close>

type_synonym usize = "64 word"

definition checked_add :: "'a::len word \<Rightarrow> 'a word \<Rightarrow> 'a word option" where
  "checked_add a b = (if unat a + unat b < 2 ^ LENGTH('a) then Some (a + b) else None)"

definition checked_sub :: "'a::len word \<Rightarrow> 'a word \<Rightarrow> 'a word option" where
  "checked_sub a b = (if b \<le> a then Some (a - b) else None)"

definition saturating_add :: "'a::len word \<Rightarrow> 'a word \<Rightarrow> 'a word" where
  "saturating_add a b = (if unat a + unat b < 2 ^ LENGTH('a) then a + b else - 1)"

definition saturating_sub :: "'a::len word \<Rightarrow> 'a word \<Rightarrow> 'a word" where
  "saturating_sub a b = (if b \<le> a then a - b else 0)"

lemma checked_add_Some [rust_arith]:
  "checked_add a b = Some c \<longleftrightarrow> unat c = unat a + unat b"
proof
  assume "checked_add a b = Some c"
  then show "unat c = unat a + unat b"
    by (auto simp: checked_add_def unat_word_ariths split: if_splits)
next
  assume c: "unat c = unat a + unat b"
  then have lt: "unat a + unat b < 2 ^ LENGTH('a)"
    by (metis unsigned_less)
  with c have "unat (a + b) = unat c"
    by (simp add: unat_word_ariths)
  then show "checked_add a b = Some c"
    using lt by (simp add: checked_add_def word_unat_eq_iff)
qed

lemma checked_add_None [rust_arith]:
  "checked_add (a::'a::len word) b = None \<longleftrightarrow> 2 ^ LENGTH('a) \<le> unat a + unat b"
  by (auto simp: checked_add_def)

lemma checked_sub_Some [rust_arith]:
  "checked_sub a b = Some c \<longleftrightarrow> unat a = unat c + unat b"
proof
  assume "checked_sub a b = Some c"
  then show "unat a = unat c + unat b"
    by (auto simp: checked_sub_def unat_sub word_le_nat_alt split: if_splits)
next
  assume eq: "unat a = unat c + unat b"
  then have le: "b \<le> a" by (simp add: word_le_nat_alt)
  then have "unat (a - b) = unat c" using eq by (simp add: unat_sub)
  then show "checked_sub a b = Some c"
    using le by (simp add: checked_sub_def word_unat_eq_iff)
qed

lemma checked_sub_None [rust_arith]: "checked_sub a b = None \<longleftrightarrow> unat a < unat b"
  by (auto simp: checked_sub_def word_le_nat_alt)

lemma unat_saturating_add [rust_arith]:
  "unat (saturating_add a (b::'a::len word)) = min (unat a + unat b) (2 ^ LENGTH('a) - 1)"
proof (cases "unat a + unat b < 2 ^ LENGTH('a)")
  case True
  then show ?thesis by (auto simp: saturating_add_def unat_word_ariths)
next
  case False
  then show ?thesis
    by (auto simp: saturating_add_def unsigned_minus_1_eq_mask mask_eq_exp_minus_1)
qed

lemma unat_saturating_sub [rust_arith]:
  "unat (saturating_sub a b) = unat a - unat b"
  by (auto simp: saturating_sub_def unat_sub word_le_nat_alt)

lemma unat_u64_bound [simp]: "unat (a::u64) < 18446744073709551616"
proof -
  have "unat a < 2 ^ LENGTH(64)" by (rule unsigned_less)
  then show ?thesis by simp
qed

lemma unat_u64_le_bound [simp]: "unat (a::u64) \<le> 18446744073709551615"
  using unat_u64_bound [of a] by linarith

lemma unat_u64_max: "unat (a::u64) = 18446744073709551615 \<longleftrightarrow> a = - 1"
proof -
  have "unat (- 1 :: u64) = 18446744073709551615"
    by (simp add: unsigned_minus_1_eq_mask mask_eq_exp_minus_1)
  then show ?thesis by (metis word_unat_eq_iff)
qed

lemma saturating_add_0 [simp]: "saturating_add a 0 = a"
  by (simp add: saturating_add_def)

section \<open>Results\<close>

text \<open>
  A fallible Rust function returns \<open>Result<T, E>\<close>; the model returns a sum with the error on the left.
  A method that takes \<open>&mut self\<close> returns the result paired with the new state, so a failing call
  that has already mutated its receiver shows that in the model.
\<close>

type_synonym ('e, 'a) result = "'e + 'a"

definition is_ok :: "('e, 'a) result \<Rightarrow> bool" where
  "is_ok r = (case r of Inl _ \<Rightarrow> False | Inr _ \<Rightarrow> True)"

lemma is_ok_simps [simp]: "is_ok (Inr a)" "\<not> is_ok (Inl e)"
  by (simp_all add: is_ok_def)

lemma is_ok_iff: "is_ok r \<longleftrightarrow> (\<exists>a. r = Inr a)"
  by (cases r) simp_all

text \<open>The \<open>ensure!\<close> macro: continue when the condition holds, return the error otherwise.\<close>

definition ensure :: "bool \<Rightarrow> 'e \<Rightarrow> ('e, 'a) result \<Rightarrow> ('e, 'a) result" where
  "ensure c e k = (if c then k else Inl e)"

lemma ensure_simps [simp]: "ensure True e k = k" "ensure False e k = Inl e"
  by (simp_all add: ensure_def)

lemma ensure_Inr [simp]: "ensure c e k = Inr a \<longleftrightarrow> c \<and> k = Inr a"
  by (simp add: ensure_def)

lemma ensure_is_ok [simp]: "is_ok (ensure c e k) \<longleftrightarrow> c \<and> is_ok k"
  by (simp add: ensure_def)

text \<open>The question-mark operator on a result that carries no state.\<close>

definition and_then :: "('e, 'a) result \<Rightarrow> ('a \<Rightarrow> ('e, 'b) result) \<Rightarrow> ('e, 'b) result" where
  "and_then r k = (case r of Inl e \<Rightarrow> Inl e | Inr a \<Rightarrow> k a)"

lemma and_then_simps [simp]: "and_then (Inl e) k = Inl e" "and_then (Inr a) k = k a"
  by (simp_all add: and_then_def)

lemma and_then_Inr [simp]: "and_then r k = Inr b \<longleftrightarrow> (\<exists>a. r = Inr a \<and> k a = Inr b)"
  by (cases r) simp_all

lemma and_then_is_ok: "is_ok (and_then r k) \<longleftrightarrow> (\<exists>a. r = Inr a \<and> is_ok (k a))"
  by (cases r) simp_all

text \<open>A \<open>for\<close> loop whose body checks an element and returns early with an error.\<close>

fun check_all :: "('a \<Rightarrow> ('e, unit) result) \<Rightarrow> 'a list \<Rightarrow> ('e, unit) result" where
  "check_all f [] = Inr ()"
| "check_all f (x # xs) = and_then (f x) (\<lambda>_. check_all f xs)"

lemma check_all_ok [simp]: "check_all f xs = Inr () \<longleftrightarrow> (\<forall>x \<in> set xs. f x = Inr ())"
  by (induction xs) auto

section \<open>Options\<close>

definition unwrap_or :: "'a option \<Rightarrow> 'a \<Rightarrow> 'a" where
  "unwrap_or m d = (case m of None \<Rightarrow> d | Some a \<Rightarrow> a)"

lemma unwrap_or_simps [simp]: "unwrap_or None d = d" "unwrap_or (Some a) d = a"
  by (simp_all add: unwrap_or_def)

section \<open>Strings\<close>

text \<open>Decimal notation, as \<open>format!\<close> prints unsigned integers.\<close>

fun decimal :: "nat \<Rightarrow> string" where
  "decimal n = (if n < 10 then [char_of (48 + n)] else decimal (n div 10) @ [char_of (48 + n mod 10)])"

declare decimal.simps [simp del]

text \<open>
  A \<open>String\<close> is its UTF-8 bytes. Its length in bytes, its byte order (the order of \<open>Ord\<close>) and its
  prefix tests are those of the byte list. \<open>str::trim\<close> removes the characters with the Unicode
  property White_Space from both ends; \<open>ws_seqs\<close> lists their UTF-8 encodings. UTF-8 is
  self-synchronising, so stripping encodings from the end of valid text removes whole characters.
\<close>

abbreviation bytes :: "nat list \<Rightarrow> string" where
  "bytes ns \<equiv> map char_of ns"

definition ws_seqs :: "string list" where
  "ws_seqs = map bytes
     ([[9], [10], [11], [12], [13], [32], [194, 133], [194, 160], [225, 154, 128],
       [226, 128, 128], [226, 128, 129], [226, 128, 130], [226, 128, 131], [226, 128, 132],
       [226, 128, 133], [226, 128, 134], [226, 128, 135], [226, 128, 136], [226, 128, 137],
       [226, 128, 138], [226, 128, 168], [226, 128, 169], [226, 128, 175], [226, 129, 159],
       [227, 128, 128]])"

function strip :: "string list \<Rightarrow> string \<Rightarrow> string" where
  "strip ts s =
     (case find (\<lambda>t. t \<noteq> [] \<and> prefix t s) ts of
        None \<Rightarrow> s
      | Some t \<Rightarrow> strip ts (drop (length t) s))"
  by pat_completeness auto
termination
proof (relation "measure (\<lambda>(ts, s). length s)", goal_cases)
  case (2 ts s t)
  then have "t \<noteq> []" "prefix t s" by (auto simp: find_Some_iff)
  then have "0 < length t" "length t \<le> length s" by (auto dest: prefix_length_le)
  then have "length s - length t < length s" by linarith
  then show ?case by simp
qed simp

declare strip.simps [simp del]

definition trim :: "string \<Rightarrow> string" where
  "trim s = rev (strip (map rev ws_seqs) (rev (strip ws_seqs s)))"

definition strippable :: "string list \<Rightarrow> string \<Rightarrow> bool" where
  "strippable ts s \<longleftrightarrow> (\<exists>t \<in> set ts. t \<noteq> [] \<and> prefix t s)"

lemma strip_not_strippable: "\<not> strippable ts (strip ts s)"
proof (induction ts s rule: strip.induct)
  case (1 ts s)
  show ?case
  proof (cases "find (\<lambda>t. t \<noteq> [] \<and> prefix t s) ts")
    case None
    then have "strip ts s = s" by (simp add: strip.simps [of ts s])
    with None show ?thesis by (auto simp: find_None_iff strippable_def)
  next
    case (Some t)
    with "1.IH" show ?thesis by (simp add: strip.simps [of ts s])
  qed
qed

lemma strip_id: "\<not> strippable ts s \<Longrightarrow> strip ts s = s"
  by (subst strip.simps) (auto simp: strippable_def find_Some_iff split: option.splits)

lemma strip_suffix: "suffix (strip ts s) s"
proof (induction ts s rule: strip.induct)
  case (1 ts s)
  show ?case
  proof (cases "find (\<lambda>t. t \<noteq> [] \<and> prefix t s) ts")
    case None
    then show ?thesis by (simp add: strip.simps [of ts s])
  next
    case (Some t)
    with "1.IH" show ?thesis
      by (auto simp: strip.simps [of ts s] intro: suffix_order.trans [OF _ suffix_drop])
  qed
qed

lemma strippable_prefix: "strippable ts r \<Longrightarrow> prefix r s \<Longrightarrow> strippable ts s"
  by (auto simp: strippable_def intro: prefix_order.trans)

lemma trim_idem [simp]: "trim (trim s) = trim s"
proof -
  let ?a = "strip ws_seqs s"
  let ?b = "strip (map rev ws_seqs) (rev ?a)"
  have "prefix (rev ?b) ?a"
    using strip_suffix [of "map rev ws_seqs" "rev ?a"] by (simp add: suffix_to_prefix)
  then have "\<not> strippable ws_seqs (rev ?b)"
    using strippable_prefix strip_not_strippable by blast
  then have "strip ws_seqs (trim s) = trim s"
    by (simp add: trim_def strip_id)
  moreover have "strip (map rev ws_seqs) (rev (trim s)) = rev (trim s)"
    by (simp add: trim_def strip_id strip_not_strippable)
  ultimately show ?thesis
    by (subst trim_def) simp
qed

text \<open>Text that begins and ends with a printable ASCII character has nothing to trim.\<close>

definition printable_ascii :: "char \<Rightarrow> bool" where
  "printable_ascii c \<longleftrightarrow> (of_char c :: nat) \<in> {33..126}"

lemma ws_not_printable:
  "t \<in> set ws_seqs \<Longrightarrow> \<not> printable_ascii (hd t)" "t \<in> set (map rev ws_seqs) \<Longrightarrow> \<not> printable_ascii (hd t)"
  by (auto simp: ws_seqs_def printable_ascii_def)

lemma trim_printable:
  assumes "s \<noteq> []" and "printable_ascii (hd s)" and "printable_ascii (last s)"
  shows "trim s = s"
proof -
  have hd: "hd t = hd u" if "t \<noteq> []" "prefix t u" for t u :: string
    using that by (auto simp: prefix_def)
  have "\<not> strippable ws_seqs s"
    using assms(2) hd ws_not_printable(1) by (metis strippable_def)
  moreover have "\<not> strippable (map rev ws_seqs) (rev s)"
    using assms(3) hd ws_not_printable(2) by (metis hd_rev strippable_def)
  ultimately show ?thesis by (simp add: trim_def strip_id)
qed

end
