(* ===== verification/Ordered_Map.thy ===== *)
theory Ordered_Map
  imports Hi_Prelude
begin

text \<open>
  The ordered collections of the Rust standard library the sources use. A \<open>BTreeMap\<close> is the list of
  its entries in increasing key order, a \<open>BTreeSet\<close> the increasing list of its elements. The locale
  \<open>ordered_map\<close> states what the components rely on (lookup after insertion and removal, iteration in
  key order) and derives from these laws how aggregates over the values change; the list
  representation interprets it.
\<close>

section \<open>The interface\<close>

locale ordered_map =
  fixes emp :: "'m"
    and get :: "'m \<Rightarrow> 'k::linorder \<Rightarrow> 'v option"
    and ins :: "'k \<Rightarrow> 'v \<Rightarrow> 'm \<Rightarrow> 'm"
    and del :: "'k \<Rightarrow> 'm \<Rightarrow> 'm"
    and items :: "'m \<Rightarrow> ('k \<times> 'v) list"
    and wf :: "'m \<Rightarrow> bool"
  assumes wf_emp: "wf emp"
    and wf_ins: "wf m \<Longrightarrow> wf (ins k v m)"
    and wf_del: "wf m \<Longrightarrow> wf (del k m)"
    and get_emp: "get emp k = None"
    and get_ins: "wf m \<Longrightarrow> get (ins k v m) = (get m)(k \<mapsto> v)"
    and get_del: "wf m \<Longrightarrow> get (del k m) = (get m)(k := None)"
    and items_get: "wf m \<Longrightarrow> map_of (items m) = get m"
    and items_sorted: "wf m \<Longrightarrow> sorted_wrt (<) (map fst (items m))"
begin

lemma distinct_keys: "wf m \<Longrightarrow> distinct (map fst (items m))"
  using items_sorted by (simp add: strict_sorted_iff)

lemma items_mem: "wf m \<Longrightarrow> (k, v) \<in> set (items m) \<longleftrightarrow> get m k = Some v"
  using distinct_keys items_get by (metis map_of_eq_Some_iff)

lemma finite_dom_get: "wf m \<Longrightarrow> finite (dom (get m))"
  by (metis finite_dom_map_of items_get)

lemma items_emp: "items emp = []"
proof -
  have "map_of (items emp) = Map.empty"
    by (simp add: items_get wf_emp get_emp fun_eq_iff)
  then show ?thesis by simp
qed

text \<open>The total of a measure over the values, as the loops over \<open>values()\<close> compute it.\<close>

lemma total_conv:
  fixes f :: "'v \<Rightarrow> nat"
  assumes "wf m"
  shows "sum_list (map (\<lambda>(k, v). f v) (items m)) = (\<Sum>k\<in>dom (get m). f (the (get m k)))"
proof -
  have d: "distinct (items m)"
    using distinct_keys [OF assms] by (simp add: distinct_map)
  have bij: "set (items m) = (\<lambda>k. (k, the (get m k))) ` dom (get m)"
    using items_mem [OF assms] by force
  have "sum_list (map (\<lambda>(k, v). f v) (items m)) = (\<Sum>(k, v)\<in>set (items m). f v)"
    using d by (rule sum_list_distinct_conv_sum_set)
  also have "\<dots> = (\<Sum>k\<in>dom (get m). f (the (get m k)))"
    unfolding bij by (subst sum.reindex) (auto simp: inj_on_def)
  finally show ?thesis .
qed

lemma total_ins_fresh:
  fixes f :: "'v \<Rightarrow> nat"
  assumes "wf m" and "get m k = None"
  shows "sum_list (map (\<lambda>(k, v). f v) (items (ins k v m))) =
         f v + sum_list (map (\<lambda>(k, v). f v) (items m))"
proof -
  have "(\<Sum>j\<in>dom (get m). f (the (((get m)(k \<mapsto> v)) j))) = (\<Sum>j\<in>dom (get m). f (the (get m j)))"
    using assms(2) by (intro sum.cong) auto
  then show ?thesis
    using assms finite_dom_get [OF assms(1)]
    by (simp add: total_conv wf_ins get_ins domIff)
qed

lemma total_ins_over:
  fixes f :: "'v \<Rightarrow> nat"
  assumes "wf m" and "get m k = Some w"
  shows "sum_list (map (\<lambda>(k, v). f v) (items (ins k v m))) + f w =
         f v + sum_list (map (\<lambda>(k, v). f v) (items m))"
proof -
  let ?D = "dom (get m)"
  have k: "k \<in> ?D" "finite ?D" using assms finite_dom_get by auto
  have "(\<Sum>j\<in>?D - {k}. f (the (((get m)(k \<mapsto> v)) j))) = (\<Sum>j\<in>?D - {k}. f (the (get m j)))"
    by (intro sum.cong) auto
  then show ?thesis
    using assms k by (simp add: total_conv wf_ins get_ins insert_absorb sum.remove [of ?D k])
qed

lemma total_del:
  fixes f :: "'v \<Rightarrow> nat"
  assumes "wf m" and "get m k = Some w"
  shows "sum_list (map (\<lambda>(k, v). f v) (items (del k m))) + f w =
         sum_list (map (\<lambda>(k, v). f v) (items m))"
proof -
  let ?D = "dom (get m)"
  have k: "k \<in> ?D" "finite ?D" using assms finite_dom_get by auto
  have "(\<Sum>j\<in>?D - {k}. f (the (((get m)(k := None)) j))) = (\<Sum>j\<in>?D - {k}. f (the (get m j)))"
    by (intro sum.cong) auto
  then show ?thesis
    using assms k by (simp add: total_conv wf_del get_del sum.remove [of ?D k])
qed

lemma count_conv:
  "length (filter P (map snd (items m))) =
   sum_list (map (\<lambda>(k, v). if P v then 1 else 0 :: nat) (items m))"
proof -
  have "length (filter P (map snd xs)) = sum_list (map (\<lambda>(k, v). if P v then 1 else 0 :: nat) xs)"
    for xs :: "('k \<times> 'v) list"
    by (induction xs) auto
  then show ?thesis .
qed

end

section \<open>The list representation\<close>

type_synonym ('k, 'v) btree_map = "('k \<times> 'v) list"

abbreviation bt_get :: "('k, 'v) btree_map \<Rightarrow> 'k \<Rightarrow> 'v option" where
  "bt_get m k \<equiv> map_of m k"

abbreviation bt_keys :: "('k, 'v) btree_map \<Rightarrow> 'k list" where
  "bt_keys m \<equiv> map fst m"

abbreviation bt_values :: "('k, 'v) btree_map \<Rightarrow> 'v list" where
  "bt_values m \<equiv> map snd m"

fun bt_insert :: "'k::linorder \<Rightarrow> 'v \<Rightarrow> ('k, 'v) btree_map \<Rightarrow> ('k, 'v) btree_map" where
  "bt_insert k v [] = [(k, v)]"
| "bt_insert k v ((k', v') # m) =
     (if k < k' then (k, v) # (k', v') # m
      else if k = k' then (k, v) # m
      else (k', v') # bt_insert k v m)"

definition bt_remove :: "'k \<Rightarrow> ('k, 'v) btree_map \<Rightarrow> ('k, 'v) btree_map" where
  "bt_remove k m = filter (\<lambda>p. fst p \<noteq> k) m"

definition bt_wf :: "('k::linorder, 'v) btree_map \<Rightarrow> bool" where
  "bt_wf m \<longleftrightarrow> sorted_wrt (<) (map fst m)"

lemma bt_keys_insert: "set (bt_keys (bt_insert k v m)) = insert k (set (bt_keys m))"
  by (induction k v m rule: bt_insert.induct) auto

lemma bt_get_insert: "bt_get (bt_insert k v m) j = (if j = k then Some v else bt_get m j)"
  if "bt_wf m"
  using that
proof (induction k v m rule: bt_insert.induct)
  case (2 k v k' v' m)
  have "bt_get m k = None" if "k < k'"
  proof -
    have "k \<notin> set (bt_keys m)" using 2 that by (force simp: bt_wf_def)
    then show ?thesis by (simp add: map_of_eq_None_iff)
  qed
  then show ?case using 2 by (auto simp: bt_wf_def)
qed simp

lemma bt_wf_insert: "bt_wf m \<Longrightarrow> bt_wf (bt_insert k v m)"
proof (induction k v m rule: bt_insert.induct)
  case (2 k v k' v' m)
  then show ?case
    using bt_keys_insert [of k v m] by (auto simp: bt_wf_def intro: less_trans)
qed (simp add: bt_wf_def)

lemma bt_wf_remove: "bt_wf m \<Longrightarrow> bt_wf (bt_remove k m)"
  by (induction m) (auto simp: bt_wf_def bt_remove_def)

lemma bt_get_remove: "bt_get (bt_remove k m) j = (if j = k then None else bt_get m j)"
  by (induction m) (auto simp: bt_remove_def)

interpretation bt: ordered_map "[]" bt_get bt_insert bt_remove "\<lambda>m. m" bt_wf
  by unfold_locales
    (auto simp: bt_wf_insert bt_wf_remove bt_get_insert bt_get_remove fun_eq_iff, auto simp: bt_wf_def)

declare bt_wf_insert [simp, intro] bt_wf_remove [simp, intro] bt_get_insert [simp] bt_get_remove [simp]

declare bt_insert.simps [simp del]

lemma bt_wf_Nil [simp]: "bt_wf []"
  by (simp add: bt_wf_def)

text \<open>Rewriting the value of a key that is present (\<open>get_mut\<close>) keeps the keys.\<close>

lemma bt_insert_keys_over:
  "bt_wf m \<Longrightarrow> bt_get m k = Some w \<Longrightarrow> bt_keys (bt_insert k v m) = bt_keys m"
proof (induction k v m rule: bt_insert.induct)
  case (2 k v k' v' m)
  have "bt_get m k = None" if "k < k'"
  proof -
    have "k \<notin> set (bt_keys m)" using 2 that by (force simp: bt_wf_def)
    then show ?thesis by (simp add: map_of_eq_None_iff)
  qed
  with 2 show ?case by (auto simp: bt_wf_def bt_insert.simps split: if_splits)
qed (simp add: bt_insert.simps)

section \<open>Ordered sets\<close>

type_synonym 'a btree_set = "'a list"

abbreviation bs_insert :: "'a::linorder \<Rightarrow> 'a btree_set \<Rightarrow> 'a btree_set" where
  "bs_insert x s \<equiv> insort_insert x s"

definition bs_extend :: "'a::linorder list \<Rightarrow> 'a btree_set \<Rightarrow> 'a btree_set" where
  "bs_extend xs s = fold insort_insert xs s"

definition bs_wf :: "'a::linorder btree_set \<Rightarrow> bool" where
  "bs_wf s \<longleftrightarrow> sorted s \<and> distinct s"

lemma bs_wf_Nil [simp]: "bs_wf []"
  by (simp add: bs_wf_def)

lemma bs_wf_insert [simp]: "bs_wf s \<Longrightarrow> bs_wf (bs_insert x s)"
  by (simp add: bs_wf_def sorted_insort_insert distinct_insort_insert)

lemma bs_extend_wf [simp]: "bs_wf s \<Longrightarrow> bs_wf (bs_extend xs s)"
  by (induction xs arbitrary: s) (auto simp: bs_extend_def)

lemma set_bs_extend [simp]: "set (bs_extend xs s) = set xs \<union> set s"
  by (induction xs arbitrary: s) (auto simp: bs_extend_def set_insort_insert)

end
