(* ===== verification/Step_System.thy ===== *)
theory Step_System
  imports Main
begin

text \<open>
  The contract shared by the stateful components: operations that act on a state one at a time. A
  component interprets \<open>step_system\<close> with its step function and its invariant, and
  \<open>ordered_steps\<close> with what no operation ever undoes; the facts about whole histories follow once
  and for all. Mutex-protected components have this shape whatever the interleaving of their
  callers, since each call runs to completion under the lock.
\<close>

locale step_system =
  fixes step :: "'op \<Rightarrow> 's \<Rightarrow> 's"
    and inv :: "'s \<Rightarrow> bool"
  assumes step_inv: "inv s \<Longrightarrow> inv (step a s)"
begin

lemma run_inv: "inv s \<Longrightarrow> inv (fold step ops s)"
  by (induction ops arbitrary: s) (simp_all add: step_inv)

end

locale ordered_steps = step_system step inv
  for step :: "'op \<Rightarrow> 's \<Rightarrow> 's" and inv :: "'s \<Rightarrow> bool" +
  fixes adv :: "'s \<Rightarrow> 's \<Rightarrow> bool"
  assumes adv_refl: "adv s s"
    and adv_trans: "adv s t \<Longrightarrow> adv t u \<Longrightarrow> adv s u"
    and step_adv: "inv s \<Longrightarrow> adv s (step a s)"
begin

lemma run_adv: "inv s \<Longrightarrow> adv s (fold step ops s)"
proof (induction ops arbitrary: s)
  case Nil
  then show ?case by (simp add: adv_refl)
next
  case (Cons a ops)
  then have "adv s (step a s)" and "adv (step a s) (fold step ops (step a s))"
    by (simp_all add: step_adv step_inv)
  then show ?case by (simp add: adv_trans)
qed

end

text \<open>
  The same contract for components whose steps also depend on inputs of the environment, such as fresh
  identifiers: the steps form a relation, and histories are its reflexive transitive closure.
\<close>

locale transition_system =
  fixes trans_step :: "'s \<Rightarrow> 's \<Rightarrow> bool"
    and trans_inv :: "'s \<Rightarrow> bool"
  assumes trans_step_inv: "trans_inv s \<Longrightarrow> trans_step s t \<Longrightarrow> trans_inv t"
begin

lemma steps_inv: "trans_step\<^sup>*\<^sup>* s t \<Longrightarrow> trans_inv s \<Longrightarrow> trans_inv t"
  by (induction rule: rtranclp_induct) (simp_all add: trans_step_inv)

end

locale ordered_transitions = transition_system trans_step trans_inv
  for trans_step :: "'s \<Rightarrow> 's \<Rightarrow> bool" and trans_inv :: "'s \<Rightarrow> bool" +
  fixes trans_adv :: "'s \<Rightarrow> 's \<Rightarrow> bool"
  assumes trans_adv_refl: "trans_adv s s"
    and trans_adv_trans: "trans_adv s t \<Longrightarrow> trans_adv t u \<Longrightarrow> trans_adv s u"
    and trans_step_adv: "trans_inv s \<Longrightarrow> trans_step s t \<Longrightarrow> trans_adv s t"
begin

lemma steps_adv: "trans_step\<^sup>*\<^sup>* s t \<Longrightarrow> trans_inv s \<Longrightarrow> trans_adv s t"
proof (induction rule: rtranclp_induct)
  case (step t u)
  then have "trans_inv t" using steps_inv by blast
  with step show ?case using trans_step_adv trans_adv_trans by blast
qed (rule trans_adv_refl)

end

end
