(* ===== verification/Budget.thy ===== *)
theory Budget
  imports Ordered_Map Step_System
begin

text \<open>
  The authoritative budget ledger of the RSI runtime, \<open>crates/hi-rsi-runtime/src/budget.rs\<close>: limits per
  budget dimension, consumed and reserved amounts, and the live reservations by identifier. Every
  method that takes \<open>&mut self\<close> returns its result paired with the ledger it leaves behind, on the
  error paths too. The shared ledger serialises the operations of concurrent stages through a
  mutex, so a concurrent history is a list of operations.
\<close>

section \<open>Data\<close>

datatype budget_kind =
  CpuTimeSeconds | DiskBytes | InputTokens | OutputTokens | ToolCalls | ModelCalls | CostMicrousd
| RepairIterations

fun budget_kind_index :: "budget_kind \<Rightarrow> nat" where
  "budget_kind_index CpuTimeSeconds = 0"
| "budget_kind_index DiskBytes = 1"
| "budget_kind_index InputTokens = 2"
| "budget_kind_index OutputTokens = 3"
| "budget_kind_index ToolCalls = 4"
| "budget_kind_index ModelCalls = 5"
| "budget_kind_index CostMicrousd = 6"
| "budget_kind_index RepairIterations = 7"

lemma budget_kind_index_inj: "budget_kind_index a = budget_kind_index b \<Longrightarrow> a = b"
  by (cases a; cases b) simp_all

text \<open>The derived \<open>Ord\<close> compares the variants in declaration order.\<close>

instantiation budget_kind :: linorder
begin

definition less_eq_budget_kind :: "budget_kind \<Rightarrow> budget_kind \<Rightarrow> bool" where
  "less_eq_budget_kind a b \<longleftrightarrow> budget_kind_index a \<le> budget_kind_index b"

definition less_budget_kind :: "budget_kind \<Rightarrow> budget_kind \<Rightarrow> bool" where
  "less_budget_kind a b \<longleftrightarrow> budget_kind_index a < budget_kind_index b"

instance
  by intro_classes
    (auto simp: less_eq_budget_kind_def less_budget_kind_def intro: budget_kind_index_inj)

end

record runtime_budgets =
  wall_time_seconds :: u64
  cpu_time_seconds :: u64
  memory_bytes :: u64
  disk_bytes :: u64
  input_tokens :: u64
  output_tokens :: u64
  tool_calls :: u64
  cost_microusd :: u64
  model_calls :: u32
  repair_iterations :: u32
  trace_bytes :: u64

type_synonym budget_map = "(budget_kind, u64) btree_map"

record budget_usage =
  consumed :: budget_map
  reserved :: budget_map

record budget_reservation =
  br_id :: u64
  br_kind :: budget_kind
  br_amount :: u64

record budget_ledger =
  limits :: budget_map
  usage :: budget_usage
  reservations :: "(u64, budget_reservation) btree_map"
  next_id :: u64

datatype budget_error =
  NonPositiveReservation
| BudgetExhausted budget_kind
| ReservationIdOverflow
| UnknownReservation
| ReservationMismatch
| SettlementExceedsReservation
| FloorWhileReserved
| FloorUnsettled
| FloorUnknownBudget budget_kind
| FloorExceedsLimit budget_kind
| BudgetOverflow
| BudgetUnderflow
| LedgerPoisoned

section \<open>Operations\<close>

definition budget_usage_default :: budget_usage where
  "budget_usage_default = \<lparr>consumed = [], reserved = []\<rparr>"

definition ledger_new :: "runtime_budgets \<Rightarrow> budget_ledger" where
  "ledger_new b =
     \<lparr>limits = fold (\<lambda>(k, v). bt_insert k v)
        [(CpuTimeSeconds, cpu_time_seconds b), (DiskBytes, disk_bytes b),
         (InputTokens, input_tokens b), (OutputTokens, output_tokens b),
         (ToolCalls, tool_calls b), (ModelCalls, ucast (model_calls b)),
         (CostMicrousd, cost_microusd b), (RepairIterations, ucast (repair_iterations b))] [],
      usage = budget_usage_default,
      reservations = [],
      next_id = 0\<rparr>"

text \<open>
  \<open>entry(kind).or_default()\<close> inserts a zero for an absent kind before the checked arithmetic, so the
  zero stays behind when the arithmetic fails.
\<close>

definition amount_in :: "budget_map \<Rightarrow> budget_kind \<Rightarrow> u64" where
  "amount_in m k = unwrap_or (bt_get m k) 0"

definition budget_add :: "budget_kind \<Rightarrow> u64 \<Rightarrow> budget_map \<Rightarrow> (budget_error, unit) result \<times> budget_map" where
  "budget_add k a m =
     (case checked_add (amount_in m k) a of
        None \<Rightarrow> (Inl BudgetOverflow, bt_insert k (amount_in m k) m)
      | Some v \<Rightarrow> (Inr (), bt_insert k v m))"

definition budget_subtract :: "budget_kind \<Rightarrow> u64 \<Rightarrow> budget_map \<Rightarrow> (budget_error, unit) result \<times> budget_map" where
  "budget_subtract k a m =
     (case checked_sub (amount_in m k) a of
        None \<Rightarrow> (Inl BudgetUnderflow, bt_insert k (amount_in m k) m)
      | Some v \<Rightarrow> (Inr (), bt_insert k v m))"

definition remaining :: "budget_kind \<Rightarrow> budget_ledger \<Rightarrow> u64" where
  "remaining k l =
     saturating_sub (amount_in (limits l) k)
       (saturating_add (amount_in (consumed (usage l)) k) (amount_in (reserved (usage l)) k))"

definition set_reserved :: "budget_map \<Rightarrow> budget_ledger \<Rightarrow> budget_ledger" where
  "set_reserved m l = l\<lparr>usage := (usage l)\<lparr>reserved := m\<rparr>\<rparr>"

definition set_consumed :: "budget_map \<Rightarrow> budget_ledger \<Rightarrow> budget_ledger" where
  "set_consumed m l = l\<lparr>usage := (usage l)\<lparr>consumed := m\<rparr>\<rparr>"

definition ledger_reserve ::
  "budget_kind \<Rightarrow> u64 \<Rightarrow> budget_ledger \<Rightarrow> (budget_error, budget_reservation) result \<times> budget_ledger" where
  "ledger_reserve k a l =
     (if \<not> 0 < a then (Inl NonPositiveReservation, l)
      else if \<not> a \<le> remaining k l then (Inl (BudgetExhausted k), l)
      else case checked_add (next_id l) 1 of
        None \<Rightarrow> (Inl ReservationIdOverflow, l)
      | Some i \<Rightarrow>
          let l1 = l\<lparr>next_id := i\<rparr>;
              r = \<lparr>br_id = i, br_kind = k, br_amount = a\<rparr>
          in case budget_add k a (reserved (usage l1)) of
               (Inl e, m) \<Rightarrow> (Inl e, set_reserved m l1)
             | (Inr _, m) \<Rightarrow>
                 (Inr r, (set_reserved m l1)\<lparr>reservations := bt_insert i r (reservations l1)\<rparr>))"

definition ledger_take ::
  "budget_reservation \<Rightarrow> budget_ledger \<Rightarrow> (budget_error, budget_reservation) result \<times> budget_ledger" where
  "ledger_take req l =
     (case bt_get (reservations l) (br_id req) of
        None \<Rightarrow> (Inl UnknownReservation, l)
      | Some held \<Rightarrow>
          let l1 = l\<lparr>reservations := bt_remove (br_id req) (reservations l)\<rparr>
          in if held = req then (Inr held, l1) else (Inl ReservationMismatch, l1))"

definition ledger_commit ::
  "budget_reservation \<Rightarrow> u64 \<Rightarrow> budget_ledger \<Rightarrow> (budget_error, unit) result \<times> budget_ledger" where
  "ledger_commit req actual l =
     (case bt_get (reservations l) (br_id req) of
        None \<Rightarrow> (Inl UnknownReservation, l)
      | Some held \<Rightarrow>
          if held \<noteq> req then (Inl ReservationMismatch, l)
          else if \<not> actual \<le> br_amount held then (Inl SettlementExceedsReservation, l)
          else case ledger_take req l of
            (Inl e, l1) \<Rightarrow> (Inl e, l1)
          | (Inr held1, l1) \<Rightarrow>
              (case budget_subtract (br_kind held1) (br_amount held1) (reserved (usage l1)) of
                 (Inl e, m) \<Rightarrow> (Inl e, set_reserved m l1)
               | (Inr _, m) \<Rightarrow>
                   (case budget_add (br_kind held1) actual (consumed (usage l1)) of
                      (r, c) \<Rightarrow> (r, set_consumed c (set_reserved m l1)))))"

definition ledger_release ::
  "budget_reservation \<Rightarrow> budget_ledger \<Rightarrow> (budget_error, unit) result \<times> budget_ledger" where
  "ledger_release req l =
     (case ledger_take req l of
        (Inl e, l1) \<Rightarrow> (Inl e, l1)
      | (Inr held, l1) \<Rightarrow>
          (case budget_subtract (br_kind held) (br_amount held) (reserved (usage l1)) of
             (r, m) \<Rightarrow> (r, set_reserved m l1)))"

definition ledger_consume ::
  "budget_kind \<Rightarrow> u64 \<Rightarrow> budget_ledger \<Rightarrow> (budget_error, unit) result \<times> budget_ledger" where
  "ledger_consume k a l =
     (case ledger_reserve k a l of
        (Inl e, l1) \<Rightarrow> (Inl e, l1)
      | (Inr r, l1) \<Rightarrow> ledger_commit r a l1)"

definition all_zero :: "budget_map \<Rightarrow> bool" where
  "all_zero m \<longleftrightarrow> (\<forall>a \<in> set (bt_values m). a = 0)"

definition floor_entry_ok :: "budget_map \<Rightarrow> budget_kind \<times> u64 \<Rightarrow> (budget_error, unit) result" where
  "floor_entry_ok lim e =
     (case bt_get lim (fst e) of
        None \<Rightarrow> Inl (FloorUnknownBudget (fst e))
      | Some limit \<Rightarrow> ensure (snd e \<le> limit) (FloorExceedsLimit (fst e)) (Inr ()))"

definition raise_to :: "budget_kind \<times> u64 \<Rightarrow> budget_map \<Rightarrow> budget_map" where
  "raise_to e m = bt_insert (fst e) (max (amount_in m (fst e)) (snd e)) m"

definition merge_consumption_floor ::
  "budget_usage \<Rightarrow> budget_ledger \<Rightarrow> (budget_error, budget_usage) result \<times> budget_ledger" where
  "merge_consumption_floor fl l =
     (if \<not> (reservations l = [] \<and> all_zero (reserved (usage l))) then (Inl FloorWhileReserved, l)
      else if \<not> all_zero (reserved fl) then (Inl FloorUnsettled, l)
      else case check_all (floor_entry_ok (limits l)) (consumed fl) of
        Inl e \<Rightarrow> (Inl e, l)
      | Inr _ \<Rightarrow>
          let l1 = set_consumed (fold raise_to (consumed fl) (consumed (usage l))) l
          in (Inr (usage l1), l1))"

section \<open>The shared ledger\<close>

record shared_ledger =
  sl_poisoned :: bool
  sl_ledger :: budget_ledger

definition shared_new :: "runtime_budgets \<Rightarrow> shared_ledger" where
  "shared_new b = \<lparr>sl_poisoned = False, sl_ledger = ledger_new b\<rparr>"

definition locked ::
  "(budget_ledger \<Rightarrow> (budget_error, 'a) result \<times> budget_ledger) \<Rightarrow>
   shared_ledger \<Rightarrow> (budget_error, 'a) result \<times> shared_ledger" where
  "locked f s =
     (if sl_poisoned s then (Inl LedgerPoisoned, s)
      else case f (sl_ledger s) of (r, l) \<Rightarrow> (r, s\<lparr>sl_ledger := l\<rparr>))"

definition shared_reserve ::
  "budget_kind \<Rightarrow> u64 \<Rightarrow> shared_ledger \<Rightarrow> (budget_error, budget_reservation) result \<times> shared_ledger" where
  "shared_reserve k a = locked (ledger_reserve k a)"

definition shared_commit ::
  "budget_reservation \<Rightarrow> u64 \<Rightarrow> shared_ledger \<Rightarrow> (budget_error, unit) result \<times> shared_ledger" where
  "shared_commit r a = locked (ledger_commit r a)"

definition shared_release ::
  "budget_reservation \<Rightarrow> shared_ledger \<Rightarrow> (budget_error, unit) result \<times> shared_ledger" where
  "shared_release r = locked (ledger_release r)"

definition shared_consume ::
  "budget_kind \<Rightarrow> u64 \<Rightarrow> shared_ledger \<Rightarrow> (budget_error, unit) result \<times> shared_ledger" where
  "shared_consume k a s = (if a = 0 then (Inr (), s) else locked (ledger_consume k a) s)"

definition shared_usage :: "shared_ledger \<Rightarrow> (budget_error, budget_usage) result" where
  "shared_usage s = (if sl_poisoned s then Inl LedgerPoisoned else Inr (usage (sl_ledger s)))"

definition shared_merge_floor ::
  "budget_usage \<Rightarrow> shared_ledger \<Rightarrow> (budget_error, budget_usage) result \<times> shared_ledger" where
  "shared_merge_floor fl = locked (merge_consumption_floor fl)"

definition shared_remaining :: "budget_kind \<Rightarrow> shared_ledger \<Rightarrow> (budget_error, u64) result" where
  "shared_remaining k s = (if sl_poisoned s then Inl LedgerPoisoned else Inr (remaining k (sl_ledger s)))"

text \<open>
  Histories: the calls that reach one shared ledger from any number of threads, in the order in
  which they obtain its lock.
\<close>

datatype ledger_op =
  OpReserve budget_kind u64
| OpCommit budget_reservation u64
| OpRelease budget_reservation
| OpConsume budget_kind u64
| OpMergeFloor budget_usage

fun ledger_step :: "ledger_op \<Rightarrow> shared_ledger \<Rightarrow> shared_ledger" where
  "ledger_step (OpReserve k a) s = snd (shared_reserve k a s)"
| "ledger_step (OpCommit r a) s = snd (shared_commit r a s)"
| "ledger_step (OpRelease r) s = snd (shared_release r s)"
| "ledger_step (OpConsume k a) s = snd (shared_consume k a s)"
| "ledger_step (OpMergeFloor fl) s = snd (shared_merge_floor fl s)"

definition ledger_run :: "ledger_op list \<Rightarrow> shared_ledger \<Rightarrow> shared_ledger" where
  "ledger_run ops s = fold ledger_step ops s"

section \<open>The invariant\<close>

definition held_total :: "budget_kind \<Rightarrow> (u64, budget_reservation) btree_map \<Rightarrow> nat" where
  "held_total k m = sum_list (map (\<lambda>(i, r). if br_kind r = k then unat (br_amount r) else 0) m)"

definition ledger_wf :: "budget_ledger \<Rightarrow> bool" where
  "ledger_wf l \<longleftrightarrow>
     bt_wf (limits l) \<and> bt_wf (consumed (usage l)) \<and> bt_wf (reserved (usage l)) \<and>
     bt_wf (reservations l) \<and>
     (\<forall>i r. bt_get (reservations l) i = Some r \<longrightarrow> br_id r = i \<and> i \<le> next_id l)"

definition within_limits :: "budget_ledger \<Rightarrow> bool" where
  "within_limits l \<longleftrightarrow>
     (\<forall>k. unat (amount_in (consumed (usage l)) k) + unat (amount_in (reserved (usage l)) k)
          \<le> unat (amount_in (limits l) k))"

text \<open>The reserved amounts cover the live reservations.\<close>

definition backed :: "budget_ledger \<Rightarrow> bool" where
  "backed l \<longleftrightarrow> (\<forall>k. held_total k (reservations l) \<le> unat (amount_in (reserved (usage l)) k))"

definition ledger_inv :: "budget_ledger \<Rightarrow> bool" where
  "ledger_inv l \<longleftrightarrow> ledger_wf l \<and> within_limits l \<and> backed l"

lemmas ledger_inv_defs = ledger_inv_def ledger_wf_def within_limits_def backed_def

lemma amount_in_insert [simp]:
  "bt_wf m \<Longrightarrow> amount_in (bt_insert k v m) j = (if j = k then v else amount_in m j)"
  by (simp add: amount_in_def)

lemma amount_in_Nil [simp]: "amount_in [] k = 0"
  by (simp add: amount_in_def)

lemma all_zero_amount: "all_zero m \<Longrightarrow> amount_in m k = 0"
  by (force simp: all_zero_def amount_in_def unwrap_or_def split: option.splits dest: map_of_SomeD)

lemma held_total_fresh:
  "bt_wf m \<Longrightarrow> bt_get m i = None \<Longrightarrow>
   held_total k (bt_insert i r m) = (if br_kind r = k then unat (br_amount r) else 0) + held_total k m"
  using bt.total_ins_fresh [of m i "\<lambda>r. if br_kind r = k then unat (br_amount r) else 0" r]
  by (simp add: held_total_def)

lemma held_total_remove:
  "bt_wf m \<Longrightarrow> bt_get m i = Some r \<Longrightarrow>
   held_total k (bt_remove i m) + (if br_kind r = k then unat (br_amount r) else 0) = held_total k m"
  using bt.total_del [of m i r "\<lambda>r. if br_kind r = k then unat (br_amount r) else 0"]
  by (simp add: held_total_def)

lemma set_reserved_simps [simp]:
  "limits (set_reserved m l) = limits l" "reservations (set_reserved m l) = reservations l"
  "next_id (set_reserved m l) = next_id l" "consumed (usage (set_reserved m l)) = consumed (usage l)"
  "reserved (usage (set_reserved m l)) = m"
  by (simp_all add: set_reserved_def)

lemma set_consumed_simps [simp]:
  "limits (set_consumed m l) = limits l" "reservations (set_consumed m l) = reservations l"
  "next_id (set_consumed m l) = next_id l" "consumed (usage (set_consumed m l)) = m"
  "reserved (usage (set_consumed m l)) = reserved (usage l)"
  by (simp_all add: set_consumed_def)

lemma ledger_wf_get:
  "ledger_wf l \<Longrightarrow> bt_get (reservations l) i = Some r \<Longrightarrow> br_id r = i \<and> i \<le> next_id l"
  by (simp add: ledger_wf_def)

lemma ledger_wf_fresh:
  assumes "ledger_wf l" and "next_id l < i"
  shows "bt_get (reservations l) i = None"
  using ledger_wf_get [OF assms(1)] assms(2) by (metis leD option.exhaust)

lemma remaining_exact:
  assumes "within_limits l"
  shows "unat (remaining k l) =
         unat (amount_in (limits l) k) -
         (unat (amount_in (consumed (usage l)) k) + unat (amount_in (reserved (usage l)) k))"
proof -
  have "unat (amount_in (consumed (usage l)) k) + unat (amount_in (reserved (usage l)) k)
        \<le> unat (amount_in (limits l) k)"
    using assms by (simp add: within_limits_def)
  moreover from this have
    "unat (amount_in (consumed (usage l)) k) + unat (amount_in (reserved (usage l)) k)
     \<le> 18446744073709551615"
    using unat_u64_le_bound order_trans by blast
  ultimately show ?thesis
    by (simp add: remaining_def rust_arith min_absorb1)
qed

section \<open>Every operation keeps the invariant\<close>

lemma ledger_inv_new: "ledger_inv (ledger_new b)"
proof -
  have "bt_wf (limits (ledger_new b))" by (simp add: ledger_new_def)
  then show ?thesis
    by (simp add: ledger_inv_defs held_total_def) (simp add: ledger_new_def budget_usage_default_def)
qed

text \<open>A successful reservation, and the only ways in which one fails.\<close>

lemma reserve_cases:
  assumes "ledger_inv l"
  obtains
    (nonpositive) "a = 0" "ledger_reserve k a l = (Inl NonPositiveReservation, l)"
  | (exhausted) "a \<noteq> 0" "remaining k l < a" "ledger_reserve k a l = (Inl (BudgetExhausted k), l)"
  | (ids) "a \<noteq> 0" "a \<le> remaining k l" "next_id l = - 1"
      "ledger_reserve k a l = (Inl ReservationIdOverflow, l)"
  | (granted) i v where "a \<noteq> 0" "a \<le> remaining k l" "unat i = unat (next_id l) + 1"
      "unat v = unat (amount_in (reserved (usage l)) k) + unat a"
      "ledger_reserve k a l =
         (Inr \<lparr>br_id = i, br_kind = k, br_amount = a\<rparr>,
          (set_reserved (bt_insert k v (reserved (usage l))) (l\<lparr>next_id := i\<rparr>))
            \<lparr>reservations := bt_insert i \<lparr>br_id = i, br_kind = k, br_amount = a\<rparr> (reservations l)\<rparr>)"
proof (cases "a = 0")
  case True
  then show ?thesis by (intro nonpositive) (simp_all add: ledger_reserve_def)
next
  case a: False
  then have pos: "0 < a" by (simp add: word_gt_0)
  show ?thesis
  proof (cases "a \<le> remaining k l")
    case False
    with a pos show ?thesis by (intro exhausted) (simp_all add: ledger_reserve_def not_le)
  next
    case le: True
    show ?thesis
    proof (cases "checked_add (next_id l) 1")
      case None
      then have "18446744073709551615 \<le> unat (next_id l)" by (simp add: rust_arith)
      then have "next_id l = - 1"
        by (metis unat_u64_max unat_u64_le_bound le_antisym)
      with a pos le None show ?thesis by (intro ids) (simp_all add: ledger_reserve_def)
    next
      case (Some i)
      have "unat (amount_in (reserved (usage l)) k) + unat a \<le> unat (amount_in (limits l) k)"
        using le assms remaining_exact [of l k] pos
        by (auto simp: ledger_inv_def word_le_nat_alt word_less_nat_alt)
      then have "unat (amount_in (reserved (usage l)) k) + unat a < 2 ^ LENGTH(64)"
        using unat_u64_bound [of "amount_in (limits l) k"] by (simp del: unat_u64_bound)
      then obtain v where v: "checked_add (amount_in (reserved (usage l)) k) a = Some v"
        by (auto simp: checked_add_def)
      have "unat i = unat (next_id l) + 1"
        and "unat v = unat (amount_in (reserved (usage l)) k) + unat a"
        using Some v by (simp_all add: rust_arith)
      moreover have "ledger_reserve k a l =
         (Inr \<lparr>br_id = i, br_kind = k, br_amount = a\<rparr>,
          (set_reserved (bt_insert k v (reserved (usage l))) (l\<lparr>next_id := i\<rparr>))
            \<lparr>reservations := bt_insert i \<lparr>br_id = i, br_kind = k, br_amount = a\<rparr> (reservations l)\<rparr>)"
        using a pos le Some v by (simp add: ledger_reserve_def budget_add_def Let_def)
      ultimately show ?thesis
        using a le by (intro granted [of i v])
    qed
  qed
qed

lemma reserve_inv:
  assumes "ledger_inv l"
  shows "ledger_inv (snd (ledger_reserve k a l))"
  using assms
proof (cases rule: reserve_cases [where k = k and a = a])
  case (granted i v)
  let ?r = "\<lparr>br_id = i, br_kind = k, br_amount = a\<rparr>"
  let ?l0 = "set_reserved (bt_insert k v (reserved (usage l))) (l\<lparr>next_id := i\<rparr>)"
  let ?l = "?l0\<lparr>reservations := bt_insert i ?r (reservations l)\<rparr>"
  have i: "next_id l < i" using granted by (simp add: word_less_nat_alt)
  have le: "unat (amount_in (consumed (usage l)) k) + unat v \<le> unat (amount_in (limits l) k)"
  proof -
    have w: "within_limits l" using assms by (simp add: ledger_inv_def)
    have "unat (amount_in (consumed (usage l)) k) + unat (amount_in (reserved (usage l)) k)
        \<le> unat (amount_in (limits l) k)"
      using w by (simp add: within_limits_def)
    moreover have "unat a \<le> unat (remaining k l)"
      using granted(2) by (simp add: word_le_nat_alt)
    ultimately show ?thesis
      using granted(4) remaining_exact [OF w, of k] by linarith
  qed
  have fresh: "bt_get (reservations l) i = None"
    using assms i ledger_wf_fresh by (simp add: ledger_inv_def)
  have held: "held_total j (bt_insert i ?r (reservations l)) =
      (if k = j then unat a else 0) + held_total j (reservations l)" for j
    using held_total_fresh [of "reservations l" i j ?r] fresh assms
    by (simp add: ledger_inv_def ledger_wf_def)
  have old: "br_id r = j \<and> j \<le> i" if "bt_get (reservations l) j = Some r" for j r
    using ledger_wf_get [OF _ that] assms i by (auto simp: ledger_inv_def)
  have wf: "ledger_wf ?l"
    using assms old by (simp add: ledger_inv_def ledger_wf_def)
  have "ledger_inv ?l"
    using assms granted(4) le held wf
    by (simp add: ledger_inv_def within_limits_def backed_def ledger_wf_def)
  then show ?thesis using granted by simp
qed (use assms in auto)

lemma held_le_reserved:
  assumes "ledger_inv l" and "bt_get (reservations l) i = Some r"
  shows "unat (br_amount r) \<le> unat (amount_in (reserved (usage l)) (br_kind r))"
proof -
  have "bt_wf (reservations l)" using assms(1) by (simp add: ledger_inv_def ledger_wf_def)
  then have "unat (br_amount r) \<le> held_total (br_kind r) (reservations l)"
    using held_total_remove [of "reservations l" i r "br_kind r"] assms(2) by simp
  also have "\<dots> \<le> unat (amount_in (reserved (usage l)) (br_kind r))"
    using assms(1) by (simp add: ledger_inv_def backed_def)
  finally show ?thesis .
qed

text \<open>Dropping a reservation keeps the invariant: the reserved amounts still cover the rest.\<close>

abbreviation forget :: "u64 \<Rightarrow> budget_ledger \<Rightarrow> budget_ledger" where
  "forget i l \<equiv> l\<lparr>reservations := bt_remove i (reservations l)\<rparr>"

lemma release_cases:
  assumes "ledger_inv l"
  obtains
    (unknown) "bt_get (reservations l) (br_id req) = None"
      "ledger_release req l = (Inl UnknownReservation, l)"
  | (mismatch) held where "bt_get (reservations l) (br_id req) = Some held" "held \<noteq> req"
      "ledger_release req l = (Inl ReservationMismatch, forget (br_id req) l)"
  | (released) m where "bt_get (reservations l) (br_id req) = Some req"
      "unat (amount_in (reserved (usage l)) (br_kind req)) = unat m + unat (br_amount req)"
      "ledger_release req l =
         (Inr (), set_reserved (bt_insert (br_kind req) m (reserved (usage l))) (forget (br_id req) l))"
proof (cases "bt_get (reservations l) (br_id req)")
  case None
  then show ?thesis by (intro unknown) (simp_all add: ledger_release_def ledger_take_def)
next
  case (Some held)
  show ?thesis
  proof (cases "held = req")
    case False
    with Some show ?thesis
      by (intro mismatch) (simp_all add: ledger_release_def ledger_take_def Let_def)
  next
    case True
    then have get: "bt_get (reservations l) (br_id req) = Some req" using Some by simp
    obtain m where m: "checked_sub (amount_in (reserved (usage l)) (br_kind req)) (br_amount req) = Some m"
      using held_le_reserved [OF assms get]
      by (auto simp: checked_sub_def word_le_nat_alt)
    then have "unat (amount_in (reserved (usage l)) (br_kind req)) = unat m + unat (br_amount req)"
      by (simp add: rust_arith)
    moreover have "ledger_release req l =
         (Inr (), set_reserved (bt_insert (br_kind req) m (reserved (usage l))) (forget (br_id req) l))"
      using get m by (simp add: ledger_release_def ledger_take_def budget_subtract_def Let_def)
    ultimately show ?thesis using get by (intro released)
  qed
qed

lemma commit_cases:
  assumes "ledger_inv l"
  obtains
    (unknown) "bt_get (reservations l) (br_id req) = None"
      "ledger_commit req actual l = (Inl UnknownReservation, l)"
  | (mismatch) held where "bt_get (reservations l) (br_id req) = Some held" "held \<noteq> req"
      "ledger_commit req actual l = (Inl ReservationMismatch, l)"
  | (excessive) "bt_get (reservations l) (br_id req) = Some req" "br_amount req < actual"
      "ledger_commit req actual l = (Inl SettlementExceedsReservation, l)"
  | (settled) m c where "bt_get (reservations l) (br_id req) = Some req" "actual \<le> br_amount req"
      "unat (amount_in (reserved (usage l)) (br_kind req)) = unat m + unat (br_amount req)"
      "unat c = unat (amount_in (consumed (usage l)) (br_kind req)) + unat actual"
      "ledger_commit req actual l =
         (Inr (), set_consumed (bt_insert (br_kind req) c (consumed (usage l)))
            (set_reserved (bt_insert (br_kind req) m (reserved (usage l))) (forget (br_id req) l)))"
proof (cases "bt_get (reservations l) (br_id req)")
  case None
  then show ?thesis by (intro unknown) (simp_all add: ledger_commit_def)
next
  case (Some held)
  show ?thesis
  proof (cases "held = req \<and> actual \<le> br_amount req")
    case False
    with Some show ?thesis
      by (cases "held = req") (auto intro: mismatch excessive simp: ledger_commit_def)
  next
    case True
    then have get: "bt_get (reservations l) (br_id req) = Some req" and le: "actual \<le> br_amount req"
      using Some by simp_all
    let ?res = "unat (amount_in (reserved (usage l)) (br_kind req))"
    let ?con = "unat (amount_in (consumed (usage l)) (br_kind req))"
    have held: "unat (br_amount req) \<le> ?res" by (rule held_le_reserved [OF assms get])
    then obtain m where m: "checked_sub (amount_in (reserved (usage l)) (br_kind req)) (br_amount req) = Some m"
      by (auto simp: checked_sub_def word_le_nat_alt)
    have "?con + ?res \<le> unat (amount_in (limits l) (br_kind req))"
      using assms by (simp add: ledger_inv_def within_limits_def)
    moreover have "unat actual \<le> unat (br_amount req)" using le by (simp add: word_le_nat_alt)
    ultimately have "?con + unat actual \<le> unat (amount_in (limits l) (br_kind req))"
      using held by linarith
    then have "?con + unat actual < 2 ^ LENGTH(64)"
      using unat_u64_bound [of "amount_in (limits l) (br_kind req)"] by (simp del: unat_u64_bound)
    then obtain c where c: "checked_add (amount_in (consumed (usage l)) (br_kind req)) actual = Some c"
      by (auto simp: checked_add_def)
    have "?res = unat m + unat (br_amount req)" "unat c = ?con + unat actual"
      using m c by (simp_all add: rust_arith)
    moreover have "ledger_commit req actual l =
         (Inr (), set_consumed (bt_insert (br_kind req) c (consumed (usage l)))
            (set_reserved (bt_insert (br_kind req) m (reserved (usage l))) (forget (br_id req) l)))"
      using get le m c
      by (simp add: ledger_commit_def ledger_take_def budget_subtract_def budget_add_def Let_def)
    ultimately show ?thesis using get le by (intro settled)
  qed
qed

lemma ledger_wf_forget:
  assumes "ledger_wf l"
  shows "ledger_wf (forget i l)"
  using assms by (auto simp: ledger_wf_def split: if_splits)

lemma ledger_wf_set_reserved:
  "ledger_wf l \<Longrightarrow> bt_wf m \<Longrightarrow> ledger_wf (set_reserved m l)"
  by (simp add: ledger_wf_def)

lemma ledger_wf_set_consumed:
  "ledger_wf l \<Longrightarrow> bt_wf m \<Longrightarrow> ledger_wf (set_consumed m l)"
  by (simp add: ledger_wf_def)

lemma ledger_inv_wfs:
  assumes "ledger_inv l"
  shows "bt_wf (consumed (usage l))" "bt_wf (reserved (usage l))" "bt_wf (reservations l)" "ledger_wf l"
  using assms by (simp_all add: ledger_inv_def ledger_wf_def)

lemma backed_settle:
  assumes "ledger_inv l" and "bt_get (reservations l) i = Some r"
    and "unat (amount_in (reserved (usage l)) (br_kind r)) = unat m + unat (br_amount r)"
  shows "held_total k (bt_remove i (reservations l)) \<le>
         unat (if k = br_kind r then m else amount_in (reserved (usage l)) k)"
proof -
  have "bt_wf (reservations l)" using assms(1) by (simp add: ledger_inv_def ledger_wf_def)
  then have "held_total k (bt_remove i (reservations l)) + (if br_kind r = k then unat (br_amount r) else 0) =
      held_total k (reservations l)"
    using assms(2) by (rule held_total_remove)
  moreover have "held_total k (reservations l) \<le> unat (amount_in (reserved (usage l)) k)"
    using assms(1) by (simp add: ledger_inv_def backed_def)
  ultimately show ?thesis using assms(3) by (auto split: if_splits)
qed

lemma release_inv:
  assumes "ledger_inv l"
  shows "ledger_inv (snd (ledger_release req l))"
  using assms
proof (cases rule: release_cases [where req = req])
  case (mismatch held)
  have "held_total k (bt_remove (br_id req) (reservations l)) \<le> unat (amount_in (reserved (usage l)) k)" for k
    using held_total_remove [OF _ mismatch(1), of k] assms
    by (force simp: ledger_inv_def ledger_wf_def backed_def intro: order_trans [rotated])
  with assms ledger_wf_forget mismatch show ?thesis
    by (auto simp: ledger_inv_def within_limits_def backed_def)
next
  case (released m)
  have "within_limits (set_reserved (bt_insert (br_kind req) m (reserved (usage l))) (forget (br_id req) l))"
    using assms released(2) unfolding ledger_inv_def ledger_wf_def within_limits_def
    by (simp, metis add_leD1 add.assoc)
  moreover have "ledger_wf (set_reserved (bt_insert (br_kind req) m (reserved (usage l))) (forget (br_id req) l))"
    by (intro ledger_wf_set_reserved ledger_wf_forget bt_wf_insert ledger_inv_wfs assms)
  moreover have "backed (set_reserved (bt_insert (br_kind req) m (reserved (usage l))) (forget (br_id req) l))"
    using backed_settle [OF assms released(1,2)] ledger_inv_wfs(2) [OF assms] by (simp add: backed_def)
  ultimately show ?thesis
    unfolding released(3) by (simp add: ledger_inv_def)
qed (use assms in auto)

lemma commit_inv:
  assumes "ledger_inv l"
  shows "ledger_inv (snd (ledger_commit req actual l))"
  using assms
proof (cases rule: commit_cases [where req = req and actual = actual])
  case (settled m c)
  let ?l = "set_consumed (bt_insert (br_kind req) c (consumed (usage l)))
            (set_reserved (bt_insert (br_kind req) m (reserved (usage l))) (forget (br_id req) l))"
  have "unat actual \<le> unat (br_amount req)" using settled(2) by (simp add: word_le_nat_alt)
  moreover have "unat (amount_in (consumed (usage l)) (br_kind req)) +
      unat (amount_in (reserved (usage l)) (br_kind req)) \<le> unat (amount_in (limits l) (br_kind req))"
    using assms by (simp add: ledger_inv_def within_limits_def)
  ultimately have "unat c + unat m \<le> unat (amount_in (limits l) (br_kind req))"
    using settled(3,4) by linarith
  then have "within_limits ?l"
    using assms by (simp add: ledger_inv_def ledger_wf_def within_limits_def)
  moreover have "ledger_wf ?l"
    by (intro ledger_wf_set_consumed ledger_wf_set_reserved ledger_wf_forget bt_wf_insert
        ledger_inv_wfs assms)
  moreover have "backed ?l"
    using backed_settle [OF assms settled(1,3)] ledger_inv_wfs(2) [OF assms] by (simp add: backed_def)
  ultimately show ?thesis
    unfolding settled(5) by (simp add: ledger_inv_def)
qed (use assms in auto)

lemma consume_inv: "ledger_inv l \<Longrightarrow> ledger_inv (snd (ledger_consume k a l))"
  using reserve_inv [of l k a]
  by (auto simp: ledger_consume_def commit_inv split: prod.splits sum.splits)

text \<open>Raising consumption to a floor: pointwise maximum, never lower than before.\<close>

lemma raise_to_wf [simp]: "bt_wf m \<Longrightarrow> bt_wf (raise_to e m)"
  by (simp add: raise_to_def)

lemma amount_in_raise_to:
  "bt_wf m \<Longrightarrow> amount_in (raise_to e m) k = (if k = fst e then max (amount_in m k) (snd e) else amount_in m k)"
  by (simp add: raise_to_def)

lemma fold_raise_to_wf [simp]: "bt_wf m \<Longrightarrow> bt_wf (fold raise_to es m)"
  by (induction es arbitrary: m) auto

lemma fold_raise_to_ge: "bt_wf m \<Longrightarrow> amount_in m k \<le> amount_in (fold raise_to es m) k"
proof (induction es arbitrary: m)
  case (Cons e es)
  have "amount_in m k \<le> amount_in (raise_to e m) k"
    using Cons.prems by (simp add: amount_in_raise_to)
  also have "\<dots> \<le> amount_in (fold raise_to es (raise_to e m)) k"
    using Cons by simp
  finally show ?case by simp
qed simp

lemma fold_raise_to_le:
  "bt_wf m \<Longrightarrow> amount_in m k \<le> b \<Longrightarrow> (\<And>a. (k, a) \<in> set es \<Longrightarrow> a \<le> b) \<Longrightarrow>
   amount_in (fold raise_to es m) k \<le> b"
proof (induction es arbitrary: m)
  case (Cons e es)
  have "amount_in (raise_to e m) k \<le> b"
    using Cons.prems by (cases e) (auto simp: amount_in_raise_to)
  with Cons show ?case by simp
qed simp

lemma fold_raise_to_max:
  assumes "bt_wf m" and "bt_wf es"
  shows "amount_in (fold raise_to es m) k = max (amount_in m k) (amount_in es k)"
  using assms
proof (induction es arbitrary: m)
  case Nil
  then show ?case by (simp add: max_def)
next
  case (Cons e es)
  obtain j a where e: "e = (j, a)" by (cases e)
  have wf: "bt_wf es" and j: "bt_get es j = None"
    using Cons.prems(2) e by (auto simp: bt_wf_def map_of_eq_None_iff)
  have "amount_in (fold raise_to es (raise_to e m)) k = max (amount_in (raise_to e m) k) (amount_in es k)"
    using Cons.IH [OF _ wf] Cons.prems(1) by simp
  also have "\<dots> = max (amount_in m k) (amount_in (e # es) k)"
  proof -
    have "amount_in (e # es) k = (if k = j then a else amount_in es k)" and "amount_in es j = 0"
      using e j by (simp_all add: amount_in_def)
    then show ?thesis
      using Cons.prems(1) e by (auto simp: amount_in_raise_to max_def)
  qed
  finally show ?case by simp
qed

lemma floor_entries_ok:
  assumes "check_all (floor_entry_ok lim) es = Inr ()" and "(k, a) \<in> set es"
  shows "a \<le> amount_in lim k"
proof -
  have "floor_entry_ok lim (k, a) = Inr ()" using assms by auto
  then show ?thesis
    by (auto simp: floor_entry_ok_def amount_in_def split: option.splits)
qed

lemma merge_cases:
  obtains
    (refused) e where "merge_consumption_floor fl l = (Inl e, l)"
  | (merged) l' where "reservations l = []" "all_zero (reserved (usage l))"
      "check_all (floor_entry_ok (limits l)) (consumed fl) = Inr ()"
      "l' = set_consumed (fold raise_to (consumed fl) (consumed (usage l))) l"
      "merge_consumption_floor fl l = (Inr (usage l'), l')"
proof (cases "fst (merge_consumption_floor fl l)")
  case (Inl e)
  then show ?thesis
    by (intro refused [of e])
      (auto simp: merge_consumption_floor_def Let_def simp del: check_all_ok split: if_splits sum.splits)
next
  case (Inr u)
  then show ?thesis
    by (intro merged)
      (auto simp: merge_consumption_floor_def Let_def simp del: check_all_ok split: if_splits sum.splits)
qed

lemma merge_inv:
  assumes "ledger_inv l"
  shows "ledger_inv (snd (merge_consumption_floor fl l))"
proof (cases rule: merge_cases [of fl l])
  case (merged l')
  have wf: "ledger_wf l'"
    using merged(4) assms by (simp add: ledger_inv_def ledger_wf_def)
  have "amount_in (consumed (usage l')) k \<le> amount_in (limits l) k" for k
  proof -
    have "amount_in (consumed (usage l)) k \<le> amount_in (limits l) k"
      using assms unfolding ledger_inv_def within_limits_def word_le_nat_alt by (blast intro: add_leD1)
    then show ?thesis
      using merged(3,4) ledger_inv_wfs(1) [OF assms] floor_entries_ok
      by (simp add: fold_raise_to_le)
  qed
  then have "within_limits l'"
    using merged(2,4) by (simp add: within_limits_def all_zero_amount word_le_nat_alt)
  with wf merged(1,4,5) show ?thesis
    by (simp add: ledger_inv_def backed_def held_total_def)
qed (use assms in simp)

section \<open>What no operation undoes\<close>

text \<open>
  Limits are fixed, consumption only grows, identifiers are never reused, and an identifier that
  has been issued and is no longer live stays dead.
\<close>

definition ledger_adv :: "budget_ledger \<Rightarrow> budget_ledger \<Rightarrow> bool" where
  "ledger_adv l l' \<longleftrightarrow>
     limits l' = limits l \<and>
     (\<forall>k. amount_in (consumed (usage l)) k \<le> amount_in (consumed (usage l')) k) \<and>
     next_id l \<le> next_id l' \<and>
     (\<forall>i \<le> next_id l. bt_get (reservations l) i = None \<longrightarrow> bt_get (reservations l') i = None)"

lemma ledger_adv_refl: "ledger_adv l l"
  by (simp add: ledger_adv_def)

lemma ledger_adv_trans: "ledger_adv a b \<Longrightarrow> ledger_adv b c \<Longrightarrow> ledger_adv a c"
  unfolding ledger_adv_def by (metis order_trans)

lemma reserve_adv:
  assumes "ledger_inv l"
  shows "ledger_adv l (snd (ledger_reserve k a l))"
  using assms
proof (cases rule: reserve_cases [where k = k and a = a])
  case (granted i v)
  then have "next_id l < i" by (simp add: word_less_nat_alt)
  with granted(5) ledger_inv_wfs(3) [OF assms] show ?thesis
    by (auto simp: ledger_adv_def)
qed (simp_all add: ledger_adv_refl)

lemma release_adv:
  assumes "ledger_inv l"
  shows "ledger_adv l (snd (ledger_release req l))"
  using assms
  by (cases rule: release_cases [where req = req]) (simp_all add: ledger_adv_def)

lemma commit_adv:
  assumes "ledger_inv l"
  shows "ledger_adv l (snd (ledger_commit req actual l))"
  using assms
proof (cases rule: commit_cases [where req = req and actual = actual])
  case (settled m c)
  have "amount_in (consumed (usage l)) (br_kind req) \<le> c"
    using settled(4) by (simp add: word_le_nat_alt)
  then show ?thesis
    unfolding settled(5) using ledger_inv_wfs(1) [OF assms] by (simp add: ledger_adv_def)
qed (simp_all add: ledger_adv_refl)

lemma consume_adv:
  assumes "ledger_inv l"
  shows "ledger_adv l (snd (ledger_consume k a l))"
proof -
  obtain r l1 where r: "ledger_reserve k a l = (r, l1)" by fastforce
  then have "ledger_inv l1" "ledger_adv l l1"
    using reserve_inv [OF assms, of k a] reserve_adv [OF assms, of k a] by simp_all
  with r show ?thesis
    using ledger_adv_trans commit_adv by (cases r) (auto simp: ledger_consume_def)
qed

lemma merge_adv:
  assumes "ledger_inv l"
  shows "ledger_adv l (snd (merge_consumption_floor fl l))"
proof (cases rule: merge_cases [of fl l])
  case (merged l')
  then show ?thesis
    using fold_raise_to_ge [OF ledger_inv_wfs(1) [OF assms]] by (simp add: ledger_adv_def)
qed (simp add: ledger_adv_refl)

text \<open>The same contracts for the shared ledger, by interpretation.\<close>

definition shared_inv :: "shared_ledger \<Rightarrow> bool" where
  "shared_inv s \<longleftrightarrow> ledger_inv (sl_ledger s)"

definition shared_adv :: "shared_ledger \<Rightarrow> shared_ledger \<Rightarrow> bool" where
  "shared_adv s t \<longleftrightarrow> sl_poisoned t = sl_poisoned s \<and> ledger_adv (sl_ledger s) (sl_ledger t)"

lemma locked_inv:
  "(\<And>l. ledger_inv l \<Longrightarrow> ledger_inv (snd (f l))) \<Longrightarrow> shared_inv s \<Longrightarrow> shared_inv (snd (locked f s))"
  by (force simp: locked_def shared_inv_def split: prod.splits)

lemma locked_adv:
  "(\<And>l. ledger_inv l \<Longrightarrow> ledger_adv l (snd (f l))) \<Longrightarrow> shared_inv s \<Longrightarrow> shared_adv s (snd (locked f s))"
  by (force simp: locked_def shared_inv_def shared_adv_def ledger_adv_refl split: prod.splits)

lemmas shared_op_defs = shared_reserve_def shared_commit_def shared_release_def shared_consume_def
  shared_merge_floor_def

lemma ledger_step_inv: "shared_inv s \<Longrightarrow> shared_inv (ledger_step a s)"
  by (cases a)
    (simp_all add: shared_op_defs locked_inv reserve_inv commit_inv release_inv consume_inv merge_inv)

lemma ledger_step_adv: "shared_inv s \<Longrightarrow> shared_adv s (ledger_step a s)"
  by (cases a)
    (simp_all add: shared_op_defs locked_adv reserve_adv commit_adv release_adv consume_adv merge_adv
      shared_adv_def [of s s] ledger_adv_refl)

interpretation shared: ordered_steps ledger_step shared_inv shared_adv
proof
  show "shared_inv s \<Longrightarrow> shared_inv (ledger_step a s)" for s a by (rule ledger_step_inv)
  show "shared_adv s s" for s by (simp add: shared_adv_def ledger_adv_refl)
  show "shared_adv s t \<Longrightarrow> shared_adv t u \<Longrightarrow> shared_adv s u" for s t u
    by (auto simp: shared_adv_def intro: ledger_adv_trans)
  show "shared_inv s \<Longrightarrow> shared_adv s (ledger_step a s)" for s a by (rule ledger_step_adv)
qed

lemma shared_new_inv: "shared_inv (shared_new b)"
  by (simp add: shared_inv_def shared_new_def ledger_inv_new)

section \<open>Properties\<close>

lemma ledger_run_adv: "shared_inv s \<Longrightarrow> shared_adv s (ledger_run ops s)"
  unfolding ledger_run_def by (rule shared.run_adv)

lemma ledger_run_inv: "shared_inv s \<Longrightarrow> shared_inv (ledger_run ops s)"
  unfolding ledger_run_def by (rule shared.run_inv)

lemma commit_unknown: "bt_get (reservations l) (br_id r) = None \<Longrightarrow> ledger_commit r a l = (Inl UnknownReservation, l)"
  by (simp add: ledger_commit_def)

lemma release_unknown: "bt_get (reservations l) (br_id r) = None \<Longrightarrow> ledger_release r l = (Inl UnknownReservation, l)"
  by (simp add: ledger_release_def ledger_take_def)

lemma commit_ok_dead:
  assumes "shared_inv s" and "shared_commit r a s = (Inr (), s1)"
  shows "shared_inv s1" "\<not> sl_poisoned s1" "bt_get (reservations (sl_ledger s1)) (br_id r) = None"
    "br_id r \<le> next_id (sl_ledger s1)"
proof -
  from assms(2) have np: "\<not> sl_poisoned s"
    and c: "ledger_commit r a (sl_ledger s) = (Inr (), sl_ledger s1)" and s1: "s1 = s\<lparr>sl_ledger := sl_ledger s1\<rparr>"
    by (auto simp: shared_commit_def locked_def split: if_splits prod.splits)
  have inv: "ledger_inv (sl_ledger s)" using assms(1) by (simp add: shared_inv_def)
  show "shared_inv s1"
    using commit_inv [OF inv, of r a] c by (simp add: shared_inv_def)
  show "\<not> sl_poisoned s1" using np s1 by (metis shared_ledger.select_convs(1) shared_ledger.surjective shared_ledger.update_convs(2))
  from inv show "bt_get (reservations (sl_ledger s1)) (br_id r) = None"
    and "br_id r \<le> next_id (sl_ledger s1)"
    by (cases rule: commit_cases [where req = r and actual = a]; use c ledger_wf_get [of "sl_ledger s" "br_id r" r] inv in \<open>auto simp: ledger_inv_def\<close>)+
qed

text \<open>C1. Whatever calls reach a shared budget ledger, from however many threads and in whatever order
  they take its lock, consumed plus reserved never exceeds the configured limit of any dimension,
  and the limits never change.\<close>

theorem budget_history_within_limits:
  "limits (sl_ledger (ledger_run ops (shared_new b))) = limits (ledger_new b) \<and>
   (\<forall>k. unat (amount_in (consumed (usage (sl_ledger (ledger_run ops (shared_new b))))) k) +
        unat (amount_in (reserved (usage (sl_ledger (ledger_run ops (shared_new b))))) k)
        \<le> unat (amount_in (limits (ledger_new b)) k))"
proof -
  have adv: "shared_adv (shared_new b) (ledger_run ops (shared_new b))"
    by (rule ledger_run_adv [OF shared_new_inv])
  have inv: "shared_inv (ledger_run ops (shared_new b))"
    by (rule ledger_run_inv [OF shared_new_inv])
  show ?thesis
    using adv inv
    by (simp add: shared_adv_def ledger_adv_def shared_new_def shared_inv_def ledger_inv_def within_limits_def)
qed

text \<open>A reservation settles at most once: after a successful commit, every later commit or release
  of the same reservation is rejected as unknown, whatever happened on the ledger in between
  (identifiers are never reused).\<close>

theorem settled_reservation_stays_settled:
  assumes "shared_commit r a (ledger_run ops (shared_new b)) = (Inr (), s1)"
  shows "fst (shared_commit r a' (ledger_run ops' s1)) = Inl UnknownReservation \<and>
         fst (shared_release r (ledger_run ops' s1)) = Inl UnknownReservation"
proof -
  have "shared_inv (ledger_run ops (shared_new b))"
    by (rule ledger_run_inv [OF shared_new_inv])
  note dead = commit_ok_dead [OF this assms]
  have "shared_adv s1 (ledger_run ops' s1)"
    by (rule ledger_run_adv [OF dead(1)])
  then have "\<not> sl_poisoned (ledger_run ops' s1)"
    and "bt_get (reservations (sl_ledger (ledger_run ops' s1))) (br_id r) = None"
    using dead by (auto simp: shared_adv_def ledger_adv_def)
  then show ?thesis
    by (simp add: shared_commit_def shared_release_def locked_def commit_unknown release_unknown)
qed

lemmas budget_eval = ledger_run_def shared_op_defs shared_new_def locked_def ledger_reserve_def
  ledger_commit_def ledger_release_def ledger_consume_def ledger_take_def merge_consumption_floor_def
  budget_add_def budget_subtract_def remaining_def amount_in_def set_reserved_def set_consumed_def
  ledger_new_def budget_usage_default_def checked_add_def checked_sub_def saturating_add_def
  saturating_sub_def bt_insert.simps bt_remove_def less_budget_kind_def Let_def all_zero_def
  floor_entry_ok_def raise_to_def

definition sample_budgets :: runtime_budgets where
  "sample_budgets = \<lparr>wall_time_seconds = 10, cpu_time_seconds = 10, memory_bytes = 10, disk_bytes = 10,
     input_tokens = 10, output_tokens = 10, tool_calls = 10, cost_microusd = 10, model_calls = 10,
     repair_iterations = 10, trace_bytes = 10\<rparr>"

definition sample_reservation :: budget_reservation where
  "sample_reservation = \<lparr>br_id = 1, br_kind = ToolCalls, br_amount = 7\<rparr>"

theorem settled_reservation_stays_settled_witness:
  "fst (shared_commit sample_reservation 6 (ledger_run [OpReserve ToolCalls 7] (shared_new sample_budgets))) = Inr () \<and>
   fst (shared_commit sample_reservation 6 (ledger_run [OpReserve ToolCalls 2]
     (snd (shared_commit sample_reservation 6 (ledger_run [OpReserve ToolCalls 7] (shared_new sample_budgets)))))) =
   Inl UnknownReservation"
proof -
  have c: "fst (shared_commit sample_reservation 6 (ledger_run [OpReserve ToolCalls 7] (shared_new sample_budgets))) = Inr ()"
    by (simp add: budget_eval sample_budgets_def sample_reservation_def)
  then show ?thesis
    using settled_reservation_stays_settled
      [of sample_reservation 6 "[OpReserve ToolCalls 7]" sample_budgets
        "snd (shared_commit sample_reservation 6 (ledger_run [OpReserve ToolCalls 7] (shared_new sample_budgets)))"
        6 "[OpReserve ToolCalls 2]"]
    by (simp add: prod_eq_iff)
qed

text \<open>The ledger after a history of calls.\<close>

abbreviation ledger_after :: "ledger_op list \<Rightarrow> runtime_budgets \<Rightarrow> budget_ledger" where
  "ledger_after ops b \<equiv> sl_ledger (ledger_run ops (shared_new b))"

lemma ledger_after_inv: "ledger_inv (ledger_after ops b)"
  using ledger_run_inv [OF shared_new_inv] by (simp add: shared_inv_def)

lemma reserve_ok_iff:
  assumes inv: "ledger_inv l"
  shows "is_ok (fst (ledger_reserve k a l)) \<longleftrightarrow>
      0 < unat a \<and>
      unat a + unat (amount_in (consumed (usage l)) k) + unat (amount_in (reserved (usage l)) k)
        \<le> unat (amount_in (limits l) k) \<and>
      next_id l \<noteq> - 1"
proof -
  have w: "within_limits l" using inv by (simp add: ledger_inv_def)
  have "unat (amount_in (consumed (usage l)) k) + unat (amount_in (reserved (usage l)) k)
      \<le> unat (amount_in (limits l) k)"
    using w by (simp add: within_limits_def)
  then have fits: "unat a \<le> unat (remaining k l) \<longleftrightarrow>
      unat a + unat (amount_in (consumed (usage l)) k) + unat (amount_in (reserved (usage l)) k)
        \<le> unat (amount_in (limits l) k)"
    using remaining_exact [OF w, of k] by linarith
  from inv show ?thesis
  proof (cases rule: reserve_cases [where k = k and a = a])
    case (granted i v)
    have "unat (next_id l) \<noteq> 18446744073709551615"
      using granted(3) unat_u64_le_bound [of i] by linarith
    then have "next_id l \<noteq> - 1" by (simp add: unat_u64_max)
    with granted(1,2,5) fits show ?thesis by (simp add: word_le_nat_alt unat_gt_0)
  qed (use fits in \<open>simp_all add: word_le_nat_alt word_less_nat_alt unat_gt_0\<close>)
qed

lemma reserve_remaining:
  assumes inv: "ledger_inv l"
  shows "unat (remaining j (snd (ledger_reserve k a l))) =
      unat (remaining j l) - (if is_ok (fst (ledger_reserve k a l)) \<and> j = k then unat a else 0)"
  using inv
proof (cases rule: reserve_cases [where k = k and a = a])
  case (granted i v)
  have "within_limits (snd (ledger_reserve k a l))" "within_limits l"
    using inv reserve_inv [OF inv, of k a] by (simp_all add: ledger_inv_def)
  then show ?thesis
    using remaining_exact [of "snd (ledger_reserve k a l)" j] remaining_exact [of l j] granted
      ledger_inv_wfs(2) [OF inv]
    by (simp add: add.assoc)
qed simp_all

text \<open>Admission is exact: on every reachable ledger a reservation is granted if and only if it is positive,
  fits into what limit minus consumed minus reserved leaves, and an identifier is left; a granted
  reservation takes exactly its amount from the remaining capacity of its own dimension and nothing
  from any other, and a refused one leaves the ledger untouched.\<close>

theorem reserve_exact:
  "(is_ok (fst (ledger_reserve k a (ledger_after ops b))) \<longleftrightarrow>
      0 < unat a \<and>
      unat a + unat (amount_in (consumed (usage (ledger_after ops b))) k) +
        unat (amount_in (reserved (usage (ledger_after ops b))) k)
        \<le> unat (amount_in (limits (ledger_after ops b)) k) \<and>
      next_id (ledger_after ops b) \<noteq> - 1) \<and>
   unat (remaining j (snd (ledger_reserve k a (ledger_after ops b)))) =
      unat (remaining j (ledger_after ops b)) -
      (if is_ok (fst (ledger_reserve k a (ledger_after ops b))) \<and> j = k then unat a else 0) \<and>
   (is_ok (fst (ledger_reserve k a (ledger_after ops b))) \<or>
    snd (ledger_reserve k a (ledger_after ops b)) = ledger_after ops b)"
proof -
  note inv = ledger_after_inv [of ops b]
  from inv have "is_ok (fst (ledger_reserve k a (ledger_after ops b))) \<or>
    snd (ledger_reserve k a (ledger_after ops b)) = ledger_after ops b"
    by (cases rule: reserve_cases [where k = k and a = a]) simp_all
  then show ?thesis
    using reserve_ok_iff [OF inv, of k a] reserve_remaining [OF inv, of j k a] by blast
qed

lemma commit_effect:
  assumes inv: "ledger_inv l" and "bt_get (reservations l) (br_id r) = Some r" and "actual \<le> br_amount r"
  shows "fst (ledger_commit r actual l) = Inr () \<and>
    unat (amount_in (consumed (usage (snd (ledger_commit r actual l)))) (br_kind r)) =
      unat (amount_in (consumed (usage l)) (br_kind r)) + unat actual \<and>
    unat (remaining (br_kind r) (snd (ledger_commit r actual l))) =
      unat (remaining (br_kind r) l) + (unat (br_amount r) - unat actual)"
  using inv
proof (cases rule: commit_cases [where req = r and actual = actual])
  case (settled m c)
  have w: "within_limits (snd (ledger_commit r actual l))" "within_limits l"
    using commit_inv [OF inv] inv by (simp_all add: ledger_inv_def)
  have "unat (amount_in (consumed (usage l)) (br_kind r)) +
      unat (amount_in (reserved (usage l)) (br_kind r)) \<le> unat (amount_in (limits l) (br_kind r))"
    using w(2) by (simp add: within_limits_def)
  moreover have "unat actual \<le> unat (br_amount r)" using assms(3) by (simp add: word_le_nat_alt)
  ultimately show ?thesis
    using settled(3-5) ledger_inv_wfs(1,2) [OF inv]
      remaining_exact [OF w(1), of "br_kind r"] remaining_exact [OF w(2), of "br_kind r"]
    by simp
qed (use assms(2,3) in auto)

text \<open>Settling refunds the difference: on every reachable ledger, committing a live reservation with an
  actual amount no larger than the reserved one succeeds, charges exactly the actual amount, and
  returns the unused part to the remaining capacity of that dimension.\<close>

theorem commit_refunds_unused:
  assumes "bt_get (reservations (ledger_after ops b)) (br_id r) = Some r" and "actual \<le> br_amount r"
  shows "fst (ledger_commit r actual (ledger_after ops b)) = Inr () \<and>
    unat (amount_in (consumed (usage (snd (ledger_commit r actual (ledger_after ops b))))) (br_kind r)) =
      unat (amount_in (consumed (usage (ledger_after ops b))) (br_kind r)) + unat actual \<and>
    unat (remaining (br_kind r) (snd (ledger_commit r actual (ledger_after ops b)))) =
      unat (remaining (br_kind r) (ledger_after ops b)) + (unat (br_amount r) - unat actual)"
  using ledger_after_inv assms by (rule commit_effect)

theorem commit_refunds_unused_witness:
  "unat (remaining ToolCalls (snd (ledger_commit sample_reservation 6
     (sl_ledger (ledger_run [OpReserve ToolCalls 7] (shared_new sample_budgets)))))) = 4"
proof -
  have "bt_get (reservations (sl_ledger (ledger_run [OpReserve ToolCalls 7] (shared_new sample_budgets))))
      (br_id sample_reservation) = Some sample_reservation"
    by (simp add: budget_eval sample_budgets_def sample_reservation_def)
  moreover have "(6::u64) \<le> br_amount sample_reservation" by (simp add: sample_reservation_def)
  moreover have "unat (remaining ToolCalls
      (sl_ledger (ledger_run [OpReserve ToolCalls 7] (shared_new sample_budgets)))) = 3"
    by (simp add: budget_eval sample_budgets_def)
  ultimately show ?thesis
    using commit_refunds_unused [of "[OpReserve ToolCalls 7]" sample_budgets sample_reservation 6]
    by (simp add: sample_reservation_def)
qed

text \<open>Merging a durable consumption floor never erases spending: when it succeeds the consumption of every
  dimension becomes the larger of the two, a second merge of the same floor changes nothing, and a
  refused merge leaves the ledger untouched.\<close>

theorem merge_floor_is_maximum:
  assumes "bt_wf (consumed fl)"
  shows "case merge_consumption_floor fl (ledger_after ops b) of
      (Inl e, l') \<Rightarrow> l' = ledger_after ops b
    | (Inr u, l') \<Rightarrow> u = usage l' \<and>
        (\<forall>k. amount_in (consumed u) k =
             max (amount_in (consumed (usage (ledger_after ops b))) k) (amount_in (consumed fl) k)) \<and>
        (\<forall>k. amount_in (consumed (usage (snd (merge_consumption_floor fl l')))) k = amount_in (consumed u) k)"
proof (cases rule: merge_cases [of fl "ledger_after ops b"])
  case (merged l')
  let ?l = "ledger_after ops b"
  have inv: "ledger_inv ?l" by (rule ledger_after_inv)
  note wf = ledger_inv_wfs(1) [OF inv]
  have c: "amount_in (consumed (usage l')) k =
      max (amount_in (consumed (usage ?l)) k) (amount_in (consumed fl) k)" for k
    using merged(4) fold_raise_to_max [OF wf assms] by simp
  have wf': "bt_wf (consumed (usage l'))" using merged(4) wf by simp
  have "amount_in (consumed (usage (snd (merge_consumption_floor fl l')))) k =
      amount_in (consumed (usage l')) k" for k
  proof (cases rule: merge_cases [of fl l'])
    case (merged l2)
    then show ?thesis
      using fold_raise_to_max [OF wf' assms, of k] c [of k] by (simp add: max_def)
  qed simp
  with merged(5) c show ?thesis by simp
qed simp

theorem merge_floor_is_maximum_witness:
  "case merge_consumption_floor \<lparr>consumed = [(ToolCalls, 4)], reserved = []\<rparr>
      (sl_ledger (ledger_run [OpConsume ToolCalls 2] (shared_new sample_budgets))) of
     (Inl e, l') \<Rightarrow> False | (Inr u, l') \<Rightarrow> amount_in (consumed u) ToolCalls = 4"
proof -
  let ?l = "sl_ledger (ledger_run [OpConsume ToolCalls 2] (shared_new sample_budgets))"
  let ?fl = "\<lparr>consumed = [(ToolCalls, 4)], reserved = []\<rparr>"
  have "is_ok (fst (merge_consumption_floor ?fl ?l))"
    and "amount_in (consumed (usage ?l)) ToolCalls = 2"
    by (simp_all add: budget_eval sample_budgets_def)
  moreover have "bt_wf (consumed ?fl)" by (simp add: bt_wf_def)
  ultimately show ?thesis
    using merge_floor_is_maximum [of ?fl "[OpConsume ToolCalls 2]" sample_budgets]
    by (auto simp: amount_in_def split: prod.splits sum.splits)
qed

text \<open>Releasing with a reservation value that carries a live identifier but differs from the live record
  fails, yet it removes the live reservation without returning its amount: the reserved total keeps
  the amount, the rightful holder can neither commit nor release any more, and that capacity is
  lost for good.\<close>

theorem mismatched_release_leaks:
  assumes "bt_get (reservations l) (br_id forged) = Some held" and "held \<noteq> forged"
    and "br_id held = br_id forged"
  shows "fst (ledger_release forged l) = Inl ReservationMismatch \<and>
    reserved (usage (snd (ledger_release forged l))) = reserved (usage l) \<and>
    remaining k (snd (ledger_release forged l)) = remaining k l \<and>
    fst (ledger_commit held a (snd (ledger_release forged l))) = Inl UnknownReservation \<and>
    fst (ledger_release held (snd (ledger_release forged l))) = Inl UnknownReservation"
  using assms
  by (simp add: ledger_release_def ledger_take_def ledger_commit_def remaining_def Let_def)

theorem mismatched_release_leaks_witness:
  "fst (ledger_commit sample_reservation 1
     (snd (ledger_release (sample_reservation\<lparr>br_amount := 1\<rparr>)
       (sl_ledger (ledger_run [OpReserve ToolCalls 7] (shared_new sample_budgets)))))) = Inl UnknownReservation"
proof -
  have "bt_get (reservations (sl_ledger (ledger_run [OpReserve ToolCalls 7] (shared_new sample_budgets))))
      (br_id (sample_reservation\<lparr>br_amount := 1\<rparr>)) = Some sample_reservation"
    and "sample_reservation \<noteq> sample_reservation\<lparr>br_amount := 1\<rparr>"
    and "br_id sample_reservation = br_id (sample_reservation\<lparr>br_amount := 1\<rparr>)"
    by (simp_all add: budget_eval sample_budgets_def sample_reservation_def)
  from mismatched_release_leaks [OF this] show ?thesis by simp
qed

end
