(* ===== verification/Run_State.thy ===== *)
theory Run_State
  imports Budget
begin

text \<open>
  The durable state of an RSI run, \<open>crates/hi-rsi-runtime/src/state.rs\<close>: artifacts, memory entries, plans,
  verification reports, failure evidence, the run state and its checkpoints, with the validation
  rules that keep candidate-authored data apart from what only the trusted supervisor may claim.
  BLAKE3 and the JSON encoding are outside the repository: the functions that hash take the
  encoding-and-hash function as an argument.
\<close>

section \<open>JSON values\<close>

text \<open>The documented shape of \<open>serde_json::Value\<close>; a number is kept as its decimal text.\<close>

datatype json =
  JNull
| JBool bool
| JNumber string
| JString string
| JArray "json list"
| JObject "(string \<times> json) list"

section \<open>Data\<close>

type_synonym stage_id = string

record artifact_ref =
  ar_hash :: string
  ar_size_bytes :: u64
  ar_media_type :: string

record repository_state =
  repository_snapshot_hash :: string
  starting_commit :: string
  source_tree_hash :: string
  worktree_root :: string
  submodule_commits :: "(string, string) btree_map"

datatype memory_class = Working | Attempt | Repository | Episodic | Procedural

record memory_entry =
  memory_class :: memory_class
  me_content :: json
  me_tenant_id :: string
  me_repository_scope :: "string option"
  me_candidate_id :: string
  me_supporting_artifacts :: "artifact_ref list"
  me_confidence_millionths :: u32
  me_created_at_unix_ms :: u64
  me_expires_at_unix_ms :: u64
  me_supervisor_verified :: bool

datatype model_role =
  TaskClassifier | RequirementNormalizer | RepositoryExplorer | Diagnostician | Planner | Implementer
| TestGenerator | Reviewer | Repairer | Summarizer

datatype context_trust =
  TrustedInstruction | UserInstruction | UntrustedRepository | UntrustedToolOutput | UntrustedExternal

record context_item =
  ci_source :: string
  ci_content_hash :: string
  ci_byte_start :: "u64 option"
  ci_byte_end :: "u64 option"
  ci_selection_reason :: string
  ci_relevance_millionths :: "u32 option"
  ci_trust :: context_trust

record context_manifest =
  cm_items :: "context_item list"
  cm_token_estimate :: u64
  cm_selection_policy_version :: string
  cm_omitted_candidates :: "string list"

record engineering_plan =
  ep_objective :: string
  ep_assumptions :: "string list"
  ep_affected_components :: "string list"
  ep_evidence :: "artifact_ref list"
  ep_proposed_changes :: "string list"
  ep_tests :: "string list"
  ep_risks :: "string list"
  ep_rollback :: string
  ep_revision :: u32
  ep_revision_reason :: "string option"

datatype verification_status = VPassed | VFailed | VInfrastructureError | VSkippedByPolicy

record verification_check =
  vc_name :: string
  vc_command_hash :: string
  vc_status :: verification_status
  vc_exit_code :: "32 word option"
  vc_duration_ms :: u64
  vc_output :: "artifact_ref option"

record verification_report =
  vr_report_version :: u16
  vr_run_id :: string
  vr_candidate_id :: string
  vr_environment_hash :: string
  vr_source_tree_hash :: string
  vr_checks :: "verification_check list"
  vr_passed :: bool
  vr_policy_violations :: "string list"
  vr_artifacts :: "artifact_ref list"
  vr_supervisor_attestation :: "string option"

datatype failure_domain =
  FCandidate | FModelProvider | FTool | FRepository | FBuildEnvironment | FEvaluator | FPolicy | FBudget
| FWorkerInfrastructure | FBackend

record failure_evidence =
  fe_domain :: failure_domain
  fe_subcategory :: string
  fe_retryable :: bool
  fe_causal_event_hash :: "string option"
  fe_stage :: stage_id
  fe_artifacts :: "artifact_ref list"
  fe_counts_against_candidate :: bool

record run_state =
  rs_task_id :: string
  rs_run_id :: string
  rs_candidate_id :: string
  rs_repository :: repository_state
  rs_current_stages :: "stage_id btree_set"
  rs_attempts :: "(stage_id, u32) btree_map"
  rs_working_memory :: "memory_entry list"
  rs_plan :: "engineering_plan option"
  rs_patches :: "artifact_ref list"
  rs_verification :: "verification_report list"
  rs_budget :: budget_usage
  rs_failure_evidence :: "failure_evidence list"

record checkpoint =
  cp_schema_version :: u16
  cp_run_id :: string
  cp_candidate_id :: string
  cp_state :: run_state
  cp_workspace_tree_hash :: string
  cp_workflow_position :: "stage_id btree_set"
  cp_context_manifests :: "artifact_ref list"
  cp_response_artifacts :: "artifact_ref list"
  cp_created_at_sequence :: u64

section \<open>Validation\<close>

datatype state_error =
  MemoryClaimsVerification
| MemoryConfidenceExceedsOne
| MemoryExpiryNotAfterCreation
| CandidateAttestation
| MissingAttestation
| SummaryMismatch
| InfrastructureCounted
| CheckpointIdentityMismatch
| EncodingFailed string

definition validate_candidate_authored :: "memory_entry \<Rightarrow> (state_error, unit) result" where
  "validate_candidate_authored m =
     ensure (\<not> me_supervisor_verified m) MemoryClaimsVerification
     (ensure (me_confidence_millionths m \<le> 1000000) MemoryConfidenceExceedsOne
     (ensure (me_created_at_unix_ms m < me_expires_at_unix_ms m) MemoryExpiryNotAfterCreation
     (Inr ())))"

definition validate_candidate_proposal :: "verification_report \<Rightarrow> (state_error, unit) result" where
  "validate_candidate_proposal r =
     ensure (vr_supervisor_attestation r = None) CandidateAttestation (Inr ())"

definition checks_passed :: "verification_report \<Rightarrow> bool" where
  "checks_passed r = list_all (\<lambda>c. vc_status c = VPassed) (vr_checks r)"

definition validate_supervisor_report :: "verification_report \<Rightarrow> (state_error, unit) result" where
  "validate_supervisor_report r =
     ensure (case vr_supervisor_attestation r of None \<Rightarrow> False | Some v \<Rightarrow> v \<noteq> []) MissingAttestation
     (ensure (vr_passed r = (checks_passed r \<and> vr_policy_violations r = [])) SummaryMismatch
     (Inr ()))"

definition failure_validate :: "failure_evidence \<Rightarrow> (state_error, unit) result" where
  "failure_validate f =
     (if fe_domain f \<in> {FModelProvider, FBuildEnvironment, FEvaluator, FWorkerInfrastructure, FBackend}
      then ensure (\<not> fe_counts_against_candidate f) InfrastructureCounted (Inr ())
      else Inr ())"

text \<open>\<open>hash\<close> is \<open>serde_json::to_vec\<close> followed by BLAKE3, whose encoding step can fail.\<close>

definition manifest_canonical_hash ::
  "(context_manifest \<Rightarrow> (string, string) result) \<Rightarrow> context_manifest \<Rightarrow> (state_error, string) result" where
  "manifest_canonical_hash hash m = (case hash m of Inl e \<Rightarrow> Inl (EncodingFailed e) | Inr h \<Rightarrow> Inr h)"

definition checkpoint_canonical_hash ::
  "(checkpoint \<Rightarrow> (string, string) result) \<Rightarrow> checkpoint \<Rightarrow> (state_error, string) result" where
  "checkpoint_canonical_hash hash c =
     ensure (cp_run_id c = rs_run_id (cp_state c) \<and> cp_candidate_id c = rs_candidate_id (cp_state c))
       CheckpointIdentityMismatch
       (case hash c of Inl e \<Rightarrow> Inl (EncodingFailed e) | Inr h \<Rightarrow> Inr h)"

section \<open>What validation guarantees\<close>

lemma supervisor_report_ok:
  "validate_supervisor_report r = Inr () \<longleftrightarrow>
   (\<exists>v. vr_supervisor_attestation r = Some v \<and> v \<noteq> []) \<and>
   (vr_passed r \<longleftrightarrow> (\<forall>c \<in> set (vr_checks r). vc_status c = VPassed) \<and> vr_policy_violations r = [])"
  by (auto simp: validate_supervisor_report_def checks_passed_def list_all_iff split: option.splits)

text \<open>No report is acceptable both as a candidate's proposal and as the supervisor's verdict.\<close>

lemma proposal_not_verdict:
  "validate_candidate_proposal r = Inr () \<Longrightarrow> validate_supervisor_report r \<noteq> Inr ()"
  by (auto simp: validate_candidate_proposal_def supervisor_report_ok)

end
