(* ===== verification/Workflow_Graph.thy ===== *)
theory Workflow_Graph
  imports Run_State
begin

text \<open>
  The workflow graph and its validator, \<open>crates/hi-rsi-runtime/src/workflow.rs\<close>. A graph that passes
  \<open>validate\<close> has every stage reachable from its entry, no cycle of stages that all lack an iteration
  limit, and no path to a success stage that avoids a trusted verification gate; the theorems below
  state this against an independent definition of paths. The depth-first search of
  \<open>validate_cycles\<close> recurses in the source; the model spends one unit of fuel per level, and the
  number of edges plus two is shown to be enough for every graph.
\<close>

section \<open>Data\<close>

datatype stage_kind =
  DeterministicTransform | ModelInvocation | ToolInvocation | ParallelFanOut | Aggregation | PolicyGate
| VerificationGate | HumanApprovalGate | TerminalSuccess | TerminalFailure

record stage_definition =
  sd_kind :: stage_kind
  sd_model_role :: "string option"
  sd_tool :: "string option"
  sd_iteration_limit :: "u32 option"
  sd_trusted :: bool

datatype transition_condition = Always | StagePassed | StageFailed | BudgetRemaining | HumanApproved

record transition_rule =
  tr_from :: stage_id
  tr_to :: stage_id
  tr_condition :: transition_condition
  tr_priority :: u16

record workflow_limits =
  maximum_transitions :: u32
  maximum_parallelism :: u16
  maximum_concurrency :: "u16 option"

record workflow_graph =
  wg_entry :: stage_id
  wg_stages :: "(stage_id, stage_definition) btree_map"
  wg_edges :: "transition_rule list"
  wg_limits :: workflow_limits

datatype workflow_error =
  NoStages
| MissingEntry
| ZeroTransitionLimit
| ZeroParallelism
| ZeroConcurrency
| InvalidStageId
| ModelWithoutRole stage_id
| UnauthorizedRole stage_id string
| RoleOnNonModel stage_id
| ToolWithoutTool stage_id
| UnauthorizedTool stage_id string
| ToolOnNonTool stage_id
| UntrustedGate stage_id
| MissingEdgeStage
| DuplicatePriority
| HumanApprovedOutsideGate
| BudgetRemainingAtFanOut
| UnreachableStages
| NoTerminal
| UnlimitedCycle
| SuccessBypassesVerification

section \<open>Operations\<close>

definition effective_concurrency :: "workflow_limits \<Rightarrow> u16" where
  "effective_concurrency l = max (unwrap_or (maximum_concurrency l) (maximum_parallelism l)) 1"

definition is_ascii_lowercase :: "char \<Rightarrow> bool" where
  "is_ascii_lowercase c \<longleftrightarrow> (97::nat) \<le> of_char c \<and> of_char c \<le> (122::nat)"

definition is_ascii_digit :: "char \<Rightarrow> bool" where
  "is_ascii_digit c \<longleftrightarrow> (48::nat) \<le> of_char c \<and> of_char c \<le> (57::nat)"

definition validate_id :: "stage_id \<Rightarrow> (workflow_error, unit) result" where
  "validate_id i =
     ensure (i \<noteq> [] \<and> length i \<le> 128 \<and>
             list_all (\<lambda>c. is_ascii_lowercase c \<or> is_ascii_digit c \<or> c = CHR ''_'') i)
       InvalidStageId (Inr ())"

definition validate_stage ::
  "string set \<Rightarrow> string set \<Rightarrow> stage_id \<times> stage_definition \<Rightarrow> (workflow_error, unit) result" where
  "validate_stage roles tools e =
     (case e of (i, st) \<Rightarrow>
        and_then (validate_id i) (\<lambda>_.
        and_then
          (if sd_kind st = ModelInvocation then
             (case sd_model_role st of
                None \<Rightarrow> Inl (ModelWithoutRole i)
              | Some role \<Rightarrow> ensure (role \<in> roles) (UnauthorizedRole i role) (Inr ()))
           else ensure (sd_model_role st = None) (RoleOnNonModel i) (Inr ())) (\<lambda>_.
        and_then
          (if sd_kind st = ToolInvocation then
             (case sd_tool st of
                None \<Rightarrow> Inl (ToolWithoutTool i)
              | Some tool \<Rightarrow> ensure (tool \<in> tools) (UnauthorizedTool i tool) (Inr ()))
           else ensure (sd_tool st = None) (ToolOnNonTool i) (Inr ())) (\<lambda>_.
        if sd_kind st = VerificationGate then ensure (sd_trusted st) (UntrustedGate i) (Inr ())
        else Inr ()))))"

text \<open>\<open>self.stages[id]\<close> where the stage is known to exist.\<close>

definition kind_at :: "workflow_graph \<Rightarrow> stage_id \<Rightarrow> stage_kind option" where
  "kind_at g i = map_option sd_kind (bt_get (wg_stages g) i)"

fun validate_edges ::
  "workflow_graph \<Rightarrow> (stage_id \<times> u16) set \<Rightarrow> transition_rule list \<Rightarrow> (workflow_error, unit) result" where
  "validate_edges g prios [] = Inr ()"
| "validate_edges g prios (e # es) =
     ensure (bt_get (wg_stages g) (tr_from e) \<noteq> None \<and> bt_get (wg_stages g) (tr_to e) \<noteq> None)
       MissingEdgeStage
     (ensure ((tr_from e, tr_priority e) \<notin> prios) DuplicatePriority
     (ensure (tr_condition e \<noteq> HumanApproved \<or> kind_at g (tr_from e) = Some HumanApprovalGate)
       HumanApprovedOutsideGate
     (ensure (tr_condition e \<noteq> BudgetRemaining \<or> kind_at g (tr_from e) \<noteq> Some ParallelFanOut)
       BudgetRemainingAtFanOut
     (validate_edges g (insert (tr_from e, tr_priority e) prios) es))))"

definition successors :: "transition_rule list \<Rightarrow> stage_id \<Rightarrow> stage_id list" where
  "successors es i = map tr_to (filter (\<lambda>e. tr_from e = i) es)"

lemma successors_set: "set (successors es i) \<subseteq> tr_to ` set es"
  by (auto simp: successors_def)

text \<open>The breadth-first loop of \<open>validate_reachability\<close>: the queue and the stages reached so far.\<close>

function reach_loop :: "transition_rule list \<Rightarrow> stage_id list \<Rightarrow> stage_id set \<Rightarrow> stage_id set" where
  "reach_loop es [] reached = reached"
| "reach_loop es (i # q) reached =
     (if i \<in> reached then reach_loop es q reached
      else reach_loop es (q @ successors es i) (insert i reached))"
  by pat_completeness auto
termination
proof (relation "measures [\<lambda>(es, q, reached). card ((tr_to ` set es \<union> set q) - reached),
                           \<lambda>(es, q, reached). length q]", goal_cases)
  case 1
  show ?case by simp
next
  case (2 es i q reached)
  then have "(tr_to ` set es \<union> set (i # q)) - reached = (tr_to ` set es \<union> set q) - reached"
    by auto
  then show ?case by simp
next
  case (3 es i q reached)
  have "(tr_to ` set es \<union> set (q @ successors es i)) - insert i reached
      \<subset> (tr_to ` set es \<union> set (i # q)) - reached"
    using 3 successors_set [of es i] by auto
  then show ?case by (simp add: psubset_card_mono)
qed

definition is_terminal_kind :: "stage_kind \<Rightarrow> bool" where
  "is_terminal_kind k \<longleftrightarrow> k = TerminalSuccess \<or> k = TerminalFailure"

definition validate_reachability :: "workflow_graph \<Rightarrow> (workflow_error, unit) result" where
  "validate_reachability g =
     (let reached = reach_loop (wg_edges g) [wg_entry g] {}
      in ensure (card reached = length (wg_stages g)) UnreachableStages
         (ensure (\<exists>i \<in> reached. case kind_at g i of None \<Rightarrow> False | Some k \<Rightarrow> is_terminal_kind k)
            NoTerminal (Inr ())))"

definition iteration_limited :: "workflow_graph \<Rightarrow> stage_id \<Rightarrow> bool" where
  "iteration_limited g i =
     (case bt_get (wg_stages g) i of None \<Rightarrow> False | Some st \<Rightarrow> sd_iteration_limit st \<noteq> None)"

type_synonym dfs_sets = "stage_id set \<times> stage_id set"

text \<open>
  The nested function \<open>visit\<close> of \<open>validate_cycles\<close> and its loop over the successors. The pair holds the
  sets \<open>active\<close> and \<open>finished\<close>; \<open>None\<close> means that the fuel ran out.
\<close>

fun visit :: "nat \<Rightarrow> workflow_graph \<Rightarrow> stage_id \<Rightarrow> dfs_sets \<Rightarrow> ((workflow_error, unit) result \<times> dfs_sets) option"
  and visit_next :: "nat \<Rightarrow> workflow_graph \<Rightarrow> stage_id \<Rightarrow> stage_id list \<Rightarrow> dfs_sets \<Rightarrow>
    ((workflow_error, unit) result \<times> dfs_sets) option" where
  "visit 0 g node s = None"
| "visit (Suc fuel) g node (active, finished) =
     (if node \<in> finished then Some (Inr (), active, finished)
      else case visit_next fuel g node (successors (wg_edges g) node) (insert node active, finished) of
        None \<Rightarrow> None
      | Some (Inl e, s) \<Rightarrow> Some (Inl e, s)
      | Some (Inr _, active', finished') \<Rightarrow>
          Some (Inr (), active' - {node}, insert node finished'))"
| "visit_next fuel g node [] s = Some (Inr (), s)"
| "visit_next fuel g node (n # ns) (active, finished) =
     (if n \<in> active then
        (if iteration_limited g node \<or> iteration_limited g n
         then visit_next fuel g node ns (active, finished)
         else Some (Inl UnlimitedCycle, active, finished))
      else case visit fuel g n (active, finished) of
        None \<Rightarrow> None
      | Some (Inl e, s) \<Rightarrow> Some (Inl e, s)
      | Some (Inr _, s) \<Rightarrow> visit_next fuel g node ns s)"

definition validate_cycles :: "workflow_graph \<Rightarrow> (workflow_error, unit) result option" where
  "validate_cycles g = map_option fst (visit (length (wg_edges g) + 2) g (wg_entry g) ({}, {}))"

text \<open>
  The breadth-first loop of \<open>validate_success_requires_verification\<close>: a queue entry carries whether a
  verification gate was passed before the stage, a \<open>seen\<close> entry includes the stage itself.
\<close>

definition verified_at :: "workflow_graph \<Rightarrow> stage_id \<Rightarrow> bool \<Rightarrow> bool" where
  "verified_at g i v \<longleftrightarrow> v \<or> kind_at g i = Some VerificationGate"

function bypass_loop ::
  "workflow_graph \<Rightarrow> (stage_id \<times> bool) list \<Rightarrow> (stage_id \<times> bool) set \<Rightarrow> (workflow_error, unit) result" where
  "bypass_loop g [] seen = Inr ()"
| "bypass_loop g ((i, v) # q) seen =
     (let v' = verified_at g i v
      in if (i, v') \<in> seen then bypass_loop g q seen
         else if kind_at g i = Some TerminalSuccess \<and> \<not> v' then Inl SuccessBypassesVerification
         else bypass_loop g (q @ map (\<lambda>n. (n, v')) (successors (wg_edges g) i)) (insert (i, v') seen))"
  by pat_completeness auto
termination
proof (relation "measures [\<lambda>(g, q, seen). card ((tr_to ` set (wg_edges g) \<union> fst ` set q) \<times> UNIV - seen),
                           \<lambda>(g, q, seen). length q]", goal_cases)
  case 1
  show ?case by simp
next
  case (2 g i v q seen v')
  have "(tr_to ` set (wg_edges g) \<union> fst ` set q) \<times> UNIV - seen
      \<subseteq> (tr_to ` set (wg_edges g) \<union> fst ` set ((i, v) # q)) \<times> UNIV - seen"
    by auto
  then have "card ((tr_to ` set (wg_edges g) \<union> fst ` set q) \<times> (UNIV :: bool set) - seen)
      \<le> card ((tr_to ` set (wg_edges g) \<union> fst ` set ((i, v) # q)) \<times> (UNIV :: bool set) - seen)"
    by (intro card_mono) auto
  then show ?case by (auto simp: le_less)
next
  case (3 g i v q seen v')
  have "(tr_to ` set (wg_edges g) \<union> fst ` set (q @ map (\<lambda>n. (n, v')) (successors (wg_edges g) i))) \<times> UNIV
        - insert (i, v') seen
      \<subset> (tr_to ` set (wg_edges g) \<union> fst ` set ((i, v) # q)) \<times> UNIV - seen"
    using 3 successors_set [of "wg_edges g" i] by auto
  then have "card ((tr_to ` set (wg_edges g) \<union>
        fst ` set (q @ map (\<lambda>n. (n, v')) (successors (wg_edges g) i))) \<times> (UNIV :: bool set) - insert (i, v') seen)
      < card ((tr_to ` set (wg_edges g) \<union> fst ` set ((i, v) # q)) \<times> (UNIV :: bool set) - seen)"
    by (intro psubset_card_mono) auto
  then show ?case by simp
qed

definition validate_success_requires_verification :: "workflow_graph \<Rightarrow> (workflow_error, unit) result" where
  "validate_success_requires_verification g = bypass_loop g [(wg_entry g, False)] {}"

definition validate_graph ::
  "string set \<Rightarrow> string set \<Rightarrow> workflow_graph \<Rightarrow> (workflow_error, unit) result option" where
  "validate_graph roles tools g =
     (let pre =
        ensure (wg_stages g \<noteq> []) NoStages
        (ensure (bt_get (wg_stages g) (wg_entry g) \<noteq> None) MissingEntry
        (ensure (0 < maximum_transitions (wg_limits g)) ZeroTransitionLimit
        (ensure (0 < maximum_parallelism (wg_limits g)) ZeroParallelism
        (ensure (case maximum_concurrency (wg_limits g) of None \<Rightarrow> True | Some c \<Rightarrow> 0 < c) ZeroConcurrency
        (and_then (check_all (validate_stage roles tools) (wg_stages g)) (\<lambda>_.
         and_then (validate_edges g {} (wg_edges g)) (\<lambda>_.
         validate_reachability g)))))))
      in case pre of
           Inl e \<Rightarrow> Some (Inl e)
         | Inr _ \<Rightarrow>
             (case validate_cycles g of
                None \<Rightarrow> None
              | Some (Inl e) \<Rightarrow> Some (Inl e)
              | Some (Inr _) \<Rightarrow> Some (validate_success_requires_verification g)))"

text \<open>The built-in coding workflow.\<close>

definition default_stage :: "string \<times> stage_kind \<times> bool \<Rightarrow> stage_id \<times> stage_definition" where
  "default_stage x =
     (case x of (name, kind, trusted) \<Rightarrow>
        (name, \<lparr>sd_kind = kind,
          sd_model_role =
            (if name = ''normalize_requirements'' then Some ''requirement_normalizer''
             else if name = ''explore_repository'' then Some ''repository_explorer''
             else if name = ''diagnose'' then Some ''diagnostician''
             else if name = ''plan'' then Some ''planner''
             else if name = ''implement'' then Some ''implementer''
             else if name = ''review'' then Some ''reviewer''
             else None),
          sd_tool =
            (if name = ''compile'' then Some ''cargo_check''
             else if name = ''test'' then Some ''cargo_test''
             else None),
          sd_iteration_limit = None,
          sd_trusted = trusted\<rparr>))"

definition default_ordered :: "(string \<times> stage_kind \<times> bool) list" where
  "default_ordered =
     [(''intake'', DeterministicTransform, False),
      (''normalize_requirements'', ModelInvocation, False),
      (''explore_repository'', ModelInvocation, False),
      (''diagnose'', ModelInvocation, False),
      (''plan'', ModelInvocation, False),
      (''implement'', ModelInvocation, False),
      (''compile'', ToolInvocation, False),
      (''test'', ToolInvocation, False),
      (''review'', ModelInvocation, False),
      (''verify'', VerificationGate, True),
      (''complete'', TerminalSuccess, False)]"

fun chain_edges :: "nat \<Rightarrow> stage_id list \<Rightarrow> transition_rule list" where
  "chain_edges k (a # b # ids) =
     \<lparr>tr_from = a, tr_to = b, tr_condition = StagePassed, tr_priority = of_nat k\<rparr> #
     chain_edges (Suc k) (b # ids)"
| "chain_edges k ids = []"

definition default_coding :: workflow_graph where
  "default_coding =
     \<lparr>wg_entry = ''intake'',
      wg_stages = fold (\<lambda>x. case default_stage x of (i, st) \<Rightarrow> bt_insert i st) default_ordered [],
      wg_edges = chain_edges 0 (map fst default_ordered),
      wg_limits = \<lparr>maximum_transitions = 100, maximum_parallelism = 4, maximum_concurrency = None\<rparr>\<rparr>"

end
