(* ===== verification/Workflow_Executor.thy ===== *)
theory Workflow_Executor
  imports Workflow_Graph
begin

text \<open>
  The workflow executor, \<open>crates/hi-agent-runtime/src/lib.rs\<close>: a loop over frontiers of stages. Each
  round admits the whole frontier (transition count, attempts, call budget), polls its stages
  concurrently in waves against a snapshot, applies the outcomes in stage order, seals a checkpoint
  when a stage asks for one, and only then commits the new state. The trusted driver is an argument:
  polling one of its stages gives either nothing yet or a result, and the operations it performs on
  the shared ledger meanwhile. \<open>None\<close> as the value of a run means that a stage was still pending when
  the fuel was spent; the theorems of \<open>Executor_Correct\<close> say how much fuel is enough.
\<close>

section \<open>Data\<close>

record stage_outcome =
  so_passed :: bool
  so_output :: json
  so_plan :: "engineering_plan option"
  so_patches :: "artifact_ref list"
  so_failures :: "failure_evidence list"
  so_verification :: "verification_report option"

datatype terminal_outcome = Succeeded | Failed

datatype exec_error =
  ExBudget budget_error
| ExState state_error
| ExDriver string
| UnsupportedSchema u16
| CheckpointWrongRun
| NoResumablePosition
| PositionMissingStage stage_id
| CallerUnsettled
| CheckpointTransitionOverflow
| CheckpointTransitionsExceeded
| MissingStage stage_id
| SuccessWhileScheduled stage_id
| SuccessUnverified
| TransitionOverflow
| TransitionsExhausted
| AttemptOverflow
| IterationLimitExhausted stage_id
| NoEligibleTransition stage_id
| BudgetTransitionAtFanOut
| ParallelismExceeded
| SequenceOverflow
| NoTerminalStage
| PlanRevisionNotNewer
| PlanRevisionWithoutReason
| PatchesBeforePlan
| VerificationOutsideGate
| VerificationIdentityMismatch
| GateOmittedReport stage_id

text \<open>
  \<open>dr_poll\<close> is one poll of the future returned by \<open>TrustedStageDriver::stage\<close>, given how often it was polled
  before; \<open>dr_checkpoint\<close> awaits \<open>TrustedStageDriver::checkpoint\<close>. Both see the ledger the driver shares
  with the executor and return the calls they make on it, in order.
\<close>

record 'w driver =
  dr_poll :: "stage_definition \<Rightarrow> stage_id \<Rightarrow> u32 \<Rightarrow> run_state \<Rightarrow> nat \<Rightarrow> 'w \<Rightarrow> shared_ledger \<Rightarrow>
    (string, stage_outcome) result option \<times> 'w \<times> ledger_op list"
  dr_checkpoint :: "checkpoint \<Rightarrow> string \<Rightarrow> 'w \<Rightarrow> shared_ledger \<Rightarrow>
    (string, artifact_ref) result \<times> 'w \<times> ledger_op list"

record 'w world =
  wd_driver :: 'w
  wd_ledger :: shared_ledger

section \<open>Stage reservations\<close>

type_synonym stage_reservation = "budget_reservation option"

definition stage_reservation_new ::
  "budget_kind option \<Rightarrow> shared_ledger \<Rightarrow> (budget_error, stage_reservation) result \<times> shared_ledger" where
  "stage_reservation_new kind sl =
     (case kind of
        None \<Rightarrow> (Inr None, sl)
      | Some k \<Rightarrow>
          (case shared_reserve k 1 sl of
             (Inl e, sl') \<Rightarrow> (Inl e, sl')
           | (Inr r, sl') \<Rightarrow> (Inr (Some r), sl')))"

definition stage_reservation_drop :: "stage_reservation \<Rightarrow> shared_ledger \<Rightarrow> shared_ledger" where
  "stage_reservation_drop res sl =
     (case res of None \<Rightarrow> sl | Some r \<Rightarrow> snd (shared_release r sl))"

definition drop_all :: "stage_reservation list \<Rightarrow> shared_ledger \<Rightarrow> shared_ledger" where
  "drop_all rs sl = fold stage_reservation_drop rs sl"

text \<open>A failed commit leaves the reservation in place, so that dropping it releases it.\<close>

definition stage_reservation_commit ::
  "stage_reservation \<Rightarrow> shared_ledger \<Rightarrow> (budget_error, unit) result \<times> stage_reservation \<times> shared_ledger" where
  "stage_reservation_commit res sl =
     (case res of
        None \<Rightarrow> (Inr (), None, sl)
      | Some r \<Rightarrow>
          (case shared_commit r 1 sl of
             (Inl e, sl') \<Rightarrow> (Inl e, Some r, sl')
           | (Inr _, sl') \<Rightarrow> (Inr (), None, sl')))"

text \<open>
  \<open>FrontierReservations\<close>: the reservations of all waves of a frontier. A refused reservation returns
  early, which drops every reservation made so far.
\<close>

fun reserve_wave ::
  "budget_kind option list \<Rightarrow> shared_ledger \<Rightarrow>
   (budget_error, unit) result \<times> stage_reservation list \<times> shared_ledger" where
  "reserve_wave [] sl = (Inr (), [], sl)"
| "reserve_wave (k # ks) sl =
     (case stage_reservation_new k sl of
        (Inl e, sl') \<Rightarrow> (Inl e, [], sl')
      | (Inr r, sl') \<Rightarrow>
          (case reserve_wave ks sl' of (x, rs, sl'') \<Rightarrow> (x, r # rs, sl'')))"

fun reserve_frontier ::
  "budget_kind option list list \<Rightarrow> shared_ledger \<Rightarrow>
   (budget_error, unit) result \<times> stage_reservation list list \<times> shared_ledger" where
  "reserve_frontier [] sl = (Inr (), [], sl)"
| "reserve_frontier (w # ws) sl =
     (case reserve_wave w sl of
        (Inl e, rs, sl') \<Rightarrow> (Inl e, [rs], sl')
      | (Inr _, rs, sl') \<Rightarrow>
          (case reserve_frontier ws sl' of (x, rss, sl'') \<Rightarrow> (x, rs # rss, sl'')))"

definition call_budget :: "stage_kind \<Rightarrow> budget_kind option" where
  "call_budget k =
     (if k = ToolInvocation then Some ToolCalls
      else if k = ModelInvocation then Some ModelCalls
      else None)"

text \<open>\<open>slice::chunks\<close>, for a positive width.\<close>

function chunks :: "nat \<Rightarrow> 'a list \<Rightarrow> 'a list list" where
  "chunks n xs = (if xs = [] \<or> n = 0 then [] else take n xs # chunks n (drop n xs))"
  by pat_completeness auto
termination by (relation "measure (\<lambda>(n, xs). length xs)") auto

declare chunks.simps [simp del]

section \<open>Waves\<close>

text \<open>
  \<open>try_join_all\<close> over one wave. A slot is a future that was never polled and still holds its reservation,
  one that was polled and is pending, or one that has its outcome. A round polls the unfinished
  slots in order; the first error ends the wave and drops the futures, which releases the
  reservations of those never polled.
\<close>

datatype slot =
  Unpolled stage_id stage_definition u32 stage_reservation
| Pending stage_id stage_definition u32 nat
| Ready stage_outcome

definition slot_drop :: "slot \<Rightarrow> shared_ledger \<Rightarrow> shared_ledger" where
  "slot_drop s sl = (case s of Unpolled _ _ _ res \<Rightarrow> stage_reservation_drop res sl | _ \<Rightarrow> sl)"

definition poll_driver ::
  "'w driver \<Rightarrow> run_state \<Rightarrow> stage_id \<Rightarrow> stage_definition \<Rightarrow> u32 \<Rightarrow> nat \<Rightarrow> 'w world \<Rightarrow>
   (exec_error, slot) result \<times> 'w world" where
  "poll_driver d snap i def a n wd =
     (case dr_poll d def i a snap n (wd_driver wd) (wd_ledger wd) of (r, w', ops) \<Rightarrow>
        let wd' = \<lparr>wd_driver = w', wd_ledger = ledger_run ops (wd_ledger wd)\<rparr>
        in (case r of
              None \<Rightarrow> (Inr (Pending i def a (Suc n)), wd')
            | Some (Inl e) \<Rightarrow> (Inl (ExDriver e), wd')
            | Some (Inr out) \<Rightarrow> (Inr (Ready out), wd')))"

definition poll_slot ::
  "'w driver \<Rightarrow> run_state \<Rightarrow> slot \<Rightarrow> 'w world \<Rightarrow> (exec_error, slot) result \<times> 'w world" where
  "poll_slot d snap s wd =
     (case s of
        Unpolled i def a res \<Rightarrow>
          (case stage_reservation_commit res (wd_ledger wd) of
             (Inl e, res', sl) \<Rightarrow> (Inl (ExBudget e), wd\<lparr>wd_ledger := stage_reservation_drop res' sl\<rparr>)
           | (Inr _, res', sl) \<Rightarrow> poll_driver d snap i def a 0 (wd\<lparr>wd_ledger := sl\<rparr>))
      | Pending i def a n \<Rightarrow> poll_driver d snap i def a n wd
      | Ready out \<Rightarrow> (Inr (Ready out), wd))"

fun poll_round ::
  "'w driver \<Rightarrow> run_state \<Rightarrow> slot list \<Rightarrow> 'w world \<Rightarrow> (exec_error, slot list) result \<times> 'w world" where
  "poll_round d snap [] wd = (Inr [], wd)"
| "poll_round d snap (s # ss) wd =
     (case poll_slot d snap s wd of
        (Inl e, wd') \<Rightarrow> (Inl e, wd'\<lparr>wd_ledger := fold slot_drop ss (wd_ledger wd')\<rparr>)
      | (Inr s', wd') \<Rightarrow>
          (case poll_round d snap ss wd' of
             (Inl e, wd'') \<Rightarrow> (Inl e, wd'')
           | (Inr ss', wd'') \<Rightarrow> (Inr (s' # ss'), wd'')))"

fun outcomes_of :: "slot list \<Rightarrow> stage_outcome list option" where
  "outcomes_of [] = Some []"
| "outcomes_of (Ready out # ss) = map_option (Cons out) (outcomes_of ss)"
| "outcomes_of (_ # ss) = None"

fun try_join_all ::
  "nat \<Rightarrow> 'w driver \<Rightarrow> run_state \<Rightarrow> slot list \<Rightarrow> 'w world \<Rightarrow>
   ((exec_error, stage_outcome list) result \<times> 'w world) option" where
  "try_join_all 0 d snap ss wd = None"
| "try_join_all (Suc polls) d snap ss wd =
     (case poll_round d snap ss wd of
        (Inl e, wd') \<Rightarrow> Some (Inl e, wd')
      | (Inr ss', wd') \<Rightarrow>
          (case outcomes_of ss' of
             Some outs \<Rightarrow> Some (Inr outs, wd')
           | None \<Rightarrow> try_join_all polls d snap ss' wd'))"

text \<open>\<open>self.ledger.usage()?\<close> with the error of the executor.\<close>

definition ledger_usage :: "shared_ledger \<Rightarrow> (exec_error, budget_usage) result" where
  "ledger_usage sl = (case shared_usage sl of Inl e \<Rightarrow> Inl (ExBudget e) | Inr u \<Rightarrow> Inr u)"

text \<open>\<open>BudgetStateSync::drop\<close>: the durable budget is the ledger's usage without reservations.\<close>

definition budget_state_sync :: "shared_ledger \<Rightarrow> run_state \<Rightarrow> run_state" where
  "budget_state_sync sl st =
     (case shared_usage sl of Inl _ \<Rightarrow> st | Inr u \<Rightarrow> st\<lparr>rs_budget := u\<lparr>reserved := []\<rparr>\<rparr>)"

definition set_usage :: "exec_error \<Rightarrow> shared_ledger \<Rightarrow> run_state \<Rightarrow> exec_error \<times> run_state" where
  "set_usage err sl st =
     (case ledger_usage sl of Inl e \<Rightarrow> (e, st) | Inr u \<Rightarrow> (err, st\<lparr>rs_budget := u\<rparr>))"

type_synonym job = "(stage_id \<times> stage_definition) \<times> u32"

definition start_slot :: "job \<Rightarrow> stage_reservation \<Rightarrow> slot" where
  "start_slot j res = Unpolled (fst (fst j)) (snd (fst j)) (snd j) res"

text \<open>The loop over the waves of a frontier, with the reservations of the current and later waves.\<close>

fun run_waves ::
  "nat \<Rightarrow> 'w driver \<Rightarrow> run_state \<Rightarrow> (job list \<times> stage_reservation list) list \<Rightarrow> run_state \<Rightarrow> 'w world \<Rightarrow>
   ((exec_error, stage_outcome list) result \<times> run_state \<times> 'w world) option" where
  "run_waves polls d snap [] st wd = Some (Inr [], st, wd)"
| "run_waves polls d snap ((jobs, res) # rest) st wd =
     (let later = concat (map snd rest)
      in case ledger_usage (wd_ledger wd) of
        Inl e \<Rightarrow> Some (Inl e, st, wd\<lparr>wd_ledger := drop_all (res @ later) (wd_ledger wd)\<rparr>)
      | Inr u \<Rightarrow>
          let st1 = st\<lparr>rs_budget := u\<lparr>reserved := []\<rparr>\<rparr>
          in (case try_join_all polls d snap (map2 start_slot jobs res) wd of
                None \<Rightarrow> None
              | Some (Inl e, wd') \<Rightarrow>
                  let sl = drop_all later (wd_ledger wd');
                      st2 = budget_state_sync (wd_ledger wd') st1
                  in (case set_usage e sl st2 of
                        (e', st3) \<Rightarrow> Some (Inl e', st3, wd'\<lparr>wd_ledger := sl\<rparr>))
              | Some (Inr outs, wd') \<Rightarrow>
                  let st2 = budget_state_sync (wd_ledger wd') st1
                  in (case ledger_usage (wd_ledger wd') of
                        Inl e \<Rightarrow> Some (Inl e, st2, wd'\<lparr>wd_ledger := drop_all later (wd_ledger wd')\<rparr>)
                      | Inr u' \<Rightarrow>
                          (case run_waves polls d snap rest (st2\<lparr>rs_budget := u'\<rparr>) wd' of
                             None \<Rightarrow> None
                           | Some (Inl e, r) \<Rightarrow> Some (Inl e, r)
                           | Some (Inr outs', r) \<Rightarrow> Some (Inr (outs @ outs'), r)))))"

section \<open>Applying outcomes\<close>

text \<open>
  \<open>apply_outcome_inner\<close> with the rollback of \<open>apply_outcome\<close>: on an error the caller keeps the original
  state, so the model returns no state. Each step is one block of the function, in its order.
\<close>

definition apply_plan :: "stage_outcome \<Rightarrow> run_state \<Rightarrow> (exec_error, run_state) result" where
  "apply_plan out st =
     (case so_plan out of
        None \<Rightarrow> Inr st
      | Some plan \<Rightarrow>
          and_then
            (case rs_plan st of
               None \<Rightarrow> Inr ()
             | Some previous \<Rightarrow>
                 ensure (ep_revision previous < ep_revision plan) PlanRevisionNotNewer
                 (ensure (case ep_revision_reason plan of None \<Rightarrow> False | Some v \<Rightarrow> trim v \<noteq> [])
                    PlanRevisionWithoutReason (Inr ())))
            (\<lambda>_. Inr (st\<lparr>rs_plan := Some plan\<rparr>)))"

definition apply_patches :: "stage_outcome \<Rightarrow> run_state \<Rightarrow> (exec_error, run_state) result" where
  "apply_patches out st =
     (if so_patches out = [] then Inr st
      else ensure (rs_plan st \<noteq> None) PatchesBeforePlan
             (Inr (st\<lparr>rs_patches := rs_patches st @ so_patches out\<rparr>)))"

definition lift_state :: "(state_error, 'a) result \<Rightarrow> (exec_error, 'a) result" where
  "lift_state r = (case r of Inl e \<Rightarrow> Inl (ExState e) | Inr a \<Rightarrow> Inr a)"

definition apply_verification ::
  "stage_id \<Rightarrow> stage_definition \<Rightarrow> stage_outcome \<Rightarrow> run_state \<Rightarrow> (exec_error, run_state) result" where
  "apply_verification i def out st =
     (case so_verification out of
        Some report \<Rightarrow>
          ensure (sd_kind def = VerificationGate \<and> sd_trusted def) VerificationOutsideGate
          (and_then (lift_state (validate_supervisor_report report)) (\<lambda>_.
           ensure (vr_run_id report = rs_run_id st \<and> vr_candidate_id report = rs_candidate_id st)
             VerificationIdentityMismatch
             (Inr (st\<lparr>rs_verification := rs_verification st @ [report]\<rparr>))))
      | None \<Rightarrow>
          if sd_kind def = VerificationGate then Inl (GateOmittedReport i) else Inr st)"

definition apply_outcome ::
  "shared_ledger \<Rightarrow> stage_id \<Rightarrow> stage_definition \<Rightarrow> stage_outcome \<Rightarrow> run_state \<Rightarrow>
   (exec_error, run_state) result" where
  "apply_outcome sl i def out st =
     and_then (lift_state (check_all failure_validate (so_failures out))) (\<lambda>_.
     and_then (apply_plan out (st\<lparr>rs_failure_evidence := rs_failure_evidence st @ so_failures out\<rparr>)) (\<lambda>st1.
     and_then (apply_patches out st1) (\<lambda>st2.
     and_then (apply_verification i def out st2) (\<lambda>st3.
     and_then (ledger_usage sl) (\<lambda>u.
     Inr (st3\<lparr>rs_budget := u\<rparr>))))))"

definition condition_matches :: "transition_condition \<Rightarrow> stage_kind \<Rightarrow> bool \<Rightarrow> bool \<Rightarrow> bool" where
  "condition_matches c kind passed repair_left =
     (case c of
        Always \<Rightarrow> True
      | BudgetRemaining \<Rightarrow> repair_left
      | StagePassed \<Rightarrow> passed
      | StageFailed \<Rightarrow> \<not> passed
      | HumanApproved \<Rightarrow> kind = HumanApprovalGate \<and> passed)"

definition requires_checkpoint :: "stage_id \<Rightarrow> stage_definition \<Rightarrow> stage_outcome \<Rightarrow> bool" where
  "requires_checkpoint i def out \<longleftrightarrow>
     i \<in> {''explore_repository'', ''diagnose'', ''plan'', ''repair''} \<or>
     so_patches out \<noteq> [] \<or> sd_kind def = VerificationGate"

definition checkpoint_reason :: "stage_id \<Rightarrow> stage_definition \<Rightarrow> stage_outcome \<Rightarrow> string" where
  "checkpoint_reason i def out =
     (if sd_kind def = VerificationGate then ''verification_boundary''
      else if so_patches out \<noteq> [] then ''patch_batch''
      else i)"

text \<open>The transitions a finished stage takes: eligible edges by priority, all of them at a fan-out.\<close>

definition eligible_edges :: "workflow_graph \<Rightarrow> stage_id \<Rightarrow> stage_kind \<Rightarrow> bool \<Rightarrow> bool \<Rightarrow> transition_rule list" where
  "eligible_edges g i kind passed repair_left =
     sort_key tr_priority
       (filter (\<lambda>e. tr_from e = i \<and> condition_matches (tr_condition e) kind passed repair_left) (wg_edges g))"

definition select_edges ::
  "workflow_graph \<Rightarrow> stage_id \<Rightarrow> stage_kind \<Rightarrow> bool \<Rightarrow> bool \<Rightarrow> (exec_error, transition_rule list) result" where
  "select_edges g i kind passed repair_left =
     (let eligible = eligible_edges g i kind passed repair_left
      in ensure (eligible \<noteq> []) (NoEligibleTransition i)
         (ensure (kind \<noteq> ParallelFanOut \<or> list_all (\<lambda>e. tr_condition e \<noteq> BudgetRemaining) eligible)
            BudgetTransitionAtFanOut
         (if kind = ParallelFanOut
          then ensure (length eligible \<le> unat (maximum_parallelism (wg_limits g))) ParallelismExceeded
                 (Inr eligible)
          else Inr (take 1 eligible))))"

definition repair_count :: "transition_rule list \<Rightarrow> u64" where
  "repair_count es = of_nat (length (filter (\<lambda>e. tr_condition e = BudgetRemaining) es))"

record applied =
  ap_next :: run_state
  ap_frontier :: "stage_id btree_set"
  ap_checkpoint :: "(stage_id \<times> stage_definition \<times> stage_outcome) option"
  ap_patches :: "artifact_ref list"

text \<open>
  One pass of the loop that applies outcomes. The second component is the caller's state, of which an
  error may already have changed the budget.
\<close>

definition apply_one ::
  "workflow_graph \<Rightarrow> (stage_id \<times> stage_definition) \<times> stage_outcome \<Rightarrow> applied \<Rightarrow> run_state \<Rightarrow> shared_ledger \<Rightarrow>
   (exec_error, applied) result \<times> run_state \<times> shared_ledger" where
  "apply_one g x acc st sl =
     (case x of ((i, def), out) \<Rightarrow>
        (case apply_outcome sl i def out (ap_next acc) of
           Inl err \<Rightarrow> (case set_usage err sl st of (e, st') \<Rightarrow> (Inl e, st', sl))
         | Inr nst \<Rightarrow>
             (case shared_remaining RepairIterations sl of
                Inl e \<Rightarrow> (Inl (ExBudget e), st, sl)
              | Inr left \<Rightarrow>
                  (case select_edges g i (sd_kind def) (so_passed out) (0 < left) of
                     Inl e \<Rightarrow> (Inl e, st, sl)
                   | Inr selected \<Rightarrow>
                       (case shared_consume RepairIterations (repair_count selected) sl of
                          (Inl err, sl') \<Rightarrow>
                            (case set_usage (ExBudget err) sl' st of (e, st') \<Rightarrow> (Inl e, st', sl'))
                        | (Inr _, sl') \<Rightarrow>
                            (case ledger_usage sl' of
                               Inl e \<Rightarrow> (Inl e, st, sl')
                             | Inr u \<Rightarrow>
                                 (Inr \<lparr>ap_next = nst\<lparr>rs_budget := u\<rparr>,
                                       ap_frontier = bs_extend (map tr_to selected) (ap_frontier acc),
                                       ap_checkpoint =
                                         (if ap_checkpoint acc = None \<and> requires_checkpoint i def out
                                          then Some (i, def, out) else ap_checkpoint acc),
                                       ap_patches = ap_patches acc @ so_patches out\<rparr>,
                                  st\<lparr>rs_budget := u\<rparr>, sl')))))))"

fun apply_all ::
  "workflow_graph \<Rightarrow> ((stage_id \<times> stage_definition) \<times> stage_outcome) list \<Rightarrow> applied \<Rightarrow> run_state \<Rightarrow>
   shared_ledger \<Rightarrow> (exec_error, applied) result \<times> run_state \<times> shared_ledger" where
  "apply_all g [] acc st sl = (Inr acc, st, sl)"
| "apply_all g (x # xs) acc st sl =
     (case apply_one g x acc st sl of
        (Inl e, r) \<Rightarrow> (Inl e, r)
      | (Inr acc', st', sl') \<Rightarrow> apply_all g xs acc' st' sl')"

section \<open>Rounds\<close>

datatype classified =
  FrontierFailed
| FrontierWork "(stage_id \<times> stage_definition) list" "stage_id option"

fun classify ::
  "workflow_graph \<Rightarrow> stage_id list \<Rightarrow> (stage_id \<times> stage_definition) list \<Rightarrow> stage_id option \<Rightarrow>
   (exec_error, classified) result" where
  "classify g [] batch success = Inr (FrontierWork batch success)"
| "classify g (i # is) batch success =
     (case bt_get (wg_stages g) i of
        None \<Rightarrow> Inl (MissingStage i)
      | Some def \<Rightarrow>
          if sd_kind def = TerminalFailure then Inr FrontierFailed
          else if sd_kind def = TerminalSuccess then classify g is batch (Some i)
          else classify g is (batch @ [(i, def)]) success)"

text \<open>Pre-stage accounting: the transition count, the staged attempts, and the attempt of each stage.\<close>

fun count_attempts ::
  "workflow_graph \<Rightarrow> (stage_id \<times> stage_definition) list \<Rightarrow> u32 \<Rightarrow> (stage_id, u32) btree_map \<Rightarrow>
   (exec_error, u32 \<times> (stage_id, u32) btree_map \<times> u32 list) result" where
  "count_attempts g [] tc staged = Inr (tc, staged, [])"
| "count_attempts g ((i, def) # b) tc staged =
     (case checked_add tc 1 of
        None \<Rightarrow> Inl TransitionOverflow
      | Some tc' \<Rightarrow>
          ensure (tc' \<le> maximum_transitions (wg_limits g)) TransitionsExhausted
          (case checked_add (unwrap_or (bt_get staged i) 0) 1 of
             None \<Rightarrow> Inl AttemptOverflow
           | Some a \<Rightarrow>
               ensure (case sd_iteration_limit def of None \<Rightarrow> True | Some limit \<Rightarrow> a \<le> limit)
                 (IterationLimitExhausted i)
               (and_then (count_attempts g b tc' (bt_insert i a staged)) (\<lambda>(tc'', staged', as).
                Inr (tc'', staged', a # as)))))"

definition verified_success :: "run_state \<Rightarrow> bool" where
  "verified_success st \<longleftrightarrow>
     rs_verification st \<noteq> [] \<and> vr_passed (last (rs_verification st)) \<and>
     is_ok (validate_supervisor_report (last (rs_verification st)))"

record 'w exec =
  ex_state :: run_state
  ex_frontier :: "stage_id btree_set"
  ex_transitions :: u32
  ex_sequence :: u64
  ex_world :: "'w world"

type_synonym 'w halted = "(exec_error, terminal_outcome) result \<times> run_state \<times> 'w world"

datatype 'w progress = Halt "'w halted" | Continue "'w exec"

text \<open>The checkpoint of a round, when one of its stages requires it, and the commit of the new state.\<close>

definition seal_round ::
  "'w driver \<Rightarrow> applied \<Rightarrow> u32 \<Rightarrow> u64 \<Rightarrow> run_state \<Rightarrow> 'w world \<Rightarrow> 'w progress" where
  "seal_round d ap tc seq st wd =
     (case ledger_usage (wd_ledger wd) of
        Inl e \<Rightarrow> Halt (Inl e, st, wd)
      | Inr u \<Rightarrow>
          let nst = (ap_next ap)\<lparr>rs_budget := u\<rparr>
          in (case checked_add seq 1 of
                None \<Rightarrow> Halt (Inl SequenceOverflow, st, wd)
              | Some seq' \<Rightarrow>
                  (case ap_checkpoint ap of
                     None \<Rightarrow> Continue \<lparr>ex_state = nst, ex_frontier = ap_frontier ap, ex_transitions = tc,
                                      ex_sequence = seq', ex_world = wd\<rparr>
                   | Some (i, def, out) \<Rightarrow>
                       (case dr_checkpoint d
                               \<lparr>cp_schema_version = 1, cp_run_id = rs_run_id nst,
                                cp_candidate_id = rs_candidate_id nst, cp_state = nst,
                                cp_workspace_tree_hash = source_tree_hash (rs_repository nst),
                                cp_workflow_position = ap_frontier ap, cp_context_manifests = [],
                                cp_response_artifacts = ap_patches ap, cp_created_at_sequence = seq'\<rparr>
                               (checkpoint_reason i def out) (wd_driver wd) (wd_ledger wd) of (r, w', ops) \<Rightarrow>
                          let wd' = \<lparr>wd_driver = w', wd_ledger = ledger_run ops (wd_ledger wd)\<rparr>
                          in (case r of
                                Inl e \<Rightarrow>
                                  (case set_usage (ExDriver e) (wd_ledger wd')
                                          (budget_state_sync (wd_ledger wd') st) of
                                     (e', st') \<Rightarrow> Halt (Inl e', st', wd'))
                              | Inr _ \<Rightarrow>
                                  Continue \<lparr>ex_state = nst, ex_frontier = ap_frontier ap, ex_transitions = tc,
                                    ex_sequence = seq', ex_world = wd'\<rparr>)))))"

definition run_batch ::
  "nat \<Rightarrow> workflow_graph \<Rightarrow> 'w driver \<Rightarrow> (stage_id \<times> stage_definition) list \<Rightarrow> 'w exec \<Rightarrow> 'w progress option" where
  "run_batch polls g d batch x =
     (case count_attempts g batch (ex_transitions x) (rs_attempts (ex_state x)) of
        Inl e \<Rightarrow> Some (Halt (Inl e, ex_state x, ex_world x))
      | Inr (tc, staged, attempts) \<Rightarrow>
          let width = unat (effective_concurrency (wg_limits g));
              waves = chunks width (zip batch attempts);
              kinds = map (map (\<lambda>j. call_budget (sd_kind (snd (fst j))))) waves
          in (case reserve_frontier kinds (wd_ledger (ex_world x)) of
                (Inl e, rss, sl) \<Rightarrow>
                  Some (Halt (Inl (ExBudget e), ex_state x,
                              (ex_world x)\<lparr>wd_ledger := drop_all (concat rss) sl\<rparr>))
              | (Inr _, rss, sl) \<Rightarrow>
                  let st = (ex_state x)\<lparr>rs_current_stages := ex_frontier x\<rparr>
                  in (case run_waves polls d st (zip waves rss) st ((ex_world x)\<lparr>wd_ledger := sl\<rparr>) of
                        None \<Rightarrow> None
                      | Some (Inl e, st', wd') \<Rightarrow> Some (Halt (Inl e, st', wd'))
                      | Some (Inr outs, st', wd') \<Rightarrow>
                          (case apply_all g (zip batch outs)
                                  \<lparr>ap_next = st'\<lparr>rs_attempts := staged\<rparr>, ap_frontier = [],
                                   ap_checkpoint = None, ap_patches = []\<rparr> st' (wd_ledger wd') of
                             (Inl e, st'', sl'') \<Rightarrow> Some (Halt (Inl e, st'', wd'\<lparr>wd_ledger := sl''\<rparr>))
                           | (Inr ap, st'', sl'') \<Rightarrow>
                               Some (seal_round d ap tc (ex_sequence x) st'' (wd'\<lparr>wd_ledger := sl''\<rparr>))))))"

definition run_frontier :: "nat \<Rightarrow> workflow_graph \<Rightarrow> 'w driver \<Rightarrow> 'w exec \<Rightarrow> 'w progress option" where
  "run_frontier polls g d x =
     (case classify g (ex_frontier x) [] None of
        Inl e \<Rightarrow> Some (Halt (Inl e, ex_state x, ex_world x))
      | Inr FrontierFailed \<Rightarrow>
          Some (Halt (Inr Failed, (ex_state x)\<lparr>rs_current_stages := []\<rparr>, ex_world x))
      | Inr (FrontierWork batch (Some i)) \<Rightarrow>
          if batch \<noteq> [] then Some (Halt (Inl (SuccessWhileScheduled i), ex_state x, ex_world x))
          else if \<not> verified_success (ex_state x) then Some (Halt (Inl SuccessUnverified, ex_state x, ex_world x))
          else Some (Halt (Inr Succeeded, (ex_state x)\<lparr>rs_current_stages := []\<rparr>, ex_world x))
      | Inr (FrontierWork batch None) \<Rightarrow> run_batch polls g d batch x)"

section \<open>Runs\<close>

fun run_loop :: "nat \<Rightarrow> nat \<Rightarrow> workflow_graph \<Rightarrow> 'w driver \<Rightarrow> 'w exec \<Rightarrow> 'w halted option" where
  "run_loop 0 polls g d x = None"
| "run_loop (Suc rounds) polls g d x =
     (if ex_frontier x = [] then Some (Inl NoTerminalStage, ex_state x, ex_world x)
      else case run_frontier polls g d x of
        None \<Rightarrow> None
      | Some (Halt h) \<Rightarrow> Some h
      | Some (Continue x') \<Rightarrow> run_loop rounds polls g d x')"

fun sum_attempts :: "u32 \<Rightarrow> u32 list \<Rightarrow> u32 option" where
  "sum_attempts acc [] = Some acc"
| "sum_attempts acc (a # as) =
     (case checked_add acc a of None \<Rightarrow> None | Some t \<Rightarrow> sum_attempts t as)"

definition run_workflow ::
  "nat \<Rightarrow> nat \<Rightarrow> workflow_graph \<Rightarrow> 'w driver \<Rightarrow> u64 \<Rightarrow> stage_id btree_set \<Rightarrow> run_state \<Rightarrow> 'w world \<Rightarrow>
   'w halted option" where
  "run_workflow rounds polls g d seq frontier st wd =
     (case sum_attempts 0 (bt_values (rs_attempts st)) of
        None \<Rightarrow> Some (Inl CheckpointTransitionOverflow, st, wd)
      | Some tc \<Rightarrow>
          if \<not> tc \<le> maximum_transitions (wg_limits g) then Some (Inl CheckpointTransitionsExceeded, st, wd)
          else run_loop rounds polls g d
                 \<lparr>ex_state = st, ex_frontier = frontier, ex_transitions = tc, ex_sequence = seq, ex_world = wd\<rparr>)"

definition execute ::
  "nat \<Rightarrow> nat \<Rightarrow> workflow_graph \<Rightarrow> 'w driver \<Rightarrow> run_state \<Rightarrow> 'w world \<Rightarrow> 'w halted option" where
  "execute rounds polls g d st wd =
     (case shared_merge_floor (rs_budget st) (wd_ledger wd) of
        (Inl e, sl) \<Rightarrow> Some (Inl (ExBudget e), st, wd\<lparr>wd_ledger := sl\<rparr>)
      | (Inr u, sl) \<Rightarrow>
          run_workflow rounds polls g d 0 [wg_entry g] (st\<lparr>rs_budget := u\<rparr>) (wd\<lparr>wd_ledger := sl\<rparr>))"

definition resume_checks ::
  "(checkpoint \<Rightarrow> (string, string) result) \<Rightarrow> workflow_graph \<Rightarrow> checkpoint \<Rightarrow> run_state \<Rightarrow> (exec_error, unit) result" where
  "resume_checks hash g cp st =
     ensure (cp_schema_version cp = 1) (UnsupportedSchema (cp_schema_version cp))
     (and_then (lift_state (checkpoint_canonical_hash hash cp)) (\<lambda>_.
      ensure (cp_run_id cp = rs_run_id st \<and> cp_candidate_id cp = rs_candidate_id st) CheckpointWrongRun
      (ensure (cp_workflow_position cp \<noteq> []) NoResumablePosition
      (and_then
         (check_all (\<lambda>i. ensure (bt_get (wg_stages g) i \<noteq> None) (PositionMissingStage i) (Inr ()))
            (cp_workflow_position cp)) (\<lambda>_.
       ensure (all_zero (reserved (rs_budget st))) CallerUnsettled (Inr ()))))))"

definition resume ::
  "(checkpoint \<Rightarrow> (string, string) result) \<Rightarrow> nat \<Rightarrow> nat \<Rightarrow> workflow_graph \<Rightarrow> 'w driver \<Rightarrow> checkpoint \<Rightarrow>
   run_state \<Rightarrow> 'w world \<Rightarrow> 'w halted option" where
  "resume hash rounds polls g d cp st wd =
     (case resume_checks hash g cp st of
        Inl e \<Rightarrow> Some (Inl e, st, wd)
      | Inr _ \<Rightarrow>
          let cb = rs_budget (cp_state cp);
              floor = cb\<lparr>consumed := fold raise_to (consumed (rs_budget st)) (consumed cb)\<rparr>
          in (case shared_merge_floor floor (wd_ledger wd) of
                (Inl e, sl) \<Rightarrow> Some (Inl (ExBudget e), st, wd\<lparr>wd_ledger := sl\<rparr>)
              | (Inr u, sl) \<Rightarrow>
                  run_workflow rounds polls g d (cp_created_at_sequence cp) (cp_workflow_position cp)
                    ((cp_state cp)\<lparr>rs_budget := u\<rparr>) (wd\<lparr>wd_ledger := sl\<rparr>)))"

end
