(* ===== verification/Workflow_Validation.thy ===== *)
theory Workflow_Validation
  imports Workflow_Graph
begin

text \<open>
  Correctness of the workflow validator. The three graph searches of
  \<open>crates/hi-rsi-runtime/src/workflow.rs\<close> are compared with paths and with the edge relation: the
  reachability loop computes exactly the stages reachable from the entry, the bypass loop accepts
  exactly the graphs in which every path to a success stage passes a verification gate, and the
  cycle search accepts only graphs whose cycles all contain a stage with an iteration limit and
  never exhausts its fuel.
\<close>

section \<open>Edges and paths\<close>

definition edge_rel :: "transition_rule list \<Rightarrow> (stage_id \<times> stage_id) set" where
  "edge_rel es = (\<lambda>e. (tr_from e, tr_to e)) ` set es"

lemma successors_edge [simp]: "n \<in> set (successors es i) \<longleftrightarrow> (i, n) \<in> edge_rel es"
  by (auto simp: successors_def edge_rel_def)

fun edge_path :: "transition_rule list \<Rightarrow> stage_id list \<Rightarrow> bool" where
  "edge_path es [] = False"
| "edge_path es [i] = True"
| "edge_path es (i # j # p) = ((i, j) \<in> edge_rel es \<and> edge_path es (j # p))"

lemma edge_path_snoc:
  "edge_path es (p @ [i]) \<Longrightarrow> (i, j) \<in> edge_rel es \<Longrightarrow> edge_path es (p @ [i, j])"
  by (induction es p rule: edge_path.induct) (auto split: list.splits)

lemma edge_path_butlast: "edge_path es (p @ [i, j]) \<Longrightarrow> edge_path es (p @ [i]) \<and> (i, j) \<in> edge_rel es"
proof (induction p)
  case (Cons a p)
  then show ?case by (cases p) auto
qed simp

lemma edge_path_rtrancl: "edge_path es p \<Longrightarrow> (hd p, last p) \<in> (edge_rel es)\<^sup>*"
  by (induction es p rule: edge_path.induct) (auto intro: converse_rtrancl_into_rtrancl)

section \<open>Reachability\<close>

lemma reach_loop_closure:
  assumes "\<And>i. i \<in> R \<Longrightarrow> edge_rel es `` {i} \<subseteq> R \<union> set q"
  shows "reach_loop es q R = (edge_rel es)\<^sup>* `` (R \<union> set q)"
  using assms
proof (induction es q R rule: reach_loop.induct)
  case (1 es R)
  then have "edge_rel es `` R \<subseteq> R" by auto
  then have "(edge_rel es)\<^sup>* `` R = R" by (rule Image_closed_trancl)
  then show ?case by simp
next
  case (2 es i q R)
  show ?case
  proof (cases "i \<in> R")
    case True
    with 2 have "reach_loop es q R = (edge_rel es)\<^sup>* `` (R \<union> set q)" by auto
    moreover have "R \<union> set (i # q) = R \<union> set q" using True by auto
    ultimately show ?thesis using True by simp
  next
    case False
    have closed: "\<And>j. j \<in> insert i R \<Longrightarrow>
        edge_rel es `` {j} \<subseteq> insert i R \<union> set (q @ successors es i)"
      using "2.prems" by fastforce
    have "(edge_rel es)\<^sup>* `` (insert i R \<union> set (q @ successors es i)) = (edge_rel es)\<^sup>* `` (R \<union> set (i # q))"
    proof -
      have "(edge_rel es)\<^sup>* `` set (successors es i) \<subseteq> (edge_rel es)\<^sup>* `` {i}"
        by (auto intro: converse_rtrancl_into_rtrancl)
      then show ?thesis by auto
    qed
    with 2(2) [OF False closed] False show ?thesis by simp
  qed
qed

lemma reach_loop_entry: "reach_loop es [i] {} = (edge_rel es)\<^sup>* `` {i}"
  using reach_loop_closure [of "{}" es "[i]"] by simp

section \<open>Verification cannot be bypassed\<close>

text \<open>A stage reached from the entry, with whether a verification gate occurred on the way, the stage included.\<close>

inductive flow :: "workflow_graph \<Rightarrow> stage_id \<Rightarrow> bool \<Rightarrow> bool" for g where
  flow_start: "flow g (wg_entry g) (verified_at g (wg_entry g) False)"
| flow_step: "flow g i v \<Longrightarrow> (i, n) \<in> edge_rel (wg_edges g) \<Longrightarrow> flow g n (verified_at g n v)"

definition bypass_bad :: "workflow_graph \<Rightarrow> stage_id \<times> bool \<Rightarrow> bool" where
  "bypass_bad g x \<longleftrightarrow> kind_at g (fst x) = Some TerminalSuccess \<and> \<not> snd x"

definition bypass_closed :: "workflow_graph \<Rightarrow> (stage_id \<times> bool) set \<Rightarrow> (stage_id \<times> bool) set \<Rightarrow> bool" where
  "bypass_closed g S T \<longleftrightarrow>
     (\<forall>(i, v) \<in> S. \<not> bypass_bad g (i, v) \<and>
        (\<forall>n. (i, n) \<in> edge_rel (wg_edges g) \<longrightarrow> (n, verified_at g n v) \<in> T))"

abbreviation arrive :: "workflow_graph \<Rightarrow> (stage_id \<times> bool) list \<Rightarrow> (stage_id \<times> bool) set" where
  "arrive g q \<equiv> (\<lambda>(i, v). (i, verified_at g i v)) ` set q"

lemma bypass_loop_ok:
  assumes "bypass_loop g q seen = Inr ()" and "bypass_closed g seen (seen \<union> arrive g q)"
  shows "\<exists>S. seen \<union> arrive g q \<subseteq> S \<and> bypass_closed g S S"
  using assms
proof (induction g q seen rule: bypass_loop.induct)
  case (1 g seen)
  then show ?case by auto
next
  case (2 g i v q seen)
  let ?v = "verified_at g i v"
  let ?q = "q @ map (\<lambda>n. (n, ?v)) (successors (wg_edges g) i)"
  show ?case
  proof (cases "(i, ?v) \<in> seen")
    case True
    then have eq: "seen \<union> arrive g ((i, v) # q) = seen \<union> arrive g q" by auto
    have "bypass_loop g q seen = Inr ()" using "2.prems"(1) True by (simp add: Let_def)
    with "2.IH"(1) [OF refl True] "2.prems"(2) show ?thesis unfolding eq by blast
  next
    case False
    with "2.prems"(1) have ok: "bypass_loop g ?q (insert (i, ?v) seen) = Inr ()"
      and nb: "\<not> bypass_bad g (i, ?v)" and nt: "\<not> (kind_at g i = Some TerminalSuccess \<and> \<not> ?v)"
      by (auto simp: Let_def bypass_bad_def split: if_splits)
    have sub: "seen \<union> arrive g ((i, v) # q) \<subseteq> insert (i, ?v) seen \<union> arrive g ?q"
      by auto
    have "bypass_closed g (insert (i, ?v) seen) (insert (i, ?v) seen \<union> arrive g ?q)"
      unfolding bypass_closed_def
    proof (clarify, intro conjI allI impI)
      fix j w assume jw: "(j, w) \<in> insert (i, ?v) seen"
      show "\<not> bypass_bad g (j, w)"
        using jw nb "2.prems"(2) by (auto simp: bypass_closed_def)
      fix n assume n: "(j, n) \<in> edge_rel (wg_edges g)"
      show "(n, verified_at g n w) \<in> insert (i, ?v) seen \<union> arrive g ?q"
      proof (cases "(j, w) = (i, ?v)")
        case True
        with n have "(n, ?v) \<in> set ?q" and "w = ?v" by auto
        then show ?thesis by force
      next
        case False
        then have "(n, verified_at g n w) \<in> seen \<union> arrive g ((i, v) # q)"
          using jw n "2.prems"(2) unfolding bypass_closed_def by blast
        with sub show ?thesis by blast
      qed
    qed
    from "2.IH"(2) [OF refl False nt ok this] sub show ?thesis by blast
  qed
qed

lemma bypass_loop_err:
  assumes "bypass_loop g q seen = Inl e" and "\<And>i v. (i, v) \<in> arrive g q \<Longrightarrow> flow g i v"
  shows "\<exists>i v. flow g i v \<and> bypass_bad g (i, v)"
  using assms
proof (induction g q seen rule: bypass_loop.induct)
  case (1 g seen)
  then show ?case by simp
next
  case (2 g i v q seen)
  let ?v = "verified_at g i v"
  have fl: "flow g i ?v" using "2.prems"(2) by auto
  show ?case
  proof (cases "(i, ?v) \<in> seen")
    case True
    with "2.prems"(1) have "bypass_loop g q seen = Inl e" by (simp add: Let_def)
    with "2.IH"(1) [OF refl True] "2.prems"(2) show ?thesis by auto
  next
    case False
    show ?thesis
    proof (cases "kind_at g i = Some TerminalSuccess \<and> \<not> ?v")
      case True
      with fl show ?thesis by (auto simp: bypass_bad_def)
    next
      case nb: False
      with False "2.prems"(1)
      have err: "bypass_loop g (q @ map (\<lambda>n. (n, ?v)) (successors (wg_edges g) i)) (insert (i, ?v) seen) = Inl e"
        by (simp add: Let_def)
      have "flow g j w" if "(j, w) \<in> arrive g (q @ map (\<lambda>n. (n, ?v)) (successors (wg_edges g) i))" for j w
      proof -
        have "(j, w) \<in> arrive g q \<union> (\<lambda>n. (n, verified_at g n ?v)) ` set (successors (wg_edges g) i)"
          using that by (simp only: set_append set_map image_Un image_image prod.case)
        then show ?thesis
        proof
          assume "(j, w) \<in> arrive g q"
          then show ?thesis using "2.prems"(2) by (simp only: set_simps image_insert insert_iff) blast
        next
          assume "(j, w) \<in> (\<lambda>n. (n, verified_at g n ?v)) ` set (successors (wg_edges g) i)"
          then have "(i, j) \<in> edge_rel (wg_edges g)" "w = verified_at g j ?v" by auto
          then show ?thesis using flow_step [OF fl] by blast
        qed
      qed
      with "2.IH"(2) [OF refl False nb err] show ?thesis by blast
    qed
  qed
qed

lemma bypass_exact:
  "validate_success_requires_verification g = Inr () \<longleftrightarrow>
   (\<forall>i v. flow g i v \<longrightarrow> kind_at g i = Some TerminalSuccess \<longrightarrow> v)"
proof
  assume "validate_success_requires_verification g = Inr ()"
  then obtain S where S: "arrive g [(wg_entry g, False)] \<subseteq> S" "bypass_closed g S S"
    using bypass_loop_ok [of g "[(wg_entry g, False)]" "{}"]
    by (auto simp: validate_success_requires_verification_def bypass_closed_def)
  have "(i, v) \<in> S" if "flow g i v" for i v
    using that S by (induction rule: flow.induct) (auto simp: bypass_closed_def)
  with S(2) show "\<forall>i v. flow g i v \<longrightarrow> kind_at g i = Some TerminalSuccess \<longrightarrow> v"
    by (fastforce simp: bypass_closed_def bypass_bad_def)
next
  assume flow: "\<forall>i v. flow g i v \<longrightarrow> kind_at g i = Some TerminalSuccess \<longrightarrow> v"
  show "validate_success_requires_verification g = Inr ()"
  proof (cases "validate_success_requires_verification g")
    case (Inl e)
    then obtain i v where "flow g i v" "bypass_bad g (i, v)"
      using bypass_loop_err [of g "[(wg_entry g, False)]" "{}" e]
      by (auto simp: validate_success_requires_verification_def intro: flow_start)
    with flow show ?thesis by (auto simp: bypass_bad_def)
  qed simp
qed

lemma flow_path:
  assumes "edge_path (wg_edges g) p" and "hd p = wg_entry g"
  shows "flow g (last p) (\<exists>i \<in> set p. kind_at g i = Some VerificationGate)"
  using assms
proof (induction p rule: rev_induct)
  case (snoc j p)
  show ?case
  proof (cases p rule: rev_cases)
    case Nil
    with snoc.prems show ?thesis using flow_start [of g] by (simp add: verified_at_def)
  next
    case p: (snoc p' i)
    have "edge_path (wg_edges g) p" "hd p = wg_entry g" "(i, j) \<in> edge_rel (wg_edges g)"
      using snoc.prems edge_path_butlast [of "wg_edges g" p' i j] p by (auto simp: hd_append split: if_splits)
    with snoc.IH have "flow g i (\<exists>i \<in> set p. kind_at g i = Some VerificationGate)"
      using p by simp
    from flow_step [OF this \<open>(i, j) \<in> edge_rel (wg_edges g)\<close>] show ?thesis
      by (simp add: verified_at_def disj_commute)
  qed
qed simp

lemma path_of_flow:
  assumes "flow g i v"
  shows "\<exists>p. edge_path (wg_edges g) p \<and> hd p = wg_entry g \<and> last p = i \<and>
             v = (\<exists>j \<in> set p. kind_at g j = Some VerificationGate)"
  using assms
proof (induction rule: flow.induct)
  case flow_start
  show ?case by (rule exI [of _ "[wg_entry g]"]) (simp add: verified_at_def)
next
  case (flow_step i v n)
  then obtain p where p: "edge_path (wg_edges g) p" "hd p = wg_entry g" "last p = i"
    "v = (\<exists>j \<in> set p. kind_at g j = Some VerificationGate)"
    by blast
  then obtain p' where p': "p = p' @ [i]" by (cases p rule: rev_cases) auto
  have "edge_path (wg_edges g) (p @ [n])"
    using edge_path_snoc [of "wg_edges g" p' i n] p(1) p' flow_step(2) by simp
  with p p' show ?case
    by (intro exI [of _ "p @ [n]"]) (auto simp: verified_at_def hd_append split: if_splits)
qed

section \<open>Cycles\<close>

text \<open>The edges between two stages that both lack an iteration limit.\<close>

definition free_rel :: "workflow_graph \<Rightarrow> (stage_id \<times> stage_id) set" where
  "free_rel g = {(u, v) \<in> edge_rel (wg_edges g). \<not> iteration_limited g u \<and> \<not> iteration_limited g v}"

lemma visit_active:
  "visit fuel g node s = Some (r, s') \<Longrightarrow> r = Inr () \<Longrightarrow> node \<notin> fst s \<Longrightarrow> fst s' = fst s"
  "visit_next fuel g node ns s = Some (r, s') \<Longrightarrow> r = Inr () \<Longrightarrow> fst s' = fst s"
proof (induction fuel g node s and fuel g node ns s arbitrary: r s' and r s' rule: visit_visit_next.induct)
  case (2 fuel g node active finished)
  then show ?case by (auto split: if_splits option.splits sum.splits prod.splits)
next
  case (4 fuel g node n ns active finished)
  show ?case
  proof (cases "n \<in> active")
    case True
    with 4 show ?thesis by (auto split: if_splits)
  next
    case False
    with "4.prems" obtain s1 where v: "visit fuel g n (active, finished) = Some (Inr (), s1)"
      and n: "visit_next fuel g node ns s1 = Some (Inr (), s')"
      by (auto split: option.splits sum.splits prod.splits)
    from "4.IH"(2) [OF False v] False have "fst s1 = active" by simp
    with "4.IH"(3) [OF False v _ refl n] show ?thesis by (cases s1) simp
  qed
qed auto

lemma visit_fuel:
  assumes "finite U" and "edge_rel (wg_edges g) `` U \<subseteq> U"
  shows "node \<in> U \<Longrightarrow> node \<notin> fst s \<Longrightarrow> fst s \<subseteq> U \<Longrightarrow> card (U - fst s) < fuel \<Longrightarrow> visit fuel g node s \<noteq> None"
    and "set ns \<subseteq> U \<Longrightarrow> fst s \<subseteq> U \<Longrightarrow> card (U - fst s) < fuel \<Longrightarrow> visit_next fuel g node ns s \<noteq> None"
  using assms
proof (induction fuel g node s and fuel g node ns s rule: visit_visit_next.induct)
  case (2 fuel g node active finished)
  have "card (U - insert node active) < card (U - active)"
    using 2 by (intro psubset_card_mono) auto
  then have "card (U - insert node active) < fuel" using "2.prems" by simp
  moreover have "set (successors (wg_edges g) node) \<subseteq> U"
  proof -
    have "set (successors (wg_edges g) node) \<subseteq> edge_rel (wg_edges g) `` U"
      using "2.prems"(1) by auto
    then show ?thesis using "2.prems"(6) by (rule order_trans)
  qed
  ultimately have "node \<notin> finished \<Longrightarrow>
      visit_next fuel g node (successors (wg_edges g) node) (insert node active, finished) \<noteq> None"
    using "2.IH" "2.prems" by simp
  then show ?case by (auto split: sum.splits)
next
  case (4 fuel g node n ns active finished)
  show ?case
  proof (cases "n \<in> active")
    case True
    with 4 show ?thesis by auto
  next
    case False
    with 4 obtain r s1 where v: "visit fuel g n (active, finished) = Some (r, s1)" by fastforce
    show ?thesis
    proof (cases r)
      case (Inr u)
      with v have v': "visit fuel g n (active, finished) = Some (Inr (), s1)" by simp
      then have "fst s1 = active" using visit_active(1) [OF v'] False by simp
      with "4.IH"(3) [OF False v'] "4.prems" v' False show ?thesis by (cases s1) simp
    qed (use v False in simp)
  qed
qed auto

definition dfs_inv :: "workflow_graph \<Rightarrow> stage_id set \<Rightarrow> stage_id set \<Rightarrow> bool" where
  "dfs_inv g A F \<longleftrightarrow>
     A \<inter> F = {} \<and>
     (\<forall>u v. (u, v) \<in> edge_rel (wg_edges g) \<longrightarrow> u \<in> F \<longrightarrow> v \<in> F \<union> A) \<and>
     (\<forall>u v. (u, v) \<in> free_rel g \<longrightarrow> u \<in> F \<longrightarrow> v \<in> F) \<and>
     acyclic (free_rel g \<inter> F \<times> UNIV)"

lemma acyclic_extend:
  assumes ac: "acyclic (r \<inter> F \<times> UNIV)" and closed: "\<And>u v. (u, v) \<in> r \<Longrightarrow> u \<in> F \<Longrightarrow> v \<in> F"
    and n: "n \<notin> F" and succ: "\<And>v. (n, v) \<in> r \<Longrightarrow> v \<in> F"
  shows "acyclic (r \<inter> insert n F \<times> UNIV)"
proof (rule acyclicI, intro allI notI)
  let ?r = "r \<inter> insert n F \<times> UNIV"
  have stay: "y \<in> F \<and> (x, y) \<in> (r \<inter> F \<times> UNIV)\<^sup>+" if "(x, y) \<in> ?r\<^sup>+" "x \<in> F" for x y
    using that
  proof (induction rule: trancl_induct)
    case (base y)
    then show ?case using closed by blast
  next
    case (step y z)
    then have "(y, z) \<in> r \<inter> F \<times> UNIV" "z \<in> F" using closed by blast+
    with step show ?case by (meson trancl.trancl_into_trancl)
  qed
  fix x assume c: "(x, x) \<in> ?r\<^sup>+"
  show False
  proof (cases "x \<in> F")
    case True
    with stay [OF c] ac show False by (auto simp: acyclic_def)
  next
    case False
    from c obtain y where y: "(x, y) \<in> ?r" "(y, x) \<in> ?r\<^sup>*" by (blast dest: tranclD)
    with False have "x = n" "y \<in> F" using succ by auto
    with y(2) stay False show False by (metis rtranclD)
  qed
qed

lemma visit_dfs_inv:
  "visit fuel g node s = Some (r, s') \<Longrightarrow> r = Inr () \<Longrightarrow> node \<notin> fst s \<Longrightarrow> dfs_inv g (fst s) (snd s) \<Longrightarrow>
   snd s \<subseteq> snd s' \<and> node \<in> snd s' \<and> dfs_inv g (fst s) (snd s')"
  "visit_next fuel g node ns s = Some (r, s') \<Longrightarrow> r = Inr () \<Longrightarrow> node \<in> fst s \<Longrightarrow> dfs_inv g (fst s) (snd s) \<Longrightarrow>
   snd s \<subseteq> snd s' \<and> dfs_inv g (fst s) (snd s') \<and>
   (\<forall>n \<in> set ns. n \<in> snd s' \<union> fst s \<and>
      (\<not> iteration_limited g node \<longrightarrow> \<not> iteration_limited g n \<longrightarrow> n \<in> snd s'))"
proof (induction fuel g node s and fuel g node ns s arbitrary: r s' and r s' rule: visit_visit_next.induct)
  case (2 fuel g node A F)
  show ?case
  proof (cases "node \<in> F")
    case True
    with 2 show ?thesis by auto
  next
    case False
    with "2.prems" obtain A1 F1 where
      n: "visit_next fuel g node (successors (wg_edges g) node) (insert node A, F) = Some (Inr (), A1, F1)"
      and s': "s' = (A1 - {node}, insert node F1)"
      by (auto split: option.splits sum.splits prod.splits)
    have pre: "dfs_inv g (insert node A) F"
      using "2.prems"(4) False by (auto simp: dfs_inv_def)
    from "2.IH" [OF False n refl] pre
    have sub: "F \<subseteq> F1" and inv: "dfs_inv g (insert node A) F1"
      and succ: "\<And>m. (node, m) \<in> edge_rel (wg_edges g) \<Longrightarrow> m \<in> F1 \<union> insert node A"
      and free: "\<And>m. (node, m) \<in> free_rel g \<Longrightarrow> m \<in> F1"
      by (auto simp: free_rel_def)
    have "acyclic (free_rel g \<inter> insert node F1 \<times> UNIV)"
      using inv free by (intro acyclic_extend) (auto simp: dfs_inv_def)
    then have "dfs_inv g A (insert node F1)"
      using inv succ free "2.prems"(3) unfolding dfs_inv_def by fastforce
    with sub s' show ?thesis by auto
  qed
next
  case (4 fuel g node n ns A F)
  show ?case
  proof (cases "n \<in> A")
    case True
    with "4.prems" have lim: "iteration_limited g node \<or> iteration_limited g n"
      and v: "visit_next fuel g node ns (A, F) = Some (Inr (), s')"
      by (auto split: if_splits)
    from "4.IH"(1) [OF True lim v refl] "4.prems" lim True show ?thesis by auto
  next
    case False
    with "4.prems" obtain s1 where v: "visit fuel g n (A, F) = Some (Inr (), s1)"
      and w: "visit_next fuel g node ns s1 = Some (Inr (), s')"
      by (auto split: option.splits sum.splits prod.splits)
    from "4.IH"(2) [OF False v refl] False "4.prems"
    have 1: "F \<subseteq> snd s1" "n \<in> snd s1" "dfs_inv g A (snd s1)" by simp_all
    have a: "fst s1 = A" using visit_active(1) [OF v refl] False by simp
    from "4.IH"(3) [OF False v _ refl w] 1 a "4.prems" show ?thesis by (cases s1) auto
  qed
qed auto

lemma validate_cycles_total: "\<exists>r. validate_cycles g = Some r"
proof -
  let ?U = "insert (wg_entry g) (tr_to ` set (wg_edges g))"
  have "card ?U \<le> Suc (card (tr_to ` set (wg_edges g)))"
    by (rule card_insert_le_m1) simp_all
  also have "\<dots> \<le> Suc (length (wg_edges g))"
    by (meson Suc_le_mono card_image_le card_length finite_set le_trans)
  finally have "card (?U - fst ({} :: stage_id set, {} :: stage_id set)) < length (wg_edges g) + 2" by simp
  then have "visit (length (wg_edges g) + 2) g (wg_entry g) ({}, {}) \<noteq> None"
    by (intro visit_fuel(1) [of ?U]) (auto simp: edge_rel_def)
  then show ?thesis by (auto simp: validate_cycles_def)
qed

lemma validate_cycles_ok:
  assumes "validate_cycles g = Some (Inr ())"
  shows "acyclic (free_rel g \<inter> (edge_rel (wg_edges g))\<^sup>* `` {wg_entry g} \<times> UNIV)"
proof -
  from assms obtain s' where v: "visit (length (wg_edges g) + 2) g (wg_entry g) ({}, {}) = Some (Inr (), s')"
    by (auto simp: validate_cycles_def)
  have "wg_entry g \<in> snd s'" and inv: "dfs_inv g {} (snd s')"
    using visit_dfs_inv(1) [OF v refl] by (auto simp: dfs_inv_def acyclic_def)
  have "edge_rel (wg_edges g) `` snd s' \<subseteq> snd s'" using inv by (auto simp: dfs_inv_def)
  then have "(edge_rel (wg_edges g))\<^sup>* `` snd s' = snd s'" by (rule Image_closed_trancl)
  with \<open>wg_entry g \<in> snd s'\<close> have "(edge_rel (wg_edges g))\<^sup>* `` {wg_entry g} \<subseteq> snd s'" by blast
  with inv show ?thesis
    by (auto simp: dfs_inv_def intro: acyclic_subset)
qed

section \<open>What a validated graph guarantees\<close>

lemma validate_graph_ok:
  assumes "validate_graph roles tools g = Some (Inr ())"
  shows "bt_get (wg_stages g) (wg_entry g) \<noteq> None"
    and "\<forall>x \<in> set (wg_stages g). validate_stage roles tools x = Inr ()"
    and "validate_edges g {} (wg_edges g) = Inr ()"
    and "validate_reachability g = Inr ()"
    and "validate_cycles g = Some (Inr ())"
    and "validate_success_requires_verification g = Inr ()"
  using assms by (auto simp: validate_graph_def Let_def split: sum.splits option.splits)

lemma validate_edges_ok:
  "validate_edges g P es = Inr () \<Longrightarrow> e \<in> set es \<Longrightarrow>
   bt_get (wg_stages g) (tr_from e) \<noteq> None \<and> bt_get (wg_stages g) (tr_to e) \<noteq> None \<and>
   (tr_condition e = HumanApproved \<longrightarrow> kind_at g (tr_from e) = Some HumanApprovalGate) \<and>
   (tr_condition e = BudgetRemaining \<longrightarrow> kind_at g (tr_from e) \<noteq> Some ParallelFanOut)"
  by (induction g P es rule: validate_edges.induct) auto

lemma validate_edges_stages:
  assumes "validate_edges g {} (wg_edges g) = Inr ()" and "(i, j) \<in> edge_rel (wg_edges g)"
  shows "j \<in> set (bt_keys (wg_stages g))"
proof -
  from assms(2) obtain e where "e \<in> set (wg_edges g)" "j = tr_to e" by (auto simp: edge_rel_def)
  with validate_edges_ok [OF assms(1)] show ?thesis by (force dest: map_of_SomeD)
qed

lemma valid_reachable:
  assumes ok: "validate_graph roles tools g = Some (Inr ())" and wf: "bt_wf (wg_stages g)"
  shows "(edge_rel (wg_edges g))\<^sup>* `` {wg_entry g} = set (bt_keys (wg_stages g))"
proof (rule card_subset_eq)
  note v = validate_graph_ok [OF ok]
  let ?R = "(edge_rel (wg_edges g))\<^sup>* `` {wg_entry g}"
  show "?R \<subseteq> set (bt_keys (wg_stages g))"
  proof
    fix j assume "j \<in> ?R"
    then have "(wg_entry g, j) \<in> (edge_rel (wg_edges g))\<^sup>*" by simp
    then show "j \<in> set (bt_keys (wg_stages g))"
    proof (cases rule: rtrancl.cases)
      case rtrancl_refl
      then show ?thesis using v(1) by (force dest: map_of_SomeD)
    next
      case (rtrancl_into_rtrancl k)
      then show ?thesis using validate_edges_stages [OF v(3)] by blast
    qed
  qed
  have "card ?R = length (wg_stages g)"
    using v(4) by (simp add: validate_reachability_def Let_def reach_loop_entry del: reach_loop.simps)
  also have "\<dots> = card (set (bt_keys (wg_stages g)))"
    using wf distinct_card [of "bt_keys (wg_stages g)"] by (simp add: bt_wf_def strict_sorted_iff)
  finally show "card ?R = card (set (bt_keys (wg_stages g)))" .
qed simp

lemma trusted_gate:
  assumes "validate_graph roles tools g = Some (Inr ())" and "kind_at g i = Some VerificationGate"
  shows "\<exists>st. bt_get (wg_stages g) i = Some st \<and> sd_kind st = VerificationGate \<and> sd_trusted st"
proof -
  from assms(2) obtain st where st: "bt_get (wg_stages g) i = Some st" "sd_kind st = VerificationGate"
    by (auto simp: kind_at_def)
  then have "validate_stage roles tools (i, st) = Inr ()"
    using validate_graph_ok(2) [OF assms(1)] by (blast dest: map_of_SomeD)
  with st show ?thesis by (auto simp: validate_stage_def)
qed

text \<open>C7. Validation of a workflow graph always returns: the two breadth-first searches are total and the
  recursion of the cycle search never goes deeper than the number of edges plus two.\<close>

theorem validate_graph_total: "\<exists>r. validate_graph roles tools g = Some r"
  using validate_cycles_total [of g]
  by (auto simp: validate_graph_def Let_def split: sum.splits)

lemma success_path_gate:
  assumes "validate_graph roles tools g = Some (Inr ())" and "edge_path (wg_edges g) p" and "hd p = wg_entry g"
    and "kind_at g (last p) = Some TerminalSuccess"
  shows "\<exists>i \<in> set p. \<exists>st. bt_get (wg_stages g) i = Some st \<and> sd_kind st = VerificationGate \<and> sd_trusted st"
proof -
  have "flow g (last p) (\<exists>i \<in> set p. kind_at g i = Some VerificationGate)"
    using assms(2,3) by (intro flow_path) auto
  with assms(4) have "\<exists>i \<in> set p. kind_at g i = Some VerificationGate"
    using validate_graph_ok(6) [OF assms(1)] bypass_exact by blast
  with trusted_gate [OF assms(1)] show ?thesis by blast
qed

text \<open>C8. Verification cannot be bypassed: in a graph that validates, every path of edges from the entry to a
  success stage passes through a verification gate that is marked trusted.\<close>

theorem success_paths_are_verified:
  assumes "validate_graph roles tools g = Some (Inr ())"
  shows "\<forall>p. edge_path (wg_edges g) p \<and> hd p = wg_entry g \<and> kind_at g (last p) = Some TerminalSuccess \<longrightarrow>
      (\<exists>i \<in> set p. \<exists>st. bt_get (wg_stages g) i = Some st \<and> sd_kind st = VerificationGate \<and> sd_trusted st)"
  using success_path_gate [OF assms] by blast

lemma default_coding_valid:
  "validate_graph {''requirement_normalizer'', ''repository_explorer'', ''diagnostician'', ''planner'',
       ''implementer'', ''reviewer''} {''cargo_check'', ''cargo_test''} default_coding = Some (Inr ())"
  by code_simp

theorem success_paths_are_verified_witness:
  "edge_path (wg_edges default_coding) (map fst default_ordered) \<and>
   (\<exists>i \<in> set (map fst default_ordered). \<exists>st.
      bt_get (wg_stages default_coding) i = Some st \<and> sd_kind st = VerificationGate \<and> sd_trusted st)"
proof -
  have path: "edge_path (wg_edges default_coding) (map fst default_ordered)" by code_simp
  have "hd (map fst default_ordered) = wg_entry default_coding" by code_simp
  moreover have "kind_at default_coding (last (map fst default_ordered)) = Some TerminalSuccess" by code_simp
  ultimately show ?thesis using success_paths_are_verified [OF default_coding_valid] path by blast
qed

lemma flow_iff_path:
  "flow g i v \<longleftrightarrow>
   (\<exists>p. edge_path (wg_edges g) p \<and> hd p = wg_entry g \<and> last p = i \<and>
        v = (\<exists>j \<in> set p. kind_at g j = Some VerificationGate))"
  using flow_path path_of_flow by blast

text \<open>C9. The bypass check is exact: it rejects a graph if and only if some path of edges leads from the entry
  to a success stage without passing a verification gate.\<close>

theorem bypass_check_exact:
  "is_ok (validate_success_requires_verification g) \<longleftrightarrow>
   \<not> (\<exists>p. edge_path (wg_edges g) p \<and> hd p = wg_entry g \<and> kind_at g (last p) = Some TerminalSuccess \<and>
          (\<forall>i \<in> set p. kind_at g i \<noteq> Some VerificationGate))"
  (is "?ok \<longleftrightarrow> \<not> ?bad")
proof -
  have "?ok \<longleftrightarrow> validate_success_requires_verification g = Inr ()"
    by (cases "validate_success_requires_verification g") simp_all
  also have "\<dots> \<longleftrightarrow> \<not> ?bad"
    unfolding bypass_exact flow_iff_path by auto
  finally show ?thesis .
qed

theorem bypass_check_exact_witness:
  "\<not> is_ok (validate_success_requires_verification
        (default_coding\<lparr>wg_entry := ''complete''\<rparr>))"
proof -
  let ?g = "default_coding\<lparr>wg_entry := ''complete''\<rparr>"
  have "edge_path (wg_edges ?g) [''complete'']" "hd [''complete''] = wg_entry ?g"
    "kind_at ?g (last [''complete'']) = Some TerminalSuccess"
    "\<forall>i \<in> set [''complete'']. kind_at ?g i \<noteq> Some VerificationGate"
    by code_simp+
  then show ?thesis using bypass_check_exact [of ?g] by blast
qed

text \<open>A validated graph, whose stages form a well-formed map, has no dead stage and no unlimited loop: the stages reachable from the entry are
  exactly the stages of the graph, and every cycle of edges contains a stage with an iteration limit
  (the edges between stages without one are acyclic).\<close>

theorem valid_graph_connected_and_limited:
  assumes "validate_graph roles tools g = Some (Inr ())" and "bt_wf (wg_stages g)"
  shows "(edge_rel (wg_edges g))\<^sup>* `` {wg_entry g} = set (bt_keys (wg_stages g)) \<and>
         acyclic {(u, v) \<in> edge_rel (wg_edges g). \<not> iteration_limited g u \<and> \<not> iteration_limited g v}"
proof -
  note reach = valid_reachable [OF assms]
  have from_stage: "u \<in> set (bt_keys (wg_stages g))" if "(u, v) \<in> edge_rel (wg_edges g)" for u v
  proof -
    from that obtain e where "e \<in> set (wg_edges g)" "u = tr_from e" by (auto simp: edge_rel_def)
    with validate_edges_ok [OF validate_graph_ok(3) [OF assms(1)]] show ?thesis
      by (force dest: map_of_SomeD)
  qed
  have "acyclic (free_rel g \<inter> set (bt_keys (wg_stages g)) \<times> UNIV)"
    using validate_cycles_ok [OF validate_graph_ok(5) [OF assms(1)]] unfolding reach .
  moreover have "free_rel g \<subseteq> free_rel g \<inter> set (bt_keys (wg_stages g)) \<times> UNIV"
    using from_stage by (auto simp: free_rel_def)
  ultimately have "acyclic (free_rel g)" by (rule acyclic_subset)
  with reach show ?thesis by (simp add: free_rel_def)
qed

theorem valid_graph_connected_and_limited_witness:
  "''verify'' \<in> (edge_rel (wg_edges default_coding))\<^sup>* `` {wg_entry default_coding} \<and>
   acyclic {(u, v) \<in> edge_rel (wg_edges default_coding).
              \<not> iteration_limited default_coding u \<and> \<not> iteration_limited default_coding v}"
proof -
  have wf: "bt_wf (wg_stages default_coding)" by code_simp
  have "''verify'' \<in> set (bt_keys (wg_stages default_coding))" by code_simp
  then show ?thesis
    using valid_graph_connected_and_limited [OF default_coding_valid wf] by blast
qed

text \<open>A cycle whose only limited stage is not at the edge that closes it is refused all the same.\<close>

definition limited_cycle :: workflow_graph where
  "limited_cycle =
     (let stage = (\<lambda>k lim t. \<lparr>sd_kind = k, sd_model_role = None, sd_tool = None,
                     sd_iteration_limit = lim, sd_trusted = t\<rparr>);
          edge = (\<lambda>a b c p. \<lparr>tr_from = a, tr_to = b, tr_condition = c, tr_priority = p\<rparr>)
      in \<lparr>wg_entry = ''a'',
          wg_stages = [(''a'', stage DeterministicTransform None False),
                       (''b'', stage DeterministicTransform (Some 3) False),
                       (''c'', stage VerificationGate None True),
                       (''d'', stage TerminalSuccess None False)],
          wg_edges = [edge ''a'' ''b'' Always 0, edge ''b'' ''c'' Always 0,
                      edge ''c'' ''a'' StageFailed 0, edge ''c'' ''d'' StagePassed 1],
          wg_limits = \<lparr>maximum_transitions = 100, maximum_parallelism = 1, maximum_concurrency = None\<rparr>\<rparr>)"

text \<open>The cycle check is stricter than its message says: a graph whose only cycle contains a stage with an
  explicit iteration limit is still rejected as a cycle without one when the limited stage is not an
  endpoint of the edge that closes the cycle in search order.\<close>

theorem cycle_check_conservative:
  "validate_graph {} {} limited_cycle = Some (Inl UnlimitedCycle) \<and>
   iteration_limited limited_cycle ''b'' \<and>
   validate_graph {} {} (limited_cycle\<lparr>wg_entry := ''b''\<rparr>) = Some (Inr ())"
  by code_simp

end
