(* ===== verification/Executor_Correct.thy ===== *)
theory Executor_Correct
  imports Workflow_Executor Workflow_Validation
begin

text \<open>
  Correctness of the workflow executor of \<open>crates/hi-agent-runtime/src/lib.rs\<close>: what every run keeps
  (the ledger moves only by ledger operations, the history only grows, rejected rounds leave no
  trace), that runs end, and what a successful run has proved.
\<close>

section \<open>The ledger moves only by ledger operations\<close>

definition evolves :: "shared_ledger \<Rightarrow> shared_ledger \<Rightarrow> bool" where
  "evolves sl sl' \<longleftrightarrow> (\<exists>ops. sl' = ledger_run ops sl)"

lemma evolves_refl [simp, intro]: "evolves sl sl"
  unfolding evolves_def by (rule exI [of _ "[]"]) (simp add: ledger_run_def)

lemma evolves_run [simp, intro]: "evolves sl (ledger_run ops sl)"
  by (auto simp: evolves_def)

lemma evolves_trans [trans]: "evolves a b \<Longrightarrow> evolves b c \<Longrightarrow> evolves a c"
  unfolding evolves_def
proof (elim exE)
  fix o1 o2 assume "b = ledger_run o1 a" "c = ledger_run o2 b"
  then have "c = ledger_run (o1 @ o2) a" by (simp add: ledger_run_def)
  then show "\<exists>ops. c = ledger_run ops a" by blast
qed

lemma evolves_step: "evolves sl (ledger_step op sl)"
  unfolding evolves_def by (rule exI [of _ "[op]"]) (simp add: ledger_run_def)

lemma evolves_ops [intro]:
  "shared_reserve k a sl = (r1, sl') \<Longrightarrow> evolves sl sl'"
  "shared_commit r a sl = (r2, sl') \<Longrightarrow> evolves sl sl'"
  "shared_release r sl = (r2, sl') \<Longrightarrow> evolves sl sl'"
  "shared_consume k a sl = (r2, sl') \<Longrightarrow> evolves sl sl'"
  "shared_merge_floor u sl = (r3, sl') \<Longrightarrow> evolves sl sl'"
  using evolves_step [of sl "OpReserve k a"] evolves_step [of sl "OpCommit r a"]
    evolves_step [of sl "OpRelease r"] evolves_step [of sl "OpConsume k a"] evolves_step [of sl "OpMergeFloor u"]
  by auto

lemma evolves_drop: "evolves sl (stage_reservation_drop res sl)"
  using evolves_step [of sl "OpRelease (the res)"]
  by (auto simp: stage_reservation_drop_def split: option.splits)

lemma evolves_fold: "(\<And>x sl. evolves sl (f x sl)) \<Longrightarrow> evolves sl (fold f xs sl)"
  by (induction xs arbitrary: sl) (auto intro: evolves_trans)

lemma evolves_drop_all: "evolves sl (drop_all rs sl)"
  unfolding drop_all_def by (intro evolves_fold evolves_drop)

lemma evolves_slot_drop: "evolves sl (slot_drop s sl)"
  by (auto simp: slot_drop_def evolves_drop split: slot.splits)

lemma evolves_new: "stage_reservation_new k sl = (r, sl') \<Longrightarrow> evolves sl sl'"
  by (auto simp: stage_reservation_new_def split: option.splits prod.splits sum.splits)

lemma evolves_commit: "stage_reservation_commit res sl = (r, res', sl') \<Longrightarrow> evolves sl sl'"
  by (auto simp: stage_reservation_commit_def split: option.splits prod.splits sum.splits)

lemma evolves_reserve_wave: "reserve_wave ks sl = (r, rs, sl') \<Longrightarrow> evolves sl sl'"
  by (induction ks arbitrary: sl r rs sl')
    (auto split: prod.splits sum.splits intro: evolves_new evolves_trans)

lemma evolves_reserve_frontier: "reserve_frontier ws sl = (r, rs, sl') \<Longrightarrow> evolves sl sl'"
  by (induction ws arbitrary: sl r rs sl')
    (auto split: prod.splits sum.splits intro: evolves_reserve_wave evolves_trans)

lemma evolves_poll_driver: "poll_driver d snap i def a n wd = (r, wd') \<Longrightarrow> evolves (wd_ledger wd) (wd_ledger wd')"
  by (auto simp: poll_driver_def Let_def split: prod.splits option.splits sum.splits)

lemma evolves_poll_slot:
  assumes "poll_slot d snap s wd = (r, wd')"
  shows "evolves (wd_ledger wd) (wd_ledger wd')"
proof (cases s)
  case (Unpolled i def a res)
  obtain x res' sl where c: "stage_reservation_commit res (wd_ledger wd) = (x, res', sl)"
    by (cases "stage_reservation_commit res (wd_ledger wd)")
  then have "evolves (wd_ledger wd) sl" by (rule evolves_commit)
  moreover have "evolves sl (wd_ledger wd')"
    using assms Unpolled c evolves_poll_driver [of d snap i def a 0 "wd\<lparr>wd_ledger := sl\<rparr>"]
    by (cases x) (auto simp: poll_slot_def evolves_drop)
  ultimately show ?thesis by (rule evolves_trans)
qed (use assms evolves_poll_driver in \<open>auto simp: poll_slot_def\<close>)

lemma evolves_poll_round:
  "poll_round d snap ss wd = (r, wd') \<Longrightarrow> evolves (wd_ledger wd) (wd_ledger wd')"
proof (induction ss arbitrary: wd r wd')
  case (Cons s ss)
  obtain x wd1 where p: "poll_slot d snap s wd = (x, wd1)" by fastforce
  note e1 = evolves_poll_slot [OF p]
  show ?case
  proof (cases x)
    case (Inl e)
    with Cons.prems p have "wd_ledger wd' = fold slot_drop ss (wd_ledger wd1)" by auto
    then show ?thesis using e1 evolves_fold [of slot_drop, OF evolves_slot_drop] evolves_trans by metis
  next
    case (Inr s')
    then obtain y where "poll_round d snap ss wd1 = (y, wd')"
      using Cons.prems p by (auto split: prod.splits sum.splits)
    with Cons.IH e1 show ?thesis by (blast intro: evolves_trans)
  qed
qed simp

lemma evolves_try_join_all:
  "try_join_all polls d snap ss wd = Some (r, wd') \<Longrightarrow> evolves (wd_ledger wd) (wd_ledger wd')"
proof (induction polls arbitrary: ss wd)
  case (Suc polls)
  obtain x wd1 where p: "poll_round d snap ss wd = (x, wd1)" by fastforce
  note e1 = evolves_poll_round [OF p]
  show ?case
    using Suc p e1 by (auto split: sum.splits option.splits intro: evolves_trans)
qed simp

section \<open>Rounds that do not commit leave the history alone\<close>

definition budget_only :: "run_state \<Rightarrow> run_state \<Rightarrow> bool" where
  "budget_only st st' \<longleftrightarrow> (\<exists>b. st' = st\<lparr>rs_budget := b\<rparr>)"

lemma budget_only_refl [simp, intro]: "budget_only st st"
  unfolding budget_only_def by (rule exI [of _ "rs_budget st"]) simp

lemma budget_only_update [simp, intro]: "budget_only st (st\<lparr>rs_budget := b\<rparr>)"
  by (auto simp: budget_only_def)

lemma budget_only_trans: "budget_only a b \<Longrightarrow> budget_only b c \<Longrightarrow> budget_only a c"
  by (auto simp: budget_only_def)

lemma budget_only_sync [simp, intro]: "budget_only st (budget_state_sync sl st)"
  by (auto simp: budget_state_sync_def split: sum.splits)

lemma budget_only_set_usage: "set_usage err sl st = (e, st') \<Longrightarrow> budget_only st st'"
  by (auto simp: set_usage_def split: sum.splits)

lemma run_waves_effect:
  "run_waves polls d snap ws st wd = Some (r, st', wd') \<Longrightarrow>
   budget_only st st' \<and> evolves (wd_ledger wd) (wd_ledger wd')"
proof (induction ws arbitrary: st wd r)
  case (Cons w ws)
  obtain jobs res where w: "w = (jobs, res)" by fastforce
  let ?later = "concat (map snd ws)"
  show ?case
  proof (cases "ledger_usage (wd_ledger wd)")
    case (Inl e)
    with Cons.prems w show ?thesis by (auto simp: Let_def evolves_drop_all)
  next
    case (Inr u)
    let ?st1 = "st\<lparr>rs_budget := u\<lparr>reserved := []\<rparr>\<rparr>"
    from Cons.prems w Inr obtain x wd1 where
      j: "try_join_all polls d snap (map2 start_slot jobs res) wd = Some (x, wd1)"
      by (auto simp: Let_def split: option.splits)
    note e1 = evolves_try_join_all [OF j]
    let ?st2 = "budget_state_sync (wd_ledger wd1) ?st1"
    have b2: "budget_only st ?st2" by (blast intro: budget_only_trans)
    show ?thesis
    proof (cases x)
      case x: (Inl e)
      obtain e' st3 where su: "set_usage e (drop_all ?later (wd_ledger wd1)) ?st2 = (e', st3)" by fastforce
      then have "st' = st3" "wd_ledger wd' = drop_all ?later (wd_ledger wd1)"
        using Cons.prems w Inr j x by (auto simp: Let_def)
      then show ?thesis
        using budget_only_set_usage [OF su] b2 e1 evolves_drop_all
        by (auto intro: budget_only_trans evolves_trans)
    next
      case x: (Inr outs)
      show ?thesis
      proof (cases "ledger_usage (wd_ledger wd1)")
        case u': (Inl e)
        then have "st' = ?st2" "wd_ledger wd' = drop_all ?later (wd_ledger wd1)"
          using Cons.prems w Inr j x by (auto simp: Let_def)
        then show ?thesis using b2 e1 evolves_drop_all by (auto intro: evolves_trans)
      next
        case u': (Inr u')
        then obtain y where "run_waves polls d snap ws (?st2\<lparr>rs_budget := u'\<rparr>) wd1 = Some (y, st', wd')"
          using Cons.prems w Inr j x by (auto simp: Let_def split: option.splits sum.splits prod.splits)
        from Cons.IH [OF this] b2 e1 show ?thesis
          by (blast intro: budget_only_trans evolves_trans)
      qed
    qed
  qed
qed simp

lemma apply_one_effect:
  assumes "apply_one g x acc st sl = (r, st', sl')"
  shows "budget_only st st' \<and> evolves sl sl'"
  using assms
  by (auto simp: apply_one_def dest: budget_only_set_usage
      split: prod.splits sum.splits)

lemma apply_all_effect:
  "apply_all g xs acc st sl = (r, st', sl') \<Longrightarrow> budget_only st st' \<and> evolves sl sl'"
proof (induction xs arbitrary: acc st sl)
  case (Cons x xs)
  obtain y st1 sl1 where o: "apply_one g x acc st sl = (y, st1, sl1)" by (cases "apply_one g x acc st sl")
  note e1 = apply_one_effect [OF o]
  show ?case
  proof (cases y)
    case (Inl e)
    with Cons.prems o e1 show ?thesis by auto
  next
    case (Inr acc')
    with Cons.prems o have "apply_all g xs acc' st1 sl1 = (r, st', sl')" by simp
    from Cons.IH [OF this] e1 show ?thesis by (blast intro: budget_only_trans evolves_trans)
  qed
qed simp

text \<open>What a halted round may have changed of the caller's state: the budget, and the stages listed as current.\<close>

definition undisturbed :: "run_state \<Rightarrow> run_state \<Rightarrow> bool" where
  "undisturbed st st' \<longleftrightarrow> (\<exists>b cs. st' = st\<lparr>rs_current_stages := cs, rs_budget := b\<rparr>)"

lemma undisturbed_refl [simp, intro]: "undisturbed st st"
  unfolding undisturbed_def by (rule exI [of _ "rs_budget st"], rule exI [of _ "rs_current_stages st"]) simp

lemma undisturbed_budget: "budget_only (st\<lparr>rs_current_stages := cs\<rparr>) st' \<Longrightarrow> undisturbed st st'"
  by (auto simp: undisturbed_def budget_only_def)

lemma undisturbed_current [simp, intro]: "undisturbed st (st\<lparr>rs_current_stages := cs\<rparr>)"
  using undisturbed_budget [OF budget_only_refl] .

lemma seal_round_halt:
  assumes "seal_round d ap tc seq st wd = Halt (r, st', wd')"
  shows "budget_only st st' \<and> evolves (wd_ledger wd) (wd_ledger wd') \<and> (\<exists>e. r = Inl e)"
  using assms
  by (auto simp: seal_round_def Let_def split: sum.splits option.splits prod.splits
      dest!: budget_only_set_usage intro: budget_only_trans [OF budget_only_sync])

lemma seal_round_continue:
  assumes "seal_round d ap tc seq st wd = Continue x"
  shows "\<exists>u. ex_state x = (ap_next ap)\<lparr>rs_budget := u\<rparr>" and "ex_frontier x = ap_frontier ap"
    and "ex_transitions x = tc" and "unat (ex_sequence x) = unat seq + 1"
    and "evolves (wd_ledger wd) (wd_ledger (ex_world x))"
  using assms
  by (auto simp: seal_round_def Let_def checked_add_Some split: sum.splits option.splits prod.splits)

section \<open>Every stage of a batch has its outcome\<close>

lemma poll_round_length: "poll_round d snap ss wd = (Inr ss', wd') \<Longrightarrow> length ss' = length ss"
  by (induction ss arbitrary: wd ss') (auto split: prod.splits sum.splits)

lemma outcomes_of_length: "outcomes_of ss = Some outs \<Longrightarrow> length outs = length ss"
  by (induction ss arbitrary: outs rule: outcomes_of.induct) auto

lemma try_join_all_length: "try_join_all polls d snap ss wd = Some (Inr outs, wd') \<Longrightarrow> length outs = length ss"
  by (induction polls arbitrary: ss wd)
    (auto dest!: poll_round_length outcomes_of_length split: prod.splits sum.splits option.splits)

lemma run_waves_length:
  "run_waves polls d snap ws st wd = Some (Inr outs, st', wd') \<Longrightarrow>
   list_all (\<lambda>(jobs, res). length jobs = length res) ws \<Longrightarrow> length outs = length (concat (map fst ws))"
proof (induction ws arbitrary: st wd outs)
  case (Cons w ws)
  obtain jobs res where w: "w = (jobs, res)" by fastforce
  with Cons.prems(1) obtain o1 wd1 o2 st2 where
    "try_join_all polls d snap (map2 start_slot jobs res) wd = Some (Inr o1, wd1)"
    "run_waves polls d snap ws st2 wd1 = Some (Inr o2, st', wd')" "outs = o1 @ o2"
    by (auto simp: Let_def split: sum.splits option.splits prod.splits)
  with Cons.IH Cons.prems(2) w show ?case by (auto dest!: try_join_all_length)
qed simp

lemma reserve_wave_length: "reserve_wave ks sl = (Inr (), rs, sl') \<Longrightarrow> length rs = length ks"
  by (induction ks arbitrary: sl rs) (auto split: prod.splits sum.splits)

lemma reserve_frontier_length:
  "reserve_frontier ws sl = (Inr (), rss, sl') \<Longrightarrow> list_all2 (\<lambda>w rs. length w = length rs) ws rss"
  by (induction ws arbitrary: sl rss) (auto dest!: reserve_wave_length split: prod.splits sum.splits)

lemma concat_chunks: "0 < n \<Longrightarrow> concat (chunks n xs) = xs"
  by (induction n xs rule: chunks.induct) (subst chunks.simps, auto)

lemma effective_concurrency_pos: "0 < unat (effective_concurrency l)"
proof -
  have "1 \<le> effective_concurrency l" by (simp add: effective_concurrency_def)
  then show ?thesis by (simp add: word_le_nat_alt)
qed

lemma count_attempts_length: "count_attempts g b tc m = Inr (tc', m', as) \<Longrightarrow> length as = length b"
  by (induction g b tc m arbitrary: tc' m' "as" rule: count_attempts.induct) (auto split: option.splits)

lemma batch_outcomes_length:
  assumes c: "count_attempts g batch tc m = Inr (tc', staged, attempts)"
    and r: "reserve_frontier (map (map kind) (chunks (unat (effective_concurrency l)) (zip batch attempts))) sl = (Inr (), rss, sl')"
    and w: "run_waves polls d snap (zip (chunks (unat (effective_concurrency l)) (zip batch attempts)) rss) st wd = Some (Inr outs, st', wd')"
  shows "length outs = length batch"
proof -
  let ?ws = "chunks (unat (effective_concurrency l)) (zip batch attempts)"
  have l2: "list_all2 (\<lambda>w rs. length w = length rs) ?ws rss"
    using reserve_frontier_length [OF r] by (simp add: list_all2_map1)
  then have len: "length ?ws = length rss" and "list_all (\<lambda>(jobs, res). length jobs = length res) (zip ?ws rss)"
    by (auto simp: list_all2_conv_all_nth list_all_iff set_zip)
  from run_waves_length [OF w this(2)] have "length outs = length (concat ?ws)" using len by simp
  also have "\<dots> = length batch"
    using count_attempts_length [OF c] by (simp add: concat_chunks effective_concurrency_pos del: length_concat)
  finally show ?thesis .
qed

section \<open>One batch\<close>

lemma run_batch_halt:
  assumes "run_batch polls g d batch x = Some (Halt (r, st', wd'))"
  shows "undisturbed (ex_state x) st' \<and> evolves (wd_ledger (ex_world x)) (wd_ledger wd') \<and> (\<exists>e. r = Inl e)"
proof (cases "count_attempts g batch (ex_transitions x) (rs_attempts (ex_state x))")
  case (Inl e)
  with assms show ?thesis by (auto simp: run_batch_def)
next
  case (Inr c)
  then obtain tc staged attempts
    where c: "count_attempts g batch (ex_transitions x) (rs_attempts (ex_state x)) = Inr (tc, staged, attempts)"
    by (cases c) auto
  let ?waves = "chunks (unat (effective_concurrency (wg_limits g))) (zip batch attempts)"
  let ?kinds = "map (map (\<lambda>j. call_budget (sd_kind (snd (fst j))))) ?waves"
  let ?st = "(ex_state x)\<lparr>rs_current_stages := ex_frontier x\<rparr>"
  obtain y rss sl where r: "reserve_frontier ?kinds (wd_ledger (ex_world x)) = (y, rss, sl)"
    by (cases "reserve_frontier ?kinds (wd_ledger (ex_world x))")
  note e1 = evolves_reserve_frontier [OF r]
  show ?thesis
  proof (cases y)
    case y: (Inl e)
    have "st' = ex_state x" "wd_ledger wd' = drop_all (concat rss) sl" "\<exists>e. r = Inl e"
      using assms c r y by (auto simp: run_batch_def Let_def)
    then show ?thesis using evolves_trans [OF e1 evolves_drop_all] by simp
  next
    case y: (Inr u)
    from assms c r y obtain z st1 wd1
      where w: "run_waves polls d ?st (zip ?waves rss) ?st ((ex_world x)\<lparr>wd_ledger := sl\<rparr>) = Some (z, st1, wd1)"
      by (auto simp: run_batch_def Let_def split: option.splits)
    note e2 = run_waves_effect [OF w]
    show ?thesis
    proof (cases z)
      case z: (Inl e)
      then have "st' = st1" "wd' = wd1" "\<exists>e. r = Inl e"
        using assms c r y w by (auto simp: run_batch_def Let_def)
      then show ?thesis using e1 e2 by (auto intro: evolves_trans undisturbed_budget)
    next
      case z: (Inr outs)
      let ?ap0 = "\<lparr>ap_next = st1\<lparr>rs_attempts := staged\<rparr>, ap_frontier = [], ap_checkpoint = None, ap_patches = []\<rparr>"
      obtain v st2 sl2 where a: "apply_all g (zip batch outs) ?ap0 st1 (wd_ledger wd1) = (v, st2, sl2)"
        by (cases "apply_all g (zip batch outs) ?ap0 st1 (wd_ledger wd1)")
      note e3 = apply_all_effect [OF a]
      have "(v = Inl (projl v) \<and> st' = st2 \<and> wd' = wd1\<lparr>wd_ledger := sl2\<rparr> \<and> (\<exists>e. r = Inl e)) \<or>
        (\<exists>ap. seal_round d ap tc (ex_sequence x) st2 (wd1\<lparr>wd_ledger := sl2\<rparr>) = Halt (r, st', wd'))"
        using assms c r y w z a by (cases v) (auto simp: run_batch_def Let_def)
      then have "budget_only st2 st' \<and> evolves sl2 (wd_ledger wd') \<and> (\<exists>e. r = Inl e)"
        by (auto dest: seal_round_halt)
      moreover from this e1 e2 e3 have "evolves (wd_ledger (ex_world x)) (wd_ledger wd')"
        by simp (meson evolves_trans)
      ultimately have "budget_only st2 st'" "evolves (wd_ledger (ex_world x)) (wd_ledger wd')" "\<exists>e. r = Inl e"
        by simp_all
      moreover from this(1) have "undisturbed (ex_state x) st'"
        using e2 e3 by (intro undisturbed_budget) (blast intro: budget_only_trans)
      ultimately show ?thesis by simp
    qed
  qed
qed

text \<open>A round that goes on: everything that had to succeed on the way.\<close>

lemma run_batch_continue:
  assumes "run_batch polls g d batch x = Some (Continue x')"
  obtains tc staged attempts outs st1 sl1 ap st2 sl2 u
  where "count_attempts g batch (ex_transitions x) (rs_attempts (ex_state x)) = Inr (tc, staged, attempts)"
    and "length outs = length batch"
    and "budget_only ((ex_state x)\<lparr>rs_current_stages := ex_frontier x\<rparr>) st1"
    and "apply_all g (zip batch outs)
           \<lparr>ap_next = st1\<lparr>rs_attempts := staged\<rparr>, ap_frontier = [], ap_checkpoint = None, ap_patches = []\<rparr>
           st1 sl1 = (Inr ap, st2, sl2)"
    and "ex_state x' = (ap_next ap)\<lparr>rs_budget := u\<rparr>" and "ex_frontier x' = ap_frontier ap"
    and "ex_transitions x' = tc" and "unat (ex_sequence x') = unat (ex_sequence x) + 1"
    and "evolves (wd_ledger (ex_world x)) (wd_ledger (ex_world x'))"
proof -
  from assms obtain tc staged attempts
    where c: "count_attempts g batch (ex_transitions x) (rs_attempts (ex_state x)) = Inr (tc, staged, attempts)"
    by (cases "count_attempts g batch (ex_transitions x) (rs_attempts (ex_state x))")
      (auto simp: run_batch_def)
  let ?waves = "chunks (unat (effective_concurrency (wg_limits g))) (zip batch attempts)"
  let ?kinds = "map (map (\<lambda>j. call_budget (sd_kind (snd (fst j))))) ?waves"
  let ?st = "(ex_state x)\<lparr>rs_current_stages := ex_frontier x\<rparr>"
  obtain y rss sl where r: "reserve_frontier ?kinds (wd_ledger (ex_world x)) = (y, rss, sl)"
    by (cases "reserve_frontier ?kinds (wd_ledger (ex_world x))")
  then have y: "y = Inr ()" using assms c by (cases y) (auto simp: run_batch_def Let_def)
  from assms c r y obtain outs st1 wd1
    where w: "run_waves polls d ?st (zip ?waves rss) ?st ((ex_world x)\<lparr>wd_ledger := sl\<rparr>) = Some (Inr outs, st1, wd1)"
    by (auto simp: run_batch_def Let_def split: option.splits sum.splits)
  let ?ap0 = "\<lparr>ap_next = st1\<lparr>rs_attempts := staged\<rparr>, ap_frontier = [], ap_checkpoint = None, ap_patches = []\<rparr>"
  obtain v st2 sl2 where a: "apply_all g (zip batch outs) ?ap0 st1 (wd_ledger wd1) = (v, st2, sl2)"
    by (cases "apply_all g (zip batch outs) ?ap0 st1 (wd_ledger wd1)")
  then obtain ap where v: "v = Inr ap"
    using assms c r y w by (cases v) (auto simp: run_batch_def Let_def)
  have s: "seal_round d ap tc (ex_sequence x) st2 (wd1\<lparr>wd_ledger := sl2\<rparr>) = Continue x'"
    using assms c r y w a v by (auto simp: run_batch_def Let_def)
  have "length outs = length batch"
    using batch_outcomes_length [OF c _ w] r y by simp
  moreover from seal_round_continue(1) [OF s] obtain u where u: "ex_state x' = (ap_next ap)\<lparr>rs_budget := u\<rparr>" ..
  moreover have "evolves (wd_ledger (ex_world x)) (wd_ledger (ex_world x'))"
    using evolves_reserve_frontier [OF r] run_waves_effect [OF w] apply_all_effect [OF a]
      seal_round_continue(5) [OF s] by simp (meson evolves_trans)
  ultimately show ?thesis using c run_waves_effect [OF w] a v seal_round_continue [OF s]
    by (intro that) auto
qed

section \<open>Attempts and transitions\<close>

definition attempts_sum :: "(stage_id, u32) btree_map \<Rightarrow> nat" where
  "attempts_sum m = sum_list (map (\<lambda>(i, a). unat a) m)"

lemma attempts_sum_insert:
  assumes "bt_wf m"
  shows "attempts_sum (bt_insert i a m) + unat (unwrap_or (bt_get m i) 0) = unat a + attempts_sum m"
  using bt.total_ins_fresh [OF assms, of i unat a] bt.total_ins_over [OF assms, of i _ unat a]
  by (cases "bt_get m i") (auto simp: attempts_sum_def)

text \<open>A stage attempted since \<open>m\<close> is within its iteration limit.\<close>

definition iterations_kept :: "workflow_graph \<Rightarrow> (stage_id, u32) btree_map \<Rightarrow> (stage_id, u32) btree_map \<Rightarrow> bool" where
  "iterations_kept g m m' \<longleftrightarrow>
     (\<forall>i a def limit. bt_get m' i = Some a \<longrightarrow> bt_get (wg_stages g) i = Some def \<longrightarrow>
        sd_iteration_limit def = Some limit \<longrightarrow> a \<le> limit \<or> bt_get m i = Some a)"

lemma iterations_kept_refl [simp, intro]: "iterations_kept g m m"
  by (simp add: iterations_kept_def)

lemma iterations_kept_trans: "iterations_kept g a b \<Longrightarrow> iterations_kept g b c \<Longrightarrow> iterations_kept g a c"
  unfolding iterations_kept_def by blast

lemma count_attempts_ok:
  "count_attempts g batch tc staged = Inr (tc', staged', as) \<Longrightarrow> bt_wf staged \<Longrightarrow>
   (\<forall>(i, def) \<in> set batch. bt_get (wg_stages g) i = Some def) \<Longrightarrow>
   bt_wf staged' \<and> unat tc' = unat tc + length batch \<and>
   attempts_sum staged' = attempts_sum staged + length batch \<and>
   (tc \<le> maximum_transitions (wg_limits g) \<longrightarrow> tc' \<le> maximum_transitions (wg_limits g)) \<and>
   iterations_kept g staged staged' \<and>
   length as = length batch"
proof (induction g batch tc staged arbitrary: tc' staged' as rule: count_attempts.induct)
  case (2 g i def b tc staged)
  from "2.prems"(1) obtain t a as' where t: "checked_add tc 1 = Some t"
    and lim: "t \<le> maximum_transitions (wg_limits g)"
    and a: "checked_add (unwrap_or (bt_get staged i) 0) 1 = Some a"
    and it: "case sd_iteration_limit def of None \<Rightarrow> True | Some limit \<Rightarrow> a \<le> limit"
    and r: "count_attempts g b t (bt_insert i a staged) = Inr (tc', staged', as')" and as: "as = a # as'"
    by (auto split: option.splits)
  have ua: "unat a = Suc (unat (unwrap_or (bt_get staged i) 0))" and ut: "unat t = Suc (unat tc)"
    using a t by (simp_all add: checked_add_Some)
  have sum: "attempts_sum (bt_insert i a staged) = Suc (attempts_sum staged)"
    using attempts_sum_insert [OF "2.prems"(2), of i a] ua by simp
  have w: "iterations_kept g staged (bt_insert i a staged)"
    using it "2.prems" by (auto simp: iterations_kept_def)
  from "2.IH" [OF t a r] "2.prems" show ?case
    using sum ut lim w as by (auto intro: iterations_kept_trans)
qed simp

lemma classify_batch:
  "classify g is batch succ = Inr (FrontierWork batch' succ') \<Longrightarrow>
   (\<exists>more. batch' = batch @ more \<and> (\<forall>(i, def) \<in> set more. bt_get (wg_stages g) i = Some def)) \<and>
   (succ' = None \<longrightarrow> succ = None \<and> length batch' = length batch + length is)"
proof (induction g "is" batch succ arbitrary: batch' succ' rule: classify.induct)
  case (2 g i "is" batch succ)
  then obtain def where def: "bt_get (wg_stages g) i = Some def" by (auto split: option.splits)
  show ?case
  proof (cases "sd_kind def = TerminalSuccess")
    case True
    then have "sd_kind def \<noteq> TerminalFailure" by simp
    with "2.IH"(1) [OF def _ True] "2.prems" def True show ?thesis by auto
  next
    case False
    with "2.prems" def have nf: "sd_kind def \<noteq> TerminalFailure"
      and c: "classify g is (batch @ [(i, def)]) succ = Inr (FrontierWork batch' succ')"
      by (auto split: if_splits)
    from "2.IH"(2) [OF def nf False c] def show ?thesis by auto
  qed
qed simp

section \<open>Histories only grow\<close>

text \<open>A later state of a run: same identity, longer histories, and every new report is a supervisor's verdict on this run.\<close>

definition extends_run :: "run_state \<Rightarrow> run_state \<Rightarrow> bool" where
  "extends_run st st' \<longleftrightarrow>
     rs_task_id st' = rs_task_id st \<and> rs_run_id st' = rs_run_id st \<and>
     rs_candidate_id st' = rs_candidate_id st \<and> rs_repository st' = rs_repository st \<and>
     prefix (rs_patches st) (rs_patches st') \<and>
     prefix (rs_failure_evidence st) (rs_failure_evidence st') \<and>
     (\<exists>reports. rs_verification st' = rs_verification st @ reports \<and>
        (\<forall>r \<in> set reports. validate_supervisor_report r = Inr () \<and>
           vr_run_id r = rs_run_id st \<and> vr_candidate_id r = rs_candidate_id st)) \<and>
     (\<forall>p. rs_plan st = Some p \<longrightarrow> (\<exists>p'. rs_plan st' = Some p' \<and> ep_revision p \<le> ep_revision p'))"

lemma extends_run_refl [simp, intro]: "extends_run st st"
  by (simp add: extends_run_def)

lemma extends_run_trans:
  assumes ab: "extends_run a b" and bc: "extends_run b c"
  shows "extends_run a c"
proof -
  have "\<exists>p''. rs_plan c = Some p'' \<and> ep_revision p \<le> ep_revision p''" if p: "rs_plan a = Some p" for p
  proof -
    from p ab obtain p' where "rs_plan b = Some p'" "ep_revision p \<le> ep_revision p'"
      by (auto simp: extends_run_def)
    moreover from this(1) bc obtain p'' where "rs_plan c = Some p''" "ep_revision p' \<le> ep_revision p''"
      by (auto simp: extends_run_def)
    ultimately show ?thesis using order_trans by blast
  qed
  then show ?thesis
    using ab bc unfolding extends_run_def by (auto intro: prefix_order.trans)
qed

lemma extends_run_frame [simp]:
  "extends_run st (st'\<lparr>rs_budget := b\<rparr>) = extends_run st st'"
  "extends_run (st\<lparr>rs_attempts := m\<rparr>) st' = extends_run st st'"
  "extends_run st (st'\<lparr>rs_attempts := m\<rparr>) = extends_run st st'"
  "extends_run (st\<lparr>rs_budget := b\<rparr>) st' = extends_run st st'"
  "extends_run (st\<lparr>rs_current_stages := cs\<rparr>) st' = extends_run st st'"
  "extends_run st (st'\<lparr>rs_current_stages := cs\<rparr>) = extends_run st st'"
  by (simp_all add: extends_run_def)

lemma lift_state_Inr [simp]: "lift_state r = Inr a \<longleftrightarrow> r = Inr a"
  by (cases r) (simp_all add: lift_state_def)

lemma apply_outcome_effect:
  assumes "apply_outcome sl i def out st = Inr st'"
  shows "extends_run st st' \<and> rs_attempts st' = rs_attempts st"
proof -
  from assms obtain st1 st2 st3 u where
    "apply_plan out (st\<lparr>rs_failure_evidence := rs_failure_evidence st @ so_failures out\<rparr>) = Inr st1"
    "apply_patches out st1 = Inr st2" "apply_verification i def out st2 = Inr st3" "st' = st3\<lparr>rs_budget := u\<rparr>"
    by (auto simp: apply_outcome_def)
  moreover have "extends_run st st1 \<and> rs_attempts st1 = rs_attempts st"
    using calculation(1)
    by (auto simp: apply_plan_def extends_run_def word_less_nat_alt word_le_nat_alt split: option.splits)
  moreover have "extends_run st1 st2 \<and> rs_attempts st2 = rs_attempts st1"
    using calculation(2) by (auto simp: apply_patches_def extends_run_def split: if_splits)
  moreover have "extends_run st2 st3 \<and> rs_attempts st3 = rs_attempts st2"
    using calculation(3) by (auto simp: apply_verification_def extends_run_def split: option.splits if_splits)
  ultimately show ?thesis by (auto intro: extends_run_trans)
qed

lemma apply_one_ok:
  assumes "apply_one g ((i, def), out) acc st sl = (Inr acc', st', sl')"
  obtains nst u where "apply_outcome sl i def out (ap_next acc) = Inr nst" and "ap_next acc' = nst\<lparr>rs_budget := u\<rparr>"
  using assms by (auto simp: apply_one_def split: sum.splits prod.splits)

lemma apply_all_extends:
  "apply_all g xs acc st sl = (Inr ap, st', sl') \<Longrightarrow>
   extends_run (ap_next acc) (ap_next ap) \<and> rs_attempts (ap_next ap) = rs_attempts (ap_next acc)"
proof (induction xs arbitrary: acc st sl)
  case (Cons x xs)
  obtain i def out where x: "x = ((i, def), out)" by (cases x) auto
  from Cons.prems obtain acc1 st1 sl1 where o: "apply_one g ((i, def), out) acc st sl = (Inr acc1, st1, sl1)"
    and r: "apply_all g xs acc1 st1 sl1 = (Inr ap, st', sl')"
    unfolding x by (auto split: sum.splits prod.splits)
  from o obtain nst u where "apply_outcome sl i def out (ap_next acc) = Inr nst" "ap_next acc1 = nst\<lparr>rs_budget := u\<rparr>"
    by (rule apply_one_ok)
  with apply_outcome_effect have "extends_run (ap_next acc) (ap_next acc1)"
    "rs_attempts (ap_next acc1) = rs_attempts (ap_next acc)" by auto
  with Cons.IH [OF r] show ?case by (auto intro: extends_run_trans)
qed simp

section \<open>Whole runs\<close>

definition exec_ok :: "workflow_graph \<Rightarrow> 'w exec \<Rightarrow> bool" where
  "exec_ok g x \<longleftrightarrow>
     bt_wf (rs_attempts (ex_state x)) \<and>
     unat (ex_transitions x) = attempts_sum (rs_attempts (ex_state x)) \<and>
     ex_transitions x \<le> maximum_transitions (wg_limits g)"

lemma undisturbed_facts:
  assumes "undisturbed st st'"
  shows "extends_run st st'" and "rs_attempts st' = rs_attempts st" and "rs_verification st' = rs_verification st"
  using assms by (auto simp: undisturbed_def)

lemma run_frontier_continue:
  assumes "run_frontier polls g d x = Some (Continue x')" and ok: "exec_ok g x" and ne: "ex_frontier x \<noteq> []"
  shows "exec_ok g x'" and "unat (ex_transitions x) < unat (ex_transitions x')"
    and "extends_run (ex_state x) (ex_state x')"
    and "evolves (wd_ledger (ex_world x)) (wd_ledger (ex_world x'))"
    and "iterations_kept g (rs_attempts (ex_state x)) (rs_attempts (ex_state x'))"
    and "unat (ex_sequence x') = unat (ex_sequence x) + 1"
proof -
  from assms(1) obtain batch where c: "classify g (ex_frontier x) [] None = Inr (FrontierWork batch None)"
    and b: "run_batch polls g d batch x = Some (Continue x')"
    by (auto simp: run_frontier_def split: sum.splits classified.splits option.splits if_splits)
  have len: "length batch = length (ex_frontier x)"
    and defs: "\<forall>(i, def) \<in> set batch. bt_get (wg_stages g) i = Some def"
    using classify_batch [OF c] by auto
  from b obtain tc staged attempts outs st1 sl1 ap st2 sl2 u
    where ca: "count_attempts g batch (ex_transitions x) (rs_attempts (ex_state x)) = Inr (tc, staged, attempts)"
    and b1: "budget_only ((ex_state x)\<lparr>rs_current_stages := ex_frontier x\<rparr>) st1"
    and a: "apply_all g (zip batch outs)
           \<lparr>ap_next = st1\<lparr>rs_attempts := staged\<rparr>, ap_frontier = [], ap_checkpoint = None, ap_patches = []\<rparr>
           st1 sl1 = (Inr ap, st2, sl2)"
    and x': "ex_state x' = (ap_next ap)\<lparr>rs_budget := u\<rparr>" "ex_transitions x' = tc"
      "unat (ex_sequence x') = unat (ex_sequence x) + 1"
    and ev: "evolves (wd_ledger (ex_world x)) (wd_ledger (ex_world x'))"
    by (rule run_batch_continue)
  note k = count_attempts_ok [OF ca _ defs]
  have wf: "bt_wf (rs_attempts (ex_state x))" using ok by (simp add: exec_ok_def)
  have at: "rs_attempts (ex_state x') = staged" using apply_all_extends [OF a] x'(1) by simp
  show "exec_ok g x'" using ok k [OF wf] at x'(2) by (auto simp: exec_ok_def)
  show "unat (ex_transitions x) < unat (ex_transitions x')"
    using k [OF wf] x'(2) len ne by (cases "ex_frontier x") auto
  show "extends_run (ex_state x) (ex_state x')"
    using apply_all_extends [OF a] x'(1) b1 by (auto simp: budget_only_def)
  show "iterations_kept g (rs_attempts (ex_state x)) (rs_attempts (ex_state x'))"
    using k [OF wf] at by simp
  show "evolves (wd_ledger (ex_world x)) (wd_ledger (ex_world x'))" by (rule ev)
  show "unat (ex_sequence x') = unat (ex_sequence x) + 1" by (rule x'(3))
qed

lemma run_frontier_halt:
  assumes "run_frontier polls g d x = Some (Halt (r, st', wd'))"
  shows "undisturbed (ex_state x) st' \<and> evolves (wd_ledger (ex_world x)) (wd_ledger wd') \<and>
    (r = Inr Succeeded \<longrightarrow> verified_success st')"
proof -
  consider (batch) batch where "run_batch polls g d batch x = Some (Halt (r, st', wd'))"
    | (other) "undisturbed (ex_state x) st'" "wd' = ex_world x" "r = Inr Succeeded \<longrightarrow> verified_success (ex_state x)"
    using assms by (auto simp: run_frontier_def split: sum.splits classified.splits option.splits if_splits)
  then show ?thesis
  proof cases
    case batch
    then show ?thesis by (auto dest: run_batch_halt)
  next
    case other
    then show ?thesis using undisturbed_facts(3) [OF other(1)] by (auto simp: verified_success_def)
  qed
qed

lemma run_loop_sound:
  assumes "run_loop rounds polls g d x = Some (r, st', wd')" and "exec_ok g x"
  shows "extends_run (ex_state x) st' \<and> evolves (wd_ledger (ex_world x)) (wd_ledger wd') \<and>
    attempts_sum (rs_attempts (ex_state x)) \<le> attempts_sum (rs_attempts st') \<and>
    attempts_sum (rs_attempts st') \<le> unat (maximum_transitions (wg_limits g)) \<and>
    iterations_kept g (rs_attempts (ex_state x)) (rs_attempts st') \<and>
    (r = Inr Succeeded \<longrightarrow> verified_success st')"
  using assms
proof (induction rounds arbitrary: x)
  case (Suc rounds)
  have max: "attempts_sum (rs_attempts (ex_state x)) \<le> unat (maximum_transitions (wg_limits g))"
    using Suc.prems(2) by (simp add: exec_ok_def word_le_nat_alt)
  show ?case
  proof (cases "ex_frontier x = []")
    case True
    with Suc.prems max show ?thesis by auto
  next
    case False
    with Suc.prems(1) obtain p where p: "run_frontier polls g d x = Some p" by (auto split: option.splits)
    show ?thesis
    proof (cases p)
      case (Halt h)
      with Suc.prems False p have h: "run_frontier polls g d x = Some (Halt (r, st', wd'))" by simp
      from run_frontier_halt [OF h] show ?thesis using max undisturbed_facts [of "ex_state x" st'] by auto
    next
      case (Continue x')
      with p have c: "run_frontier polls g d x = Some (Continue x')" by simp
      note k = run_frontier_continue [OF c Suc.prems(2) False]
      have "run_loop rounds polls g d x' = Some (r, st', wd')" using Suc.prems(1) False c by simp
      note ih = Suc.IH [OF this k(1)]
      have "attempts_sum (rs_attempts (ex_state x)) \<le> attempts_sum (rs_attempts (ex_state x'))"
        using k(1,2) Suc.prems(2) by (simp add: exec_ok_def)
      with ih k show ?thesis by (auto intro: extends_run_trans evolves_trans iterations_kept_trans)
    qed
  qed
qed simp

section \<open>Runs end\<close>

text \<open>A driver is responsive when every stage has answered by its poll number \<open>K\<close>, counting from zero.\<close>

definition responsive :: "nat \<Rightarrow> 'w driver \<Rightarrow> bool" where
  "responsive K d \<longleftrightarrow> (\<forall>def i a snap n w sl. K \<le> n \<longrightarrow> fst (dr_poll d def i a snap n w sl) \<noteq> None)"

definition aged :: "nat \<Rightarrow> nat \<Rightarrow> slot \<Rightarrow> bool" where
  "aged K j s \<longleftrightarrow> (case s of Unpolled _ _ _ _ \<Rightarrow> j = 0 | Pending _ _ _ n \<Rightarrow> j \<le> n \<and> n \<le> K | Ready _ \<Rightarrow> True)"

lemma poll_driver_aged:
  assumes "responsive K d" and "n \<le> K" and "poll_driver d snap i def a n wd = (Inr s', wd')"
  shows "aged K (Suc n) s'"
proof -
  have "K \<le> n \<Longrightarrow> fst (dr_poll d def i a snap n (wd_driver wd) (wd_ledger wd)) \<noteq> None"
    using assms(1) by (auto simp: responsive_def)
  with assms(2,3) show ?thesis
    by (cases "K = n") (auto simp: poll_driver_def aged_def Let_def split: prod.splits option.splits sum.splits)
qed

lemma aged_mono: "aged K j s \<Longrightarrow> 0 < i \<Longrightarrow> i \<le> j \<Longrightarrow> aged K i s"
  by (auto simp: aged_def split: slot.splits)

lemma poll_slot_aged:
  assumes r: "responsive K d" and a: "aged K j s" and p: "poll_slot d snap s wd = (Inr s', wd')"
  shows "aged K (Suc j) s'"
proof (cases s)
  case (Unpolled i def at res)
  with a p obtain wd1 where "j = 0" "poll_driver d snap i def at 0 wd1 = (Inr s', wd')"
    by (auto simp: aged_def poll_slot_def split: prod.splits sum.splits)
  with poll_driver_aged [OF r] show ?thesis by blast
next
  case (Pending i def at n)
  with a p have "j \<le> n" "n \<le> K" "poll_driver d snap i def at n wd = (Inr s', wd')"
    by (auto simp: aged_def poll_slot_def)
  with poll_driver_aged [OF r] show ?thesis by (blast intro: aged_mono)
qed (use p in \<open>auto simp: poll_slot_def aged_def\<close>)

lemma poll_round_aged:
  "responsive K d \<Longrightarrow> list_all (aged K j) ss \<Longrightarrow> poll_round d snap ss wd = (Inr ss', wd') \<Longrightarrow>
   list_all (aged K (Suc j)) ss' \<and> length ss' = length ss"
proof (induction ss arbitrary: wd ss')
  case (Cons s ss)
  from Cons.prems(3) obtain s1 wd1 ss1 where "poll_slot d snap s wd = (Inr s1, wd1)"
    "poll_round d snap ss wd1 = (Inr ss1, wd')" "ss' = s1 # ss1"
    by (auto split: prod.splits sum.splits)
  with Cons.IH [OF Cons.prems(1)] Cons.prems(1,2) poll_slot_aged show ?case by fastforce
qed simp

lemma outcomes_of_None: "outcomes_of ss = None \<Longrightarrow> list_all (aged K (Suc j)) ss \<Longrightarrow> Suc j \<le> K"
  by (induction ss rule: outcomes_of.induct) (auto simp: aged_def)

lemma try_join_all_total:
  "responsive K d \<Longrightarrow> list_all (aged K j) ss \<Longrightarrow> K < j + polls \<Longrightarrow> 0 < polls \<Longrightarrow>
   try_join_all polls d snap ss wd \<noteq> None"
proof (induction polls arbitrary: j ss wd)
  case (Suc polls)
  obtain x wd1 where p: "poll_round d snap ss wd = (x, wd1)" by fastforce
  show ?case
  proof (cases x)
    case (Inl e)
    with p show ?thesis by simp
  next
    case (Inr ss1)
    with p have ag: "list_all (aged K (Suc j)) ss1" using poll_round_aged [OF Suc.prems(1,2)] by simp
    show ?thesis
    proof (cases "outcomes_of ss1")
      case None
      with ag have "Suc j \<le> K" by (blast intro: outcomes_of_None)
      with Suc.prems have "0 < polls" "K < Suc j + polls" by simp_all
      with Suc.IH [OF Suc.prems(1) ag] p Inr None show ?thesis by simp
    qed (use p Inr in simp)
  qed
qed simp

lemma run_waves_total:
  assumes "responsive K d" and "K < polls"
  shows "run_waves polls d snap ws st wd \<noteq> None"
proof (induction ws arbitrary: st wd)
  case (Cons w ws)
  obtain jobs res where w: "w = (jobs, res)" by fastforce
  have "list_all (aged K 0) (map2 start_slot jobs res)"
    by (auto simp: list_all_iff start_slot_def aged_def)
  then have "try_join_all polls d snap (map2 start_slot jobs res) wd \<noteq> None"
    using assms by (intro try_join_all_total) auto
  then obtain x wd1 where "try_join_all polls d snap (map2 start_slot jobs res) wd = Some (x, wd1)" by auto
  with Cons.IH w show ?case
    by (auto simp: Let_def simp del: not_None_eq split: sum.splits prod.splits option.splits)
qed simp

lemma run_frontier_total:
  assumes "responsive K d" and "K < polls"
  shows "run_frontier polls g d x \<noteq> None"
  using run_waves_total [OF assms]
  by (auto simp: run_frontier_def run_batch_def Let_def simp del: not_None_eq
      split: sum.splits classified.splits option.splits if_splits prod.splits)

lemma run_loop_total:
  assumes "responsive K d" and "K < polls" and "exec_ok g x"
    and "unat (maximum_transitions (wg_limits g)) < unat (ex_transitions x) + rounds"
  shows "run_loop rounds polls g d x \<noteq> None"
  using assms(3,4)
proof (induction rounds arbitrary: x)
  case 0
  then show ?case by (simp add: exec_ok_def word_le_nat_alt)
next
  case (Suc rounds)
  show ?case
  proof (cases "ex_frontier x = []")
    case False
    obtain p where p: "run_frontier polls g d x = Some p" using run_frontier_total [OF assms(1,2)] by blast
    show ?thesis
    proof (cases p)
      case (Continue x')
      with p have c: "run_frontier polls g d x = Some (Continue x')" by simp
      note k = run_frontier_continue [OF c Suc.prems(1) False]
      have "run_loop rounds polls g d x' \<noteq> None" using Suc.IH [OF k(1)] k(2) Suc.prems(2) by linarith
      then show ?thesis using False c by simp
    qed (use False p in simp)
  qed simp
qed

section \<open>Starting and resuming\<close>

lemma sum_attempts_Some: "sum_attempts acc as = Some t \<Longrightarrow> unat t = unat acc + sum_list (map unat as)"
proof (induction acc "as" arbitrary: t rule: sum_attempts.induct)
  case (2 acc a as)
  then obtain t1 where t1: "checked_add acc a = Some t1" and r: "sum_attempts t1 as = Some t"
    by (auto split: option.splits)
  from t1 have "unat t1 = unat acc + unat a" by (simp add: checked_add_Some)
  with "2.IH" [OF t1 r] show ?case by simp
qed simp

lemma attempts_sum_values: "attempts_sum m = sum_list (map unat (bt_values m))"
  by (simp add: attempts_sum_def comp_def case_prod_unfold)

definition workflow_started :: "workflow_graph \<Rightarrow> run_state \<Rightarrow> u32 \<Rightarrow> bool" where
  "workflow_started g st tc \<longleftrightarrow>
     sum_attempts 0 (bt_values (rs_attempts st)) = Some tc \<and> tc \<le> maximum_transitions (wg_limits g)"

lemma run_workflow_cases:
  assumes "run_workflow rounds polls g d seq fr st wd = h"
  obtains (rejected) e where "h = Some (Inl e, st, wd)" "e = CheckpointTransitionOverflow \<or> e = CheckpointTransitionsExceeded"
  | (started) tc where "bt_wf (rs_attempts st) \<Longrightarrow>
        exec_ok g \<lparr>ex_state = st, ex_frontier = fr, ex_transitions = tc, ex_sequence = seq, ex_world = wd\<rparr>"
      "h = run_loop rounds polls g d
        \<lparr>ex_state = st, ex_frontier = fr, ex_transitions = tc, ex_sequence = seq, ex_world = wd\<rparr>"
proof (cases "sum_attempts 0 (bt_values (rs_attempts st))")
  case None
  with assms that(1) show ?thesis by (auto simp: run_workflow_def)
next
  case (Some tc)
  then have "unat tc = attempts_sum (rs_attempts st)"
    by (auto dest: sum_attempts_Some simp: attempts_sum_values)
  with assms that Some show ?thesis
    by (cases "tc \<le> maximum_transitions (wg_limits g)") (auto simp: run_workflow_def exec_ok_def)
qed

lemma run_workflow_sound:
  assumes "run_workflow rounds polls g d seq fr st wd = Some (r, st', wd')" and "bt_wf (rs_attempts st)"
  shows "extends_run st st' \<and> evolves (wd_ledger wd) (wd_ledger wd') \<and>
    attempts_sum (rs_attempts st) \<le> attempts_sum (rs_attempts st') \<and>
    (attempts_sum (rs_attempts st') \<le> unat (maximum_transitions (wg_limits g)) \<or>
       \<not> is_ok r \<and> rs_attempts st' = rs_attempts st) \<and>
    iterations_kept g (rs_attempts st) (rs_attempts st') \<and>
    (r = Inr Succeeded \<longrightarrow> verified_success st')"
  using assms(1)
proof (cases rule: run_workflow_cases)
  case (started tc)
  from run_loop_sound [OF started(2) [symmetric] started(1) [OF assms(2)]] show ?thesis by auto
qed auto

lemma run_workflow_total:
  assumes "responsive K d" and "K < polls" and "unat (maximum_transitions (wg_limits g)) < rounds"
    and "bt_wf (rs_attempts st)"
  shows "run_workflow rounds polls g d seq fr st wd \<noteq> None"
proof (cases rule: run_workflow_cases [of rounds polls g d seq fr st wd, OF refl, case_names rejected started])
  case (started tc)
  have "run_loop rounds polls g d
      \<lparr>ex_state = st, ex_frontier = fr, ex_transitions = tc, ex_sequence = seq, ex_world = wd\<rparr> \<noteq> None"
    by (rule run_loop_total [OF assms(1,2) started(1) [OF assms(4)]]) (use assms(3) in simp)
  with started(2) show ?thesis by simp
qed auto

lemma execute_cases:
  assumes "execute rounds polls g d st wd = h"
  obtains (refused) e sl where "h = Some (Inl (ExBudget e), st, wd\<lparr>wd_ledger := sl\<rparr>)" "evolves (wd_ledger wd) sl"
  | (merged) u sl where "evolves (wd_ledger wd) sl" "shared_merge_floor (rs_budget st) (wd_ledger wd) = (Inr u, sl)"
      "h = run_workflow rounds polls g d 0 [wg_entry g] (st\<lparr>rs_budget := u\<rparr>) (wd\<lparr>wd_ledger := sl\<rparr>)"
proof -
  obtain y sl where m: "shared_merge_floor (rs_budget st) (wd_ledger wd) = (y, sl)" by fastforce
  then have "evolves (wd_ledger wd) sl" by (rule evolves_ops)
  with m assms that show ?thesis by (cases y) (auto simp: execute_def)
qed

lemma resume_cases:
  assumes "resume hash rounds polls g d cp st wd = h"
  obtains (rejected) e where "h = Some (Inl e, st, wd)" "resume_checks hash g cp st = Inl e"
  | (refused) e sl where "h = Some (Inl (ExBudget e), st, wd\<lparr>wd_ledger := sl\<rparr>)" "evolves (wd_ledger wd) sl"
  | (merged) u sl where "resume_checks hash g cp st = Inr ()" "evolves (wd_ledger wd) sl"
      "shared_merge_floor
         ((rs_budget (cp_state cp))\<lparr>consumed :=
            fold raise_to (consumed (rs_budget st)) (consumed (rs_budget (cp_state cp)))\<rparr>)
         (wd_ledger wd) = (Inr u, sl)"
      "h = run_workflow rounds polls g d (cp_created_at_sequence cp) (cp_workflow_position cp)
         ((cp_state cp)\<lparr>rs_budget := u\<rparr>) (wd\<lparr>wd_ledger := sl\<rparr>)"
proof (cases "resume_checks hash g cp st")
  case (Inl e)
  with assms that(1) show ?thesis by (auto simp: resume_def)
next
  case (Inr x)
  let ?fl = "(rs_budget (cp_state cp))\<lparr>consumed :=
            fold raise_to (consumed (rs_budget st)) (consumed (rs_budget (cp_state cp)))\<rparr>"
  obtain y sl where m: "shared_merge_floor ?fl (wd_ledger wd) = (y, sl)" by fastforce
  then have "evolves (wd_ledger wd) sl" by (rule evolves_ops)
  with m assms that(2,3) Inr show ?thesis by (cases y) (auto simp: resume_def Let_def)
qed

text \<open>
  A call of the executor that returned: a run started on the caller's state \<open>st\<close>, or one resumed from a
  checkpoint, whose state then replaces the caller's. \<open>start\<close> is the state the run goes on from.
\<close>

definition run_ended :: "(checkpoint \<Rightarrow> (string, string) result) \<Rightarrow> nat \<Rightarrow> nat \<Rightarrow> workflow_graph \<Rightarrow> 'w driver
    \<Rightarrow> run_state \<Rightarrow> run_state \<Rightarrow> 'w world \<Rightarrow> (exec_error, terminal_outcome) result \<times> run_state \<times> 'w world \<Rightarrow> bool" where
  "run_ended hash rounds polls g d start st wd h \<longleftrightarrow>
     execute rounds polls g d st wd = Some h \<and> start = st \<or>
     (\<exists>cp. resume hash rounds polls g d cp st wd = Some h \<and> start = cp_state cp)"

lemma run_ended_cases:
  assumes "run_ended hash rounds polls g d start st wd (r, st', wd')"
  obtains (refused) e where "r = Inl e" "st' = st" "evolves (wd_ledger wd) (wd_ledger wd')"
  | (merged) seq fr u sl where "evolves (wd_ledger wd) sl"
      "rs_run_id start = rs_run_id st" "rs_candidate_id start = rs_candidate_id st"
      "run_workflow rounds polls g d seq fr (start\<lparr>rs_budget := u\<rparr>) (wd\<lparr>wd_ledger := sl\<rparr>) = Some (r, st', wd')"
  using assms unfolding run_ended_def
proof (elim disjE exE conjE)
  assume "execute rounds polls g d st wd = Some (r, st', wd')" and start: "start = st"
  then show thesis
  proof (cases rule: execute_cases)
    case (merged u sl)
    with that(2) start show ?thesis by metis
  qed (use that(1) in auto)
next
  fix cp
  assume "resume hash rounds polls g d cp st wd = Some (r, st', wd')" and start: "start = cp_state cp"
  then show thesis
  proof (cases rule: resume_cases)
    case (merged u sl)
    then have "rs_run_id (cp_state cp) = rs_run_id st" "rs_candidate_id (cp_state cp) = rs_candidate_id st"
      by (auto simp: resume_checks_def checkpoint_canonical_hash_def)
    with that(2) start merged show ?thesis by metis
  qed (use that(1) in auto)
qed

lemma verified_report_of_run:
  assumes "run_ended hash rounds polls g d start st wd (Inr Succeeded, st', wd')" and "bt_wf (rs_attempts start)"
  shows "rs_verification st' \<noteq> [] \<and>
    vr_passed (last (rs_verification st')) \<and>
    (\<forall>c \<in> set (vr_checks (last (rs_verification st'))). vc_status c = VPassed) \<and>
    vr_policy_violations (last (rs_verification st')) = [] \<and>
    vr_supervisor_attestation (last (rs_verification st')) \<notin> {None, Some []} \<and>
    (vr_run_id (last (rs_verification st')) = rs_run_id st \<and>
       vr_candidate_id (last (rs_verification st')) = rs_candidate_id st \<or>
     rs_verification st' = rs_verification start)"
  using assms(1)
proof (cases rule: run_ended_cases)
  case (merged seq fr u sl)
  have "bt_wf (rs_attempts (start\<lparr>rs_budget := u\<rparr>))" using assms(2) by simp
  note run = run_workflow_sound [OF merged(4) this]
  then have ne: "rs_verification st' \<noteq> []" and ok: "validate_supervisor_report (last (rs_verification st')) = Inr ()"
    and p: "vr_passed (last (rs_verification st'))"
    by (auto simp: verified_success_def is_ok_iff)
  from run obtain reports where v: "rs_verification st' = rs_verification start @ reports"
    and own: "\<forall>r \<in> set reports. vr_run_id r = rs_run_id st \<and> vr_candidate_id r = rs_candidate_id st"
    using merged(2,3) by (auto simp: extends_run_def)
  then have "vr_run_id (last (rs_verification st')) = rs_run_id st \<and>
       vr_candidate_id (last (rs_verification st')) = rs_candidate_id st \<or>
     rs_verification st' = rs_verification start"
    by (cases "reports = []") auto
  with ne p ok show ?thesis unfolding supervisor_report_ok by auto
qed auto

text \<open>C12. Success is verified: when a run succeeds, whether it was started on a state or resumed from a
  checkpoint, its last report was attested by the supervisor and passed, each of its checks passed and
  it lists no policy violation. That report is of exactly this run and candidate, unless the run added
  no report to those of the state it went on from, in which case it is the last of those. So it is of
  this run whenever that state had no reports or only reports of this run. This holds for every graph
  and every driver.\<close>

theorem success_means_verified:
  assumes "run_ended hash rounds polls g d start st wd (Inr Succeeded, st', wd')" and "bt_wf (rs_attempts start)"
  shows "rs_verification st' \<noteq> [] \<and>
    vr_passed (last (rs_verification st')) \<and>
    (\<forall>c \<in> set (vr_checks (last (rs_verification st'))). vc_status c = VPassed) \<and>
    vr_policy_violations (last (rs_verification st')) = [] \<and>
    vr_supervisor_attestation (last (rs_verification st')) \<notin> {None, Some []} \<and>
    (vr_run_id (last (rs_verification st')) = rs_run_id st \<and>
       vr_candidate_id (last (rs_verification st')) = rs_candidate_id st \<or>
     rs_verification st' = rs_verification start)"
  by (rule verified_report_of_run [OF assms])

text \<open>C13. Runs end: with a driver that answers every stage by its poll number K, more than K polls per wave and
  more rounds than the graph's transition limit are enough fuel for any run to return, whether it is
  started or resumed.\<close>

theorem runs_end:
  assumes "responsive K d" and "K < polls" and "unat (maximum_transitions (wg_limits g)) < rounds"
    and "bt_wf (rs_attempts st)" and "bt_wf (rs_attempts (cp_state cp))"
  shows "(\<exists>h. execute rounds polls g d st wd = Some h) \<and>
         (\<exists>h. resume hash rounds polls g d cp st wd = Some h)"
proof
  show "\<exists>h. execute rounds polls g d st wd = Some h"
  proof (cases rule: execute_cases [of rounds polls g d st wd, OF refl, case_names refused merged])
    case (merged u sl)
    have "bt_wf (rs_attempts (st\<lparr>rs_budget := u\<rparr>))" using assms(4) by simp
    from run_workflow_total [OF assms(1-3) this] merged(3) show ?thesis by auto
  qed auto
  show "\<exists>h. resume hash rounds polls g d cp st wd = Some h"
  proof (cases rule: resume_cases [of hash rounds polls g d cp st wd, OF refl, case_names rejected refused merged])
    case (merged u sl)
    have "bt_wf (rs_attempts ((cp_state cp)\<lparr>rs_budget := u\<rparr>))" using assms(5) by simp
    from run_workflow_total [OF assms(1-3) this] merged(4) show ?thesis by auto
  qed auto
qed

text \<open>A round that does not commit leaves no trace in the history: when a frontier is rejected, fails, or
  cannot be checkpointed, the caller's state keeps its attempts, plan, patches, reports and failure
  evidence; only the budget (spent calls are irrevocable) and the list of current stages may differ.\<close>

theorem failed_round_keeps_history:
  assumes "run_frontier polls g d x = Some (Halt (Inl e, st', wd'))"
  shows "st'\<lparr>rs_budget := b, rs_current_stages := cs\<rparr> = (ex_state x)\<lparr>rs_budget := b, rs_current_stages := cs\<rparr>"
proof -
  from run_frontier_halt [OF assms] obtain b' cs'
    where "st' = (ex_state x)\<lparr>rs_current_stages := cs', rs_budget := b'\<rparr>"
    by (auto simp: undisturbed_def)
  then show ?thesis by simp
qed

lemma run_bounded:
  assumes "run_ended hash rounds polls g d start st \<lparr>wd_driver = w, wd_ledger = ledger_run ops (shared_new b)\<rparr> (r, st', wd')"
    and "bt_wf (rs_attempts start)"
  shows "\<not> is_ok r \<and> rs_attempts st' \<in> {rs_attempts st, rs_attempts start} \<or>
      attempts_sum (rs_attempts start) \<le> attempts_sum (rs_attempts st') \<and>
      attempts_sum (rs_attempts st') \<le> unat (maximum_transitions (wg_limits g)) \<and>
      iterations_kept g (rs_attempts start) (rs_attempts st')"
    and "unat (amount_in (consumed (usage (sl_ledger (wd_ledger wd')))) k) \<le> unat (amount_in (limits (ledger_new b)) k)"
proof -
  let ?sl = "ledger_run ops (shared_new b)"
  have "(\<not> is_ok r \<and> rs_attempts st' \<in> {rs_attempts st, rs_attempts start} \<or>
      attempts_sum (rs_attempts start) \<le> attempts_sum (rs_attempts st') \<and>
      attempts_sum (rs_attempts st') \<le> unat (maximum_transitions (wg_limits g)) \<and>
      iterations_kept g (rs_attempts start) (rs_attempts st')) \<and> evolves ?sl (wd_ledger wd')"
    using assms(1)
  proof (cases rule: run_ended_cases)
    case (merged seq fr u sl)
    have "bt_wf (rs_attempts (start\<lparr>rs_budget := u\<rparr>))" using assms(2) by simp
    from run_workflow_sound [OF merged(4) this] merged(1) show ?thesis by (auto intro: evolves_trans)
  qed auto
  moreover have "shared_inv ?sl" by (rule ledger_run_inv [OF shared_new_inv])
  moreover have "shared_adv (shared_new b) ?sl" by (rule ledger_run_adv [OF shared_new_inv])
  ultimately have w: "within_limits (sl_ledger (wd_ledger wd'))" "limits (sl_ledger (wd_ledger wd')) = limits (ledger_new b)"
    and a: "\<not> is_ok r \<and> rs_attempts st' \<in> {rs_attempts st, rs_attempts start} \<or>
      attempts_sum (rs_attempts start) \<le> attempts_sum (rs_attempts st') \<and>
      attempts_sum (rs_attempts st') \<le> unat (maximum_transitions (wg_limits g)) \<and>
      iterations_kept g (rs_attempts start) (rs_attempts st')"
    using ledger_run_inv [of ?sl] ledger_run_adv [of ?sl]
    by (auto simp: evolves_def shared_inv_def ledger_inv_def shared_adv_def ledger_adv_def shared_new_def)
  from a show "\<not> is_ok r \<and> rs_attempts st' \<in> {rs_attempts st, rs_attempts start} \<or>
      attempts_sum (rs_attempts start) \<le> attempts_sum (rs_attempts st') \<and>
      attempts_sum (rs_attempts st') \<le> unat (maximum_transitions (wg_limits g)) \<and>
      iterations_kept g (rs_attempts start) (rs_attempts st')" .
  from w show "unat (amount_in (consumed (usage (sl_ledger (wd_ledger wd')))) k) \<le> unat (amount_in (limits (ledger_new b)) k)"
    unfolding within_limits_def by (metis add_leD1)
qed

text \<open>C15. Iteration and transition limits hold across runs: whatever the driver does and whatever attempts the
  state or the checkpoint it goes on from already counts, when a started or resumed run returns, the
  attempts counted are at least those of the start and at most the allowed number of transitions in
  total, every stage attempted since is within its iteration limit, and the budget ledger is within its
  limits; or the call returned an error and no attempt was counted.\<close>

theorem run_within_limits:
  assumes "run_ended hash rounds polls g d start st \<lparr>wd_driver = w, wd_ledger = ledger_run ops (shared_new b)\<rparr> (r, st', wd')"
    and "bt_wf (rs_attempts start)"
  shows "(sum_list (map unat (bt_values (rs_attempts start))) \<le> sum_list (map unat (bt_values (rs_attempts st'))) \<and>
      sum_list (map unat (bt_values (rs_attempts st'))) \<le> unat (maximum_transitions (wg_limits g)) \<and>
      (\<forall>i a def limit. bt_get (rs_attempts st') i = Some a \<and> bt_get (wg_stages g) i = Some def \<and>
         sd_iteration_limit def = Some limit \<longrightarrow> a \<le> limit \<or> bt_get (rs_attempts start) i = Some a) \<or>
      \<not> is_ok r \<and> rs_attempts st' \<in> {rs_attempts st, rs_attempts start}) \<and>
    (\<forall>k. unat (amount_in (consumed (usage (sl_ledger (wd_ledger wd')))) k) \<le> unat (amount_in (limits (ledger_new b)) k))"
  using run_bounded [OF assms] unfolding attempts_sum_values iterations_kept_def by blast

lemma shared_merge_floor_ge:
  assumes "shared_merge_floor fl sl = (Inr u, sl')" and "shared_inv sl" and "bt_wf (consumed fl)"
  shows "amount_in (consumed fl) k \<le> amount_in (consumed (usage (sl_ledger sl'))) k"
proof -
  have wf: "bt_wf (consumed (usage (sl_ledger sl)))"
    using assms(2) ledger_inv_wfs(1) by (simp add: shared_inv_def)
  from assms(1) have m: "merge_consumption_floor fl (sl_ledger sl) = (Inr u, sl_ledger sl')"
    by (auto simp: shared_merge_floor_def locked_def split: if_splits prod.splits)
  show ?thesis
  proof (cases rule: merge_cases [of fl "sl_ledger sl"])
    case (merged l')
    then show ?thesis using m fold_raise_to_max [OF wf assms(3), of k] by simp
  qed (use m in simp)
qed

lemma evolves_consumed:
  assumes "evolves sl sl'" and "shared_inv sl"
  shows "amount_in (consumed (usage (sl_ledger sl))) k \<le> amount_in (consumed (usage (sl_ledger sl'))) k"
  using assms ledger_run_adv [OF assms(2)] by (auto simp: evolves_def shared_adv_def ledger_adv_def)

lemma evolves_inv: "evolves sl sl' \<Longrightarrow> shared_inv sl \<Longrightarrow> shared_inv sl'"
  using ledger_run_inv by (auto simp: evolves_def)

text \<open>C16. Resuming binds the run: a resumed run that reaches an outcome keeps the identity of the caller's run,
  goes on counting transitions where the checkpoint stopped and stays within the transition limit,
  and the ledger's consumption is at least what the checkpoint and the caller had each recorded.\<close>

theorem resume_binds_run:
  assumes "resume hash rounds polls g d cp st \<lparr>wd_driver = w, wd_ledger = ledger_run ops (shared_new b)\<rparr> =
      Some (Inr out, st', wd')"
    and "bt_wf (rs_attempts (cp_state cp))"
    and "bt_wf (consumed (rs_budget st))" and "bt_wf (consumed (rs_budget (cp_state cp)))"
  shows "rs_run_id st' = rs_run_id st \<and> rs_candidate_id st' = rs_candidate_id st \<and>
    sum_list (map unat (bt_values (rs_attempts (cp_state cp)))) \<le> sum_list (map unat (bt_values (rs_attempts st'))) \<and>
    sum_list (map unat (bt_values (rs_attempts st'))) \<le> unat (maximum_transitions (wg_limits g)) \<and>
    (\<forall>k. amount_in (consumed (rs_budget st)) k \<le> amount_in (consumed (usage (sl_ledger (wd_ledger wd')))) k \<and>
         amount_in (consumed (rs_budget (cp_state cp))) k \<le> amount_in (consumed (usage (sl_ledger (wd_ledger wd')))) k)"
  using assms(1)
proof (cases rule: resume_cases)
  case (merged u sl)
  let ?sl = "ledger_run ops (shared_new b)" and ?cb = "rs_budget (cp_state cp)"
  let ?fl = "?cb\<lparr>consumed := fold raise_to (consumed (rs_budget st)) (consumed ?cb)\<rparr>"
  have inv: "shared_inv ?sl" by (rule ledger_run_inv [OF shared_new_inv])
  have wf: "bt_wf (rs_attempts ((cp_state cp)\<lparr>rs_budget := u\<rparr>))" using assms(2) by simp
  note s = run_workflow_sound [OF merged(4) [symmetric] wf]
  have ids: "rs_run_id (cp_state cp) = rs_run_id st" "rs_candidate_id (cp_state cp) = rs_candidate_id st"
    using merged(1) by (auto simp: resume_checks_def checkpoint_canonical_hash_def)
  have "amount_in (consumed (rs_budget st)) k \<le> amount_in (consumed (usage (sl_ledger (wd_ledger wd')))) k \<and>
        amount_in (consumed ?cb) k \<le> amount_in (consumed (usage (sl_ledger (wd_ledger wd')))) k" for k
  proof -
    have f: "amount_in (consumed ?fl) k = max (amount_in (consumed ?cb) k) (amount_in (consumed (rs_budget st)) k)"
      using fold_raise_to_max [OF assms(4,3)] by simp
    have "amount_in (consumed ?fl) k \<le> amount_in (consumed (usage (sl_ledger sl))) k"
      using merged(3) inv assms(4) by (intro shared_merge_floor_ge) auto
    also have "\<dots> \<le> amount_in (consumed (usage (sl_ledger (wd_ledger wd')))) k"
    proof (rule evolves_consumed)
      show "shared_inv sl" using merged(2) inv evolves_inv by auto
    qed (use s in auto)
    finally show ?thesis unfolding f by simp
  qed
  with s ids show ?thesis by (auto simp: extends_run_def attempts_sum_values)
qed auto

section \<open>Validated graphs have no dead ends\<close>

definition structural :: "exec_error \<Rightarrow> bool" where
  "structural e \<longleftrightarrow> e = NoTerminalStage \<or> e = BudgetTransitionAtFanOut \<or> (\<exists>i. e = MissingStage i)"

lemma structural_simps [simp]:
  "\<not> structural (ExBudget b)" "\<not> structural (ExDriver m)" "\<not> structural (ExState x)"
  "\<not> structural TransitionOverflow" "\<not> structural TransitionsExhausted" "\<not> structural AttemptOverflow"
  "\<not> structural (IterationLimitExhausted i)" "\<not> structural SequenceOverflow"
  "\<not> structural (NoEligibleTransition i)" "\<not> structural ParallelismExceeded"
  "\<not> structural PlanRevisionNotNewer" "\<not> structural PlanRevisionWithoutReason" "\<not> structural PatchesBeforePlan"
  "\<not> structural VerificationOutsideGate" "\<not> structural VerificationIdentityMismatch"
  "\<not> structural (GateOmittedReport i)"
  by (simp_all add: structural_def)

lemma count_attempts_err: "count_attempts g b tc m = Inl e \<Longrightarrow> \<not> structural e"
  by (induction g b tc m rule: count_attempts.induct)
    (auto simp: ensure_def and_then_def split: option.splits if_splits sum.splits)

lemma poll_slot_err: "poll_slot d snap s wd = (Inl e, wd') \<Longrightarrow> \<not> structural e"
  by (auto simp: poll_slot_def poll_driver_def Let_def split: slot.splits prod.splits sum.splits option.splits)

lemma poll_round_err: "poll_round d snap ss wd = (Inl e, wd') \<Longrightarrow> \<not> structural e"
  by (induction ss arbitrary: wd) (auto dest: poll_slot_err split: prod.splits sum.splits)

lemma try_join_all_err: "try_join_all polls d snap ss wd = Some (Inl e, wd') \<Longrightarrow> \<not> structural e"
  by (induction polls arbitrary: ss wd) (auto dest: poll_round_err split: prod.splits sum.splits option.splits)

lemma ledger_usage_err: "ledger_usage sl = Inl e \<Longrightarrow> \<not> structural e"
  by (auto simp: ledger_usage_def split: sum.splits)

lemma set_usage_err: "set_usage err sl st = (e, st') \<Longrightarrow> \<not> structural err \<Longrightarrow> \<not> structural e"
  by (auto simp: set_usage_def dest: ledger_usage_err split: sum.splits)

lemma run_waves_err: "run_waves polls d snap ws st wd = Some (Inl e, st', wd') \<Longrightarrow> \<not> structural e"
proof (induction ws arbitrary: st wd)
  case (Cons w ws)
  then show ?case
    by (cases w)
      (auto simp: Let_def dest: ledger_usage_err try_join_all_err set_usage_err
        split: sum.splits option.splits prod.splits)
qed simp

lemma apply_outcome_err: "apply_outcome sl i def out st = Inl e \<Longrightarrow> \<not> structural e"
  by (auto simp: apply_outcome_def apply_plan_def apply_patches_def apply_verification_def and_then_def
      ensure_def lift_state_def dest: ledger_usage_err split: sum.splits option.splits if_splits)

lemma select_edges_err:
  assumes "select_edges g i kind passed left = Inl e" and "validate_edges g {} (wg_edges g) = Inr ()"
    and "kind_at g i = Some kind"
  shows "\<not> structural e"
proof -
  have "list_all (\<lambda>e. tr_condition e \<noteq> BudgetRemaining) (eligible_edges g i kind passed left)"
    if "kind = ParallelFanOut"
    using that validate_edges_ok [OF assms(2)] assms(3)
    by (fastforce simp: list_all_iff eligible_edges_def)
  with assms(1) show ?thesis by (auto simp: select_edges_def Let_def ensure_def split: if_splits)
qed

lemma select_edges_ok:
  assumes "select_edges g i kind passed left = Inr sel"
  shows "sel \<noteq> []" and "set sel \<subseteq> set (wg_edges g)"
proof -
  let ?el = "eligible_edges g i kind passed left"
  have "?el \<noteq> []" and sel: "sel = ?el \<or> sel = take 1 ?el"
    using assms by (auto simp: select_edges_def Let_def ensure_def split: if_splits)
  moreover have "set ?el \<subseteq> set (wg_edges g)" by (auto simp: eligible_edges_def)
  ultimately show "sel \<noteq> []" and "set sel \<subseteq> set (wg_edges g)" by (auto dest: in_set_takeD)
qed

lemma apply_one_frontier:
  assumes "apply_one g ((i, def), out) acc st sl = (Inr acc', st', sl')"
  shows "ap_frontier acc' \<noteq> [] \<and> set (ap_frontier acc') \<subseteq> set (ap_frontier acc) \<union> tr_to ` set (wg_edges g)"
proof -
  from assms obtain sel left where s: "select_edges g i (sd_kind def) (so_passed out) left = Inr sel"
    and f: "ap_frontier acc' = bs_extend (map tr_to sel) (ap_frontier acc)"
    by (auto simp: apply_one_def split: sum.splits prod.splits)
  have "set (ap_frontier acc') = tr_to ` set sel \<union> set (ap_frontier acc)" by (simp add: f)
  with select_edges_ok [OF s] show ?thesis by (metis Un_commute Un_mono empty_is_image empty_set image_mono order_refl set_empty2 Un_empty)
qed

lemma apply_all_frontier:
  "apply_all g xs acc st sl = (Inr ap, st', sl') \<Longrightarrow>
   (xs \<noteq> [] \<or> ap_frontier acc \<noteq> [] \<longrightarrow> ap_frontier ap \<noteq> []) \<and>
   set (ap_frontier ap) \<subseteq> set (ap_frontier acc) \<union> tr_to ` set (wg_edges g)"
proof (induction xs arbitrary: acc st sl)
  case (Cons x xs)
  obtain i def out where x: "x = ((i, def), out)" by (cases x) auto
  from Cons.prems obtain acc1 st1 sl1 where o: "apply_one g ((i, def), out) acc st sl = (Inr acc1, st1, sl1)"
    and r: "apply_all g xs acc1 st1 sl1 = (Inr ap, st', sl')"
    unfolding x by (auto split: sum.splits prod.splits)
  from Cons.IH [OF r] apply_one_frontier [OF o] show ?case by blast
qed simp

lemma apply_all_err:
  "apply_all g xs acc st sl = (Inl e, st', sl') \<Longrightarrow> validate_edges g {} (wg_edges g) = Inr () \<Longrightarrow>
   (\<And>i def out. ((i, def), out) \<in> set xs \<Longrightarrow> bt_get (wg_stages g) i = Some def) \<Longrightarrow> \<not> structural e"
proof (induction xs arbitrary: acc st sl)
  case (Cons x xs)
  obtain i def out where x: "x = ((i, def), out)" by (cases x) auto
  have "bt_get (wg_stages g) i = Some def" using Cons.prems(3) x by auto
  then have k: "kind_at g i = Some (sd_kind def)" by (simp add: kind_at_def)
  obtain y st1 sl1 where o: "apply_one g ((i, def), out) acc st sl = (y, st1, sl1)"
    by (cases "apply_one g ((i, def), out) acc st sl")
  show ?case
  proof (cases y)
    case (Inl e')
    then have "\<not> structural e'"
      using o select_edges_err [OF _ Cons.prems(2) k]
      by (auto simp: apply_one_def dest: apply_outcome_err ledger_usage_err set_usage_err split: sum.splits prod.splits)
    moreover have "e' = e" using Cons.prems(1) o x Inl by simp
    ultimately show ?thesis by simp
  next
    case (Inr acc1)
    with Cons.prems(1) o x have "apply_all g xs acc1 st1 sl1 = (Inl e, st', sl')" by simp
    with Cons.IH Cons.prems(2,3) show ?thesis by (meson list.set_intros(2))
  qed
qed simp

lemma classify_err: "classify g is b s = Inl e \<Longrightarrow> \<exists>i \<in> set is. bt_get (wg_stages g) i = None"
  by (induction g "is" b s rule: classify.induct) (auto split: option.splits if_splits)

lemma classify_batch_defs:
  assumes "classify g is [] None = Inr (FrontierWork batch s)"
  shows "\<And>i def. (i, def) \<in> set batch \<Longrightarrow> bt_get (wg_stages g) i = Some def"
  using classify_batch [OF assms] by auto

lemma run_batch_structural:
  assumes "run_batch polls g d batch x = Some (Halt (Inl e, st', wd'))"
    and "validate_edges g {} (wg_edges g) = Inr ()"
    and "\<And>i def. (i, def) \<in> set batch \<Longrightarrow> bt_get (wg_stages g) i = Some def"
  shows "\<not> structural e"
proof -
  have "\<not> structural e'" if "seal_round d ap tc seq st wd = Halt (Inl e', st'', wd'')" for ap tc seq st wd e' st'' wd''
    using that by (auto simp: seal_round_def Let_def dest: ledger_usage_err set_usage_err
        split: sum.splits option.splits prod.splits)
  moreover have "\<not> structural e'" if "apply_all g (zip batch outs) acc st sl = (Inl e', st'', sl')" for outs acc st sl e' st'' sl'
    using apply_all_err [OF that assms(2)] assms(3) by (meson set_zip_leftD)
  ultimately show ?thesis
    using assms(1)
    by (auto simp: run_batch_def Let_def dest: count_attempts_err run_waves_err
        split: sum.splits option.splits prod.splits)
qed

lemma run_batch_frontier:
  assumes "run_batch polls g d batch x = Some (Continue x')" and "batch \<noteq> []"
  shows "ex_frontier x' \<noteq> [] \<and> set (ex_frontier x') \<subseteq> tr_to ` set (wg_edges g)"
proof -
  from assms(1) obtain tc staged attempts outs st1 sl1 ap st2 sl2
    where len: "length outs = length batch"
    and a: "apply_all g (zip batch outs)
           \<lparr>ap_next = st1\<lparr>rs_attempts := staged\<rparr>, ap_frontier = [], ap_checkpoint = None, ap_patches = []\<rparr>
           st1 sl1 = (Inr ap, st2, sl2)"
    and f: "ex_frontier x' = ap_frontier ap"
    by (rule run_batch_continue)
  have "zip batch outs \<noteq> []" using len assms(2) by (cases batch; cases outs) auto
  with apply_all_frontier [OF a] f show ?thesis by simp
qed

lemma run_loop_structural:
  assumes "validate_graph roles tools g = Some (Inr ())"
    and "run_loop rounds polls g d x = Some (Inl e, st', wd')"
    and "ex_frontier x \<noteq> []" and "\<And>i. i \<in> set (ex_frontier x) \<Longrightarrow> bt_get (wg_stages g) i \<noteq> None"
  shows "\<not> structural e"
  using assms(2-)
proof (induction rounds arbitrary: x)
  case (Suc rounds)
  note edges = validate_graph_ok(3) [OF assms(1)]
  from Suc.prems obtain p where p: "run_frontier polls g d x = Some p" by (auto split: option.splits)
  obtain c where c: "classify g (ex_frontier x) [] None = Inr c"
    using classify_err [of g "ex_frontier x"] Suc.prems(3) by (cases "classify g (ex_frontier x) [] None") blast+
  show ?case
  proof (cases p)
    case (Halt h)
    then have h: "run_frontier polls g d x = Some (Halt (Inl e, st', wd'))" using Suc.prems p by simp
    consider (batch) batch where "classify g (ex_frontier x) [] None = Inr (FrontierWork batch None)"
        "run_batch polls g d batch x = Some (Halt (Inl e, st', wd'))"
      | (other) i where "e = SuccessWhileScheduled i \<or> e = SuccessUnverified"
      using h c by (auto simp: run_frontier_def split: classified.splits option.splits if_splits)
    then show ?thesis
    proof cases
      case batch
      from run_batch_structural [OF batch(2) edges classify_batch_defs [OF batch(1)]] show ?thesis .
    qed (auto simp: structural_def)
  next
    case (Continue x')
    then obtain batch where b: "classify g (ex_frontier x) [] None = Inr (FrontierWork batch None)"
      and r: "run_batch polls g d batch x = Some (Continue x')"
      using p by (auto simp: run_frontier_def split: sum.splits classified.splits option.splits if_splits)
    have "batch \<noteq> []" using classify_batch [OF b] Suc.prems(2) by auto
    note fr = run_batch_frontier [OF r this]
    have "bt_get (wg_stages g) i \<noteq> None" if "i \<in> set (ex_frontier x')" for i
      using fr that validate_edges_ok [OF edges] by blast
    moreover have "run_loop rounds polls g d x' = Some (Inl e, st', wd')" using Suc.prems p Continue by simp
    ultimately show ?thesis using Suc.IH fr by blast
  qed
qed simp

text \<open>A validated graph has no dead ends: a run started on it never selects a missing stage, never empties
  its frontier without a terminal stage, and never finds a budget transition at a fan-out.\<close>

theorem validated_graph_no_dead_end:
  assumes "validate_graph roles tools g = Some (Inr ())"
    and "execute rounds polls g d st wd = Some (Inl e, st', wd')"
  shows "e \<noteq> NoTerminalStage \<and> e \<noteq> BudgetTransitionAtFanOut \<and> (\<forall>i. e \<noteq> MissingStage i)"
  using assms(2)
proof (cases rule: execute_cases)
  case (merged u sl)
  from merged(3) [symmetric] show ?thesis
  proof (cases rule: run_workflow_cases)
    case (started tc)
    have "\<not> structural e"
      using run_loop_structural [OF assms(1) started(2) [symmetric]] validate_graph_ok(1) [OF assms(1)] by simp
    then show ?thesis by (simp add: structural_def)
  qed auto
qed auto

section \<open>A small run\<close>

definition gate_graph :: workflow_graph where
  "gate_graph =
     \<lparr>wg_entry = ''verify'',
      wg_stages =
        [(''done'', \<lparr>sd_kind = TerminalSuccess, sd_model_role = None, sd_tool = None,
                     sd_iteration_limit = None, sd_trusted = False\<rparr>),
         (''verify'', \<lparr>sd_kind = VerificationGate, sd_model_role = None, sd_tool = None,
                       sd_iteration_limit = Some 2, sd_trusted = True\<rparr>)],
      wg_edges = [\<lparr>tr_from = ''verify'', tr_to = ''done'', tr_condition = StagePassed, tr_priority = 0\<rparr>],
      wg_limits = \<lparr>maximum_transitions = 3, maximum_parallelism = 1, maximum_concurrency = None\<rparr>\<rparr>"

definition gate_report :: verification_report where
  "gate_report =
     \<lparr>vr_report_version = 1, vr_run_id = ''run'', vr_candidate_id = ''cand'', vr_environment_hash = ''e'',
      vr_source_tree_hash = ''s'',
      vr_checks = [\<lparr>vc_name = ''tests'', vc_command_hash = ''c'', vc_status = VPassed, vc_exit_code = Some 0,
                    vc_duration_ms = 5, vc_output = None\<rparr>],
      vr_passed = True, vr_policy_violations = [], vr_artifacts = [], vr_supervisor_attestation = Some ''sig''\<rparr>"

text \<open>A driver that answers on the second poll of each stage.\<close>

definition gate_driver :: "unit driver" where
  "gate_driver =
     \<lparr>dr_poll = (\<lambda>def i a snap n w sl.
        (if n = 0 then None
         else Some (Inr \<lparr>so_passed = True, so_output = JNull, so_plan = None, so_patches = [],
                         so_failures = [], so_verification = Some gate_report\<rparr>), (), [])),
      dr_checkpoint = (\<lambda>cp reason w sl.
        (Inr \<lparr>ar_hash = ''h'', ar_size_bytes = 1, ar_media_type = ''json''\<rparr>, (), []))\<rparr>"

definition gate_state :: run_state where
  "gate_state =
     \<lparr>rs_task_id = ''task'', rs_run_id = ''run'', rs_candidate_id = ''cand'',
      rs_repository = \<lparr>repository_snapshot_hash = ''r'', starting_commit = ''c'', source_tree_hash = ''t'',
                       worktree_root = ''/w'', submodule_commits = []\<rparr>,
      rs_current_stages = [], rs_attempts = [], rs_working_memory = [], rs_plan = None, rs_patches = [],
      rs_verification = [], rs_budget = budget_usage_default, rs_failure_evidence = []\<rparr>"

definition gate_world :: "unit world" where
  "gate_world = \<lparr>wd_driver = (), wd_ledger = ledger_run [] (shared_new sample_budgets)\<rparr>"

lemmas exec_eval = execute_def run_workflow_def run_frontier_def run_batch_def seal_round_def apply_one_def
  apply_outcome_def apply_plan_def apply_patches_def apply_verification_def select_edges_def eligible_edges_def
  condition_matches_def requires_checkpoint_def checkpoint_reason_def repair_count_def verified_success_def
  budget_state_sync_def set_usage_def ledger_usage_def shared_usage_def shared_remaining_def start_slot_def
  poll_slot_def poll_driver_def stage_reservation_new_def stage_reservation_commit_def call_budget_def
  effective_concurrency_def validate_supervisor_report_def checks_passed_def lift_state_def drop_all_def
  bs_extend_def insort_insert_key_def chunks.simps budget_eval

lemma gate_run:
  "\<exists>st' wd'. execute (Suc (Suc (Suc (Suc 0)))) (Suc (Suc 0)) gate_graph gate_driver gate_state gate_world = Some (Inr Succeeded, st', wd') \<and>
     rs_verification st' = [gate_report] \<and> rs_attempts st' = [(''verify'', 1)]"
  by (simp add: gate_graph_def gate_driver_def gate_state_def gate_world_def gate_report_def sample_budgets_def
      exec_eval)

lemma gate_facts:
  "rs_verification gate_state = []" "rs_attempts gate_state = []" "bt_wf (rs_attempts gate_state)"
  "rs_run_id gate_state = ''run''" "responsive 1 gate_driver"
  "unat (maximum_transitions (wg_limits gate_graph)) = 3"
  by (simp_all add: gate_state_def responsive_def gate_driver_def gate_graph_def)

definition gate_checkpoint :: checkpoint where
  "gate_checkpoint =
     \<lparr>cp_schema_version = 1, cp_run_id = ''run'', cp_candidate_id = ''cand'',
      cp_state = gate_state\<lparr>rs_attempts := [(''verify'', 1)], rs_verification := [gate_report]\<rparr>,
      cp_workspace_tree_hash = ''t'', cp_workflow_position = [''done''], cp_context_manifests = [],
      cp_response_artifacts = [], cp_created_at_sequence = 1\<rparr>"

theorem runs_end_witness:
  "(\<exists>h. execute 4 2 gate_graph gate_driver gate_state gate_world = Some h) \<and>
   (\<exists>h. resume (\<lambda>_. Inr ''h'') 4 2 gate_graph gate_driver gate_checkpoint gate_state gate_world = Some h)"
proof -
  have "bt_wf (rs_attempts (cp_state gate_checkpoint))" by (simp add: gate_checkpoint_def bt_wf_def)
  then show ?thesis
    using runs_end [OF gate_facts(5), of 2 gate_graph 4] gate_facts by simp
qed

definition failing_driver :: "unit driver" where
  "failing_driver =
     gate_driver\<lparr>dr_poll := (\<lambda>def i a snap n w sl. (Some (Inl ''boom''), (), [OpConsume InputTokens 2]))\<rparr>"

theorem failed_round_keeps_history_witness:
  "\<exists>st' wd'.
     run_frontier 1 gate_graph failing_driver
       \<lparr>ex_state = gate_state, ex_frontier = [''verify''], ex_transitions = 0, ex_sequence = 0, ex_world = gate_world\<rparr> =
     Some (Halt (Inl (ExDriver ''boom''), st', wd')) \<and>
     amount_in (consumed (rs_budget st')) InputTokens = 2 \<and>
     st'\<lparr>rs_budget := budget_usage_default, rs_current_stages := []\<rparr> =
       gate_state\<lparr>rs_budget := budget_usage_default, rs_current_stages := []\<rparr>"
proof -
  let ?x = "\<lparr>ex_state = gate_state, ex_frontier = [''verify''], ex_transitions = 0, ex_sequence = 0, ex_world = gate_world\<rparr>"
  have "\<exists>st' wd'. run_frontier 1 gate_graph failing_driver ?x = Some (Halt (Inl (ExDriver ''boom''), st', wd')) \<and>
      amount_in (consumed (rs_budget st')) InputTokens = 2"
    by (simp add: gate_graph_def failing_driver_def gate_driver_def gate_state_def gate_world_def
        sample_budgets_def exec_eval)
  then obtain st' wd' where h: "run_frontier 1 gate_graph failing_driver ?x =
      Some (Halt (Inl (ExDriver ''boom''), st', wd'))" and c: "amount_in (consumed (rs_budget st')) InputTokens = 2"
    by blast
  from h c failed_round_keeps_history [OF h, where b = budget_usage_default and cs = "[]"] show ?thesis by auto
qed

lemma gate_resume:
  "\<exists>st' wd'. resume (\<lambda>_. Inr ''h'') (Suc (Suc (Suc (Suc 0)))) (Suc (Suc 0)) gate_graph gate_driver gate_checkpoint
     gate_state gate_world = Some (Inr Succeeded, st', wd')"
  by (simp add: resume_def resume_checks_def checkpoint_canonical_hash_def gate_checkpoint_def gate_graph_def
      gate_driver_def gate_state_def gate_world_def gate_report_def sample_budgets_def exec_eval)

lemma gate_resumed:
  "\<exists>st' wd'. run_ended (\<lambda>_. Inr ''h'') 4 2 gate_graph gate_driver (cp_state gate_checkpoint) gate_state gate_world
     (Inr Succeeded, st', wd')"
proof -
  from gate_resume obtain st' wd'
    where "resume (\<lambda>_. Inr ''h'') 4 2 gate_graph gate_driver gate_checkpoint gate_state gate_world =
       Some (Inr Succeeded, st', wd')"
    by (auto simp: numeral_eq_Suc)
  then show ?thesis unfolding run_ended_def by blast
qed

lemma gate_checkpoint_facts:
  "bt_wf (rs_attempts (cp_state gate_checkpoint))"
  "rs_verification (cp_state gate_checkpoint) = [gate_report]" "vr_run_id gate_report = ''run''"
  "sum_list (map unat (bt_values (rs_attempts (cp_state gate_checkpoint)))) = 1"
  by (simp_all add: gate_checkpoint_def gate_state_def gate_report_def bt_wf_def)

theorem success_means_verified_witness:
  "\<exists>st' wd'. run_ended (\<lambda>_. Inr ''h'') 4 2 gate_graph gate_driver (cp_state gate_checkpoint) gate_state gate_world
       (Inr Succeeded, st', wd') \<and>
     vr_run_id (last (rs_verification st')) = ''run'' \<and> vr_passed (last (rs_verification st'))"
proof -
  from gate_resumed obtain st' wd' where r: "run_ended (\<lambda>_. Inr ''h'') 4 2 gate_graph gate_driver
      (cp_state gate_checkpoint) gate_state gate_world (Inr Succeeded, st', wd')" by blast
  with success_means_verified [OF r gate_checkpoint_facts(1)] gate_checkpoint_facts(2,3) gate_facts(4)
  show ?thesis by auto
qed

theorem run_within_limits_witness:
  "\<exists>st' wd'. run_ended (\<lambda>_. Inr ''h'') 4 2 gate_graph gate_driver (cp_state gate_checkpoint) gate_state gate_world
       (Inr Succeeded, st', wd') \<and>
     1 \<le> sum_list (map unat (bt_values (rs_attempts st'))) \<and> sum_list (map unat (bt_values (rs_attempts st'))) \<le> 3"
proof -
  from gate_resumed obtain st' wd' where r: "run_ended (\<lambda>_. Inr ''h'') 4 2 gate_graph gate_driver
      (cp_state gate_checkpoint) gate_state gate_world (Inr Succeeded, st', wd')" by blast
  with run_within_limits [OF r [unfolded gate_world_def] gate_checkpoint_facts(1)] gate_checkpoint_facts(4) gate_facts(6)
  show ?thesis by auto
qed

theorem resume_binds_run_witness:
  "\<exists>st' wd'. resume (\<lambda>_. Inr ''h'') 4 2 gate_graph gate_driver gate_checkpoint gate_state gate_world =
       Some (Inr Succeeded, st', wd') \<and> rs_run_id st' = ''run'' \<and>
     1 \<le> sum_list (map unat (bt_values (rs_attempts st')))"
proof -
  from gate_resume obtain st' wd'
    where r: "resume (\<lambda>_. Inr ''h'') 4 2 gate_graph gate_driver gate_checkpoint gate_state gate_world =
       Some (Inr Succeeded, st', wd')"
    by (auto simp: numeral_eq_Suc)
  have "bt_wf (rs_attempts (cp_state gate_checkpoint))" "bt_wf (consumed (rs_budget gate_state))"
    "bt_wf (consumed (rs_budget (cp_state gate_checkpoint)))"
    "sum_list (map unat (bt_values (rs_attempts (cp_state gate_checkpoint)))) = 1"
    by (simp_all add: gate_checkpoint_def gate_state_def bt_wf_def budget_usage_default_def)
  with r resume_binds_run [OF r [unfolded gate_world_def]] gate_facts(4) show ?thesis by auto
qed

text \<open>
  The report that a success rests on is not compared with the run when it was carried in: a checkpoint
  whose only report is another run's verdict resumes to success without a gate being run.
\<close>

theorem carried_report_of_another_run:
  "\<exists>st' wd'. resume (\<lambda>_. Inr ''h'') (Suc (Suc (Suc (Suc 0)))) (Suc (Suc 0)) gate_graph gate_driver
     (gate_checkpoint\<lparr>cp_state := (cp_state gate_checkpoint)\<lparr>rs_verification := [gate_report\<lparr>vr_run_id := ''other''\<rparr>]\<rparr>\<rparr>)
     gate_state gate_world = Some (Inr Succeeded, st', wd') \<and>
     rs_run_id st' = ''run'' \<and> map vr_run_id (rs_verification st') = [''other'']"
  by (simp add: resume_def resume_checks_def checkpoint_canonical_hash_def gate_checkpoint_def gate_graph_def
      gate_driver_def gate_state_def gate_world_def gate_report_def sample_budgets_def exec_eval)

lemma failing_run:
  "\<exists>st' wd'. execute (Suc 0) (Suc 0) gate_graph failing_driver gate_state gate_world =
     Some (Inl (ExDriver ''boom''), st', wd')"
  by (simp add: gate_graph_def failing_driver_def gate_driver_def gate_state_def gate_world_def
      sample_budgets_def exec_eval)

theorem validated_graph_no_dead_end_witness:
  "validate_graph {} {} gate_graph = Some (Inr ()) \<and>
   (\<exists>e st' wd'. execute 1 1 gate_graph failing_driver gate_state gate_world = Some (Inl e, st', wd') \<and>
      e \<noteq> NoTerminalStage)"
proof -
  have v: "validate_graph {} {} gate_graph = Some (Inr ())" by code_simp
  from failing_run obtain st' wd'
    where e: "execute 1 1 gate_graph failing_driver gate_state gate_world = Some (Inl (ExDriver ''boom''), st', wd')"
    by auto
  with v validated_graph_no_dead_end [OF v e] show ?thesis by auto
qed

end
