(* ===== verification/Workspace_Model.thy ===== *)
theory Workspace_Model
  imports Ordered_Map
begin

text \<open>
  The contract types of \<open>crates/hi-workspace/src/model.rs\<close>: authorities, versions, bindings and their
  capabilities, workspace states, mutation intents and permits, settlement, jobs and their life cycle,
  barriers and recovery records. The constructors carry a prefix per enum where the source's enums
  share names. Fresh UUIDs and the clock are arguments of the functions that use them.
\<close>

section \<open>Identifiers and versions\<close>

type_synonym controller_id = string
type_synonym binding_id = string
type_synonym workspace_id = string
type_synonym operation_id = string
type_synonym idempotency_key = string
type_synonym job_id = string
type_synonym recovery_id = string
type_synonym path_buf = string

definition WORKSPACE_CONTRACT_SCHEMA_VERSION :: u16 where
  "WORKSPACE_CONTRACT_SCHEMA_VERSION = 1"

datatype workspace_authority = AuthLocal | AuthPipeFs string u16

datatype workspace_version =
  VersionUnknown
| VersionLocal u64 "string option"
| VersionPipeFs u64 "string option" "string option" "u64 option"

definition next_local :: "workspace_version \<Rightarrow> string option \<Rightarrow> workspace_version" where
  "next_local v digest =
     VersionLocal (case v of VersionLocal generation _ \<Rightarrow> saturating_add generation 1 | _ \<Rightarrow> 1) digest"

definition advance_after_settlement :: "workspace_version \<Rightarrow> string option \<Rightarrow> workspace_version" where
  "advance_after_settlement v digest =
     (case v of
        VersionPipeFs lease head manifest cursor \<Rightarrow>
          VersionPipeFs lease head (case digest of None \<Rightarrow> manifest | Some d \<Rightarrow> Some d) cursor
      | _ \<Rightarrow> next_local v digest)"

record workspace_binding =
  wb_schema_version :: u16
  wb_controller_id :: controller_id
  wb_binding_id :: binding_id
  wb_workspace_id :: workspace_id
  wb_epoch :: u64
  wb_workspace_root :: path_buf
  wb_state_root :: path_buf
  wb_authority :: workspace_authority
  wb_version :: workspace_version

definition new_local ::
  "binding_id \<Rightarrow> controller_id \<Rightarrow> workspace_id \<Rightarrow> path_buf \<Rightarrow> path_buf \<Rightarrow> workspace_binding" where
  "new_local uuid controller workspace root state =
     \<lparr>wb_schema_version = WORKSPACE_CONTRACT_SCHEMA_VERSION, wb_controller_id = controller,
      wb_binding_id = uuid, wb_workspace_id = workspace, wb_epoch = 0, wb_workspace_root = root,
      wb_state_root = state, wb_authority = AuthLocal, wb_version = VersionLocal 0 None\<rparr>"

definition new_pipefs ::
  "binding_id \<Rightarrow> controller_id \<Rightarrow> workspace_id \<Rightarrow> string \<Rightarrow> u16 \<Rightarrow> path_buf \<Rightarrow> path_buf \<Rightarrow> workspace_binding" where
  "new_pipefs uuid controller workspace session protocol root state =
     \<lparr>wb_schema_version = WORKSPACE_CONTRACT_SCHEMA_VERSION, wb_controller_id = controller,
      wb_binding_id = uuid, wb_workspace_id = workspace, wb_epoch = 0, wb_workspace_root = root,
      wb_state_root = state, wb_authority = AuthPipeFs session protocol,
      wb_version = VersionPipeFs 0 None None None\<rparr>"

datatype crash_recovery_capability =
  RecoverNone | RecoverLocalJournal | RecoverRemoteWorkspace | RecoverCausalWorkspaceAndTranscript

record workspace_capabilities =
  crash_recovery :: crash_recovery_capability
  candidate_apply :: bool
  background_writers :: bool
  causal_commit :: bool
  project_hooks :: bool
  repository_mcp_imports :: bool
  keep_background :: bool
  import_export :: bool

definition capabilities_in_memory :: workspace_capabilities where
  "capabilities_in_memory =
     \<lparr>crash_recovery = RecoverNone, candidate_apply = True, background_writers = True,
      causal_commit = False, project_hooks = False, repository_mcp_imports = False,
      keep_background = False, import_export = False\<rparr>"

definition capabilities_local :: workspace_capabilities where
  "capabilities_local =
     \<lparr>crash_recovery = RecoverLocalJournal, candidate_apply = True, background_writers = True,
      causal_commit = False, project_hooks = True, repository_mcp_imports = True,
      keep_background = True, import_export = False\<rparr>"

definition capabilities_pipefs :: "bool \<Rightarrow> workspace_capabilities" where
  "capabilities_pipefs causal =
     \<lparr>crash_recovery = (if causal then RecoverCausalWorkspaceAndTranscript else RecoverRemoteWorkspace),
      candidate_apply = True, background_writers = False, causal_commit = causal,
      project_hooks = False, repository_mcp_imports = False, keep_background = False,
      import_export = True\<rparr>"

section \<open>Workspace state and status\<close>

datatype workspace_state =
  WS_Ready | WS_Mutating | WS_Settling | WS_PendingRemote | WS_LeaseUncertain | WS_LeaseLost | WS_Conflict
| WS_TranscriptPending | WS_CleanupPending | WS_RecoveryRequired | WS_JournalCorrupt | WS_Incompatible
| WS_LocalAuditDegraded

definition admits_mutation :: "workspace_state \<Rightarrow> bool" where
  "admits_mutation s \<longleftrightarrow> s = WS_Ready"

fun workspace_state_debug :: "workspace_state \<Rightarrow> string" where
  "workspace_state_debug WS_Ready = ''Ready''"
| "workspace_state_debug WS_Mutating = ''Mutating''"
| "workspace_state_debug WS_Settling = ''Settling''"
| "workspace_state_debug WS_PendingRemote = ''PendingRemote''"
| "workspace_state_debug WS_LeaseUncertain = ''LeaseUncertain''"
| "workspace_state_debug WS_LeaseLost = ''LeaseLost''"
| "workspace_state_debug WS_Conflict = ''Conflict''"
| "workspace_state_debug WS_TranscriptPending = ''TranscriptPending''"
| "workspace_state_debug WS_CleanupPending = ''CleanupPending''"
| "workspace_state_debug WS_RecoveryRequired = ''RecoveryRequired''"
| "workspace_state_debug WS_JournalCorrupt = ''JournalCorrupt''"
| "workspace_state_debug WS_Incompatible = ''Incompatible''"
| "workspace_state_debug WS_LocalAuditDegraded = ''LocalAuditDegraded''"

record workspace_status =
  wst_schema_version :: u16
  wst_controller_id :: controller_id
  wst_binding_id :: binding_id
  wst_epoch :: u64
  wst_state :: workspace_state
  wst_sequence :: u64
  wst_active_operation :: "operation_id option"
  wst_active_jobs :: "job_id list"
  wst_recovery_id :: "recovery_id option"
  wst_detail :: "string option"

definition status_ready :: "workspace_binding \<Rightarrow> workspace_status" where
  "status_ready b =
     \<lparr>wst_schema_version = WORKSPACE_CONTRACT_SCHEMA_VERSION, wst_controller_id = wb_controller_id b,
      wst_binding_id = wb_binding_id b, wst_epoch = wb_epoch b, wst_state = WS_Ready, wst_sequence = 0,
      wst_active_operation = None, wst_active_jobs = [], wst_recovery_id = None, wst_detail = None\<rparr>"

text \<open>\<open>Vec<String>::join\<close>.\<close>

fun join_with :: "string \<Rightarrow> string list \<Rightarrow> string" where
  "join_with sep [] = []"
| "join_with sep [x] = x"
| "join_with sep (x # y # xs) = x @ sep @ join_with sep (y # xs)"

definition admission_block_detail :: "workspace_status \<Rightarrow> string \<Rightarrow> string" where
  "admission_block_detail st summary =
     (let evidence = join_with '', ''
        ([''state='' @ workspace_state_debug (wst_state st)] @
         (case wst_recovery_id st of None \<Rightarrow> [] | Some r \<Rightarrow> [''recovery_id='' @ r]) @
         (case wst_active_operation st of None \<Rightarrow> [] | Some i \<Rightarrow> [''active_operation='' @ i]) @
         (if wst_active_jobs st = [] then [] else [''active_jobs='' @ join_with '','' (wst_active_jobs st)]))
      in case wst_detail st of
           Some (c # cs) \<Rightarrow> summary @ '' ('' @ evidence @ ''): '' @ (c # cs)
         | _ \<Rightarrow> summary @ '' ('' @ evidence @ '')'')"

section \<open>Mutations and settlement\<close>

datatype effect_scope = ReadOnly | CandidateOnly | LiveWriter

datatype replay_class = PureWorkspace | IdempotentExternal idempotency_key | NonReplayableExternal

definition operation_idempotency_key :: "idempotency_key \<Rightarrow> replay_class \<Rightarrow> idempotency_key" where
  "operation_idempotency_key uuid rc = (case rc of IdempotentExternal key \<Rightarrow> key | _ \<Rightarrow> uuid)"

record mutation_intent =
  mi_effect_scope :: effect_scope
  mi_replay_class :: replay_class
  mi_dirty_paths :: "path_buf list option"
  mi_description :: "string option"

definition intent_workspace :: "string \<Rightarrow> mutation_intent" where
  "intent_workspace description =
     \<lparr>mi_effect_scope = LiveWriter, mi_replay_class = PureWorkspace, mi_dirty_paths = None,
      mi_description = Some description\<rparr>"

definition intent_reconciliation :: mutation_intent where
  "intent_reconciliation =
     \<lparr>mi_effect_scope = ReadOnly, mi_replay_class = PureWorkspace, mi_dirty_paths = None,
      mi_description = Some ''workspace reconciliation''\<rparr>"

definition is_reconciliation :: "mutation_intent \<Rightarrow> bool" where
  "is_reconciliation i \<longleftrightarrow>
     mi_effect_scope i = ReadOnly \<and> mi_replay_class i = PureWorkspace \<and> mi_dirty_paths i = None \<and>
     mi_description i = Some ''workspace reconciliation''"

record mutation_permit_record =
  mp_schema_version :: u16
  mp_controller_id :: controller_id
  mp_operation_id :: operation_id
  mp_idempotency_key :: idempotency_key
  mp_binding_id :: binding_id
  mp_epoch :: u64
  mp_base_version :: workspace_version
  mp_intent :: mutation_intent
  mp_issued_at_ms :: u64

datatype execution_disposition = ED_Succeeded | ED_Failed | ED_Cancelled | ED_Indeterminate

record workspace_artifact =
  wa_uri :: string
  wa_digest :: "string option"
  wa_size_bytes :: "u64 option"

record execution_report =
  er_disposition :: execution_disposition
  er_workspace_may_have_changed :: bool
  er_external_effect_may_have_occurred :: bool
  er_content_digest :: "string option"
  er_changed_paths :: "path_buf list"
  er_artifacts :: "workspace_artifact list"
  er_detail :: "string option"

definition report_succeeded :: "string option \<Rightarrow> execution_report" where
  "report_succeeded digest =
     \<lparr>er_disposition = ED_Succeeded, er_workspace_may_have_changed = (digest \<noteq> None),
      er_external_effect_may_have_occurred = False, er_content_digest = digest,
      er_changed_paths = [], er_artifacts = [], er_detail = None\<rparr>"

datatype settlement_status =
  SS_Durable | SS_NoChange | SS_Pending | SS_Indeterminate | SS_LeaseLost | SS_Conflict
| SS_TranscriptPending | SS_RecoveryRequired | SS_LocalAuditDegraded | SS_Incompatible

record settlement_receipt =
  sr_receipt_id :: string
  sr_operation_id :: operation_id
  sr_binding_id :: binding_id
  sr_epoch :: u64
  sr_version :: workspace_version
  sr_transcript_cursor :: "u64 option"

record settlement_outcome =
  sto_status :: settlement_status
  sto_operation_id :: operation_id
  sto_receipt :: "settlement_receipt option"
  sto_recovery_id :: "recovery_id option"
  sto_detail :: "string option"

datatype admission_denied_reason =
  AD_NotReady | AD_ActiveMutation | AD_ActiveWriter | AD_StaleBinding | AD_Incompatible | AD_CapabilityUnavailable

record admission_denied =
  ad_reason :: admission_denied_reason
  ad_state :: workspace_state
  ad_detail :: string

section \<open>Jobs\<close>

datatype job_kind = JK_Process | JK_ReadAgent | JK_WriteCandidate | JK_Hook | JK_Compaction

record job_limits =
  jl_queue_ms :: "u64 option"
  jl_execution_ms :: "u64 option"
  jl_verification_ms :: "u64 option"
  jl_output_bytes :: "u64 option"

record job_spec =
  js_kind :: job_kind
  js_effect_scope :: effect_scope
  js_name :: string
  js_limits :: job_limits
  js_parent_operation :: "operation_id option"

datatype job_state =
  JS_Queued | JS_Starting | JS_Running | JS_ReadyToMerge | JS_Merging | JS_Settling | JS_CancelRequested
| JS_Succeeded | JS_Failed | JS_Cancelled | JS_DurabilityPending | JS_RecoveryRequired | JS_Orphaned | JS_Stale

definition is_terminal :: "job_state \<Rightarrow> bool" where
  "is_terminal s \<longleftrightarrow> s \<in> {JS_Succeeded, JS_Failed, JS_Cancelled, JS_Orphaned, JS_Stale}"

fun can_transition_to :: "job_state \<Rightarrow> job_state \<Rightarrow> bool" where
  "can_transition_to JS_Queued n = (n \<in> {JS_Starting, JS_Cancelled, JS_Failed, JS_Orphaned})"
| "can_transition_to JS_Starting n =
     (n \<in> {JS_Running, JS_CancelRequested, JS_Cancelled, JS_Failed, JS_Orphaned})"
| "can_transition_to JS_Running n =
     (n \<in> {JS_ReadyToMerge, JS_Settling, JS_CancelRequested, JS_Succeeded, JS_Failed, JS_Cancelled,
           JS_DurabilityPending, JS_RecoveryRequired, JS_Orphaned})"
| "can_transition_to JS_ReadyToMerge n = (n \<in> {JS_Merging, JS_Cancelled, JS_Failed, JS_Stale})"
| "can_transition_to JS_Merging n = (n \<in> {JS_Settling, JS_Failed, JS_RecoveryRequired, JS_Stale})"
| "can_transition_to JS_Settling n =
     (n \<in> {JS_Succeeded, JS_Failed, JS_Cancelled, JS_DurabilityPending, JS_RecoveryRequired})"
| "can_transition_to JS_CancelRequested n =
     (n \<in> {JS_Settling, JS_Cancelled, JS_Failed, JS_DurabilityPending, JS_RecoveryRequired, JS_Orphaned})"
| "can_transition_to JS_DurabilityPending n =
     (n \<in> {JS_Settling, JS_Succeeded, JS_Failed, JS_RecoveryRequired})"
| "can_transition_to JS_RecoveryRequired n =
     (n \<in> {JS_Settling, JS_Succeeded, JS_Failed, JS_Cancelled, JS_Stale})"
| "can_transition_to _ n = False"

record job_permit =
  jp_schema_version :: u16
  jp_controller_id :: controller_id
  jp_job_id :: job_id
  jp_binding_id :: binding_id
  jp_epoch :: u64
  jp_spec :: job_spec
  jp_issued_at_ms :: u64

datatype job_completion =
  JC_Succeeded | JC_ReadyToMerge | JC_Merging | JC_Settling | JC_Failed | JC_Cancelled | JC_DurabilityPending
| JC_RecoveryRequired | JC_Orphaned | JC_Stale

record job_terminal =
  jt_completion :: job_completion
  jt_detail :: "string option"
  jt_artifacts :: "workspace_artifact list"

datatype job_seal_status = Sealed | AlreadySealed | SealRejected | SealNotFound

record job_seal_outcome =
  jso_job_id :: job_id
  jso_status :: job_seal_status
  jso_state :: "job_state option"
  jso_recovery_id :: "recovery_id option"
  jso_detail :: "string option"

datatype barrier_kind = BK_Rebind | BK_ModeSwitch | BK_Exit | BK_Checkpoint | BK_Publish

datatype barrier_status = BS_Passed | BS_Blocked | BS_TimedOut | BS_RecoveryRequired

record barrier_receipt =
  bar_kind :: barrier_kind
  bar_status :: barrier_status
  bar_binding_id :: binding_id
  bar_epoch :: u64
  bar_active_operation :: "operation_id option"
  bar_pending_jobs :: "job_id list"
  bar_recovery_id :: "recovery_id option"
  bar_detail :: "string option"

datatype recovery_kind =
  RK_AbandonedMutation | RK_UnsettledMutation | RK_CrashedWriterJob | RK_LeaseLost | RK_Conflict
| RK_InterruptedRestore | RK_TranscriptPending | RK_CleanupPending | RK_JournalFailure | RK_IncompatibleState

record recovery_record =
  rr_schema_version :: u16
  rr_recovery_id :: recovery_id
  rr_kind :: recovery_kind
  rr_binding_id :: binding_id
  rr_epoch :: u64
  rr_operation_id :: "operation_id option"
  rr_job_id :: "job_id option"
  rr_detail :: string
  rr_created_at_ms :: u64
  rr_resolved :: bool

datatype recovery_status = RC_Recovered | RC_Pending | RC_Conflict | RC_NotFound | RC_Rejected

record recovery_outcome =
  ro_recovery_id :: recovery_id
  ro_status :: recovery_status
  ro_binding :: workspace_binding
  ro_detail :: "string option"

section \<open>The job life cycle\<close>

lemma terminal_has_no_successor: "is_terminal s \<Longrightarrow> \<not> can_transition_to s n"
  by (cases s) (auto simp: is_terminal_def)

lemma can_transition_changes: "can_transition_to s n \<Longrightarrow> n \<noteq> s \<and> n \<noteq> JS_Queued"
  by (cases s) auto

lemma only_starting_runs: "can_transition_to s JS_Running \<longleftrightarrow> s = JS_Starting"
  by (cases s) auto

lemma only_queued_starts: "can_transition_to s JS_Starting \<longleftrightarrow> s = JS_Queued"
  by (cases s) auto

lemma reconciliation_intent [simp]: "is_reconciliation intent_reconciliation"
  by (simp add: is_reconciliation_def intent_reconciliation_def)

lemma advance_keeps_variant:
  "case (v, advance_after_settlement v digest) of
     (VersionPipeFs l h m c, VersionPipeFs l' h' m' c') \<Rightarrow> l' = l \<and> h' = h \<and> c' = c
   | (VersionPipeFs _ _ _ _, _) \<Rightarrow> False
   | (_, VersionLocal _ d) \<Rightarrow> d = digest
   | _ \<Rightarrow> False"
  by (cases v) (simp_all add: advance_after_settlement_def next_local_def)

end
