(* ===== verification/Job_Registry.thy ===== *)
theory Job_Registry
  imports Workspace_Model Step_System
begin

text \<open>
  The job registry every workspace controller shares: \<open>job_registry.rs\<close> with its parts
  \<open>job_registry_admission.rs\<close>, \<open>job_registry_transition.rs\<close>, \<open>job_registry_recovery.rs\<close> and \<open>job_output.rs\<close>
  in \<open>crates/hi-workspace/src\<close>. The registry is a mutex-protected map of job snapshots, so its
  histories are sequences of its operations. The clock and the fresh UUID of a registration are
  arguments; \<open>rid_of\<close> stands for the UUIDv5 that \<open>recovery_id_for\<close> derives from a permit.
\<close>

section \<open>Data\<close>

datatype job_output_stream = Stdout | Stderr | System

record job_output_chunk =
  oc_sequence :: u64
  oc_stream :: job_output_stream
  oc_text :: string

record job_registry_limits =
  max_preparations :: usize
  max_active_jobs :: usize

record job_fence =
  jf_controller_id :: controller_id
  jf_binding_id :: binding_id
  jf_epoch :: u64

record workspace_job_snapshot =
  wj_permit :: job_permit
  wj_state :: job_state
  wj_revision :: u64
  wj_registered_at_ms :: u64
  wj_updated_at_ms :: u64
  wj_finalized_at_ms :: "u64 option"
  wj_terminal :: "job_terminal option"
  wj_recovery_id :: "recovery_id option"
  wj_detail :: "string option"
  wj_artifacts :: "workspace_artifact list"
  wj_output :: "job_output_chunk list"
  wj_output_truncated :: bool
  wj_output_bytes :: usize
  wj_next_output_sequence :: u64

record workspace_jobs_snapshot =
  wjs_controller_id :: controller_id
  wjs_binding_id :: binding_id
  wjs_epoch :: u64
  wjs_sequence :: u64
  wjs_limits :: job_registry_limits
  wjs_jobs :: "workspace_job_snapshot list"

record job_restart_report =
  jrr_recovery_required :: "job_id list"
  jrr_orphaned :: "job_id list"
  jrr_stale :: "job_id list"

datatype job_wait_condition = RevisionAfter u64 | WaitActionable | WaitTerminal

datatype job_registry_error =
  InvalidLimits
| StaleFence
| JobNotFound job_id
| AlreadyTerminal job_id job_state
| UnexpectedState job_id job_state job_state
| InvalidTransition job_id job_state job_state
| ActiveLimitReached usize
| PreparationLimitReached usize
| ActiveLiveWriter
| WaitTimedOut
| RecoveryNotFound recovery_id
| UnsupportedJobSchema job_id u16
| DuplicateJob job_id

record job_registry =
  jr_binding :: workspace_binding
  jr_limits :: job_registry_limits
  jr_sequence :: u64
  jr_jobs :: "(job_id, workspace_job_snapshot) btree_map"

section \<open>Admission and transition rules\<close>

definition is_candidate :: "job_spec \<Rightarrow> bool" where
  "is_candidate spec \<longleftrightarrow> js_kind spec = JK_WriteCandidate \<or> js_effect_scope spec = CandidateOnly"

definition is_write_job :: "job_spec \<Rightarrow> bool" where
  "is_write_job spec \<longleftrightarrow> is_candidate spec \<or> js_effect_scope spec = LiveWriter"

definition is_preparation :: "job_spec \<Rightarrow> bool" where
  "is_preparation spec \<longleftrightarrow> is_candidate spec"

definition is_local_live_process :: "workspace_binding \<Rightarrow> job_spec \<Rightarrow> bool" where
  "is_local_live_process b spec \<longleftrightarrow>
     wb_authority b = AuthLocal \<and> js_kind spec = JK_Process \<and> js_effect_scope spec = LiveWriter"

definition live_writers_conflict :: "workspace_binding \<Rightarrow> job_spec \<Rightarrow> job_spec \<Rightarrow> bool" where
  "live_writers_conflict b incoming existing \<longleftrightarrow>
     js_effect_scope existing = LiveWriter \<and>
     \<not> (is_local_live_process b incoming \<and> is_local_live_process b existing)"

definition transition_allowed :: "workspace_job_snapshot \<Rightarrow> job_state \<Rightarrow> bool" where
  "transition_allowed job next =
     (if \<not> can_transition_to (wj_state job) next then False
      else if is_candidate (jp_spec (wj_permit job)) then
        (if wj_state job = JS_Running \<and> next = JS_Succeeded then False
         else if next = JS_Succeeded \<and> wj_state job \<noteq> JS_Settling then False
         else True)
      else if js_effect_scope (jp_spec (wj_permit job)) = LiveWriter \<and> next = JS_Succeeded \<and>
              wj_state job \<noteq> JS_Settling then False
      else True)"

fun completion_state :: "job_completion \<Rightarrow> job_state" where
  "completion_state JC_Succeeded = JS_Succeeded"
| "completion_state JC_ReadyToMerge = JS_ReadyToMerge"
| "completion_state JC_Merging = JS_Merging"
| "completion_state JC_Settling = JS_Settling"
| "completion_state JC_Failed = JS_Failed"
| "completion_state JC_Cancelled = JS_Cancelled"
| "completion_state JC_DurabilityPending = JS_DurabilityPending"
| "completion_state JC_RecoveryRequired = JS_RecoveryRequired"
| "completion_state JC_Orphaned = JS_Orphaned"
| "completion_state JC_Stale = JS_Stale"

definition fence_of_binding :: "workspace_binding \<Rightarrow> job_fence" where
  "fence_of_binding b =
     \<lparr>jf_controller_id = wb_controller_id b, jf_binding_id = wb_binding_id b, jf_epoch = wb_epoch b\<rparr>"

definition matches_binding :: "job_fence \<Rightarrow> workspace_binding \<Rightarrow> bool" where
  "matches_binding f b \<longleftrightarrow>
     jf_controller_id f = wb_controller_id b \<and> jf_binding_id f = wb_binding_id b \<and> jf_epoch f = wb_epoch b"

definition matches_permit :: "job_fence \<Rightarrow> job_permit \<Rightarrow> bool" where
  "matches_permit f p \<longleftrightarrow>
     jf_controller_id f = jp_controller_id p \<and> jf_binding_id f = jp_binding_id p \<and> jf_epoch f = jp_epoch p"

definition is_actionable :: "workspace_job_snapshot \<Rightarrow> bool" where
  "is_actionable job \<longleftrightarrow>
     is_terminal (wj_state job) \<or> wj_state job \<in> {JS_ReadyToMerge, JS_DurabilityPending, JS_RecoveryRequired}"

definition ensure_fence :: "job_registry \<Rightarrow> job_fence \<Rightarrow> (job_registry_error, unit) result" where
  "ensure_fence r f = (if matches_binding f (jr_binding r) then Inr () else Inl StaleFence)"

definition ensure_job_fence :: "workspace_job_snapshot \<Rightarrow> job_fence \<Rightarrow> (job_registry_error, unit) result" where
  "ensure_job_fence job f = (if matches_permit f (wj_permit job) then Inr () else Inl StaleFence)"

definition active_count :: "(job_id, workspace_job_snapshot) btree_map \<Rightarrow> nat" where
  "active_count jobs = length (filter (\<lambda>job. \<not> is_terminal (wj_state job)) (bt_values jobs))"

definition preparation_count :: "(job_id, workspace_job_snapshot) btree_map \<Rightarrow> nat" where
  "preparation_count jobs =
     length (filter (\<lambda>job. is_preparation (jp_spec (wj_permit job)) \<and> wj_state job \<in> {JS_Starting, JS_Running})
       (bt_values jobs))"

definition publish :: "job_registry \<Rightarrow> job_registry" where
  "publish r = r\<lparr>jr_sequence := saturating_add (jr_sequence r) 1\<rparr>"

text \<open>Replacing the snapshot of a job, followed by \<open>publish\<close>.\<close>

definition put_job :: "job_id \<Rightarrow> workspace_job_snapshot \<Rightarrow> job_registry \<Rightarrow> job_registry" where
  "put_job i job r = publish (r\<lparr>jr_jobs := bt_insert i job (jr_jobs r)\<rparr>)"

section \<open>Bounded output\<close>

definition DEFAULT_OUTPUT_BYTES :: usize where
  "DEFAULT_OUTPUT_BYTES = 256 * 1024"

text \<open>A byte starts a character unless its two high bits are \<open>10\<close>.\<close>

definition utf8_continuation :: "char \<Rightarrow> bool" where
  "utf8_continuation c \<longleftrightarrow> (128::nat) \<le> of_char c \<and> of_char c < (192::nat)"

definition utf8_suffix :: "string \<Rightarrow> usize \<Rightarrow> string" where
  "utf8_suffix s limit =
     (if length s \<le> unat limit then s
      else dropWhile utf8_continuation (drop (length s - unat limit) s))"

fun drop_chunks :: "usize \<Rightarrow> usize \<Rightarrow> bool \<Rightarrow> job_output_chunk list \<Rightarrow> usize \<times> bool \<times> job_output_chunk list" where
  "drop_chunks limit n trunc (c # d # cs) =
     (if limit < n then drop_chunks limit (saturating_sub n (of_nat (length (oc_text c)))) True (d # cs)
      else (n, trunc, c # d # cs))"
| "drop_chunks limit n trunc cs = (n, trunc, cs)"

text \<open>
  The empty case of the second step is an \<open>expect\<close> in the source; it is unreachable while the byte
  counter is the sum of the chunk lengths (\<open>append_output_bounded\<close> below keeps it so).
\<close>

definition truncate_output :: "usize \<Rightarrow> workspace_job_snapshot \<Rightarrow> workspace_job_snapshot" where
  "truncate_output limit job =
     (case drop_chunks limit (wj_output_bytes job) (wj_output_truncated job) (wj_output job) of
        (n, trunc, cs) \<Rightarrow>
          if limit < n then
            (case cs of
               [] \<Rightarrow> job
             | c # rest \<Rightarrow>
                 let t = utf8_suffix (oc_text c) limit
                 in job\<lparr>wj_output := c\<lparr>oc_text := t\<rparr> # rest, wj_output_bytes := of_nat (length t),
                        wj_output_truncated := True\<rparr>)
          else job\<lparr>wj_output := cs, wj_output_bytes := n, wj_output_truncated := trunc\<rparr>)"

section \<open>Operations\<close>

definition default_limits :: job_registry_limits where
  "default_limits = \<lparr>max_preparations = 4, max_active_jobs = 16\<rparr>"

definition with_limits ::
  "workspace_binding \<Rightarrow> job_registry_limits \<Rightarrow> (job_registry_error, job_registry) result" where
  "with_limits b l =
     (if max_preparations l = 0 \<or> max_active_jobs l = 0 then Inl InvalidLimits
      else Inr \<lparr>jr_binding = b, jr_limits = l, jr_sequence = 0, jr_jobs = []\<rparr>)"

definition registry_fence :: "job_registry \<Rightarrow> job_fence" where
  "registry_fence r = fence_of_binding (jr_binding r)"

text \<open>The state change shared by \<open>transition\<close> and \<open>seal\<close>: state, recovery identifier, revision and clock.\<close>

definition advance_job ::
  "(job_permit \<Rightarrow> recovery_id) \<Rightarrow> u64 \<Rightarrow> job_state \<Rightarrow> workspace_job_snapshot \<Rightarrow> workspace_job_snapshot" where
  "advance_job rid_of now next job =
     job\<lparr>wj_state := next,
         wj_recovery_id := (if next = JS_RecoveryRequired \<and> wj_recovery_id job = None
                            then Some (rid_of (wj_permit job)) else wj_recovery_id job),
         wj_revision := saturating_add (wj_revision job) 1,
         wj_updated_at_ms := now\<rparr>"

definition restored_state :: "workspace_binding \<Rightarrow> job_permit \<Rightarrow> job_state" where
  "restored_state b p =
     (if \<not> (jp_controller_id p = wb_controller_id b \<and> jp_binding_id p = wb_binding_id b \<and> jp_epoch p = wb_epoch b)
      then (if is_write_job (jp_spec p) then JS_Stale else JS_Orphaned)
      else if is_local_live_process b (jp_spec p) then JS_Orphaned
      else if is_write_job (jp_spec p) then JS_RecoveryRequired
      else JS_Orphaned)"

definition restore_job ::
  "(job_permit \<Rightarrow> recovery_id) \<Rightarrow> u64 \<Rightarrow> workspace_binding \<Rightarrow> workspace_job_snapshot \<Rightarrow> workspace_job_snapshot" where
  "restore_job rid_of now b job =
     (if is_terminal (wj_state job) then job
      else
        let next = restored_state b (wj_permit job);
            job1 = advance_job rid_of now next job
        in job1\<lparr>wj_finalized_at_ms := (if is_terminal next then Some now else wj_finalized_at_ms job),
                wj_detail := Some
                  (if next = JS_RecoveryRequired then ''writer was active across restart; recovery is required''
                   else if next = JS_Stale then ''job belongs to a stale workspace binding''
                   else ''job was active when the harness restarted'')\<rparr>)"

definition report_restart :: "workspace_binding \<Rightarrow> workspace_job_snapshot \<Rightarrow> job_restart_report \<Rightarrow> job_restart_report" where
  "report_restart b job rep =
     (let i = jp_job_id (wj_permit job); next = restored_state b (wj_permit job)
      in if is_terminal (wj_state job) then rep
         else if next = JS_RecoveryRequired then rep\<lparr>jrr_recovery_required := jrr_recovery_required rep @ [i]\<rparr>
         else if next = JS_Stale then rep\<lparr>jrr_stale := jrr_stale rep @ [i]\<rparr>
         else rep\<lparr>jrr_orphaned := jrr_orphaned rep @ [i]\<rparr>)"

fun restore_jobs ::
  "(job_permit \<Rightarrow> recovery_id) \<Rightarrow> (nat \<Rightarrow> u64) \<Rightarrow> workspace_job_snapshot list \<Rightarrow> job_registry \<Rightarrow> job_restart_report \<Rightarrow>
   (job_registry_error, job_registry \<times> job_restart_report) result" where
  "restore_jobs rid_of clock [] r rep = Inr (publish r, rep)"
| "restore_jobs rid_of clock (job # jobs) r rep =
     (let i = jp_job_id (wj_permit job)
      in if WORKSPACE_CONTRACT_SCHEMA_VERSION < jp_schema_version (wj_permit job)
         then Inl (UnsupportedJobSchema i (jp_schema_version (wj_permit job)))
         else if bt_get (jr_jobs r) i \<noteq> None then Inl (DuplicateJob i)
         else restore_jobs rid_of clock jobs
                (r\<lparr>jr_jobs := bt_insert i (restore_job rid_of (clock (length jobs)) (jr_binding r) job) (jr_jobs r)\<rparr>)
                (report_restart (jr_binding r) job rep))"

definition restore ::
  "(job_permit \<Rightarrow> recovery_id) \<Rightarrow> (nat \<Rightarrow> u64) \<Rightarrow> workspace_binding \<Rightarrow> job_registry_limits \<Rightarrow>
   workspace_job_snapshot list \<Rightarrow> (job_registry_error, job_registry \<times> job_restart_report) result" where
  "restore rid_of clock b l jobs =
     and_then (with_limits b l) (\<lambda>r.
       restore_jobs rid_of clock jobs r \<lparr>jrr_recovery_required = [], jrr_orphaned = [], jrr_stale = []\<rparr>)"

definition new_snapshot :: "job_permit \<Rightarrow> u64 \<Rightarrow> workspace_job_snapshot" where
  "new_snapshot p now =
     \<lparr>wj_permit = p, wj_state = JS_Queued, wj_revision = 0, wj_registered_at_ms = now, wj_updated_at_ms = now,
      wj_finalized_at_ms = None, wj_terminal = None, wj_recovery_id = None, wj_detail = None,
      wj_artifacts = [], wj_output = [], wj_output_truncated = False, wj_output_bytes = 0,
      wj_next_output_sequence = 0\<rparr>"

definition register ::
  "job_id \<Rightarrow> u64 \<Rightarrow> job_fence \<Rightarrow> job_spec \<Rightarrow> job_registry \<Rightarrow> (job_registry_error, job_permit) result \<times> job_registry" where
  "register uuid now f spec r =
     (case ensure_fence r f of
        Inl e \<Rightarrow> (Inl e, r)
      | Inr _ \<Rightarrow>
          if unat (max_active_jobs (jr_limits r)) \<le> active_count (jr_jobs r)
          then (Inl (ActiveLimitReached (max_active_jobs (jr_limits r))), r)
          else if js_effect_scope spec = LiveWriter \<and>
                  list_ex (\<lambda>job. \<not> is_terminal (wj_state job) \<and>
                    live_writers_conflict (jr_binding r) spec (jp_spec (wj_permit job))) (bt_values (jr_jobs r))
          then (Inl ActiveLiveWriter, r)
          else
            let p = \<lparr>jp_schema_version = WORKSPACE_CONTRACT_SCHEMA_VERSION,
                     jp_controller_id = wb_controller_id (jr_binding r), jp_job_id = uuid,
                     jp_binding_id = wb_binding_id (jr_binding r), jp_epoch = wb_epoch (jr_binding r),
                     jp_spec = spec, jp_issued_at_ms = now\<rparr>
            in (Inr p, put_job uuid (new_snapshot p now) r))"

definition transition_update ::
  "(job_permit \<Rightarrow> recovery_id) \<Rightarrow> u64 \<Rightarrow> job_state \<Rightarrow> string option \<Rightarrow> workspace_artifact list \<Rightarrow>
   workspace_job_snapshot \<Rightarrow> workspace_job_snapshot" where
  "transition_update rid_of now next detail artifacts job =
     (advance_job rid_of now next job)\<lparr>
        wj_detail := (case detail of None \<Rightarrow> wj_detail job | Some d \<Rightarrow> Some d),
        wj_artifacts := wj_artifacts job @ artifacts,
        wj_finalized_at_ms := (if is_terminal next then Some now else wj_finalized_at_ms job)\<rparr>"

definition transition ::
  "(job_permit \<Rightarrow> recovery_id) \<Rightarrow> u64 \<Rightarrow> job_fence \<Rightarrow> job_id \<Rightarrow> job_state \<Rightarrow> job_state \<Rightarrow> string option \<Rightarrow>
   workspace_artifact list \<Rightarrow> job_registry \<Rightarrow> (job_registry_error, workspace_job_snapshot) result \<times> job_registry" where
  "transition rid_of now f i expected next detail artifacts r =
     (case ensure_fence r f of
        Inl e \<Rightarrow> (Inl e, r)
      | Inr _ \<Rightarrow>
          (case bt_get (jr_jobs r) i of
             None \<Rightarrow> (Inl (JobNotFound i), r)
           | Some job \<Rightarrow>
               (case ensure_job_fence job f of
                  Inl e \<Rightarrow> (Inl e, r)
                | Inr _ \<Rightarrow>
                    if is_terminal (wj_state job) then (Inl (AlreadyTerminal i (wj_state job)), r)
                    else if wj_state job \<noteq> expected then (Inl (UnexpectedState i expected (wj_state job)), r)
                    else if \<not> transition_allowed job next then (Inl (InvalidTransition i (wj_state job) next), r)
                    else if next = JS_Starting \<and> is_preparation (jp_spec (wj_permit job)) \<and>
                            unat (max_preparations (jr_limits r)) \<le> preparation_count (jr_jobs r)
                    then (Inl (PreparationLimitReached (max_preparations (jr_limits r))), r)
                    else
                      let job1 = transition_update rid_of now next detail artifacts job
                      in (Inr job1, put_job i job1 r))))"

definition seal_update ::
  "(job_permit \<Rightarrow> recovery_id) \<Rightarrow> u64 \<Rightarrow> job_terminal \<Rightarrow> workspace_job_snapshot \<Rightarrow> workspace_job_snapshot" where
  "seal_update rid_of now term job =
     (let next = completion_state (jt_completion term)
      in (advance_job rid_of now next job)\<lparr>
           wj_detail := jt_detail term,
           wj_artifacts := wj_artifacts job @ jt_artifacts term,
           wj_finalized_at_ms := (if is_terminal next then Some now else wj_finalized_at_ms job),
           wj_terminal := (if is_terminal next then Some term else wj_terminal job)\<rparr>)"

fun job_state_debug :: "job_state \<Rightarrow> string" where
  "job_state_debug JS_Queued = ''Queued''"
| "job_state_debug JS_Starting = ''Starting''"
| "job_state_debug JS_Running = ''Running''"
| "job_state_debug JS_ReadyToMerge = ''ReadyToMerge''"
| "job_state_debug JS_Merging = ''Merging''"
| "job_state_debug JS_Settling = ''Settling''"
| "job_state_debug JS_CancelRequested = ''CancelRequested''"
| "job_state_debug JS_Succeeded = ''Succeeded''"
| "job_state_debug JS_Failed = ''Failed''"
| "job_state_debug JS_Cancelled = ''Cancelled''"
| "job_state_debug JS_DurabilityPending = ''DurabilityPending''"
| "job_state_debug JS_RecoveryRequired = ''RecoveryRequired''"
| "job_state_debug JS_Orphaned = ''Orphaned''"
| "job_state_debug JS_Stale = ''Stale''"

fun registry_error_text :: "job_registry_error \<Rightarrow> string" where
  "registry_error_text InvalidLimits = ''job registry limits must both be greater than zero''"
| "registry_error_text StaleFence = ''job callback is fenced by a different workspace binding or epoch''"
| "registry_error_text (JobNotFound i) = ''job '' @ i @ '' was not found''"
| "registry_error_text (AlreadyTerminal i s) =
     ''job '' @ i @ '' is already terminal in state '' @ job_state_debug s"
| "registry_error_text (UnexpectedState i e a) =
     ''job '' @ i @ '' expected state '' @ job_state_debug e @ '', but is '' @ job_state_debug a"
| "registry_error_text (InvalidTransition i a b) =
     ''illegal job transition for '' @ i @ '': '' @ job_state_debug a @ '' -> '' @ job_state_debug b"
| "registry_error_text (ActiveLimitReached l) = ''active job limit reached ('' @ decimal (unat l) @ '')''"
| "registry_error_text (PreparationLimitReached l) =
     ''candidate preparation limit reached ('' @ decimal (unat l) @ '')''"
| "registry_error_text ActiveLiveWriter = ''a live writer job is already active''"
| "registry_error_text WaitTimedOut = ''wait for job state timed out''"
| "registry_error_text (RecoveryNotFound i) = ''job recovery '' @ i @ '' was not found''"
| "registry_error_text (UnsupportedJobSchema i v) =
     ''restored job '' @ i @ '' uses unsupported schema version '' @ decimal (unat v)"
| "registry_error_text (DuplicateJob i) = ''restored job ID '' @ i @ '' appeared more than once''"

definition seal_rejected :: "job_id \<Rightarrow> job_state option \<Rightarrow> string \<Rightarrow> job_seal_outcome" where
  "seal_rejected i s detail =
     \<lparr>jso_job_id = i, jso_status = SealRejected, jso_state = s, jso_recovery_id = None, jso_detail = Some detail\<rparr>"

definition seal ::
  "(job_permit \<Rightarrow> recovery_id) \<Rightarrow> u64 \<Rightarrow> job_fence \<Rightarrow> job_id \<Rightarrow> job_terminal \<Rightarrow> job_registry \<Rightarrow>
   job_seal_outcome \<times> job_registry" where
  "seal rid_of now f i term r =
     (if \<not> is_ok (ensure_fence r f) then (seal_rejected i None ''job callback has a stale binding fence'', r)
      else case bt_get (jr_jobs r) i of
        None \<Rightarrow> (\<lparr>jso_job_id = i, jso_status = SealNotFound, jso_state = None, jso_recovery_id = None,
                  jso_detail = Some ''job was not registered''\<rparr>, r)
      | Some job \<Rightarrow>
          if \<not> matches_permit f (wj_permit job)
          then (seal_rejected i (Some (wj_state job)) ''job permit has a stale binding fence'', r)
          else if is_terminal (wj_state job)
          then (\<lparr>jso_job_id = i, jso_status = AlreadySealed, jso_state = Some (wj_state job),
                 jso_recovery_id = wj_recovery_id job, jso_detail = wj_detail job\<rparr>, r)
          else
            let next = completion_state (jt_completion term)
            in if \<not> transition_allowed job next
               then (seal_rejected i (Some (wj_state job))
                       (''illegal job transition '' @ job_state_debug (wj_state job) @ '' -> '' @ job_state_debug next), r)
               else
                 let job1 = seal_update rid_of now term job
                 in (\<lparr>jso_job_id = i, jso_status = Sealed, jso_state = Some next,
                      jso_recovery_id = wj_recovery_id job1, jso_detail = jt_detail term\<rparr>, put_job i job1 r))"

definition register_running ::
  "(job_permit \<Rightarrow> recovery_id) \<Rightarrow> job_id \<Rightarrow> (nat \<Rightarrow> u64) \<Rightarrow> job_fence \<Rightarrow> job_spec \<Rightarrow> job_registry \<Rightarrow>
   (job_registry_error, job_permit) result \<times> job_registry" where
  "register_running rid_of uuid clock f spec r =
     (let failed = (\<lambda>i e rf. (Inl e, snd (seal rid_of (clock 3) f i
             \<lparr>jt_completion = JC_Failed,
              jt_detail = Some (''job admission failed before execution: '' @ registry_error_text e),
              jt_artifacts = []\<rparr> rf)))
      in case register uuid (clock 0) f spec r of
           (Inl e, r0) \<Rightarrow> (Inl e, r0)
         | (Inr p, r0) \<Rightarrow>
             (case transition rid_of (clock 1) f (jp_job_id p) JS_Queued JS_Starting None [] r0 of
                (Inl e, r1) \<Rightarrow> failed (jp_job_id p) e r1
              | (Inr _, r1) \<Rightarrow>
                  (case transition rid_of (clock 2) f (jp_job_id p) JS_Starting JS_Running None [] r1 of
                     (Inl e, r2) \<Rightarrow> failed (jp_job_id p) e r2
                   | (Inr _, r2) \<Rightarrow> (Inr p, r2))))"

definition job_status :: "job_fence \<Rightarrow> job_id \<Rightarrow> job_registry \<Rightarrow> (job_registry_error, workspace_job_snapshot) result" where
  "job_status f i r =
     and_then (ensure_fence r f) (\<lambda>_.
       case bt_get (jr_jobs r) i of
         None \<Rightarrow> Inl (JobNotFound i)
       | Some job \<Rightarrow> and_then (ensure_job_fence job f) (\<lambda>_. Inr job))"

text \<open>
  \<open>request_cancel\<close> reads the status and then transitions, taking the lock twice: \<open>r'\<close> is the registry at the
  second acquisition.
\<close>

definition request_cancel ::
  "(job_permit \<Rightarrow> recovery_id) \<Rightarrow> u64 \<Rightarrow> job_fence \<Rightarrow> job_id \<Rightarrow> job_registry \<Rightarrow> job_registry \<Rightarrow>
   (job_registry_error, workspace_job_snapshot) result \<times> job_registry" where
  "request_cancel rid_of now f i r r' =
     (case job_status f i r of
        Inl e \<Rightarrow> (Inl e, r')
      | Inr job \<Rightarrow>
          let s = wj_state job
          in if s \<in> {JS_Queued, JS_ReadyToMerge}
             then transition rid_of now f i s JS_Cancelled (Some ''cancellation requested'') [] r'
             else if s \<in> {JS_Starting, JS_Running}
             then transition rid_of now f i s JS_CancelRequested (Some ''cancellation requested'') [] r'
             else if is_terminal s then (Inl (AlreadyTerminal i s), r')
             else (Inl (InvalidTransition i s JS_CancelRequested), r'))"

definition output_limit :: "job_limits \<Rightarrow> usize" where
  "output_limit l = unwrap_or (jl_output_bytes l) DEFAULT_OUTPUT_BYTES"

definition push_output :: "u64 \<Rightarrow> job_output_stream \<Rightarrow> string \<Rightarrow> workspace_job_snapshot \<Rightarrow> workspace_job_snapshot" where
  "push_output now stream text job =
     (let job1 = job\<lparr>wj_next_output_sequence := saturating_add (wj_next_output_sequence job) 1,
                     wj_output_bytes := saturating_add (wj_output_bytes job) (of_nat (length text)),
                     wj_output := wj_output job @
                       [\<lparr>oc_sequence = wj_next_output_sequence job, oc_stream = stream, oc_text = text\<rparr>]\<rparr>;
          job2 = truncate_output (output_limit (js_limits (jp_spec (wj_permit job)))) job1
      in job2\<lparr>wj_revision := saturating_add (wj_revision job) 1, wj_updated_at_ms := now\<rparr>)"

definition append_output ::
  "u64 \<Rightarrow> job_fence \<Rightarrow> job_id \<Rightarrow> job_output_stream \<Rightarrow> string \<Rightarrow> job_registry \<Rightarrow>
   (job_registry_error, workspace_job_snapshot) result \<times> job_registry" where
  "append_output now f i stream text r =
     (case job_status f i r of
        Inl e \<Rightarrow> (Inl e, r)
      | Inr job \<Rightarrow>
          if is_terminal (wj_state job) then (Inl (AlreadyTerminal i (wj_state job)), r)
          else let job1 = push_output now stream text job in (Inr job1, put_job i job1 r))"

definition registry_snapshot :: "job_registry \<Rightarrow> workspace_jobs_snapshot" where
  "registry_snapshot r =
     \<lparr>wjs_controller_id = wb_controller_id (jr_binding r), wjs_binding_id = wb_binding_id (jr_binding r),
      wjs_epoch = wb_epoch (jr_binding r), wjs_sequence = jr_sequence r, wjs_limits = jr_limits r,
      wjs_jobs = bt_values (jr_jobs r)\<rparr>"

fun find_map :: "('a \<Rightarrow> 'b option) \<Rightarrow> 'a list \<Rightarrow> 'b option" where
  "find_map g [] = None"
| "find_map g (x # xs) = (case g x of None \<Rightarrow> find_map g xs | Some y \<Rightarrow> Some y)"

text \<open>\<open>expired\<close> is the comparison of the current instant with the deadline.\<close>

definition barrier ::
  "bool \<Rightarrow> job_fence \<Rightarrow> barrier_kind \<Rightarrow> job_registry \<Rightarrow> (job_registry_error, barrier_receipt) result" where
  "barrier expired f reason r =
     and_then (ensure_fence r f) (\<lambda>_.
       let pending = map fst (filter (\<lambda>p. \<not> is_terminal (wj_state (snd p))) (jr_jobs r));
           recovering = list_ex (\<lambda>job. wj_state job = JS_RecoveryRequired) (bt_values (jr_jobs r))
       in Inr \<lparr>bar_kind = reason,
            bar_status =
              (if recovering then BS_RecoveryRequired
               else if pending = [] then BS_Passed
               else if expired then BS_TimedOut else BS_Blocked),
            bar_binding_id = wb_binding_id (jr_binding r), bar_epoch = wb_epoch (jr_binding r),
            bar_active_operation = None, bar_pending_jobs = pending,
            bar_recovery_id =
              find_map (\<lambda>job. if wj_state job = JS_RecoveryRequired then wj_recovery_id job else None)
                (bt_values (jr_jobs r)),
            bar_detail =
              (if recovering then Some ''one or more writer jobs require workspace recovery'' else None)\<rparr>)"

definition reconcile_recovery ::
  "u64 \<Rightarrow> job_fence \<Rightarrow> recovery_id \<Rightarrow> string option \<Rightarrow> job_registry \<Rightarrow>
   (job_registry_error, workspace_job_snapshot) result \<times> job_registry" where
  "reconcile_recovery now f rid detail r =
     (case ensure_fence r f of
        Inl e \<Rightarrow> (Inl e, r)
      | Inr _ \<Rightarrow>
          (case find (\<lambda>p. wj_recovery_id (snd p) = Some rid) (jr_jobs r) of
             None \<Rightarrow> (Inl (RecoveryNotFound rid), r)
           | Some (i, job) \<Rightarrow>
               (case ensure_job_fence job f of
                  Inl e \<Rightarrow> (Inl e, r)
                | Inr _ \<Rightarrow>
                    if is_terminal (wj_state job) then (Inr job, r)
                    else if wj_state job \<noteq> JS_RecoveryRequired
                    then (Inl (UnexpectedState i JS_RecoveryRequired (wj_state job)), r)
                    else
                      let d = unwrap_or detail
                            ''workspace recovery resolved; interrupted job was not published as successful'';
                          job1 = job\<lparr>wj_state := JS_Failed, wj_revision := saturating_add (wj_revision job) 1,
                                     wj_updated_at_ms := now, wj_finalized_at_ms := Some now,
                                     wj_detail := Some d,
                                     wj_terminal := Some \<lparr>jt_completion = JC_Failed, jt_detail = Some d,
                                                         jt_artifacts = []\<rparr>\<rparr>
                      in (Inr job1, put_job i job1 r))))"

text \<open>
  \<open>wait\<close>: the registry as seen at each wake-up, whether the deadline had passed then, and what ended the
  pause after it. \<open>None\<close> means still waiting.
\<close>

datatype wake = Changed | ChannelClosed | DeadlineElapsed

definition wait_ready :: "job_wait_condition \<Rightarrow> workspace_job_snapshot \<Rightarrow> bool" where
  "wait_ready c job =
     (case c of
        RevisionAfter n \<Rightarrow> n < wj_revision job
      | WaitActionable \<Rightarrow> is_actionable job
      | WaitTerminal \<Rightarrow> is_terminal (wj_state job))"

fun wait :: "job_fence \<Rightarrow> job_id \<Rightarrow> job_wait_condition \<Rightarrow> (job_registry \<times> bool \<times> wake) list \<Rightarrow>
   (job_registry_error, workspace_job_snapshot) result option" where
  "wait f i c [] = None"
| "wait f i c ((r, expired, w) # obs) =
     (case job_status f i r of
        Inl e \<Rightarrow> Some (Inl e)
      | Inr job \<Rightarrow>
          if wait_ready c job then Some (Inr job)
          else if expired then Some (Inl WaitTimedOut)
          else (case w of Changed \<Rightarrow> wait f i c obs | _ \<Rightarrow> Some (Inl WaitTimedOut)))"

end
