(* ===== verification/Job_Registry_Correct.thy ===== *)
theory Job_Registry_Correct
  imports Job_Registry
begin

text \<open>
  Correctness of the job registry: finished jobs never change, limits and writer exclusion hold in
  every reachable registry, stale callbacks are ignored, write jobs succeed only after settling,
  retained output stays within its limit, and restarting is conservative.
\<close>

section \<open>Counting jobs\<close>

lemma count_insert_fresh:
  assumes "bt_wf m" and "bt_get m k = None"
  shows "length (filter P (bt_values (bt_insert k v m))) = (if P v then 1 else 0) + length (filter P (bt_values m))"
  using bt.total_ins_fresh [OF assms, of "\<lambda>v. if P v then 1 else 0" v] unfolding bt.count_conv by simp

lemma count_insert_over:
  assumes "bt_wf m" and "bt_get m k = Some w"
  shows "length (filter P (bt_values (bt_insert k v m))) + (if P w then 1 else 0) =
         (if P v then 1 else 0) + length (filter P (bt_values m))"
  using bt.total_ins_over [OF assms, of "\<lambda>v. if P v then 1 else 0" v] unfolding bt.count_conv by simp

lemma find_SomeD: "find P xs = Some x \<Longrightarrow> x \<in> set xs \<and> P x"
  by (auto simp: find_Some_iff)

section \<open>Atomic steps\<close>

text \<open>
  One call under the registry's lock. A registration draws a fresh UUID; nothing else is assumed of
  the environment, and the callers may present any fence, job and state.
\<close>

inductive job_step :: "(job_permit \<Rightarrow> recovery_id) \<Rightarrow> job_registry \<Rightarrow> job_registry \<Rightarrow> bool" for rid_of where
  step_register: "bt_get (jr_jobs r) uuid = None \<Longrightarrow> job_step rid_of r (snd (register uuid now f spec r))"
| step_transition: "job_step rid_of r (snd (transition rid_of now f i expected nxt detail artifacts r))"
| step_seal: "job_step rid_of r (snd (seal rid_of now f i trm r))"
| step_append: "job_step rid_of r (snd (append_output now f i stream msg r))"
| step_reconcile: "job_step rid_of r (snd (reconcile_recovery now f rid detail r))"

text \<open>What a step that changes the registry has established about the job it writes.\<close>

definition admits_new :: "job_registry \<Rightarrow> workspace_job_snapshot \<Rightarrow> bool" where
  "admits_new r job \<longleftrightarrow>
     wj_state job = JS_Queued \<and>
     active_count (jr_jobs r) < unat (max_active_jobs (jr_limits r)) \<and>
     matches_permit (registry_fence r) (wj_permit job) \<and>
     (js_effect_scope (jp_spec (wj_permit job)) = LiveWriter \<longrightarrow>
        (\<forall>old \<in> set (bt_values (jr_jobs r)). \<not> is_terminal (wj_state old) \<longrightarrow>
           \<not> live_writers_conflict (jr_binding r) (jp_spec (wj_permit job)) (jp_spec (wj_permit old))))"

definition admits_update :: "job_registry \<Rightarrow> workspace_job_snapshot \<Rightarrow> workspace_job_snapshot \<Rightarrow> bool" where
  "admits_update r old job \<longleftrightarrow>
     \<not> is_terminal (wj_state old) \<and> wj_permit job = wj_permit old \<and>
     matches_permit (registry_fence r) (wj_permit old) \<and>
     (wj_state job = wj_state old \<or> transition_allowed old (wj_state job)) \<and>
     (wj_state job = JS_Starting \<longrightarrow> wj_state old = JS_Queued \<longrightarrow> is_preparation (jp_spec (wj_permit old)) \<longrightarrow>
        preparation_count (jr_jobs r) < unat (max_preparations (jr_limits r)))"

lemma fence_matches:
  "ensure_fence r f = Inr () \<longleftrightarrow> f = registry_fence r"
  by (auto simp: ensure_fence_def matches_binding_def registry_fence_def fence_of_binding_def
      intro: job_fence.equality)

lemma advance_job_simps [simp]:
  "wj_state (advance_job rid_of now next job) = next"
  "wj_permit (advance_job rid_of now next job) = wj_permit job"
  by (simp_all add: advance_job_def)

definition issued_permit :: "job_id \<Rightarrow> u64 \<Rightarrow> job_spec \<Rightarrow> job_registry \<Rightarrow> job_permit" where
  "issued_permit uuid now spec r =
     \<lparr>jp_schema_version = WORKSPACE_CONTRACT_SCHEMA_VERSION,
      jp_controller_id = wb_controller_id (jr_binding r), jp_job_id = uuid,
      jp_binding_id = wb_binding_id (jr_binding r), jp_epoch = wb_epoch (jr_binding r),
      jp_spec = spec, jp_issued_at_ms = now\<rparr>"

lemma issued_permit_simps [simp]:
  "jp_job_id (issued_permit uuid now spec r) = uuid" "jp_spec (issued_permit uuid now spec r) = spec"
  "matches_permit (registry_fence r) (issued_permit uuid now spec r)"
  by (simp_all add: issued_permit_def matches_permit_def registry_fence_def fence_of_binding_def)

lemma new_snapshot_simps [simp]:
  "wj_state (new_snapshot p now) = JS_Queued" "wj_permit (new_snapshot p now) = p"
  "wj_output (new_snapshot p now) = []" "wj_output_bytes (new_snapshot p now) = 0"
  by (simp_all add: new_snapshot_def)

lemma register_cases:
  obtains (refused) e where "register uuid now f spec r = (Inl e, r)"
  | (granted) p where "register uuid now f spec r = (Inr p, put_job uuid (new_snapshot p now) r)"
      "p = issued_permit uuid now spec r" "admits_new r (new_snapshot p now)" "f = registry_fence r"
proof (cases "ensure_fence r f")
  case (Inl e)
  with refused show ?thesis by (simp add: register_def)
next
  case (Inr u)
  then have f: "f = registry_fence r" and ok: "ensure_fence r f = Inr ()" using fence_matches by simp_all
  let ?conflict = "js_effect_scope spec = LiveWriter \<and>
      list_ex (\<lambda>job. \<not> is_terminal (wj_state job) \<and>
        live_writers_conflict (jr_binding r) spec (jp_spec (wj_permit job))) (bt_values (jr_jobs r))"
  show ?thesis
  proof (cases "unat (max_active_jobs (jr_limits r)) \<le> active_count (jr_jobs r) \<or> ?conflict")
    case True
    with ok have "\<exists>e. register uuid now f spec r = (Inl e, r)" by (auto simp: register_def)
    with refused show ?thesis by blast
  next
    case False
    let ?p = "issued_permit uuid now spec r"
    have "register uuid now f spec r = (Inr ?p, put_job uuid (new_snapshot ?p now) r)"
      using False ok by (auto simp: register_def issued_permit_def Let_def)
    moreover have "admits_new r (new_snapshot ?p now)"
      using False by (auto simp: admits_new_def list_ex_iff)
    ultimately show ?thesis using f by (intro granted) auto
  qed
qed

lemma transition_update_simps [simp]:
  "wj_state (transition_update rid_of now next detail artifacts job) = next"
  "wj_permit (transition_update rid_of now next detail artifacts job) = wj_permit job"
  "wj_output (transition_update rid_of now next detail artifacts job) = wj_output job"
  "wj_output_bytes (transition_update rid_of now next detail artifacts job) = wj_output_bytes job"
  by (simp_all add: transition_update_def advance_job_def)

lemma seal_update_simps [simp]:
  "wj_state (seal_update rid_of now term job) = completion_state (jt_completion term)"
  "wj_permit (seal_update rid_of now term job) = wj_permit job"
  "wj_output (seal_update rid_of now term job) = wj_output job"
  "wj_output_bytes (seal_update rid_of now term job) = wj_output_bytes job"
  by (simp_all add: seal_update_def advance_job_def Let_def)

lemma ensure_job_fence_ok: "ensure_job_fence job f = Inr () \<longleftrightarrow> matches_permit f (wj_permit job)"
  by (simp add: ensure_job_fence_def)

lemma transition_cases:
  obtains (refused) e where "transition rid_of now f i expected next detail artifacts r = (Inl e, r)"
  | (taken) old where "transition rid_of now f i expected next detail artifacts r =
        (Inr (transition_update rid_of now next detail artifacts old),
         put_job i (transition_update rid_of now next detail artifacts old) r)"
      "bt_get (jr_jobs r) i = Some old" "admits_update r old (transition_update rid_of now next detail artifacts old)"
      "wj_state old = expected" "f = registry_fence r"
proof (cases "ensure_fence r f")
  case (Inl e)
  then show ?thesis using refused by (simp add: transition_def)
next
  case (Inr u)
  then have f: "f = registry_fence r" and ok: "ensure_fence r f = Inr ()" using fence_matches by simp_all
  show ?thesis
  proof (cases "bt_get (jr_jobs r) i")
    case None
    with ok refused show ?thesis by (simp add: transition_def)
  next
    case (Some old)
    show ?thesis
    proof (cases "matches_permit f (wj_permit old) \<and> \<not> is_terminal (wj_state old) \<and> wj_state old = expected \<and>
        transition_allowed old next \<and>
        \<not> (next = JS_Starting \<and> is_preparation (jp_spec (wj_permit old)) \<and>
             unat (max_preparations (jr_limits r)) \<le> preparation_count (jr_jobs r))")
      case True
      with ok Some f show ?thesis
        by (intro taken [of old]) (auto simp: transition_def ensure_job_fence_def admits_update_def Let_def)
    next
      case False
      then have "\<exists>e. transition rid_of now f i expected next detail artifacts r = (Inl e, r)"
        using ok Some by (auto simp: transition_def ensure_job_fence_def)
      with refused show ?thesis by blast
    qed
  qed
qed

lemma completion_not_starting: "completion_state c \<noteq> JS_Starting"
  by (cases c) simp_all

lemma seal_cases:
  obtains (kept) out where "seal rid_of now f i term r = (out, r)" "jso_status out \<noteq> Sealed"
  | (sealed) out old where "seal rid_of now f i term r = (out, put_job i (seal_update rid_of now term old) r)"
      "jso_status out = Sealed" "jso_state out = Some (completion_state (jt_completion term))"
      "bt_get (jr_jobs r) i = Some old" "admits_update r old (seal_update rid_of now term old)"
proof (cases "\<exists>old. bt_get (jr_jobs r) i = Some old \<and> f = registry_fence r \<and> matches_permit f (wj_permit old) \<and>
    \<not> is_terminal (wj_state old) \<and> transition_allowed old (completion_state (jt_completion term))")
  case True
  then obtain old where old: "bt_get (jr_jobs r) i = Some old" "f = registry_fence r" "matches_permit f (wj_permit old)"
    "\<not> is_terminal (wj_state old)" "transition_allowed old (completion_state (jt_completion term))" by blast
  then have "ensure_fence r f = Inr ()" using fence_matches by simp
  with old show ?thesis
    using completion_not_starting
    by (intro sealed [of _ old]) (auto simp: seal_def Let_def admits_update_def)
next
  case False
  then have "\<exists>out. seal rid_of now f i term r = (out, r) \<and> jso_status out \<noteq> Sealed"
    using fence_matches [of r f]
    by (auto simp: seal_def Let_def seal_rejected_def is_ok_iff split: option.splits)
  with kept show ?thesis by blast
qed

lemma truncate_output_frame [simp]:
  "wj_permit (truncate_output limit job) = wj_permit job" "wj_state (truncate_output limit job) = wj_state job"
  by (auto simp: truncate_output_def Let_def split: prod.splits list.splits)

lemma push_output_frame [simp]:
  "wj_permit (push_output now stream text job) = wj_permit job"
  "wj_state (push_output now stream text job) = wj_state job"
  by (simp_all add: push_output_def Let_def)

lemma job_status_ok:
  "job_status f i r = Inr job \<longleftrightarrow>
   f = registry_fence r \<and> bt_get (jr_jobs r) i = Some job \<and> matches_permit f (wj_permit job)"
  using fence_matches [of r f]
  by (cases "bt_get (jr_jobs r) i") (auto simp: job_status_def ensure_job_fence_ok)

lemma append_cases:
  obtains (refused) e where "append_output now f i stream text r = (Inl e, r)"
  | (appended) old where "append_output now f i stream text r =
        (Inr (push_output now stream text old), put_job i (push_output now stream text old) r)"
      "bt_get (jr_jobs r) i = Some old" "admits_update r old (push_output now stream text old)"
proof (cases "job_status f i r")
  case (Inl e)
  with refused show ?thesis by (simp add: append_output_def)
next
  case (Inr old)
  show ?thesis
  proof (cases "is_terminal (wj_state old)")
    case True
    with Inr refused show ?thesis by (simp add: append_output_def)
  next
    case False
    from Inr have "f = registry_fence r" "bt_get (jr_jobs r) i = Some old" "matches_permit f (wj_permit old)"
      by (auto simp: job_status_ok)
    then have "admits_update r old (push_output now stream text old)" "bt_get (jr_jobs r) i = Some old"
      using False by (auto simp: admits_update_def)
    moreover have "append_output now f i stream text r =
        (Inr (push_output now stream text old), put_job i (push_output now stream text old) r)"
      using Inr False by (simp add: append_output_def Let_def)
    ultimately show ?thesis by (intro appended)
  qed
qed

definition reconciled :: "u64 \<Rightarrow> string option \<Rightarrow> workspace_job_snapshot \<Rightarrow> workspace_job_snapshot" where
  "reconciled now detail job =
     (let d = unwrap_or detail ''workspace recovery resolved; interrupted job was not published as successful''
      in job\<lparr>wj_state := JS_Failed, wj_revision := saturating_add (wj_revision job) 1,
             wj_updated_at_ms := now, wj_finalized_at_ms := Some now, wj_detail := Some d,
             wj_terminal := Some \<lparr>jt_completion = JC_Failed, jt_detail = Some d, jt_artifacts = []\<rparr>\<rparr>)"

lemma reconciled_simps [simp]:
  "wj_state (reconciled now detail job) = JS_Failed" "wj_permit (reconciled now detail job) = wj_permit job"
  by (simp_all add: reconciled_def Let_def)

lemma reconcile_cases:
  assumes "bt_wf (jr_jobs r)"
  obtains (kept) x where "reconcile_recovery now f rid detail r = (x, r)"
  | (resolved) i old where "reconcile_recovery now f rid detail r =
        (Inr (reconciled now detail old), put_job i (reconciled now detail old) r)"
      "bt_get (jr_jobs r) i = Some old" "wj_state old = JS_RecoveryRequired" "wj_recovery_id old = Some rid"
      "admits_update r old (reconciled now detail old)"
proof (cases "ensure_fence r f")
  case (Inl e)
  with kept show ?thesis by (simp add: reconcile_recovery_def)
next
  case (Inr u)
  then have f: "f = registry_fence r" and ok: "ensure_fence r f = Inr ()" using fence_matches by simp_all
  show ?thesis
  proof (cases "find (\<lambda>p. wj_recovery_id (snd p) = Some rid) (jr_jobs r)")
    case None
    with ok kept show ?thesis by (simp add: reconcile_recovery_def)
  next
    case (Some p)
    obtain i old where p: "p = (i, old)" by fastforce
    with find_SomeD [OF Some] have "(i, old) \<in> set (jr_jobs r)" and rid: "wj_recovery_id old = Some rid"
      by auto
    then have get: "bt_get (jr_jobs r) i = Some old" using bt.items_mem [OF assms] by blast
    show ?thesis
    proof (cases "matches_permit f (wj_permit old) \<and> wj_state old = JS_RecoveryRequired")
      case True
      then show ?thesis
        using ok Some p get rid f
        by (intro resolved [of old i])
          (auto simp: reconcile_recovery_def ensure_job_fence_def is_terminal_def reconciled_def Let_def
            admits_update_def transition_allowed_def)
    next
      case False
      then have "\<exists>x. reconcile_recovery now f rid detail r = (x, r)"
        using ok Some p by (auto simp: reconcile_recovery_def ensure_job_fence_def)
      with kept show ?thesis by blast
    qed
  qed
qed

lemma put_job_simps [simp]:
  "jr_binding (put_job i job r) = jr_binding r" "jr_limits (put_job i job r) = jr_limits r"
  "jr_jobs (put_job i job r) = bt_insert i job (jr_jobs r)"
  by (simp_all add: put_job_def publish_def)

lemma job_step_cases:
  assumes "job_step rid_of r r'" and "bt_wf (jr_jobs r)"
  obtains (same) "r' = r"
  | (new) i job where "bt_get (jr_jobs r) i = None" "admits_new r job" "r' = put_job i job r"
  | (update) i old job where "bt_get (jr_jobs r) i = Some old" "admits_update r old job" "r' = put_job i job r"
  using assms(1)
proof cases
  case (step_register uuid now f spec)
  then show ?thesis
    using same new by (cases rule: register_cases [of uuid now f spec r]) auto
next
  case (step_transition now f i expected nxt detail artifacts)
  then show ?thesis
    using same update by (cases rule: transition_cases [of rid_of now f i expected nxt detail artifacts r]) auto
next
  case (step_seal now f i trm)
  then show ?thesis
    using same update by (cases rule: seal_cases [of rid_of now f i trm r]) auto
next
  case (step_append now f i stream msg)
  then show ?thesis
    using same update by (cases rule: append_cases [of now f i stream msg r]) auto
next
  case (step_reconcile now f rid detail)
  then show ?thesis
    using same update by (cases rule: reconcile_cases [OF assms(2), of now f rid detail]) auto
qed

section \<open>The invariant and what never changes\<close>

definition writers_exclusive :: "job_registry \<Rightarrow> bool" where
  "writers_exclusive r \<longleftrightarrow>
     (\<forall>i j a b. i \<noteq> j \<and> bt_get (jr_jobs r) i = Some a \<and> bt_get (jr_jobs r) j = Some b \<and>
        \<not> is_terminal (wj_state a) \<and> \<not> is_terminal (wj_state b) \<and>
        js_effect_scope (jp_spec (wj_permit a)) = LiveWriter \<and> js_effect_scope (jp_spec (wj_permit b)) = LiveWriter \<longrightarrow>
        is_local_live_process (jr_binding r) (jp_spec (wj_permit a)) \<and>
        is_local_live_process (jr_binding r) (jp_spec (wj_permit b)))"

definition registry_inv :: "job_registry \<Rightarrow> bool" where
  "registry_inv r \<longleftrightarrow>
     bt_wf (jr_jobs r) \<and>
     active_count (jr_jobs r) \<le> unat (max_active_jobs (jr_limits r)) \<and>
     preparation_count (jr_jobs r) \<le> unat (max_preparations (jr_limits r)) \<and>
     writers_exclusive r"

definition registry_adv :: "job_registry \<Rightarrow> job_registry \<Rightarrow> bool" where
  "registry_adv r r' \<longleftrightarrow>
     jr_binding r' = jr_binding r \<and> jr_limits r' = jr_limits r \<and>
     (\<forall>i job. bt_get (jr_jobs r) i = Some job \<longrightarrow>
        (\<exists>job'. bt_get (jr_jobs r') i = Some job' \<and> wj_permit job' = wj_permit job \<and>
           can_transition_to\<^sup>*\<^sup>* (wj_state job) (wj_state job') \<and>
           (is_terminal (wj_state job) \<longrightarrow> job' = job)))"

lemma update_active:
  assumes "bt_wf (jr_jobs r)" and "bt_get (jr_jobs r) i = Some old" and "admits_update r old job"
  shows "active_count (bt_insert i job (jr_jobs r)) \<le> active_count (jr_jobs r)"
  using count_insert_over [OF assms(1,2), of "\<lambda>job. \<not> is_terminal (wj_state job)" job] assms(3)
  by (auto simp: active_count_def admits_update_def split: if_splits)

lemma update_preparations:
  assumes "bt_wf (jr_jobs r)" and "bt_get (jr_jobs r) i = Some old" and u: "admits_update r old job"
    and le: "preparation_count (jr_jobs r) \<le> unat (max_preparations (jr_limits r))"
  shows "preparation_count (bt_insert i job (jr_jobs r)) \<le> unat (max_preparations (jr_limits r))"
proof -
  let ?P = "\<lambda>job. is_preparation (jp_spec (wj_permit job)) \<and> wj_state job \<in> {JS_Starting, JS_Running}"
  note count = count_insert_over [OF assms(1,2), of ?P job, folded preparation_count_def]
  show ?thesis
  proof (cases "?P job \<and> \<not> ?P old")
    case True
    then have "wj_state job = JS_Starting" "wj_state old = JS_Queued"
      using u only_starting_runs [of "wj_state old"] only_queued_starts [of "wj_state old"]
      by (auto simp: admits_update_def transition_allowed_def split: if_splits)
    then have "preparation_count (jr_jobs r) < unat (max_preparations (jr_limits r))"
      using u True by (auto simp: admits_update_def)
    with count True show ?thesis by simp
  next
    case False
    then have "(if ?P job then 1 else 0 :: nat) \<le> (if ?P old then 1 else 0)" by auto
    with count le show ?thesis by linarith
  qed
qed

lemma new_writers_exclusive:
  assumes "bt_wf (jr_jobs r)" and "admits_new r job" and "writers_exclusive r"
  shows "writers_exclusive (put_job i job r)"
proof -
  have clash: "is_local_live_process (jr_binding r) (jp_spec (wj_permit job)) \<and>
      is_local_live_process (jr_binding r) (jp_spec (wj_permit b))"
    if "js_effect_scope (jp_spec (wj_permit job)) = LiveWriter" "js_effect_scope (jp_spec (wj_permit b)) = LiveWriter"
      "bt_get (jr_jobs r) j = Some b" "\<not> is_terminal (wj_state b)" for j b
  proof -
    have "b \<in> set (bt_values (jr_jobs r))" using that(3) by (force dest: map_of_SomeD)
    then show ?thesis using assms(2) that by (auto simp: admits_new_def live_writers_conflict_def)
  qed
  show ?thesis
    unfolding writers_exclusive_def
  proof (intro allI impI, elim conjE)
    fix j k a b
    assume h: "j \<noteq> k" "bt_get (jr_jobs (put_job i job r)) j = Some a" "bt_get (jr_jobs (put_job i job r)) k = Some b"
      "\<not> is_terminal (wj_state a)" "\<not> is_terminal (wj_state b)"
      "js_effect_scope (jp_spec (wj_permit a)) = LiveWriter" "js_effect_scope (jp_spec (wj_permit b)) = LiveWriter"
    show "is_local_live_process (jr_binding (put_job i job r)) (jp_spec (wj_permit a)) \<and>
        is_local_live_process (jr_binding (put_job i job r)) (jp_spec (wj_permit b))"
    proof (cases "j = i \<or> k = i")
      case True
      then show ?thesis using h assms(1) clash by (auto split: if_splits)
    next
      case False
      then show ?thesis using h assms(1,3) by (auto simp: writers_exclusive_def)
    qed
  qed
qed

lemma update_writers_exclusive:
  assumes "bt_wf (jr_jobs r)" and "bt_get (jr_jobs r) i = Some old" and "admits_update r old job" and "writers_exclusive r"
  shows "writers_exclusive (put_job i job r)"
proof -
  have prior: "\<exists>a. bt_get (jr_jobs r) j = Some a \<and> \<not> is_terminal (wj_state a) \<and> wj_permit a = wj_permit b"
    if "bt_get (jr_jobs (put_job i job r)) j = Some b" "\<not> is_terminal (wj_state b)" for j b
    using that assms(1,2,3) by (auto simp: admits_update_def split: if_splits)
  show ?thesis
    unfolding writers_exclusive_def
  proof (intro allI impI, elim conjE)
    fix j k a b
    assume h: "j \<noteq> k" "bt_get (jr_jobs (put_job i job r)) j = Some a" "bt_get (jr_jobs (put_job i job r)) k = Some b"
      "\<not> is_terminal (wj_state a)" "\<not> is_terminal (wj_state b)"
      "js_effect_scope (jp_spec (wj_permit a)) = LiveWriter" "js_effect_scope (jp_spec (wj_permit b)) = LiveWriter"
    obtain a' where a': "bt_get (jr_jobs r) j = Some a'" "\<not> is_terminal (wj_state a')" "wj_permit a' = wj_permit a"
      using prior [OF h(2,4)] by blast
    obtain b' where b': "bt_get (jr_jobs r) k = Some b'" "\<not> is_terminal (wj_state b')" "wj_permit b' = wj_permit b"
      using prior [OF h(3,5)] by blast
    have "is_local_live_process (jr_binding r) (jp_spec (wj_permit a')) \<and>
        is_local_live_process (jr_binding r) (jp_spec (wj_permit b'))"
      using assms(4) h(1,6,7) a' b' unfolding writers_exclusive_def by metis
    with a' b' show "is_local_live_process (jr_binding (put_job i job r)) (jp_spec (wj_permit a)) \<and>
        is_local_live_process (jr_binding (put_job i job r)) (jp_spec (wj_permit b))" by simp
  qed
qed

lemma job_step_inv:
  assumes "registry_inv r" and "job_step rid_of r r'"
  shows "registry_inv r'"
proof -
  have wf: "bt_wf (jr_jobs r)" using assms(1) by (simp add: registry_inv_def)
  from assms(2) wf show ?thesis
  proof (cases rule: job_step_cases)
    case same
    with assms(1) show ?thesis by simp
  next
    case (new i job)
    have "active_count (bt_insert i job (jr_jobs r)) \<le> Suc (active_count (jr_jobs r))"
      using count_insert_fresh [OF wf new(1), of "\<lambda>job. \<not> is_terminal (wj_state job)" job]
      by (simp add: active_count_def)
    then have "active_count (bt_insert i job (jr_jobs r)) \<le> unat (max_active_jobs (jr_limits r))"
      using new(2) by (simp add: admits_new_def)
    moreover have "preparation_count (bt_insert i job (jr_jobs r)) = preparation_count (jr_jobs r)"
      using count_insert_fresh [OF wf new(1), of "\<lambda>job. is_preparation (jp_spec (wj_permit job)) \<and> wj_state job \<in> {JS_Starting, JS_Running}" job]
        new(2) by (simp add: preparation_count_def admits_new_def)
    ultimately show ?thesis
      using assms(1) wf new new_writers_exclusive [OF wf new(2)] by (simp add: registry_inv_def)
  next
    case (update i old job)
    then show ?thesis
      using assms(1) wf update_active [OF wf update(1,2)] update_preparations [OF wf update(1,2)]
        update_writers_exclusive [OF wf update(1,2)]
      by (auto simp: registry_inv_def)
  qed
qed

lemma job_step_adv:
  assumes "registry_inv r" and "job_step rid_of r r'"
  shows "registry_adv r r'"
proof -
  have wf: "bt_wf (jr_jobs r)" using assms(1) by (simp add: registry_inv_def)
  from assms(2) wf show ?thesis
  proof (cases rule: job_step_cases)
    case (update i old job)
    have "can_transition_to\<^sup>*\<^sup>* (wj_state old) (wj_state job)"
      using update(2) by (auto simp: admits_update_def transition_allowed_def split: if_splits)
    with update wf show ?thesis by (auto simp: registry_adv_def admits_update_def)
  qed (use wf in \<open>auto simp: registry_adv_def\<close>)
qed

lemma registry_adv_job:
  assumes "registry_adv r r'" and "bt_get (jr_jobs r) i = Some job"
  obtains job' where "bt_get (jr_jobs r') i = Some job'" "wj_permit job' = wj_permit job"
    "can_transition_to\<^sup>*\<^sup>* (wj_state job) (wj_state job')" "is_terminal (wj_state job) \<Longrightarrow> job' = job"
  using assms unfolding registry_adv_def by blast

lemma registry_adv_trans:
  assumes ab: "registry_adv a b" and bc: "registry_adv b c"
  shows "registry_adv a c"
  unfolding registry_adv_def
proof (intro conjI allI impI)
  show "jr_binding c = jr_binding a" "jr_limits c = jr_limits a"
    using ab bc by (simp_all add: registry_adv_def)
  fix i job assume "bt_get (jr_jobs a) i = Some job"
  then obtain j1 where j1: "bt_get (jr_jobs b) i = Some j1" "wj_permit j1 = wj_permit job"
    "can_transition_to\<^sup>*\<^sup>* (wj_state job) (wj_state j1)" "is_terminal (wj_state job) \<Longrightarrow> j1 = job"
    by (rule registry_adv_job [OF ab]) blast
  from j1(1) obtain j2 where j2: "bt_get (jr_jobs c) i = Some j2" "wj_permit j2 = wj_permit j1"
    "can_transition_to\<^sup>*\<^sup>* (wj_state j1) (wj_state j2)" "is_terminal (wj_state j1) \<Longrightarrow> j2 = j1"
    by (rule registry_adv_job [OF bc]) blast
  show "\<exists>job'. bt_get (jr_jobs c) i = Some job' \<and> wj_permit job' = wj_permit job \<and>
      can_transition_to\<^sup>*\<^sup>* (wj_state job) (wj_state job') \<and> (is_terminal (wj_state job) \<longrightarrow> job' = job)"
    using j1 j2 by (intro exI [of _ j2]) auto
qed

interpretation jobs: ordered_transitions "job_step rid_of" registry_inv registry_adv
proof
  show "registry_inv s \<Longrightarrow> job_step rid_of s t \<Longrightarrow> registry_inv t" for s t by (rule job_step_inv)
  show "registry_adv s s" for s by (simp add: registry_adv_def)
  show "registry_adv s t \<Longrightarrow> registry_adv t u \<Longrightarrow> registry_adv s u" for s t u by (rule registry_adv_trans)
  show "registry_inv s \<Longrightarrow> job_step rid_of s t \<Longrightarrow> registry_adv s t" for s t by (rule job_step_adv)
qed

lemma with_limits_inv: "with_limits b l = Inr r \<Longrightarrow> registry_inv r"
  by (auto simp: with_limits_def registry_inv_def active_count_def preparation_count_def writers_exclusive_def
      split: if_splits)

section \<open>Retained output\<close>

definition output_size :: "job_output_chunk list \<Rightarrow> nat" where
  "output_size cs = length (concat (map oc_text cs))"

definition output_counted :: "workspace_job_snapshot \<Rightarrow> bool" where
  "output_counted job \<longleftrightarrow> unat (wj_output_bytes job) = output_size (wj_output job)"

lemma output_size_simps [simp]:
  "output_size [] = 0" "output_size (c # cs) = length (oc_text c) + output_size cs"
  "output_size (cs @ ds) = output_size cs + output_size ds"
  by (simp_all add: output_size_def)

lemma unat_of_nat_len: "n < 2 ^ 64 \<Longrightarrow> unat (of_nat n :: u64) = n"
  by (simp add: unsigned_of_nat take_bit_nat_eq_self)

lemma drop_chunks_spec:
  assumes "drop_chunks limit n t cs = (n', t', cs')" and "unat n = output_size cs"
  shows "unat n' = output_size cs'" and "suffix cs' cs" and "limit < n' \<Longrightarrow> length cs' \<le> 1"
    and "n \<le> limit \<Longrightarrow> cs' = cs"
proof -
  have "unat n' = output_size cs' \<and> suffix cs' cs \<and> (limit < n' \<longrightarrow> length cs' \<le> 1) \<and> (n \<le> limit \<longrightarrow> cs' = cs)"
    using assms
  proof (induction limit n t cs rule: drop_chunks.induct)
    case (1 limit n t c d cs)
    show ?case
    proof (cases "limit < n")
      case True
      have "unat n < 2 ^ 64" using unat_u64_bound [of n] by simp
      then have "length (oc_text c) < 2 ^ 64" using "1.prems"(2) by simp
      then have "unat (saturating_sub n (of_nat (length (oc_text c)))) = output_size (d # cs)"
        using "1.prems"(2) by (simp add: unat_saturating_sub unat_of_nat_len)
      with 1 True show ?thesis by (auto intro: suffix_ConsI)
    next
      case False
      with 1 show ?thesis by auto
    qed
  qed auto
  then show "unat n' = output_size cs'" and "suffix cs' cs" and "limit < n' \<Longrightarrow> length cs' \<le> 1"
    and "n \<le> limit \<Longrightarrow> cs' = cs" by auto
qed

lemma utf8_suffix_spec: "length (utf8_suffix s limit) \<le> unat limit" "suffix (utf8_suffix s limit) s"
proof -
  have "length (dropWhile utf8_continuation (drop (length s - unat limit) s)) \<le> length (drop (length s - unat limit) s)"
    by (rule length_dropWhile_le)
  then show "length (utf8_suffix s limit) \<le> unat limit" by (auto simp: utf8_suffix_def)
  show "suffix (utf8_suffix s limit) s"
    by (auto simp: utf8_suffix_def intro: suffix_order.trans [OF suffix_dropWhile suffix_drop])
qed

lemma suffix_concat: "suffix xs ys \<Longrightarrow> suffix (concat (map f xs)) (concat (map f ys))"
  by (auto simp: suffix_def)

lemma truncate_output_spec:
  assumes "output_counted job"
  shows "output_counted (truncate_output limit job)"
    and "output_size (wj_output (truncate_output limit job)) \<le> unat limit"
    and "suffix (concat (map oc_text (wj_output (truncate_output limit job)))) (concat (map oc_text (wj_output job)))"
    and "output_size (wj_output job) \<le> unat limit \<Longrightarrow> wj_output (truncate_output limit job) = wj_output job"
proof -
  obtain n t cs where d: "drop_chunks limit (wj_output_bytes job) (wj_output_truncated job) (wj_output job) = (n, t, cs)"
    by (cases "drop_chunks limit (wj_output_bytes job) (wj_output_truncated job) (wj_output job)")
  note spec = drop_chunks_spec [OF d] assms [unfolded output_counted_def]
  let ?j = "truncate_output limit job"
  have "output_counted ?j \<and> output_size (wj_output ?j) \<le> unat limit \<and>
      suffix (concat (map oc_text (wj_output ?j))) (concat (map oc_text cs)) \<and>
      (unat n \<le> unat limit \<longrightarrow> wj_output ?j = cs)"
  proof (cases "limit < n")
    case True
    then have "length cs \<le> 1" "cs \<noteq> []" using spec by (auto simp: word_less_nat_alt)
    then obtain c where cs: "cs = [c]" by (cases cs) auto
    let ?t = "utf8_suffix (oc_text c) limit"
    have "length ?t < 2 ^ 64"
      by (rule le_less_trans [OF utf8_suffix_spec(1) [of "oc_text c" limit]]) simp
    then show ?thesis
      using True d cs utf8_suffix_spec(1) [of "oc_text c" limit]
      by (auto simp: truncate_output_def output_counted_def Let_def unat_of_nat_len word_less_nat_alt
          intro: utf8_suffix_spec(2))
  next
    case False
    then show ?thesis using d spec by (auto simp: truncate_output_def output_counted_def word_less_nat_alt)
  qed
  then show "output_counted ?j" "output_size (wj_output ?j) \<le> unat limit"
    and "suffix (concat (map oc_text (wj_output ?j))) (concat (map oc_text (wj_output job)))"
    and "output_size (wj_output job) \<le> unat limit \<Longrightarrow> wj_output ?j = wj_output job"
    using spec suffix_concat [of cs "wj_output job" oc_text]
    by (auto simp: word_le_nat_alt intro: suffix_order.trans)
qed

lemma push_output_spec:
  assumes "output_counted job" and "output_size (wj_output job) + length text < 2 ^ 64"
  shows "output_counted (push_output now stream text job)"
    and "output_size (wj_output (push_output now stream text job)) \<le>
         unat (output_limit (js_limits (jp_spec (wj_permit job))))"
    and "suffix (concat (map oc_text (wj_output (push_output now stream text job))))
           (concat (map oc_text (wj_output job)) @ text)"
    and "output_size (wj_output job) + length text \<le> unat (output_limit (js_limits (jp_spec (wj_permit job)))) \<Longrightarrow>
         concat (map oc_text (wj_output (push_output now stream text job))) =
         concat (map oc_text (wj_output job)) @ text"
proof -
  let ?job1 = "job\<lparr>wj_next_output_sequence := saturating_add (wj_next_output_sequence job) 1,
                     wj_output_bytes := saturating_add (wj_output_bytes job) (of_nat (length text)),
                     wj_output := wj_output job @
                       [\<lparr>oc_sequence = wj_next_output_sequence job, oc_stream = stream, oc_text = text\<rparr>]\<rparr>"
  let ?lim = "output_limit (js_limits (jp_spec (wj_permit job)))"
  have "unat (saturating_add (wj_output_bytes job) (of_nat (length text))) = output_size (wj_output job) + length text"
    using assms by (simp add: output_counted_def unat_saturating_add unat_of_nat_len)
  then have "output_counted ?job1" by (simp add: output_counted_def)
  note t = truncate_output_spec [OF this, of ?lim]
  have eq: "wj_output (push_output now stream text job) = wj_output (truncate_output ?lim ?job1)"
    "wj_output_bytes (push_output now stream text job) = wj_output_bytes (truncate_output ?lim ?job1)"
    by (simp_all add: push_output_def Let_def)
  show "output_counted (push_output now stream text job)"
    using t(1) by (simp add: output_counted_def eq)
  show "output_size (wj_output (push_output now stream text job)) \<le> unat ?lim"
    using t(2) by (simp add: eq)
  show "suffix (concat (map oc_text (wj_output (push_output now stream text job))))
           (concat (map oc_text (wj_output job)) @ text)"
    using t(3) by (simp add: eq)
  show "concat (map oc_text (wj_output (push_output now stream text job))) = concat (map oc_text (wj_output job)) @ text"
    if "output_size (wj_output job) + length text \<le> unat ?lim"
    using t(4) that by (simp add: eq)
qed

section \<open>Properties\<close>

text \<open>C18. A finished job never changes: once a job is succeeded, failed, cancelled, orphaned or stale, its record
  is the same, to the last field, after every further sequence of registry calls, whatever fences,
  states and identifiers the callers present.\<close>

theorem finished_jobs_never_change:
  assumes "with_limits b l = Inr r0" and "(job_step rid_of)\<^sup>*\<^sup>* r0 r" and "(job_step rid_of)\<^sup>*\<^sup>* r r'"
    and "bt_get (jr_jobs r) i = Some job" and "is_terminal (wj_state job)"
  shows "bt_get (jr_jobs r') i = Some job"
proof -
  have "registry_inv r" using jobs.steps_inv [OF assms(2) with_limits_inv [OF assms(1)]] .
  then have "registry_adv r r'" by (rule jobs.steps_adv [OF assms(3)])
  then show ?thesis using assms(4,5) by (auto elim!: registry_adv_job)
qed

text \<open>C19. Admission limits and writer exclusion hold in every reachable registry: at most the allowed number of
  jobs are unfinished, at most the allowed number of candidate preparations are starting or running,
  and two different unfinished live writers can only be processes of a local workspace.\<close>

theorem registry_limits_hold:
  assumes "with_limits b l = Inr r0" and "(job_step rid_of)\<^sup>*\<^sup>* r0 r"
  shows "active_count (jr_jobs r) \<le> unat (max_active_jobs l) \<and>
    preparation_count (jr_jobs r) \<le> unat (max_preparations l) \<and>
    (\<forall>i j x y. i \<noteq> j \<and> bt_get (jr_jobs r) i = Some x \<and> bt_get (jr_jobs r) j = Some y \<and>
       \<not> is_terminal (wj_state x) \<and> \<not> is_terminal (wj_state y) \<and>
       js_effect_scope (jp_spec (wj_permit x)) = LiveWriter \<and> js_effect_scope (jp_spec (wj_permit y)) = LiveWriter \<longrightarrow>
       is_local_live_process b (jp_spec (wj_permit x)) \<and> is_local_live_process b (jp_spec (wj_permit y)))"
proof -
  have inv: "registry_inv r" using jobs.steps_inv [OF assms(2) with_limits_inv [OF assms(1)]] .
  have "registry_adv r0 r" by (rule jobs.steps_adv [OF assms(2) with_limits_inv [OF assms(1)]])
  moreover have "jr_limits r0 = l" "jr_binding r0 = b" using assms(1) by (auto simp: with_limits_def split: if_splits)
  ultimately have "jr_limits r = l" "jr_binding r = b" by (simp_all add: registry_adv_def)
  with inv show ?thesis unfolding registry_inv_def writers_exclusive_def by simp blast
qed

text \<open>C20. Stale callbacks are inert: a caller whose fence names another controller, binding or epoch gets a
  rejection from every operation, and the registry is left exactly as it was.\<close>

theorem stale_fence_inert:
  assumes "\<not> matches_binding f (jr_binding r)"
  shows "register uuid now f spec r = (Inl StaleFence, r) \<and>
    transition rid_of now f i expected nxt detail artifacts r = (Inl StaleFence, r) \<and>
    snd (seal rid_of now f i trm r) = r \<and> jso_status (fst (seal rid_of now f i trm r)) = SealRejected \<and>
    append_output now f i stream msg r = (Inl StaleFence, r) \<and>
    reconcile_recovery now f rid detail r = (Inl StaleFence, r) \<and>
    job_status f i r = Inl StaleFence \<and> barrier expired f kind r = Inl StaleFence"
  using assms
  by (simp add: register_def transition_def seal_def seal_rejected_def append_output_def reconcile_recovery_def
      job_status_def barrier_def ensure_fence_def)

text \<open>Write jobs succeed only by settling: when a candidate or live-writer job becomes succeeded, it was
  settling immediately before; recovery in particular never turns an interrupted writer into a
  success.\<close>

theorem writers_succeed_by_settling:
  assumes "with_limits b l = Inr r0" and "(job_step rid_of)\<^sup>*\<^sup>* r0 r" and "job_step rid_of r r'"
    and "bt_get (jr_jobs r) i = Some old" and "bt_get (jr_jobs r') i = Some job"
    and "wj_state job = JS_Succeeded" and "wj_state old \<noteq> JS_Succeeded"
    and "is_write_job (jp_spec (wj_permit old))"
  shows "wj_state old = JS_Settling"
proof -
  have "registry_inv r" using jobs.steps_inv [OF assms(2) with_limits_inv [OF assms(1)]] .
  then have wf: "bt_wf (jr_jobs r)" by (simp add: registry_inv_def)
  from assms(3) wf show ?thesis
  proof (cases rule: job_step_cases)
    case (update j o' j')
    then show ?thesis
      using assms(4-8) wf
      by (auto simp: admits_update_def transition_allowed_def is_write_job_def split: if_splits)
  qed (use assms(4-8) wf in \<open>auto split: if_splits\<close>)
qed

text \<open>Retained output is bounded and is the end of what was written: appending keeps the byte counter
  exact, retains at most the job's output limit, what is retained is a suffix of everything written
  so far, and nothing is dropped while it still fits.\<close>

theorem append_output_bounded:
  assumes "append_output now f i stream msg r = (Inr job, r')" and "bt_get (jr_jobs r) i = Some old"
    and "unat (wj_output_bytes old) = length (concat (map oc_text (wj_output old)))"
    and "length (concat (map oc_text (wj_output old))) + length msg < 2 ^ 64"
  shows "unat (wj_output_bytes job) = length (concat (map oc_text (wj_output job))) \<and>
    length (concat (map oc_text (wj_output job))) \<le> unat (output_limit (js_limits (jp_spec (wj_permit old)))) \<and>
    suffix (concat (map oc_text (wj_output job))) (concat (map oc_text (wj_output old)) @ msg) \<and>
    (length (concat (map oc_text (wj_output old))) + length msg \<le> unat (output_limit (js_limits (jp_spec (wj_permit old)))) \<longrightarrow>
       concat (map oc_text (wj_output job)) = concat (map oc_text (wj_output old)) @ msg)"
proof -
  from assms(1,2) have job: "job = push_output now stream msg old"
    by (cases rule: append_cases [of now f i stream msg r]) auto
  have "output_counted old" "output_size (wj_output old) + length msg < 2 ^ 64"
    using assms(3,4) by (simp_all only: output_counted_def output_size_def)
  from push_output_spec [OF this, of now stream] show ?thesis
    unfolding job output_counted_def output_size_def by blast
qed

section \<open>Admission into the running state\<close>

lemma registry_fence_put [simp]: "registry_fence (put_job i job r) = registry_fence r"
  by (simp add: registry_fence_def)

lemma seal_unstarted:
  assumes "bt_get (jr_jobs r) i = Some job" and "f = registry_fence r" and "matches_permit f (wj_permit job)"
    and "wj_state job \<in> {JS_Queued, JS_Starting}" and "jt_completion trm = JC_Failed"
  shows "snd (seal rid_of now f i trm r) = put_job i (seal_update rid_of now trm job) r"
proof -
  have "ensure_fence r f = Inr ()" using assms(2) fence_matches by simp
  then show ?thesis
    using assms by (auto simp: seal_def Let_def is_terminal_def transition_allowed_def)
qed

definition settled_admission ::
  "job_id \<Rightarrow> job_spec \<Rightarrow> job_registry \<Rightarrow> (job_registry_error, job_permit) result \<times> job_registry \<Rightarrow> bool" where
  "settled_admission uuid spec r x \<longleftrightarrow>
     (\<forall>j. j \<noteq> uuid \<longrightarrow> bt_get (jr_jobs (snd x)) j = bt_get (jr_jobs r) j) \<and>
     (case fst x of
        Inr p \<Rightarrow> jp_job_id p = uuid \<and> jp_spec p = spec \<and>
          (\<exists>job. bt_get (jr_jobs (snd x)) uuid = Some job \<and> wj_permit job = p \<and> wj_state job = JS_Running)
      | Inl e \<Rightarrow> snd x = r \<or>
          (\<exists>job. bt_get (jr_jobs (snd x)) uuid = Some job \<and> jp_spec (wj_permit job) = spec \<and> wj_state job = JS_Failed))"

lemma settled_admission_failed:
  assumes wf: "bt_wf (jr_jobs r1)" and get: "bt_get (jr_jobs r1) uuid = Some job" and f: "f = registry_fence r1"
    and m: "matches_permit f (wj_permit job)" "jp_spec (wj_permit job) = spec" "wj_state job \<in> {JS_Queued, JS_Starting}"
    and c: "jt_completion trm = JC_Failed" and same: "\<And>j. j \<noteq> uuid \<Longrightarrow> bt_get (jr_jobs r1) j = bt_get (jr_jobs r) j"
  shows "settled_admission uuid spec r (Inl e, snd (seal rid_of now f uuid trm r1))"
  using seal_unstarted [OF get f m(1,3) c, of rid_of now] wf m c same
  by (simp add: settled_admission_def)

lemma register_running_settled:
  assumes "bt_wf (jr_jobs r)" and "bt_get (jr_jobs r) uuid = None"
  shows "settled_admission uuid spec r (register_running rid_of uuid clock f spec r)"
proof (cases rule: register_cases [of uuid "clock 0" f spec r])
  case (refused e)
  then show ?thesis by (simp add: register_running_def settled_admission_def)
next
  case (granted p)
  let ?r0 = "put_job uuid (new_snapshot p (clock 0)) r"
  have r0: "bt_wf (jr_jobs ?r0)" "bt_get (jr_jobs ?r0) uuid = Some (new_snapshot p (clock 0))" "f = registry_fence ?r0"
    "matches_permit f p" "jp_job_id p = uuid" "jp_spec p = spec"
    using assms granted by simp_all
  show ?thesis
  proof (cases rule: transition_cases [of rid_of "clock 1" f uuid JS_Queued JS_Starting None "[]" ?r0])
    case (refused e)
    then show ?thesis
      using granted r0 assms(1) unfolding register_running_def
      by (auto simp: Let_def intro!: settled_admission_failed)
  next
    case t1: (taken old)
    then have old: "old = new_snapshot p (clock 0)" using r0(2) by simp
    let ?j1 = "transition_update rid_of (clock 1) JS_Starting None [] old"
    let ?r1 = "put_job uuid ?j1 ?r0"
    have r1: "bt_wf (jr_jobs ?r1)" "bt_get (jr_jobs ?r1) uuid = Some ?j1" "f = registry_fence ?r1"
      using r0 by simp_all
    show ?thesis
    proof (cases rule: transition_cases [of rid_of "clock 2" f uuid JS_Starting JS_Running None "[]" ?r1])
      case (refused e)
      then show ?thesis
        using granted r0 t1 old r1 assms(1) unfolding register_running_def
        by (auto simp: Let_def intro!: settled_admission_failed)
    next
      case t2: (taken old2)
      then have "old2 = ?j1" using r1(2) by simp
      then show ?thesis
        using granted r0 t1 t2 old r1 assms(1) by (simp add: register_running_def Let_def settled_admission_def)
    qed
  qed
qed

text \<open>Admission is all or nothing: registering a running job either returns a permit for a job that is then
  running, or returns an error and leaves either the registry untouched or the new job failed; no
  half-admitted job remains, and no other job is touched.\<close>

theorem admission_all_or_nothing:
  assumes "bt_wf (jr_jobs r)" and "bt_get (jr_jobs r) uuid = None"
  shows "(\<forall>j. j \<noteq> uuid \<longrightarrow> bt_get (jr_jobs (snd (register_running rid_of uuid clock f spec r))) j = bt_get (jr_jobs r) j) \<and>
     (case fst (register_running rid_of uuid clock f spec r) of
        Inr p \<Rightarrow> jp_job_id p = uuid \<and> jp_spec p = spec \<and>
          (\<exists>job. bt_get (jr_jobs (snd (register_running rid_of uuid clock f spec r))) uuid = Some job \<and>
             wj_permit job = p \<and> wj_state job = JS_Running)
      | Inl e \<Rightarrow> snd (register_running rid_of uuid clock f spec r) = r \<or>
          (\<exists>job. bt_get (jr_jobs (snd (register_running rid_of uuid clock f spec r))) uuid = Some job \<and>
             jp_spec (wj_permit job) = spec \<and> wj_state job = JS_Failed))"
  using register_running_settled [OF assms, of spec rid_of clock f] unfolding settled_admission_def by simp

section \<open>Restarting\<close>

definition conservative :: "workspace_job_snapshot \<Rightarrow> workspace_job_snapshot \<Rightarrow> bool" where
  "conservative old job \<longleftrightarrow>
     wj_permit job = wj_permit old \<and>
     (if is_terminal (wj_state old) then job = old
      else wj_state job \<in> {JS_Orphaned, JS_Stale} \<or>
           wj_state job = JS_RecoveryRequired \<and> is_write_job (jp_spec (wj_permit old)) \<and> wj_recovery_id job \<noteq> None)"

lemma restore_job_conservative: "conservative old (restore_job rid_of now b old)"
proof (cases "is_terminal (wj_state old)")
  case True
  then show ?thesis by (simp add: conservative_def restore_job_def)
next
  case False
  have "restored_state b (wj_permit old) \<in> {JS_Orphaned, JS_Stale} \<or>
      restored_state b (wj_permit old) = JS_RecoveryRequired \<and> is_write_job (jp_spec (wj_permit old))"
    by (auto simp: restored_state_def)
  with False show ?thesis by (auto simp: conservative_def restore_job_def advance_job_def Let_def)
qed

lemma restore_jobs_spec:
  "restore_jobs rid_of clock jobs r rep = Inr (r', rep') \<Longrightarrow> bt_wf (jr_jobs r) \<Longrightarrow>
   bt_wf (jr_jobs r') \<and>
   (\<forall>i job. bt_get (jr_jobs r) i = Some job \<longrightarrow> bt_get (jr_jobs r') i = Some job) \<and>
   (\<forall>old \<in> set jobs. \<exists>job. bt_get (jr_jobs r') (jp_job_id (wj_permit old)) = Some job \<and> conservative old job) \<and>
   (\<forall>i job. bt_get (jr_jobs r') i = Some job \<longrightarrow> bt_get (jr_jobs r) i = Some job \<or>
      (\<exists>old \<in> set jobs. jp_job_id (wj_permit old) = i \<and> conservative old job))"
proof (induction jobs arbitrary: r rep)
  case Nil
  then show ?case by (auto simp: publish_def)
next
  case (Cons old jobs)
  let ?i = "jp_job_id (wj_permit old)"
  let ?job = "restore_job rid_of (clock (length jobs)) (jr_binding r) old"
  let ?r1 = "r\<lparr>jr_jobs := bt_insert ?i ?job (jr_jobs r)\<rparr>"
  from Cons.prems(1) have fresh: "bt_get (jr_jobs r) ?i = None"
    and rest: "restore_jobs rid_of clock jobs ?r1 (report_restart (jr_binding r) old rep) = Inr (r', rep')"
    by (auto simp: Let_def split: if_splits)
  have wf1: "bt_wf (jr_jobs ?r1)" using Cons.prems(2) by simp
  note ih = Cons.IH [OF rest wf1]
  have put: "bt_get (jr_jobs ?r1) j = (if j = ?i then Some ?job else bt_get (jr_jobs r) j)" for j
    using Cons.prems(2) by simp
  have keep: "bt_get (jr_jobs r') i = Some job" if "bt_get (jr_jobs ?r1) i = Some job" for i job
    using ih that by blast
  have head: "bt_get (jr_jobs r') ?i = Some ?job" using keep [of ?i ?job] put by simp
  have old: "bt_get (jr_jobs r') j = Some job" if "bt_get (jr_jobs r) j = Some job" for j job
  proof -
    have "j \<noteq> ?i" using that fresh by auto
    then show ?thesis using keep [of j job] put that by simp
  qed
  have cons: "conservative old ?job" by (rule restore_job_conservative)
  have origin: "bt_get (jr_jobs r) i = Some job \<or>
      (\<exists>o' \<in> set (old # jobs). jp_job_id (wj_permit o') = i \<and> conservative o' job)"
    if "bt_get (jr_jobs r') i = Some job" for i job
  proof (cases "i = ?i")
    case True
    then show ?thesis using that head cons by auto
  next
    case False
    then have "bt_get (jr_jobs ?r1) i = bt_get (jr_jobs r) i" using put by simp
    moreover have "bt_get (jr_jobs ?r1) i = Some job \<or>
        (\<exists>o' \<in> set jobs. jp_job_id (wj_permit o') = i \<and> conservative o' job)"
      using ih that by blast
    ultimately show ?thesis by auto
  qed
  show ?case using ih head cons old origin by (intro conjI) auto
qed

text \<open>Restarting is conservative: every restored job is one of the saved jobs and none is lost; finished ones
  are restored unchanged, and an unfinished one becomes orphaned, stale, or, if it may have written
  to the workspace, a job that requires recovery under a recovery identifier. None becomes a success.\<close>

theorem restore_conservative:
  assumes "restore rid_of clock b l jobs = Inr (r, rep)"
  shows "(\<forall>old \<in> set jobs. bt_get (jr_jobs r) (jp_job_id (wj_permit old)) \<noteq> None) \<and>
    (\<forall>i job. bt_get (jr_jobs r) i = Some job \<longrightarrow>
      (\<exists>old \<in> set jobs. jp_job_id (wj_permit old) = i \<and> wj_permit job = wj_permit old \<and>
         (if is_terminal (wj_state old) then job = old
          else wj_state job \<in> {JS_Orphaned, JS_Stale} \<or>
               wj_state job = JS_RecoveryRequired \<and> is_write_job (jp_spec (wj_permit old)) \<and>
               wj_recovery_id job \<noteq> None)))"
proof -
  from assms obtain r0 rep0 where r0: "with_limits b l = Inr r0" "restore_jobs rid_of clock jobs r0 rep0 = Inr (r, rep)"
    by (auto simp: restore_def)
  then have "jr_jobs r0 = []" by (auto simp: with_limits_def split: if_splits)
  with restore_jobs_spec [OF r0(2)] show ?thesis unfolding conservative_def by fastforce
qed

section \<open>A small history\<close>

definition sample_binding :: workspace_binding where
  "sample_binding = new_local ''b'' ''c'' ''w'' ''/root'' ''/state''"

definition sample_spec :: "job_kind \<Rightarrow> effect_scope \<Rightarrow> job_spec" where
  "sample_spec kind scope =
     \<lparr>js_kind = kind, js_effect_scope = scope, js_name = ''job'',
      js_limits = \<lparr>jl_queue_ms = None, jl_execution_ms = None, jl_verification_ms = None, jl_output_bytes = Some 4\<rparr>,
      js_parent_operation = None\<rparr>"

definition sample_terminal :: "job_completion \<Rightarrow> job_terminal" where
  "sample_terminal c = \<lparr>jt_completion = c, jt_detail = None, jt_artifacts = []\<rparr>"

definition sample_fence :: job_fence where
  "sample_fence = fence_of_binding sample_binding"

definition registry0 :: job_registry where
  "registry0 = \<lparr>jr_binding = sample_binding, jr_limits = default_limits, jr_sequence = 0, jr_jobs = []\<rparr>"

definition registry1 :: job_registry where
  "registry1 = snd (register ''j1'' 1 sample_fence (sample_spec JK_WriteCandidate CandidateOnly) registry0)"

definition registry2 :: job_registry where
  "registry2 = snd (transition (\<lambda>_. ''rec'') 2 sample_fence ''j1'' JS_Queued JS_Starting None [] registry1)"

definition registry3 :: job_registry where
  "registry3 = snd (transition (\<lambda>_. ''rec'') 3 sample_fence ''j1'' JS_Starting JS_Running None [] registry2)"

definition registry4 :: job_registry where
  "registry4 = snd (seal (\<lambda>_. ''rec'') 4 sample_fence ''j1'' (sample_terminal JC_Settling) registry3)"

definition registry5 :: job_registry where
  "registry5 = snd (seal (\<lambda>_. ''rec'') 5 sample_fence ''j1'' (sample_terminal JC_Succeeded) registry4)"

definition registry6 :: job_registry where
  "registry6 = snd (register ''j2'' 6 sample_fence (sample_spec JK_Process LiveWriter) registry5)"

lemmas registry_eval = registry_fence_def fence_of_binding_def matches_binding_def matches_permit_def
  ensure_fence_def ensure_job_fence_def register_def transition_def seal_def active_count_def preparation_count_def
  new_snapshot_def transition_update_def seal_update_def advance_job_def put_job_def publish_def Let_def
  transition_allowed_def is_candidate_def is_preparation_def is_terminal_def sample_spec_def sample_terminal_def
  sample_fence_def sample_binding_def new_local_def default_limits_def bt_insert.simps saturating_add_def
  live_writers_conflict_def is_local_live_process_def

lemma registry_states:
  "wj_state (the (bt_get (jr_jobs registry1) ''j1'')) = JS_Queued"
  "wj_state (the (bt_get (jr_jobs registry4) ''j1'')) = JS_Settling"
  "\<exists>job. bt_get (jr_jobs registry4) ''j1'' = Some job \<and> wj_state job = JS_Settling \<and>
     is_write_job (jp_spec (wj_permit job))"
  "\<exists>job. bt_get (jr_jobs registry5) ''j1'' = Some job \<and> wj_state job = JS_Succeeded"
  "bt_get (jr_jobs registry5) ''j2'' = None"
  by (simp_all add: registry_eval registry0_def registry1_def registry2_def registry3_def registry4_def registry5_def
      is_write_job_def)

lemma registry_history:
  "with_limits sample_binding default_limits = Inr registry0"
  "(job_step (\<lambda>_. ''rec''))\<^sup>*\<^sup>* registry0 registry4"
  "job_step (\<lambda>_. ''rec'') registry4 registry5"
  "job_step (\<lambda>_. ''rec'') registry5 registry6"
proof -
  show "with_limits sample_binding default_limits = Inr registry0"
    by (simp add: with_limits_def default_limits_def registry0_def)
  have "job_step (\<lambda>_. ''rec'') registry0 registry1"
    unfolding registry1_def by (rule step_register) (simp add: registry0_def)
  moreover have "job_step (\<lambda>_. ''rec'') registry1 registry2" unfolding registry2_def by (rule step_transition)
  moreover have "job_step (\<lambda>_. ''rec'') registry2 registry3" unfolding registry3_def by (rule step_transition)
  moreover have "job_step (\<lambda>_. ''rec'') registry3 registry4" unfolding registry4_def by (rule step_seal)
  ultimately show "(job_step (\<lambda>_. ''rec''))\<^sup>*\<^sup>* registry0 registry4"
    by (meson rtranclp.rtrancl_into_rtrancl rtranclp.rtrancl_refl)
  show "job_step (\<lambda>_. ''rec'') registry4 registry5" unfolding registry5_def by (rule step_seal)
  show "job_step (\<lambda>_. ''rec'') registry5 registry6"
    unfolding registry6_def by (rule step_register) (rule registry_states(5))
qed

theorem finished_jobs_never_change_witness:
  "\<exists>job. bt_get (jr_jobs registry5) ''j1'' = Some job \<and> is_terminal (wj_state job) \<and>
     bt_get (jr_jobs registry6) ''j1'' = Some job"
proof -
  obtain job where job: "bt_get (jr_jobs registry5) ''j1'' = Some job" "wj_state job = JS_Succeeded"
    using registry_states(4) by blast
  then have t: "is_terminal (wj_state job)" by (simp add: is_terminal_def)
  have "(job_step (\<lambda>_. ''rec''))\<^sup>*\<^sup>* registry0 registry5"
    using registry_history(2,3) by (rule rtranclp.rtrancl_into_rtrancl)
  moreover have "(job_step (\<lambda>_. ''rec''))\<^sup>*\<^sup>* registry5 registry6"
    using registry_history(4) by blast
  ultimately have "bt_get (jr_jobs registry6) ''j1'' = Some job"
    using finished_jobs_never_change [OF registry_history(1)] job(1) t by blast
  then show ?thesis using job(1) t by blast
qed

theorem registry_limits_hold_witness:
  "active_count (jr_jobs registry4) \<le> 16 \<and> preparation_count (jr_jobs registry4) \<le> 4"
  using registry_limits_hold [OF registry_history(1,2)] by (simp add: default_limits_def)

theorem stale_fence_inert_witness:
  "register ''x'' 9 (sample_fence\<lparr>jf_epoch := 1\<rparr>) (sample_spec JK_Hook ReadOnly) registry0 = (Inl StaleFence, registry0)"
proof -
  have "\<not> matches_binding (sample_fence\<lparr>jf_epoch := 1\<rparr>) (jr_binding registry0)"
    by (simp add: registry_eval registry0_def)
  from stale_fence_inert [OF this] show ?thesis by blast
qed

theorem writers_succeed_by_settling_witness:
  "\<exists>old job. bt_get (jr_jobs registry4) ''j1'' = Some old \<and> bt_get (jr_jobs registry5) ''j1'' = Some job \<and>
     wj_state job = JS_Succeeded \<and> wj_state old = JS_Settling"
proof -
  obtain old where old: "bt_get (jr_jobs registry4) ''j1'' = Some old" "wj_state old \<noteq> JS_Succeeded"
    "is_write_job (jp_spec (wj_permit old))" using registry_states(3) by auto
  obtain job where job: "bt_get (jr_jobs registry5) ''j1'' = Some job" "wj_state job = JS_Succeeded"
    using registry_states(4) by blast
  from writers_succeed_by_settling [OF registry_history(1,2,3) old(1) job old(2,3)] old job show ?thesis by blast
qed

lemma append_example:
  "\<exists>old job r'. append_output 9 sample_fence ''j1'' Stdout ''abcdef'' registry1 = (Inr job, r') \<and>
     bt_get (jr_jobs registry1) ''j1'' = Some old \<and> wj_output old = [] \<and> wj_output_bytes old = 0 \<and>
     jl_output_bytes (js_limits (jp_spec (wj_permit old))) = Some 4"
  by (simp add: append_output_def job_status_def registry_eval registry0_def registry1_def)

theorem append_output_bounded_witness:
  "\<exists>job r'. append_output 9 sample_fence ''j1'' Stdout ''abcdef'' registry1 = (Inr job, r') \<and>
     length (concat (map oc_text (wj_output job))) \<le> 4"
proof -
  from append_example obtain old job r' where e: "append_output 9 sample_fence ''j1'' Stdout ''abcdef'' registry1 = (Inr job, r')"
    "bt_get (jr_jobs registry1) ''j1'' = Some old" "wj_output old = []" "wj_output_bytes old = 0"
    "jl_output_bytes (js_limits (jp_spec (wj_permit old))) = Some 4" by blast
  have c: "unat (wj_output_bytes old) = length (concat (map oc_text (wj_output old)))"
    "length (concat (map oc_text (wj_output old))) + length ''abcdef'' < 2 ^ 64" using e(3,4) by simp_all
  from append_output_bounded [OF e(1,2) c] e(1,5) show ?thesis by (auto simp: output_limit_def)
qed

theorem admission_all_or_nothing_witness:
  "\<exists>p job. fst (register_running (\<lambda>_. ''rec'') ''j9'' (\<lambda>_. 7) sample_fence (sample_spec JK_ReadAgent ReadOnly) registry0) = Inr p \<and>
     bt_get (jr_jobs (snd (register_running (\<lambda>_. ''rec'') ''j9'' (\<lambda>_. 7) sample_fence (sample_spec JK_ReadAgent ReadOnly) registry0))) ''j9'' =
       Some job \<and> wj_state job = JS_Running"
proof -
  have fresh: "bt_wf (jr_jobs registry0)" "bt_get (jr_jobs registry0) ''j9'' = None" by (simp_all add: registry0_def)
  have "\<exists>p. fst (register_running (\<lambda>_. ''rec'') ''j9'' (\<lambda>_. 7) sample_fence (sample_spec JK_ReadAgent ReadOnly) registry0) = Inr p"
    by (simp add: register_running_def registry_eval registry0_def)
  with admission_all_or_nothing [OF fresh, of "\<lambda>_. ''rec''" "\<lambda>_. 7" sample_fence "sample_spec JK_ReadAgent ReadOnly"]
  show ?thesis by auto
qed

theorem restore_conservative_witness:
  "\<exists>old r rep job. bt_get (jr_jobs registry3) ''j1'' = Some old \<and>
     restore (\<lambda>_. ''rec'') (\<lambda>_. 8) sample_binding default_limits [old] = Inr (r, rep) \<and>
     bt_get (jr_jobs r) ''j1'' = Some job \<and> wj_state job \<in> {JS_Orphaned, JS_Stale, JS_RecoveryRequired}"
proof -
  have "\<exists>old. bt_get (jr_jobs registry3) ''j1'' = Some old \<and> jp_job_id (wj_permit old) = ''j1'' \<and>
      wj_state old = JS_Running \<and> jp_schema_version (wj_permit old) = 1"
    by (simp add: registry_eval registry0_def registry1_def registry2_def registry3_def
        WORKSPACE_CONTRACT_SCHEMA_VERSION_def)
  then obtain old where old: "bt_get (jr_jobs registry3) ''j1'' = Some old" "jp_job_id (wj_permit old) = ''j1''"
    "wj_state old = JS_Running" "jp_schema_version (wj_permit old) = 1" by blast
  have "\<exists>r rep. restore (\<lambda>_. ''rec'') (\<lambda>_. 8) sample_binding default_limits [old] = Inr (r, rep)"
    using old by (simp add: restore_def with_limits_def default_limits_def Let_def WORKSPACE_CONTRACT_SCHEMA_VERSION_def)
  then obtain r rep where r: "restore (\<lambda>_. ''rec'') (\<lambda>_. 8) sample_binding default_limits [old] = Inr (r, rep)" by blast
  note c = restore_conservative [OF r]
  then obtain job where job: "bt_get (jr_jobs r) ''j1'' = Some job" using old(2) by auto
  have "\<not> is_terminal (wj_state old)" using old(3) by (simp add: is_terminal_def)
  with c job have "wj_state job \<in> {JS_Orphaned, JS_Stale, JS_RecoveryRequired}" by fastforce
  with old(1) r job show ?thesis by blast
qed

end
