(* ===== verification/Workspace_Controller.thy ===== *)
theory Workspace_Controller
  imports Job_Registry_Correct
begin

text \<open>
  The in-memory workspace controller, \<open>in_memory.rs\<close>, \<open>in_memory_limits.rs\<close> and the permits of \<open>controller.rs\<close> in
  \<open>crates/hi-workspace/src\<close>: admission of mutations and jobs, settlement, abandonment, recovery and
  rebinding. All of it happens under one lock, so an operation is a function on the controller's
  state; UUIDs, the clock and the outcome of the failpoint are arguments. The watch channel repeats
  the status at every \<open>publish\<close> and holds no state of its own.
\<close>

section \<open>Permits\<close>

record mutation_permit =
  pm_record :: mutation_permit_record
  pm_armed :: bool

datatype permit_claim_error = WrongController | AlreadyClaimed

definition issue_mutation :: "controller_id \<Rightarrow> mutation_permit_record \<Rightarrow> mutation_permit" where
  "issue_mutation issuer r = \<lparr>pm_record = r\<lparr>mp_controller_id := issuer\<rparr>, pm_armed = True\<rparr>"

definition claim_mutation ::
  "controller_id \<Rightarrow> mutation_permit \<Rightarrow> (permit_claim_error, mutation_permit_record) result \<times> mutation_permit" where
  "claim_mutation issuer p =
     (if mp_controller_id (pm_record p) \<noteq> issuer then (Inl WrongController, p)
      else if \<not> pm_armed p then (Inl AlreadyClaimed, p)
      else (Inr (pm_record p), p\<lparr>pm_armed := False\<rparr>))"

definition claim_error_text :: "permit_claim_error \<Rightarrow> string" where
  "claim_error_text e =
     (case e of
        WrongController \<Rightarrow> ''mutation permit belongs to a different controller''
      | AlreadyClaimed \<Rightarrow> ''mutation permit has already been claimed'')"

section \<open>State\<close>

record ws_controller =
  wc_issuer :: controller_id
  wc_binding :: workspace_binding
  wc_capabilities :: workspace_capabilities
  wc_status :: workspace_status
  wc_active :: "mutation_permit_record option"
  wc_jobs :: job_registry
  wc_recoveries :: "(recovery_id, recovery_record) btree_map"

definition wc_publish :: "ws_controller \<Rightarrow> ws_controller" where
  "wc_publish c = c\<lparr>wc_status := (wc_status c)\<lparr>wst_sequence := saturating_add (wst_sequence (wc_status c)) 1\<rparr>\<rparr>"

definition nonterminal_job_ids :: "job_registry \<Rightarrow> job_id list" where
  "nonterminal_job_ids r =
     map (\<lambda>job. jp_job_id (wj_permit job))
       (filter (\<lambda>job. \<not> is_terminal (wj_state job)) (wjs_jobs (registry_snapshot r)))"

definition denied :: "ws_controller \<Rightarrow> admission_denied_reason \<Rightarrow> string \<Rightarrow> admission_denied" where
  "denied c reason detail = \<lparr>ad_reason = reason, ad_state = wst_state (wc_status c), ad_detail = detail\<rparr>"

definition make_recovery ::
  "recovery_id \<Rightarrow> u64 \<Rightarrow> workspace_binding \<Rightarrow> recovery_kind \<Rightarrow> operation_id option \<Rightarrow> job_id option \<Rightarrow> string \<Rightarrow>
   recovery_record" where
  "make_recovery uuid now b kind oper job detail =
     \<lparr>rr_schema_version = WORKSPACE_CONTRACT_SCHEMA_VERSION, rr_recovery_id = uuid, rr_kind = kind,
      rr_binding_id = wb_binding_id b, rr_epoch = wb_epoch b, rr_operation_id = oper, rr_job_id = job,
      rr_detail = detail, rr_created_at_ms = now, rr_resolved = False\<rparr>"

text \<open>Entering recovery: the status names the record, which joins the map.\<close>

definition fence_for_recovery :: "recovery_record \<Rightarrow> ws_controller \<Rightarrow> ws_controller" where
  "fence_for_recovery rec c =
     c\<lparr>wc_status := (wc_status c)\<lparr>wst_state := WS_RecoveryRequired,
                                 wst_recovery_id := Some (rr_recovery_id rec),
                                 wst_detail := Some (rr_detail rec)\<rparr>,
       wc_recoveries := bt_insert (rr_recovery_id rec) rec (wc_recoveries c)\<rparr>"

definition clear_active :: "ws_controller \<Rightarrow> ws_controller" where
  "clear_active c = c\<lparr>wc_active := None, wc_status := (wc_status c)\<lparr>wst_active_operation := None\<rparr>\<rparr>"

section \<open>Construction\<close>

definition valid_job_limits :: "job_registry_limits \<Rightarrow> bool" where
  "valid_job_limits l \<longleftrightarrow> 0 < max_preparations l \<and> 0 < max_active_jobs l"

definition controller_of_binding ::
  "workspace_binding \<Rightarrow> workspace_capabilities \<Rightarrow> job_registry_limits \<Rightarrow> ws_controller option" where
  "controller_of_binding b caps l =
     (if \<not> valid_job_limits l then None
      else case with_limits b l of
        Inl _ \<Rightarrow> None
      | Inr jobs \<Rightarrow>
          Some \<lparr>wc_issuer = wb_controller_id b, wc_binding = b, wc_capabilities = caps,
                wc_status = status_ready b, wc_active = None, wc_jobs = jobs, wc_recoveries = []\<rparr>)"

text \<open>\<open>None\<close> is the failed assertion on the limits.\<close>

definition new_local_at_epoch_with_job_limits ::
  "controller_id \<Rightarrow> binding_id \<Rightarrow> workspace_id \<Rightarrow> path_buf \<Rightarrow> path_buf \<Rightarrow> u64 \<Rightarrow> job_registry_limits \<Rightarrow>
   ws_controller option" where
  "new_local_at_epoch_with_job_limits issuer uuid workspace root state epoch l =
     controller_of_binding ((new_local uuid issuer workspace root state)\<lparr>wb_epoch := epoch\<rparr>) capabilities_in_memory l"

definition new_pipefs_at_epoch_with_job_limits ::
  "controller_id \<Rightarrow> binding_id \<Rightarrow> workspace_id \<Rightarrow> string \<Rightarrow> u16 \<Rightarrow> bool \<Rightarrow> path_buf \<Rightarrow> path_buf \<Rightarrow> u64 \<Rightarrow>
   job_registry_limits \<Rightarrow> ws_controller option" where
  "new_pipefs_at_epoch_with_job_limits issuer uuid workspace session protocol causal root state epoch l =
     controller_of_binding ((new_pipefs uuid issuer workspace session protocol root state)\<lparr>wb_epoch := epoch\<rparr>)
       (capabilities_pipefs causal) l"

definition new_local_at_epoch ::
  "controller_id \<Rightarrow> binding_id \<Rightarrow> workspace_id \<Rightarrow> path_buf \<Rightarrow> path_buf \<Rightarrow> u64 \<Rightarrow> ws_controller option" where
  "new_local_at_epoch issuer uuid workspace root state epoch =
     new_local_at_epoch_with_job_limits issuer uuid workspace root state epoch default_limits"

definition new_pipefs_at_epoch ::
  "controller_id \<Rightarrow> binding_id \<Rightarrow> workspace_id \<Rightarrow> string \<Rightarrow> u16 \<Rightarrow> bool \<Rightarrow> path_buf \<Rightarrow> path_buf \<Rightarrow> u64 \<Rightarrow> ws_controller option" where
  "new_pipefs_at_epoch issuer uuid workspace session protocol causal root state epoch =
     new_pipefs_at_epoch_with_job_limits issuer uuid workspace session protocol causal root state epoch default_limits"

section \<open>Mutations\<close>

definition live_writer_states :: "ws_controller \<Rightarrow> job_state list" where
  "live_writer_states c =
     map wj_state
       (filter (\<lambda>job. \<not> is_terminal (wj_state job) \<and> js_effect_scope (jp_spec (wj_permit job)) = LiveWriter \<and>
                      \<not> is_local_live_process (wc_binding c) (jp_spec (wj_permit job)))
         (wjs_jobs (registry_snapshot (wc_jobs c))))"

definition begin_mutation ::
  "operation_id \<Rightarrow> idempotency_key \<Rightarrow> u64 \<Rightarrow> mutation_intent \<Rightarrow> ws_controller \<Rightarrow>
   (admission_denied, mutation_permit) result \<times> ws_controller" where
  "begin_mutation uuid key now intent c =
     (if \<not> admits_mutation (wst_state (wc_status c)) then
        (Inl (denied c AD_NotReady
           (admission_block_detail (wc_status c) ''workspace is not ready for mutation admission'')), c)
      else if wc_active c \<noteq> None then
        (Inl (denied c AD_ActiveMutation ''another mutation is already active''), c)
      else
        let writers = live_writer_states c;
            ready = writers \<noteq> [] \<and> list_all (\<lambda>s. s = JS_DurabilityPending) writers
        in if \<not> (writers = [] \<or> is_reconciliation intent \<and> ready) then
             (Inl (denied c AD_ActiveWriter
                (admission_block_detail (wc_status c) ''a live writer job blocks mutation admission'')), c)
           else
             let r = \<lparr>mp_schema_version = WORKSPACE_CONTRACT_SCHEMA_VERSION, mp_controller_id = wc_issuer c,
                      mp_operation_id = uuid,
                      mp_idempotency_key = operation_idempotency_key key (mi_replay_class intent),
                      mp_binding_id = wb_binding_id (wc_binding c), mp_epoch = wb_epoch (wc_binding c),
                      mp_base_version = wb_version (wc_binding c), mp_intent = intent, mp_issued_at_ms = now\<rparr>;
                 c1 = c\<lparr>wc_active := Some r,
                        wc_status := (wc_status c)\<lparr>wst_state := WS_Mutating, wst_active_operation := Some uuid,
                                                  wst_detail := None\<rparr>\<rparr>
             in (Inr (issue_mutation (wc_issuer c) r), wc_publish c1))"

definition mutation_abandoned ::
  "recovery_id \<Rightarrow> u64 \<Rightarrow> mutation_permit_record \<Rightarrow> ws_controller \<Rightarrow> ws_controller" where
  "mutation_abandoned uuid now r c =
     (case wc_active c of
        None \<Rightarrow> c
      | Some a \<Rightarrow>
          if mp_operation_id a \<noteq> mp_operation_id r then c
          else wc_publish (fence_for_recovery
                 (make_recovery uuid now (wc_binding c) RK_AbandonedMutation (Some (mp_operation_id r)) None
                    ''admitted mutation permit was dropped before settlement'')
                 (clear_active c)))"

text \<open>Dropping a permit calls the handler of its issuer if the permit is still armed.\<close>

definition permit_drop :: "recovery_id \<Rightarrow> u64 \<Rightarrow> mutation_permit \<Rightarrow> ws_controller \<Rightarrow> ws_controller" where
  "permit_drop uuid now p c = (if pm_armed p then mutation_abandoned uuid now (pm_record p) c else c)"

definition settle_current ::
  "string \<Rightarrow> recovery_id \<Rightarrow> u64 \<Rightarrow> mutation_permit_record \<Rightarrow> execution_report \<Rightarrow> ws_controller \<Rightarrow>
   settlement_outcome \<times> ws_controller" where
  "settle_current receipt_uuid recovery_uuid now r rep c0 =
     (let c = wc_publish (c0\<lparr>wc_status := (wc_status c0)\<lparr>wst_state := WS_Settling\<rparr>\<rparr>)
      in if er_disposition rep = ED_Indeterminate then
           let rec = make_recovery recovery_uuid now (wc_binding c) RK_UnsettledMutation (Some (mp_operation_id r)) None
                 (unwrap_or (er_detail rep) ''mutation effects could not be proven settled'')
           in (\<lparr>sto_status = SS_Indeterminate, sto_operation_id = mp_operation_id r, sto_receipt = None,
                sto_recovery_id = Some (rr_recovery_id rec), sto_detail = er_detail rep\<rparr>,
               wc_publish (fence_for_recovery rec (clear_active c)))
         else
           let c1 = (if er_workspace_may_have_changed rep
                     then c\<lparr>wc_binding := (wc_binding c)\<lparr>wb_version :=
                            advance_after_settlement (wb_version (wc_binding c)) (er_content_digest rep)\<rparr>\<rparr>
                     else c);
               receipt = \<lparr>sr_receipt_id = receipt_uuid, sr_operation_id = mp_operation_id r,
                          sr_binding_id = wb_binding_id (wc_binding c1), sr_epoch = wb_epoch (wc_binding c1),
                          sr_version = wb_version (wc_binding c1), sr_transcript_cursor = None\<rparr>;
               c2 = clear_active c1;
               c3 = c2\<lparr>wc_status := (wc_status c2)\<lparr>wst_state := WS_Ready, wst_recovery_id := None,
                                                  wst_detail := None\<rparr>\<rparr>
           in (\<lparr>sto_status = (if er_workspace_may_have_changed rep \<or> er_external_effect_may_have_occurred rep
                              then SS_Durable else SS_NoChange),
                sto_operation_id = mp_operation_id r, sto_receipt = Some receipt, sto_recovery_id = None,
                sto_detail = er_detail rep\<rparr>, wc_publish c3))"

definition is_current :: "mutation_permit_record \<Rightarrow> ws_controller \<Rightarrow> bool" where
  "is_current r c =
     (case wc_active c of
        None \<Rightarrow> False
      | Some a \<Rightarrow> mp_operation_id a = mp_operation_id r \<and> mp_binding_id a = mp_binding_id r \<and> mp_epoch a = mp_epoch r)"

text \<open>
  \<open>settle\<close> takes the permit, so it is dropped at the end: the result has the permit as it is then, for
  \<open>permit_drop\<close>. A permit that was claimed is disarmed and its drop does nothing; one of another
  controller is still armed and its drop reaches that controller.
\<close>

definition settle ::
  "string \<Rightarrow> recovery_id \<Rightarrow> u64 \<Rightarrow> mutation_permit \<Rightarrow> execution_report \<Rightarrow> ws_controller \<Rightarrow>
   settlement_outcome \<times> mutation_permit \<times> ws_controller" where
  "settle receipt_uuid recovery_uuid now p rep c =
     (case claim_mutation (wc_issuer c) p of
        (Inl e, p') \<Rightarrow>
          (\<lparr>sto_status = SS_Incompatible, sto_operation_id = mp_operation_id (pm_record p), sto_receipt = None,
            sto_recovery_id = None, sto_detail = Some (claim_error_text e)\<rparr>, p', c)
      | (Inr r, p') \<Rightarrow>
          if \<not> is_current r c then
            (\<lparr>sto_status = SS_Incompatible, sto_operation_id = mp_operation_id r, sto_receipt = None,
              sto_recovery_id = wst_recovery_id (wc_status c),
              sto_detail = Some ''mutation permit is stale or is not the active operation''\<rparr>, p', c)
          else (case settle_current receipt_uuid recovery_uuid now r rep c of (out, c') \<Rightarrow> (out, p', c')))"

section \<open>Jobs\<close>

definition refresh_jobs :: "ws_controller \<Rightarrow> ws_controller" where
  "refresh_jobs c = c\<lparr>wc_status := (wc_status c)\<lparr>wst_active_jobs := nonterminal_job_ids (wc_jobs c)\<rparr>\<rparr>"

definition register_job ::
  "(job_permit \<Rightarrow> recovery_id) \<Rightarrow> job_id \<Rightarrow> (nat \<Rightarrow> u64) \<Rightarrow> job_spec \<Rightarrow> ws_controller \<Rightarrow>
   (admission_denied, job_permit) result \<times> ws_controller" where
  "register_job rid_of uuid clock spec c =
     (let belongs = (case wc_active c of None \<Rightarrow> False | Some a \<Rightarrow> js_parent_operation spec = Some (mp_operation_id a))
      in if \<not> admits_mutation (wst_state (wc_status c)) \<and> \<not> belongs then
           (Inl (denied c AD_NotReady
              (admission_block_detail (wc_status c) ''workspace is not ready for job admission'')), c)
         else if js_effect_scope spec = LiveWriter \<and> wc_active c \<noteq> None \<and> \<not> belongs then
           (Inl (denied c AD_ActiveWriter ''another live writer blocks job admission''), c)
         else
           (case register_running rid_of uuid clock (registry_fence (wc_jobs c)) spec (wc_jobs c) of
              (Inl e, jobs) \<Rightarrow>
                (Inl (denied c AD_ActiveWriter (registry_error_text e)), c\<lparr>wc_jobs := jobs\<rparr>)
            | (Inr p, jobs) \<Rightarrow> (Inr p, wc_publish (refresh_jobs (c\<lparr>wc_jobs := jobs\<rparr>)))))"

definition seal_job ::
  "(job_permit \<Rightarrow> recovery_id) \<Rightarrow> u64 \<Rightarrow> job_id \<Rightarrow> job_terminal \<Rightarrow> ws_controller \<Rightarrow> job_seal_outcome \<times> ws_controller" where
  "seal_job rid_of now i trm c =
     (case seal rid_of now (registry_fence (wc_jobs c)) i trm (wc_jobs c) of
        (out, jobs) \<Rightarrow>
          let c1 = c\<lparr>wc_jobs := jobs\<rparr>;
              c2 = (case jso_recovery_id out of
                      Some rid \<Rightarrow>
                        if jso_status out = Sealed \<and> jso_state out = Some JS_RecoveryRequired
                        then fence_for_recovery
                               (make_recovery rid now (wc_binding c) RK_CrashedWriterJob None (Some i)
                                  (unwrap_or (jso_detail out) ''job requires workspace recovery'')) c1
                        else c1
                    | None \<Rightarrow> c1)
          in (out, wc_publish (refresh_jobs c2)))"

definition controller_job_state :: "job_id \<Rightarrow> ws_controller \<Rightarrow> job_state option" where
  "controller_job_state i c =
     (case job_status (registry_fence (wc_jobs c)) i (wc_jobs c) of Inl _ \<Rightarrow> None | Inr job \<Rightarrow> Some (wj_state job))"

section \<open>Barriers, recovery and rebinding\<close>

definition controller_barrier :: "bool \<Rightarrow> barrier_kind \<Rightarrow> ws_controller \<Rightarrow> barrier_receipt" where
  "controller_barrier expired reason c =
     (let pending = nonterminal_job_ids (wc_jobs c)
      in \<lparr>bar_kind = reason,
          bar_status =
            (if wst_state (wc_status c) = WS_RecoveryRequired then BS_RecoveryRequired
             else if wc_active c = None \<and> pending = [] then BS_Passed
             else if expired then BS_TimedOut else BS_Blocked),
          bar_binding_id = wb_binding_id (wc_binding c), bar_epoch = wb_epoch (wc_binding c),
          bar_active_operation = map_option mp_operation_id (wc_active c), bar_pending_jobs = pending,
          bar_recovery_id = wst_recovery_id (wc_status c), bar_detail = wst_detail (wc_status c)\<rparr>)"

definition find_recovery :: "recovery_id \<Rightarrow> ws_controller \<Rightarrow> recovery_record option" where
  "find_recovery i c = bt_get (wc_recoveries c) i"

text \<open>What the status becomes when its current recovery is resolved: the next unresolved one, or none.\<close>

definition promote_recovery :: "ws_controller \<Rightarrow> ws_controller" where
  "promote_recovery c =
     (case find (\<lambda>rec. \<not> rr_resolved rec) (bt_values (wc_recoveries c)) of
        Some nxt \<Rightarrow>
          c\<lparr>wc_status := (wc_status c)\<lparr>wst_state := WS_RecoveryRequired,
                                      wst_recovery_id := Some (rr_recovery_id nxt),
                                      wst_detail := Some (rr_detail nxt)\<rparr>\<rparr>
      | None \<Rightarrow>
          c\<lparr>wc_status := (wc_status c)\<lparr>wst_state := (if wc_active c \<noteq> None then WS_Mutating else WS_Ready),
                                      wst_recovery_id := None, wst_detail := None\<rparr>\<rparr>)"

definition reconcile :: "u64 \<Rightarrow> recovery_id \<Rightarrow> ws_controller \<Rightarrow> recovery_outcome \<times> ws_controller" where
  "reconcile now rid c =
     (case bt_get (wc_recoveries c) rid of
        None \<Rightarrow> (\<lparr>ro_recovery_id = rid, ro_status = RC_NotFound, ro_binding = wc_binding c,
                  ro_detail = Some ''recovery record was not found''\<rparr>, c)
      | Some rec \<Rightarrow>
          if rr_resolved rec then
            (\<lparr>ro_recovery_id = rid, ro_status = RC_Recovered, ro_binding = wc_binding c,
              ro_detail = Some ''recovery was already resolved''\<rparr>, c)
          else
            let c1 = c\<lparr>wc_recoveries := bt_insert rid (rec\<lparr>rr_resolved := True\<rparr>) (wc_recoveries c)\<rparr>;
                c2 = (if rr_job_id rec \<noteq> None
                      then c1\<lparr>wc_jobs := snd (reconcile_recovery now (registry_fence (wc_jobs c1)) rid None (wc_jobs c1))\<rparr>
                      else c1);
                c3 = refresh_jobs c2;
                c4 = (if wst_recovery_id (wc_status c3) = Some rid then promote_recovery c3 else c3)
            in (\<lparr>ro_recovery_id = rid, ro_status = RC_Recovered, ro_binding = wc_binding c4, ro_detail = None\<rparr>,
                wc_publish c4))"

definition require_recovery ::
  "recovery_record \<Rightarrow> ws_controller \<Rightarrow> (admission_denied, unit) result \<times> ws_controller" where
  "require_recovery rec c =
     (if wc_active c \<noteq> None \<or> nonterminal_job_ids (wc_jobs c) \<noteq> [] then
        (Inl (denied c AD_NotReady ''cannot seed recovery while workspace work is active''), c)
      else if rr_binding_id rec \<noteq> wb_binding_id (wc_binding c) \<or> rr_epoch rec \<noteq> wb_epoch (wc_binding c) \<or> rr_resolved rec
      then (Inl (denied c AD_StaleBinding ''recovery record does not belong to the current binding and epoch''), c)
      else (Inr (), wc_publish (fence_for_recovery rec c)))"

text \<open>
  \<open>failpoint\<close> is the error of the rebind failpoint, if it is armed. The refusal by \<open>with_limits\<close> is an \<open>expect\<close>
  in the source; the limits were validated at construction, so the branch is unreachable.
\<close>

definition rebind ::
  "string option \<Rightarrow> binding_id \<Rightarrow> path_buf \<Rightarrow> path_buf \<Rightarrow> ws_controller \<Rightarrow>
   (admission_denied, workspace_binding) result \<times> ws_controller" where
  "rebind failpoint uuid root state c =
     (if wc_active c \<noteq> None \<or> nonterminal_job_ids (wc_jobs c) \<noteq> [] \<or> \<not> admits_mutation (wst_state (wc_status c)) then
        (Inl (denied c AD_NotReady ''workspace must be ready and have no active jobs before rebind''), c)
      else case failpoint of
        Some e \<Rightarrow> (Inl (denied c AD_Incompatible e), c)
      | None \<Rightarrow>
          let b = (wc_binding c)\<lparr>wb_binding_id := uuid,
                                 wb_epoch := saturating_add (wb_epoch (wc_binding c)) 1,
                                 wb_workspace_root := root, wb_state_root := state,
                                 wb_version := VersionLocal 0 None\<rparr>
          in (case with_limits b (wjs_limits (registry_snapshot (wc_jobs c))) of
                Inl _ \<Rightarrow> (Inl (denied c AD_Incompatible ''validated job limits''), c)
              | Inr jobs \<Rightarrow>
                  (Inr b,
                   wc_publish (c\<lparr>wc_binding := b, wc_jobs := jobs,
                     wc_status := (wc_status c)\<lparr>wst_binding_id := wb_binding_id b, wst_epoch := wb_epoch b,
                                               wst_state := WS_Ready, wst_detail := None\<rparr>\<rparr>))))"

end
