(* ===== verification/Controller_Correct.thy ===== *)
theory Controller_Correct
  imports Workspace_Controller
begin

text \<open>
  Correctness of the in-memory workspace controller: mutual exclusion of mutations through their
  permits, settlement and abandonment, recovery fencing and rebinding, over every interleaving of the
  controller's operations.
\<close>

section \<open>Frames\<close>

lemma wc_publish_simps [simp]:
  "wc_issuer (wc_publish c) = wc_issuer c" "wc_binding (wc_publish c) = wc_binding c"
  "wc_active (wc_publish c) = wc_active c" "wc_jobs (wc_publish c) = wc_jobs c"
  "wc_recoveries (wc_publish c) = wc_recoveries c"
  "wst_state (wc_status (wc_publish c)) = wst_state (wc_status c)"
  "wst_active_operation (wc_status (wc_publish c)) = wst_active_operation (wc_status c)"
  "wst_recovery_id (wc_status (wc_publish c)) = wst_recovery_id (wc_status c)"
  "wst_detail (wc_status (wc_publish c)) = wst_detail (wc_status c)"
  "wst_binding_id (wc_status (wc_publish c)) = wst_binding_id (wc_status c)"
  "wst_epoch (wc_status (wc_publish c)) = wst_epoch (wc_status c)"
  by (simp_all add: wc_publish_def)

lemma clear_active_simps [simp]:
  "wc_issuer (clear_active c) = wc_issuer c" "wc_binding (clear_active c) = wc_binding c"
  "wc_active (clear_active c) = None" "wc_jobs (clear_active c) = wc_jobs c"
  "wc_recoveries (clear_active c) = wc_recoveries c"
  "wst_state (wc_status (clear_active c)) = wst_state (wc_status c)"
  "wst_active_operation (wc_status (clear_active c)) = None"
  "wst_recovery_id (wc_status (clear_active c)) = wst_recovery_id (wc_status c)"
  "wst_binding_id (wc_status (clear_active c)) = wst_binding_id (wc_status c)"
  "wst_epoch (wc_status (clear_active c)) = wst_epoch (wc_status c)"
  by (simp_all add: clear_active_def)

lemma fence_for_recovery_simps [simp]:
  "wc_issuer (fence_for_recovery rec c) = wc_issuer c" "wc_binding (fence_for_recovery rec c) = wc_binding c"
  "wc_active (fence_for_recovery rec c) = wc_active c" "wc_jobs (fence_for_recovery rec c) = wc_jobs c"
  "wc_recoveries (fence_for_recovery rec c) = bt_insert (rr_recovery_id rec) rec (wc_recoveries c)"
  "wst_state (wc_status (fence_for_recovery rec c)) = WS_RecoveryRequired"
  "wst_active_operation (wc_status (fence_for_recovery rec c)) = wst_active_operation (wc_status c)"
  "wst_recovery_id (wc_status (fence_for_recovery rec c)) = Some (rr_recovery_id rec)"
  "wst_binding_id (wc_status (fence_for_recovery rec c)) = wst_binding_id (wc_status c)"
  "wst_epoch (wc_status (fence_for_recovery rec c)) = wst_epoch (wc_status c)"
  by (simp_all add: fence_for_recovery_def)

lemma refresh_jobs_simps [simp]:
  "wc_issuer (refresh_jobs c) = wc_issuer c" "wc_binding (refresh_jobs c) = wc_binding c"
  "wc_active (refresh_jobs c) = wc_active c" "wc_jobs (refresh_jobs c) = wc_jobs c"
  "wc_recoveries (refresh_jobs c) = wc_recoveries c"
  "wst_state (wc_status (refresh_jobs c)) = wst_state (wc_status c)"
  "wst_active_operation (wc_status (refresh_jobs c)) = wst_active_operation (wc_status c)"
  "wst_recovery_id (wc_status (refresh_jobs c)) = wst_recovery_id (wc_status c)"
  "wst_binding_id (wc_status (refresh_jobs c)) = wst_binding_id (wc_status c)"
  "wst_epoch (wc_status (refresh_jobs c)) = wst_epoch (wc_status c)"
  by (simp_all add: refresh_jobs_def)

lemma make_recovery_simps [simp]:
  "rr_recovery_id (make_recovery uuid now b kind oper job detail) = uuid"
  "rr_resolved (make_recovery uuid now b kind oper job detail) = False"
  "rr_kind (make_recovery uuid now b kind oper job detail) = kind"
  "rr_operation_id (make_recovery uuid now b kind oper job detail) = oper"
  by (simp_all add: make_recovery_def)

lemma fence_of_binding_version [simp]: "fence_of_binding (b\<lparr>wb_version := v\<rparr>) = fence_of_binding b"
  by (simp add: fence_of_binding_def)

section \<open>The invariant\<close>

definition recovery_named :: "ws_controller \<Rightarrow> bool" where
  "recovery_named c \<longleftrightarrow>
     (\<exists>rid rec. wst_recovery_id (wc_status c) = Some rid \<and> bt_get (wc_recoveries c) rid = Some rec \<and> \<not> rr_resolved rec)"

definition recoveries_ok :: "ws_controller \<Rightarrow> bool" where
  "recoveries_ok c \<longleftrightarrow>
     bt_wf (wc_recoveries c) \<and> (\<forall>i rec. bt_get (wc_recoveries c) i = Some rec \<longrightarrow> rr_recovery_id rec = i)"

definition status_ok :: "ws_controller \<Rightarrow> bool" where
  "status_ok c \<longleftrightarrow>
     wst_active_operation (wc_status c) = map_option mp_operation_id (wc_active c) \<and>
     wst_binding_id (wc_status c) = wb_binding_id (wc_binding c) \<and> wst_epoch (wc_status c) = wb_epoch (wc_binding c) \<and>
     (wst_state (wc_status c) = WS_Ready \<and> wc_active c = None \<or>
      wst_state (wc_status c) = WS_Mutating \<and> wc_active c \<noteq> None \<or>
      wst_state (wc_status c) = WS_RecoveryRequired \<and> recovery_named c)"

definition active_ok :: "ws_controller \<Rightarrow> bool" where
  "active_ok c \<longleftrightarrow>
     (\<forall>r. wc_active c = Some r \<longrightarrow> mp_controller_id r = wc_issuer c \<and>
        mp_binding_id r = wb_binding_id (wc_binding c) \<and> mp_epoch r = wb_epoch (wc_binding c))"

definition jobs_ok :: "ws_controller \<Rightarrow> bool" where
  "jobs_ok c \<longleftrightarrow>
     registry_inv (wc_jobs c) \<and> registry_fence (wc_jobs c) = fence_of_binding (wc_binding c) \<and>
     valid_job_limits (jr_limits (wc_jobs c))"

definition ctl_ok :: "ws_controller \<Rightarrow> bool" where
  "ctl_ok c \<longleftrightarrow> status_ok c \<and> recoveries_ok c \<and> active_ok c \<and> jobs_ok c"

lemmas ctl_ok_defs = ctl_ok_def status_ok_def recoveries_ok_def active_ok_def jobs_ok_def recovery_named_def

lemma jobs_ok_steps:
  assumes "jobs_ok c" and "(job_step rid_of)\<^sup>*\<^sup>* (wc_jobs c) jobs'"
  shows "registry_inv jobs'" and "registry_fence jobs' = fence_of_binding (wc_binding c)"
    and "valid_job_limits (jr_limits jobs')"
proof -
  have inv: "registry_inv (wc_jobs c)" using assms(1) by (simp add: jobs_ok_def)
  then have "registry_adv (wc_jobs c) jobs'" by (rule jobs.steps_adv [OF assms(2)])
  then show "registry_fence jobs' = fence_of_binding (wc_binding c)" "valid_job_limits (jr_limits jobs')"
    using assms(1) by (simp_all add: jobs_ok_def registry_adv_def registry_fence_def)
  show "registry_inv jobs'" by (rule jobs.steps_inv [OF assms(2) inv])
qed

lemma register_running_steps:
  assumes "bt_get (jr_jobs r) uuid = None"
  shows "(job_step rid_of)\<^sup>*\<^sup>* r (snd (register_running rid_of uuid clock f spec r))"
proof -
  obtain x r0 where x: "register uuid (clock 0) f spec r = (x, r0)" by fastforce
  have s0: "job_step rid_of r r0" using step_register [of r uuid rid_of "clock 0" f spec] assms x by simp
  have s: "job_step rid_of a (snd (transition rid_of now f i e n d arts a))" for a now i e n d arts
    by (rule step_transition)
  have s': "job_step rid_of a (snd (seal rid_of now f i trm a))" for a now i trm by (rule step_seal)
  show ?thesis
  proof (cases x)
    case (Inl e)
    with x s0 show ?thesis by (simp add: register_running_def Let_def r_into_rtranclp)
  next
    case (Inr p)
    obtain y r1 where y: "transition rid_of (clock 1) f (jp_job_id p) JS_Queued JS_Starting None [] r0 = (y, r1)" by fastforce
    obtain z r2 where z: "transition rid_of (clock 2) f (jp_job_id p) JS_Starting JS_Running None [] r1 = (z, r2)" by fastforce
    have s1: "job_step rid_of r0 r1" and s2: "job_step rid_of r1 r2" using s y z by (metis snd_conv)+
    let ?out = "snd (register_running rid_of uuid clock f spec r)"
    consider "\<exists>now trm. ?out = snd (seal rid_of now f (jp_job_id p) trm r1)"
      | "\<exists>now trm. ?out = snd (seal rid_of now f (jp_job_id p) trm r2)" | "?out = r2"
      using x Inr y z by (cases y; cases z) (auto simp: register_running_def Let_def)
    then show ?thesis
      using s0 s1 s2 s' by cases (metis (no_types, lifting) rtranclp.rtrancl_into_rtrancl rtranclp.rtrancl_refl)+
  qed
qed

section \<open>Every operation keeps the invariant\<close>

lemma fence_for_recovery_ok:
  assumes "recoveries_ok c" and "\<not> rr_resolved rec"
  shows "recoveries_ok (fence_for_recovery rec c)" and "recovery_named (fence_for_recovery rec c)"
  using assms by (auto simp: recoveries_ok_def recovery_named_def split: if_splits)

lemma begin_cases:
  obtains (denied) e where "begin_mutation uuid key now intent c = (Inl e, c)"
  | (granted) r c' where "begin_mutation uuid key now intent c = (Inr \<lparr>pm_record = r, pm_armed = True\<rparr>, c')"
      "wst_state (wc_status c) = WS_Ready" "wc_active c = None" "wc_active c' = Some r"
      "mp_controller_id r = wc_issuer c" "mp_operation_id r = uuid"
      "mp_binding_id r = wb_binding_id (wc_binding c)" "mp_epoch r = wb_epoch (wc_binding c)"
      "wst_state (wc_status c') = WS_Mutating" "wst_active_operation (wc_status c') = Some uuid"
      "wc_issuer c' = wc_issuer c" "wc_binding c' = wc_binding c" "wc_jobs c' = wc_jobs c"
      "wc_recoveries c' = wc_recoveries c" "wst_binding_id (wc_status c') = wst_binding_id (wc_status c)"
      "wst_epoch (wc_status c') = wst_epoch (wc_status c)"
proof (cases "admits_mutation (wst_state (wc_status c)) \<and> wc_active c = None \<and>
    (live_writer_states c = [] \<or> is_reconciliation intent \<and> live_writer_states c \<noteq> [] \<and>
       list_all (\<lambda>s. s = JS_DurabilityPending) (live_writer_states c))")
  case True
  let ?r = "\<lparr>mp_schema_version = WORKSPACE_CONTRACT_SCHEMA_VERSION, mp_controller_id = wc_issuer c,
             mp_operation_id = uuid, mp_idempotency_key = operation_idempotency_key key (mi_replay_class intent),
             mp_binding_id = wb_binding_id (wc_binding c), mp_epoch = wb_epoch (wc_binding c),
             mp_base_version = wb_version (wc_binding c), mp_intent = intent, mp_issued_at_ms = now\<rparr>"
  show ?thesis
    by (rule granted [of ?r "snd (begin_mutation uuid key now intent c)"])
      (use True in \<open>auto simp: begin_mutation_def Let_def issue_mutation_def admits_mutation_def\<close>)
next
  case False
  then have "\<exists>e. begin_mutation uuid key now intent c = (Inl e, c)"
    by (auto simp: begin_mutation_def Let_def)
  with denied show ?thesis by blast
qed

lemma begin_ok: "ctl_ok c \<Longrightarrow> ctl_ok (snd (begin_mutation uuid key now intent c))"
  by (cases rule: begin_cases [of uuid key now intent c]) (auto simp: ctl_ok_defs)

lemma mutation_abandoned_ok:
  assumes "ctl_ok c"
  shows "ctl_ok (mutation_abandoned uuid now r c)"
proof (cases "\<exists>a. wc_active c = Some a \<and> mp_operation_id a = mp_operation_id r")
  case True
  with assms show ?thesis
    by (auto simp: mutation_abandoned_def ctl_ok_defs split: if_splits)
next
  case False
  then have "mutation_abandoned uuid now r c = c" by (auto simp: mutation_abandoned_def split: option.splits)
  with assms show ?thesis by simp
qed

lemma settle_current_ok:
  assumes "ctl_ok c"
  shows "ctl_ok (snd (settle_current receipt recovery now r rep c))"
  using assms by (auto simp: settle_current_def Let_def ctl_ok_defs split: if_splits)

lemma settle_ok: "ctl_ok c \<Longrightarrow> ctl_ok (snd (snd (settle receipt recovery now p rep c)))"
  using settle_current_ok
  by (auto simp: settle_def split: prod.splits sum.splits) (metis snd_conv)

lemma register_job_ok:
  assumes "ctl_ok c" and "bt_get (jr_jobs (wc_jobs c)) uuid = None"
  shows "ctl_ok (snd (register_job rid_of uuid clock spec c))"
proof -
  obtain x jobs' where r: "register_running rid_of uuid clock (registry_fence (wc_jobs c)) spec (wc_jobs c) = (x, jobs')"
    by fastforce
  then have "(job_step rid_of)\<^sup>*\<^sup>* (wc_jobs c) jobs'"
    using register_running_steps [OF assms(2)] by (metis snd_conv)
  note j = jobs_ok_steps [OF _ this]
  have "jobs_ok c" using assms(1) by (simp add: ctl_ok_def)
  with j r assms(1) show ?thesis
    by (cases x) (auto simp: register_job_def Let_def ctl_ok_defs)
qed

lemma seal_job_ok:
  assumes "ctl_ok c"
  shows "ctl_ok (snd (seal_job rid_of now i trm c))"
proof -
  obtain out jobs' where s: "seal rid_of now (registry_fence (wc_jobs c)) i trm (wc_jobs c) = (out, jobs')" by fastforce
  then have "job_step rid_of (wc_jobs c) jobs'" using step_seal by (metis snd_conv)
  then have st: "(job_step rid_of)\<^sup>*\<^sup>* (wc_jobs c) jobs'" by blast
  have "jobs_ok c" using assms by (simp add: ctl_ok_def)
  note j = jobs_ok_steps [OF this st]
  show ?thesis
    using assms s j by (auto simp: seal_job_def Let_def ctl_ok_defs split: option.splits if_splits)
qed

lemma require_recovery_ok: "ctl_ok c \<Longrightarrow> ctl_ok (snd (require_recovery rec c))"
  by (auto simp: require_recovery_def ctl_ok_defs split: if_splits)

lemma valid_limits_with: "valid_job_limits l \<Longrightarrow> \<exists>r. with_limits b l = Inr r \<and> jr_binding r = b \<and> jr_limits r = l"
  by (auto simp: valid_job_limits_def with_limits_def)

lemma rebind_ok:
  assumes "ctl_ok c"
  shows "ctl_ok (snd (rebind failpoint uuid root state c))"
proof -
  let ?b = "(wc_binding c)\<lparr>wb_binding_id := uuid, wb_epoch := saturating_add (wb_epoch (wc_binding c)) 1,
      wb_workspace_root := root, wb_state_root := state, wb_version := VersionLocal 0 None\<rparr>"
  have "valid_job_limits (jr_limits (wc_jobs c))" using assms by (simp add: ctl_ok_defs)
  then obtain r where r: "with_limits ?b (jr_limits (wc_jobs c)) = Inr r" "jr_binding r = ?b"
    "jr_limits r = jr_limits (wc_jobs c)"
    using valid_limits_with by blast
  note inv = with_limits_inv [OF r(1)]
  show ?thesis
    using assms r inv
    by (auto simp: rebind_def registry_snapshot_def ctl_ok_defs admits_mutation_def Let_def registry_fence_def
        split: option.splits)
qed

lemma find_unresolved:
  assumes "recoveries_ok c"
  shows "find (\<lambda>rec. \<not> rr_resolved rec) (bt_values (wc_recoveries c)) = Some rec \<Longrightarrow>
      bt_get (wc_recoveries c) (rr_recovery_id rec) = Some rec \<and> \<not> rr_resolved rec"
    and "find (\<lambda>rec. \<not> rr_resolved rec) (bt_values (wc_recoveries c)) = None \<Longrightarrow>
      bt_get (wc_recoveries c) i = Some rec' \<Longrightarrow> rr_resolved rec'"
proof -
  have mem: "(i, rec) \<in> set (wc_recoveries c) \<longleftrightarrow> bt_get (wc_recoveries c) i = Some rec" for i rec
    using assms bt.items_mem [of "wc_recoveries c" i rec] by (simp add: recoveries_ok_def)
  show "bt_get (wc_recoveries c) (rr_recovery_id rec) = Some rec \<and> \<not> rr_resolved rec"
    if "find (\<lambda>rec. \<not> rr_resolved rec) (bt_values (wc_recoveries c)) = Some rec"
    using find_SomeD [OF that] mem assms by (auto simp: recoveries_ok_def)
  show "rr_resolved rec'"
    if "find (\<lambda>rec. \<not> rr_resolved rec) (bt_values (wc_recoveries c)) = None" "bt_get (wc_recoveries c) i = Some rec'"
    using that mem by (force simp: find_None_iff)
qed

text \<open>Resolving a record: the controller before its status is adjusted.\<close>

definition resolve_record :: "u64 \<Rightarrow> recovery_id \<Rightarrow> recovery_record \<Rightarrow> ws_controller \<Rightarrow> ws_controller" where
  "resolve_record now rid rec c =
     refresh_jobs (c\<lparr>wc_recoveries := bt_insert rid (rec\<lparr>rr_resolved := True\<rparr>) (wc_recoveries c),
       wc_jobs := (if rr_job_id rec \<noteq> None
                   then snd (reconcile_recovery now (registry_fence (wc_jobs c)) rid None (wc_jobs c))
                   else wc_jobs c)\<rparr>)"

lemma resolve_record_simps [simp]:
  "wc_recoveries (resolve_record now rid rec c) = bt_insert rid (rec\<lparr>rr_resolved := True\<rparr>) (wc_recoveries c)"
  "wc_active (resolve_record now rid rec c) = wc_active c" "wc_issuer (resolve_record now rid rec c) = wc_issuer c"
  "wc_binding (resolve_record now rid rec c) = wc_binding c"
  "wst_state (wc_status (resolve_record now rid rec c)) = wst_state (wc_status c)"
  "wst_active_operation (wc_status (resolve_record now rid rec c)) = wst_active_operation (wc_status c)"
  "wst_recovery_id (wc_status (resolve_record now rid rec c)) = wst_recovery_id (wc_status c)"
  "wst_binding_id (wc_status (resolve_record now rid rec c)) = wst_binding_id (wc_status c)"
  "wst_epoch (wc_status (resolve_record now rid rec c)) = wst_epoch (wc_status c)"
  by (simp_all add: resolve_record_def)

lemma reconcile_open:
  assumes "bt_get (wc_recoveries c) rid = Some rec" and "\<not> rr_resolved rec"
  shows "snd (reconcile now rid c) =
    wc_publish (if wst_recovery_id (wc_status c) = Some rid then promote_recovery (resolve_record now rid rec c)
                else resolve_record now rid rec c)"
proof -
  have eq: "(if rr_job_id rec \<noteq> None
        then (c\<lparr>wc_recoveries := m\<rparr>)\<lparr>wc_jobs := snd (reconcile_recovery now (registry_fence (wc_jobs (c\<lparr>wc_recoveries := m\<rparr>))) rid None (wc_jobs (c\<lparr>wc_recoveries := m\<rparr>)))\<rparr>
        else c\<lparr>wc_recoveries := m\<rparr>) =
      c\<lparr>wc_recoveries := m, wc_jobs := (if rr_job_id rec \<noteq> None
        then snd (reconcile_recovery now (registry_fence (wc_jobs c)) rid None (wc_jobs c)) else wc_jobs c)\<rparr>" for m
    by simp
  show ?thesis
    using assms unfolding reconcile_def Let_def eq by (simp add: resolve_record_def)
qed

lemma reconcile_closed:
  assumes "bt_get (wc_recoveries c) rid = None \<or> (\<exists>rec. bt_get (wc_recoveries c) rid = Some rec \<and> rr_resolved rec)"
  shows "snd (reconcile now rid c) = c"
  using assms by (auto simp: reconcile_def)

lemma resolve_record_ok:
  assumes "ctl_ok c" and "bt_get (wc_recoveries c) rid = Some rec"
  shows "recoveries_ok (resolve_record now rid rec c)" and "active_ok (resolve_record now rid rec c)"
    and "jobs_ok (resolve_record now rid rec c)"
proof -
  show "recoveries_ok (resolve_record now rid rec c)" "active_ok (resolve_record now rid rec c)"
    using assms by (auto simp: ctl_ok_defs split: if_splits)
  have "job_step undefined (wc_jobs c) (snd (reconcile_recovery now (registry_fence (wc_jobs c)) rid None (wc_jobs c)))"
    by (rule step_reconcile)
  then have st: "(job_step undefined)\<^sup>*\<^sup>* (wc_jobs c)
      (snd (reconcile_recovery now (registry_fence (wc_jobs c)) rid None (wc_jobs c)))" by blast
  have jc: "jobs_ok c" using assms(1) by (simp add: ctl_ok_def)
  note j = jobs_ok_steps [OF this st]
  show "jobs_ok (resolve_record now rid rec c)"
    using j jc by (cases "rr_job_id rec") (simp_all add: jobs_ok_def resolve_record_def)
qed

lemma promote_recovery_ok:
  assumes "recoveries_ok c" and "active_ok c" and "jobs_ok c"
    and "wst_active_operation (wc_status c) = map_option mp_operation_id (wc_active c)"
    and "wst_binding_id (wc_status c) = wb_binding_id (wc_binding c)" "wst_epoch (wc_status c) = wb_epoch (wc_binding c)"
  shows "ctl_ok (promote_recovery c)"
proof (cases "find (\<lambda>rec. \<not> rr_resolved rec) (bt_values (wc_recoveries c))")
  case None
  with assms show ?thesis by (auto simp: promote_recovery_def ctl_ok_defs)
next
  case (Some rec)
  from find_unresolved(1) [OF assms(1) Some] assms Some show ?thesis
    by (auto simp: promote_recovery_def ctl_ok_defs)
qed

lemma ctl_ok_publish [simp]: "ctl_ok (wc_publish c) = ctl_ok c"
  by (simp add: ctl_ok_defs)

lemma reconcile_ok:
  assumes "ctl_ok c"
  shows "ctl_ok (snd (reconcile now rid c))"
proof (cases "\<exists>rec. bt_get (wc_recoveries c) rid = Some rec \<and> \<not> rr_resolved rec")
  case False
  then have "snd (reconcile now rid c) = c" by (intro reconcile_closed) auto
  with assms show ?thesis by simp
next
  case True
  then obtain rec where rec: "bt_get (wc_recoveries c) rid = Some rec" "\<not> rr_resolved rec" by blast
  note r = resolve_record_ok [OF assms rec(1), of now]
  have st: "status_ok c" and wf: "bt_wf (wc_recoveries c)" using assms by (simp_all add: ctl_ok_defs)
  show ?thesis
  proof (cases "wst_recovery_id (wc_status c) = Some rid")
    case True
    have "ctl_ok (promote_recovery (resolve_record now rid rec c))"
      using r st by (intro promote_recovery_ok) (auto simp: status_ok_def)
    with True show ?thesis unfolding reconcile_open [OF rec] by simp
  next
    case False
    then have "status_ok (resolve_record now rid rec c)"
      using st wf by (auto simp: status_ok_def recovery_named_def)
    with r have "ctl_ok (resolve_record now rid rec c)" by (simp add: ctl_ok_def)
    with False show ?thesis unfolding reconcile_open [OF rec] by simp
  qed
qed

section \<open>Interleavings\<close>

text \<open>
  The controller with the armed permits its callers hold. A permit cannot be cloned or deserialised:
  it comes from \<open>begin\<close> and ends by being settled or dropped.
\<close>

type_synonym ctl_system = "ws_controller \<times> mutation_permit_record set"

inductive ctl_step :: "(job_permit \<Rightarrow> recovery_id) \<Rightarrow> ctl_system \<Rightarrow> ctl_system \<Rightarrow> bool" for rid_of where
  ctl_begin: "begin_mutation uuid key now intent c = (x, c') \<Longrightarrow>
     ctl_step rid_of (c, live) (c', live \<union> (case x of Inl _ \<Rightarrow> {} | Inr p \<Rightarrow> {pm_record p}))"
| ctl_settle: "r \<in> live \<Longrightarrow> settle ru rv now \<lparr>pm_record = r, pm_armed = True\<rparr> rep c = (out, p', c') \<Longrightarrow>
     ctl_step rid_of (c, live) (permit_drop rv' now' p' c', live - {r})"
| ctl_drop: "r \<in> live \<Longrightarrow>
     ctl_step rid_of (c, live) (permit_drop uuid now \<lparr>pm_record = r, pm_armed = True\<rparr> c, live - {r})"
| ctl_register: "bt_get (jr_jobs (wc_jobs c)) uuid = None \<Longrightarrow>
     ctl_step rid_of (c, live) (snd (register_job rid_of uuid clock spec c), live)"
| ctl_seal: "ctl_step rid_of (c, live) (snd (seal_job rid_of now i trm c), live)"
| ctl_reconcile: "ctl_step rid_of (c, live) (snd (reconcile now rid c), live)"
| ctl_require: "ctl_step rid_of (c, live) (snd (require_recovery rec c), live)"
| ctl_rebind: "ctl_step rid_of (c, live) (snd (rebind failpoint uuid root state c), live)"

definition ctl_inv :: "ctl_system \<Rightarrow> bool" where
  "ctl_inv s \<longleftrightarrow> ctl_ok (fst s) \<and> snd s = set_option (wc_active (fst s))"

lemma jobs_keep_active:
  "wc_active (snd (register_job rid_of uuid clock spec c)) = wc_active c"
  "wc_active (snd (seal_job rid_of now i trm c)) = wc_active c"
  "wc_active (snd (require_recovery rec c)) = wc_active c"
  "wc_active (snd (rebind failpoint uuid root state c)) = wc_active c"
  by (auto simp: register_job_def seal_job_def require_recovery_def rebind_def Let_def
      split: prod.splits sum.splits option.splits)

lemma reconcile_keeps_active: "wc_active (snd (reconcile now rid c)) = wc_active c"
proof -
  have p: "wc_active (promote_recovery c) = wc_active c" for c
    by (auto simp: promote_recovery_def split: option.splits)
  show ?thesis by (auto simp: reconcile_def Let_def p split: option.splits)
qed

lemma settle_live:
  assumes "ctl_ok c" and "wc_active c = Some r"
  shows "settle ru rv now \<lparr>pm_record = r, pm_armed = True\<rparr> rep c =
    (fst (settle_current ru rv now r rep c), \<lparr>pm_record = r, pm_armed = False\<rparr>, snd (settle_current ru rv now r rep c))"
  using assms by (auto simp: settle_def claim_mutation_def is_current_def ctl_ok_defs split: prod.splits)

lemma settle_current_active: "wc_active (snd (settle_current ru rv now r rep c)) = None"
  by (simp add: settle_current_def Let_def)

lemma ctl_step_inv:
  assumes "ctl_inv s" and "ctl_step rid_of s t"
  shows "ctl_inv t"
  using assms(2,1)
proof cases
  case (ctl_begin uuid key now intent c x c' live)
  then show ?thesis
    using assms(1) begin_ok [of c uuid key now intent]
    by (cases rule: begin_cases [of uuid key now intent c]) (auto simp: ctl_inv_def)
next
  case (ctl_settle r live ru rv now rep c out p' c' rv' now')
  then have act: "wc_active c = Some r" and ok: "ctl_ok c" using assms(1) by (auto simp: ctl_inv_def)
  from ctl_settle settle_live [OF ok act, of ru rv now rep]
  have "c' = snd (settle_current ru rv now r rep c)" "p' = \<lparr>pm_record = r, pm_armed = False\<rparr>" by auto
  then show ?thesis
    using ctl_settle assms(1) act settle_current_ok [OF ok] settle_current_active
    by (auto simp: ctl_inv_def permit_drop_def)
next
  case (ctl_drop r live c uuid now)
  then have act: "wc_active c = Some r" and ok: "ctl_ok c" using assms(1) by (auto simp: ctl_inv_def)
  have "wc_active (mutation_abandoned uuid now r c) = None" using act by (simp add: mutation_abandoned_def)
  with ctl_drop assms(1) act mutation_abandoned_ok [OF ok] show ?thesis
    by (auto simp: ctl_inv_def permit_drop_def)
qed (use assms(1) in \<open>auto simp: ctl_inv_def jobs_keep_active reconcile_keeps_active register_job_ok seal_job_ok
      reconcile_ok require_recovery_ok rebind_ok\<close>)

interpretation controller: transition_system "ctl_step rid_of" ctl_inv
  by unfold_locales (rule ctl_step_inv)

lemma controller_of_binding_inv:
  assumes "controller_of_binding b caps l = Some c"
  shows "ctl_inv (c, {})"
proof -
  from assms obtain jobs' where j: "valid_job_limits l" "with_limits b l = Inr jobs'"
    and c: "c = \<lparr>wc_issuer = wb_controller_id b, wc_binding = b, wc_capabilities = caps,
                wc_status = status_ready b, wc_active = None, wc_jobs = jobs', wc_recoveries = []\<rparr>"
    by (auto simp: controller_of_binding_def split: if_splits sum.splits)
  have "jr_binding jobs' = b" "jr_limits jobs' = l" using j(2) by (auto simp: with_limits_def split: if_splits)
  with j c with_limits_inv [OF j(2)] show ?thesis
    by (simp add: ctl_inv_def ctl_ok_defs status_ready_def registry_fence_def)
qed

section \<open>Properties\<close>

lemma reachable_inv:
  assumes "controller_of_binding b caps l = Some c0" and "(ctl_step rid_of)\<^sup>*\<^sup>* (c0, {}) (c, live)"
  shows "ctl_ok c" and "live = set_option (wc_active c)"
  using controller.steps_inv [OF assms(2) controller_of_binding_inv [OF assms(1)]] by (simp_all add: ctl_inv_def)

text \<open>C25. Mutations exclude each other: whatever the controller's callers do, at most one armed permit exists at
  any time, it is the permit of the active operation, none exists while the workspace is ready, and a
  new one is granted only when none exists.\<close>

theorem one_live_permit:
  assumes "controller_of_binding b caps l = Some c0" and "(ctl_step rid_of)\<^sup>*\<^sup>* (c0, {}) (c, live)"
  shows "(\<forall>r \<in> live. wc_active c = Some r) \<and> card live \<le> 1 \<and>
    (wst_state (wc_status c) = WS_Ready \<longrightarrow> live = {}) \<and>
    (is_ok (fst (begin_mutation uuid key now intent c)) \<longrightarrow> live = {})"
proof -
  note ok = reachable_inv [OF assms]
  have "wst_state (wc_status c) = WS_Ready \<longrightarrow> wc_active c = None" using ok(1) by (auto simp: ctl_ok_defs)
  moreover have "is_ok (fst (begin_mutation uuid key now intent c)) \<longrightarrow> wc_active c = None"
    by (cases rule: begin_cases [of uuid key now intent c]) simp_all
  ultimately show ?thesis using ok(2) by (cases "wc_active c") auto
qed

text \<open>A live permit always settles: it is never found stale. A definite report, whether the execution
  succeeded or failed, frees the workspace, issues a receipt for the binding's version, and advances
  that version exactly if the workspace may have changed; an indeterminate report issues no receipt
  and leaves an unresolved recovery that blocks the workspace.\<close>

theorem live_permit_settles:
  assumes "controller_of_binding b caps l = Some c0" and "(ctl_step rid_of)\<^sup>*\<^sup>* (c0, {}) (c, live)" and "r \<in> live"
    and "settle ru rv now \<lparr>pm_record = r, pm_armed = True\<rparr> rep c = (out, p', c')"
  shows "\<not> pm_armed p' \<and> wc_active c' = None \<and> sto_operation_id out = mp_operation_id r \<and>
    (if er_disposition rep = ED_Indeterminate
     then sto_receipt out = None \<and> wst_state (wc_status c') = WS_RecoveryRequired \<and>
       (\<exists>rec. bt_get (wc_recoveries c') rv = Some rec \<and> \<not> rr_resolved rec \<and> rr_operation_id rec = Some (mp_operation_id r)) \<and>
       wb_version (wc_binding c') = wb_version (wc_binding c)
     else wst_state (wc_status c') = WS_Ready \<and>
       (\<exists>receipt. sto_receipt out = Some receipt \<and> sr_version receipt = wb_version (wc_binding c') \<and>
          sr_operation_id receipt = mp_operation_id r) \<and>
       wb_version (wc_binding c') =
         (if er_workspace_may_have_changed rep
          then advance_after_settlement (wb_version (wc_binding c)) (er_content_digest rep)
          else wb_version (wc_binding c)))"
proof -
  note ok = reachable_inv [OF assms(1,2)]
  then have act: "wc_active c = Some r" using assms(3) by simp
  have wf: "bt_wf (wc_recoveries c)" using ok(1) by (simp add: ctl_ok_defs)
  from assms(4) settle_live [OF ok(1) act, of ru rv now rep]
  have o: "out = fst (settle_current ru rv now r rep c)" "p' = \<lparr>pm_record = r, pm_armed = False\<rparr>"
    "c' = snd (settle_current ru rv now r rep c)" by auto
  show ?thesis
    unfolding o using wf by (simp add: settle_current_def Let_def)
qed

text \<open>While an unresolved record fences an idle controller, no operation but its reconciliation lifts the fence.\<close>

definition unresolved :: "recovery_id \<Rightarrow> ws_controller \<Rightarrow> bool" where
  "unresolved rid c \<longleftrightarrow> (case bt_get (wc_recoveries c) rid of None \<Rightarrow> False | Some rec \<Rightarrow> \<not> rr_resolved rec)"

definition fenced :: "recovery_id \<Rightarrow> ctl_system \<Rightarrow> bool" where
  "fenced rid s \<longleftrightarrow> ctl_inv s \<and> wc_active (fst s) = None \<and> wst_state (wc_status (fst s)) = WS_RecoveryRequired \<and>
     unresolved rid (fst s)"

lemma recovery_blocks:
  assumes "wst_state (wc_status c) = WS_RecoveryRequired"
  shows "\<exists>e. begin_mutation uuid key now intent c = (Inl e, c) \<and> ad_reason e = AD_NotReady"
    and "wc_active c = None \<Longrightarrow> snd (register_job rid_of uuid clock spec c) = c"
    and "snd (rebind failpoint uuid root state c) = c"
    and "wst_state (wc_status (snd (seal_job rid_of now i trm c))) = WS_RecoveryRequired"
    and "wst_state (wc_status (snd (require_recovery rec c))) = WS_RecoveryRequired"
  using assms
  by (auto simp: begin_mutation_def admits_mutation_def denied_def register_job_def rebind_def seal_job_def
      require_recovery_def Let_def split: prod.splits option.splits)

lemma reconcile_keeps_fence:
  assumes "ctl_ok c" and "wst_state (wc_status c) = WS_RecoveryRequired" and "unresolved rid (snd (reconcile now rid' c))"
  shows "wst_state (wc_status (snd (reconcile now rid' c))) = WS_RecoveryRequired"
proof (cases "(\<exists>rec. bt_get (wc_recoveries c) rid' = Some rec \<and> \<not> rr_resolved rec)")
  case False
  then have "snd (reconcile now rid' c) = c" by (intro reconcile_closed) auto
  with assms(2) show ?thesis by simp
next
  case True
  then obtain rec where rec: "bt_get (wc_recoveries c) rid' = Some rec" "\<not> rr_resolved rec" by blast
  let ?c = "resolve_record now rid' rec c"
  have "wc_recoveries (promote_recovery ?c) = wc_recoveries ?c"
    by (auto simp: promote_recovery_def split: option.splits)
  then have "unresolved rid ?c" using assms(3) unfolding reconcile_open [OF rec]
    by (simp add: unresolved_def split: if_splits)
  then obtain other where "bt_get (wc_recoveries ?c) rid = Some other" "\<not> rr_resolved other"
    by (auto simp: unresolved_def split: option.splits)
  then have "find (\<lambda>rec. \<not> rr_resolved rec) (bt_values (wc_recoveries ?c)) \<noteq> None"
    using find_unresolved(2) [OF resolve_record_ok(1) [OF assms(1) rec(1)]] by blast
  with assms(2) show ?thesis
    unfolding reconcile_open [OF rec] by (auto simp: promote_recovery_def split: option.splits)
qed

lemma fenced_step:
  assumes "fenced rid s" and "ctl_step rid_of s t" and "unresolved rid (fst t)"
  shows "fenced rid t"
proof -
  have inv: "ctl_inv t" by (rule ctl_step_inv [OF _ assms(2)]) (use assms(1) in \<open>simp add: fenced_def\<close>)
  have s: "ctl_ok (fst s)" "snd s = {}" "wc_active (fst s) = None" "wst_state (wc_status (fst s)) = WS_RecoveryRequired"
    using assms(1) by (auto simp: fenced_def ctl_inv_def)
  note b = recovery_blocks [OF s(4)]
  from assms(2) have "wc_active (fst t) = None \<and> wst_state (wc_status (fst t)) = WS_RecoveryRequired"
  proof cases
    case (ctl_begin uuid key now intent c x c' live)
    with b(1) [of uuid key now intent] s show ?thesis by auto
  next
    case (ctl_reconcile c live now rid')
    with s assms(3) reconcile_keeps_fence [of c rid now rid'] show ?thesis by (simp add: reconcile_keeps_active)
  qed (use b s in \<open>auto simp: jobs_keep_active\<close>)
  with inv assms(3) show ?thesis by (simp add: fenced_def)
qed

interpretation fence: transition_system "\<lambda>s t. ctl_step rid_of s t \<and> unresolved rid (fst t)" "fenced rid"
  by unfold_locales (blast intro: fenced_step)

text \<open>C27. An abandoned mutation fences the workspace: dropping a live permit leaves an unresolved recovery record
  for its operation, and in every later history throughout which that record stays unresolved, whatever
  else the callers do, no permit is live and every request for a mutation is denied.\<close>

theorem abandonment_fences:
  assumes "controller_of_binding b caps l = Some c0" and "(ctl_step rid_of)\<^sup>*\<^sup>* (c0, {}) (c, live)" and "r \<in> live"
    and "c' = permit_drop uuid now \<lparr>pm_record = r, pm_armed = True\<rparr> c"
    and "(\<lambda>s t. ctl_step rid_of s t \<and> unresolved uuid (fst t))\<^sup>*\<^sup>* (c', live - {r}) (c'', live'')"
  shows "wst_recovery_id (wc_status c') = Some uuid \<and>
    (\<exists>rec. bt_get (wc_recoveries c') uuid = Some rec \<and> rr_kind rec = RK_AbandonedMutation \<and> \<not> rr_resolved rec \<and>
       rr_operation_id rec = Some (mp_operation_id r)) \<and>
    wst_state (wc_status c'') = WS_RecoveryRequired \<and> live'' = {} \<and>
    (\<exists>e. begin_mutation u k t intent c'' = (Inl e, c'') \<and> ad_reason e = AD_NotReady)"
proof -
  note ok = reachable_inv [OF assms(1,2)]
  then have act: "wc_active c = Some r" using assms(3) by simp
  have wf: "bt_wf (wc_recoveries c)" using ok(1) by (simp add: ctl_ok_defs)
  have drop: "wst_recovery_id (wc_status c') = Some uuid \<and>
    (\<exists>rec. bt_get (wc_recoveries c') uuid = Some rec \<and> rr_kind rec = RK_AbandonedMutation \<and> \<not> rr_resolved rec \<and>
       rr_operation_id rec = Some (mp_operation_id r)) \<and> wst_state (wc_status c') = WS_RecoveryRequired \<and> wc_active c' = None"
    using act wf unfolding assms(4) permit_drop_def by (simp add: mutation_abandoned_def)
  have "ctl_ok c'" unfolding assms(4) permit_drop_def using mutation_abandoned_ok [OF ok(1)] by simp
  with drop ok(2) act have "fenced uuid (c', live - {r})" by (auto simp: fenced_def ctl_inv_def unresolved_def)
  with assms(5) have "fenced uuid (c'', live'')" by (rule fence.steps_inv)
  then have "wst_state (wc_status c'') = WS_RecoveryRequired" "live'' = {}" by (simp_all add: fenced_def ctl_inv_def)
  with drop recovery_blocks(1) show ?thesis by blast
qed

text \<open>Recoveries are fenced one at a time: resolving the recovery the status names leaves the workspace in
  recovery exactly if another unresolved record exists, which the status then names; otherwise it
  becomes ready, or mutating if an operation is active.\<close>

theorem reconcile_promotes_next:
  assumes "controller_of_binding b caps l = Some c0" and "(ctl_step rid_of)\<^sup>*\<^sup>* (c0, {}) (c, live)"
    and "wst_recovery_id (wc_status c) = Some rid"
    and "bt_get (wc_recoveries c) rid = Some rec" and "\<not> rr_resolved rec"
  shows "(if \<exists>i other. i \<noteq> rid \<and> bt_get (wc_recoveries c) i = Some other \<and> \<not> rr_resolved other
     then wst_state (wc_status (snd (reconcile now rid c))) = WS_RecoveryRequired \<and>
       (\<exists>i other. wst_recovery_id (wc_status (snd (reconcile now rid c))) = Some i \<and> i \<noteq> rid \<and>
          bt_get (wc_recoveries c) i = Some other \<and> \<not> rr_resolved other)
     else wst_recovery_id (wc_status (snd (reconcile now rid c))) = None \<and>
       wst_state (wc_status (snd (reconcile now rid c))) = (if wc_active c = None then WS_Ready else WS_Mutating))"
proof -
  let ?c = "resolve_record now rid rec c"
  have ok: "ctl_ok c" by (rule reachable_inv [OF assms(1,2)])
  then have wf: "bt_wf (wc_recoveries c)" by (simp add: ctl_ok_defs)
  have out: "snd (reconcile now rid c) = wc_publish (promote_recovery ?c)"
    using reconcile_open [OF assms(4,5)] assms(3) by simp
  have rok: "recoveries_ok ?c" by (rule resolve_record_ok [OF ok assms(4)])
  have get: "bt_get (wc_recoveries ?c) i = Some other \<and> \<not> rr_resolved other \<longleftrightarrow>
      i \<noteq> rid \<and> bt_get (wc_recoveries c) i = Some other \<and> \<not> rr_resolved other" for i other
    using wf by auto
  show ?thesis
  proof (cases "find (\<lambda>rec. \<not> rr_resolved rec) (bt_values (wc_recoveries ?c))")
    case None
    then have "\<nexists>i other. i \<noteq> rid \<and> bt_get (wc_recoveries c) i = Some other \<and> \<not> rr_resolved other"
      using find_unresolved(2) [OF rok None] get by blast
    with None out show ?thesis by (auto simp: promote_recovery_def)
  next
    case (Some nxt)
    with find_unresolved(1) [OF rok Some] get [of "rr_recovery_id nxt" nxt] out show ?thesis
      by (auto simp: promote_recovery_def)
  qed
qed

text \<open>Rebinding fences the past: it happens only when no permit is live and no job is unfinished, the new
  registry is empty, the epoch does not fall, and under a fresh binding identifier every callback that
  still carries the old fence is rejected by the new registry.\<close>

theorem rebind_fences_old_binding:
  assumes "controller_of_binding b caps l = Some c0" and "(ctl_step rid_of)\<^sup>*\<^sup>* (c0, {}) (c, live)"
    and "rebind failpoint uuid root state c = (Inr b', c')" and "uuid \<noteq> wb_binding_id (wc_binding c)"
  shows "live = {} \<and> nonterminal_job_ids (wc_jobs c) = [] \<and> jr_jobs (wc_jobs c') = [] \<and> wc_binding c' = b' \<and>
    wb_epoch (wc_binding c) \<le> wb_epoch b' \<and>
    ensure_fence (wc_jobs c') (fence_of_binding (wc_binding c)) = Inl StaleFence \<and>
    registry_fence (wc_jobs c') = fence_of_binding b'"
proof -
  note ok = reachable_inv [OF assms(1,2)]
  let ?b = "(wc_binding c)\<lparr>wb_binding_id := uuid, wb_epoch := saturating_add (wb_epoch (wc_binding c)) 1,
      wb_workspace_root := root, wb_state_root := state, wb_version := VersionLocal 0 None\<rparr>"
  from assms(3) have q: "wc_active c = None" "nonterminal_job_ids (wc_jobs c) = []"
    by (auto simp: rebind_def split: if_splits)
  from assms(3) obtain jobs' where j: "with_limits ?b (jr_limits (wc_jobs c)) = Inr jobs'"
    and c': "b' = ?b" "wc_jobs c' = jobs'" "wc_binding c' = ?b"
    by (auto simp: rebind_def registry_snapshot_def Let_def split: if_splits option.splits sum.splits)
  have jb: "jr_binding jobs' = ?b" "jr_jobs jobs' = []" using j by (auto simp: with_limits_def split: if_splits)
  have "wb_epoch (wc_binding c) \<le> saturating_add (wb_epoch (wc_binding c)) 1"
    by (auto simp: word_le_nat_alt unat_saturating_add min_def)
  with q ok(2) c' jb assms(4) show ?thesis
    by (simp add: ensure_fence_def matches_binding_def fence_of_binding_def registry_fence_def)
qed

section \<open>A small history\<close>

definition controller0 :: ws_controller where
  "controller0 = the (new_local_at_epoch ''c'' ''b'' ''w'' ''/root'' ''/state'' 0)"

definition controller1 :: ws_controller where
  "controller1 = snd (begin_mutation ''op'' ''key'' 1 (intent_workspace ''edit'') controller0)"

definition permit1 :: mutation_permit_record where
  "permit1 = the (wc_active controller1)"

definition candidate_spec :: job_spec where
  "candidate_spec = (sample_spec JK_WriteCandidate CandidateOnly)\<lparr>js_parent_operation := Some ''op''\<rparr>"

definition controller2 :: ws_controller where
  "controller2 = snd (register_job (\<lambda>_. ''rec'') ''job'' (\<lambda>_. 2) candidate_spec controller1)"

definition controller3 :: ws_controller where
  "controller3 = snd (seal_job (\<lambda>_. ''rec'') 3 ''job'' (sample_terminal JC_RecoveryRequired) controller2)"

definition controller4 :: ws_controller where
  "controller4 = snd (snd (settle ''receipt'' ''rec2'' 4 \<lparr>pm_record = permit1, pm_armed = True\<rparr> (report_succeeded None) controller3))"

definition controller5 :: ws_controller where
  "controller5 = permit_drop ''rec3'' 5 \<lparr>pm_record = permit1, pm_armed = True\<rparr> controller1"

lemmas controller_eval = new_local_at_epoch_def new_local_at_epoch_with_job_limits_def controller_of_binding_def
  valid_job_limits_def with_limits_def status_ready_def begin_mutation_def admits_mutation_def live_writer_states_def
  registry_snapshot_def issue_mutation_def wc_publish_def register_job_def register_running_def refresh_jobs_def
  seal_job_def fence_for_recovery_def make_recovery_def settle_def claim_mutation_def is_current_def settle_current_def
  clear_active_def report_succeeded_def permit_drop_def mutation_abandoned_def intent_workspace_def candidate_spec_def
  registry_eval

lemma controller0_start: "controller_of_binding ((new_local ''b'' ''c'' ''w'' ''/root'' ''/state'')\<lparr>wb_epoch := 0\<rparr>)
    capabilities_in_memory default_limits = Some controller0"
  by (simp add: controller0_def controller_eval)

lemma controller1_facts:
  "wc_active controller1 = Some permit1" "wst_state (wc_status controller1) = WS_Mutating"
  "mp_operation_id permit1 = ''op''" "jr_jobs (wc_jobs controller1) = []"
  "wc_recoveries controller1 = []" "wc_active controller0 = None" "wst_state (wc_status controller0) = WS_Ready"
  by (simp_all add: permit1_def controller1_def controller0_def controller_eval)

lemma controller1_reach: "(ctl_step (\<lambda>_. ''rec''))\<^sup>*\<^sup>* (controller0, {}) (controller1, {permit1})"
proof -
  obtain r c' where g: "begin_mutation ''op'' ''key'' 1 (intent_workspace ''edit'') controller0 =
      (Inr \<lparr>pm_record = r, pm_armed = True\<rparr>, c')" "wc_active c' = Some r"
    by (cases rule: begin_cases [of "''op''" "''key''" 1 "intent_workspace ''edit''" controller0])
      (use controller1_facts in \<open>auto simp: controller1_def\<close>)
  then have "c' = controller1" "r = permit1" using controller1_facts(1) by (auto simp: controller1_def)
  then show ?thesis using ctl_begin [OF g(1), of "\<lambda>_. ''rec''" "{}"] by auto
qed

lemma controller3_reach: "(ctl_step (\<lambda>_. ''rec''))\<^sup>*\<^sup>* (controller0, {}) (controller3, {permit1})"
proof -
  have "ctl_step (\<lambda>_. ''rec'') (controller1, {permit1}) (controller2, {permit1})"
    unfolding controller2_def by (rule ctl_register) (simp add: controller1_facts)
  moreover have "ctl_step (\<lambda>_. ''rec'') (controller2, {permit1}) (controller3, {permit1})"
    unfolding controller3_def by (rule ctl_seal)
  ultimately show ?thesis using controller1_reach by (meson rtranclp.rtrancl_into_rtrancl)
qed

text \<open>C30. Settling a mutation can forget an unresolved recovery: a job started under an active mutation may be
  sealed as requiring recovery, which fences the workspace; settling the mutation afterwards returns
  the workspace to ready while the recovery record is unresolved and the job still waits for it, and
  the next mutation is admitted.\<close>

theorem settle_forgets_recovery:
  "(ctl_step (\<lambda>_. ''rec''))\<^sup>*\<^sup>* (controller0, {}) (controller3, {permit1}) \<and>
   wst_state (wc_status controller3) = WS_RecoveryRequired \<and>
   (\<exists>out p'. settle ''receipt'' ''rec2'' 4 \<lparr>pm_record = permit1, pm_armed = True\<rparr> (report_succeeded None) controller3 =
      (out, p', controller4)) \<and>
   wst_state (wc_status controller4) = WS_Ready \<and> wst_recovery_id (wc_status controller4) = None \<and>
   (\<exists>rec. bt_get (wc_recoveries controller4) ''rec'' = Some rec \<and> \<not> rr_resolved rec) \<and>
   (\<exists>job. bt_get (jr_jobs (wc_jobs controller4)) ''job'' = Some job \<and> wj_state job = JS_RecoveryRequired) \<and>
   is_ok (fst (begin_mutation ''op2'' ''key2'' 6 (intent_workspace ''next'') controller4))"
proof (intro conjI)
  show "(ctl_step (\<lambda>_. ''rec''))\<^sup>*\<^sup>* (controller0, {}) (controller3, {permit1})" by (rule controller3_reach)
  show "\<exists>out p'. settle ''receipt'' ''rec2'' 4 \<lparr>pm_record = permit1, pm_armed = True\<rparr> (report_succeeded None) controller3 =
      (out, p', controller4)"
    by (simp add: controller4_def prod_eq_iff)
qed (simp_all add: controller4_def controller3_def controller2_def permit1_def controller1_def controller0_def controller_eval)

theorem one_live_permit_witness:
  "wc_active controller1 = Some permit1 \<and> \<not> is_ok (fst (begin_mutation ''op2'' ''key2'' 6 (intent_workspace ''next'') controller1))"
  using one_live_permit [OF controller0_start controller1_reach, of "''op2''" "''key2''" 6 "intent_workspace ''next''"]
  by simp

theorem live_permit_settles_witness:
  "\<exists>out p' c'. settle ''receipt'' ''rec2'' 4 \<lparr>pm_record = permit1, pm_armed = True\<rparr> (report_succeeded (Some ''d'')) controller1 =
     (out, p', c') \<and> wst_state (wc_status c') = WS_Ready \<and>
     wb_version (wc_binding c') = advance_after_settlement (wb_version (wc_binding controller1)) (Some ''d'')"
proof -
  obtain out p' c' where e: "settle ''receipt'' ''rec2'' 4 \<lparr>pm_record = permit1, pm_armed = True\<rparr>
      (report_succeeded (Some ''d'')) controller1 = (out, p', c')"
    by (cases "settle ''receipt'' ''rec2'' 4 \<lparr>pm_record = permit1, pm_armed = True\<rparr> (report_succeeded (Some ''d'')) controller1")
  have "permit1 \<in> {permit1}" by simp
  from live_permit_settles [OF controller0_start controller1_reach this e] e show ?thesis
    by (auto simp: report_succeeded_def)
qed

theorem abandonment_fences_witness:
  "wst_state (wc_status controller5) = WS_RecoveryRequired \<and>
   (\<exists>e. begin_mutation ''op2'' ''key2'' 6 (intent_workspace ''next'') controller5 = (Inl e, controller5) \<and>
      ad_reason e = AD_NotReady)"
proof -
  have "permit1 \<in> {permit1}" by simp
  from abandonment_fences [OF controller0_start controller1_reach this controller5_def rtranclp.rtrancl_refl]
  show ?thesis by blast
qed

theorem reconcile_promotes_next_witness:
  "wst_state (wc_status (snd (reconcile 9 ''rec'' controller3))) = WS_Mutating"
proof -
  have "wst_recovery_id (wc_status controller3) = Some ''rec''"
    "\<exists>rec. bt_get (wc_recoveries controller3) ''rec'' = Some rec \<and> \<not> rr_resolved rec"
    "wc_active controller3 \<noteq> None" "\<forall>i other. i \<noteq> ''rec'' \<longrightarrow> bt_get (wc_recoveries controller3) i \<noteq> Some other"
    by (simp_all add: controller3_def controller2_def permit1_def controller1_def controller0_def controller_eval)
  then show ?thesis
    using reconcile_promotes_next [OF controller0_start controller3_reach, of "''rec''" _ 9] by (auto split: if_splits)
qed

theorem rebind_fences_old_binding_witness:
  "\<exists>b' c'. rebind None ''b2'' ''/root2'' ''/state2'' controller0 = (Inr b', c') \<and>
     ensure_fence (wc_jobs c') (fence_of_binding (wc_binding controller0)) = Inl StaleFence"
proof -
  have "\<exists>b' c'. rebind None ''b2'' ''/root2'' ''/state2'' controller0 = (Inr b', c')"
    "''b2'' \<noteq> wb_binding_id (wc_binding controller0)"
    by (simp_all add: rebind_def nonterminal_job_ids_def controller0_def controller_eval)
  moreover have "(ctl_step (\<lambda>_. ''rec''))\<^sup>*\<^sup>* (controller0, {}) (controller0, {})" by simp
  ultimately show ?thesis using rebind_fences_old_binding [OF controller0_start] by metis
qed

end
