(* ===== verification/Replay.thy ===== *)
theory Replay
  imports Ordered_Map
begin

text \<open>
  Deterministic replay, \<open>crates/hi-rsi-runtime/src/replay.rs\<close>: an index of recorded exchanges that answers
  requests only in the recorded order and only when request and budget state agree. The index keeps
  the exchanges in a map and their order in a queue; the abstract recording is the plain list of
  what has not been replayed yet, and the index refines it.
\<close>

section \<open>Data\<close>

datatype replay_kind = ReplayModel | ReplayTool

record recorded_exchange =
  re_kind :: replay_kind
  re_correlation_id :: string
  re_request_hash :: string
  re_response_artifact_hash :: string
  re_budget_before_hash :: string
  re_budget_after_hash :: string

datatype replay_error =
  ReplayMissing string
| RequestMismatch string
| BudgetMismatch string
| UnusedExchanges
| DuplicateExchange string

record exact_replay =
  xr_exchanges :: "(string, recorded_exchange) btree_map"
  xr_order :: "string list"

section \<open>Operations\<close>

fun index_exchanges :: "recorded_exchange list \<Rightarrow> exact_replay \<Rightarrow> (replay_error, exact_replay) result" where
  "index_exchanges [] r = Inr r"
| "index_exchanges (x # xs) r =
     (let i = re_correlation_id x
      in if bt_get (xr_exchanges r) i \<noteq> None then Inl (DuplicateExchange i)
         else index_exchanges xs
                \<lparr>xr_exchanges = bt_insert i x (xr_exchanges r), xr_order = xr_order r @ [i]\<rparr>)"

definition replay_new :: "recorded_exchange list \<Rightarrow> (replay_error, exact_replay) result" where
  "replay_new xs = index_exchanges xs \<lparr>xr_exchanges = [], xr_order = []\<rparr>"

definition replay_resolve ::
  "replay_kind \<Rightarrow> string \<Rightarrow> string \<Rightarrow> string \<Rightarrow> exact_replay \<Rightarrow>
   (replay_error, recorded_exchange) result \<times> exact_replay" where
  "replay_resolve kind i request_hash budget_before r =
     (case bt_get (xr_exchanges r) i of
        None \<Rightarrow> (Inl (ReplayMissing i), r)
      | Some x \<Rightarrow>
          if re_kind x \<noteq> kind \<or> re_request_hash x \<noteq> request_hash then (Inl (RequestMismatch i), r)
          else if re_budget_before_hash x \<noteq> budget_before then (Inl (BudgetMismatch i), r)
          else if (case xr_order r of [] \<Rightarrow> None | j # _ \<Rightarrow> Some j) \<noteq> Some i then (Inl (RequestMismatch i), r)
          else (Inr x, r\<lparr>xr_order := tl (xr_order r), xr_exchanges := bt_remove i (xr_exchanges r)\<rparr>))"

definition replay_finish :: "exact_replay \<Rightarrow> (replay_error, unit) result" where
  "replay_finish r = (if xr_exchanges r = [] \<and> xr_order r = [] then Inr () else Inl UnusedExchanges)"

section \<open>The abstract recording\<close>

record replay_request =
  rq_kind :: replay_kind
  rq_correlation_id :: string
  rq_request_hash :: string
  rq_budget_before_hash :: string

fun replay_run :: "replay_request list \<Rightarrow> exact_replay \<Rightarrow> (replay_error, recorded_exchange) result list \<times> exact_replay" where
  "replay_run [] r = ([], r)"
| "replay_run (q # qs) r =
     (case replay_resolve (rq_kind q) (rq_correlation_id q) (rq_request_hash q) (rq_budget_before_hash q) r of
        (x, r1) \<Rightarrow> (case replay_run qs r1 of (xs, r2) \<Rightarrow> (x # xs, r2)))"

definition answers :: "replay_request \<Rightarrow> recorded_exchange \<Rightarrow> bool" where
  "answers q x \<longleftrightarrow>
     re_kind x = rq_kind q \<and> re_correlation_id x = rq_correlation_id q \<and>
     re_request_hash x = rq_request_hash q \<and> re_budget_before_hash x = rq_budget_before_hash q"

fun recording_run :: "replay_request list \<Rightarrow> recorded_exchange list \<Rightarrow> recorded_exchange option list \<times> recorded_exchange list" where
  "recording_run [] rest = ([], rest)"
| "recording_run (q # qs) [] = (case recording_run qs [] of (xs, rest) \<Rightarrow> (None # xs, rest))"
| "recording_run (q # qs) (x # rest) =
     (if answers q x then (case recording_run qs rest of (xs, rest') \<Rightarrow> (Some x # xs, rest'))
      else (case recording_run qs (x # rest) of (xs, rest') \<Rightarrow> (None # xs, rest')))"

definition ok_of :: "('e, 'a) result \<Rightarrow> 'a option" where
  "ok_of r = (case r of Inl _ \<Rightarrow> None | Inr a \<Rightarrow> Some a)"

lemma ok_of_simps [simp]: "ok_of (Inl e) = None" "ok_of (Inr a) = Some a"
  by (simp_all add: ok_of_def)

text \<open>The index represents a recording: same order, same exchanges, nothing else.\<close>

definition represents :: "exact_replay \<Rightarrow> recorded_exchange list \<Rightarrow> bool" where
  "represents r xs \<longleftrightarrow>
     xr_order r = map re_correlation_id xs \<and> distinct (map re_correlation_id xs) \<and> bt_wf (xr_exchanges r) \<and>
     (\<forall>i x. bt_get (xr_exchanges r) i = Some x \<longleftrightarrow> x \<in> set xs \<and> re_correlation_id x = i)"

lemma represents_get:
  "represents r xs \<Longrightarrow> bt_get (xr_exchanges r) i = Some x \<longleftrightarrow> x \<in> set xs \<and> re_correlation_id x = i"
  by (simp add: represents_def)

lemma represents_push:
  assumes "represents r ys" and "bt_get (xr_exchanges r) (re_correlation_id x) = None"
  shows "represents \<lparr>xr_exchanges = bt_insert (re_correlation_id x) x (xr_exchanges r),
    xr_order = xr_order r @ [re_correlation_id x]\<rparr> (ys @ [x])"
proof -
  have "re_correlation_id x \<notin> re_correlation_id ` set ys"
    using assms represents_get [OF assms(1)] by (metis imageE option.distinct(1))
  with assms show ?thesis by (auto simp: represents_def intro: rev_image_eqI)
qed

lemma represents_pop:
  assumes "represents r (x # rest)"
  shows "represents (r\<lparr>xr_order := map re_correlation_id rest,
    xr_exchanges := bt_remove (re_correlation_id x) (xr_exchanges r)\<rparr>) rest"
  using assms by (auto simp: represents_def intro: rev_image_eqI)

lemma index_exchanges_represents:
  assumes "represents r ys"
  shows "(\<exists>r'. index_exchanges xs r = Inr r' \<and> represents r' (ys @ xs) \<and> distinct (map re_correlation_id (ys @ xs))) \<or>
    (\<exists>e. index_exchanges xs r = Inl e \<and> \<not> distinct (map re_correlation_id (ys @ xs)))"
  using assms
proof (induction xs arbitrary: r ys)
  case Nil
  then show ?case by (simp add: represents_def)
next
  case (Cons x xs)
  show ?case
  proof (cases "bt_get (xr_exchanges r) (re_correlation_id x)")
    case None
    from Cons.IH [OF represents_push [OF Cons.prems None]] None show ?thesis by (simp add: Let_def)
  next
    case (Some y)
    then have "re_correlation_id x \<in> re_correlation_id ` set ys" using represents_get [OF Cons.prems] by (auto intro: rev_image_eqI)
    with Some show ?thesis by (auto simp: Let_def)
  qed
qed

lemma replay_new_represents:
  "case replay_new xs of Inl e \<Rightarrow> \<not> distinct (map re_correlation_id xs) | Inr r \<Rightarrow> represents r xs"
  using index_exchanges_represents [of "\<lparr>xr_exchanges = [], xr_order = []\<rparr>" "[]" xs]
  by (auto simp: replay_new_def represents_def split: sum.splits)

lemma resolve_represents:
  assumes "represents r xs"
    and "replay_resolve (rq_kind q) (rq_correlation_id q) (rq_request_hash q) (rq_budget_before_hash q) r = (a, r')"
  shows "(case xs of
      x # rest \<Rightarrow> if answers q x then a = Inr x \<and> represents r' rest else ok_of a = None \<and> r' = r
    | [] \<Rightarrow> ok_of a = None \<and> r' = r)"
proof (cases xs)
  case Nil
  then show ?thesis using assms by (auto simp: represents_def replay_resolve_def)
next
  case (Cons x rest)
  note get = represents_get [OF assms(1)]
  have ord: "xr_order r = re_correlation_id x # map re_correlation_id rest"
    using assms(1) Cons by (simp add: represents_def)
  show ?thesis
  proof (cases "answers q x")
    case True
    then have "bt_get (xr_exchanges r) (rq_correlation_id q) = Some x" using get Cons by (auto simp: answers_def)
    with True assms(2) ord have "a = Inr x"
      and r': "r' = r\<lparr>xr_order := map re_correlation_id rest, xr_exchanges := bt_remove (re_correlation_id x) (xr_exchanges r)\<rparr>"
      by (auto simp: replay_resolve_def answers_def)
    moreover have "represents r' rest"
      using assms(1) represents_pop unfolding r' Cons by blast
    ultimately show ?thesis using True Cons by simp
  next
    case False
    have "ok_of a = None \<and> r' = r"
      using assms(2) False ord get [of "rq_correlation_id q"] Cons assms(1)
      by (auto simp: replay_resolve_def answers_def represents_def image_iff split: option.splits if_splits)
    with False Cons show ?thesis by simp
  qed
qed

lemma run_represents:
  assumes "represents r xs"
  shows "map ok_of (fst (replay_run qs r)) = fst (recording_run qs xs) \<and>
    represents (snd (replay_run qs r)) (snd (recording_run qs xs))"
  using assms
proof (induction qs arbitrary: r xs)
  case (Cons q qs)
  obtain a r1 where a: "replay_resolve (rq_kind q) (rq_correlation_id q) (rq_request_hash q) (rq_budget_before_hash q) r = (a, r1)"
    by fastforce
  note s = resolve_represents [OF Cons.prems a]
  show ?case
  proof (cases xs)
    case Nil
    with s have "ok_of a = None" "r1 = r" by simp_all
    with a Cons.IH [OF Cons.prems] Nil show ?thesis by (simp add: case_prod_beta)
  next
    case (Cons x rest)
    show ?thesis
    proof (cases "answers q x")
      case True
      with s Cons have "a = Inr x" "represents r1 rest" by simp_all
      with True Cons a Cons.IH [of r1 rest] show ?thesis by (simp add: case_prod_beta)
    next
      case False
      with s Cons have "ok_of a = None" "r1 = r" by simp_all
      with False Cons a Cons.IH [OF Cons.prems] show ?thesis by (simp add: case_prod_beta)
    qed
  qed
qed simp

lemma finish_represents:
  assumes "represents r xs"
  shows "is_ok (replay_finish r) \<longleftrightarrow> xs = []"
proof -
  have "xr_exchanges r = []" if "xs = []"
  proof -
    have "map_of (xr_exchanges r) = Map.empty"
      using represents_get [OF assms] that by (metis (mono_tags, lifting) empty_iff list.set(1) not_None_eq)
    then show ?thesis by simp
  qed
  moreover have "xr_order r = map re_correlation_id xs" using assms unfolding represents_def by blast
  ultimately show ?thesis by (cases "xs = []") (simp_all add: replay_finish_def)
qed

text \<open>C31. The replay index refines the recording: it is built exactly when the correlation identifiers are
  distinct, and then for every sequence of requests it answers a request precisely when the request
  matches the next unreplayed exchange, leaves the recording intact otherwise, and finishes
  successfully exactly when everything has been replayed.\<close>

theorem replay_refines_recording:
  "case replay_new xs of
     Inl e \<Rightarrow> \<not> distinct (map re_correlation_id xs)
   | Inr r \<Rightarrow> distinct (map re_correlation_id xs) \<and>
       (case (replay_run qs r, recording_run qs xs) of
          ((outs, r'), (spec_outs, rest)) \<Rightarrow> map ok_of outs = spec_outs \<and> (is_ok (replay_finish r') \<longleftrightarrow> rest = []))"
proof (cases "replay_new xs")
  case (Inl e)
  with replay_new_represents [of xs] show ?thesis by simp
next
  case (Inr r)
  with replay_new_represents [of xs] have r: "represents r xs" by simp
  then have "distinct (map re_correlation_id xs)" by (simp add: represents_def)
  with Inr run_represents [OF r, of qs] show ?thesis
    by (simp add: case_prod_beta finish_represents)
qed

end
