(* ===== verification/Contract.thy ===== *)
theory Contract
  imports Workflow_Validation
begin

text \<open>
  The descriptor a worker hands to a managed run, \<open>crates/hi-rsi-runtime/src/contract.rs\<close>: identity, budgets,
  policy and the optional runtime package, how a descriptor file is admitted, what makes a descriptor
  valid, how the effective settings of a run are bound to it, and which workflow graph it authorises.
  The file system's answers, JSON decoding and encoding and BLAKE3 are arguments.
\<close>

section \<open>Data\<close>

record candidate_identity =
  id_run_id :: string
  id_task_id :: string
  id_candidate_id :: string
  id_manifest_hash :: string
  id_agent_artifact_hash :: string
  id_repository_snapshot_hash :: string
  id_source_repository :: string
  id_source_commit :: string

datatype mutation_level = Prompts | ModelRouting | ContextAndMemory | MLWorkflow | ToolComposition | AgentSource

datatype isolation_profile = Namespace | MicroVm

record runtime_policy =
  po_task_policy_version :: string
  po_mutation_level :: mutation_level
  po_workflow_entrypoint :: string
  po_model_role :: string
  po_tool_set :: string
  po_tool_mode :: string
  po_filesystem_mode :: string
  po_allowed_tools :: "string list"
  po_network_allowlist :: "string list"
  po_isolation :: isolation_profile
  po_trusted_launcher :: bool

record runtime_package =
  pk_workflow :: json
  pk_model_routes :: json
  pk_context_policy :: json
  pk_memory_policy :: json
  pk_tool_policy :: json
  pk_component_hashes :: "(string, string) btree_map"

record managed_runtime_descriptor =
  de_schema_version :: u16
  de_protocol_major :: u16
  de_identity :: candidate_identity
  de_budgets :: runtime_budgets
  de_policy :: runtime_policy
  de_runtime_package :: "runtime_package option"
  de_issued_at_unix_ms :: u64
  de_expires_at_unix_ms :: u64

record effective_runtime =
  ef_model_role :: string
  ef_max_model_calls :: u32
  ef_max_tool_calls :: u32
  ef_max_output_tokens :: u32
  ef_max_repair_iterations :: u32
  ef_trace_bytes :: u64
  ef_tool_set :: string
  ef_tool_mode :: string

text \<open>The errors, with the name the message prints where it has one.\<close>

datatype contract_error =
  DescriptorIo string
| NotRegularFile
| DescriptorTooLarge
| ChangedBeforeOpen
| LinkedDescriptor
| ChangedWhileReading
| DescriptorUndecodable string
| UnsupportedDescriptorSchema u16
| UnsupportedProtocolMajor u16
| NotActiveYet
| DescriptorExpired
| LifetimeTooLong
| InvalidLabel string
| InvalidHash string
| ZeroBudget string
| LauncherNotTrusted
| SourceNeedsDefaultDeny
| SourceNeedsWorktree
| DuplicateLabel string
| PackageOmitsHash string
| InvalidPackageHash string
| PackageHashMismatch string
| EncodeFailed string
| ModelRoleMismatch
| ModelCallsExceeded
| ToolCallsExceeded
| OutputTokensExceeded
| RepairsExceeded
| TraceLimitMismatch
| ToolProfileMismatch
| WorkflowUndecodable string
| WorkflowRejected workflow_error
| EntrypointMismatch stage_id string

section \<open>Labels and hashes\<close>

definition RUNTIME_DESCRIPTOR_SCHEMA_VERSION :: u16 where
  "RUNTIME_DESCRIPTOR_SCHEMA_VERSION = 1"

definition LOCAL_PROTOCOL_MAJOR_VERSION :: u16 where
  "LOCAL_PROTOCOL_MAJOR_VERSION = 1"

definition hex_digit :: "char \<Rightarrow> bool" where
  "hex_digit c \<longleftrightarrow>
     (let n = of_char c :: nat in 48 \<le> n \<and> n \<le> 57 \<or> 97 \<le> n \<and> n \<le> 102 \<or> 65 \<le> n \<and> n \<le> 70) "

definition ascii_uppercase :: "char \<Rightarrow> bool" where
  "ascii_uppercase c \<longleftrightarrow> (let n = of_char c :: nat in 65 \<le> n \<and> n \<le> 90)"

definition is_hash :: "string \<Rightarrow> bool" where
  "is_hash s \<longleftrightarrow> length s = 64 \<and> list_all (\<lambda>c. hex_digit c \<and> \<not> ascii_uppercase c) s"

definition validate_label :: "string \<Rightarrow> string \<Rightarrow> nat \<Rightarrow> (contract_error, unit) result" where
  "validate_label name s maximum =
     ensure (s \<noteq> [] \<and> length s \<le> maximum \<and> trim s = s \<and>
             \<not> list_ex (\<lambda>c. c \<in> set (bytes [0, 13, 10])) s)
       (InvalidLabel name) (Inr ())"

text \<open>\<open>windows(2)\<close> over the sorted copy finds an equal pair exactly next to each other.\<close>

fun adjacent_equal :: "'a list \<Rightarrow> bool" where
  "adjacent_equal (x # y # xs) = (x = y \<or> adjacent_equal (y # xs))"
| "adjacent_equal xs = False"

definition validate_unique_labels :: "string \<Rightarrow> string list \<Rightarrow> (contract_error, unit) result" where
  "validate_unique_labels kind vs =
     (let sorted_vs = sort vs
      in and_then (check_all (\<lambda>v. validate_label kind v 512) sorted_vs) (\<lambda>_.
         if adjacent_equal sorted_vs then Inl (DuplicateLabel kind) else Inr ()))"

section \<open>Descriptors\<close>

definition package_component :: "runtime_package \<Rightarrow> string \<Rightarrow> json" where
  "package_component p name =
     (if name = ''workflow'' then pk_workflow p
      else if name = ''model_routes'' then pk_model_routes p
      else if name = ''context_policy'' then pk_context_policy p
      else if name = ''memory_policy'' then pk_memory_policy p
      else pk_tool_policy p)"

definition package_components :: "string list" where
  "package_components = [''workflow'', ''model_routes'', ''context_policy'', ''memory_policy'', ''tool_policy'']"

text \<open>\<open>hash\<close> is \<open>serde_json::to_vec\<close>, which can fail, followed by BLAKE3 in hexadecimal.\<close>

definition validate_component ::
  "(json \<Rightarrow> (string, string) result) \<Rightarrow> runtime_package \<Rightarrow> string \<Rightarrow> (contract_error, unit) result" where
  "validate_component hash p name =
     (case bt_get (pk_component_hashes p) name of
        None \<Rightarrow> Inl (PackageOmitsHash name)
      | Some h \<Rightarrow>
          ensure (is_hash h) (InvalidPackageHash name)
          (case hash (package_component p name) of
             Inl e \<Rightarrow> Inl (EncodeFailed e)
           | Inr h' \<Rightarrow> ensure (h' = h) (PackageHashMismatch name) (Inr ())))"

definition validate_descriptor ::
  "(json \<Rightarrow> (string, string) result) \<Rightarrow> u64 \<Rightarrow> managed_runtime_descriptor \<Rightarrow> (contract_error, unit) result" where
  "validate_descriptor hash now d =
     (let i = de_identity d; b = de_budgets d; p = de_policy d
      in ensure (de_schema_version d = RUNTIME_DESCRIPTOR_SCHEMA_VERSION) (UnsupportedDescriptorSchema (de_schema_version d))
        (ensure (de_protocol_major d = LOCAL_PROTOCOL_MAJOR_VERSION) (UnsupportedProtocolMajor (de_protocol_major d))
        (ensure (de_issued_at_unix_ms d \<le> now) NotActiveYet
        (ensure (now < de_expires_at_unix_ms d) DescriptorExpired
        (ensure (saturating_sub (de_expires_at_unix_ms d) (de_issued_at_unix_ms d) \<le> 86400000) LifetimeTooLong
        (and_then (check_all (\<lambda>(name, v, maximum). validate_label name v maximum)
           [(''run id'', id_run_id i, 128), (''task id'', id_task_id i, 128),
            (''candidate id'', id_candidate_id i, 128), (''source repository'', id_source_repository i, 512),
            (''source commit'', id_source_commit i, 128), (''task policy version'', po_task_policy_version p, 256),
            (''workflow entrypoint'', po_workflow_entrypoint p, 128), (''model role'', po_model_role p, 128)]) (\<lambda>_.
         and_then (check_all (\<lambda>(name, v). ensure (is_hash v) (InvalidHash name) (Inr ()))
           [(''manifest hash'', id_manifest_hash i), (''agent artifact hash'', id_agent_artifact_hash i),
            (''repository snapshot hash'', id_repository_snapshot_hash i)]) (\<lambda>_.
         ensure (0 < wall_time_seconds b) (ZeroBudget ''wall-time'')
        (ensure (0 < memory_bytes b) (ZeroBudget ''memory'')
        (ensure (0 < disk_bytes b) (ZeroBudget ''disk'')
        (ensure (0 < model_calls b) (ZeroBudget ''model-call'')
        (ensure (0 < output_tokens b) (ZeroBudget ''output-token'')
        (ensure (0 < trace_bytes b) (ZeroBudget ''trace'')
        (ensure (po_trusted_launcher p) LauncherNotTrusted
        (and_then
          (if po_mutation_level p = AgentSource \<and> po_isolation p = Namespace then
             ensure (po_network_allowlist p = []) SourceNeedsDefaultDeny
             (ensure (po_filesystem_mode p = ''worktree-write'') SourceNeedsWorktree (Inr ()))
           else Inr ()) (\<lambda>_.
         and_then (validate_unique_labels ''allowed tool'' (po_allowed_tools p)) (\<lambda>_.
         and_then (validate_unique_labels ''network destination'' (po_network_allowlist p)) (\<lambda>_.
         (case de_runtime_package d of
            None \<Rightarrow> Inr ()
          | Some pk \<Rightarrow> check_all (validate_component hash pk) package_components)))))))))))))))))))"

definition bind_effective :: "managed_runtime_descriptor \<Rightarrow> effective_runtime \<Rightarrow> (contract_error, unit) result" where
  "bind_effective d e =
     (let b = de_budgets d; p = de_policy d
      in ensure (ef_model_role e = po_model_role p) ModelRoleMismatch
        (ensure ((ucast (ef_max_model_calls e) :: u64) \<le> ucast (model_calls b)) ModelCallsExceeded
        (ensure ((ucast (ef_max_tool_calls e) :: u64) \<le> tool_calls b) ToolCallsExceeded
        (ensure ((ucast (ef_max_output_tokens e) :: u64) \<le> output_tokens b) OutputTokensExceeded
        (ensure (ef_max_repair_iterations e \<le> repair_iterations b) RepairsExceeded
        (ensure (ef_trace_bytes e = trace_bytes b) TraceLimitMismatch
        (ensure (ef_tool_set e = po_tool_set p \<and> ef_tool_mode e = po_tool_mode p) ToolProfileMismatch
        (Inr ()))))))))"

text \<open>
  \<open>decode\<close> is \<open>serde_json::from_value\<close>. The outer option is the fuel of graph validation, which always
  suffices.
\<close>

definition descriptor_workflow_graph ::
  "(json \<Rightarrow> (string, workflow_graph) result) \<Rightarrow> managed_runtime_descriptor \<Rightarrow> string set \<Rightarrow> string set \<Rightarrow>
   (contract_error, workflow_graph) result option" where
  "descriptor_workflow_graph decode d roles tools =
     (case (case de_runtime_package d of
              None \<Rightarrow> Inr default_coding
            | Some pk \<Rightarrow> decode (pk_workflow pk)) of
        Inl e \<Rightarrow> Some (Inl (WorkflowUndecodable e))
      | Inr g \<Rightarrow>
          (case validate_graph roles tools g of
             None \<Rightarrow> None
           | Some (Inl e) \<Rightarrow> Some (Inl (WorkflowRejected e))
           | Some (Inr _) \<Rightarrow>
               Some (ensure (wg_entry g = po_workflow_entrypoint (de_policy d))
                       (EntrypointMismatch (wg_entry g) (po_workflow_entrypoint (de_policy d)))
                       (Inr g))))"

section \<open>Reading a descriptor file\<close>

text \<open>
  What the file system reports: \<open>before\<close> for the path without following links, \<open>opened\<close> for the open file,
  and the bytes in it when it is read. The read stops one byte beyond the size limit.
\<close>

record file_meta =
  fm_is_file :: bool
  fm_is_symlink :: bool
  fm_len :: u64
  fm_dev :: u64
  fm_ino :: u64
  fm_nlink :: u64

definition DESCRIPTOR_LIMIT :: nat where
  "DESCRIPTOR_LIMIT = 256 * 1024"

definition descriptor_read ::
  "(string \<Rightarrow> (string, managed_runtime_descriptor) result) \<Rightarrow> (json \<Rightarrow> (string, string) result) \<Rightarrow> u64 \<Rightarrow>
   (string, file_meta) result \<Rightarrow> (string, unit) result \<Rightarrow> (string, file_meta) result \<Rightarrow> (string, string) result \<Rightarrow>
   (contract_error, managed_runtime_descriptor) result" where
  "descriptor_read decode hash now before open_result opened contents =
     (case before of
        Inl e \<Rightarrow> Inl (DescriptorIo e)
      | Inr bm \<Rightarrow>
          ensure (fm_is_file bm \<and> \<not> fm_is_symlink bm) NotRegularFile
         (ensure (unat (fm_len bm) \<le> DESCRIPTOR_LIMIT) DescriptorTooLarge
         (case open_result of
            Inl e \<Rightarrow> Inl (DescriptorIo e)
          | Inr _ \<Rightarrow>
         (case opened of
            Inl e \<Rightarrow> Inl (DescriptorIo e)
          | Inr om \<Rightarrow>
              ensure (fm_dev bm = fm_dev om \<and> fm_ino bm = fm_ino om) ChangedBeforeOpen
             (ensure (fm_nlink om = 1) LinkedDescriptor
             (case contents of
                Inl e \<Rightarrow> Inl (DescriptorIo e)
              | Inr file \<Rightarrow>
                  let bs = take (DESCRIPTOR_LIMIT + 1) file
                  in ensure (length bs = unat (fm_len om)) ChangedWhileReading
                    (case decode bs of
                       Inl e \<Rightarrow> Inl (DescriptorUndecodable e)
                     | Inr d \<Rightarrow> and_then (validate_descriptor hash now d) (\<lambda>_. Inr d))))))))"

section \<open>What validation guarantees\<close>

lemma adjacent_equal_sorted: "sorted xs \<Longrightarrow> adjacent_equal xs \<longleftrightarrow> \<not> distinct (xs :: 'a::linorder list)"
proof (induction xs rule: adjacent_equal.induct)
  case (1 x y xs)
  then have "x \<notin> set (y # xs)" if "x \<noteq> y" using that by (auto simp: order.antisym)
  with 1 show ?case by auto
qed simp_all

lemma validate_label_ok:
  "validate_label name s maximum = Inr () \<longleftrightarrow>
   s \<noteq> [] \<and> length s \<le> maximum \<and> trim s = s \<and> set s \<inter> set (bytes [0, 13, 10]) = {}"
  by (auto simp: validate_label_def list_ex_iff)

lemma unique_labels_ok:
  "validate_unique_labels kind vs = Inr () \<longleftrightarrow> (\<forall>v \<in> set vs. validate_label kind v 512 = Inr ()) \<and> distinct vs"
  by (auto simp: validate_unique_labels_def Let_def adjacent_equal_sorted)

lemma validate_component_ok:
  "validate_component hash p name = Inr () \<longleftrightarrow>
   (\<exists>h. bt_get (pk_component_hashes p) name = Some h \<and> is_hash h \<and> hash (package_component p name) = Inr h)"
  by (auto simp: validate_component_def split: option.splits sum.splits)

lemma validate_descriptor_ok:
  assumes "validate_descriptor hash now d = Inr ()"
  shows "de_issued_at_unix_ms d \<le> now" and "now < de_expires_at_unix_ms d"
    and "saturating_sub (de_expires_at_unix_ms d) (de_issued_at_unix_ms d) \<le> 86400000"
    and "po_trusted_launcher (de_policy d)"
    and "po_mutation_level (de_policy d) = AgentSource \<Longrightarrow> po_isolation (de_policy d) = Namespace \<Longrightarrow>
      po_network_allowlist (de_policy d) = [] \<and> po_filesystem_mode (de_policy d) = ''worktree-write''"
    and "distinct (po_allowed_tools (de_policy d))" and "distinct (po_network_allowlist (de_policy d))"
    and "de_runtime_package d = Some pk \<Longrightarrow> name \<in> set package_components \<Longrightarrow> validate_component hash pk name = Inr ()"
    and "0 < model_calls (de_budgets d)"
  using assms
  by (auto simp: validate_descriptor_def Let_def unique_labels_ok split: if_splits)

section \<open>Properties\<close>

text \<open>An admitted descriptor is the whole file: when reading a descriptor succeeds and the file's size did not
  change between the inspection of the path and the opening of the file, the descriptor was decoded
  from the complete contents of a regular file with a single link and at most 256 KiB, the file
  opened is the one inspected, and the descriptor is valid and unexpired at that moment.\<close>

theorem admitted_descriptor_complete:
  assumes "descriptor_read decode hash now before open_result opened contents = Inr d"
    and "before = Inr bm" and "opened = Inr om" and "fm_len om = fm_len bm"
  shows "\<exists>body. contents = Inr body \<and> length body \<le> 262144 \<and> decode body = Inr d \<and> fm_is_file bm \<and>
    \<not> fm_is_symlink bm \<and> fm_nlink om = 1 \<and> fm_dev om = fm_dev bm \<and> fm_ino om = fm_ino bm \<and>
    validate_descriptor hash now d = Inr () \<and> now < de_expires_at_unix_ms d"
proof -
  from assms obtain body where f: "contents = Inr body" "length (take (DESCRIPTOR_LIMIT + 1) body) = unat (fm_len om)"
      "decode (take (DESCRIPTOR_LIMIT + 1) body) = Inr d" "validate_descriptor hash now d = Inr ()"
    and m: "unat (fm_len om) \<le> DESCRIPTOR_LIMIT" "fm_is_file bm" "\<not> fm_is_symlink bm" "fm_nlink om = 1"
      "fm_dev om = fm_dev bm" "fm_ino om = fm_ino bm"
    by (auto simp: descriptor_read_def Let_def split: sum.splits)
  from f(2) m(1) have "take (DESCRIPTOR_LIMIT + 1) body = body" "length body \<le> DESCRIPTOR_LIMIT" by auto
  with f m validate_descriptor_ok(2) [OF f(4)] show ?thesis by (auto simp: DESCRIPTOR_LIMIT_def)
qed

text \<open>Runtime packages are tamper-evident: two packages whose descriptors validate, possibly at different
  times, and whose component hashes agree have equal components, provided the hash has no collision
  between a component of one and a component of the other.\<close>

theorem package_tamper_evident:
  assumes "validate_descriptor hash now d = Inr ()" and "validate_descriptor hash now' d' = Inr ()"
    and "de_runtime_package d = Some pk" and "de_runtime_package d' = Some pk'"
    and "pk_component_hashes pk = pk_component_hashes pk'"
    and "\<forall>name \<in> set package_components. hash (package_component pk name) = hash (package_component pk' name) \<longrightarrow>
           package_component pk name = package_component pk' name"
  shows "pk = pk'"
proof -
  have eq: "package_component pk name = package_component pk' name" if n: "name \<in> set package_components" for name
  proof -
    have "validate_component hash pk name = Inr ()" "validate_component hash pk' name = Inr ()"
      using validate_descriptor_ok(8) [OF assms(1,3) n] validate_descriptor_ok(8) [OF assms(2,4) n] .
    then have "hash (package_component pk name) = hash (package_component pk' name)"
      using assms(5) by (auto simp: validate_component_ok)
    with assms(6) n show ?thesis by blast
  qed
  have "pk_workflow pk = pk_workflow pk'" "pk_model_routes pk = pk_model_routes pk'"
    "pk_context_policy pk = pk_context_policy pk'" "pk_memory_policy pk = pk_memory_policy pk'"
    "pk_tool_policy pk = pk_tool_policy pk'"
    using eq [of "''workflow''"] eq [of "''model_routes''"] eq [of "''context_policy''"] eq [of "''memory_policy''"]
      eq [of "''tool_policy''"]
    by (simp_all add: package_components_def package_component_def)
  with assms(5) show ?thesis by (cases pk; cases pk') simp
qed

section \<open>A concrete descriptor\<close>

definition sample_hash :: "json \<Rightarrow> (string, string) result" where
  "sample_hash v =
     (case v of JNull \<Rightarrow> Inr (replicate 64 CHR ''0'') | JBool _ \<Rightarrow> Inr (replicate 64 CHR ''1'') | _ \<Rightarrow> Inl ''unsupported'')"

definition sample_package :: runtime_package where
  "sample_package =
     \<lparr>pk_workflow = JBool True, pk_model_routes = JNull, pk_context_policy = JNull, pk_memory_policy = JNull,
      pk_tool_policy = JNull,
      pk_component_hashes = [(''context_policy'', replicate 64 CHR ''0''), (''memory_policy'', replicate 64 CHR ''0''),
        (''model_routes'', replicate 64 CHR ''0''), (''tool_policy'', replicate 64 CHR ''0''),
        (''workflow'', replicate 64 CHR ''1'')]\<rparr>"

definition sample_descriptor :: managed_runtime_descriptor where
  "sample_descriptor =
     \<lparr>de_schema_version = 1, de_protocol_major = 1,
      de_identity = \<lparr>id_run_id = ''run-1'', id_task_id = ''task-1'', id_candidate_id = ''candidate-1'',
        id_manifest_hash = replicate 64 CHR ''1'', id_agent_artifact_hash = replicate 64 CHR ''2'',
        id_repository_snapshot_hash = replicate 64 CHR ''3'', id_source_repository = ''pipe/hi'', id_source_commit = ''abc123''\<rparr>,
      de_budgets = \<lparr>wall_time_seconds = 60, cpu_time_seconds = 60, memory_bytes = 1024, disk_bytes = 1024,
        input_tokens = 100, output_tokens = 100, tool_calls = 10, cost_microusd = 100, model_calls = 5,
        repair_iterations = 2, trace_bytes = 4096\<rparr>,
      de_policy = \<lparr>po_task_policy_version = ''task-v1'', po_mutation_level = MLWorkflow, po_workflow_entrypoint = ''intake'',
        po_model_role = ''implementer'', po_tool_set = ''minimal'', po_tool_mode = ''auto'',
        po_filesystem_mode = ''worktree-write'', po_allowed_tools = [''read'', ''write''], po_network_allowlist = [],
        po_isolation = Namespace, po_trusted_launcher = True\<rparr>,
      de_runtime_package = Some sample_package, de_issued_at_unix_ms = 1000, de_expires_at_unix_ms = 2000\<rparr>"

definition sample_meta :: file_meta where
  "sample_meta = \<lparr>fm_is_file = True, fm_is_symlink = False, fm_len = 2, fm_dev = 1, fm_ino = 7, fm_nlink = 1\<rparr>"

lemma printable_label:
  assumes "s \<noteq> []" and "list_all printable_ascii s" and "length s \<le> maximum"
  shows "validate_label name s maximum = Inr ()"
proof -
  have "\<not> printable_ascii c" if "c \<in> set (bytes [0, 13, 10])" for c
    using that by (auto simp: printable_ascii_def)
  with assms show ?thesis
    by (auto simp: validate_label_ok list_all_iff intro!: trim_printable)
qed

lemma sample_checks:
  "list_all (\<lambda>(s, n). validate_label name s n = Inr ())
     [(''run-1'', 128), (''task-1'', 128), (''candidate-1'', 128), (''pipe/hi'', 512), (''abc123'', 128), (''task-v1'', 256),
      (''intake'', 128), (''implementer'', 128), (''read'', 512), (''write'', 512)]"
  "list_all (\<lambda>c. is_hash (replicate 64 c)) ''0123''"
  by (simp_all add: printable_label printable_ascii_def is_hash_def hex_digit_def ascii_uppercase_def list_all_iff)

lemma sample_unique: "validate_unique_labels kind [''read'', ''write''] = Inr ()" "validate_unique_labels kind [] = Inr ()"
  using sample_checks(1) [of kind] by (simp_all add: unique_labels_ok)

lemma sample_package_valid: "check_all (validate_component sample_hash sample_package) package_components = Inr ()"
  using sample_checks(2)
  by (simp add: validate_component_ok package_components_def package_component_def sample_package_def sample_hash_def)

lemma sample_descriptor_valid: "validate_descriptor sample_hash 1500 sample_descriptor = Inr ()"
  using sample_checks sample_unique sample_package_valid
  by (simp add: validate_descriptor_def sample_descriptor_def RUNTIME_DESCRIPTOR_SCHEMA_VERSION_def
      LOCAL_PROTOCOL_MAJOR_VERSION_def saturating_sub_def Let_def)

theorem admitted_descriptor_complete_witness:
  "descriptor_read (\<lambda>_. Inr sample_descriptor) sample_hash 1500 (Inr sample_meta) (Inr ()) (Inr sample_meta) (Inr ''{}'') =
     Inr sample_descriptor \<and> (1500 :: u64) < de_expires_at_unix_ms sample_descriptor"
proof -
  have r: "descriptor_read (\<lambda>_. Inr sample_descriptor) sample_hash 1500 (Inr sample_meta) (Inr ()) (Inr sample_meta)
      (Inr ''{}'') = Inr sample_descriptor"
    by (simp add: descriptor_read_def sample_meta_def DESCRIPTOR_LIMIT_def sample_descriptor_valid)
  with admitted_descriptor_complete [OF r refl refl refl] show ?thesis by blast
qed

theorem package_tamper_evident_witness:
  "validate_descriptor sample_hash 1500 sample_descriptor = Inr () \<and> sample_package = sample_package\<lparr>pk_model_routes := JNull\<rparr>"
proof -
  let ?d = "sample_descriptor\<lparr>de_runtime_package := Some (sample_package\<lparr>pk_model_routes := JNull\<rparr>)\<rparr>"
  have "?d = sample_descriptor" by (simp add: sample_descriptor_def sample_package_def)
  with sample_descriptor_valid have v: "validate_descriptor sample_hash 1500 ?d = Inr ()" by simp
  have "sample_package = sample_package\<lparr>pk_model_routes := JNull\<rparr>"
  proof (rule package_tamper_evident [OF sample_descriptor_valid v])
    show "\<forall>name \<in> set package_components.
        sample_hash (package_component sample_package name) = sample_hash (package_component (sample_package\<lparr>pk_model_routes := JNull\<rparr>) name) \<longrightarrow>
        package_component sample_package name = package_component (sample_package\<lparr>pk_model_routes := JNull\<rparr>) name"
      by (simp add: package_components_def package_component_def sample_package_def)
  qed (simp_all add: sample_descriptor_def)
  with sample_descriptor_valid show ?thesis by blast
qed

end
