(* ===== verification/Resource_Uri.thy ===== *)
theory Resource_Uri
  imports Workspace_Model
begin

text \<open>
  Resource URIs, \<open>crates/hi-workspace/src/resource.rs\<close>: their schemes, parsing, printing and the validation that
  confines workspace references to relative, normalised paths. Strings are their UTF-8 bytes; paths
  follow the Unix rules of \<open>std::path\<close>.
\<close>

section \<open>Schemes and URIs\<close>

datatype resource_scheme = RS_Workspace | RS_Artifact | RS_Session | RS_Job | RS_Mcp

definition scheme_as_str :: "resource_scheme \<Rightarrow> string" where
  "scheme_as_str s =
     (case s of RS_Workspace \<Rightarrow> ''workspace'' | RS_Artifact \<Rightarrow> ''artifact'' | RS_Session \<Rightarrow> ''session''
      | RS_Job \<Rightarrow> ''job'' | RS_Mcp \<Rightarrow> ''mcp'')"

datatype resource_uri_error =
  MissingScheme
| UnsupportedScheme string
| EmptyReference
| ControlCharacter
| UnsafeWorkspacePath
| NonUtf8WorkspacePath

definition scheme_from_str :: "string \<Rightarrow> (resource_uri_error, resource_scheme) result" where
  "scheme_from_str v =
     (if v = ''workspace'' then Inr RS_Workspace
      else if v = ''artifact'' then Inr RS_Artifact
      else if v = ''session'' then Inr RS_Session
      else if v = ''job'' then Inr RS_Job
      else if v = ''mcp'' then Inr RS_Mcp
      else Inl (UnsupportedScheme v))"

record resource_uri =
  ru_scheme :: resource_scheme
  ru_reference :: string

section \<open>The string and path functions of the standard library\<close>

fun split_once :: "string \<Rightarrow> string \<Rightarrow> (string \<times> string) option" where
  "split_once pat [] = (if pat = [] then Some ([], []) else None)"
| "split_once pat (c # s) =
     (if prefix pat (c # s) then Some ([], drop (length pat) (c # s))
      else map_option (\<lambda>(a, b). (c # a, b)) (split_once pat s))"

fun split_on :: "char \<Rightarrow> string \<Rightarrow> string list" where
  "split_on x [] = [[]]"
| "split_on x (c # s) =
     (if c = x then [] # split_on x s
      else (case split_on x s of [] \<Rightarrow> [[c]] | seg # segs \<Rightarrow> (c # seg) # segs))"

text \<open>\<open>char::is_control\<close>: the category Cc, that is U+0000 to U+001F and U+007F to U+009F.\<close>

fun has_control :: "string \<Rightarrow> bool" where
  "has_control [] = False"
| "has_control (c # s) =
     (let n = (of_char c :: nat)
      in n < 32 \<or> n = 127 \<or>
         n = 194 \<and> (case s of [] \<Rightarrow> False | d # _ \<Rightarrow> 128 \<le> (of_char d :: nat) \<and> (of_char d :: nat) \<le> 159) \<or>
         has_control s)"

datatype path_component = RootDir | CurDir | ParentDir | NormalComponent string

definition segment_component :: "string \<Rightarrow> path_component" where
  "segment_component seg = (if seg = ''..'' then ParentDir else NormalComponent seg)"

text \<open>\<open>Path::components\<close> drops empty segments and, except at the start of a relative path, current-directory segments.\<close>

definition path_components :: "string \<Rightarrow> path_component list" where
  "path_components s =
     (let segs = split_on CHR ''/'' s;
          rest = map segment_component (filter (\<lambda>seg. seg \<noteq> [] \<and> seg \<noteq> ''.'') segs)
      in if prefix ''/'' s then RootDir # rest
         else if hd segs = ''.'' then CurDir # rest
         else rest)"

definition path_is_absolute :: "string \<Rightarrow> bool" where
  "path_is_absolute s \<longleftrightarrow> prefix ''/'' s"

section \<open>Operations\<close>

definition is_normal :: "path_component \<Rightarrow> bool" where
  "is_normal c = (case c of NormalComponent _ \<Rightarrow> True | _ \<Rightarrow> False)"

definition normalized_reference :: "string \<Rightarrow> bool" where
  "normalized_reference r \<longleftrightarrow>
     \<not> path_is_absolute r \<and> \<not> prefix ''/'' r \<and> \<not> prefix [CHR 0x5C] r \<and> CHR 0x5C \<notin> set r \<and>
     list_all (\<lambda>seg. seg \<noteq> [] \<and> seg \<noteq> ''.'' \<and> seg \<noteq> ''..'') (split_on CHR ''/'' r) \<and>
     list_all is_normal (path_components r)"

definition validate_reference :: "resource_scheme \<Rightarrow> string \<Rightarrow> (resource_uri_error, unit) result" where
  "validate_reference scheme r =
     (if r = [] then Inl EmptyReference
      else if has_control r then Inl ControlCharacter
      else if scheme = RS_Workspace \<and> \<not> normalized_reference r then Inl UnsafeWorkspacePath
      else Inr ())"

definition uri_new :: "resource_scheme \<Rightarrow> string \<Rightarrow> (resource_uri_error, resource_uri) result" where
  "uri_new scheme r =
     and_then (validate_reference scheme r) (\<lambda>_. Inr \<lparr>ru_scheme = scheme, ru_reference = r\<rparr>)"

definition uri_to_string :: "resource_uri \<Rightarrow> string" where
  "uri_to_string u = scheme_as_str (ru_scheme u) @ ''://'' @ ru_reference u"

definition uri_from_str :: "string \<Rightarrow> (resource_uri_error, resource_uri) result" where
  "uri_from_str v =
     (case split_once ''://'' v of
        None \<Rightarrow> Inl MissingScheme
      | Some (scheme, reference) \<Rightarrow> and_then (scheme_from_str scheme) (\<lambda>s. uri_new s reference))"

text \<open>The path as \<open>to_str\<close> gives it: \<open>None\<close> when it is not UTF-8.\<close>

definition uri_workspace :: "string option \<Rightarrow> (resource_uri_error, resource_uri) result" where
  "uri_workspace path = (case path of None \<Rightarrow> Inl NonUtf8WorkspacePath | Some v \<Rightarrow> uri_new RS_Workspace v)"

definition workspace_path :: "resource_uri \<Rightarrow> string option" where
  "workspace_path u = (if ru_scheme u = RS_Workspace then Some (ru_reference u) else None)"

record resource_read_request =
  rrq_uri :: resource_uri
  rrq_offset :: u64
  rrq_limit :: "u64 option"

definition from_workspace_path ::
  "string option \<Rightarrow> u64 \<Rightarrow> u64 option \<Rightarrow> (resource_uri_error, resource_read_request) result" where
  "from_workspace_path path offset limit =
     and_then (uri_workspace path) (\<lambda>u. Inr \<lparr>rrq_uri = u, rrq_offset = offset, rrq_limit = limit\<rparr>)"

section \<open>Round trip\<close>

lemma split_once_Some:
  "split_once pat s = Some (a, b) \<Longrightarrow> s = a @ pat @ b"
proof (induction pat s arbitrary: a b rule: split_once.induct)
  case (2 pat c s)
  show ?case
  proof (cases "prefix pat (c # s)")
    case True
    with 2 show ?thesis by (auto simp: prefix_def)
  next
    case False
    with "2.prems" obtain a' where "split_once pat s = Some (a', b)" "a = c # a'" by auto
    with "2.IH" [OF False] show ?thesis by simp
  qed
qed (auto split: if_splits)

lemma split_once_scheme:
  "list_all (\<lambda>c. c \<noteq> CHR '':'') a \<Longrightarrow> split_once ''://'' (a @ ''://'' @ b) = Some (a, b)"
  by (induction a) auto

lemma scheme_from_as [simp]: "scheme_from_str (scheme_as_str s) = Inr s"
  by (cases s) (simp_all add: scheme_from_str_def scheme_as_str_def)

lemma scheme_from_str_Inr [simp]: "scheme_from_str v = Inr s \<longleftrightarrow> v = scheme_as_str s"
  by (cases s) (auto simp: scheme_from_str_def scheme_as_str_def)

lemma scheme_no_colon: "list_all (\<lambda>c. c \<noteq> CHR '':'') (scheme_as_str s)"
  by (cases s) (simp_all add: scheme_as_str_def)

lemma uri_new_Inr [simp]:
  "uri_new s r = Inr u \<longleftrightarrow> validate_reference s r = Inr () \<and> u = \<lparr>ru_scheme = s, ru_reference = r\<rparr>"
  by (auto simp: uri_new_def)

text \<open>C34. Parsing and printing resource URIs are inverse: a text parses to a URI exactly when it is what the URI
  prints and the URI's reference is valid for its scheme.\<close>

theorem uri_roundtrip:
  "uri_from_str v = Inr u \<longleftrightarrow> validate_reference (ru_scheme u) (ru_reference u) = Inr () \<and> uri_to_string u = v"
proof
  assume "uri_from_str v = Inr u"
  then obtain r where "split_once ''://'' v = Some (scheme_as_str (ru_scheme u), r)" "ru_reference u = r"
    "validate_reference (ru_scheme u) r = Inr ()"
    by (auto simp: uri_from_str_def split: option.splits)
  then show "validate_reference (ru_scheme u) (ru_reference u) = Inr () \<and> uri_to_string u = v"
    using split_once_Some [of "''://''" v] by (simp add: uri_to_string_def)
next
  assume "validate_reference (ru_scheme u) (ru_reference u) = Inr () \<and> uri_to_string u = v"
  then show "uri_from_str v = Inr u"
    using split_once_scheme [OF scheme_no_colon, of "ru_scheme u" "ru_reference u"]
    by (auto simp: uri_from_str_def uri_to_string_def)
qed

section \<open>Confinement\<close>

text \<open>Resolving a path against a directory, name by name, without following links.\<close>

definition enter :: "path_component \<Rightarrow> string list \<Rightarrow> string list" where
  "enter c dir =
     (case c of RootDir \<Rightarrow> [] | CurDir \<Rightarrow> dir | ParentDir \<Rightarrow> butlast dir | NormalComponent n \<Rightarrow> dir @ [n])"

lemma split_on_nonempty [simp]: "split_on x s \<noteq> []"
  by (induction s) (auto split: list.splits)

lemma split_on_chars: "seg \<in> set (split_on x s) \<Longrightarrow> x \<notin> set seg \<and> set seg \<subseteq> set s"
proof (induction s arbitrary: seg)
  case (Cons c s)
  obtain t ts where "split_on x s = t # ts" by (cases "split_on x s") auto
  with Cons show ?case by (fastforce split: if_splits)
qed simp

lemma split_on_hd: "s \<noteq> [] \<Longrightarrow> hd s = x \<Longrightarrow> [] \<in> set (split_on x s)"
  by (cases s) auto

lemma normalized_segments:
  assumes "normalized_reference r"
  shows "path_components r = map NormalComponent (split_on CHR ''/'' r)"
    and "list_all (\<lambda>seg. seg \<noteq> [] \<and> seg \<noteq> ''.'' \<and> seg \<noteq> ''..'') (split_on CHR ''/'' r)"
proof -
  let ?segs = "split_on CHR ''/'' r"
  show ok: "list_all (\<lambda>seg. seg \<noteq> [] \<and> seg \<noteq> ''.'' \<and> seg \<noteq> ''..'') ?segs"
    using assms by (simp add: normalized_reference_def)
  then have f: "filter (\<lambda>seg. seg \<noteq> [] \<and> seg \<noteq> ''.'') ?segs = ?segs" by (auto simp: list_all_iff filter_id_conv)
  have h: "hd ?segs \<noteq> ''.''" using ok by (auto simp: list_all_iff)
  have m: "map segment_component ?segs = map NormalComponent ?segs"
    using ok by (auto simp: segment_component_def list_all_iff)
  show "path_components r = map NormalComponent ?segs"
    using assms h unfolding path_components_def Let_def f m by (simp add: normalized_reference_def)
qed

lemma enter_normal: "fold enter (map NormalComponent segs) dir = dir @ segs"
  by (induction segs arbitrary: dir) (simp_all add: enter_def)

text \<open>C35. Workspace URIs stay inside the workspace: resolving the reference of a parsed workspace URI against any
  directory only descends, by at least one name, and no name on the way is empty, a dot, a double
  dot, or contains a slash or a backslash.\<close>

theorem workspace_uri_confined:
  assumes "uri_from_str v = Inr u" and "workspace_path u = Some path"
  shows "\<exists>names. fold enter (path_components path) root = root @ names \<and> names \<noteq> [] \<and>
    (\<forall>n \<in> set names. n \<notin> {[], ''.'', ''..''} \<and> CHR ''/'' \<notin> set n \<and> CHR 0x5C \<notin> set n)"
proof -
  from assms have "path = ru_reference u" "normalized_reference path"
    by (auto simp: uri_from_str_def workspace_path_def validate_reference_def split: option.splits if_splits)
  note n = normalized_segments [OF this(2)] and bs = this(2) [unfolded normalized_reference_def]
  have "n \<notin> {[], ''.'', ''..''} \<and> CHR ''/'' \<notin> set n \<and> CHR 0x5C \<notin> set n" if "n \<in> set (split_on CHR ''/'' path)" for n
    using that n(2) bs split_on_chars [OF that] by (auto simp: list_all_iff)
  then show ?thesis
    unfolding n(1) enter_normal by (intro exI [of _ "split_on CHR ''/'' path"]) auto
qed

theorem workspace_uri_confined_witness:
  "uri_from_str ''workspace://src/lib.rs'' = Inr \<lparr>ru_scheme = RS_Workspace, ru_reference = ''src/lib.rs''\<rparr> \<and>
   (\<exists>names. fold enter (path_components ''src/lib.rs'') [''home'', ''w''] = [''home'', ''w''] @ names \<and> names \<noteq> [])"
proof -
  have u: "uri_from_str ''workspace://src/lib.rs'' = Inr \<lparr>ru_scheme = RS_Workspace, ru_reference = ''src/lib.rs''\<rparr>"
    by code_simp
  have w: "workspace_path \<lparr>ru_scheme = RS_Workspace, ru_reference = ''src/lib.rs''\<rparr> = Some ''src/lib.rs''"
    by (simp add: workspace_path_def)
  from workspace_uri_confined [OF u w, of "[''home'', ''w'']"] u show ?thesis by auto
qed

end
