(* ===== verification/Routing.thy ===== *)
theory Routing
  imports Run_State
begin

text \<open>
  Model and harness routing, \<open>crates/hi-routing/src/lib.rs\<close>: capabilities owned by the model or by the harness,
  the requirements of a request, and the resolver that picks a candidate and records why it passed
  over the others. The digest of a decision (JSON and BLAKE3) is an argument.
\<close>

section \<open>Capabilities\<close>

datatype capability =
  Streaming | StructuredTools | Reasoning | Vision | JsonSchema | ToolReplay
| Network | WorkspaceRead | WorkspaceWrite | ProcessExecution

datatype capability_owner = OwnerModel | OwnerHarness

definition owner :: "capability \<Rightarrow> capability_owner" where
  "owner c =
     (case c of
        Streaming \<Rightarrow> OwnerModel | StructuredTools \<Rightarrow> OwnerModel | Reasoning \<Rightarrow> OwnerModel | Vision \<Rightarrow> OwnerModel
      | JsonSchema \<Rightarrow> OwnerModel | ToolReplay \<Rightarrow> OwnerModel
      | Network \<Rightarrow> OwnerHarness | WorkspaceRead \<Rightarrow> OwnerHarness | WorkspaceWrite \<Rightarrow> OwnerHarness
      | ProcessExecution \<Rightarrow> OwnerHarness)"

record capability_set =
  cs_capabilities :: "capability set"
  cs_context_window :: "u32 option"
  cs_max_output_tokens :: "u32 option"

definition capability_set_default :: capability_set where
  "capability_set_default = \<lparr>cs_capabilities = {}, cs_context_window = None, cs_max_output_tokens = None\<rparr>"

definition with_capability :: "capability_set \<Rightarrow> capability \<Rightarrow> capability_set" where
  "with_capability s c = s\<lparr>cs_capabilities := insert c (cs_capabilities s)\<rparr>"

definition at_least :: "u32 option \<Rightarrow> u32 option \<Rightarrow> bool" where
  "at_least actual required =
     (case required of
        None \<Rightarrow> True
      | Some r \<Rightarrow> (case actual of None \<Rightarrow> False | Some a \<Rightarrow> r \<le> a))"

definition supports :: "capability_set \<Rightarrow> capability_set \<Rightarrow> bool" where
  "supports s required \<longleftrightarrow>
     Ball (cs_capabilities required) (\<lambda>c. c \<in> cs_capabilities s) \<and>
     at_least (cs_context_window s) (cs_context_window required) \<and>
     at_least (cs_max_output_tokens s) (cs_max_output_tokens required)"

definition supports_owned :: "capability_set \<Rightarrow> capability_set \<Rightarrow> capability_owner \<Rightarrow> bool" where
  "supports_owned s required own \<longleftrightarrow>
     Ball (cs_capabilities required) (\<lambda>c. owner c = own \<longrightarrow> c \<in> cs_capabilities s) \<and>
     (own = OwnerHarness \<or>
      at_least (cs_context_window s) (cs_context_window required) \<and>
      at_least (cs_max_output_tokens s) (cs_max_output_tokens required))"

section \<open>Candidates\<close>

record route_requirements =
  rq_capabilities :: capability_set
  rq_require_available :: bool
  rq_require_credentials :: bool
  rq_scope_id :: "string option"
  rq_policy_digest :: "string option"

record model_candidate =
  mc_provider :: string
  mc_model :: string
  mc_capabilities :: capability_set
  mc_available :: bool
  mc_credential_available :: bool
  mc_health :: string

text \<open>What a provider's model listing tells; prices and labels are not read here.\<close>

record served_model =
  sm_id :: string
  sm_context_window :: "u32 option"
  sm_max_output_tokens :: "u32 option"
  sm_status :: "string option"
  sm_available :: bool
  sm_capabilities :: "string list"

definition ascii_lower :: "char \<Rightarrow> char" where
  "ascii_lower c = (let n = of_char c :: nat in if 65 \<le> n \<and> n \<le> 90 then char_of (n + 32) else c)"

definition to_ascii_lowercase :: "string \<Rightarrow> string" where
  "to_ascii_lowercase s = map ascii_lower s"

definition eq_ignore_ascii_case :: "string \<Rightarrow> string \<Rightarrow> bool" where
  "eq_ignore_ascii_case a b \<longleftrightarrow> to_ascii_lowercase a = to_ascii_lowercase b"

definition capability_of_tag :: "string \<Rightarrow> capability option" where
  "capability_of_tag raw =
     (let t = to_ascii_lowercase (trim raw)
      in if t \<in> {''stream'', ''streaming''} then Some Streaming
         else if t \<in> {''tools'', ''tool_calls'', ''tool-calls''} then Some StructuredTools
         else if t \<in> {''reasoning'', ''thinking''} then Some Reasoning
         else if t \<in> {''vision'', ''images''} then Some Vision
         else if t \<in> {''json'', ''json_schema'', ''structured_output''} then Some JsonSchema
         else if t = ''tool_replay'' then Some ToolReplay
         else None)"

definition from_served_model :: "string \<Rightarrow> served_model \<Rightarrow> model_candidate" where
  "from_served_model provider m =
     \<lparr>mc_provider = provider, mc_model = sm_id m,
      mc_capabilities =
        fold (\<lambda>raw s. case capability_of_tag raw of None \<Rightarrow> s | Some c \<Rightarrow> with_capability s c) (sm_capabilities m)
          \<lparr>cs_capabilities = {}, cs_context_window = sm_context_window m, cs_max_output_tokens = sm_max_output_tokens m\<rparr>,
      mc_available = sm_available m, mc_credential_available = True,
      mc_health = unwrap_or (sm_status m) ''unknown''\<rparr>"

record harness_descriptor =
  hd_id :: string
  hd_version :: string
  hd_capabilities :: capability_set
  hd_isolation :: string
  hd_network_allowed :: bool

record route_candidate =
  rc_harness :: harness_descriptor
  rc_model :: model_candidate

datatype route_rejection =
  Unavailable | CredentialsUnavailable | ModelCapabilities | HarnessCapabilities | PolicyScopeMissing

record rejected_route =
  rj_provider :: string
  rj_model :: string
  rj_harness :: string
  rj_reason :: route_rejection

record route_decision =
  rd_selected :: route_candidate
  rd_rejected :: "rejected_route list"
  rd_requirements :: route_requirements
  rd_capability_digest :: string

datatype routing_error = NoRoute "rejected_route list" | HarnessFailed string

section \<open>Resolution\<close>

definition rejected_reason :: "route_requirements \<Rightarrow> route_candidate \<Rightarrow> route_rejection option" where
  "rejected_reason req c =
     (if rq_require_available req \<and>
         (\<not> mc_available (rc_model c) \<or> eq_ignore_ascii_case (mc_health (rc_model c)) ''degraded'')
      then Some Unavailable
      else if rq_require_credentials req \<and> \<not> mc_credential_available (rc_model c) then Some CredentialsUnavailable
      else if \<not> supports_owned (mc_capabilities (rc_model c)) (rq_capabilities req) OwnerModel then Some ModelCapabilities
      else if \<not> supports_owned (hd_capabilities (rc_harness c)) (rq_capabilities req) OwnerHarness
      then Some HarnessCapabilities
      else if rq_scope_id req = None \<and> WorkspaceWrite \<in> cs_capabilities (rq_capabilities req) then Some PolicyScopeMissing
      else None)"

definition reject :: "route_candidate \<Rightarrow> route_rejection \<Rightarrow> rejected_route" where
  "reject c reason =
     \<lparr>rj_provider = mc_provider (rc_model c), rj_model = mc_model (rc_model c), rj_harness = hd_id (rc_harness c),
      rj_reason = reason\<rparr>"

fun resolve_from ::
  "(route_candidate \<Rightarrow> route_requirements \<Rightarrow> string) \<Rightarrow> route_requirements \<Rightarrow> rejected_route list \<Rightarrow>
   route_candidate list \<Rightarrow> (routing_error, route_decision) result" where
  "resolve_from digest req rejected [] = Inl (NoRoute rejected)"
| "resolve_from digest req rejected (c # cs) =
     (case rejected_reason req c of
        Some reason \<Rightarrow> resolve_from digest req (rejected @ [reject c reason]) cs
      | None \<Rightarrow>
          Inr \<lparr>rd_selected = c, rd_rejected = rejected, rd_requirements = req, rd_capability_digest = digest c req\<rparr>)"

definition route_resolve ::
  "(route_candidate \<Rightarrow> route_requirements \<Rightarrow> string) \<Rightarrow> route_requirements \<Rightarrow> route_candidate list \<Rightarrow>
   (routing_error, route_decision) result" where
  "route_resolve digest req cs = resolve_from digest req [] cs"

section \<open>Correctness\<close>

text \<open>The capabilities of a route: each capability counts where it is owned, the token limits are the model's.\<close>

definition route_capabilities :: "route_candidate \<Rightarrow> capability_set" where
  "route_capabilities c =
     \<lparr>cs_capabilities = {x \<in> cs_capabilities (mc_capabilities (rc_model c)). owner x = OwnerModel} \<union>
                        {x \<in> cs_capabilities (hd_capabilities (rc_harness c)). owner x = OwnerHarness},
      cs_context_window = cs_context_window (mc_capabilities (rc_model c)),
      cs_max_output_tokens = cs_max_output_tokens (mc_capabilities (rc_model c))\<rparr>"

definition acceptable :: "route_requirements \<Rightarrow> route_candidate \<Rightarrow> bool" where
  "acceptable req c \<longleftrightarrow>
     (rq_require_available req \<longrightarrow>
        mc_available (rc_model c) \<and> to_ascii_lowercase (mc_health (rc_model c)) \<noteq> ''degraded'') \<and>
     (rq_require_credentials req \<longrightarrow> mc_credential_available (rc_model c)) \<and>
     supports (route_capabilities c) (rq_capabilities req) \<and>
     (WorkspaceWrite \<in> cs_capabilities (rq_capabilities req) \<longrightarrow> rq_scope_id req \<noteq> None)"

definition justified :: "route_requirements \<Rightarrow> route_candidate \<Rightarrow> rejected_route \<Rightarrow> bool" where
  "justified req c r \<longleftrightarrow>
     rj_provider r = mc_provider (rc_model c) \<and> rj_model r = mc_model (rc_model c) \<and> rj_harness r = hd_id (rc_harness c) \<and>
     (case rj_reason r of
        Unavailable \<Rightarrow> rq_require_available req \<and>
          (mc_available (rc_model c) \<longrightarrow> to_ascii_lowercase (mc_health (rc_model c)) = ''degraded'')
      | CredentialsUnavailable \<Rightarrow> rq_require_credentials req \<and> \<not> mc_credential_available (rc_model c)
      | ModelCapabilities \<Rightarrow> \<not> supports (mc_capabilities (rc_model c))
          ((rq_capabilities req)\<lparr>cs_capabilities := {x \<in> cs_capabilities (rq_capabilities req). owner x = OwnerModel}\<rparr>)
      | HarnessCapabilities \<Rightarrow> \<not> {x \<in> cs_capabilities (rq_capabilities req). owner x = OwnerHarness}
          \<subseteq> cs_capabilities (hd_capabilities (rc_harness c))
      | PolicyScopeMissing \<Rightarrow> rq_scope_id req = None \<and> WorkspaceWrite \<in> cs_capabilities (rq_capabilities req))"

lemma supports_split:
  "supports (route_capabilities c) req \<longleftrightarrow>
   supports_owned (mc_capabilities (rc_model c)) req OwnerModel \<and>
   supports_owned (hd_capabilities (rc_harness c)) req OwnerHarness"
proof -
  have "owner x = OwnerModel \<or> owner x = OwnerHarness" for x by (cases "owner x") auto
  then show ?thesis
    by (auto simp: supports_def supports_owned_def route_capabilities_def)
qed

lemma degraded_lower: "eq_ignore_ascii_case h ''degraded'' \<longleftrightarrow> to_ascii_lowercase h = ''degraded''"
  by (simp add: eq_ignore_ascii_case_def to_ascii_lowercase_def ascii_lower_def)

lemma rejected_reason_None: "rejected_reason req c = None \<longleftrightarrow> acceptable req c"
  by (auto simp: rejected_reason_def acceptable_def supports_split degraded_lower)

lemma rejected_reason_Some: "rejected_reason req c = Some reason \<Longrightarrow> justified req c (reject c reason)"
  by (auto simp: rejected_reason_def justified_def reject_def degraded_lower supports_def supports_owned_def
      split: if_splits)

lemma resolve_from_spec:
  "case resolve_from digest req rejected cs of
     Inr d \<Rightarrow> rd_requirements d = req \<and> rd_capability_digest d = digest (rd_selected d) req \<and>
       acceptable req (rd_selected d) \<and>
       (\<exists>pre post rs. cs = pre @ rd_selected d # post \<and> list_all (\<lambda>c. \<not> acceptable req c) pre \<and>
          rd_rejected d = rejected @ rs \<and> list_all2 (justified req) pre rs)
   | Inl e \<Rightarrow> (\<exists>rs. e = NoRoute (rejected @ rs) \<and> list_all (\<lambda>c. \<not> acceptable req c) cs \<and> list_all2 (justified req) cs rs)"
proof (induction digest req rejected cs rule: resolve_from.induct)
  case (2 digest req rejected c cs)
  show ?case
  proof (cases "rejected_reason req c")
    case None
    then have "acceptable req c" by (simp add: rejected_reason_None)
    with None show ?thesis by (auto intro: exI [of _ "[]"])
  next
    case (Some reason)
    then have n: "\<not> acceptable req c" using rejected_reason_None [of req c] by simp
    have j: "justified req c (reject c reason)" by (rule rejected_reason_Some [OF Some])
    note ih = "2.IH" [OF Some]
    show ?thesis
    proof (cases "resolve_from digest req (rejected @ [reject c reason]) cs")
      case (Inl e)
      with ih obtain rs where "e = NoRoute (rejected @ reject c reason # rs)" "list_all (\<lambda>c. \<not> acceptable req c) cs"
        "list_all2 (justified req) cs rs" by auto
      with Inl n j Some show ?thesis by (auto intro: exI [of _ "reject c reason # rs"])
    next
      case (Inr d)
      with ih obtain pre post rs where
        p: "cs = pre @ rd_selected d # post" "list_all (\<lambda>c. \<not> acceptable req c) pre"
          "rd_rejected d = rejected @ reject c reason # rs" "list_all2 (justified req) pre rs"
        and o: "rd_requirements d = req" "rd_capability_digest d = digest (rd_selected d) req" "acceptable req (rd_selected d)"
        by auto
      have ex: "\<exists>pre post rs. c # cs = pre @ rd_selected d # post \<and> list_all (\<lambda>c. \<not> acceptable req c) pre \<and>
          rd_rejected d = rejected @ rs \<and> list_all2 (justified req) pre rs"
        using p n j by (intro exI [of _ "c # pre"] exI [of _ post] exI [of _ "reject c reason # rs"]) simp
      have "resolve_from digest req rejected (c # cs) = Inr d" using Some Inr by simp
      then show ?thesis using ex o by simp
    qed
  qed
qed simp

text \<open>Routing picks the first acceptable candidate: the selected route meets every requirement, with each
  capability provided by the side that owns it and the token limits by the model, and every earlier
  candidate is unacceptable and listed, in order, with a reason that is true of it; when there is no
  route, no candidate is acceptable and all are listed with true reasons.\<close>

theorem route_first_fit:
  "case route_resolve digest req cs of
     Inr d \<Rightarrow> acceptable req (rd_selected d) \<and> rd_requirements d = req \<and>
       (\<exists>pre post. cs = pre @ rd_selected d # post \<and> list_all (\<lambda>c. \<not> acceptable req c) pre \<and>
          list_all2 (justified req) pre (rd_rejected d))
   | Inl e \<Rightarrow> (\<exists>rs. e = NoRoute rs \<and> list_all (\<lambda>c. \<not> acceptable req c) cs \<and> list_all2 (justified req) cs rs)"
  using resolve_from_spec [where rejected = "[]" and digest = digest and req = req and cs = cs]
  by (auto simp: route_resolve_def split: sum.splits)

end
