(* ===== verification/Text_Lines.thy ===== *)
theory Text_Lines
  imports Hi_Prelude
begin

text \<open>
  Text as lines, the way the Rust standard library sees it: \<open>split_inclusive\<close> at newlines, \<open>str::lines\<close>,
  \<open>join\<close> and \<open>ends_with\<close>. A text without carriage returns that ends with a newline is determined by its
  lines; the component theories work on lines and come back to text through \<open>unlines\<close>.
\<close>

section \<open>Splitting and joining\<close>

definition nl :: char where
  "nl = char_of (10 :: nat)"

definition cr :: char where
  "cr = char_of (13 :: nat)"

lemma nl_cr [simp]: "nl \<noteq> cr" "cr \<noteq> nl"
  by (simp_all add: nl_def cr_def)

lemma nl_cr_value: "nl = CHR 0x0A" "cr = CHR 0x0D" "char_of (0::nat) = CHR 0x00"
  by (code_simp, code_simp, code_simp)

fun split_inclusive :: "string \<Rightarrow> string list" where
  "split_inclusive [] = []"
| "split_inclusive (c # s) =
     (if c = nl then [c] # split_inclusive s
      else (case split_inclusive s of [] \<Rightarrow> [[c]] | p # ps \<Rightarrow> (c # p) # ps))"

definition ends_with :: "char \<Rightarrow> string \<Rightarrow> bool" where
  "ends_with c s \<longleftrightarrow> s \<noteq> [] \<and> last s = c"

definition strip_last :: "char \<Rightarrow> string \<Rightarrow> string" where
  "strip_last c s = (if ends_with c s then butlast s else s)"

text \<open>A carriage return is dropped only in front of the newline that ends the line.\<close>

definition line_of :: "string \<Rightarrow> string" where
  "line_of p = (if ends_with nl p then strip_last cr (butlast p) else p)"

definition lines :: "string \<Rightarrow> string list" where
  "lines s = map line_of (split_inclusive s)"

fun join_lines :: "string list \<Rightarrow> string" where
  "join_lines [] = []"
| "join_lines [l] = l"
| "join_lines (l # ls) = l @ [nl] @ join_lines ls"

definition unlines :: "string list \<Rightarrow> string" where
  "unlines ls = concat (map (\<lambda>l. l @ [nl]) ls)"

section \<open>Pieces\<close>

definition piece :: "string \<Rightarrow> bool" where
  "piece p \<longleftrightarrow> ends_with nl p \<and> nl \<notin> set (butlast p)"

lemma unlines_simps [simp]:
  "unlines [] = []" "unlines (l # ls) = l @ nl # unlines ls" "unlines (ls @ ls') = unlines ls @ unlines ls'"
  by (simp_all add: unlines_def)

lemma split_inclusive_concat [simp]: "concat (split_inclusive s) = s"
  by (induction s) (auto split: list.splits)

lemma split_inclusive_Nil [simp]: "split_inclusive s = [] \<longleftrightarrow> s = []"
  by (cases s) (auto split: list.splits)

lemma split_inclusive_line:
  "nl \<notin> set l \<Longrightarrow> split_inclusive (l @ nl # s) = (l @ [nl]) # split_inclusive s"
  by (induction l) (auto simp: nl_def)

lemma split_inclusive_unlines:
  "list_all (\<lambda>l. nl \<notin> set l) ls \<Longrightarrow> split_inclusive (unlines ls) = map (\<lambda>l. l @ [nl]) ls"
  by (induction ls) (simp_all add: split_inclusive_line)

text \<open>A text in which every line is ended by a newline and none by a carriage return.\<close>

definition unix_text :: "string \<Rightarrow> bool" where
  "unix_text s \<longleftrightarrow> cr \<notin> set s \<and> (s = [] \<or> ends_with nl s)"

lemma split_inclusive_pieces:
  "s = [] \<or> ends_with nl s \<Longrightarrow> list_all piece (split_inclusive s)"
proof (induction s)
  case (Cons c s)
  show ?case
  proof (cases "s = []")
    case True
    with Cons.prems show ?thesis by (auto simp: piece_def ends_with_def)
  next
    case False
    with Cons.prems have "ends_with nl s" by (simp add: ends_with_def)
    with Cons.IH have ih: "list_all piece (split_inclusive s)" by simp
    have glue: "piece p \<Longrightarrow> c \<noteq> nl \<Longrightarrow> piece (c # p)" for p
      by (simp add: piece_def ends_with_def)
    have single: "piece [nl]" by (simp add: piece_def ends_with_def)
    from ih False show ?thesis
      by (cases "split_inclusive s") (simp_all add: glue single)
  qed
qed simp

lemma line_of_piece: "piece p \<Longrightarrow> cr \<notin> set p \<Longrightarrow> line_of p @ [nl] = p"
  by (cases p rule: rev_cases) (auto simp: piece_def line_of_def strip_last_def ends_with_def dest: last_in_set)

lemma split_inclusive_subset: "p \<in> set (split_inclusive s) \<Longrightarrow> set p \<subseteq> set s"
  by (metis UN_upper set_concat split_inclusive_concat)

lemma unlines_lines: "unix_text s \<Longrightarrow> unlines (lines s) = s"
proof -
  assume u: "unix_text s"
  then have "map (\<lambda>p. line_of p @ [nl]) (split_inclusive s) = split_inclusive s"
    using split_inclusive_pieces [of s] split_inclusive_subset [of _ s]
    by (intro map_idI line_of_piece) (auto simp: unix_text_def list_all_iff)
  then show ?thesis by (simp add: lines_def unlines_def comp_def)
qed

text \<open>Lines that a text can have: no newline inside, no carriage return.\<close>

definition plain_line :: "string \<Rightarrow> bool" where
  "plain_line l \<longleftrightarrow> nl \<notin> set l \<and> cr \<notin> set l"

lemma line_of_plain: "plain_line l \<Longrightarrow> line_of (l @ [nl]) = l"
  by (auto simp: plain_line_def line_of_def strip_last_def ends_with_def dest: last_in_set)

lemma lines_unlines: "list_all plain_line ls \<Longrightarrow> lines (unlines ls) = ls"
proof -
  assume a: "list_all plain_line ls"
  then have "split_inclusive (unlines ls) = map (\<lambda>l. l @ [nl]) ls"
    by (intro split_inclusive_unlines) (auto simp: plain_line_def list_all_iff)
  with a show ?thesis by (auto simp: lines_def line_of_plain list_all_iff intro: map_idI)
qed

lemma lines_plain: "unix_text s \<Longrightarrow> list_all plain_line (lines s)"
proof -
  assume u: "unix_text s"
  have "plain_line (line_of p)" if "p \<in> set (split_inclusive s)" for p
  proof -
    have "piece p" "cr \<notin> set p"
      using u that split_inclusive_pieces [of s] split_inclusive_subset [OF that]
      by (auto simp: unix_text_def list_all_iff)
    then have "butlast p = line_of p" using line_of_piece by (metis butlast_snoc)
    with \<open>piece p\<close> \<open>cr \<notin> set p\<close> show ?thesis
      by (metis in_set_butlastD piece_def plain_line_def)
  qed
  then show ?thesis by (simp add: lines_def list_all_iff)
qed

lemma unix_text_unlines: "list_all plain_line ls \<Longrightarrow> unix_text (unlines ls)"
  by (induction ls) (auto simp: unix_text_def plain_line_def ends_with_def)

lemma join_lines_unlines: "ls \<noteq> [] \<Longrightarrow> join_lines ls @ [nl] = unlines ls"
  by (induction ls rule: join_lines.induct) simp_all

lemma join_lines_Nil: "join_lines ls = [] \<longleftrightarrow> ls = [] \<or> ls = [[]]"
  by (cases ls rule: join_lines.cases) simp_all

lemma unlines_inj: "list_all plain_line ls \<Longrightarrow> list_all plain_line ls' \<Longrightarrow> unlines ls = unlines ls' \<Longrightarrow> ls = ls'"
  by (metis lines_unlines)

end
