(* ===== verification/Hunk_Diff.thy ===== *)
theory Hunk_Diff
  imports Text_Lines
begin

text \<open>
  Hunks and their computation (\<open>crates/hi-hunk-tracker/src/diff.rs\<close>, the hunk types of \<open>types.rs\<close>). The
  line diff itself is the \<open>similar\<close> crate: it is the parameter \<open>diff\<close>, which gives the list of tagged
  lines, or nothing when the ten seconds are over. \<open>HunkId::new\<close> and \<open>Utc::now\<close> draw from a stream of
  identifiers and times. A \<open>PathBuf\<close> is the list of its components below the root. Line numbers and counts
  are natural numbers, since a tracked text has at most a megabyte; the one subtraction that can go
  below zero wraps as in the release profile.
\<close>

section \<open>Types\<close>

type_synonym path = "string list"
type_synonym hunk_id = string
type_synonym timestamp = nat
type_synonym id_stream = "nat \<Rightarrow> hunk_id \<times> timestamp"

record hunk_line_info =
  old_start :: nat
  old_count :: nat
  new_start :: nat
  new_count :: nat

datatype hunk_source = AgentEdit nat | ExternalEditOnAgentFile | External

definition is_agent_edit :: "hunk_source \<Rightarrow> bool" where
  "is_agent_edit s = (case s of AgentEdit _ \<Rightarrow> True | _ \<Rightarrow> False)"

definition is_agent_tracked :: "hunk_source \<Rightarrow> bool" where
  "is_agent_tracked s = (case s of AgentEdit _ \<Rightarrow> True | ExternalEditOnAgentFile \<Rightarrow> True | External \<Rightarrow> False)"

definition is_external :: "hunk_source \<Rightarrow> bool" where
  "is_external s = (case s of AgentEdit _ \<Rightarrow> False | _ \<Rightarrow> True)"

definition prompt_index :: "hunk_source \<Rightarrow> nat option" where
  "prompt_index s = (case s of AgentEdit i \<Rightarrow> Some i | _ \<Rightarrow> None)"

lemma hunk_source_simps [simp]:
  "prompt_index (AgentEdit i) = Some i" "prompt_index External = None"
  "prompt_index ExternalEditOnAgentFile = None"
  "is_external External" "is_external ExternalEditOnAgentFile" "\<not> is_external (AgentEdit i)"
  "is_agent_edit (AgentEdit i)" "\<not> is_agent_edit External" "\<not> is_agent_edit ExternalEditOnAgentFile"
  by (simp_all add: prompt_index_def is_external_def is_agent_edit_def)

record hunk =
  h_id :: hunk_id
  h_path :: path
  line_info :: hunk_line_info
  source :: hunk_source
  old_text :: "string option"
  new_text :: string
  h_patch :: "string option"
  created_at :: timestamp
  selected :: bool

definition line_count :: "string \<Rightarrow> nat" where
  "line_count s = length (lines s)"

definition file_created :: "hunk_id \<times> timestamp \<Rightarrow> path \<Rightarrow> string \<Rightarrow> hunk_source \<Rightarrow> hunk" where
  "file_created d path content src =
     \<lparr>h_id = fst d, h_path = path,
      line_info = \<lparr>old_start = 0, old_count = 0, new_start = 1, new_count = max (line_count content) 1\<rparr>,
      source = src, old_text = None, new_text = content, h_patch = None, created_at = snd d, selected = False\<rparr>"

definition file_deleted :: "hunk_id \<times> timestamp \<Rightarrow> path \<Rightarrow> string \<Rightarrow> hunk_source \<Rightarrow> hunk" where
  "file_deleted d path content src =
     \<lparr>h_id = fst d, h_path = path,
      line_info = \<lparr>old_start = 1, old_count = max (line_count content) 1, new_start = 0, new_count = 0\<rparr>,
      source = src, old_text = Some content, new_text = [], h_patch = None, created_at = snd d, selected = False\<rparr>"

definition hunk_summary :: "hunk \<Rightarrow> string" where
  "hunk_summary h =
     ''+'' @ decimal (line_count (new_text h)) @ ''/-'' @
     decimal (case old_text h of None \<Rightarrow> 0 | Some t \<Rightarrow> line_count t)"

definition path_display :: "path \<Rightarrow> string" where
  "path_display p = (if p = [] then ''/'' else concat (map ((#) (CHR ''/'')) p))"

definition display_path :: "hunk \<Rightarrow> string" where
  "display_path h = path_display (h_path h) @ '':'' @ decimal (new_start (line_info h))"

definition line_info_display :: "hunk_line_info \<Rightarrow> string" where
  "line_info_display i =
     ''@@ -'' @ decimal (old_start i) @ '','' @ decimal (old_count i) @ '' +'' @
     decimal (new_start i) @ '','' @ decimal (new_count i) @ '' @@''"

section \<open>Computing hunks\<close>

definition CONTEXT_LINES :: nat where
  "CONTEXT_LINES = 3"

definition MAX_DIFF_FILE_SIZE :: nat where
  "MAX_DIFF_FILE_SIZE = 1024 * 1024"

datatype change_tag = ChangeEqual | ChangeDelete | ChangeInsert

type_synonym line_change = "change_tag \<times> string"
type_synonym line_diff = "string \<Rightarrow> string \<Rightarrow> line_change list option"

record hunk_builder =
  hb_old_start :: nat
  hb_new_start :: nat
  hb_old_lines :: "string list"
  hb_new_lines :: "string list"

definition hb_new :: "nat \<Rightarrow> nat \<Rightarrow> hunk_builder" where
  "hb_new o_start n_start = \<lparr>hb_old_start = o_start, hb_new_start = n_start, hb_old_lines = [], hb_new_lines = []\<rparr>"

definition add_old_line :: "string \<Rightarrow> hunk_builder \<Rightarrow> hunk_builder" where
  "add_old_line l b = b\<lparr>hb_old_lines := hb_old_lines b @ [l]\<rparr>"

definition add_new_line :: "string \<Rightarrow> hunk_builder \<Rightarrow> hunk_builder" where
  "add_new_line l b = b\<lparr>hb_new_lines := hb_new_lines b @ [l]\<rparr>"

definition hb_build :: "hunk_id \<times> timestamp \<Rightarrow> path \<Rightarrow> hunk_source \<Rightarrow> hunk_builder \<Rightarrow> hunk" where
  "hb_build d path src b =
     \<lparr>h_id = fst d, h_path = path,
      line_info = \<lparr>old_start = hb_old_start b, old_count = length (hb_old_lines b),
                   new_start = hb_new_start b, new_count = length (hb_new_lines b)\<rparr>,
      source = src,
      old_text = (if hb_old_lines b = [] then None else Some (concat (hb_old_lines b))),
      new_text = concat (hb_new_lines b),
      h_patch = None, created_at = snd d, selected = False\<rparr>"

text \<open>The state of the loop over the changes. The \<open>k\<close>-th hunk of the call takes the \<open>k\<close>-th draw after \<open>n\<close>.\<close>

record diff_walk =
  dw_old_line :: nat
  dw_new_line :: nat
  dw_current :: "hunk_builder option"
  dw_hunks :: "hunk list"

definition finalize :: "id_stream \<Rightarrow> nat \<Rightarrow> path \<Rightarrow> hunk_source \<Rightarrow> diff_walk \<Rightarrow> diff_walk" where
  "finalize ids n path src w =
     (case dw_current w of
        None \<Rightarrow> w
      | Some b \<Rightarrow> w\<lparr>dw_current := None,
                   dw_hunks := dw_hunks w @ [hb_build (ids (n + length (dw_hunks w))) path src b]\<rparr>)"

definition get_or_insert :: "diff_walk \<Rightarrow> hunk_builder" where
  "get_or_insert w = (case dw_current w of None \<Rightarrow> hb_new (dw_old_line w) (dw_new_line w) | Some b \<Rightarrow> b)"

definition walk_change :: "id_stream \<Rightarrow> nat \<Rightarrow> path \<Rightarrow> hunk_source \<Rightarrow> line_change \<Rightarrow> diff_walk \<Rightarrow> diff_walk" where
  "walk_change ids n path src c w =
     (case fst c of
        ChangeEqual \<Rightarrow>
          (let w' = finalize ids n path src w
           in w'\<lparr>dw_old_line := dw_old_line w' + 1, dw_new_line := dw_new_line w' + 1\<rparr>)
      | ChangeDelete \<Rightarrow>
          w\<lparr>dw_current := Some (add_old_line (snd c) (get_or_insert w)), dw_old_line := dw_old_line w + 1\<rparr>
      | ChangeInsert \<Rightarrow>
          w\<lparr>dw_current := Some (add_new_line (snd c) (get_or_insert w)), dw_new_line := dw_new_line w + 1\<rparr>)"

definition walk_changes :: "id_stream \<Rightarrow> nat \<Rightarrow> path \<Rightarrow> hunk_source \<Rightarrow> line_change list \<Rightarrow> hunk list" where
  "walk_changes ids n path src cs =
     dw_hunks (finalize ids n path src
       (fold (walk_change ids n path src) cs
         \<lparr>dw_old_line = 1, dw_new_line = 1, dw_current = None, dw_hunks = []\<rparr>))"

definition compute_hunks ::
  "line_diff \<Rightarrow> id_stream \<Rightarrow> nat \<Rightarrow> path \<Rightarrow> string \<Rightarrow> string \<Rightarrow> hunk_source \<Rightarrow> hunk list" where
  "compute_hunks diff ids n path baseline current src =
     (if baseline = current then []
      else if length baseline > MAX_DIFF_FILE_SIZE \<or> length current > MAX_DIFF_FILE_SIZE then []
      else case diff baseline current of
             None \<Rightarrow> []
           | Some cs \<Rightarrow> walk_changes ids n path src cs)"

section \<open>Patches\<close>

text \<open>Unsigned subtraction of \<open>usize\<close> in the release profile.\<close>

definition usize_sub :: "nat \<Rightarrow> nat \<Rightarrow> nat" where
  "usize_sub a b = (if b \<le> a then a - b else a + 2 ^ 64 - b)"

definition writeln :: "string \<Rightarrow> string" where
  "writeln l = l @ [nl]"

text \<open>The rendering of a whole diff is \<open>similar\<close>'s \<open>unified_diff\<close>, a parameter.\<close>

definition generate_unified_patch ::
  "line_diff \<Rightarrow> (line_change list \<Rightarrow> nat \<Rightarrow> string \<Rightarrow> string \<Rightarrow> string) \<Rightarrow> path \<Rightarrow> string \<Rightarrow> string \<Rightarrow> string option" where
  "generate_unified_patch diff unified_diff path baseline current =
     (if baseline = current then None
      else if length baseline > MAX_DIFF_FILE_SIZE \<or> length current > MAX_DIFF_FILE_SIZE then None
      else case diff baseline current of
             None \<Rightarrow> None
           | Some cs \<Rightarrow>
               let unified = unified_diff cs CONTEXT_LINES (''a/'' @ path_display path) (''b/'' @ path_display path)
               in if unified = [] then None else Some unified)"

definition index_range :: "nat \<Rightarrow> nat \<Rightarrow> 'a list \<Rightarrow> 'a list" where
  "index_range i j xs = take (j - i) (drop i xs)"

definition generate_hunk_patch :: "string \<Rightarrow> string \<Rightarrow> hunk \<Rightarrow> string" where
  "generate_hunk_patch baseline current h =
     (let old_lines = lines baseline;
          new_lines = lines current;
          old_start_idx = old_start (line_info h) - 1;
          new_start_idx = new_start (line_info h) - 1;
          context_before_start = old_start_idx - CONTEXT_LINES;
          context_before_end = old_start_idx;
          changes_end_new = new_start_idx + new_count (line_info h);
          context_after_end = min (changes_end_new + CONTEXT_LINES) (length new_lines);
          changes_end_old = old_start_idx + old_count (line_info h);
          context_after_end_old = min (changes_end_old + CONTEXT_LINES) (length old_lines);
          total_old_lines = (context_before_end - context_before_start) + old_count (line_info h)
                            + usize_sub context_after_end_old changes_end_old;
          total_new_lines = (context_before_end - context_before_start) + new_count (line_info h)
                            + usize_sub context_after_end changes_end_new;
          header_old_start = context_before_start + 1;
          header_new_start = context_before_start + 1
      in writeln (''@@ -'' @ decimal header_old_start @ '','' @ decimal (total_old_lines mod 2 ^ 64) @ '' +'' @
                  decimal header_new_start @ '','' @ decimal (total_new_lines mod 2 ^ 64) @ '' @@'') @
         concat (map (\<lambda>l. writeln ('' '' @ l)) (index_range context_before_start context_before_end old_lines)) @
         (case old_text h of None \<Rightarrow> [] | Some t \<Rightarrow> concat (map (\<lambda>l. writeln (''-'' @ l)) (lines t))) @
         concat (map (\<lambda>l. writeln (''+'' @ l)) (lines (new_text h))) @
         concat (map (\<lambda>l. writeln ('' '' @ l)) (index_range changes_end_new context_after_end new_lines)))"

definition format_unified_diff :: "hunk \<Rightarrow> string" where
  "format_unified_diff h =
     writeln (''--- a/'' @ path_display (h_path h)) @
     writeln (''+++ b/'' @ path_display (h_path h)) @
     writeln (line_info_display (line_info h)) @
     (case old_text h of None \<Rightarrow> [] | Some t \<Rightarrow> concat (map (\<lambda>l. writeln (''-'' @ l)) (lines t))) @
     concat (map (\<lambda>l. writeln (''+'' @ l)) (lines (new_text h)))"

definition patch_lines :: "string \<Rightarrow> nat \<Rightarrow> nat \<Rightarrow> string \<Rightarrow> string" where
  "patch_lines content start_line remove_count insert_text =
     (let ls = lines content;
          start_idx = start_line - 1;
          inserted = (if insert_text = [] then [] else lines insert_text);
          end_idx = min (start_idx + remove_count) (length ls);
          result = take (min start_idx (length ls)) ls @ inserted @ drop end_idx ls;
          output = join_lines result
      in if ends_with nl content \<and> output \<noteq> [] then output @ [nl] else output)"

section \<open>Matching hunks across recomputations\<close>

definition hunks_match_content :: "hunk \<Rightarrow> hunk \<Rightarrow> bool" where
  "hunks_match_content a b \<longleftrightarrow> h_path a = h_path b \<and> old_text a = old_text b \<and> new_text a = new_text b"

definition hunk_moved :: "hunk \<Rightarrow> hunk \<Rightarrow> bool" where
  "hunk_moved old new \<longleftrightarrow> hunks_match_content old new \<and> line_info old \<noteq> line_info new"

definition hunks_overlap :: "hunk \<Rightarrow> hunk \<Rightarrow> bool" where
  "hunks_overlap a b \<longleftrightarrow>
     (if h_path a \<noteq> h_path b then False
      else
        let a_start = old_start (line_info a);
            a_end = old_start (line_info a) + old_count (line_info a);
            b_start = old_start (line_info b);
            b_end = old_start (line_info b) + old_count (line_info b)
        in if old_count (line_info a) = 0 \<and> old_count (line_info b) = 0 then a_start = b_start
           else if old_count (line_info a) = 0 then b_start \<le> a_start \<and> a_start \<le> b_end
           else if old_count (line_info b) = 0 then a_start \<le> b_start \<and> b_start \<le> a_end
           else \<not> (a_end < b_start \<or> b_end < a_start))"

definition calculate_overlap_size :: "hunk_line_info \<Rightarrow> hunk_line_info \<Rightarrow> nat" where
  "calculate_overlap_size a b =
     min (old_start a + old_count a) (old_start b + old_count b) - max (old_start a) (old_start b)"

text \<open>\<open>min_by_key\<close> keeps the first of equal keys, \<open>max_by_key\<close> the last.\<close>

fun min_by_key :: "('a \<Rightarrow> nat) \<Rightarrow> 'a list \<Rightarrow> 'a option" where
  "min_by_key f [] = None"
| "min_by_key f (x # xs) =
     (case min_by_key f xs of None \<Rightarrow> Some x | Some y \<Rightarrow> if f y < f x then Some y else Some x)"

fun max_by_key :: "('a \<Rightarrow> nat) \<Rightarrow> 'a list \<Rightarrow> 'a option" where
  "max_by_key f [] = None"
| "max_by_key f (x # xs) =
     (case max_by_key f xs of None \<Rightarrow> Some x | Some y \<Rightarrow> if f y < f x then Some x else Some y)"

definition abs_diff :: "nat \<Rightarrow> nat \<Rightarrow> nat" where
  "abs_diff a b = (if a < b then b - a else a - b)"

definition find_matching_old_hunk :: "hunk \<Rightarrow> hunk list \<Rightarrow> hunk option" where
  "find_matching_old_hunk new_hunk old_hunks =
     (let content_matches = filter (\<lambda>h. hunks_match_content h new_hunk) old_hunks
      in if content_matches \<noteq> []
         then min_by_key (\<lambda>h. abs_diff (new_start (line_info h)) (new_start (line_info new_hunk))) content_matches
         else max_by_key (\<lambda>h. calculate_overlap_size (line_info h) (line_info new_hunk))
                (filter (\<lambda>h. hunks_overlap h new_hunk) old_hunks))"

definition find_overlapping_hunks :: "hunk \<Rightarrow> hunk list \<Rightarrow> hunk list" where
  "find_overlapping_hunks new_hunk old_hunks = filter (\<lambda>h. hunks_overlap h new_hunk) old_hunks"

lemma min_by_key_mem: "min_by_key f xs = Some x \<Longrightarrow> x \<in> set xs"
  by (induction xs arbitrary: x) (auto split: option.splits if_splits)

lemma max_by_key_mem: "max_by_key f xs = Some x \<Longrightarrow> x \<in> set xs"
  by (induction xs arbitrary: x) (auto split: option.splits if_splits)

lemma find_matching_mem: "find_matching_old_hunk h hs = Some g \<Longrightarrow> g \<in> set hs"
  by (auto simp: find_matching_old_hunk_def Let_def dest!: min_by_key_mem max_by_key_mem split: if_splits)

end
