(* ===== verification/Hunk_Regions.thy ===== *)
theory Hunk_Regions
  imports Hunk_Diff "HOL-Library.Sublist"
begin

text \<open>
  What hunks mean. A line alignment of two texts is a sequence of regions, each a common line or a changed
  region with an old and a new side. The walk over the changes of a diff yields exactly the changed
  regions with their positions, and patching any selection of them into the old text, or out of the new
  one, from the end to the start, takes the selected sides and leaves everything else alone.
\<close>

section \<open>Regions\<close>

datatype region = Same string | Changed "string list" "string list"

fun prepend :: "string list \<Rightarrow> string list \<Rightarrow> region list \<Rightarrow> region list" where
  "prepend os ns (Changed os' ns' # rs) = Changed (os @ os') (ns @ ns') # rs"
| "prepend os ns rs = Changed os ns # rs"

fun regions :: "line_change list \<Rightarrow> region list" where
  "regions [] = []"
| "regions ((ChangeEqual, v) # cs) = Same v # regions cs"
| "regions ((ChangeDelete, v) # cs) = prepend [v] [] (regions cs)"
| "regions ((ChangeInsert, v) # cs) = prepend [] [v] (regions cs)"

fun old_side :: "region list \<Rightarrow> string list" where
  "old_side [] = []"
| "old_side (Same v # rs) = v # old_side rs"
| "old_side (Changed os ns # rs) = os @ old_side rs"

fun new_side :: "region list \<Rightarrow> string list" where
  "new_side [] = []"
| "new_side (Same v # rs) = v # new_side rs"
| "new_side (Changed os ns # rs) = ns @ new_side rs"

fun common :: "region list \<Rightarrow> string list" where
  "common [] = []"
| "common (Same v # rs) = v # common rs"
| "common (Changed os ns # rs) = common rs"

text \<open>The text in which the new side is taken for the changed regions marked true and the old side for the others.\<close>

fun take_sides :: "bool list \<Rightarrow> region list \<Rightarrow> string list" where
  "take_sides sel [] = []"
| "take_sides sel (Same v # rs) = v # take_sides sel rs"
| "take_sides [] (Changed os ns # rs) = os @ take_sides [] rs"
| "take_sides (b # sel) (Changed os ns # rs) = (if b then ns else os) @ take_sides sel rs"

fun separated :: "region list \<Rightarrow> bool" where
  "separated [] = True"
| "separated (Same v # rs) = separated rs"
| "separated (Changed os ns # rs) = ((case rs of Changed _ _ # _ \<Rightarrow> False | _ \<Rightarrow> True) \<and> separated rs)"

fun swap_region :: "region \<Rightarrow> region" where
  "swap_region (Same v) = Same v"
| "swap_region (Changed os ns) = Changed ns os"

definition old_lines_of :: "line_change list \<Rightarrow> string list" where
  "old_lines_of cs = map snd (filter (\<lambda>c. fst c \<noteq> ChangeInsert) cs)"

definition new_lines_of :: "line_change list \<Rightarrow> string list" where
  "new_lines_of cs = map snd (filter (\<lambda>c. fst c \<noteq> ChangeDelete) cs)"

lemma prepend_prepend: "prepend os ns (prepend os' ns' rs) = prepend (os @ os') (ns @ ns') rs"
  by (induction os' ns' rs rule: prepend.induct) simp_all

lemma side_prepend [simp]:
  "old_side (prepend os ns rs) = os @ old_side rs" "new_side (prepend os ns rs) = ns @ new_side rs"
  by (induction os ns rs rule: prepend.induct) simp_all

lemma separated_prepend: "separated rs \<Longrightarrow> separated (prepend os ns rs)"
  by (induction os ns rs rule: prepend.induct) (auto split: list.splits region.splits)

lemma separated_regions: "separated (regions cs)"
  by (induction cs rule: regions.induct) (auto simp: separated_prepend)

lemma side_regions: "old_side (regions cs) = old_lines_of cs" "new_side (regions cs) = new_lines_of cs"
  by (induction cs rule: regions.induct) (simp_all add: old_lines_of_def new_lines_of_def)

lemma side_swap [simp]:
  "old_side (map swap_region rs) = new_side rs" "new_side (map swap_region rs) = old_side rs"
  "common (map swap_region rs) = common rs"
  by (induction rs rule: common.induct) simp_all

lemma take_sides_swap:
  "length sel = length (filter (\<lambda>r. \<exists>os ns. r = Changed os ns) rs) \<Longrightarrow>
   take_sides sel (map swap_region rs) = take_sides (map Not sel) rs"
  by (induction sel rs rule: take_sides.induct) (auto split: if_splits)

lemma take_sides_all:
  "take_sides (replicate n True) rs = new_side rs"
  if "n = length (filter (\<lambda>r. \<exists>os ns. r = Changed os ns) rs)"
  using that by (induction rs arbitrary: n rule: common.induct) auto

lemma take_sides_none: "take_sides (replicate n False) rs = old_side rs"
proof (induction rs arbitrary: n rule: common.induct)
  case (3 os ns rs)
  show ?case using 3 [of 0] 3 [of "n - 1"] by (cases n) simp_all
qed simp_all

lemma common_subseq: "subseq (common rs) (take_sides sel rs)"
  by (induction sel rs rule: take_sides.induct) (auto intro: list_emb_append2)

lemma separated_no_common: "separated rs \<Longrightarrow> common rs = [] \<Longrightarrow> rs = [] \<or> (\<exists>os ns. rs = [Changed os ns])"
  by (induction rs rule: separated.induct) (auto split: list.splits region.splits)

section \<open>The walk yields the changed regions\<close>

type_synonym hunk_shape = "hunk_line_info \<times> string option \<times> string"

definition shape_of :: "hunk \<Rightarrow> hunk_shape" where
  "shape_of h = (line_info h, old_text h, new_text h)"

definition region_shape :: "nat \<Rightarrow> nat \<Rightarrow> string list \<Rightarrow> string list \<Rightarrow> hunk_shape" where
  "region_shape i j os ns =
     (\<lparr>old_start = i, old_count = length os, new_start = j, new_count = length ns\<rparr>,
      if os = [] then None else Some (concat os), concat ns)"

fun region_shapes :: "nat \<Rightarrow> nat \<Rightarrow> region list \<Rightarrow> hunk_shape list" where
  "region_shapes i j [] = []"
| "region_shapes i j (Same v # rs) = region_shapes (Suc i) (Suc j) rs"
| "region_shapes i j (Changed os ns # rs) =
     region_shape i j os ns # region_shapes (i + length os) (j + length ns) rs"

definition pending :: "hunk_builder option \<Rightarrow> region list \<Rightarrow> region list" where
  "pending b rs = (case b of None \<Rightarrow> rs | Some b \<Rightarrow> prepend (hb_old_lines b) (hb_new_lines b) rs)"

definition walk_at :: "nat \<Rightarrow> nat \<Rightarrow> diff_walk \<Rightarrow> bool" where
  "walk_at i j w \<longleftrightarrow>
     (case dw_current w of
        None \<Rightarrow> i = dw_old_line w \<and> j = dw_new_line w
      | Some b \<Rightarrow> hb_old_start b = i \<and> hb_new_start b = j \<and>
                 dw_old_line w = i + length (hb_old_lines b) \<and> dw_new_line w = j + length (hb_new_lines b))"

lemma shape_of_build [simp]:
  "shape_of (hb_build d path src b) =
   region_shape (hb_old_start b) (hb_new_start b) (hb_old_lines b) (hb_new_lines b)"
  by (simp add: shape_of_def hb_build_def region_shape_def)

lemma finalize_shapes:
  "walk_at i j w \<Longrightarrow>
   map shape_of (dw_hunks (finalize ids n path src w)) =
   map shape_of (dw_hunks w) @ region_shapes i j (pending (dw_current w) [])"
  by (auto simp: finalize_def walk_at_def pending_def split: option.splits)

lemma region_shapes_Same:
  "walk_at i j w \<Longrightarrow>
   region_shapes i j (pending (dw_current w) (Same v # rs)) =
   region_shapes i j (pending (dw_current w) []) @ region_shapes (Suc (dw_old_line w)) (Suc (dw_new_line w)) rs"
  by (auto simp: walk_at_def pending_def split: option.splits)

lemma walk_shapes:
  "walk_at i j w \<Longrightarrow>
   map shape_of (dw_hunks (finalize ids n path src (fold (walk_change ids n path src) cs w))) =
   map shape_of (dw_hunks w) @ region_shapes i j (pending (dw_current w) (regions cs))"
proof (induction cs arbitrary: w i j rule: regions.induct)
  case 1
  then show ?case by (simp add: finalize_shapes)
next
  case (2 v cs)
  let ?w = "walk_change ids n path src (ChangeEqual, v) w"
  have at: "walk_at (Suc (dw_old_line w)) (Suc (dw_new_line w)) ?w"
    by (simp add: walk_at_def walk_change_def finalize_def Let_def split: option.splits)
  have w: "dw_current ?w = None" "dw_hunks ?w = dw_hunks (finalize ids n path src w)"
    by (simp_all add: walk_change_def finalize_def Let_def split: option.splits)
  show ?case
    using "2.IH" [OF at] "2.prems" w
    by (simp add: finalize_shapes region_shapes_Same) (simp add: pending_def)
next
  case (3 v cs)
  let ?w = "walk_change ids n path src (ChangeDelete, v) w"
  have at: "walk_at i j ?w" using "3.prems"
    by (auto simp: walk_at_def walk_change_def get_or_insert_def add_old_line_def hb_new_def split: option.splits)
  have "dw_hunks ?w = dw_hunks w"
    "pending (dw_current ?w) (regions cs) = pending (dw_current w) (prepend [v] [] (regions cs))"
    by (auto simp: walk_change_def pending_def get_or_insert_def add_old_line_def hb_new_def prepend_prepend
        split: option.splits)
  with "3.IH" [OF at] show ?case by simp
next
  case (4 v cs)
  let ?w = "walk_change ids n path src (ChangeInsert, v) w"
  have at: "walk_at i j ?w" using "4.prems"
    by (auto simp: walk_at_def walk_change_def get_or_insert_def add_new_line_def hb_new_def split: option.splits)
  have "dw_hunks ?w = dw_hunks w"
    "pending (dw_current ?w) (regions cs) = pending (dw_current w) (prepend [] [v] (regions cs))"
    by (auto simp: walk_change_def pending_def get_or_insert_def add_new_line_def hb_new_def prepend_prepend
        split: option.splits)
  with "4.IH" [OF at] show ?case by simp
qed

lemma walk_changes_shapes: "map shape_of (walk_changes ids n path src cs) = region_shapes 1 1 (regions cs)"
  by (simp add: walk_changes_def walk_shapes [where i = 1 and j = 1] walk_at_def pending_def)

lemma length_region_shapes:
  "length (region_shapes i j rs) = length (filter (\<lambda>r. \<exists>os ns. r = Changed os ns) rs)"
  by (induction i j rs rule: region_shapes.induct) simp_all


text \<open>The hunks of one call carry consecutive draws, the path and the source they were computed with.\<close>

definition drawn_from :: "id_stream \<Rightarrow> nat \<Rightarrow> path \<Rightarrow> hunk_source \<Rightarrow> hunk list \<Rightarrow> bool" where
  "drawn_from ids n path src hs \<longleftrightarrow>
     map h_id hs = map (fst \<circ> ids) [n..<n + length hs] \<and>
     list_all (\<lambda>h. h_path h = path \<and> source h = src) hs"

lemma drawn_from_Nil [simp]: "drawn_from ids n path src []"
  by (simp add: drawn_from_def)

lemma finalize_drawn:
  "drawn_from ids n path src (dw_hunks w) \<Longrightarrow> drawn_from ids n path src (dw_hunks (finalize ids n path src w))"
  by (auto simp: drawn_from_def finalize_def hb_build_def split: option.splits)

lemma walk_drawn:
  "drawn_from ids n path src (dw_hunks w) \<Longrightarrow>
   drawn_from ids n path src (dw_hunks (fold (walk_change ids n path src) cs w))"
proof (induction cs arbitrary: w)
  case (Cons c cs)
  have "drawn_from ids n path src (dw_hunks (walk_change ids n path src c w))"
    using Cons.prems finalize_drawn [of ids n path src w]
    by (auto simp: walk_change_def Let_def split: change_tag.splits)
  with Cons.IH show ?case by simp
qed simp

lemma walk_changes_drawn: "drawn_from ids n path src (walk_changes ids n path src cs)"
  by (simp add: walk_changes_def finalize_drawn walk_drawn)

lemma compute_hunks_drawn: "drawn_from ids n path src (compute_hunks diff ids n path b c src)"
  by (simp add: compute_hunks_def walk_changes_drawn split: option.splits)

lemma drawn_from_single:
  "drawn_from ids n path src [file_created (ids n) path s src]"
  "drawn_from ids n path src [file_deleted (ids n) path s src]"
  by (simp_all add: drawn_from_def file_created_def file_deleted_def)

section \<open>Patching regions\<close>

text \<open>Lines that patching keeps as they are: ended by a newline, without carriage returns.\<close>

definition good_piece :: "string \<Rightarrow> bool" where
  "good_piece p \<longleftrightarrow> piece p \<and> cr \<notin> set p"

lemma good_pieces_obtain:
  assumes "list_all good_piece ps"
  obtains ls where "ps = map (\<lambda>l. l @ [nl]) ls" and "list_all plain_line ls"
proof
  have "p = butlast p @ [nl]" if "p \<in> set ps" for p
    using that assms by (metis append_butlast_last_id ends_with_def good_piece_def list_all_iff piece_def)
  then show "ps = map (\<lambda>l. l @ [nl]) (map butlast ps)" by (simp add: map_idI comp_def)
  show "list_all plain_line (map butlast ps)"
    using assms by (auto simp: list_all_iff good_piece_def piece_def plain_line_def dest: in_set_butlastD)
qed

lemma unix_text_pieces: "unix_text s \<Longrightarrow> list_all good_piece (split_inclusive s)"
  using split_inclusive_pieces [of s] split_inclusive_subset [of _ s]
  by (auto simp: unix_text_def good_piece_def list_all_iff)

lemma patch_unlines:
  assumes "list_all plain_line ls" and "list_all plain_line ins" and "ls \<noteq> []"
    and "take i ls @ ins @ drop (i + r) ls \<noteq> [[]]"
  shows "patch_lines (unlines ls) (Suc i) r (unlines ins) = unlines (take i ls @ ins @ drop (i + r) ls)"
proof -
  let ?res = "take i ls @ ins @ drop (i + r) ls"
  have l: "lines (unlines ls) = ls" "lines (unlines ins) = ins"
    using assms(1,2) by (simp_all add: lines_unlines)
  have e: "ends_with nl (unlines ls)" using assms(1,3) unix_text_unlines [of ls]
    by (cases ls) (auto simp: unix_text_def)
  have "(if unlines ins = [] then [] else lines (unlines ins)) = ins"
    using l(2) by (cases ins) auto
  moreover have "drop (min (i + r) (length ls)) ls = drop (i + r) ls" "take (min i (length ls)) ls = take i ls"
    by (simp_all add: min_def)
  ultimately have "patch_lines (unlines ls) (Suc i) r (unlines ins) =
      (if join_lines ?res \<noteq> [] then join_lines ?res @ [nl] else join_lines ?res)"
    using l(1) e by (simp add: patch_lines_def Let_def)
  also have "\<dots> = unlines ?res"
  proof (cases "?res = []")
    case True
    show ?thesis unfolding True by simp
  next
    case False
    then have "join_lines ?res \<noteq> []" using assms(4) by (simp add: join_lines_Nil)
    with False show ?thesis by (metis join_lines_unlines)
  qed
  finally show ?thesis .
qed

lemma concat_snoc_nl: "concat (map (\<lambda>l. l @ [nl]) ls) = unlines ls"
  by (simp add: unlines_def)

lemma patch_pieces:
  assumes "list_all good_piece pre" "list_all good_piece old" "list_all good_piece post" "list_all good_piece ins"
    and "pre @ old @ post \<noteq> []" and "pre @ ins @ post \<noteq> [[nl]]"
  shows "patch_lines (concat (pre @ old @ post)) (Suc (length pre)) (length old) (concat ins) =
         concat (pre @ ins @ post)"
proof -
  obtain lp lo lq li where p: "pre = map (\<lambda>l. l @ [nl]) lp" "old = map (\<lambda>l. l @ [nl]) lo"
      "post = map (\<lambda>l. l @ [nl]) lq" "ins = map (\<lambda>l. l @ [nl]) li"
    and pl: "list_all plain_line lp" "list_all plain_line lo" "list_all plain_line lq" "list_all plain_line li"
    using assms(1-4) by (metis good_pieces_obtain)
  let ?ls = "lp @ lo @ lq"
  have "map (\<lambda>l. l @ [nl]) (lp @ li @ lq) \<noteq> map (\<lambda>l. l @ [nl]) [[]]"
    using assms(6) p by simp
  then have "lp @ li @ lq \<noteq> [[]]" by metis
  moreover have "?ls \<noteq> []" using assms(5) p by auto
  ultimately have "patch_lines (unlines ?ls) (Suc (length lp)) (length lo) (unlines li) = unlines (lp @ li @ lq)"
    using patch_unlines [of ?ls li "length lp" "length lo"] pl by simp
  then show ?thesis using p by (simp add: unlines_def)
qed

text \<open>The edits that bring the new sides into the old text, and their application from the end to the start.\<close>

type_synonym line_edit = "nat \<times> nat \<times> string"

fun region_edits :: "nat \<Rightarrow> region list \<Rightarrow> line_edit list" where
  "region_edits i [] = []"
| "region_edits i (Same v # rs) = region_edits (Suc i) rs"
| "region_edits i (Changed os ns # rs) = (i, length os, concat ns) # region_edits (i + length os) rs"

definition apply_edits :: "line_edit list \<Rightarrow> string \<Rightarrow> string" where
  "apply_edits es s = foldr (\<lambda>(a, r, t) s. patch_lines s a r t) es s"

fun keep :: "bool list \<Rightarrow> 'a list \<Rightarrow> 'a list" where
  "keep (b # sel) (x # xs) = (if b then x # keep sel xs else keep sel xs)"
| "keep _ _ = []"

lemma apply_edits_simps [simp]:
  "apply_edits [] s = s" "apply_edits ((a, r, t) # es) s = patch_lines (apply_edits es s) a r t"
  by (simp_all add: apply_edits_def)

lemma keep_map: "keep sel (map f xs) = map f (keep sel xs)"
  by (induction sel xs rule: keep.induct) auto

lemma keep_simps [simp]: "keep [] xs = []" "keep sel [] = []"
  by (cases xs; simp) (cases sel; simp)

definition region_ok :: "region \<Rightarrow> bool" where
  "region_ok r = (case r of Same v \<Rightarrow> good_piece v | Changed os ns \<Rightarrow> list_all good_piece os \<and> list_all good_piece ns)"

lemma region_ok_simps [simp]:
  "region_ok (Same v) \<longleftrightarrow> good_piece v"
  "region_ok (Changed os ns) \<longleftrightarrow> list_all good_piece os \<and> list_all good_piece ns"
  by (simp_all add: region_ok_def)

lemma take_sides_good: "list_all region_ok rs \<Longrightarrow> list_all good_piece (take_sides sel rs)"
  by (induction sel rs rule: take_sides.induct) (auto simp: region_ok_def)

lemma region_ok_sides:
  "list_all region_ok rs \<longleftrightarrow> list_all good_piece (old_side rs) \<and> list_all good_piece (new_side rs)"
  by (induction rs rule: old_side.induct) (auto simp: region_ok_def)

lemma big_subseq: "subseq xs ys \<Longrightarrow> xs \<noteq> [] \<Longrightarrow> xs \<noteq> [x] \<Longrightarrow> ys \<noteq> [] \<and> ys \<noteq> [x]"
  by (cases xs; cases "tl xs") (auto dest: list_emb_length elim: list_emb.cases)

lemma subseq_append_right: "subseq xs ys \<Longrightarrow> subseq xs (ys @ zs)"
  using list_emb_append_mono [of _ xs ys "[]" zs] by simp

lemma apply_edits_regions:
  assumes "list_all region_ok rs" and "list_all good_piece pre" and "subseq s0 pre"
    and "s0 @ common rs \<noteq> []" and "s0 @ common rs \<noteq> [[nl]]"
  shows "apply_edits (keep sel (region_edits (Suc (length pre)) rs)) (concat (pre @ old_side rs)) =
         concat (pre @ take_sides sel rs)"
  using assms
proof (induction sel rs arbitrary: pre s0 rule: take_sides.induct)
  case (1 sel)
  then show ?case by simp
next
  case (2 sel v rs)
  then show ?case
    using "2.IH" [of "pre @ [v]" "s0 @ [v]"] by (simp add: list_emb_append_mono)
next
  case (3 os ns rs)
  then show ?case using "3.IH" [of "pre @ os" s0] by (simp add: subseq_append_right)
next
  case (4 b sel os ns rs)
  have ok: "list_all good_piece os" "list_all good_piece ns" "list_all region_ok rs"
    using "4.prems" by simp_all
  have sub: "subseq s0 (pre @ zs)" for zs
    using "4.prems"(3) by (rule subseq_append_right)
  have ih: "apply_edits (keep sel (region_edits (Suc (length (pre @ os))) rs)) (concat ((pre @ os) @ old_side rs)) =
      concat ((pre @ os) @ take_sides sel rs)"
    using "4.IH" [of "pre @ os" s0] "4.prems" ok sub by simp
  have big: "(pre @ zs) @ take_sides sel rs \<noteq> [] \<and> (pre @ zs) @ take_sides sel rs \<noteq> [[nl]]" for zs
    using big_subseq [OF list_emb_append_mono [OF sub common_subseq]] "4.prems"(4,5) by fastforce
  show ?case
  proof (cases b)
    case True
    have "patch_lines (concat (pre @ os @ take_sides sel rs)) (Suc (length pre)) (length os) (concat ns) =
        concat (pre @ ns @ take_sides sel rs)"
      using ok "4.prems"(2) big [of os] big [of ns] by (intro patch_pieces take_sides_good) simp_all
    with True ih show ?thesis by simp
  next
    case False
    with ih show ?thesis by simp
  qed
qed

text \<open>With a single changed region and no common line there is one edit.\<close>

lemma apply_edits_selected:
  assumes "separated rs" and "list_all region_ok rs" and "old_side rs \<noteq> []"
    and "common rs \<noteq> [[nl]]" and "take_sides sel rs \<noteq> [[nl]]"
  shows "apply_edits (keep sel (region_edits 1 rs)) (concat (old_side rs)) = concat (take_sides sel rs)"
proof (cases "common rs = []")
  case False
  with assms show ?thesis using apply_edits_regions [of rs "[]" "[]" sel] by simp
next
  case True
  with assms(1,3) obtain os ns where rs: "rs = [Changed os ns]"
    using separated_no_common [of rs] by auto
  show ?thesis
  proof (cases sel)
    case Nil
    then show ?thesis using rs by simp
  next
    case (Cons b bs)
    have "patch_lines (concat os) 1 (length os) (concat ns) = concat ns" if b
      using patch_pieces [of "[]" os "[]" ns] assms that rs Cons by simp
    with rs Cons show ?thesis by simp
  qed
qed

end
