(* ===== verification/Hunk_State.thy ===== *)
theory Hunk_State
  imports Hunk_Regions "HOL-Library.AList"
begin

text \<open>
  The state of the hunk tracker (\<open>actor/state.rs\<close>, the snapshot and view types of \<open>types.rs\<close>,
  \<open>events.rs\<close>), the classification of file contents (\<open>actor/file_utils.rs\<close>) and the reads of the git
  HEAD (\<open>actor/git.rs\<close>). A \<open>HashMap\<close> is a list of its entries with distinct keys; wherever the code
  iterates over one, the order is the world's \<open>w_order\<close>. A \<open>world\<close> is what a command sees of the outside:
  the file system, the git repository (\<open>gix\<close>), the line diff and which of its writes succeed.
\<close>

section \<open>Contents\<close>

datatype file_content_state =
    Missing
  | Binary "nat option"
  | TooLarge nat
  | LfsPointer nat
  | Symlink
  | Full string

definition MAX_TRACKED_TEXT_BYTES :: nat where
  "MAX_TRACKED_TEXT_BYTES = 1024 * 1024"

definition content_as_str :: "file_content_state \<Rightarrow> string option" where
  "content_as_str c = (case c of Full s \<Rightarrow> Some s | _ \<Rightarrow> None)"

definition is_diffable :: "file_content_state \<Rightarrow> bool" where
  "is_diffable c = (case c of Full _ \<Rightarrow> True | _ \<Rightarrow> False)"

fun content_byte_len :: "file_content_state \<Rightarrow> nat option" where
  "content_byte_len Missing = Some 0"
| "content_byte_len (Binary l) = l"
| "content_byte_len (TooLarge l) = Some l"
| "content_byte_len (LfsPointer l) = Some l"
| "content_byte_len Symlink = None"
| "content_byte_len (Full s) = Some (length s)"

definition LFS_POINTER_PREFIX :: string where
  "LFS_POINTER_PREFIX = ''version https://git-lfs.github.com/spec/v1'' @ [nl]"

definition is_lfs_pointer :: "string \<Rightarrow> bool" where
  "is_lfs_pointer s \<longleftrightarrow> length s < 1024 \<and> prefix LFS_POINTER_PREFIX s"

definition is_binary :: "string \<Rightarrow> bool" where
  "is_binary s \<longleftrightarrow> char_of (0::nat) \<in> set (take (min (length s) 8000) s)"

text \<open>
  \<open>String::from_utf8\<close> accepts the well-formed byte sequences of the Unicode standard: after a lead byte
  \<open>k\<close> continuation bytes are due, the next one between \<open>lo\<close> and \<open>hi\<close>.
\<close>

fun utf8_due :: "nat \<Rightarrow> nat \<Rightarrow> nat \<Rightarrow> string \<Rightarrow> bool" where
  "utf8_due k lo hi [] = (k = 0)"
| "utf8_due k lo hi (c # s) =
     (let b = of_char c :: nat
      in if k = 0 then
           (if b < 128 then utf8_due 0 0 0 s
            else if 194 \<le> b \<and> b \<le> 223 then utf8_due 1 128 191 s
            else if b = 224 then utf8_due 2 160 191 s
            else if 225 \<le> b \<and> b \<le> 236 \<or> b = 238 \<or> b = 239 then utf8_due 2 128 191 s
            else if b = 237 then utf8_due 2 128 159 s
            else if b = 240 then utf8_due 3 144 191 s
            else if 241 \<le> b \<and> b \<le> 243 then utf8_due 3 128 191 s
            else if b = 244 then utf8_due 3 128 143 s
            else False)
         else lo \<le> b \<and> b \<le> hi \<and> utf8_due (k - 1) 128 191 s)"

definition from_utf8_ok :: "string \<Rightarrow> bool" where
  "from_utf8_ok s = utf8_due 0 0 0 s"

definition classify_bytes :: "string \<Rightarrow> file_content_state" where
  "classify_bytes s =
     (if length s > MAX_TRACKED_TEXT_BYTES then TooLarge (length s)
      else if is_lfs_pointer s then LfsPointer (length s)
      else if is_binary s then Binary (Some (length s))
      else if from_utf8_ok s then Full s
      else Binary (Some (length s)))"

definition classify_string :: "string \<Rightarrow> file_content_state" where
  "classify_string s =
     (if length s > MAX_TRACKED_TEXT_BYTES then TooLarge (length s)
      else if is_lfs_pointer s then LfsPointer (length s)
      else if is_binary s then Binary (Some (length s))
      else Full s)"

text \<open>
  What the file system answers about a path: the lstat result, whether it can be opened, what the first
  read into a buffer of a given size returns, and what reading on to the end adds.
\<close>

record disk_file =
  df_is_symlink :: bool
  df_len :: nat
  df_open :: bool
  df_read :: "nat \<Rightarrow> string option"
  df_read_to_end :: "string option"

definition read_file_bounded :: "disk_file option \<Rightarrow> file_content_state" where
  "read_file_bounded metadata =
     (case metadata of
        None \<Rightarrow> Missing
      | Some f \<Rightarrow>
          if df_is_symlink f then Symlink
          else if df_len f > MAX_TRACKED_TEXT_BYTES then TooLarge (df_len f)
          else if \<not> df_open f then Missing
          else
            let prefix_size = min 8000 (df_len f)
            in case df_read f prefix_size of
                 None \<Rightarrow> Missing
               | Some prefix_buf \<Rightarrow>
                   if is_lfs_pointer prefix_buf then LfsPointer (df_len f)
                   else if is_binary prefix_buf then Binary (Some (df_len f))
                   else
                     case (if df_len f > prefix_size
                           then map_option (\<lambda>r. prefix_buf @ r) (df_read_to_end f)
                           else Some prefix_buf) of
                       None \<Rightarrow> Missing
                     | Some full_buf \<Rightarrow> if from_utf8_ok full_buf then Full full_buf else Binary (Some (df_len f)))"

section \<open>Tracker state\<close>

datatype hunk_action = Accept | Reject

datatype hunk_action_error =
    HunkNotFound hunk_id
  | WriteError path
  | DeleteError path
  | ReadError path

datatype tracking_mode = AgentOnly | AllDirty

datatype hunk_source_filter = FilterAgent | FilterExternal

datatype hunk_removal_reason = Accepted | Rejected | Superseded

datatype hunk_event =
    HunkAdded path hunk
  | HunkRemoved path hunk_id hunk_removal_reason
  | HunkMoved path hunk_id hunk_line_info
  | HunkContentChanged path hunk hunk_source nat nat
  | FileAdded path bool
  | FileRemoved path
  | BaselineUpdated path

record session_stats =
  accepted_hunks :: nat
  rejected_hunks :: nat
  accepted_lines_added :: nat
  accepted_lines_removed :: nat
  rejected_lines_added :: nat
  rejected_lines_removed :: nat

definition default_stats :: session_stats where
  "default_stats = \<lparr>accepted_hunks = 0, rejected_hunks = 0, accepted_lines_added = 0,
                    accepted_lines_removed = 0, rejected_lines_added = 0, rejected_lines_removed = 0\<rparr>"

record file_hunk_state =
  fs_baseline :: file_content_state
  fs_current :: file_content_state
  fs_hunks :: "hunk list"
  fs_is_agent_file :: bool
  fs_baseline_accepted :: bool

record repo_sync_state =
  rs_head_oid :: "string option"
  rs_index_mtime :: "nat option"

text \<open>A discovered repository is remembered with the working directory's path inside it.\<close>

datatype git_repo_state = RepoUnknown | NotARepo | RepoDiscovered path

datatype disk_op = WriteFile path string | RemoveFile path

text \<open>
  The actor. The last four fields record its effects and its source of identifiers: the events sent, the
  successful writes, the identifier stream with the number of draws taken from it.
\<close>

record tracker =
  working_dir :: path
  file_states :: "(path \<times> file_hunk_state) list"
  turn_index :: "(nat \<times> hunk_id list) list"
  git_dirty_cache :: "path list"
  git_staged_cache :: "path list"
  git_repo :: git_repo_state
  repo_sync :: repo_sync_state
  tk_mode :: tracking_mode
  tk_stats :: session_stats
  sent_events :: "hunk_event list"
  disk_ops :: "disk_op list"
  id_draws :: id_stream
  drawn :: nat

datatype head_entry = HeadLink | HeadBlob string | HeadOther

record world =
  w_diff :: line_diff
  w_order :: "path list \<Rightarrow> path list"
  w_file :: "path \<Rightarrow> disk_file option"
  w_exists :: "path \<Rightarrow> bool"
  w_is_dir :: "path \<Rightarrow> bool"
  w_write_ok :: "path \<Rightarrow> bool"
  w_remove_ok :: "path \<Rightarrow> bool"
  w_tasks_ok :: bool
  w_canonicalize :: "path \<Rightarrow> path option"
  w_discover :: "path \<Rightarrow> path option"
  w_index_len :: "nat option"
  w_status :: "path list \<Rightarrow> (path \<times> bool) option list option"
  w_head_oid :: "string option"
  w_index_mtime :: "nat option"
  w_head_tree :: "(path \<Rightarrow> head_entry option) option"

definition tracker_new :: "path \<Rightarrow> tracking_mode \<Rightarrow> id_stream \<Rightarrow> tracker" where
  "tracker_new dir mode ids =
     \<lparr>working_dir = dir, file_states = [], turn_index = [], git_dirty_cache = [], git_staged_cache = [],
      git_repo = RepoUnknown, repo_sync = \<lparr>rs_head_oid = None, rs_index_mtime = None\<rparr>, tk_mode = mode,
      tk_stats = default_stats, sent_events = [], disk_ops = [], id_draws = ids, drawn = 0\<rparr>"

definition send_event :: "hunk_event \<Rightarrow> tracker \<Rightarrow> tracker" where
  "send_event e st = st\<lparr>sent_events := sent_events st @ [e]\<rparr>"

definition file_state :: "tracker \<Rightarrow> path \<Rightarrow> file_hunk_state option" where
  "file_state st p = map_of (file_states st) p"

definition put_file :: "path \<Rightarrow> file_hunk_state \<Rightarrow> tracker \<Rightarrow> tracker" where
  "put_file p s st = st\<lparr>file_states := AList.update p s (file_states st)\<rparr>"

definition drop_file :: "path \<Rightarrow> tracker \<Rightarrow> tracker" where
  "drop_file p st = st\<lparr>file_states := AList.delete p (file_states st)\<rparr>"

section \<open>Paths\<close>

definition strip_prefix :: "path \<Rightarrow> path \<Rightarrow> path option" where
  "strip_prefix pre p = (if prefix pre p then Some (drop (length pre) p) else None)"

definition rel_path :: "tracker \<Rightarrow> path \<Rightarrow> path" where
  "rel_path st p = unwrap_or (strip_prefix (working_dir st) p) p"

lemma strip_prefix_Some: "strip_prefix pre p = Some r \<longleftrightarrow> p = pre @ r"
  by (auto simp: strip_prefix_def prefix_def)

section \<open>Git\<close>

text \<open>The result of a first discovery is cached: a prefix, or that there is no repository.\<close>

definition open_or_discover :: "world \<Rightarrow> git_repo_state \<Rightarrow> path \<Rightarrow> (path \<times> path option) option" where
  "open_or_discover w cached dir =
     (case cached of
        RepoDiscovered pre \<Rightarrow> Some (pre, None)
      | RepoUnknown \<Rightarrow>
          (case w_discover w dir of
             None \<Rightarrow> None
           | Some repo_root \<Rightarrow>
               map_option (\<lambda>pre. (pre, Some pre))
                 (strip_prefix (unwrap_or (w_canonicalize w repo_root) repo_root)
                   (unwrap_or (w_canonicalize w dir) dir)))
      | NotARepo \<Rightarrow> None)"

definition canonicalize_or_parent :: "world \<Rightarrow> path \<Rightarrow> path" where
  "canonicalize_or_parent w p =
     (case w_canonicalize w p of
        Some q \<Rightarrow> q
      | None \<Rightarrow> if p = [] then p
               else case w_canonicalize w (butlast p) of None \<Rightarrow> p | Some q \<Rightarrow> q @ [last p])"

definition cache_discovery :: "(path \<times> path option) option \<Rightarrow> git_repo_state \<Rightarrow> git_repo_state" where
  "cache_discovery opened cached =
     (case opened of
        None \<Rightarrow> (if cached = RepoUnknown then NotARepo else cached)
      | Some (_, None) \<Rightarrow> cached
      | Some (_, Some pre) \<Rightarrow> RepoDiscovered pre)"

definition head_content :: "world \<Rightarrow> path \<Rightarrow> path \<Rightarrow> path \<Rightarrow> file_content_state" where
  "head_content w dir pre p =
     (case strip_prefix (unwrap_or (w_canonicalize w dir) dir) (canonicalize_or_parent w p) of
        None \<Rightarrow> Missing
      | Some rel \<Rightarrow>
          (case w_head_tree w of
             None \<Rightarrow> Missing
           | Some tree \<Rightarrow>
               (case tree (pre @ rel) of
                  None \<Rightarrow> Missing
                | Some HeadLink \<Rightarrow> Symlink
                | Some HeadOther \<Rightarrow> Missing
                | Some (HeadBlob s) \<Rightarrow> classify_bytes s)))"

definition read_baseline :: "world \<Rightarrow> path \<Rightarrow> tracker \<Rightarrow> file_content_state \<times> tracker" where
  "read_baseline w p st =
     (if git_repo st = NotARepo then (Missing, st)
      else if \<not> w_tasks_ok w then (Missing, st)
      else
        let opened = open_or_discover w (git_repo st) (working_dir st)
        in (case opened of None \<Rightarrow> Missing | Some (pre, _) \<Rightarrow> head_content w (working_dir st) pre p,
            st\<lparr>git_repo := cache_discovery opened (git_repo st)\<rparr>))"

definition read_baselines_batch ::
  "world \<Rightarrow> path list \<Rightarrow> tracker \<Rightarrow> (path \<times> file_content_state) list \<times> tracker" where
  "read_baselines_batch w ps st =
     (if ps = [] \<or> git_repo st = NotARepo then ([], st)
      else if \<not> w_tasks_ok w then ([], st)
      else
        let opened = open_or_discover w (git_repo st) (working_dir st)
        in (case opened of
              None \<Rightarrow> map (\<lambda>p. (p, Missing)) ps
            | Some (pre, _) \<Rightarrow> map (\<lambda>p. (p, head_content w (working_dir st) pre p)) ps,
            st\<lparr>git_repo := cache_discovery opened (git_repo st)\<rparr>))"

definition read_repo_sync_state :: "world \<Rightarrow> tracker \<Rightarrow> repo_sync_state option \<times> tracker" where
  "read_repo_sync_state w st =
     (if git_repo st = NotARepo then (None, st)
      else if \<not> w_tasks_ok w then (None, st)
      else
        let opened = open_or_discover w (git_repo st) (working_dir st)
        in (case opened of
              None \<Rightarrow> None
            | Some _ \<Rightarrow> Some \<lparr>rs_head_oid = w_head_oid w, rs_index_mtime = w_index_mtime w\<rparr>,
            st\<lparr>git_repo := cache_discovery opened (git_repo st)\<rparr>))"

text \<open>
  The status scan: the dirty and the staged paths below the working directory. An empty or missing index
  and a failing scan give nothing; failing items are skipped.
\<close>

definition git_status_scan :: "world \<Rightarrow> path \<Rightarrow> path list option \<Rightarrow> path list \<times> path list" where
  "git_status_scan w pre scope =
     (if w_index_len w = None \<or> w_index_len w = Some 0 then ([], [])
      else
        case w_status w (case scope of None \<Rightarrow> [] | Some rels \<Rightarrow> map (\<lambda>r. pre @ r) rels) of
          None \<Rightarrow> ([], [])
        | Some items \<Rightarrow>
            let rels = List.map_filter (\<lambda>i. case i of
                         None \<Rightarrow> None
                       | Some (p, staged) \<Rightarrow> map_option (\<lambda>r. (r, staged)) (strip_prefix pre p)) items
            in (remdups (map fst rels), remdups (map fst (filter snd rels))))"

section \<open>Views and snapshots\<close>

datatype file_content_status = StMissing | StBinary | StTooLarge | StLfsPointer | StSymlink | StFull

record file_content_view =
  fv_status :: file_content_status
  fv_byte_len :: "nat option"
  fv_content :: "string option"

fun view_of_content :: "file_content_state \<Rightarrow> file_content_view" where
  "view_of_content Missing = \<lparr>fv_status = StMissing, fv_byte_len = None, fv_content = None\<rparr>"
| "view_of_content (Binary l) = \<lparr>fv_status = StBinary, fv_byte_len = l, fv_content = None\<rparr>"
| "view_of_content (TooLarge l) = \<lparr>fv_status = StTooLarge, fv_byte_len = Some l, fv_content = None\<rparr>"
| "view_of_content (LfsPointer l) = \<lparr>fv_status = StLfsPointer, fv_byte_len = Some l, fv_content = None\<rparr>"
| "view_of_content Symlink = \<lparr>fv_status = StSymlink, fv_byte_len = None, fv_content = None\<rparr>"
| "view_of_content (Full s) = \<lparr>fv_status = StFull, fv_byte_len = Some (length s), fv_content = Some s\<rparr>"

record file_hunk_data =
  fd_hunks :: "hunk list"
  fd_baseline :: file_content_view
  fd_current :: file_content_view
  fd_baseline_content :: "string option"
  fd_current_content :: "string option"

record file_content_entry =
  fe_path :: path
  fe_baseline :: file_content_view
  fe_current :: file_content_view
  fe_is_agent_file :: bool
  fe_staged :: bool

text \<open>A snapshot of a file has the fields of its state, so it is one.\<close>

record hunk_tracker_snapshot =
  sn_file_states :: "(path \<times> file_hunk_state) list"
  sn_turn_index :: "(nat \<times> hunk_id list) list"
  sn_stats :: session_stats

record hunk_turn_delta =
  td_prompt_index :: nat
  td_file_states :: "(path \<times> file_hunk_state) list"
  td_hunk_ids :: "hunk_id list"

definition rewrite_single_path :: "path \<Rightarrow> path \<Rightarrow> path \<Rightarrow> path \<Rightarrow> path option" where
  "rewrite_single_path p old_cwd canonical_old new_cwd =
     map_option (\<lambda>rel. new_cwd @ rel)
       (case strip_prefix canonical_old p of Some rel \<Rightarrow> Some rel | None \<Rightarrow> strip_prefix old_cwd p)"

text \<open>Collecting into a map keeps the last entry of equal keys.\<close>

definition collect_map :: "('k \<times> 'v) list \<Rightarrow> ('k \<times> 'v) list" where
  "collect_map kvs = fold (\<lambda>(k, v) m. AList.update k v m) kvs []"

definition rewrite_paths :: "path \<Rightarrow> path \<Rightarrow> path \<Rightarrow> hunk_tracker_snapshot \<Rightarrow> hunk_tracker_snapshot" where
  "rewrite_paths old_cwd canonical_old_cwd new_cwd sn =
     sn\<lparr>sn_file_states := collect_map (map (\<lambda>(p, s).
          let target = unwrap_or (rewrite_single_path p old_cwd canonical_old_cwd new_cwd) p
          in (target, s\<lparr>fs_hunks := map (\<lambda>h. h\<lparr>h_path := target\<rparr>) (fs_hunks s)\<rparr>)) (sn_file_states sn))\<rparr>"

end
