(* ===== verification/Hunk_Tracker.thy ===== *)
theory Hunk_Tracker
  imports Hunk_State
begin

text \<open>
  The hunk tracker actor (\<open>actor/hunks.rs\<close>, \<open>mutations.rs\<close>, \<open>actions.rs\<close>, \<open>queries.rs\<close>, \<open>mod.rs\<close>).
  Every operation takes the world it runs in and the actor's state; an operation that can fail returns
  its result with the state it leaves behind.
\<close>

section \<open>Recomputing hunks\<close>

text \<open>
  The turn index maps a prompt index to a set of hunk ids. Removing keeps an empty set in place.
\<close>

definition turn_set :: "(nat \<times> hunk_id list) list \<Rightarrow> nat \<Rightarrow> hunk_id list" where
  "turn_set ti p = unwrap_or (map_of ti p) []"

definition turn_remove :: "hunk_id \<Rightarrow> hunk_source \<Rightarrow> (nat \<times> hunk_id list) list \<Rightarrow> (nat \<times> hunk_id list) list" where
  "turn_remove i src ti =
     (case prompt_index src of
        None \<Rightarrow> ti
      | Some p \<Rightarrow> (case map_of ti p of None \<Rightarrow> ti | Some ids \<Rightarrow> AList.update p (removeAll i ids) ti))"

definition turn_insert :: "hunk \<Rightarrow> (nat \<times> hunk_id list) list \<Rightarrow> (nat \<times> hunk_id list) list" where
  "turn_insert h ti =
     (case prompt_index (source h) of
        None \<Rightarrow> ti
      | Some p \<Rightarrow> AList.update p (List.insert (h_id h) (turn_set ti p)) ti)"

definition remove_from_turn_index :: "hunk_id \<Rightarrow> hunk_source \<Rightarrow> tracker \<Rightarrow> tracker" where
  "remove_from_turn_index i src st = st\<lparr>turn_index := turn_remove i src (turn_index st)\<rparr>"

definition fresh_hunks ::
  "world \<Rightarrow> id_stream \<Rightarrow> nat \<Rightarrow> path \<Rightarrow> file_content_state \<Rightarrow> file_content_state \<Rightarrow> hunk_source \<Rightarrow> hunk list" where
  "fresh_hunks w ids n path baseline current src =
     (case (baseline, current) of
        (Full b, Full c) \<Rightarrow> compute_hunks (w_diff w) ids n path b c src
      | (Full b, Missing) \<Rightarrow> (if b = [] then [] else [file_deleted (ids n) path b src])
      | (Missing, Full c) \<Rightarrow> (if c = [] then [] else [file_created (ids n) path c src])
      | _ \<Rightarrow> [])"

definition inherit_old :: "hunk \<Rightarrow> hunk \<Rightarrow> hunk" where
  "inherit_old best_match new_hunk =
     new_hunk\<lparr>h_id := h_id best_match,
              source := (if is_external (source new_hunk) \<and> is_agent_edit (source best_match)
                         then source best_match else source new_hunk)\<rparr>"

fun claim_old :: "hunk list \<Rightarrow> hunk_id list \<Rightarrow> hunk list \<Rightarrow> hunk list" where
  "claim_old old_hunks claimed [] = []"
| "claim_old old_hunks claimed (h # hs) =
     (case find_matching_old_hunk h old_hunks of
        None \<Rightarrow> h # claim_old old_hunks claimed hs
      | Some best_match \<Rightarrow>
          if h_id best_match \<in> set claimed then h # claim_old old_hunks claimed hs
          else inherit_old best_match h # claim_old old_hunks (h_id best_match # claimed) hs)"

definition removal_events :: "path \<Rightarrow> hunk list \<Rightarrow> hunk list \<Rightarrow> hunk_event list" where
  "removal_events path old_hunks new_hunks =
     map (\<lambda>h. HunkRemoved path (h_id h) Superseded)
       (filter (\<lambda>h. \<not> list_ex (\<lambda>n. hunks_overlap h n \<or> hunks_match_content h n) new_hunks) old_hunks)"

definition change_event :: "path \<Rightarrow> hunk list \<Rightarrow> hunk_source \<Rightarrow> hunk \<Rightarrow> hunk_event list" where
  "change_event path old_hunks trigger new_hunk =
     (case find (\<lambda>h. hunks_match_content h new_hunk) old_hunks of
        Some old \<Rightarrow> if hunk_moved old new_hunk then [HunkMoved path (h_id old) (line_info new_hunk)] else []
      | None \<Rightarrow>
          if \<not> list_ex (\<lambda>h. hunks_overlap h new_hunk) old_hunks then [HunkAdded path new_hunk]
          else
            let prev = (case find (\<lambda>h. h_id h = h_id new_hunk) old_hunks of
                          Some h \<Rightarrow> Some h
                        | None \<Rightarrow> find (\<lambda>h. hunks_overlap h new_hunk) old_hunks);
                counts = (case prev of None \<Rightarrow> (0, 0) | Some h \<Rightarrow> (new_count (line_info h), old_count (line_info h)))
            in [HunkContentChanged path new_hunk trigger (fst counts) (snd counts)])"

definition emit_hunk_diff_events :: "path \<Rightarrow> hunk list \<Rightarrow> hunk list \<Rightarrow> hunk_source \<Rightarrow> hunk_event list" where
  "emit_hunk_diff_events path old_hunks new_hunks trigger =
     removal_events path old_hunks new_hunks @ concat (map (change_event path old_hunks trigger) new_hunks)"

definition recompute_hunks :: "world \<Rightarrow> path \<Rightarrow> file_content_state option \<Rightarrow> hunk_source \<Rightarrow> tracker \<Rightarrow> tracker" where
  "recompute_hunks w path new_current src st =
     (case file_state st path of
        None \<Rightarrow> st
      | Some s \<Rightarrow>
          let old_hunks = fs_hunks s;
              current = unwrap_or new_current Missing;
              fresh = fresh_hunks w (id_draws st) (drawn st) path (fs_baseline s) current src;
              new_hunks = claim_old old_hunks [] fresh;
              ti = fold (\<lambda>h. turn_remove (h_id h) (source h)) old_hunks (turn_index st)
          in (put_file path (s\<lparr>fs_current := current, fs_hunks := new_hunks\<rparr>) st)
               \<lparr>turn_index := fold turn_insert new_hunks ti,
                drawn := drawn st + length fresh,
                sent_events := sent_events st @ emit_hunk_diff_events path old_hunks new_hunks src\<rparr>)"

section \<open>Mutations\<close>

definition strip_single_trailing_newline :: "string \<Rightarrow> string" where
  "strip_single_trailing_newline s =
     (if suffix [cr, nl] s then butlast (butlast s) else if ends_with nl s then butlast s else s)"

definition record_agent_write ::
  "world \<Rightarrow> path \<Rightarrow> string \<Rightarrow> nat \<Rightarrow> string option \<Rightarrow> tracker \<Rightarrow> tracker" where
  "record_agent_write w path content prompt previous_content st =
     (let current_state = classify_string content
      in if \<not> is_diffable current_state then
           (case file_state st path of
              None \<Rightarrow>
                let (baseline, st1) = (case previous_content of
                                         Some prev \<Rightarrow> (classify_string prev, st)
                                       | None \<Rightarrow> read_baseline w path st)
                in send_event (FileAdded path True)
                     (put_file path \<lparr>fs_baseline = baseline, fs_current = current_state, fs_hunks = [],
                                     fs_is_agent_file = True, fs_baseline_accepted = False\<rparr> st1)
            | Some s \<Rightarrow>
                put_file path (s\<lparr>fs_is_agent_file := True, fs_current := current_state, fs_hunks := []\<rparr>) st)
         else
           let st2 = (case file_state st path of
                        None \<Rightarrow>
                          let (head, st1) = read_baseline w path st;
                              baseline = (case head of
                                            Missing \<Rightarrow> unwrap_or (map_option classify_string previous_content) Missing
                                          | other \<Rightarrow> other)
                          in send_event (FileAdded path True)
                               (put_file path \<lparr>fs_baseline = baseline, fs_current = current_state, fs_hunks = [],
                                               fs_is_agent_file = True, fs_baseline_accepted = False\<rparr> st1)
                      | Some s \<Rightarrow> put_file path (s\<lparr>fs_is_agent_file := True\<rparr>) st)
           in recompute_hunks w path (Some current_state) (AgentEdit prompt) st2)"

text \<open>The baseline handed in by a batch, or a read of the HEAD.\<close>

definition take_baseline ::
  "world \<Rightarrow> path \<Rightarrow> file_content_state option \<Rightarrow> tracker \<Rightarrow> file_content_state \<times> tracker" where
  "take_baseline w path preloaded st =
     (case preloaded of Some b \<Rightarrow> (b, st) | None \<Rightarrow> read_baseline w path st)"

text \<open>In \<open>AllDirty\<close> mode a file that is neither in the HEAD nor dirty is ignored by git.\<close>

definition is_gitignored :: "world \<Rightarrow> path \<Rightarrow> file_content_state \<Rightarrow> tracker \<Rightarrow> bool" where
  "is_gitignored w path baseline st \<longleftrightarrow>
     tk_mode st = AllDirty \<and> baseline = Missing \<and> \<not> w_is_dir w path \<and>
     rel_path st path \<notin> set (git_dirty_cache st)"

fun content_matches_head :: "file_content_state \<Rightarrow> file_content_state \<Rightarrow> bool \<Rightarrow> bool" where
  "content_matches_head (Full current) (Full head) dirty =
     (strip_single_trailing_newline current = strip_single_trailing_newline head)"
| "content_matches_head Missing Missing dirty = True"
| "content_matches_head (Binary _) (Binary _) dirty = True"
| "content_matches_head (TooLarge _) (TooLarge _) dirty = True"
| "content_matches_head (LfsPointer _) (LfsPointer _) dirty = True"
| "content_matches_head Symlink Symlink dirty = True"
| "content_matches_head Symlink (Full _) dirty = (\<not> dirty)"
| "content_matches_head (Full _) Symlink dirty = (\<not> dirty)"
| "content_matches_head _ _ dirty = False"

definition external_source :: "path \<Rightarrow> tracker \<Rightarrow> hunk_source" where
  "external_source path st =
     (case file_state st path of
        Some s \<Rightarrow> if fs_is_agent_file s then ExternalEditOnAgentFile else External
      | None \<Rightarrow> External)"

definition track_external :: "path \<Rightarrow> file_content_state \<Rightarrow> file_content_state \<Rightarrow> tracker \<Rightarrow> tracker" where
  "track_external path baseline current st =
     send_event (FileAdded path False)
       (put_file path \<lparr>fs_baseline = baseline, fs_current = current, fs_hunks = [],
                       fs_is_agent_file = False, fs_baseline_accepted = False\<rparr> st)"

definition process_file_change :: "world \<Rightarrow> path \<Rightarrow> file_content_state option \<Rightarrow> tracker \<Rightarrow> tracker" where
  "process_file_change w path preloaded st =
     (case file_state st path of
        None \<Rightarrow>
          if tk_mode st = AgentOnly then st
          else
            let current_state = read_file_bounded (w_file w path)
            in if \<not> is_diffable current_state then
                 let (baseline, st1) = take_baseline w path preloaded st
                 in if is_gitignored w path baseline st1 then st1
                    else
                      let st2 = track_external path baseline current_state st1
                      in if is_diffable baseline then recompute_hunks w path None External st2 else st2
               else
                 let (baseline, st1) = take_baseline w path preloaded st
                 in if is_gitignored w path baseline st1 then st1
                    else
                      let st2 = track_external path baseline Missing st1
                      in recompute_hunks w path (Some current_state) (external_source path st2) st2
      | Some s \<Rightarrow>
          let current_state = read_file_bounded (w_file w path)
          in if fs_baseline_accepted s then
               let (head, st1) = take_baseline w path preloaded st
               in if content_matches_head current_state head (rel_path st1 path \<in> set (git_dirty_cache st1))
                  then put_file path (s\<lparr>fs_baseline := head, fs_current := head,
                                       fs_baseline_accepted := False, fs_hunks := []\<rparr>) st1
                  else recompute_hunks w path (Some current_state) (external_source path st1) st1
             else recompute_hunks w path (Some current_state) (external_source path st) st)"

definition handle_file_change :: "world \<Rightarrow> path \<Rightarrow> tracker \<Rightarrow> tracker" where
  "handle_file_change w path st = process_file_change w path None st"

text \<open>Each preloaded baseline is taken out of the map by the first change that uses it.\<close>

fun process_changes :: "world \<Rightarrow> path list \<Rightarrow> (path \<times> file_content_state) list \<Rightarrow> tracker \<Rightarrow> tracker" where
  "process_changes w [] baselines st = st"
| "process_changes w (p # ps) baselines st =
     process_changes w ps (AList.delete p baselines) (process_file_change w p (map_of baselines p) st)"

definition handle_file_changes_batch :: "world \<Rightarrow> path list \<Rightarrow> tracker \<Rightarrow> tracker" where
  "handle_file_changes_batch w paths st =
     (if paths = [] then st
      else
        let baseline_paths = filter (\<lambda>p. case file_state st p of
                               None \<Rightarrow> tk_mode st \<noteq> AgentOnly
                             | Some s \<Rightarrow> fs_baseline_accepted s) paths;
            (baselines, st1) = (if baseline_paths = [] then ([], st) else read_baselines_batch w baseline_paths st)
        in process_changes w paths baselines st1)"

definition handle_file_deleted :: "world \<Rightarrow> path \<Rightarrow> tracker \<Rightarrow> tracker" where
  "handle_file_deleted w path st =
     (case file_state st path of
        None \<Rightarrow>
          if tk_mode st = AgentOnly then st
          else if w_exists w path then st
          else
            let (baseline, st1) = read_baseline w path st
            in if baseline = Missing then st1
               else recompute_hunks w path None External (track_external path baseline Missing st1)
      | Some s \<Rightarrow>
          if w_exists w path then handle_file_change w path st
          else recompute_hunks w path None (external_source path st) st)"

text \<open>The loop that forgets hunks: each leaves its turn and is reported as superseded.\<close>

definition supersede_hunks :: "path \<Rightarrow> hunk list \<Rightarrow> tracker \<Rightarrow> tracker" where
  "supersede_hunks path hunks st =
     fold (\<lambda>h st. send_event (HunkRemoved path (h_id h) Superseded)
                   (remove_from_turn_index (h_id h) (source h) st)) hunks st"

definition reset_baseline :: "path \<Rightarrow> tracker \<Rightarrow> tracker" where
  "reset_baseline path st =
     (case file_state st path of
        None \<Rightarrow> st
      | Some s \<Rightarrow>
          send_event (BaselineUpdated path)
            (supersede_hunks path (fs_hunks s)
              (put_file path (s\<lparr>fs_baseline := fs_current s, fs_baseline_accepted := False, fs_hunks := []\<rparr>) st)))"

definition refresh_git_dirty_cache :: "world \<Rightarrow> path list option \<Rightarrow> tracker \<Rightarrow> tracker" where
  "refresh_git_dirty_cache w scope st =
     (if git_repo st = NotARepo then st
      else if \<not> w_tasks_ok w then st
      else
        let opened = open_or_discover w (git_repo st) (working_dir st);
            (dirty, staged) = (case opened of None \<Rightarrow> ([], []) | Some (pre, _) \<Rightarrow> git_status_scan w pre scope);
            paths_to_track = filter (\<lambda>r. file_state st (working_dir st @ r) = None) (w_order w dirty);
            st1 = st\<lparr>git_repo := cache_discovery opened (git_repo st),
                     git_dirty_cache := dirty, git_staged_cache := staged\<rparr>
        in if tk_mode st1 = AllDirty
           then fold (\<lambda>r st. handle_file_change w (working_dir st @ r) st) paths_to_track st1
           else st1)"

text \<open>Whether a refreshed file is clean; for contents without text git's own answer decides.\<close>

fun is_clean :: "file_content_state \<Rightarrow> file_content_state \<Rightarrow> bool \<Rightarrow> bool \<Rightarrow> bool" where
  "is_clean (Full b) (Full c) dirty on_disk =
     (strip_single_trailing_newline b = strip_single_trailing_newline c)"
| "is_clean (Binary _) (Binary _) dirty on_disk = (\<not> dirty)"
| "is_clean (TooLarge _) (TooLarge _) dirty on_disk = (\<not> dirty)"
| "is_clean (LfsPointer _) _ dirty on_disk = (\<not> dirty)"
| "is_clean _ (LfsPointer _) dirty on_disk = (\<not> dirty)"
| "is_clean Symlink Symlink dirty on_disk = (\<not> dirty)"
| "is_clean Symlink (Full _) dirty on_disk = (\<not> dirty)"
| "is_clean (Full _) Symlink dirty on_disk = (\<not> dirty)"
| "is_clean Missing Missing dirty on_disk = (\<not> on_disk)"
| "is_clean Missing _ dirty on_disk = (\<not> dirty)"
| "is_clean _ _ dirty on_disk = False"

definition refresh_file ::
  "world \<Rightarrow> (path \<times> file_content_state) list \<Rightarrow> path \<Rightarrow> tracker \<Rightarrow> tracker" where
  "refresh_file w baselines path st =
     (case file_state st path of
        None \<Rightarrow> st
      | Some s \<Rightarrow>
          let new_baseline = unwrap_or (map_of baselines path) Missing;
              new_current = (if w_tasks_ok w then read_file_bounded (w_file w path) else Missing);
              s1 = s\<lparr>fs_baseline := new_baseline, fs_current := new_current, fs_baseline_accepted := False\<rparr>;
              clean = is_clean new_baseline new_current
                        (rel_path st path \<in> set (git_dirty_cache st)) (w_exists w path)
          in if clean \<and> \<not> fs_is_agent_file s
             then send_event (FileRemoved path) (supersede_hunks path (fs_hunks s) (drop_file path st))
             else if clean
             then send_event (BaselineUpdated path)
                    (supersede_hunks path (fs_hunks s) (put_file path (s1\<lparr>fs_hunks := []\<rparr>) st))
             else send_event (BaselineUpdated path)
                    (recompute_hunks w path (Some new_current)
                      (if fs_is_agent_file s then ExternalEditOnAgentFile else External) (put_file path s1 st)))"

definition refresh_all_baselines_except :: "world \<Rightarrow> path list \<Rightarrow> tracker \<Rightarrow> tracker" where
  "refresh_all_baselines_except w skip st =
     (if tk_mode st = AgentOnly \<and> file_states st = [] then st
      else
        let (sync, st1) = read_repo_sync_state w st
        in if sync = Some (repo_sync st1) then st1
           else
             let st2 = (case sync of None \<Rightarrow> st1 | Some y \<Rightarrow> st1\<lparr>repo_sync := y\<rparr>);
                 scope = (case tk_mode st2 of
                            AllDirty \<Rightarrow> None
                          | AgentOnly \<Rightarrow>
                              Some (List.map_filter (strip_prefix (working_dir st2))
                                     (w_order w (map fst (file_states st2)))));
                 st3 = (if scope = Some [] then st2\<lparr>git_dirty_cache := [], git_staged_cache := []\<rparr>
                        else refresh_git_dirty_cache w scope st2);
                 paths = filter (\<lambda>p. p \<notin> set skip) (w_order w (map fst (file_states st3)));
                 (baselines, st4) = (if paths = [] then ([], st3) else read_baselines_batch w paths st3)
             in fold (refresh_file w baselines) paths st4)"

definition refresh_all_baselines :: "world \<Rightarrow> tracker \<Rightarrow> tracker" where
  "refresh_all_baselines w st = refresh_all_baselines_except w [] st"

definition forget_file :: "path \<Rightarrow> tracker \<Rightarrow> tracker" where
  "forget_file path st =
     (case file_state st path of
        None \<Rightarrow> st
      | Some s \<Rightarrow> send_event (FileRemoved path) (supersede_hunks path (fs_hunks s) (drop_file path st)))"

definition set_mode :: "world \<Rightarrow> tracking_mode \<Rightarrow> tracker \<Rightarrow> tracker" where
  "set_mode w mode st =
     (let st1 = st\<lparr>tk_mode := mode\<rparr>
      in if tk_mode st = AgentOnly \<and> mode = AllDirty then refresh_git_dirty_cache w None st1
         else if tk_mode st = AllDirty \<and> mode = AgentOnly then
           fold forget_file
             (filter (\<lambda>p. case file_state st p of None \<Rightarrow> False | Some s \<Rightarrow> \<not> fs_is_agent_file s)
               (w_order w (map fst (file_states st)))) st1
         else st1)"

end
