(* ===== verification/Hunk_Actions.thy ===== *)
theory Hunk_Actions
  imports Hunk_Tracker
begin

text \<open>
  Accepting and rejecting hunks (\<open>actor/actions.rs\<close>), the queries (\<open>actor/queries.rs\<close>), snapshots, and
  the command loop with its coalescing of file system notifications (\<open>actor/mod.rs\<close>, \<open>commands.rs\<close>).
\<close>

section \<open>Actions\<close>

definition sat_usize :: "nat \<Rightarrow> nat \<Rightarrow> nat" where
  "sat_usize a b = min (a + b) (2 ^ 64 - 1)"

definition update_session_stats :: "hunk_line_info \<Rightarrow> bool \<Rightarrow> tracker \<Rightarrow> tracker" where
  "update_session_stats info accepted st =
     (let s = tk_stats st
      in if accepted
         then st\<lparr>tk_stats := s\<lparr>accepted_hunks := sat_usize (accepted_hunks s) 1,
                             accepted_lines_added := sat_usize (accepted_lines_added s) (new_count info),
                             accepted_lines_removed := sat_usize (accepted_lines_removed s) (old_count info)\<rparr>\<rparr>
         else st\<lparr>tk_stats := s\<lparr>rejected_hunks := sat_usize (rejected_hunks s) 1,
                             rejected_lines_added := sat_usize (rejected_lines_added s) (new_count info),
                             rejected_lines_removed := sat_usize (rejected_lines_removed s) (old_count info)\<rparr>\<rparr>)"

definition remaining_source :: "path \<Rightarrow> tracker \<Rightarrow> hunk_source" where
  "remaining_source path st =
     (case file_state st path of
        None \<Rightarrow> External
      | Some s \<Rightarrow> (case fs_hunks s of [] \<Rightarrow> External | h # _ \<Rightarrow> source h))"

definition accept_hunk :: "world \<Rightarrow> path \<Rightarrow> hunk \<Rightarrow> tracker \<Rightarrow> (hunk_action_error, unit) result \<times> tracker" where
  "accept_hunk w path h st =
     (case file_state st path of
        None \<Rightarrow> (Inr (), st)
      | Some s \<Rightarrow>
          let rest = filter (\<lambda>g. h_id g \<noteq> h_id h) (fs_hunks s);
              announce = (\<lambda>st. send_event (BaselineUpdated path) (send_event (HunkRemoved path (h_id h) Accepted) st))
          in if fs_baseline s = Missing
             then (Inr (), announce (put_file path (s\<lparr>fs_baseline := fs_current s, fs_baseline_accepted := True,
                                                   fs_hunks := rest\<rparr>) st))
             else
               let patched = (case fs_baseline s of
                                Full b \<Rightarrow> Full (patch_lines b (old_start (line_info h)) (old_count (line_info h)) (new_text h))
                              | other \<Rightarrow> other);
                   st1 = announce (put_file path (s\<lparr>fs_baseline := patched, fs_baseline_accepted := True,
                                                   fs_hunks := rest\<rparr>) st)
               in (Inr (), recompute_hunks w path (Some (fs_current s)) (remaining_source path st1) st1))"

datatype reject_action = RestoreDeleted string | DeleteCreated | RevertChange string | RejectNoOp

definition plan_reject :: "file_hunk_state \<Rightarrow> hunk \<Rightarrow> reject_action" where
  "plan_reject s h =
     (case (fs_current s, fs_baseline s) of
        (Missing, Full b) \<Rightarrow> RestoreDeleted b
      | (Full c, Missing) \<Rightarrow> DeleteCreated
      | (Full c, _) \<Rightarrow>
          RevertChange (patch_lines c (new_start (line_info h)) (new_count (line_info h)) (unwrap_or (old_text h) []))
      | _ \<Rightarrow> RejectNoOp)"

definition perform_write :: "world \<Rightarrow> path \<Rightarrow> string \<Rightarrow> tracker \<Rightarrow> (hunk_action_error, unit) result \<times> tracker" where
  "perform_write w path s st =
     (if w_write_ok w path then (Inr (), st\<lparr>disk_ops := disk_ops st @ [WriteFile path s]\<rparr>)
      else (Inl (WriteError path), st))"

definition perform_remove :: "world \<Rightarrow> path \<Rightarrow> tracker \<Rightarrow> (hunk_action_error, unit) result \<times> tracker" where
  "perform_remove w path st =
     (if w_remove_ok w path then (Inr (), st\<lparr>disk_ops := disk_ops st @ [RemoveFile path]\<rparr>)
      else (Inl (DeleteError path), st))"

definition reject_hunk :: "world \<Rightarrow> path \<Rightarrow> hunk \<Rightarrow> tracker \<Rightarrow> (hunk_action_error, unit) result \<times> tracker" where
  "reject_hunk w path h st =
     (case file_state st path of
        None \<Rightarrow> (Inr (), st)
      | Some s \<Rightarrow>
          let rest = filter (\<lambda>g. h_id g \<noteq> h_id h) (fs_hunks s);
              announce = send_event (HunkRemoved path (h_id h) Rejected)
          in case plan_reject s h of
               RejectNoOp \<Rightarrow> (Inr (), st)
             | RestoreDeleted b \<Rightarrow>
                 (case perform_write w path b st of
                    (Inl e, st1) \<Rightarrow> (Inl e, st1)
                  | (Inr _, st1) \<Rightarrow>
                      (Inr (), announce (put_file path (s\<lparr>fs_current := Full b, fs_hunks := rest\<rparr>) st1)))
             | DeleteCreated \<Rightarrow>
                 (case perform_remove w path st of
                    (Inl e, st1) \<Rightarrow> (Inl e, st1)
                  | (Inr _, st1) \<Rightarrow>
                      (Inr (), announce (put_file path (s\<lparr>fs_current := Missing, fs_hunks := rest\<rparr>) st1)))
             | RevertChange patched \<Rightarrow>
                 (case perform_write w path patched st of
                    (Inl e, st1) \<Rightarrow> (Inl e, st1)
                  | (Inr _, st1) \<Rightarrow>
                      let st2 = announce (put_file path (s\<lparr>fs_current := Full patched, fs_hunks := rest\<rparr>) st1)
                      in (Inr (), recompute_hunks w path (Some (Full patched)) (remaining_source path st2) st2)))"

text \<open>The entries of the file map in iteration order.\<close>

definition iter_files :: "world \<Rightarrow> tracker \<Rightarrow> (path \<times> file_hunk_state) list" where
  "iter_files w st =
     List.map_filter (\<lambda>p. map_option (Pair p) (file_state st p)) (w_order w (map fst (file_states st)))"

definition find_hunk :: "world \<Rightarrow> hunk_id \<Rightarrow> tracker \<Rightarrow> (path \<times> hunk) option" where
  "find_hunk w i st =
     (case find (\<lambda>(p, s). list_ex (\<lambda>h. h_id h = i) (fs_hunks s)) (iter_files w st) of
        None \<Rightarrow> None
      | Some (p, s) \<Rightarrow> map_option (Pair p) (find (\<lambda>h. h_id h = i) (fs_hunks s)))"

definition apply_hunk_action ::
  "world \<Rightarrow> hunk_id \<Rightarrow> hunk_action \<Rightarrow> tracker \<Rightarrow> (hunk_action_error, unit) result \<times> tracker" where
  "apply_hunk_action w i action st =
     (case find_hunk w i st of
        None \<Rightarrow> (Inl (HunkNotFound i), st)
      | Some (path, h) \<Rightarrow>
          let st1 = remove_from_turn_index i (source h) (update_session_stats (line_info h) (action = Accept) st)
          in case action of
               Accept \<Rightarrow> accept_hunk w path h st1
             | Reject \<Rightarrow> reject_hunk w path h st1)"

text \<open>\<open>sort_by_key\<close> with a \<open>Reverse\<close> key: descending and stable.\<close>

definition sort_desc :: "('a \<Rightarrow> nat) \<Rightarrow> 'a list \<Rightarrow> 'a list" where
  "sort_desc f xs = rev (sort_key f (rev xs))"

definition removed_all :: "path \<Rightarrow> hunk_removal_reason \<Rightarrow> hunk list \<Rightarrow> tracker \<Rightarrow> tracker" where
  "removed_all path reason hunks st = fold (\<lambda>h. send_event (HunkRemoved path (h_id h) reason)) hunks st"

definition without :: "hunk list \<Rightarrow> hunk list \<Rightarrow> hunk list" where
  "without hunks hs = filter (\<lambda>h. h_id h \<notin> set (map h_id hunks)) hs"

definition accept_patches :: "hunk list \<Rightarrow> file_content_state \<Rightarrow> file_content_state" where
  "accept_patches hunks baseline =
     fold (\<lambda>h c. case c of
        Full b \<Rightarrow> Full (patch_lines b (old_start (line_info h)) (old_count (line_info h)) (new_text h))
      | other \<Rightarrow> other) (sort_desc (\<lambda>h. old_start (line_info h)) hunks) baseline"

definition reject_patches :: "hunk list \<Rightarrow> string \<Rightarrow> string" where
  "reject_patches hunks current =
     fold (\<lambda>h c. patch_lines c (new_start (line_info h)) (new_count (line_info h)) (unwrap_or (old_text h) []))
       (sort_desc (\<lambda>h. new_start (line_info h)) hunks) current"

definition accept_hunks_batch ::
  "world \<Rightarrow> path \<Rightarrow> hunk list \<Rightarrow> tracker \<Rightarrow> (hunk_action_error, unit) result \<times> tracker" where
  "accept_hunks_batch w path hunks st =
     (if hunks = [] then (Inr (), st)
      else case file_state st path of
        None \<Rightarrow> (Inr (), st)
      | Some s \<Rightarrow>
          let rest = without hunks (fs_hunks s);
              announce = (\<lambda>st. send_event (BaselineUpdated path) (removed_all path Accepted hunks st))
          in if fs_baseline s = Missing
             then (Inr (), announce (put_file path (s\<lparr>fs_baseline := fs_current s, fs_baseline_accepted := True,
                                                   fs_hunks := rest\<rparr>) st))
             else
               let st1 = announce (put_file path (s\<lparr>fs_baseline := accept_patches hunks (fs_baseline s),
                                                   fs_baseline_accepted := True, fs_hunks := rest\<rparr>) st)
               in (Inr (), recompute_hunks w path (Some (fs_current s)) (remaining_source path st1) st1))"

definition reject_hunks_batch ::
  "world \<Rightarrow> path \<Rightarrow> hunk list \<Rightarrow> tracker \<Rightarrow> (hunk_action_error, unit) result \<times> tracker" where
  "reject_hunks_batch w path hunks st =
     (if hunks = [] then (Inr (), st)
      else case file_state st path of
        None \<Rightarrow> (Inr (), st)
      | Some s \<Rightarrow>
          let rest = without hunks (fs_hunks s);
              announce = removed_all path Rejected hunks
          in case (fs_current s, fs_baseline s) of
               (Missing, Full b) \<Rightarrow>
                 (case perform_write w path b st of
                    (Inl e, st1) \<Rightarrow> (Inl e, st1)
                  | (Inr _, st1) \<Rightarrow>
                      (Inr (), announce (put_file path (s\<lparr>fs_current := fs_baseline s, fs_hunks := rest\<rparr>) st1)))
             | (Full c, Missing) \<Rightarrow>
                 (case perform_remove w path st of
                    (Inl e, st1) \<Rightarrow> (Inl e, st1)
                  | (Inr _, st1) \<Rightarrow>
                      (Inr (), announce (put_file path (s\<lparr>fs_current := Missing, fs_hunks := rest\<rparr>) st1)))
             | (Full c, _) \<Rightarrow>
                 let patched = reject_patches hunks c
                 in (case perform_write w path patched st of
                    (Inl e, st1) \<Rightarrow> (Inl e, st1)
                  | (Inr _, st1) \<Rightarrow>
                      let st2 = announce (put_file path (s\<lparr>fs_current := Full patched, fs_hunks := rest\<rparr>) st1)
                      in (Inr (), recompute_hunks w path (Some (Full patched)) (remaining_source path st2) st2))
             | _ \<Rightarrow> (Inr (), st))"

definition settle_hunk :: "hunk_action \<Rightarrow> hunk \<Rightarrow> tracker \<Rightarrow> tracker" where
  "settle_hunk action h st =
     remove_from_turn_index (h_id h) (source h) (update_session_stats (line_info h) (action = Accept) st)"

fun apply_action_batch ::
  "world \<Rightarrow> hunk_action \<Rightarrow> (path \<times> hunk list) list \<Rightarrow> hunk_id list \<Rightarrow> tracker \<Rightarrow>
   (hunk_action_error, hunk_id list) result \<times> tracker" where
  "apply_action_batch w action [] affected st = (Inr affected, st)"
| "apply_action_batch w action ((path, hunks) # files) affected st =
     (let st1 = fold (settle_hunk action) hunks st;
          (r, st2) = (case action of
                        Accept \<Rightarrow> accept_hunks_batch w path hunks st1
                      | Reject \<Rightarrow> reject_hunks_batch w path hunks st1)
      in case r of
           Inl e \<Rightarrow> (Inl e, st2)
         | Inr _ \<Rightarrow> apply_action_batch w action files (affected @ map h_id hunks) st2)"

definition apply_file_action ::
  "world \<Rightarrow> path \<Rightarrow> hunk_action \<Rightarrow> tracker \<Rightarrow> (hunk_action_error, hunk_id list) result \<times> tracker" where
  "apply_file_action w path action st =
     (case file_state st path of
        None \<Rightarrow> (Inr [], st)
      | Some s \<Rightarrow>
          if fs_hunks s = [] then (Inr [], st)
          else apply_action_batch w action [(path, fs_hunks s)] [] st)"

definition apply_all_action ::
  "world \<Rightarrow> hunk_action \<Rightarrow> tracker \<Rightarrow> (hunk_action_error, hunk_id list) result \<times> tracker" where
  "apply_all_action w action st =
     (let files = map (\<lambda>(p, s). (p, fs_hunks s)) (filter (\<lambda>(p, s). fs_hunks s \<noteq> []) (iter_files w st))
      in if files = [] then (Inr [], st) else apply_action_batch w action files [] st)"

definition turn_hunks_of :: "nat \<Rightarrow> file_hunk_state \<Rightarrow> hunk list" where
  "turn_hunks_of p s = filter (\<lambda>h. prompt_index (source h) = Some p) (fs_hunks s)"

definition apply_turn_action ::
  "world \<Rightarrow> nat \<Rightarrow> hunk_action \<Rightarrow> tracker \<Rightarrow> (hunk_action_error, hunk_id list) result \<times> tracker" where
  "apply_turn_action w p action st =
     (let files = filter (\<lambda>(q, hs). hs \<noteq> []) (map (\<lambda>(q, s). (q, turn_hunks_of p s)) (iter_files w st))
      in if files = [] then (Inr [], st) else apply_action_batch w action files [] st)"

section \<open>Queries\<close>

definition get_all_hunks :: "world \<Rightarrow> tracker \<Rightarrow> hunk list" where
  "get_all_hunks w st = concat (map (\<lambda>(p, s). fs_hunks s) (iter_files w st))"

definition get_hunks_for_path :: "path \<Rightarrow> tracker \<Rightarrow> hunk list" where
  "get_hunks_for_path path st = (case file_state st path of None \<Rightarrow> [] | Some s \<Rightarrow> fs_hunks s)"

definition get_file_hunk_data :: "path \<Rightarrow> tracker \<Rightarrow> file_hunk_data" where
  "get_file_hunk_data path st =
     (case file_state st path of
        None \<Rightarrow> \<lparr>fd_hunks = [], fd_baseline = view_of_content Missing, fd_current = view_of_content Missing,
                fd_baseline_content = None, fd_current_content = None\<rparr>
      | Some s \<Rightarrow>
          let patch_for = (\<lambda>h. case (content_as_str (fs_baseline s), content_as_str (fs_current s)) of
                             (Some b, Some c) \<Rightarrow> Some (generate_hunk_patch b c h)
                           | (None, Some c) \<Rightarrow> Some (generate_hunk_patch [] c h)
                           | (Some b, None) \<Rightarrow> Some (generate_hunk_patch b [] h)
                           | (None, None) \<Rightarrow> None);
              bv = view_of_content (fs_baseline s);
              cv = view_of_content (fs_current s)
          in \<lparr>fd_hunks = map (\<lambda>h. h\<lparr>h_patch := patch_for h\<rparr>) (fs_hunks s), fd_baseline = bv, fd_current = cv,
              fd_baseline_content = fv_content bv, fd_current_content = fv_content cv\<rparr>)"

definition get_all_tracked_paths :: "world \<Rightarrow> tracker \<Rightarrow> path list" where
  "get_all_tracked_paths w st = map fst (iter_files w st)"

definition get_hunks_by_source :: "world \<Rightarrow> hunk_source_filter \<Rightarrow> tracker \<Rightarrow> hunk list" where
  "get_hunks_by_source w flt st =
     filter (\<lambda>h. case flt of FilterAgent \<Rightarrow> is_agent_edit (source h) | FilterExternal \<Rightarrow> is_external (source h))
       (get_all_hunks w st)"

definition get_hunk :: "world \<Rightarrow> hunk_id \<Rightarrow> tracker \<Rightarrow> hunk option" where
  "get_hunk w i st = find (\<lambda>h. h_id h = i) (get_all_hunks w st)"

definition get_hunks_for_turn :: "world \<Rightarrow> nat \<Rightarrow> tracker \<Rightarrow> hunk list" where
  "get_hunks_for_turn w p st =
     (case map_of (turn_index st) p of
        None \<Rightarrow> []
      | Some ids \<Rightarrow> List.map_filter (\<lambda>i. get_hunk w i st) ids)"

definition is_agent_file :: "path \<Rightarrow> tracker \<Rightarrow> bool" where
  "is_agent_file path st = (case file_state st path of None \<Rightarrow> False | Some s \<Rightarrow> fs_is_agent_file s)"

definition get_staged_files :: "tracker \<Rightarrow> path list" where
  "get_staged_files st = map (\<lambda>r. working_dir st @ r) (git_staged_cache st)"

definition get_all_file_contents :: "world \<Rightarrow> tracker \<Rightarrow> file_content_entry list" where
  "get_all_file_contents w st =
     map (\<lambda>(p, s). \<lparr>fe_path = p, fe_baseline = view_of_content (fs_baseline s),
                    fe_current = view_of_content (fs_current s), fe_is_agent_file = fs_is_agent_file s,
                    fe_staged = (rel_path st p \<in> set (git_staged_cache st))\<rparr>) (iter_files w st)"

record turn_summary =
  ts_prompt_index :: nat
  ts_files :: "path list"
  ts_pending_hunks :: "hunk list"
  ts_lines_added :: nat
  ts_lines_removed :: nat

record session_summary =
  ss_stats :: session_stats
  ss_turns :: "turn_summary list"
  ss_files_modified :: nat
  ss_files_with_pending :: nat
  ss_pending_hunks :: nat
  ss_pending_lines_added :: nat
  ss_pending_lines_removed :: nat
  ss_unattributed_pending :: nat

definition add_pending :: "path \<Rightarrow> hunk \<Rightarrow> nat \<Rightarrow> (nat \<times> turn_summary) list \<Rightarrow> (nat \<times> turn_summary) list" where
  "add_pending path h p by_prompt =
     (let entry = unwrap_or (map_of by_prompt p)
            \<lparr>ts_prompt_index = p, ts_files = [], ts_pending_hunks = [], ts_lines_added = 0, ts_lines_removed = 0\<rparr>
      in AList.update p
           (entry\<lparr>ts_files := List.insert path (ts_files entry),
                  ts_pending_hunks := ts_pending_hunks entry @ [h],
                  ts_lines_added := ts_lines_added entry + new_count (line_info h),
                  ts_lines_removed := ts_lines_removed entry + old_count (line_info h)\<rparr>) by_prompt)"

definition pending_by_prompt :: "world \<Rightarrow> tracker \<Rightarrow> (nat \<times> turn_summary) list" where
  "pending_by_prompt w st =
     fold (\<lambda>(path, s) m.
        fold (\<lambda>h m. case prompt_index (source h) of Some p \<Rightarrow> add_pending path h p m | None \<Rightarrow> m) (fs_hunks s) m)
       (iter_files w st) []"

definition compute_session_summary :: "world \<Rightarrow> tracker \<Rightarrow> session_summary" where
  "compute_session_summary w st =
     (let turns = sort_key ts_prompt_index (map snd (pending_by_prompt w st));
          agent_files = filter (\<lambda>(p, s). list_ex (\<lambda>h. prompt_index (source h) \<noteq> None) (fs_hunks s)) (iter_files w st)
      in \<lparr>ss_stats = tk_stats st, ss_turns = turns,
          ss_files_modified = length agent_files, ss_files_with_pending = length agent_files,
          ss_pending_hunks = sum_list (map (\<lambda>t. length (ts_pending_hunks t)) turns),
          ss_pending_lines_added = sum_list (map ts_lines_added turns),
          ss_pending_lines_removed = sum_list (map ts_lines_removed turns),
          ss_unattributed_pending =
            length (filter (\<lambda>h. prompt_index (source h) = None) (get_all_hunks w st))\<rparr>)"

section \<open>Snapshots\<close>

definition snapshot_file_state :: "file_hunk_state \<Rightarrow> file_hunk_state" where
  "snapshot_file_state s =
     \<lparr>fs_baseline = fs_baseline s, fs_current = fs_current s, fs_hunks = fs_hunks s,
      fs_is_agent_file = fs_is_agent_file s, fs_baseline_accepted = fs_baseline_accepted s\<rparr>"

definition take_snapshot :: "world \<Rightarrow> tracker \<Rightarrow> hunk_tracker_snapshot" where
  "take_snapshot w st =
     \<lparr>sn_file_states = map (\<lambda>(p, s). (p, snapshot_file_state s)) (iter_files w st),
      sn_turn_index = turn_index st, sn_stats = tk_stats st\<rparr>"

definition take_turn_delta :: "world \<Rightarrow> nat \<Rightarrow> tracker \<Rightarrow> hunk_turn_delta" where
  "take_turn_delta w p st =
     (let ids = turn_set (turn_index st) p
      in \<lparr>td_prompt_index = p,
          td_file_states = map (\<lambda>(q, s). (q, snapshot_file_state s))
            (filter (\<lambda>(q, s). list_ex (\<lambda>h. h_id h \<in> set ids) (fs_hunks s)) (iter_files w st)),
          td_hunk_ids = ids\<rparr>)"

definition restore_snapshot :: "hunk_tracker_snapshot \<Rightarrow> tracker \<Rightarrow> tracker" where
  "restore_snapshot sn st =
     st\<lparr>file_states := map (\<lambda>(p, s). (p, snapshot_file_state s)) (sn_file_states sn),
        turn_index := sn_turn_index sn, tk_stats := sn_stats sn\<rparr>"

section \<open>Commands\<close>

datatype hunk_tracker_command =
    RecordAgentWrite path string nat "string option"
  | HandleFileChange path
  | HandleFileDeleted path
  | RefreshGitDirtyCache
  | ResetBaseline path
  | SetMode tracking_mode
  | HunkAction hunk_id hunk_action
  | FileAction path hunk_action
  | AllAction hunk_action
  | TurnAction nat hunk_action
  | GetAllHunks
  | GetHunksForPath path
  | GetFileHunkData path
  | GetHunksBySource hunk_source_filter
  | GetHunk hunk_id
  | IsAgentFile path
  | GetAllTrackedPaths
  | GetStagedFiles
  | GetAllFileContents
  | GetSessionSummary
  | GetTurnHunks nat
  | ResetStats
  | RefreshAllBaselines
  | SnapshotState
  | SnapshotTurnDelta nat
  | RestoreState hunk_tracker_snapshot

datatype command_reply =
    ReplyNone
  | ReplyAction "(hunk_action_error, unit) result"
  | ReplyAffected "(hunk_action_error, hunk_id list) result"
  | ReplyHunks "hunk list"
  | ReplyFileData file_hunk_data
  | ReplyHunk "hunk option"
  | ReplyBool bool
  | ReplyPaths "path list"
  | ReplyContents "file_content_entry list"
  | ReplySummary session_summary
  | ReplySnapshot hunk_tracker_snapshot
  | ReplyDelta hunk_turn_delta

fun handle_command :: "world \<Rightarrow> hunk_tracker_command \<Rightarrow> tracker \<Rightarrow> command_reply \<times> tracker" where
  "handle_command w (RecordAgentWrite path content prompt prev) st =
     (ReplyNone, record_agent_write w path content prompt prev st)"
| "handle_command w (HandleFileChange path) st = (ReplyNone, handle_file_change w path st)"
| "handle_command w (HandleFileDeleted path) st = (ReplyNone, handle_file_deleted w path st)"
| "handle_command w RefreshGitDirtyCache st = (ReplyNone, refresh_git_dirty_cache w None st)"
| "handle_command w (ResetBaseline path) st = (ReplyNone, reset_baseline path st)"
| "handle_command w (SetMode mode) st = (ReplyNone, set_mode w mode st)"
| "handle_command w (HunkAction i action) st = apfst ReplyAction (apply_hunk_action w i action st)"
| "handle_command w (FileAction path action) st = apfst ReplyAffected (apply_file_action w path action st)"
| "handle_command w (AllAction action) st = apfst ReplyAffected (apply_all_action w action st)"
| "handle_command w (TurnAction p action) st = apfst ReplyAffected (apply_turn_action w p action st)"
| "handle_command w GetAllHunks st = (ReplyHunks (get_all_hunks w st), st)"
| "handle_command w (GetHunksForPath path) st = (ReplyHunks (get_hunks_for_path path st), st)"
| "handle_command w (GetFileHunkData path) st = (ReplyFileData (get_file_hunk_data path st), st)"
| "handle_command w (GetHunksBySource flt) st = (ReplyHunks (get_hunks_by_source w flt st), st)"
| "handle_command w (GetHunk i) st = (ReplyHunk (get_hunk w i st), st)"
| "handle_command w (IsAgentFile path) st = (ReplyBool (is_agent_file path st), st)"
| "handle_command w GetAllTrackedPaths st = (ReplyPaths (get_all_tracked_paths w st), st)"
| "handle_command w GetStagedFiles st = (ReplyPaths (get_staged_files st), st)"
| "handle_command w GetAllFileContents st = (ReplyContents (get_all_file_contents w st), st)"
| "handle_command w GetSessionSummary st = (ReplySummary (compute_session_summary w st), st)"
| "handle_command w (GetTurnHunks p) st = (ReplyHunks (get_hunks_for_turn w p st), st)"
| "handle_command w ResetStats st = (ReplyNone, st\<lparr>tk_stats := default_stats\<rparr>)"
| "handle_command w RefreshAllBaselines st = (ReplyNone, refresh_all_baselines w st)"
| "handle_command w SnapshotState st = (ReplySnapshot (take_snapshot w st), st)"
| "handle_command w (SnapshotTurnDelta p) st = (ReplyDelta (take_turn_delta w p st), st)"
| "handle_command w (RestoreState sn) st = (ReplyNone, restore_snapshot sn st)"

section \<open>The actor loop\<close>

datatype coalesced_path_action = PathChanged | PathDeleted | DeletedThenChanged

record coalesced_batch =
  file_actions :: "(path \<times> coalesced_path_action) list"
  refresh_all :: bool
  refresh_dirty :: bool
  other_commands :: "hunk_tracker_command list"
  command_count :: nat

definition batch_new :: coalesced_batch where
  "batch_new = \<lparr>file_actions = [], refresh_all = False, refresh_dirty = False, other_commands = [],
                command_count = 0\<rparr>"

fun batch_put :: "hunk_tracker_command \<Rightarrow> coalesced_batch \<Rightarrow> coalesced_batch" where
  "batch_put (HandleFileChange path) b =
     b\<lparr>file_actions := AList.update path
          (case map_of (file_actions b) path of
             None \<Rightarrow> PathChanged
           | Some PathDeleted \<Rightarrow> DeletedThenChanged
           | Some a \<Rightarrow> a) (file_actions b)\<rparr>"
| "batch_put (HandleFileDeleted path) b =
     b\<lparr>file_actions := AList.update path PathDeleted (file_actions b)\<rparr>"
| "batch_put RefreshAllBaselines b = b\<lparr>refresh_all := True\<rparr>"
| "batch_put RefreshGitDirtyCache b = b\<lparr>refresh_dirty := True\<rparr>"
| "batch_put cmd b = b\<lparr>other_commands := other_commands b @ [cmd]\<rparr>"

definition batch_add :: "hunk_tracker_command \<Rightarrow> coalesced_batch \<Rightarrow> coalesced_batch" where
  "batch_add cmd b = batch_put cmd (b\<lparr>command_count := command_count b + 1\<rparr>)"

fun is_coalescable :: "hunk_tracker_command \<Rightarrow> bool" where
  "is_coalescable (HandleFileChange _) = True"
| "is_coalescable (HandleFileDeleted _) = True"
| "is_coalescable RefreshAllBaselines = True"
| "is_coalescable RefreshGitDirtyCache = True"
| "is_coalescable _ = False"

definition drain_and_coalesce :: "hunk_tracker_command \<Rightarrow> hunk_tracker_command list \<Rightarrow> coalesced_batch" where
  "drain_and_coalesce first queued = fold batch_add (first # queued) batch_new"

definition iter_actions :: "world \<Rightarrow> coalesced_batch \<Rightarrow> (path \<times> coalesced_path_action) list" where
  "iter_actions w b =
     List.map_filter (\<lambda>p. map_option (Pair p) (map_of (file_actions b) p)) (w_order w (map fst (file_actions b)))"

text \<open>Before a full refresh, only untracked changes and tracked deletions are handled one by one.\<close>

definition pre_refresh :: "world \<Rightarrow> path \<times> coalesced_path_action \<Rightarrow> path list \<times> tracker \<Rightarrow> path list \<times> tracker" where
  "pre_refresh w pa acc =
     (case snd pa of
        PathDeleted \<Rightarrow>
          if file_state (snd acc) (fst pa) \<noteq> None then (fst acc, handle_file_deleted w (fst pa) (snd acc)) else acc
      | _ \<Rightarrow>
          if file_state (snd acc) (fst pa) = None
          then (fst pa # fst acc, handle_file_change w (fst pa) (snd acc)) else acc)"

definition run_commands :: "world \<Rightarrow> hunk_tracker_command list \<Rightarrow> tracker \<Rightarrow> tracker" where
  "run_commands w cmds st = fold (\<lambda>c st. snd (handle_command w c st)) cmds st"

definition handle_coalesced_batch :: "world \<Rightarrow> coalesced_batch \<Rightarrow> tracker \<Rightarrow> tracker" where
  "handle_coalesced_batch w b st =
     (let st1 = (if refresh_dirty b \<and> \<not> refresh_all b then refresh_git_dirty_cache w None st else st);
          st2 = (if refresh_all b
                 then (let (seen, st') = fold (pre_refresh w) (iter_actions w b) ([], st1)
                       in refresh_all_baselines_except w seen st')
                 else (let st' = fold (\<lambda>(p, a) st. if a = PathDeleted then handle_file_deleted w p st else st)
                                  (iter_actions w b) st1
                       in handle_file_changes_batch w
                            (map fst (filter (\<lambda>(p, a). a \<noteq> PathDeleted) (iter_actions w b))) st'))
      in run_commands w (other_commands b) st2)"

text \<open>One turn of the loop on the queue of waiting commands: the new state and what stays queued.\<close>

definition actor_turn :: "world \<Rightarrow> hunk_tracker_command list \<Rightarrow> tracker \<Rightarrow> hunk_tracker_command list \<times> tracker" where
  "actor_turn w queue st =
     (case queue of
        [] \<Rightarrow> ([], st)
      | cmd # rest \<Rightarrow>
          if is_coalescable cmd then ([], handle_coalesced_batch w (drain_and_coalesce cmd rest) st)
          else (rest, snd (handle_command w cmd st)))"

definition actor_start :: "world \<Rightarrow> path \<Rightarrow> tracking_mode \<Rightarrow> id_stream \<Rightarrow> tracker" where
  "actor_start w dir mode ids =
     (let st = tracker_new dir mode ids
      in if mode = AllDirty then refresh_git_dirty_cache w None st else st)"

end
