(* ===== verification/Hunk_Invariant.thy ===== *)
theory Hunk_Invariant
  imports Hunk_Actions
begin

text \<open>
  What holds of the tracker between commands. Hunk ids are unique, the turn index files exactly the ids of
  the agent's hunks under their prompts, identifiers still to be drawn are unused, and the hunks of a
  file are the changed regions of a line alignment of its baseline and its current content. The lemmas go
  from the turn index and the hunk lists of the files, seen as functions, to the operations.
\<close>

section \<open>The turn index\<close>

lemma turn_set_remove:
  "turn_set (turn_remove i src ti) k =
   (if prompt_index src = Some k then removeAll i (turn_set ti k) else turn_set ti k)"
  by (auto simp: turn_remove_def turn_set_def AList.update_conv' split: option.splits)

lemma turn_set_insert:
  "turn_set (turn_insert h ti) k =
   (if prompt_index (source h) = Some k then List.insert (h_id h) (turn_set ti k) else turn_set ti k)"
  by (auto simp: turn_insert_def turn_set_def AList.update_conv' split: option.splits)

lemma turn_set_remove_all:
  "set (turn_set (fold (\<lambda>h. turn_remove (h_id h) (source h)) hs ti) k) =
   set (turn_set ti k) - {h_id h |h. h \<in> set hs \<and> prompt_index (source h) = Some k}"
  by (induction hs arbitrary: ti) (auto simp: turn_set_remove)

lemma turn_set_insert_all:
  "set (turn_set (fold turn_insert hs ti) k) =
   set (turn_set ti k) \<union> {h_id h |h. h \<in> set hs \<and> prompt_index (source h) = Some k}"
  by (induction hs arbitrary: ti) (auto simp: turn_set_insert)

section \<open>Claiming old ids\<close>

lemma shape_of_inherit [simp]: "shape_of (inherit_old m h) = shape_of h"
  by (simp add: shape_of_def inherit_old_def)

lemma inherit_old_simps [simp]: "h_id (inherit_old m h) = h_id m" "h_path (inherit_old m h) = h_path h"
  by (simp_all add: inherit_old_def)

lemma claim_old_shapes: "map shape_of (claim_old old claimed hs) = map shape_of hs"
  by (induction old claimed hs rule: claim_old.induct) (simp_all split: option.split)

lemma claim_old_path: "h_path ` set (claim_old old claimed hs) = h_path ` set hs"
  by (induction old claimed hs rule: claim_old.induct) (simp_all split: option.split)

lemma claim_old_ids:
  assumes "distinct (map h_id hs)" and "h_id ` set hs \<inter> h_id ` set old = {}" and "set claimed \<subseteq> h_id ` set old"
  shows "distinct (map h_id (claim_old old claimed hs)) \<and>
         h_id ` set (claim_old old claimed hs) \<subseteq> (h_id ` set old - set claimed) \<union> h_id ` set hs"
  using assms
proof (induction old claimed hs rule: claim_old.induct)
  case (2 old claimed h hs)
  show ?case
  proof (cases "find_matching_old_hunk h old")
    case None
    with 2 show ?thesis by auto
  next
    case (Some m)
    then have m: "h_id m \<in> h_id ` set old" by (auto dest: find_matching_mem)
    show ?thesis
    proof (cases "h_id m \<in> set claimed")
      case True
      with 2 Some show ?thesis by auto
    next
      case False
      let ?rest = "claim_old old (h_id m # claimed) hs"
      have "distinct (map h_id ?rest)"
        and sub: "h_id ` set ?rest \<subseteq> (h_id ` set old - set (h_id m # claimed)) \<union> h_id ` set hs"
        using "2.IH"(3) [OF Some False] "2.prems" m by auto
      moreover have "h_id m \<notin> h_id ` set ?rest" using sub m "2.prems"(2) by auto
      ultimately show ?thesis using Some False m by auto
    qed
  qed
qed simp

section \<open>The invariant of ids and turns\<close>

text \<open>
  Stated on the hunk list of every path and the id set of every turn; \<open>X\<close> are ids that have already left
  their turn although their hunks are still listed.
\<close>

definition index_inv ::
  "hunk_id set \<Rightarrow> (path \<Rightarrow> hunk list) \<Rightarrow> (nat \<Rightarrow> hunk_id set) \<Rightarrow> id_stream \<Rightarrow> nat \<Rightarrow> bool" where
  "index_inv X F T ids n \<longleftrightarrow>
     (\<forall>p. distinct (map h_id (F p))) \<and>
     (\<forall>p q. p \<noteq> q \<longrightarrow> h_id ` set (F p) \<inter> h_id ` set (F q) = {}) \<and>
     (\<forall>p. \<forall>h \<in> set (F p). h_path h = p) \<and>
     (\<forall>p. \<forall>h \<in> set (F p). \<forall>k. h_id h \<in> T k \<longleftrightarrow> prompt_index (source h) = Some k \<and> h_id h \<notin> X) \<and>
     inj (fst \<circ> ids) \<and>
     (\<forall>m \<ge> n. (\<forall>p. fst (ids m) \<notin> h_id ` set (F p)) \<and> (\<forall>k. fst (ids m) \<notin> T k))"

lemma index_invI:
  assumes "\<And>p. distinct (map h_id (F p))"
    and "\<And>p q. p \<noteq> q \<Longrightarrow> h_id ` set (F p) \<inter> h_id ` set (F q) = {}"
    and "\<And>p h. h \<in> set (F p) \<Longrightarrow> h_path h = p"
    and "\<And>p h k. h \<in> set (F p) \<Longrightarrow> h_id h \<in> T k \<longleftrightarrow> prompt_index (source h) = Some k \<and> h_id h \<notin> X"
    and "inj (fst \<circ> ids)"
    and "\<And>m p. n \<le> m \<Longrightarrow> fst (ids m) \<notin> h_id ` set (F p)"
    and "\<And>m k. n \<le> m \<Longrightarrow> fst (ids m) \<notin> T k"
  shows "index_inv X F T ids n"
  unfolding index_inv_def using assms by auto

lemma index_invD:
  assumes "index_inv X F T ids n"
  shows "distinct (map h_id (F p))"
    and "p \<noteq> q \<Longrightarrow> h_id ` set (F p) \<inter> h_id ` set (F q) = {}"
    and "h \<in> set (F p) \<Longrightarrow> h_path h = p"
    and "h \<in> set (F p) \<Longrightarrow> h_id h \<in> T k \<longleftrightarrow> prompt_index (source h) = Some k \<and> h_id h \<notin> X"
    and "inj (fst \<circ> ids)"
    and "n \<le> m \<Longrightarrow> fst (ids m) \<notin> h_id ` set (F p)"
    and "n \<le> m \<Longrightarrow> fst (ids m) \<notin> T k"
  using assms unfolding index_inv_def by blast+

text \<open>Hunks may be dropped; the turns of those that stay must not change.\<close>

lemma index_inv_shrink:
  assumes inv: "index_inv X F T ids n"
    and flt: "\<And>p. \<exists>P. F' p = filter P (F p)"
    and T': "\<And>k. T' k \<subseteq> T k" "\<And>p h k. h \<in> set (F' p) \<Longrightarrow> h_id h \<in> T k \<Longrightarrow> h_id h \<in> T' k"
    and X': "\<And>p h. h \<in> set (F' p) \<Longrightarrow> h_id h \<in> X \<longleftrightarrow> h_id h \<in> X'"
  shows "index_inv X' F' T' ids n"
proof (rule index_invI)
  note D = index_invD [OF inv]
  have sub: "set (F' p) \<subseteq> set (F p)" for p using flt [of p] by auto
  show "distinct (map h_id (F' p))" for p using flt [of p] D(1) by (metis distinct_map_filter)
  show "h_id h \<in> T' k \<longleftrightarrow> prompt_index (source h) = Some k \<and> h_id h \<notin> X'" if "h \<in> set (F' p)" for p h k
    using D(4) [of h p k] sub [of p] T'(1) [of k] T'(2) [OF that, of k] X' [OF that] that by blast
  show "h_id ` set (F' p) \<inter> h_id ` set (F' q) = {}" if "p \<noteq> q" for p q
    using D(2) [OF that] sub [of p] sub [of q] by blast
  show "h_path h = p" if "h \<in> set (F' p)" for p h using D(3) [of h p] sub [of p] that by blast
  show "fst (ids m) \<notin> h_id ` set (F' p)" if "n \<le> m" for m p using D(6) [OF that, of p] sub [of p] by blast
  show "fst (ids m) \<notin> T' k" if "n \<le> m" for m k using D(7) [OF that, of k] T'(1) [of k] by blast
qed (rule index_invD(5) [OF inv])

lemma drawn_from_ids:
  assumes "drawn_from ids n p src hs" and "inj (fst \<circ> ids)"
  shows "distinct (map h_id hs)" and "h_id ` set hs = (fst \<circ> ids) ` {n..<n + length hs}"
proof -
  have m: "map h_id hs = map (fst \<circ> ids) [n..<n + length hs]"
    using assms(1) by (simp add: drawn_from_def)
  then show "h_id ` set hs = (fst \<circ> ids) ` {n..<n + length hs}"
    by (metis list.set_map set_upt)
  show "distinct (map h_id hs)"
    unfolding m using assms(2) by (auto simp: distinct_map inj_def inj_on_def)
qed

lemma index_inv_recompute:
  assumes inv: "index_inv {} F T ids n" and fresh: "drawn_from ids n p src fresh"
    and new: "new = claim_old (F p) [] fresh"
    and T': "\<And>k. T' k = (T k - {h_id h |h. h \<in> set (F p) \<and> prompt_index (source h) = Some k}) \<union>
                          {h_id h |h. h \<in> set new \<and> prompt_index (source h) = Some k}"
  shows "index_inv {} (F(p := new)) T' ids (n + length fresh)"
proof (rule index_invI)
  note D = index_invD [OF inv]
  note fr = drawn_from_ids [OF fresh D(5)]
  have new_fresh: "i \<notin> h_id ` set (F q)" "i \<notin> T k" if "i \<in> h_id ` set fresh" for i q k
  proof -
    from that obtain m where "n \<le> m" "i = fst (ids m)" unfolding fr(2) by auto
    with D(6,7) show "i \<notin> h_id ` set (F q)" "i \<notin> T k" by simp_all
  qed
  have cl: "distinct (map h_id new)" "h_id ` set new \<subseteq> h_id ` set (F p) \<union> h_id ` set fresh"
    using claim_old_ids [of fresh "F p" "[]"] fr(1) new_fresh(1) [of _ p] unfolding new by auto
  have path: "h_path h = p" if "h \<in> set new" for h
    using that fresh claim_old_path [of "F p" "[]" fresh] unfolding new
    by (auto simp: drawn_from_def list_all_iff)
  have gone: "h_id h \<notin> T k - {h_id h |h. h \<in> set (F p) \<and> prompt_index (source h) = Some k}"
    if "h \<in> set new" for h k
  proof -
    from that cl(2) consider g where "g \<in> set (F p)" "h_id g = h_id h" | "h_id h \<in> h_id ` set fresh" by force
    then show ?thesis
    proof cases
      case 1
      with D(4) [OF 1(1), of k] show ?thesis by auto
    next
      case 2
      with new_fresh(2) [of "h_id h" k] show ?thesis by blast
    qed
  qed
  have same: "h = g" if "h \<in> set new" "g \<in> set new" "h_id h = h_id g" for h g
    using cl(1) that by (auto simp: distinct_map inj_on_def)
  have t_new: "h_id h \<in> T' k \<longleftrightarrow> prompt_index (source h) = Some k" if "h \<in> set new" for h k
    unfolding T' using gone [OF that, of k] same [OF that] that by blast
  have apart: "h_id ` set new \<inter> h_id ` set (F q) = {}" if "q \<noteq> p" for q
    using cl(2) new_fresh(1) [of _ q] D(2) [OF that] by blast
  have t_other: "h_id h \<in> T' k \<longleftrightarrow> prompt_index (source h) = Some k" if "h \<in> set (F q)" "q \<noteq> p" for h q k
  proof -
    have "h_id h \<notin> h_id ` set (F p)" "h_id h \<notin> h_id ` set new"
      using D(2) [OF that(2)] apart [OF that(2)] that(1) by blast+
    then show ?thesis unfolding T' using D(4) [OF that(1), of k] by blast
  qed
  have later: "fst (ids m) \<notin> h_id ` set fresh" if "n + length fresh \<le> m" for m
  proof
    assume "fst (ids m) \<in> h_id ` set fresh"
    then obtain x where "(fst \<circ> ids) m = (fst \<circ> ids) x" "x < n + length fresh" unfolding fr(2) by auto
    with injD [OF D(5), of m x] that show False by simp
  qed
  have later_new: "fst (ids m) \<notin> h_id ` set new" if "n + length fresh \<le> m" for m
    using cl(2) later [OF that] D(6) [of m p] that by auto
  show "distinct (map h_id ((F(p := new)) q))" for q using cl(1) D(1) by simp
  show "h_id ` set ((F(p := new)) q) \<inter> h_id ` set ((F(p := new)) r) = {}" if "q \<noteq> r" for q r
    using apart [of q] apart [of r] D(2) [OF that] that by (cases "q = p"; cases "r = p") auto
  show "h_path h = q" if "h \<in> set ((F(p := new)) q)" for q h
    using path D(3) [of h q] that by (cases "q = p") auto
  show "h_id h \<in> T' k \<longleftrightarrow> prompt_index (source h) = Some k \<and> h_id h \<notin> {}" if "h \<in> set ((F(p := new)) q)" for q h k
    using t_new [of h k] t_other [of h q k] that by (cases "q = p") auto
  show "fst (ids m) \<notin> h_id ` set ((F(p := new)) q)" if "n + length fresh \<le> m" for m q
    using later_new [OF that] D(6) [of m q] that by auto
  show "fst (ids m) \<notin> T' k" if "n + length fresh \<le> m" for m k
    unfolding T' using later_new [OF that] D(7) [of m k] that by auto
qed (rule index_invD(5) [OF inv])

section \<open>The invariant of a tracker\<close>

text \<open>
  The tokens of a text: they make up the text, and for a text without carriage returns they are its lines.
  This is what the tracker relies on of the line diff.
\<close>

definition tokens_of :: "string \<Rightarrow> string list \<Rightarrow> bool" where
  "tokens_of s ps \<longleftrightarrow> concat ps = s \<and> (cr \<notin> set s \<longrightarrow> ps = split_inclusive s)"

definition diff_ok :: "line_diff \<Rightarrow> bool" where
  "diff_ok diff \<longleftrightarrow>
     (\<forall>b c cs. diff b c = Some cs \<longrightarrow> tokens_of b (old_lines_of cs) \<and> tokens_of c (new_lines_of cs))"

definition aligned :: "string \<Rightarrow> string \<Rightarrow> hunk list \<Rightarrow> bool" where
  "aligned b c hs \<longleftrightarrow>
     (\<exists>cs. tokens_of b (old_lines_of cs) \<and> tokens_of c (new_lines_of cs) \<and>
           map shape_of hs = region_shapes 1 1 (regions cs))"

definition created_shape :: "string \<Rightarrow> hunk_shape" where
  "created_shape s = (\<lparr>old_start = 0, old_count = 0, new_start = 1, new_count = max (line_count s) 1\<rparr>, None, s)"

definition deleted_shape :: "string \<Rightarrow> hunk_shape" where
  "deleted_shape s = (\<lparr>old_start = 1, old_count = max (line_count s) 1, new_start = 0, new_count = 0\<rparr>, Some s, [])"

lemma shape_of_whole_file [simp]:
  "shape_of (file_created d p s src) = created_shape s" "shape_of (file_deleted d p s src) = deleted_shape s"
  by (simp_all add: shape_of_def file_created_def file_deleted_def created_shape_def deleted_shape_def)

definition file_ok :: "file_hunk_state \<Rightarrow> bool" where
  "file_ok s \<longleftrightarrow>
     fs_hunks s = [] \<or>
     (case (fs_baseline s, fs_current s) of
        (Full b, Full c) \<Rightarrow> aligned b c (fs_hunks s)
      | (Full b, Missing) \<Rightarrow> map shape_of (fs_hunks s) = [deleted_shape b]
      | (Missing, Full c) \<Rightarrow> map shape_of (fs_hunks s) = [created_shape c]
      | _ \<Rightarrow> False)"

definition hunks_in :: "(path \<times> file_hunk_state) list \<Rightarrow> path \<Rightarrow> hunk list" where
  "hunks_in fss p = (case map_of fss p of None \<Rightarrow> [] | Some s \<Rightarrow> fs_hunks s)"

definition turn_ids :: "(nat \<times> hunk_id list) list \<Rightarrow> nat \<Rightarrow> hunk_id set" where
  "turn_ids ti k = set (turn_set ti k)"

text \<open>
  \<open>X\<close> are the ids already taken from the turn index, \<open>q\<close> a path whose hunks may not yet fit its contents.
  The draws \<open>ids\<close> are those the session started with, of which at least \<open>n\<close> are taken.
\<close>

definition tracker_inv_except :: "hunk_id set \<Rightarrow> path set \<Rightarrow> id_stream \<Rightarrow> nat \<Rightarrow> tracker \<Rightarrow> bool" where
  "tracker_inv_except X Q ids n st \<longleftrightarrow>
     distinct (map fst (file_states st)) \<and>
     index_inv X (hunks_in (file_states st)) (turn_ids (turn_index st)) ids (drawn st) \<and>
     (\<forall>p s. p \<notin> Q \<longrightarrow> file_state st p = Some s \<longrightarrow> file_ok s) \<and>
     id_draws st = ids \<and> n \<le> drawn st"

abbreviation tracker_inv :: "id_stream \<Rightarrow> nat \<Rightarrow> tracker \<Rightarrow> bool" where
  "tracker_inv \<equiv> tracker_inv_except {} {}"

lemma inv_frame:
  assumes "tracker_inv_except X Q ids n st"
    and "file_states st' = file_states st" "turn_index st' = turn_index st"
    and "id_draws st' = id_draws st" "drawn st' = drawn st"
  shows "tracker_inv_except X Q ids n st'"
  using assms by (auto simp: tracker_inv_except_def file_state_def)

lemma inv_send_event [simp]: "tracker_inv_except X Q ids n (send_event e st) = tracker_inv_except X Q ids n st"
  by (simp add: tracker_inv_except_def file_state_def send_event_def)

lemma file_state_simps [simp]:
  "file_state (send_event e st) p = file_state st p"
  "file_state (put_file q s st) p = (if p = q then Some s else file_state st p)"
  "file_state (drop_file q st) p = (if p = q then None else file_state st p)"
  by (simp_all add: file_state_def send_event_def put_file_def drop_file_def AList.update_conv' AList.delete_conv')

lemma hunks_in_update: "hunks_in (AList.update q s fss) = (hunks_in fss)(q := fs_hunks s)"
  by (auto simp: hunks_in_def AList.update_conv' fun_eq_iff)

lemma hunks_in_delete: "hunks_in (AList.delete q fss) = (hunks_in fss)(q := [])"
  by (auto simp: hunks_in_def AList.delete_conv' fun_eq_iff)

lemma hunks_in_state: "file_state st p = Some s \<Longrightarrow> hunks_in (file_states st) p = fs_hunks s"
  by (simp add: hunks_in_def file_state_def)

lemma filter_True: "\<exists>P. xs = filter P xs"
  by (rule exI [of _ "\<lambda>_. True"]) simp

text \<open>Storing a file with fewer hunks.\<close>

lemma inv_put_file:
  assumes inv: "tracker_inv_except X Q ids n st"
    and sub: "fs_hunks s = filter P (hunks_in (file_states st) p)"
    and ok: "p \<notin> Q' \<Longrightarrow> file_ok s" and Q: "Q \<subseteq> insert p Q'"
  shows "tracker_inv_except X Q' ids n (put_file p s st)"
proof -
  have "index_inv X ((hunks_in (file_states st))(p := fs_hunks s)) (turn_ids (turn_index st)) (id_draws st) (drawn st)"
    by (rule index_inv_shrink [where X = X and F = "hunks_in (file_states st)" and T = "turn_ids (turn_index st)"])
      (use inv sub in \<open>auto simp: tracker_inv_except_def intro: filter_True\<close>)
  moreover have "file_ok s'" if "p' \<notin> Q'" "file_state (put_file p s st) p' = Some s'" for p' s'
    using that inv ok Q by (auto simp: tracker_inv_except_def split: if_splits)
  ultimately show ?thesis
    using inv by (simp add: tracker_inv_except_def put_file_def hunks_in_update AList.distinct_update)
qed

lemma inv_drop_file:
  assumes inv: "tracker_inv_except X Q ids n st"
  shows "tracker_inv_except X (Q - {p}) ids n (drop_file p st)"
proof -
  have "index_inv X ((hunks_in (file_states st))(p := [])) (turn_ids (turn_index st)) (id_draws st) (drawn st)"
    by (rule index_inv_shrink [where X = X and F = "hunks_in (file_states st)" and T = "turn_ids (turn_index st)"])
      (use inv in \<open>auto simp: tracker_inv_except_def intro: filter_True exI [of _ "\<lambda>_. False"]\<close>)
  moreover have "file_ok s" if "q \<notin> Q - {p}" "file_state (drop_file p st) q = Some s" for q s
    using that inv by (auto simp: tracker_inv_except_def split: if_splits)
  ultimately show ?thesis
    using inv by (simp add: tracker_inv_except_def drop_file_def hunks_in_delete AList.distinct_delete)
qed


text \<open>Forgetting that ids have left their turn once their hunks are gone.\<close>

lemma inv_forget:
  assumes inv: "tracker_inv_except X Q ids n st" and "\<And>p h. h \<in> set (hunks_in (file_states st) p) \<Longrightarrow> h_id h \<notin> X"
  shows "tracker_inv_except {} Q ids n st"
proof -
  have "index_inv {} (hunks_in (file_states st)) (turn_ids (turn_index st)) (id_draws st) (drawn st)"
    by (rule index_inv_shrink [where X = X and F = "hunks_in (file_states st)" and T = "turn_ids (turn_index st)"])
      (use assms in \<open>auto simp: tracker_inv_except_def intro: filter_True\<close>)
  with inv show ?thesis by (simp add: tracker_inv_except_def)
qed

section \<open>Recomputation\<close>

lemma fresh_hunks_drawn: "drawn_from ids n p src (fresh_hunks w ids n p b c src)"
  by (simp add: fresh_hunks_def compute_hunks_drawn drawn_from_single split: file_content_state.splits)

lemma file_ok_cong:
  "map shape_of hs = map shape_of (fs_hunks s) \<Longrightarrow> file_ok (s\<lparr>fs_hunks := hs\<rparr>) = file_ok s"
  by (cases hs; cases "fs_hunks s") (simp_all add: file_ok_def aligned_def split: file_content_state.splits)

lemma compute_hunks_aligned:
  assumes "diff_ok diff" and "compute_hunks diff ids n p b c src \<noteq> []"
  shows "aligned b c (compute_hunks diff ids n p b c src)"
proof -
  obtain cs where cs: "diff b c = Some cs" "compute_hunks diff ids n p b c src = walk_changes ids n p src cs"
    using assms(2) by (auto simp: compute_hunks_def split: if_splits option.splits)
  with assms(1) have "tokens_of b (old_lines_of cs) \<and> tokens_of c (new_lines_of cs)"
    by (simp add: diff_ok_def)
  then show ?thesis unfolding aligned_def cs(2) using walk_changes_shapes by blast
qed

lemma fresh_hunks_ok:
  assumes "diff_ok (w_diff w)"
  shows "file_ok \<lparr>fs_baseline = b, fs_current = c, fs_hunks = fresh_hunks w ids n p b c src,
                  fs_is_agent_file = a, fs_baseline_accepted = acc\<rparr>"
proof -
  have "compute_hunks (w_diff w) ids n p x y src = [] \<or> aligned x y (compute_hunks (w_diff w) ids n p x y src)" for x y
    using compute_hunks_aligned [OF assms] by blast
  then show ?thesis
    by (cases b; cases c) (auto simp: file_ok_def fresh_hunks_def)
qed

lemma inv_recompute:
  assumes inv: "tracker_inv_except {} Q ids n st" and diff: "diff_ok (w_diff w)"
  shows "tracker_inv_except {} (Q - {p}) ids n (recompute_hunks w p cur src st)"
proof (cases "file_state st p")
  case None
  then have "\<And>q s. q \<notin> Q - {p} \<Longrightarrow> file_state st q = Some s \<Longrightarrow> file_ok s"
    using inv by (auto simp: tracker_inv_except_def)
  with inv None show ?thesis unfolding tracker_inv_except_def by (auto simp: recompute_hunks_def)
next
  case (Some s)
  let ?c = "unwrap_or cur Missing"
  let ?fresh = "fresh_hunks w (id_draws st) (drawn st) p (fs_baseline s) ?c src"
  let ?new = "claim_old (fs_hunks s) [] ?fresh"
  let ?s = "s\<lparr>fs_current := ?c, fs_hunks := ?new\<rparr>"
  let ?st = "recompute_hunks w p cur src st"
  have F: "hunks_in (file_states st) p = fs_hunks s" using Some by (rule hunks_in_state)
  have st: "file_states ?st = AList.update p ?s (file_states st)" "id_draws ?st = id_draws st"
      "drawn ?st = drawn st + length ?fresh"
      "turn_index ?st = fold turn_insert ?new (fold (\<lambda>h. turn_remove (h_id h) (source h)) (fs_hunks s) (turn_index st))"
    using Some by (simp_all add: recompute_hunks_def Let_def put_file_def)
  have "index_inv {} ((hunks_in (file_states st))(p := ?new)) (turn_ids (turn_index ?st)) (id_draws st)
          (drawn st + length ?fresh)"
  proof (rule index_inv_recompute [OF _ fresh_hunks_drawn])
    show "index_inv {} (hunks_in (file_states st)) (turn_ids (turn_index st)) (id_draws st) (drawn st)"
      using inv by (simp add: tracker_inv_except_def)
  qed (simp_all add: F turn_ids_def st(4) turn_set_insert_all turn_set_remove_all)
  moreover have "file_ok ?s"
    using fresh_hunks_ok [OF diff, of "fs_baseline s" ?c "id_draws st" "drawn st" p src
        "fs_is_agent_file s" "fs_baseline_accepted s"]
      file_ok_cong [of ?new "s\<lparr>fs_current := ?c, fs_hunks := ?fresh\<rparr>"]
    by (cases s) (simp add: claim_old_shapes)
  then have "file_ok s'" if "q \<notin> Q - {p}" "file_state ?st q = Some s'" for q s'
    using that inv by (auto simp: tracker_inv_except_def file_state_def st(1) AList.update_conv' split: if_splits)
  ultimately show ?thesis
    using inv by (simp add: tracker_inv_except_def st(1-3) hunks_in_update AList.distinct_update)
qed

section \<open>Leaving the turn index\<close>

lemma remove_turn_fields [simp]:
  "file_states (remove_from_turn_index i src st) = file_states st"
  "turn_index (remove_from_turn_index i src st) = turn_remove i src (turn_index st)"
  "id_draws (remove_from_turn_index i src st) = id_draws st"
  "drawn (remove_from_turn_index i src st) = drawn st"
  by (simp_all add: remove_from_turn_index_def)

lemma send_event_fields [simp]:
  "file_states (send_event e st) = file_states st" "turn_index (send_event e st) = turn_index st"
  "id_draws (send_event e st) = id_draws st" "drawn (send_event e st) = drawn st"
  "working_dir (send_event e st) = working_dir st" "disk_ops (send_event e st) = disk_ops st"
  "tk_mode (send_event e st) = tk_mode st" "git_repo (send_event e st) = git_repo st"
  by (simp_all add: send_event_def)

lemma supersede_fields [simp]:
  "file_states (supersede_hunks p hs st) = file_states st"
  "turn_index (supersede_hunks p hs st) = fold (\<lambda>h. turn_remove (h_id h) (source h)) hs (turn_index st)"
  "id_draws (supersede_hunks p hs st) = id_draws st"
  "drawn (supersede_hunks p hs st) = drawn st"
  unfolding supersede_hunks_def by (induction hs arbitrary: st) simp_all

lemma update_stats_fields [simp]:
  "file_states (update_session_stats i a st) = file_states st"
  "turn_index (update_session_stats i a st) = turn_index st"
  "id_draws (update_session_stats i a st) = id_draws st"
  "drawn (update_session_stats i a st) = drawn st"
  "disk_ops (update_session_stats i a st) = disk_ops st"
  by (simp_all add: update_session_stats_def Let_def)

lemma settle_fields [simp]:
  "file_states (fold (settle_hunk a) hs st) = file_states st"
  "turn_index (fold (settle_hunk a) hs st) = fold (\<lambda>h. turn_remove (h_id h) (source h)) hs (turn_index st)"
  "id_draws (fold (settle_hunk a) hs st) = id_draws st"
  "drawn (fold (settle_hunk a) hs st) = drawn st"
  by (induction hs arbitrary: st) (simp_all add: settle_hunk_def)

text \<open>Hunks that are no longer listed can leave their turns.\<close>

lemma inv_supersede:
  assumes inv: "tracker_inv_except {} Q ids n st"
    and gone: "\<And>h p. h \<in> set hs \<Longrightarrow> h_id h \<notin> h_id ` set (hunks_in (file_states st) p)"
  shows "tracker_inv_except {} Q ids n (supersede_hunks q hs st)"
proof -
  have "index_inv {} (hunks_in (file_states st))
          (turn_ids (fold (\<lambda>h. turn_remove (h_id h) (source h)) hs (turn_index st))) (id_draws st) (drawn st)"
  proof (rule index_inv_shrink [where X = "{}" and F = "hunks_in (file_states st)" and T = "turn_ids (turn_index st)"])
    show "h_id h \<in> turn_ids (fold (\<lambda>h. turn_remove (h_id h) (source h)) hs (turn_index st)) k"
      if "h \<in> set (hunks_in (file_states st) p)" "h_id h \<in> turn_ids (turn_index st) k" for p h k
    proof -
      have "h_id h \<noteq> h_id g" if "g \<in> set hs" for g
        using gone [OF that, of p] \<open>h \<in> set (hunks_in (file_states st) p)\<close> by (metis imageI)
      with that(2) show ?thesis by (auto simp: turn_ids_def turn_set_remove_all)
    qed
  qed (use inv in \<open>auto simp: tracker_inv_except_def turn_ids_def turn_set_remove_all intro: filter_True\<close>)
  with inv show ?thesis by (simp add: tracker_inv_except_def file_state_def)
qed

text \<open>Listed hunks that leave their turns are the exceptions of the invariant.\<close>

lemma index_inv_settle:
  assumes inv: "index_inv {} F T ids n" and hs: "set hs \<subseteq> set (F p)"
    and T': "\<And>k. T' k = T k - {h_id h |h. h \<in> set hs \<and> prompt_index (source h) = Some k}"
  shows "index_inv (h_id ` set hs) F T' ids n"
proof (rule index_invI)
  note D = index_invD [OF inv]
  have same: "h = g" if "h \<in> set (F q)" "g \<in> set hs" "h_id h = h_id g" for h g q
  proof -
    have "q = p" using D(2) [of q p] that hs by blast
    with that hs D(1) [of p] show ?thesis by (auto simp: distinct_map inj_on_def)
  qed
  show "h_id h \<in> T' k \<longleftrightarrow> prompt_index (source h) = Some k \<and> h_id h \<notin> h_id ` set hs" if "h \<in> set (F q)" for h q k
    unfolding T' using D(4) [OF that, of k] same [OF that] by force
  show "fst (ids m) \<notin> T' k" if "n \<le> m" for m k unfolding T' using D(7) [OF that, of k] by blast
qed (use index_invD [OF inv] in auto)

lemma inv_settle:
  assumes inv: "tracker_inv_except {} Q ids n st" and hs: "set hs \<subseteq> set (hunks_in (file_states st) p)"
  shows "tracker_inv_except (h_id ` set hs) Q ids n (fold (settle_hunk a) hs st)"
proof -
  have "index_inv (h_id ` set hs) (hunks_in (file_states st))
          (turn_ids (fold (\<lambda>h. turn_remove (h_id h) (source h)) hs (turn_index st))) (id_draws st) (drawn st)"
    by (rule index_inv_settle [where T = "turn_ids (turn_index st)" and F = "hunks_in (file_states st)" and p = p])
      (use inv hs in \<open>simp_all add: tracker_inv_except_def turn_ids_def turn_set_remove_all\<close>)
  with inv show ?thesis by (simp add: tracker_inv_except_def file_state_def)
qed

end
