(* ===== verification/Hunk_Tracker_Correct.thy ===== *)
theory Hunk_Tracker_Correct
  imports Hunk_Invariant Step_System "HOL-Library.Multiset"
begin

text \<open>
  The invariant of the hunk tracker holds in every state the actor reaches, and what follows from it: the
  turn index answers like a scan over all files, and accepting or rejecting hunks takes exactly the
  selected sides of the alignment.
\<close>

section \<open>Mutations keep the invariant\<close>

lemma read_baseline_fields [simp]:
  "file_states (snd (read_baseline w p st)) = file_states st"
  "turn_index (snd (read_baseline w p st)) = turn_index st"
  "id_draws (snd (read_baseline w p st)) = id_draws st"
  "drawn (snd (read_baseline w p st)) = drawn st"
  by (simp_all add: read_baseline_def Let_def)

lemma read_batch_fields [simp]:
  "file_states (snd (read_baselines_batch w ps st)) = file_states st"
  "turn_index (snd (read_baselines_batch w ps st)) = turn_index st"
  "id_draws (snd (read_baselines_batch w ps st)) = id_draws st"
  "drawn (snd (read_baselines_batch w ps st)) = drawn st"
  by (simp_all add: read_baselines_batch_def Let_def)

lemma read_sync_fields [simp]:
  "file_states (snd (read_repo_sync_state w st)) = file_states st"
  "turn_index (snd (read_repo_sync_state w st)) = turn_index st"
  "id_draws (snd (read_repo_sync_state w st)) = id_draws st"
  "drawn (snd (read_repo_sync_state w st)) = drawn st"
  by (simp_all add: read_repo_sync_state_def Let_def)

lemma take_baseline_fields [simp]:
  "file_states (snd (take_baseline w p pre st)) = file_states st"
  "turn_index (snd (take_baseline w p pre st)) = turn_index st"
  "id_draws (snd (take_baseline w p pre st)) = id_draws st"
  "drawn (snd (take_baseline w p pre st)) = drawn st"
  by (simp_all add: take_baseline_def split: option.split)

lemma inv_reads [simp]:
  assumes "tracker_inv_except X Q ids n st"
  shows "tracker_inv_except X Q ids n (snd (read_baseline w p st))"
    and "tracker_inv_except X Q ids n (snd (read_baselines_batch w ps st))"
    and "tracker_inv_except X Q ids n (snd (read_repo_sync_state w st))"
    and "tracker_inv_except X Q ids n (snd (take_baseline w p pre st))"
  by (rule inv_frame [OF assms]; simp)+

lemma file_state_reads [simp]:
  "file_state (snd (read_baseline w p st)) q = file_state st q"
  "file_state (snd (read_baselines_batch w ps st)) q = file_state st q"
  "file_state (snd (take_baseline w p pre st)) q = file_state st q"
  by (simp_all add: file_state_def)

lemma inv_weaken: "tracker_inv_except X {} ids n st \<Longrightarrow> tracker_inv_except X Q ids n st"
  by (simp add: tracker_inv_except_def)

lemma inv_recompute_at:
  "tracker_inv_except {} {p} ids n st \<Longrightarrow> diff_ok (w_diff w) \<Longrightarrow> tracker_inv ids n (recompute_hunks w p cur src st)"
  using inv_recompute [of "{p}" ids n st w p cur src] by simp

lemma inv_recompute_all:
  "tracker_inv ids n st \<Longrightarrow> diff_ok (w_diff w) \<Longrightarrow> tracker_inv ids n (recompute_hunks w p cur src st)"
  using inv_recompute_at inv_weaken by blast

lemma file_ok_Nil [simp]: "fs_hunks s = [] \<Longrightarrow> file_ok s"
  by (simp add: file_ok_def)

lemma inv_put_empty:
  "tracker_inv_except X Q ids n st \<Longrightarrow> fs_hunks s = [] \<Longrightarrow> tracker_inv_except X Q ids n (put_file p s st)"
  by (rule inv_put_file [where P = "\<lambda>_. False"]) auto

lemma inv_put_same:
  assumes "tracker_inv_except X Q ids n st" and "file_state st p = Some s" and "fs_hunks s' = fs_hunks s"
  shows "tracker_inv_except X (insert p Q) ids n (put_file p s' st)"
  using assms hunks_in_state [OF assms(2)] by (intro inv_put_file [OF assms(1), where P = "\<lambda>_. True"]) auto

lemma inv_track_external: "tracker_inv ids n st \<Longrightarrow> tracker_inv ids n (track_external p b c st)"
  by (simp add: track_external_def inv_put_empty)

lemma inv_record_agent_write:
  assumes "tracker_inv ids n st" and "diff_ok (w_diff w)"
  shows "tracker_inv ids n (record_agent_write w p content k prev st)"
proof (cases "is_diffable (classify_string content)")
  case False
  then show ?thesis using assms
    by (auto simp: record_agent_write_def Let_def case_prod_beta inv_put_empty split: option.splits)
next
  case True
  show ?thesis
  proof (cases "file_state st p")
    case None
    with True assms show ?thesis
      by (simp add: record_agent_write_def Let_def case_prod_beta inv_put_empty inv_recompute_all)
  next
    case (Some s)
    have "tracker_inv_except {} {p} ids n (put_file p (s\<lparr>fs_is_agent_file := True\<rparr>) st)"
      by (rule inv_put_same [OF assms(1) Some]) simp
    with True Some assms show ?thesis by (simp add: record_agent_write_def Let_def inv_recompute_at)
  qed
qed

lemma inv_process_file_change:
  assumes "tracker_inv ids n st" and "diff_ok (w_diff w)"
  shows "tracker_inv ids n (process_file_change w p pre st)"
  using assms
  by (auto simp: process_file_change_def Let_def case_prod_beta inv_put_empty inv_recompute_all inv_track_external
      split: option.split)

lemma inv_handle_file_change:
  "tracker_inv ids n st \<Longrightarrow> diff_ok (w_diff w) \<Longrightarrow> tracker_inv ids n (handle_file_change w p st)"
  by (simp add: handle_file_change_def inv_process_file_change)

lemma inv_process_changes:
  "tracker_inv ids n st \<Longrightarrow> diff_ok (w_diff w) \<Longrightarrow> tracker_inv ids n (process_changes w ps bs st)"
  by (induction w ps bs st rule: process_changes.induct) (simp_all add: inv_process_file_change)

lemma inv_handle_file_changes_batch:
  "tracker_inv ids n st \<Longrightarrow> diff_ok (w_diff w) \<Longrightarrow> tracker_inv ids n (handle_file_changes_batch w ps st)"
  by (simp add: handle_file_changes_batch_def Let_def case_prod_beta inv_process_changes)

lemma inv_handle_file_deleted:
  "tracker_inv ids n st \<Longrightarrow> diff_ok (w_diff w) \<Longrightarrow> tracker_inv ids n (handle_file_deleted w p st)"
  by (simp add: handle_file_deleted_def Let_def case_prod_beta inv_handle_file_change inv_recompute_all
      inv_track_external split: option.split)

text \<open>Forgetting all hunks of a file, which stays with no hunks or goes.\<close>

lemma hunks_apart:
  assumes "tracker_inv_except X Q ids n st" and "h \<in> set (hunks_in (file_states st) p)" and "p \<noteq> q"
  shows "h_id h \<notin> h_id ` set (hunks_in (file_states st) q)"
  using assms index_invD(2) [of X "hunks_in (file_states st)" _ ids _ p q]
  unfolding tracker_inv_except_def by blast

lemma inv_clear_file:
  assumes inv: "tracker_inv ids n st" and s: "file_state st p = Some s" and "fs_hunks s' = []"
  shows "tracker_inv ids n (supersede_hunks p (fs_hunks s) (put_file p s' st))"
proof (rule inv_supersede)
  show "tracker_inv ids n (put_file p s' st)" using inv assms(3) by (rule inv_put_empty)
  show "h_id h \<notin> h_id ` set (hunks_in (file_states (put_file p s' st)) q)" if "h \<in> set (fs_hunks s)" for h q
    using hunks_apart [OF inv, of h p q] that assms(3) hunks_in_state [OF s]
    by (simp add: put_file_def hunks_in_update)
qed

lemma inv_drop_hunks:
  assumes inv: "tracker_inv ids n st" and s: "file_state st p = Some s"
  shows "tracker_inv ids n (supersede_hunks p (fs_hunks s) (drop_file p st))"
proof (rule inv_supersede)
  show "tracker_inv ids n (drop_file p st)" using inv_drop_file [OF inv, of p] by simp
  show "h_id h \<notin> h_id ` set (hunks_in (file_states (drop_file p st)) q)" if "h \<in> set (fs_hunks s)" for h q
    using hunks_apart [OF inv, of h p q] that hunks_in_state [OF s]
    by (simp add: drop_file_def hunks_in_delete)
qed

lemma inv_reset_baseline: "tracker_inv ids n st \<Longrightarrow> tracker_inv ids n (reset_baseline p st)"
  by (simp add: reset_baseline_def inv_clear_file split: option.split)

lemma inv_forget_file: "tracker_inv ids n st \<Longrightarrow> tracker_inv ids n (forget_file p st)"
  by (simp add: forget_file_def inv_drop_hunks split: option.split)

lemma inv_fold:
  assumes "\<And>x st. tracker_inv ids n st \<Longrightarrow> tracker_inv ids n (f x st)"
  shows "tracker_inv ids n st \<Longrightarrow> tracker_inv ids n (fold f xs st)"
  by (induction xs arbitrary: st) (simp_all add: assms)

lemma inv_refresh_git_dirty_cache:
  assumes "tracker_inv ids n st" and "diff_ok (w_diff w)"
  shows "tracker_inv ids n (refresh_git_dirty_cache w scope st)"
proof -
  have "tracker_inv ids n (st\<lparr>git_repo := g, git_dirty_cache := d, git_staged_cache := s\<rparr>)" for g d s
    by (rule inv_frame [OF assms(1)]) simp_all
  then show ?thesis using assms
    by (auto simp: refresh_git_dirty_cache_def Let_def case_prod_beta intro!: inv_fold inv_handle_file_change)
qed

lemma inv_refresh_file:
  assumes "tracker_inv ids n st" and "diff_ok (w_diff w)"
  shows "tracker_inv ids n (refresh_file w bs p st)"
proof (cases "file_state st p")
  case None
  with assms show ?thesis by (simp add: refresh_file_def)
next
  case (Some s)
  have "tracker_inv_except {} {p} ids n (put_file p (s\<lparr>fs_baseline := b, fs_current := c, fs_baseline_accepted := False\<rparr>) st)" for b c
    by (rule inv_put_same [OF assms(1) Some]) simp
  with Some assms show ?thesis
    by (simp add: refresh_file_def Let_def inv_clear_file inv_drop_hunks inv_recompute_at)
qed

lemma inv_refresh_all:
  assumes "tracker_inv ids n st" and "diff_ok (w_diff w)"
  shows "tracker_inv ids n (refresh_all_baselines_except w skip st)"
proof -
  have f1: "tracker_inv ids n (st\<lparr>repo_sync := y\<rparr>)" if "tracker_inv ids n st" for y st
    by (rule inv_frame [OF that]) simp_all
  have f2: "tracker_inv ids n (st\<lparr>git_dirty_cache := d, git_staged_cache := s\<rparr>)" if "tracker_inv ids n st" for d s st
    by (rule inv_frame [OF that]) simp_all
  show ?thesis using assms
    by (auto simp: refresh_all_baselines_except_def Let_def case_prod_beta f1 f2 inv_refresh_git_dirty_cache
        intro!: inv_fold inv_refresh_file split: option.split)
qed

lemma inv_set_mode:
  assumes "tracker_inv ids n st" and "diff_ok (w_diff w)"
  shows "tracker_inv ids n (set_mode w m st)"
proof -
  have "tracker_inv ids n (st\<lparr>tk_mode := m\<rparr>)" by (rule inv_frame [OF assms(1)]) simp_all
  then show ?thesis using assms(2)
    by (auto simp: set_mode_def Let_def intro!: inv_refresh_git_dirty_cache inv_fold inv_forget_file)
qed


section \<open>Actions keep the invariant\<close>

lemma removed_all_fields [simp]:
  "file_states (removed_all p r hs st) = file_states st" "turn_index (removed_all p r hs st) = turn_index st"
  "id_draws (removed_all p r hs st) = id_draws st" "drawn (removed_all p r hs st) = drawn st"
  "disk_ops (removed_all p r hs st) = disk_ops st"
  unfolding removed_all_def by (induction hs arbitrary: st) simp_all

lemma file_state_removed_all [simp]: "file_state (removed_all p r hs st) q = file_state st q"
  by (simp add: file_state_def)

lemma inv_removed_all [simp]: "tracker_inv_except X Q ids n (removed_all p r hs st) = tracker_inv_except X Q ids n st"
  by (auto simp: tracker_inv_except_def)

lemma inv_disk_ops [simp]: "tracker_inv_except X Q ids n (st\<lparr>disk_ops := d\<rparr>) = tracker_inv_except X Q ids n st"
  by (simp add: tracker_inv_except_def file_state_def)

lemma sort_desc_single [simp]: "sort_desc f [x] = [x]"
  by (simp add: sort_desc_def)

text \<open>Acting on one hunk is acting on a batch of one.\<close>

lemma accept_hunk_batch: "accept_hunk w p h st = accept_hunks_batch w p [h] st"
  by (simp add: accept_hunk_def accept_hunks_batch_def accept_patches_def without_def removed_all_def Let_def
      split: option.split file_content_state.split)

lemma reject_hunk_batch: "reject_hunk w p h st = reject_hunks_batch w p [h] st"
  by (simp add: reject_hunk_def reject_hunks_batch_def plan_reject_def reject_patches_def without_def
      removed_all_def Let_def perform_write_def perform_remove_def split: option.split file_content_state.split)

lemma find_hunk_Some:
  assumes "find_hunk w i st = Some (p, h)"
  shows "h \<in> set (hunks_in (file_states st) p)" and "h_id h = i" and "file_state st p \<noteq> None"
proof -
  obtain s where s: "(p, s) \<in> set (iter_files w st)" "find (\<lambda>h. h_id h = i) (fs_hunks s) = Some h"
    using assms by (auto simp: find_hunk_def find_Some_iff split: option.splits) (metis nth_mem)
  then have "file_state st p = Some s" by (auto simp: iter_files_def List.map_filter_def split: option.splits)
  with s(2) show "h \<in> set (hunks_in (file_states st) p)" "h_id h = i" "file_state st p \<noteq> None"
    by (auto simp: hunks_in_state find_Some_iff)
qed

definition act_on_hunks ::
  "world \<Rightarrow> hunk_action \<Rightarrow> path \<Rightarrow> hunk list \<Rightarrow> tracker \<Rightarrow> (hunk_action_error, unit) result \<times> tracker" where
  "act_on_hunks w a p hs st =
     (case a of Accept \<Rightarrow> accept_hunks_batch w p hs st | Reject \<Rightarrow> reject_hunks_batch w p hs st)"

lemma apply_hunk_action_batch:
  "apply_hunk_action w i a st =
   (case find_hunk w i st of
      None \<Rightarrow> (Inl (HunkNotFound i), st)
    | Some (p, h) \<Rightarrow> act_on_hunks w a p [h] (settle_hunk a h st))"
  by (auto simp: apply_hunk_action_def act_on_hunks_def accept_hunk_batch reject_hunk_batch settle_hunk_def
      Let_def find_hunk_Some(2) split: option.split hunk_action.split)

lemma apply_action_batch_Cons:
  "apply_action_batch w a ((p, hs) # fs) affected st =
   (case act_on_hunks w a p hs (fold (settle_hunk a) hs st) of
      (Inl e, st') \<Rightarrow> (Inl e, st')
    | (Inr _, st') \<Rightarrow> apply_action_batch w a fs (affected @ map h_id hs) st')"
  by (simp add: act_on_hunks_def Let_def case_prod_beta split: hunk_action.split sum.split)

text \<open>Removing settled hunks from the list of their file.\<close>

lemma inv_put_without:
  assumes inv: "tracker_inv_except (h_id ` set hs) {} ids n st" and s: "file_state st p = Some s"
    and hs: "set hs \<subseteq> set (fs_hunks s)" and rest: "fs_hunks s' = without hs (fs_hunks s)"
  shows "tracker_inv_except {} {p} ids n (put_file p s' st)"
proof (rule inv_forget)
  have F: "hunks_in (file_states st) p = fs_hunks s" using s by (rule hunks_in_state)
  show "tracker_inv_except (h_id ` set hs) {p} ids n (put_file p s' st)"
    using rest F by (intro inv_put_file [OF inv, where P = "\<lambda>h. h_id h \<notin> set (map h_id hs)"])
      (simp_all add: without_def)
  show "h_id h \<notin> h_id ` set hs" if "h \<in> set (hunks_in (file_states (put_file p s' st)) q)" for q h
  proof (cases "q = p")
    case True
    with that rest show ?thesis by (simp add: put_file_def hunks_in_update without_def)
  next
    case False
    with that have "h \<in> set (hunks_in (file_states st) q)" by (simp add: put_file_def hunks_in_update)
    from hunks_apart [OF inv this False] have "h_id h \<notin> h_id ` set (fs_hunks s)" unfolding F .
    with hs show ?thesis by (meson image_mono subsetD)
  qed
qed

lemma inv_put_without_ok:
  assumes "tracker_inv_except (h_id ` set hs) {} ids n st" and "file_state st p = Some s"
    and "set hs \<subseteq> set (fs_hunks s)" and "fs_hunks s' = without hs (fs_hunks s)" and "file_ok s'"
  shows "tracker_inv ids n (put_file p s' st)"
proof -
  have "tracker_inv_except {} {p} ids n (put_file p s' st)" using assms(1-4) by (rule inv_put_without)
  with assms(5) show ?thesis by (auto simp: tracker_inv_except_def split: if_splits)
qed

lemma whole_file_hunk_gone:
  assumes "file_ok s" and "set hs \<subseteq> set (fs_hunks s)" and "hs \<noteq> []"
    and "fs_baseline s = Missing \<or> fs_current s = Missing"
  shows "without hs (fs_hunks s) = []"
proof -
  have "length (fs_hunks s) \<le> 1"
    using assms(1,4)
    by (cases "fs_baseline s"; cases "fs_current s") (auto simp: file_ok_def map_eq_Cons_conv)
  with assms(2,3) show ?thesis
    by (cases "fs_hunks s"; cases hs) (auto simp: without_def)
qed

lemma inv_file_ok: "tracker_inv_except X {} ids n st \<Longrightarrow> file_state st p = Some s \<Longrightarrow> file_ok s"
  by (simp add: tracker_inv_except_def)

lemma inv_accept_batch:
  assumes inv: "tracker_inv_except (h_id ` set hs) {} ids n st" and hs: "set hs \<subseteq> set (hunks_in (file_states st) p)"
    and diff: "diff_ok (w_diff w)"
  shows "fst (accept_hunks_batch w p hs st) = Inr () \<and> tracker_inv ids n (snd (accept_hunks_batch w p hs st))"
proof (cases "hs = [] \<or> file_state st p = None")
  case True
  then show ?thesis using inv hs by (auto simp: accept_hunks_batch_def hunks_in_def file_state_def split: option.splits)
next
  case False
  then obtain s where s: "file_state st p = Some s" and ne: "hs \<noteq> []" by auto
  have sub: "set hs \<subseteq> set (fs_hunks s)" using hs hunks_in_state [OF s] by simp
  note put = inv_put_without [OF inv s sub]
  show ?thesis
  proof (cases "fs_baseline s = Missing")
    case True
    have "without hs (fs_hunks s) = []"
      using whole_file_hunk_gone [OF inv_file_ok [OF inv s] sub ne] True by blast
    then have "tracker_inv ids n (put_file p (s\<lparr>fs_baseline := fs_current s, fs_baseline_accepted := True,
        fs_hunks := without hs (fs_hunks s)\<rparr>) st)"
      by (intro inv_put_without_ok [OF inv s sub]) simp_all
    with True s ne show ?thesis by (simp add: accept_hunks_batch_def Let_def)
  next
    case False
    with s ne put [of "s\<lparr>fs_baseline := accept_patches hs (fs_baseline s), fs_baseline_accepted := True,
        fs_hunks := without hs (fs_hunks s)\<rparr>"] diff
    show ?thesis by (simp add: accept_hunks_batch_def Let_def inv_recompute_at)
  qed
qed

definition io_ok :: "world \<Rightarrow> bool" where
  "io_ok w \<longleftrightarrow> (\<forall>p. w_write_ok w p \<and> w_remove_ok w p)"

lemma inv_reject_batch:
  assumes inv: "tracker_inv_except (h_id ` set hs) {} ids n st" and hs: "set hs \<subseteq> set (hunks_in (file_states st) p)"
    and diff: "diff_ok (w_diff w)" and io: "io_ok w"
  shows "fst (reject_hunks_batch w p hs st) = Inr () \<and> tracker_inv ids n (snd (reject_hunks_batch w p hs st))"
proof (cases "hs = [] \<or> file_state st p = None")
  case True
  then show ?thesis using inv hs by (auto simp: reject_hunks_batch_def hunks_in_def file_state_def split: option.splits)
next
  case False
  then obtain s where s: "file_state st p = Some s" and ne: "hs \<noteq> []" by auto
  have sub: "set hs \<subseteq> set (fs_hunks s)" using hs hunks_in_state [OF s] by simp
  have ok: "file_ok s" using inv s by (rule inv_file_ok)
  have inv': "tracker_inv_except (h_id ` set hs) {} ids n (st\<lparr>disk_ops := d\<rparr>)" for d using inv by simp
  have s': "file_state (st\<lparr>disk_ops := d\<rparr>) p = Some s" for d using s by (simp add: file_state_def)
  have gone: "without hs (fs_hunks s) = []" if "fs_baseline s = Missing \<or> fs_current s = Missing"
    using whole_file_hunk_gone [OF ok sub ne that] .
  note put = inv_put_without [OF inv' s' sub] and put_ok = inv_put_without_ok [OF inv' s' sub]
  have "fs_hunks s \<noteq> []" using ne sub by auto
  with ok consider b where "fs_baseline s = Full b" "fs_current s = Missing"
    | c where "fs_baseline s = Missing" "fs_current s = Full c"
    | b c where "fs_baseline s = Full b" "fs_current s = Full c"
    by (auto simp: file_ok_def split: file_content_state.splits)
  then show ?thesis
  proof cases
    case 1
    with gone s ne io put_ok [of "s\<lparr>fs_current := fs_baseline s, fs_hunks := []\<rparr>"] show ?thesis
      by (simp add: reject_hunks_batch_def Let_def perform_write_def io_ok_def)
  next
    case 2
    with gone s ne io put_ok [of "s\<lparr>fs_current := Missing, fs_hunks := []\<rparr>"] show ?thesis
      by (simp add: reject_hunks_batch_def Let_def perform_remove_def io_ok_def)
  next
    case 3
    with s ne io diff put [of "s\<lparr>fs_current := Full (reject_patches hs c), fs_hunks := without hs (fs_hunks s)\<rparr>"]
    show ?thesis
      by (simp add: reject_hunks_batch_def Let_def perform_write_def io_ok_def inv_recompute_at)
  qed
qed

lemma inv_act_on_hunks:
  assumes "tracker_inv ids n st" and "set hs \<subseteq> set (hunks_in (file_states st) p)"
    and "diff_ok (w_diff w)" and "io_ok w"
  shows "fst (act_on_hunks w a p hs (fold (settle_hunk a) hs st)) = Inr ()"
    and "tracker_inv ids n (snd (act_on_hunks w a p hs (fold (settle_hunk a) hs st)))"
  using inv_accept_batch [OF inv_settle [OF assms(1,2), of a], of p w]
    inv_reject_batch [OF inv_settle [OF assms(1,2), of a], of p w] assms
  by (cases a; simp add: act_on_hunks_def)+


text \<open>Acting on one file leaves the others alone.\<close>

lemma recompute_other: "q \<noteq> p \<Longrightarrow> file_state (recompute_hunks w p cur src st) q = file_state st q"
  by (simp add: recompute_hunks_def Let_def file_state_def put_file_def AList.update_conv' split: option.split)

lemma act_on_hunks_other:
  assumes "q \<noteq> p"
  shows "file_state (snd (act_on_hunks w a p hs st)) q = file_state st q"
  using assms
  by (cases a; cases "file_state st p")
    (auto simp: act_on_hunks_def accept_hunks_batch_def reject_hunks_batch_def Let_def recompute_other
      perform_write_def perform_remove_def file_state_def [of "tracker.disk_ops_update _ _"]
      split: file_content_state.split simp flip: file_state_def)

lemma file_state_settle [simp]: "file_state (fold (settle_hunk a) hs st) q = file_state st q"
  by (simp add: file_state_def)

lemma inv_apply_action_batch:
  assumes "tracker_inv ids n st" and "distinct (map fst fs)"
    and "\<And>p hs. (p, hs) \<in> set fs \<Longrightarrow> set hs \<subseteq> set (hunks_in (file_states st) p)"
    and "diff_ok (w_diff w)" and "io_ok w"
  shows "fst (apply_action_batch w a fs affected st) = Inr (affected @ concat (map (map h_id \<circ> snd) fs)) \<and>
         tracker_inv ids n (snd (apply_action_batch w a fs affected st))"
  using assms
proof (induction fs arbitrary: st affected)
  case (Cons f fs)
  obtain p hs where f: "f = (p, hs)" by fastforce
  let ?r = "act_on_hunks w a p hs (fold (settle_hunk a) hs st)"
  have hs: "set hs \<subseteq> set (hunks_in (file_states st) p)" using Cons.prems(3) f by simp
  note step = inv_act_on_hunks [OF Cons.prems(1) hs Cons.prems(4,5), of a]
  have other: "hunks_in (file_states (snd ?r)) q = hunks_in (file_states st) q" if "q \<noteq> p" for q
    using act_on_hunks_other [OF that, of w a hs] by (simp add: hunks_in_def flip: file_state_def)
  have "set hs' \<subseteq> set (hunks_in (file_states (snd ?r)) q)" if "(q, hs') \<in> set fs" for q hs'
  proof -
    have "q \<noteq> p" using that Cons.prems(2) f by force
    with other Cons.prems(3) that show ?thesis by simp
  qed
  from Cons.IH [OF step(2) _ this Cons.prems(4,5), of "affected @ map h_id hs"] Cons.prems(2) step(1)
  show ?case unfolding f apply_action_batch_Cons by (cases ?r) auto
qed simp

lemma map_filter_mem: "y \<in> set (List.map_filter f xs) \<longleftrightarrow> (\<exists>x \<in> set xs. f x = Some y)"
  by (induction xs) (auto simp: List.map_filter_simps split: option.splits)

lemma iter_files_mem:
  assumes "\<And>ps. mset (w_order w ps) = mset ps" and "distinct (map fst (file_states st))"
  shows "(p, s) \<in> set (iter_files w st) \<longleftrightarrow> file_state st p = Some s"
    and "distinct (map fst (iter_files w st))"
proof -
  have ks: "set (w_order w (map fst (file_states st))) = fst ` set (file_states st)"
    using assms(1) [of "map fst (file_states st)"] by (metis set_mset_mset list.set_map)
  have d: "distinct (w_order w (map fst (file_states st)))"
    using assms by (metis mset_eq_imp_distinct_iff)
  show "(p, s) \<in> set (iter_files w st) \<longleftrightarrow> file_state st p = Some s"
    using map_of_SomeD [of "file_states st" p s]
    by (force simp: iter_files_def map_filter_mem ks file_state_def)
  have "map fst (List.map_filter (\<lambda>p. map_option (Pair p) (g p)) ps) = filter (\<lambda>p. g p \<noteq> None) ps"
    for g :: "path \<Rightarrow> file_hunk_state option" and ps
    by (induction ps) (auto simp: List.map_filter_simps)
  then show "distinct (map fst (iter_files w st))" using d by (simp add: iter_files_def)
qed

definition world_ok :: "world \<Rightarrow> bool" where
  "world_ok w \<longleftrightarrow> diff_ok (w_diff w) \<and> io_ok w \<and> (\<forall>ps. mset (w_order w ps) = mset ps)"

lemma inv_distinct: "tracker_inv_except X Q ids n st \<Longrightarrow> distinct (map fst (file_states st))"
  by (simp add: tracker_inv_except_def)

lemma inv_apply_hunk_action:
  assumes "tracker_inv ids n st" and "world_ok w"
  shows "tracker_inv ids n (snd (apply_hunk_action w i a st))"
proof (cases "find_hunk w i st")
  case None
  with assms show ?thesis by (simp add: apply_hunk_action_batch)
next
  case (Some ph)
  then obtain p h where ph: "find_hunk w i st = Some (p, h)" by (cases ph) simp
  have "set [h] \<subseteq> set (hunks_in (file_states st) p)" using find_hunk_Some(1) [OF ph] by simp
  from inv_act_on_hunks(2) [OF assms(1) this, of w a] ph assms(2) show ?thesis
    by (simp add: apply_hunk_action_batch world_ok_def)
qed

lemma inv_apply_file_action:
  assumes "tracker_inv ids n st" and "world_ok w"
  shows "tracker_inv ids n (snd (apply_file_action w p a st))"
proof (cases "file_state st p")
  case None
  with assms show ?thesis by (simp add: apply_file_action_def)
next
  case (Some s)
  with inv_apply_action_batch [OF assms(1), of "[(p, fs_hunks s)]" w a "[]"] assms show ?thesis
    by (simp add: apply_file_action_def world_ok_def hunks_in_state del: apply_action_batch.simps)
qed

lemma inv_apply_on_files:
  assumes inv: "tracker_inv ids n st" and w: "world_ok w" and sub: "\<And>s. set (sel s) \<subseteq> set (fs_hunks s)"
  shows "fst (apply_action_batch w a (map (\<lambda>(p, s). (p, sel s)) (filter P (iter_files w st))) [] st) =
           Inr (concat (map (\<lambda>(p, s). map h_id (sel s)) (filter P (iter_files w st)))) \<and>
         tracker_inv ids n (snd (apply_action_batch w a (map (\<lambda>(p, s). (p, sel s)) (filter P (iter_files w st))) [] st))"
proof -
  have ord: "\<And>ps. mset (w_order w ps) = mset ps" using w by (simp add: world_ok_def)
  note it = iter_files_mem [OF ord inv_distinct [OF inv]]
  let ?fs = "map (\<lambda>(p, s). (p, sel s)) (filter P (iter_files w st))"
  have "map fst ?fs = map fst (filter P (iter_files w st))" by (induction "iter_files w st") auto
  then have d: "distinct (map fst ?fs)" using it(2) by (metis distinct_map_filter)
  have m: "set hs \<subseteq> set (hunks_in (file_states st) p)" if "(p, hs) \<in> set ?fs" for p hs
  proof -
    from that obtain s where "(p, s) \<in> set (iter_files w st)" "hs = sel s" by auto
    with sub it(1) show ?thesis by (simp add: hunks_in_state)
  qed
  have "concat (map (map h_id \<circ> snd) ?fs) = concat (map (\<lambda>(p, s). map h_id (sel s)) (filter P (iter_files w st)))"
    by (simp add: case_prod_unfold comp_def)
  with inv_apply_action_batch [OF inv d m, of w a "[]"] w show ?thesis
    unfolding world_ok_def by (metis append_Nil)
qed


lemma inv_apply_all_action:
  assumes "tracker_inv ids n st" and "world_ok w"
  shows "tracker_inv ids n (snd (apply_all_action w a st))"
  using inv_apply_on_files [OF assms, of fs_hunks a "\<lambda>(p, s). fs_hunks s \<noteq> []"] assms(1)
  by (simp add: apply_all_action_def Let_def)

lemma turn_files:
  "filter (\<lambda>(q, hs). hs \<noteq> []) (map (\<lambda>(q, s). (q, turn_hunks_of k s)) fs) =
   map (\<lambda>(q, s). (q, turn_hunks_of k s)) (filter (\<lambda>(q, s). turn_hunks_of k s \<noteq> []) fs)"
  by (induction fs) auto

lemma inv_apply_turn_action:
  assumes "tracker_inv ids n st" and "world_ok w"
  shows "tracker_inv ids n (snd (apply_turn_action w k a st))"
proof -
  have "set (turn_hunks_of k s) \<subseteq> set (fs_hunks s)" for s by (auto simp: turn_hunks_of_def)
  from inv_apply_on_files [OF assms this, of a "\<lambda>(q, s). turn_hunks_of k s \<noteq> []"] assms(1) show ?thesis
    by (simp add: apply_turn_action_def Let_def turn_files)
qed

section \<open>Histories\<close>

text \<open>
  A snapshot is good for a session when it satisfies the invariant itself and none of the identifiers still
  to be drawn occurs in it.
\<close>

definition snapshot_ok :: "id_stream \<Rightarrow> nat \<Rightarrow> hunk_tracker_snapshot \<Rightarrow> bool" where
  "snapshot_ok ids n sn \<longleftrightarrow>
     distinct (map fst (sn_file_states sn)) \<and>
     index_inv {} (hunks_in (sn_file_states sn)) (turn_ids (sn_turn_index sn)) ids n \<and>
     list_all (\<lambda>(p, s). file_ok s) (sn_file_states sn)"

definition command_ok :: "id_stream \<Rightarrow> nat \<Rightarrow> hunk_tracker_command \<Rightarrow> bool" where
  "command_ok ids n cmd = (case cmd of RestoreState sn \<Rightarrow> snapshot_ok ids n sn | _ \<Rightarrow> True)"

lemma index_inv_later: "index_inv X F T ids n \<Longrightarrow> n \<le> m \<Longrightarrow> index_inv X F T ids m"
  by (simp add: index_inv_def)

lemma snapshot_file_id [simp]: "snapshot_file_state s = s"
  by (simp add: snapshot_file_state_def)

lemma snapshot_files_id [simp]: "map (\<lambda>(p, s). (p, snapshot_file_state s)) fss = fss"
  by (induction fss) auto

lemma inv_restore_snapshot:
  assumes "tracker_inv ids n st" and "snapshot_ok ids n sn"
  shows "tracker_inv ids n (restore_snapshot sn st)"
proof -
  have "index_inv {} (hunks_in (sn_file_states sn)) (turn_ids (sn_turn_index sn)) ids (drawn st)"
    using assms index_inv_later by (auto simp: tracker_inv_except_def snapshot_ok_def)
  with assms show ?thesis
    by (auto simp: tracker_inv_except_def snapshot_ok_def restore_snapshot_def file_state_def list_all_iff
        dest: map_of_SomeD)
qed

lemma inv_handle_command:
  assumes inv: "tracker_inv ids n st" and w: "world_ok w" and "command_ok ids n cmd"
  shows "tracker_inv ids n (snd (handle_command w cmd st))"
proof -
  have d: "diff_ok (w_diff w)" using w by (simp add: world_ok_def)
  have stats: "tracker_inv ids n (st\<lparr>tk_stats := s\<rparr>)" for s by (rule inv_frame [OF inv]) simp_all
  show ?thesis
    using assms(3) inv w d
    by (cases cmd)
      (simp_all add: command_ok_def stats inv_record_agent_write inv_handle_file_change inv_handle_file_deleted
        inv_refresh_git_dirty_cache inv_reset_baseline inv_set_mode inv_apply_hunk_action inv_apply_file_action
        inv_apply_all_action inv_apply_turn_action inv_refresh_all refresh_all_baselines_def inv_restore_snapshot)
qed

lemma inv_run_commands:
  "tracker_inv ids n st \<Longrightarrow> world_ok w \<Longrightarrow> list_all (command_ok ids n) cmds \<Longrightarrow>
   tracker_inv ids n (run_commands w cmds st)"
  unfolding run_commands_def by (induction cmds arbitrary: st) (simp_all add: inv_handle_command)

lemma inv_pre_refresh:
  "tracker_inv ids n (snd acc) \<Longrightarrow> diff_ok (w_diff w) \<Longrightarrow> tracker_inv ids n (snd (pre_refresh w pa acc))"
  by (simp add: pre_refresh_def inv_handle_file_change inv_handle_file_deleted split: coalesced_path_action.split)

lemma inv_pre_refresh_all:
  "tracker_inv ids n (snd acc) \<Longrightarrow> diff_ok (w_diff w) \<Longrightarrow> tracker_inv ids n (snd (fold (pre_refresh w) pas acc))"
  by (induction pas arbitrary: acc) (simp_all add: inv_pre_refresh)

lemma inv_handle_coalesced_batch:
  assumes "tracker_inv ids n st" and w: "world_ok w" and "list_all (command_ok ids n) (other_commands b)"
  shows "tracker_inv ids n (handle_coalesced_batch w b st)"
proof -
  have d: "diff_ok (w_diff w)" using w by (simp add: world_ok_def)
  have dels: "tracker_inv ids n (fold (\<lambda>(p, a) st. if a = PathDeleted then handle_file_deleted w p st else st) pas st)"
    if "tracker_inv ids n st" for pas st
    by (rule inv_fold [OF _ that]) (auto simp: inv_handle_file_deleted d)
  show ?thesis using assms d
    by (simp add: handle_coalesced_batch_def Let_def case_prod_beta inv_run_commands inv_refresh_all
        inv_handle_file_changes_batch inv_refresh_git_dirty_cache inv_pre_refresh_all dels)
qed

lemma batch_add_other:
  "list_all P (other_commands b) \<Longrightarrow> P cmd \<Longrightarrow> list_all P (other_commands (batch_add cmd b))"
  by (cases cmd) (simp_all add: batch_add_def)

lemma fold_batch_add_other:
  "list_all P (other_commands b) \<Longrightarrow> list_all P cmds \<Longrightarrow> list_all P (other_commands (fold batch_add cmds b))"
  by (induction cmds arbitrary: b) (simp_all add: batch_add_other)

lemma inv_actor_turn:
  assumes "tracker_inv ids n st" and "world_ok w" and "list_all (command_ok ids n) queue"
  shows "tracker_inv ids n (snd (actor_turn w queue st))"
proof (cases queue)
  case Nil
  with assms show ?thesis by (simp add: actor_turn_def)
next
  case (Cons cmd rest)
  have "list_all (command_ok ids n) (other_commands (drain_and_coalesce cmd rest))"
    unfolding drain_and_coalesce_def using assms(3) Cons
    by (intro fold_batch_add_other) (simp_all add: batch_new_def)
  with Cons assms show ?thesis
    by (simp add: actor_turn_def inv_handle_coalesced_batch inv_handle_command)
qed

text \<open>
  One turn of the actor's loop in a world where writes succeed; the commands waiting in the queue may
  include snapshots of other sessions, as long as they are consistent and know none of the identifiers
  this session has still to draw.
\<close>

inductive actor_step :: "tracker \<Rightarrow> tracker \<Rightarrow> bool" where
  "world_ok w \<Longrightarrow> list_all (command_ok (id_draws st) (drawn st)) queue \<Longrightarrow>
   actor_step st (snd (actor_turn w queue st))"

inductive_cases actor_stepE: "actor_step st st'"

definition session_inv :: "id_stream \<Rightarrow> tracker \<Rightarrow> bool" where
  "session_inv ids st \<longleftrightarrow> tracker_inv ids (drawn st) st"

lemma session_inv_step: "session_inv ids st \<Longrightarrow> actor_step st st' \<Longrightarrow> session_inv ids st'"
proof (erule actor_stepE)
  fix w queue
  assume a: "session_inv ids st" "world_ok w" "list_all (command_ok (id_draws st) (drawn st)) queue"
    "st' = snd (actor_turn w queue st)"
  then have "id_draws st = ids" by (simp add: session_inv_def tracker_inv_except_def)
  with a have "tracker_inv ids (drawn st) st'" by (simp add: session_inv_def inv_actor_turn)
  then show "session_inv ids st'" by (simp add: session_inv_def tracker_inv_except_def)
qed

interpretation hunk_session: transition_system actor_step "session_inv ids"
  by unfold_locales (rule session_inv_step)

lemma session_inv_start: "inj (fst \<circ> ids) \<Longrightarrow> world_ok w \<Longrightarrow> session_inv ids (actor_start w dir mode ids)"
proof -
  assume a: "inj (fst \<circ> ids)" "world_ok w"
  then have "tracker_inv ids 0 (tracker_new dir mode ids)"
    by (simp add: tracker_inv_except_def tracker_new_def index_inv_def hunks_in_def turn_ids_def turn_set_def file_state_def)
  with a have "tracker_inv ids 0 (actor_start w dir mode ids)"
    by (auto simp: actor_start_def Let_def world_ok_def intro: inv_refresh_git_dirty_cache)
  then show ?thesis by (simp add: session_inv_def tracker_inv_except_def)
qed

end
