(* ===== verification/Hunk_Review.thy ===== *)
theory Hunk_Review
  imports Hunk_Tracker_Correct
begin

text \<open>
  The properties of the hunk tracker: what its answers and its accept and reject actions mean in every
  state of a session, and where the actions fall short.
\<close>

section \<open>Hunks and turns\<close>

definition session_state :: "id_stream \<Rightarrow> tracker \<Rightarrow> bool" where
  "session_state ids st \<longleftrightarrow>
     inj (fst \<circ> ids) \<and> (\<exists>w dir mode. world_ok w \<and> actor_step\<^sup>*\<^sup>* (actor_start w dir mode ids) st)"

lemma session_state_inv: "session_state ids st \<Longrightarrow> tracker_inv ids (drawn st) st"
  unfolding session_state_def session_inv_def [symmetric]
  using hunk_session.steps_inv session_inv_start by blast

lemma hunks_in_mem:
  "h \<in> set (hunks_in (file_states st) p) \<longleftrightarrow> (\<exists>s. file_state st p = Some s \<and> h \<in> set (fs_hunks s))"
  by (cases "file_state st p") (simp_all add: hunks_in_def file_state_def)

lemma inv_turns:
  assumes "tracker_inv_except X Q ids n st" and "h \<in> set (hunks_in (file_states st) p)"
  shows "h_id h \<in> turn_ids (turn_index st) k \<longleftrightarrow> prompt_index (source h) = Some k \<and> h_id h \<notin> X"
proof -
  have "index_inv X (hunks_in (file_states st)) (turn_ids (turn_index st)) ids (drawn st)"
    using assms(1) by (simp add: tracker_inv_except_def)
  from index_invD(4) [OF this assms(2)] show ?thesis .
qed

lemma all_hunks_mem:
  assumes "tracker_inv_except X Q ids n st" and "world_ok w"
  shows "h \<in> set (get_all_hunks w st) \<longleftrightarrow> (\<exists>p. h \<in> set (hunks_in (file_states st) p))"
proof -
  have ord: "\<And>ps. mset (w_order w ps) = mset ps" using assms(2) by (simp add: world_ok_def)
  show ?thesis
    using iter_files_mem(1) [OF ord inv_distinct [OF assms(1)]]
    by (force simp: get_all_hunks_def hunks_in_mem)
qed

lemma inv_same_id:
  assumes "tracker_inv_except X Q ids n st" and "h \<in> set (hunks_in (file_states st) p)"
    and "g \<in> set (hunks_in (file_states st) q)" and "h_id h = h_id g"
  shows "h = g"
proof -
  have "q = p" using hunks_apart [OF assms(1,2), of q] assms(3,4) by force
  moreover have "distinct (map h_id (hunks_in (file_states st) p))"
    using assms(1) index_invD(1) by (auto simp: tracker_inv_except_def)
  ultimately show ?thesis using assms by (auto simp: distinct_map inj_on_def)
qed

lemma get_hunk_Some:
  assumes "tracker_inv_except X Q ids n st" and "world_ok w"
  shows "get_hunk w i st = Some h \<longleftrightarrow> h \<in> set (get_all_hunks w st) \<and> h_id h = i"
proof
  assume "get_hunk w i st = Some h"
  then show "h \<in> set (get_all_hunks w st) \<and> h_id h = i"
    by (auto simp: get_hunk_def find_Some_iff)
next
  assume h: "h \<in> set (get_all_hunks w st) \<and> h_id h = i"
  then obtain g where g: "get_hunk w i st = Some g"
    by (cases "get_hunk w i st") (auto simp: get_hunk_def find_None_iff)
  then have "g \<in> set (get_all_hunks w st)" "h_id g = i" by (auto simp: get_hunk_def find_Some_iff)
  with h have "g = h" using inv_same_id [OF assms(1)] all_hunks_mem [OF assms] by metis
  with g show "get_hunk w i st = Some h" by simp
qed

lemma turn_lookup:
  "set (get_hunks_for_turn w k st) = {h. \<exists>i \<in> turn_ids (turn_index st) k. get_hunk w i st = Some h}"
  by (cases "map_of (turn_index st) k")
    (auto simp: get_hunks_for_turn_def turn_ids_def turn_set_def map_filter_mem)

text \<open>
  In every state a session reaches while writes succeed, looking up a turn in the turn index gives
  exactly the hunks of all files that carry that prompt index, the ones an action on the turn processes.
\<close>

theorem turn_index_equals_scan:
  assumes "session_state ids st" and "world_ok w"
  shows "set (get_hunks_for_turn w k st) = {h \<in> set (get_all_hunks w st). prompt_index (source h) = Some k}"
proof -
  note inv = session_state_inv [OF assms(1)]
  have "h_id h \<in> turn_ids (turn_index st) k \<longleftrightarrow> prompt_index (source h) = Some k"
    if "h \<in> set (get_all_hunks w st)" for h
  proof -
    from that all_hunks_mem [OF inv assms(2)] obtain p where "h \<in> set (hunks_in (file_states st) p)" by blast
    from inv_turns [OF inv this] show ?thesis by simp
  qed
  then show ?thesis by (auto simp: turn_lookup get_hunk_Some [OF inv assms(2)])
qed


section \<open>Accepting and rejecting selected hunks\<close>

lemma region_shapes_edits:
  assumes "map shape_of hs = region_shapes i j rs"
  shows "map (\<lambda>h. (old_start (line_info h), old_count (line_info h), new_text h)) hs = region_edits i rs"
    and "map (\<lambda>h. (new_start (line_info h), new_count (line_info h), unwrap_or (old_text h) [])) hs =
         region_edits j (map swap_region rs)"
  using assms
  by (induction i j rs arbitrary: hs rule: region_shapes.induct)
    (auto simp: map_eq_Cons_conv shape_of_def region_shape_def Cons_eq_map_conv)

lemma region_edits_ge: "(a, r, t) \<in> set (region_edits i rs) \<Longrightarrow> i \<le> a"
  by (induction i rs rule: region_edits.induct) (auto dest: Suc_leD add_leD1)

lemma region_edits_increasing: "separated rs \<Longrightarrow> sorted_wrt (<) (map fst (region_edits i rs))"
proof (induction i rs rule: region_edits.induct)
  case (3 i os ns rs)
  have "i < a" if "(a, r, t) \<in> set (region_edits (i + length os) rs)" for a r t
  proof -
    from 3(2) consider "rs = []" | v rs' where "rs = Same v # rs'"
      by (auto split: list.splits region.splits)
    then show ?thesis
    proof cases
      case 2
      with that region_edits_ge [of a r t "Suc (i + length os)" rs'] show ?thesis by simp
    qed (use that in simp)
  qed
  with 3 show ?case by auto
qed simp_all

lemma separated_swap: "separated (map swap_region rs) = separated rs"
proof (induction rs rule: separated.induct)
  case (3 os ns rs)
  then show ?case by (cases rs) (auto split: region.splits simp: swap_region.simps elim: swap_region.elims)
qed simp_all

lemma keep_sorted: "sorted_wrt P xs \<Longrightarrow> sorted_wrt P (keep sel xs)"
proof (induction sel xs rule: keep.induct)
  case (1 b sel x xs)
  have "set (keep sel xs) \<subseteq> set xs" by (induction sel xs rule: keep.induct) auto
  with 1 show ?case by auto
qed simp_all

lemma keep_subset: "set (keep sel xs) \<subseteq> set xs"
  by (induction sel xs rule: keep.induct) auto

lemma sort_desc_increasing: "sorted_wrt (<) (map f xs) \<Longrightarrow> sort_desc f xs = rev xs"
proof -
  assume s: "sorted_wrt (<) (map f xs)"
  then have "inj_on f (set (rev xs))" "sorted (map f xs)"
    by (auto simp: distinct_map dest: strict_sorted_imp_sorted strict_sorted_iff [THEN iffD1])
  moreover have "distinct xs" using s by (auto simp: strict_sorted_iff distinct_map)
  ultimately have "sort_key f (rev xs) = xs"
    by (intro sort_key_inj_key_eq) simp_all
  then show ?thesis by (simp add: sort_desc_def)
qed

text \<open>The patch loops are the edits of the selected regions, applied from the end to the start.\<close>

lemma accept_patches_edits:
  assumes "map shape_of hs = region_shapes 1 1 rs" and "separated rs"
  shows "accept_patches (keep sel hs) (Full b) = Full (apply_edits (keep sel (region_edits 1 rs)) b)"
proof -
  let ?e = "\<lambda>h. (old_start (line_info h), old_count (line_info h), new_text h)"
  have e: "map ?e (keep sel hs) = keep sel (region_edits 1 rs)"
    using region_shapes_edits(1) [OF assms(1)] by (simp flip: keep_map)
  have "sorted_wrt (<) (map fst (keep sel (region_edits 1 rs)))"
    using keep_sorted [OF region_edits_increasing [OF assms(2)]] by (simp flip: keep_map)
  then have "sort_desc (\<lambda>h. old_start (line_info h)) (keep sel hs) = rev (keep sel hs)"
    unfolding e [symmetric] by (intro sort_desc_increasing) (simp add: comp_def)
  moreover have "fold (\<lambda>h c. case c of
        Full b \<Rightarrow> Full (patch_lines b (old_start (line_info h)) (old_count (line_info h)) (new_text h))
      | other \<Rightarrow> other) (rev xs) (Full b) = Full (apply_edits (map ?e xs) b)" for xs
    by (induction xs) simp_all
  ultimately show ?thesis unfolding accept_patches_def e [symmetric] by simp
qed

lemma reject_patches_edits:
  assumes "map shape_of hs = region_shapes 1 1 rs" and "separated rs"
  shows "reject_patches (keep sel hs) c = apply_edits (keep sel (region_edits 1 (map swap_region rs))) c"
proof -
  let ?e = "\<lambda>h. (new_start (line_info h), new_count (line_info h), unwrap_or (old_text h) [])"
  have e: "map ?e (keep sel hs) = keep sel (region_edits 1 (map swap_region rs))"
    using region_shapes_edits(2) [OF assms(1)] by (simp flip: keep_map)
  have "separated (map swap_region rs)" using assms(2) by (simp add: separated_swap)
  then have "sorted_wrt (<) (map fst (keep sel (region_edits 1 (map swap_region rs))))"
    using keep_sorted [OF region_edits_increasing] by (simp flip: keep_map)
  then have "sort_desc (\<lambda>h. new_start (line_info h)) (keep sel hs) = rev (keep sel hs)"
    unfolding e [symmetric] by (intro sort_desc_increasing) (simp add: comp_def)
  moreover have "fold (\<lambda>h c. patch_lines c (new_start (line_info h)) (new_count (line_info h)) (unwrap_or (old_text h) []))
      (rev xs) c = apply_edits (map ?e xs) c" for xs
    by (induction xs) simp_all
  ultimately show ?thesis unfolding reject_patches_def e [symmetric] by simp
qed


lemma recompute_file:
  assumes "file_state st p = Some s"
  shows "\<exists>hs. file_state (recompute_hunks w p cur src st) p = Some (s\<lparr>fs_current := unwrap_or cur Missing, fs_hunks := hs\<rparr>)"
    and "disk_ops (recompute_hunks w p cur src st) = disk_ops st"
  using assms by (auto simp: recompute_hunks_def Let_def put_file_def file_state_def AList.update_conv')

lemma settle_disk_ops [simp]: "disk_ops (fold (settle_hunk a) hs st) = disk_ops st"
  by (induction hs arbitrary: st) (simp_all add: settle_hunk_def remove_from_turn_index_def)

lemma put_file_disk_ops [simp]: "disk_ops (put_file p s st) = disk_ops st"
  by (simp add: put_file_def)

declare apply_action_batch.simps(2) [simp del]

lemma apply_one_file:
  "snd (apply_action_batch w a [(p, hs)] affected st) = snd (act_on_hunks w a p hs (fold (settle_hunk a) hs st))"
  by (simp add: apply_action_batch_Cons case_prod_beta split: sum.split prod.split)

lemma accept_result:
  assumes "file_state st p = Some s" and "fs_baseline s = Full b" and "hs \<noteq> []"
    and "accept_patches hs (Full b) = Full t"
  shows "\<exists>s'. file_state (snd (apply_action_batch w Accept [(p, hs)] affected st)) p = Some s' \<and>
              fs_baseline s' = Full t \<and> fs_current s' = fs_current s"
proof -
  let ?s1 = "s\<lparr>fs_baseline := Full t, fs_baseline_accepted := True, fs_hunks := without hs (fs_hunks s)\<rparr>"
  let ?st1 = "send_event (BaselineUpdated p) (removed_all p Accepted hs (put_file p ?s1 (fold (settle_hunk Accept) hs st)))"
  have "snd (apply_action_batch w Accept [(p, hs)] affected st) =
      recompute_hunks w p (Some (fs_current s)) (remaining_source p ?st1) ?st1"
    using assms by (simp add: apply_one_file act_on_hunks_def accept_hunks_batch_def Let_def)
  with recompute_file(1) [of ?st1 p ?s1 w "Some (fs_current s)" "remaining_source p ?st1"] show ?thesis
    by auto
qed

lemma reject_result:
  assumes "file_state st p = Some s" and "fs_baseline s = Full b" and "fs_current s = Full c" and "hs \<noteq> []"
    and "w_write_ok w p" and "reject_patches hs c = t"
  shows "\<exists>s'. file_state (snd (apply_action_batch w Reject [(p, hs)] affected st)) p = Some s' \<and>
              fs_baseline s' = Full b \<and> fs_current s' = Full t"
    and "disk_ops (snd (apply_action_batch w Reject [(p, hs)] affected st)) = disk_ops st @ [WriteFile p t]"
proof -
  let ?s1 = "s\<lparr>fs_current := Full t, fs_hunks := without hs (fs_hunks s)\<rparr>"
  let ?st0 = "fold (settle_hunk Reject) hs st"
  let ?st1 = "removed_all p Rejected hs (put_file p ?s1 (?st0\<lparr>disk_ops := disk_ops ?st0 @ [WriteFile p t]\<rparr>))"
  have r: "snd (apply_action_batch w Reject [(p, hs)] affected st) =
      recompute_hunks w p (Some (Full t)) (remaining_source p ?st1) ?st1"
    using assms
    by (simp add: apply_one_file act_on_hunks_def reject_hunks_batch_def perform_write_def Let_def)
  have f: "file_state ?st1 p = Some ?s1" by simp
  from recompute_file [OF f, of w "Some (Full t)" "remaining_source p ?st1"] assms(2) r
  show "\<exists>s'. file_state (snd (apply_action_batch w Reject [(p, hs)] affected st)) p = Some s' \<and>
              fs_baseline s' = Full b \<and> fs_current s' = Full t"
    and "disk_ops (snd (apply_action_batch w Reject [(p, hs)] affected st)) = disk_ops st @ [WriteFile p t]"
    by auto
qed

lemma unix_regions_ok:
  assumes "unix_text b" "unix_text c" and "tokens_of b (old_side rs)" "tokens_of c (new_side rs)"
  shows "old_side rs = split_inclusive b" "new_side rs = split_inclusive c" "list_all region_ok rs"
  using assms unix_text_pieces [of b] unix_text_pieces [of c]
  by (auto simp: tokens_of_def unix_text_def region_ok_sides)

lemma selected_result:
  assumes sep: "separated rs" and "unix_text b" "unix_text c"
    and t: "tokens_of b (old_side rs)" "tokens_of c (new_side rs)"
    and shapes: "map shape_of hs = region_shapes 1 1 rs" and blank: "common rs \<noteq> [[nl]]"
  shows "b \<noteq> [] \<Longrightarrow> take_sides sel rs \<noteq> [[nl]] \<Longrightarrow>
         accept_patches (keep sel hs) (Full b) = Full (concat (take_sides sel rs))"
    and "c \<noteq> [] \<Longrightarrow> length sel = length hs \<Longrightarrow> take_sides (map Not sel) rs \<noteq> [[nl]] \<Longrightarrow>
         reject_patches (keep sel hs) c = concat (take_sides (map Not sel) rs)"
proof -
  note ok = unix_regions_ok [OF assms(2,3) t]
  have b: "concat (old_side rs) = b" and c: "concat (new_side rs) = c" using ok by simp_all
  show "accept_patches (keep sel hs) (Full b) = Full (concat (take_sides sel rs))"
    if "b \<noteq> []" "take_sides sel rs \<noteq> [[nl]]"
    using apply_edits_selected [OF sep ok(3) _ blank that(2)] that(1) ok(1) b
    by (simp add: accept_patches_edits [OF shapes sep])
  assume a: "c \<noteq> []" "length sel = length hs" "take_sides (map Not sel) rs \<noteq> [[nl]]"
  have "length hs = length (filter (\<lambda>r. \<exists>os ns. r = Changed os ns) rs)"
    using arg_cong [OF shapes, where f = length] by (simp add: length_region_shapes)
  then have sw: "take_sides sel (map swap_region rs) = take_sides (map Not sel) rs"
    using a(2) by (intro take_sides_swap) simp
  have "list_all region_ok (map swap_region rs)" using ok(3) by (simp add: region_ok_sides)
  from apply_edits_selected [of "map swap_region rs" sel] this sep a blank ok(2) c sw
  show "reject_patches (keep sel hs) c = concat (take_sides (map Not sel) rs)"
    by (simp add: reject_patches_edits [OF shapes sep] separated_swap)
qed

text \<open>
  C5. In every state of a session, with a disk whose writes succeed, for a file whose baseline and current
  content are texts of whole lines without carriage returns, the listed hunks are the changed regions of
  one line alignment of the two. For any nonempty selection of them, accepting it turns a nonempty baseline
  into the text with the new side of the selected regions and the old side of the others; rejecting it
  writes to disk, and keeps as current, for a nonempty current text, the text with the old side of the
  selected regions and the new side of the others. Selecting everything gives the other text. Both need
  that neither the result nor the part common to both texts is one single blank line, on which, as on
  empty texts, the patching loses the final newline.
\<close>

theorem selected_hunks_exact:
  assumes "session_state ids st" and "world_ok w" and "file_state st p = Some s"
    and "fs_baseline s = Full b" and "fs_current s = Full c" and "fs_hunks s \<noteq> []"
    and "unix_text b" and "unix_text c"
  shows "\<exists>rs. old_side rs = split_inclusive b \<and> new_side rs = split_inclusive c \<and> separated rs \<and>
    map shape_of (fs_hunks s) = region_shapes 1 1 rs \<and>
    take_sides (replicate (length (fs_hunks s)) True) rs = split_inclusive c \<and>
    take_sides (replicate (length (fs_hunks s)) False) rs = split_inclusive b \<and>
    (\<forall>sel. length sel = length (fs_hunks s) \<and> keep sel (fs_hunks s) \<noteq> [] \<and> common rs \<noteq> [[nl]] \<longrightarrow>
      (b \<noteq> [] \<and> take_sides sel rs \<noteq> [[nl]] \<longrightarrow>
        (\<exists>s'. file_state (snd (apply_action_batch w Accept [(p, keep sel (fs_hunks s))] [] st)) p = Some s' \<and>
              fs_baseline s' = Full (concat (take_sides sel rs)) \<and> fs_current s' = Full c)) \<and>
      (c \<noteq> [] \<and> take_sides (map Not sel) rs \<noteq> [[nl]] \<longrightarrow>
        (\<exists>s'. file_state (snd (apply_action_batch w Reject [(p, keep sel (fs_hunks s))] [] st)) p = Some s' \<and>
              fs_baseline s' = Full b \<and> fs_current s' = Full (concat (take_sides (map Not sel) rs))) \<and>
        disk_ops (snd (apply_action_batch w Reject [(p, keep sel (fs_hunks s))] [] st)) =
          disk_ops st @ [WriteFile p (concat (take_sides (map Not sel) rs))]))"
proof -
  from inv_file_ok [OF session_state_inv [OF assms(1)] assms(3)] assms(4-6)
  obtain cs where t: "tokens_of b (old_lines_of cs)" "tokens_of c (new_lines_of cs)"
    and sh: "map shape_of (fs_hunks s) = region_shapes 1 1 (regions cs)"
    by (auto simp: file_ok_def aligned_def)
  let ?rs = "regions cs"
  have t': "tokens_of b (old_side ?rs)" "tokens_of c (new_side ?rs)" using t by (simp_all add: side_regions)
  note ok = unix_regions_ok [OF assms(7,8) t'] and sel = selected_result [OF separated_regions assms(7,8) t' sh]
  have n: "length (fs_hunks s) = length (filter (\<lambda>r. \<exists>os ns. r = Changed os ns) ?rs)"
    using arg_cong [OF sh, where f = length] by (simp add: length_region_shapes)
  have io: "w_write_ok w p" using assms(2) by (simp add: world_ok_def io_ok_def)
  show ?thesis
    using ok(1,2) sh separated_regions take_sides_all [OF n] take_sides_none
      accept_result [OF assms(3,4)] reject_result [OF assms(3,4,5) _ io] sel assms(5)
    by (intro exI [of _ ?rs]) simp
qed


section \<open>A session for the witnesses\<close>

text \<open>
  A diff that replaces everything, a directory outside git, and an agent write that changes the only line
  of a file.
\<close>

definition replace_diff :: line_diff where
  "replace_diff b c = Some (map (Pair ChangeDelete) (split_inclusive b) @ map (Pair ChangeInsert) (split_inclusive c))"

definition plain_world :: world where
  "plain_world =
     \<lparr>w_diff = replace_diff, w_order = (\<lambda>ps. ps), w_file = (\<lambda>_. None), w_exists = (\<lambda>_. False),
      w_is_dir = (\<lambda>_. False), w_write_ok = (\<lambda>_. True), w_remove_ok = (\<lambda>_. True), w_tasks_ok = True,
      w_canonicalize = (\<lambda>_. None), w_discover = (\<lambda>_. None), w_index_len = None, w_status = (\<lambda>_. None),
      w_head_oid = None, w_index_mtime = None, w_head_tree = None\<rparr>"

definition count_ids :: id_stream where
  "count_ids n = (replicate n (CHR ''a''), 0)"

definition line_a :: string where "line_a = [CHR ''a'', nl]"
definition line_b :: string where "line_b = [CHR ''b'', nl]"

definition one_hunk :: hunk where
  "one_hunk = \<lparr>h_id = [], h_path = [''f''],
     line_info = \<lparr>old_start = 1, old_count = 1, new_start = 1, new_count = 1\<rparr>,
     source = AgentEdit 0, old_text = Some line_a, new_text = line_b, h_patch = None, created_at = 0, selected = False\<rparr>"

definition written :: tracker where
  "written = snd (actor_turn plain_world [RecordAgentWrite [''f''] line_b 0 (Some line_a)]
               (actor_start plain_world [] AgentOnly count_ids))"

lemma plain_world_ok: "world_ok plain_world"
proof -
  have f: "filter (\<lambda>c. fst c \<noteq> t) (map (Pair u) ls) = (if t = u then [] else map (Pair u) ls)"
    for t u and ls :: "string list"
    by (induction ls) auto
  have "diff_ok replace_diff"
    by (auto simp: diff_ok_def replace_diff_def tokens_of_def old_lines_of_def new_lines_of_def f comp_def)
  then show ?thesis by (simp add: world_ok_def io_ok_def plain_world_def)
qed

lemma count_ids_inj: "inj (fst \<circ> count_ids)"
  by (auto simp: inj_def count_ids_def dest: arg_cong [where f = length])

lemma written_session: "session_state count_ids written"
proof -
  have "actor_step (actor_start plain_world [] AgentOnly count_ids) written"
    unfolding written_def by (rule actor_step.intros) (simp_all add: plain_world_ok command_ok_def)
  then show ?thesis unfolding session_state_def using plain_world_ok count_ids_inj by blast
qed

lemma small_text:
  "classify_string line_a = Full line_a" "classify_string line_b = Full line_b"
  by (simp_all add: classify_string_def line_a_def line_b_def is_lfs_pointer_def LFS_POINTER_PREFIX_def is_binary_def
      MAX_TRACKED_TEXT_BYTES_def nl_cr_value)

lemma one_hunk_computed: "compute_hunks replace_diff count_ids 0 [''f''] line_a line_b (AgentEdit 0) = [one_hunk]"
  by (simp add: compute_hunks_def replace_diff_def walk_changes_def walk_change_def finalize_def get_or_insert_def
      hb_new_def add_old_line_def add_new_line_def hb_build_def line_a_def line_b_def MAX_DIFF_FILE_SIZE_def
      one_hunk_def count_ids_def nl_cr_value)

lemma written_file:
  "file_states written = [([''f''], \<lparr>fs_baseline = Full line_a, fs_current = Full line_b, fs_hunks = [one_hunk],
                                    fs_is_agent_file = True, fs_baseline_accepted = False\<rparr>)]"
  "disk_ops written = []"
proof -
  have b: "read_baseline plain_world [''f''] (tracker_new [] AgentOnly count_ids) =
      (Missing, (tracker_new [] AgentOnly count_ids)\<lparr>git_repo := NotARepo\<rparr>)"
    by (simp add: read_baseline_def tracker_new_def open_or_discover_def plain_world_def cache_discovery_def)
  have m: "find_matching_old_hunk one_hunk [] = None" by (simp add: find_matching_old_hunk_def)
  show "file_states written = [([''f''], \<lparr>fs_baseline = Full line_a, fs_current = Full line_b, fs_hunks = [one_hunk],
                                    fs_is_agent_file = True, fs_baseline_accepted = False\<rparr>)]"
    "disk_ops written = []"
    using b one_hunk_computed
    by (simp_all add: written_def actor_turn_def actor_start_def record_agent_write_def small_text is_diffable_def
        file_state_def put_file_def send_event_def recompute_hunks_def fresh_hunks_def m Let_def plain_world_def
        tracker_new_def [of "[]"])
qed


theorem turn_index_equals_scan_witness:
  "set (get_hunks_for_turn plain_world 0 written) =
     {h \<in> set (get_all_hunks plain_world written). prompt_index (source h) = Some 0} \<and>
   get_all_hunks plain_world written = [one_hunk]"
  using turn_index_equals_scan [OF written_session plain_world_ok, of 0]
  by (simp add: get_all_hunks_def iter_files_def file_state_def written_file plain_world_def List.map_filter_simps)

section \<open>Listed hunks fit the contents\<close>

lemma concat_ids_distinct:
  assumes "distinct (map fst fs)" and "\<And>p s. (p, s) \<in> set fs \<Longrightarrow> F p = fs_hunks s"
    and "index_inv X F T ids n"
  shows "distinct (map h_id (concat (map (\<lambda>(p, s). fs_hunks s) fs)))"
  using assms(1,2)
proof (induction fs)
  case (Cons f fs)
  obtain p s where f: "f = (p, s)" by (cases f)
  have F: "F p = fs_hunks s" using Cons.prems(2) f by simp
  have "h_id ` set (fs_hunks s) \<inter> h_id ` set (fs_hunks s') = {}" if "(q, s') \<in> set fs" for q s'
  proof -
    have "q \<noteq> p" using Cons.prems(1) f that by force
    with index_invD(2) [OF assms(3), of p q] F Cons.prems(2) [of q s'] that show ?thesis by simp
  qed
  then have "h_id ` set (fs_hunks s) \<inter> h_id ` set (concat (map (\<lambda>(p, s). fs_hunks s) fs)) = {}" by fastforce
  with Cons index_invD(1) [OF assms(3), of p] F f show ?case by auto
qed simp

text \<open>
  C11. In every state of a session the hunk ids of all files are distinct, and a file that lists hunks has
  contents they can be applied to: two texts of which the hunks are the changed regions of a line alignment,
  a text whose file was deleted with the one hunk that deletes it, or a new text with the one hunk that creates
  it. So the defensive branches of the actions are never taken.
\<close>

theorem hunks_fit_contents:
  assumes "session_state ids st" and "world_ok w"
  shows "distinct (map h_id (get_all_hunks w st)) \<and>
    (\<forall>p s. file_state st p = Some s \<and> fs_hunks s \<noteq> [] \<longrightarrow>
       list_all (\<lambda>h. h_path h = p) (fs_hunks s) \<and>
       ((\<exists>b c. fs_baseline s = Full b \<and> fs_current s = Full c \<and> aligned b c (fs_hunks s)) \<or>
        (\<exists>b. fs_baseline s = Full b \<and> fs_current s = Missing \<and> map shape_of (fs_hunks s) = [deleted_shape b]) \<or>
        (\<exists>c. fs_baseline s = Missing \<and> fs_current s = Full c \<and> map shape_of (fs_hunks s) = [created_shape c])))"
proof -
  note inv = session_state_inv [OF assms(1)]
  have ord: "\<And>ps. mset (w_order w ps) = mset ps" using assms(2) by (simp add: world_ok_def)
  note it = iter_files_mem [OF ord inv_distinct [OF inv]]
  have ix: "index_inv {} (hunks_in (file_states st)) (turn_ids (turn_index st)) ids (drawn st)"
    using inv by (simp add: tracker_inv_except_def)
  have "distinct (map h_id (get_all_hunks w st))"
    unfolding get_all_hunks_def using it by (intro concat_ids_distinct [OF _ _ ix]) (simp_all add: hunks_in_state)
  moreover have "list_all (\<lambda>h. h_path h = p) (fs_hunks s)" if "file_state st p = Some s" for p s
    using index_invD(3) [OF ix, of _ p] hunks_in_state [OF that] by (simp add: list_all_iff)
  moreover have "(\<exists>b c. fs_baseline s = Full b \<and> fs_current s = Full c \<and> aligned b c (fs_hunks s)) \<or>
        (\<exists>b. fs_baseline s = Full b \<and> fs_current s = Missing \<and> map shape_of (fs_hunks s) = [deleted_shape b]) \<or>
        (\<exists>c. fs_baseline s = Missing \<and> fs_current s = Full c \<and> map shape_of (fs_hunks s) = [created_shape c])"
    if "file_state st p = Some s" "fs_hunks s \<noteq> []" for p s
    using inv_file_ok [OF inv that(1)] that(2) by (auto simp: file_ok_def split: file_content_state.splits)
  ultimately show ?thesis by blast
qed

theorem hunks_fit_contents_witness:
  "distinct (map h_id (get_all_hunks plain_world written)) \<and> aligned line_a line_b [one_hunk]"
proof -
  have "file_state written [''f''] =
      Some \<lparr>fs_baseline = Full line_a, fs_current = Full line_b, fs_hunks = [one_hunk],
            fs_is_agent_file = True, fs_baseline_accepted = False\<rparr>"
    by (simp add: file_state_def written_file)
  with hunks_fit_contents [OF written_session plain_world_ok] show ?thesis by fastforce
qed

section \<open>Failing and lossy actions\<close>

text \<open>
  A rejection whose write fails is half done: the error is returned, nothing is written and the hunk
  stays listed, but it is counted as rejected and has left its turn, so later lookups of the turn miss it.
\<close>

theorem failed_reject_leaves_turn:
  assumes "find_hunk w i st = Some (p, h)" and "file_state st p = Some s"
    and "fs_baseline s = Full b" and "fs_current s = Full c"
    and "\<not> w_write_ok w p" and "prompt_index (source h) = Some k"
  shows "let st' = snd (apply_hunk_action w i Reject st)
         in fst (apply_hunk_action w i Reject st) = Inl (WriteError p) \<and>
            file_states st' = file_states st \<and> disk_ops st' = disk_ops st \<and>
            rejected_hunks (tk_stats st') = sat_usize (rejected_hunks (tk_stats st)) 1 \<and>
            i \<notin> set (turn_set (turn_index st') k) \<and> h \<notin> set (get_hunks_for_turn w k st')"
proof -
  have i: "h_id h = i" using find_hunk_Some(2) [OF assms(1)] .
  let ?st' = "snd (apply_hunk_action w i Reject st)"
  have st': "apply_hunk_action w i Reject st = (Inl (WriteError p), settle_hunk Reject h st)"
    using assms i
    by (simp add: apply_hunk_action_def settle_hunk_def Let_def reject_hunk_def plan_reject_def perform_write_def
        file_state_def)
  have t: "i \<notin> set (turn_set (turn_index ?st') k)"
    using assms(6) i by (simp add: st' settle_hunk_def turn_set_remove)
  then have "h \<notin> set (get_hunks_for_turn w k ?st')"
    using i by (auto simp: turn_lookup turn_ids_def get_hunk_def find_Some_iff)
  with t st' show ?thesis
    by (simp add: settle_hunk_def update_session_stats_def remove_from_turn_index_def Let_def)
qed

definition failing_world :: world where
  "failing_world = plain_world\<lparr>w_write_ok := (\<lambda>_. False)\<rparr>"

theorem failed_reject_leaves_turn_witness:
  "fst (apply_hunk_action failing_world [] Reject written) = Inl (WriteError [''f'']) \<and>
   file_states (snd (apply_hunk_action failing_world [] Reject written)) = file_states written \<and>
   one_hunk \<notin> set (get_hunks_for_turn failing_world 0 (snd (apply_hunk_action failing_world [] Reject written)))"
proof -
  have "find_hunk failing_world [] written = Some ([''f''], one_hunk)"
    by (simp add: find_hunk_def iter_files_def file_state_def written_file failing_world_def plain_world_def
        List.map_filter_simps one_hunk_def)
  from failed_reject_leaves_turn [OF this] show ?thesis
    by (simp add: file_state_def written_file failing_world_def one_hunk_def Let_def)
qed


lemma patch_empty: "unix_text t \<Longrightarrow> patch_lines [] 1 0 t = butlast t"
proof -
  assume u: "unix_text t"
  have "unlines (lines t) = t" using u by (rule unlines_lines)
  then have "join_lines (lines t) = butlast t"
    using join_lines_unlines [of "lines t"] by (cases "lines t = []") (simp, metis butlast_snoc)
  then show ?thesis by (cases "t = []") (simp_all add: patch_lines_def Let_def ends_with_def lines_def)
qed

lemma no_lines: "old_lines_of cs = [] \<Longrightarrow> new_lines_of cs = [] \<Longrightarrow> cs = []"
  by (cases cs) (auto simp: old_lines_of_def new_lines_of_def split: if_splits)

lemma single_region:
  assumes "aligned b c hs" and "b = [] \<or> c = []" and "hs \<noteq> []" and "unix_text b" "unix_text c"
  shows "\<exists>h. hs = [h] \<and> shape_of h = region_shape 1 1 (split_inclusive b) (split_inclusive c)"
    and "b \<noteq> c"
proof -
  from assms(1) obtain cs where t: "tokens_of b (old_lines_of cs)" "tokens_of c (new_lines_of cs)"
    and sh: "map shape_of hs = region_shapes 1 1 (regions cs)"
    by (auto simp: aligned_def)
  then have s: "old_side (regions cs) = split_inclusive b" "new_side (regions cs) = split_inclusive c"
    using assms(4,5) by (simp_all add: side_regions tokens_of_def unix_text_def)
  have "common rs = []" if "old_side rs = [] \<or> new_side rs = []" for rs
    using that by (induction rs rule: common.induct) auto
  with s assms(2) have "common (regions cs) = []" by auto
  with separated_no_common [OF separated_regions] sh assms(3) obtain os ns where "regions cs = [Changed os ns]"
    by (metis list.map_disc_iff region_shapes.simps(1))
  with s sh show "\<exists>h. hs = [h] \<and> shape_of h = region_shape 1 1 (split_inclusive b) (split_inclusive c)"
    by (auto simp: map_eq_Cons_conv)
  have "cs \<noteq> []" using sh assms(3) by auto
  with no_lines s show "b \<noteq> c" using assms(2) by (auto simp: side_regions)
qed

lemma file_action_one:
  assumes "file_state st p = Some s" and "fs_hunks s = [h]"
  shows "snd (apply_file_action w p a st) = snd (apply_action_batch w a [(p, [h])] [] st)"
  using assms by (simp add: apply_file_action_def)

text \<open>
  On a file that was empty, or has been emptied, the final newline is lost. Rejecting the emptying of a
  text writes the baseline without its last newline, and accepting a text written into an empty file makes that
  text without its last newline the baseline, so the file still differs from its baseline.
\<close>

theorem empty_side_loses_newline:
  assumes "session_state ids st" and "file_state st p = Some s" and "fs_hunks s \<noteq> []"
    and "fs_baseline s = Full b" and "fs_current s = Full c" and "unix_text b" and "unix_text c"
  shows "(c = [] \<and> w_write_ok w p \<longrightarrow>
            disk_ops (snd (apply_file_action w p Reject st)) = disk_ops st @ [WriteFile p (butlast b)] \<and> butlast b \<noteq> b) \<and>
         (b = [] \<longrightarrow>
            (\<exists>s'. file_state (snd (apply_file_action w p Accept st)) p = Some s' \<and>
                  fs_baseline s' = Full (butlast c) \<and> fs_current s' = Full c \<and> butlast c \<noteq> c))"
proof -
  have al: "aligned b c (fs_hunks s)"
    using inv_file_ok [OF session_state_inv [OF assms(1)] assms(2)] assms(3-5) by (simp add: file_ok_def)
  have proper: "butlast t \<noteq> t" if "t \<noteq> []" for t :: string
    using that by (metis append_butlast_last_id append_self_conv list.distinct(1))
  show ?thesis
  proof (cases "b = [] \<or> c = []")
    case True
    then obtain h where h: "fs_hunks s = [h]" "shape_of h = region_shape 1 1 (split_inclusive b) (split_inclusive c)"
      and ne: "b \<noteq> c"
      using single_region [OF al _ assms(3,6,7)] by blast
    have rej: "reject_patches [h] c = butlast b" if "c = []"
      using h(2) that ne patch_empty [OF assms(6)]
      by (simp add: reject_patches_def shape_of_def region_shape_def)
    have acc: "accept_patches [h] (Full b) = Full (butlast c)" if "b = []"
      using h(2) that ne patch_empty [OF assms(7)]
      by (simp add: accept_patches_def shape_of_def region_shape_def)
    show ?thesis
      unfolding file_action_one [OF assms(2) h(1)]
      using reject_result(2) [OF assms(2,4,5) _ _ rej, of w "[]"] accept_result [OF assms(2,4) _ acc, of w "[]"]
        proper [of b] proper [of c] ne assms(5)
      by auto
  qed simp
qed


definition emptied :: tracker where
  "emptied = snd (actor_turn plain_world [RecordAgentWrite [''f''] [] 0 (Some line_a)]
               (actor_start plain_world [] AgentOnly count_ids))"

lemma emptied_session: "session_state count_ids emptied"
proof -
  have "actor_step (actor_start plain_world [] AgentOnly count_ids) emptied"
    unfolding emptied_def by (rule actor_step.intros) (simp_all add: plain_world_ok command_ok_def)
  then show ?thesis unfolding session_state_def using plain_world_ok count_ids_inj by blast
qed

lemma emptied_file:
  "\<exists>s. file_state emptied [''f''] = Some s \<and> fs_baseline s = Full line_a \<and> fs_current s = Full [] \<and> fs_hunks s \<noteq> []"
  "disk_ops emptied = []"
proof -
  have b: "read_baseline plain_world [''f''] (tracker_new [] AgentOnly count_ids) =
      (Missing, (tracker_new [] AgentOnly count_ids)\<lparr>git_repo := NotARepo\<rparr>)"
    by (simp add: read_baseline_def tracker_new_def open_or_discover_def plain_world_def cache_discovery_def)
  have e: "classify_string [] = Full []"
    by (simp add: classify_string_def is_lfs_pointer_def LFS_POINTER_PREFIX_def is_binary_def)
  have c: "compute_hunks replace_diff count_ids 0 [''f''] line_a [] (AgentEdit 0) \<noteq> []"
    by (simp add: compute_hunks_def replace_diff_def walk_changes_def walk_change_def finalize_def get_or_insert_def
        hb_new_def add_old_line_def hb_build_def line_a_def MAX_DIFF_FILE_SIZE_def nl_cr_value)
  have n: "claim_old [] [] hs = [] \<longleftrightarrow> hs = []" for hs
    using arg_cong [OF claim_old_shapes [of "[]" "[]" hs], where f = length] by auto
  show "\<exists>s. file_state emptied [''f''] = Some s \<and> fs_baseline s = Full line_a \<and> fs_current s = Full [] \<and> fs_hunks s \<noteq> []"
    "disk_ops emptied = []"
    using b c
    by (simp_all add: emptied_def actor_turn_def actor_start_def record_agent_write_def small_text e is_diffable_def
        file_state_def put_file_def send_event_def recompute_hunks_def fresh_hunks_def n Let_def plain_world_def
        tracker_new_def [of "[]"])
qed

theorem empty_side_loses_newline_witness:
  "disk_ops (snd (apply_file_action plain_world [''f''] Reject emptied)) = [WriteFile [''f''] ''a'']"
proof -
  obtain s where s: "file_state emptied [''f''] = Some s" "fs_baseline s = Full line_a" "fs_current s = Full []"
      "fs_hunks s \<noteq> []"
    using emptied_file(1) by blast
  have "unix_text line_a" "unix_text []" "w_write_ok plain_world [''f'']"
    by (simp_all add: unix_text_def line_a_def ends_with_def plain_world_def nl_cr_value)
  with empty_side_loses_newline [OF emptied_session s(1,4,2,3), where w = plain_world] emptied_file(2) show ?thesis
    by (simp add: line_a_def)
qed

section \<open>Contents and snapshots\<close>

text \<open>A regular file whose size and contents do not change while it is read.\<close>

definition stable_file :: "string \<Rightarrow> disk_file" where
  "stable_file s =
     \<lparr>df_is_symlink = False, df_len = length s, df_open = True, df_read = (\<lambda>n. Some (take n s)),
      df_read_to_end = Some (drop 8000 s)\<rparr>"

text \<open>
  Reading a stable file in bounded steps classifies it exactly as its whole contents would be classified
  in memory, although a large, binary or pointer file is never read completely.
\<close>

theorem bounded_read_classifies: "read_file_bounded (Some (stable_file s)) = classify_bytes s"
proof (cases "length s \<le> 8000")
  case True
  then show ?thesis
    by (simp add: read_file_bounded_def stable_file_def classify_bytes_def Let_def)
next
  case False
  then have lfs: "\<not> is_lfs_pointer s" "\<not> is_lfs_pointer (take 8000 s)"
    by (simp_all add: is_lfs_pointer_def)
  have bin: "is_binary (take 8000 s) = is_binary s"
    using False by (simp add: is_binary_def min_def)
  show ?thesis
    using False lfs bin
    by (simp add: read_file_bounded_def stable_file_def classify_bytes_def Let_def min_def)
qed

lemma collect_map_get: "distinct (map fst kvs) \<Longrightarrow> map_of (collect_map kvs) = map_of kvs"
proof -
  assume d: "distinct (map fst kvs)"
  have "map_of (fold (\<lambda>(k, v) m. AList.update k v m) kvs m) = map_of m ++ map_of (rev kvs)" for m :: "('a \<times> 'b) list"
    by (induction kvs arbitrary: m) (auto simp: AList.update_conv' map_add_upd map_add_def fun_eq_iff split: option.splits)
  moreover have "map_of (rev kvs) = map_of kvs"
    using d by (intro map_of_inject_set [THEN iffD2]) (simp_all flip: rev_map)
  ultimately show ?thesis by (simp add: collect_map_def)
qed


lemma collect_map_keys: "distinct (map fst (collect_map kvs))" "fst ` set (collect_map kvs) = fst ` set kvs"
proof -
  have "distinct (map fst m) \<Longrightarrow> distinct (map fst (fold (\<lambda>(k, v) m. AList.update k v m) kvs m))" for m :: "('a \<times> 'b) list"
    by (induction kvs arbitrary: m) (auto simp: AList.distinct_update)
  then show "distinct (map fst (collect_map kvs))" by (simp add: collect_map_def)
  have "fst ` set (fold (\<lambda>(k, v) m. AList.update k v m) kvs m) = fst ` set m \<union> fst ` set kvs" for m :: "('a \<times> 'b) list"
    by (induction kvs arbitrary: m) (simp_all add: AList.dom_update case_prod_beta)
  then show "fst ` set (collect_map kvs) = fst ` set kvs" by (simp add: collect_map_def)
qed

definition retarget :: "path \<Rightarrow> file_hunk_state \<Rightarrow> file_hunk_state" where
  "retarget t s = s\<lparr>fs_hunks := map (\<lambda>h. h\<lparr>h_path := t\<rparr>) (fs_hunks s)\<rparr>"

lemma retarget_retarget [simp]: "retarget t (retarget u s) = retarget t s"
  by (simp add: retarget_def comp_def)

lemma retarget_same: "\<forall>h \<in> set (fs_hunks s). h_path h = t \<Longrightarrow> retarget t s = s"
proof -
  assume "\<forall>h \<in> set (fs_hunks s). h_path h = t"
  then have "map (\<lambda>h. h\<lparr>h_path := t\<rparr>) (fs_hunks s) = fs_hunks s" by (intro map_idI) auto
  then show ?thesis by (simp add: retarget_def)
qed

definition below :: "path \<Rightarrow> hunk_tracker_snapshot \<Rightarrow> bool" where
  "below a sn \<longleftrightarrow> distinct (map fst (sn_file_states sn)) \<and> (\<forall>p \<in> fst ` set (sn_file_states sn). prefix a p)"

lemma rewrite_entries:
  assumes "\<forall>p \<in> fst ` set fss. prefix a p"
  shows "map (\<lambda>(p, s). let target = unwrap_or (rewrite_single_path p a a b) p
                       in (target, s\<lparr>fs_hunks := map (\<lambda>h. h\<lparr>h_path := target\<rparr>) (fs_hunks s)\<rparr>)) fss =
         map (\<lambda>(p, s). (b @ drop (length a) p, retarget (b @ drop (length a) p) s)) fss"
  using assms by (auto simp: rewrite_single_path_def strip_prefix_def retarget_def Let_def)

lemma map_of_shift:
  assumes "\<forall>p \<in> fst ` set fss. prefix a p"
  shows "map_of (map (\<lambda>(p, s). (b @ drop (length a) p, retarget (b @ drop (length a) p) s)) fss) (b @ r) =
         map_option (retarget (b @ r)) (map_of fss (a @ r))"
  using assms by (induction fss) (auto simp: prefix_def)

lemma rewrite_below:
  assumes "below a sn"
  shows "map_of (sn_file_states (rewrite_paths a a b sn)) (b @ r) =
           map_option (retarget (b @ r)) (map_of (sn_file_states sn) (a @ r))"
    and "below b (rewrite_paths a a b sn)"
proof -
  let ?f = "\<lambda>(p, s). (b @ drop (length a) p, retarget (b @ drop (length a) p) s)"
  have e: "sn_file_states (rewrite_paths a a b sn) = collect_map (map ?f (sn_file_states sn))"
  proof -
    have "\<forall>p \<in> fst ` set (sn_file_states sn). prefix a p" using assms unfolding below_def by blast
    then show ?thesis unfolding rewrite_paths_def by (simp add: rewrite_entries)
  qed
  have "inj_on (\<lambda>p. b @ drop (length a) p) (fst ` set (sn_file_states sn))"
  proof (rule inj_onI)
    fix p q
    assume "p \<in> fst ` set (sn_file_states sn)" "q \<in> fst ` set (sn_file_states sn)"
      and d: "b @ drop (length a) p = b @ drop (length a) q"
    then have "prefix a p" "prefix a q" using assms unfolding below_def by blast+
    with d show "p = q" by (auto simp: prefix_def)
  qed
  then have "distinct (map (\<lambda>p. b @ drop (length a) p) (map fst (sn_file_states sn)))"
    using assms by (subst distinct_map) (auto simp: below_def)
  moreover have "map fst (map ?f (sn_file_states sn)) = map (\<lambda>p. b @ drop (length a) p) (map fst (sn_file_states sn))"
    by (simp add: comp_def case_prod_beta)
  ultimately have d: "distinct (map fst (map ?f (sn_file_states sn)))" by (simp only:)
  show "map_of (sn_file_states (rewrite_paths a a b sn)) (b @ r) =
           map_option (retarget (b @ r)) (map_of (sn_file_states sn) (a @ r))"
    unfolding e collect_map_get [OF d] using assms by (intro map_of_shift) (simp add: below_def)
  show "below b (rewrite_paths a a b sn)"
    unfolding below_def e collect_map_keys(2) using collect_map_keys(1) by (auto simp: image_iff)
qed

lemma snapshot_get:
  assumes "tracker_inv ids n st" and "world_ok w"
  shows "map_of (sn_file_states (take_snapshot w st)) = file_state st"
    and "distinct (map fst (sn_file_states (take_snapshot w st)))"
proof -
  have ord: "\<And>ps. mset (w_order w ps) = mset ps" using assms(2) by (simp add: world_ok_def)
  note it = iter_files_mem [OF ord inv_distinct [OF assms(1)]]
  show "map_of (sn_file_states (take_snapshot w st)) = file_state st"
  proof
    fix p
    show "map_of (sn_file_states (take_snapshot w st)) p = file_state st p"
      using it(1) map_of_eq_Some_iff [OF it(2)] by (cases "file_state st p") (simp_all add: take_snapshot_def, metis option.exhaust)
  qed
  show "distinct (map fst (sn_file_states (take_snapshot w st)))" using it(2) by (simp add: take_snapshot_def)
qed

text \<open>
  C28. A snapshot restored into any tracker brings back every file, the turn index and the counters; moved to
  another directory it brings every file to the corresponding path with its hunks relabelled; and moved there and
  back it is the original again.
\<close>

theorem snapshot_roundtrip:
  assumes "session_state ids st" and "world_ok w" and "\<And>p. file_state st p \<noteq> None \<Longrightarrow> prefix a p"
  shows "let sn = take_snapshot w st; moved = rewrite_paths a a b sn; there = restore_snapshot moved other
         in file_state (restore_snapshot sn other) = file_state st \<and>
            turn_index (restore_snapshot sn other) = turn_index st \<and>
            tk_stats (restore_snapshot sn other) = tk_stats st \<and>
            (\<forall>r. file_state there (b @ r) = map_option (retarget (b @ r)) (file_state st (a @ r))) \<and>
            file_state (restore_snapshot (rewrite_paths b b a moved) other) = file_state st"
proof -
  note inv = session_state_inv [OF assms(1)]
  let ?sn = "take_snapshot w st"
  let ?moved = "rewrite_paths a a b ?sn"
  note g = snapshot_get [OF inv assms(2)]
  have ix: "index_inv {} (hunks_in (file_states st)) (turn_ids (turn_index st)) ids (drawn st)"
    using inv by (simp add: tracker_inv_except_def)
  have "file_state st p \<noteq> None" if "p \<in> fst ` set (sn_file_states ?sn)" for p
    using that g(1) by (metis domIff dom_map_of_conv_image_fst)
  then have bel: "below a ?sn" using g(2) assms(3) by (auto simp: below_def)
  note there = rewrite_below [OF bel, of b] and home = rewrite_below [OF rewrite_below(2) [OF bel, of b], of a]
  have same: "map_option (retarget p) (file_state st p) = file_state st p" for p
  proof (cases "file_state st p")
    case (Some s)
    then have "\<forall>h \<in> set (fs_hunks s). h_path h = p"
      using index_invD(3) [OF ix, of _ p] hunks_in_state by simp
    with Some show ?thesis by (simp add: retarget_same)
  qed simp
  have "map_of (sn_file_states (rewrite_paths b b a ?moved)) p = file_state st p" for p
  proof (cases "prefix a p")
    case True
    then obtain r where "p = a @ r" by (auto simp: prefix_def)
    then show ?thesis using home(1) [of r] there(1) [of r] g(1) same [of "a @ r"] by (simp add: option.map_comp comp_def)
  next
    case False
    then have "p \<notin> fst ` set (sn_file_states (rewrite_paths b b a ?moved))" using home(2) by (auto simp: below_def)
    then have "map_of (sn_file_states (rewrite_paths b b a ?moved)) p = None" by (simp add: map_of_eq_None_iff)
    moreover have "file_state st p = None" using False assms(3) by blast
    ultimately show ?thesis by simp
  qed
  then show ?thesis
    using there(1) g(1)
    by (simp add: Let_def restore_snapshot_def file_state_def fun_eq_iff) (simp add: take_snapshot_def)
qed


theorem snapshot_roundtrip_witness:
  "file_state (restore_snapshot (rewrite_paths [] [] [''x''] (take_snapshot plain_world written)) emptied) [''x'', ''f''] =
     Some \<lparr>fs_baseline = Full line_a, fs_current = Full line_b, fs_hunks = [one_hunk\<lparr>h_path := [''x'', ''f'']\<rparr>],
           fs_is_agent_file = True, fs_baseline_accepted = False\<rparr>"
proof -
  have "\<forall>r. file_state (restore_snapshot (rewrite_paths [] [] [''x''] (take_snapshot plain_world written)) emptied) ([''x''] @ r) =
      map_option (retarget ([''x''] @ r)) (file_state written ([] @ r))"
    using snapshot_roundtrip [OF written_session plain_world_ok, of "[]" "[''x'']" emptied]
    by (simp add: Let_def)
  from spec [OF this, of "[''f'']"] show ?thesis
    by (simp add: file_state_def written_file retarget_def)
qed

theorem selected_hunks_exact_witness:
  "\<exists>rs. old_side rs = split_inclusive line_a \<and> new_side rs = split_inclusive line_b \<and> separated rs \<and>
        map shape_of [one_hunk] = region_shapes 1 1 rs \<and>
        disk_ops (snd (apply_action_batch plain_world Reject [([''f''], [one_hunk])] [] written)) = [WriteFile [''f''] line_a]"
proof -
  have f: "file_state written [''f''] =
      Some \<lparr>fs_baseline = Full line_a, fs_current = Full line_b, fs_hunks = [one_hunk],
            fs_is_agent_file = True, fs_baseline_accepted = False\<rparr>"
    by (simp add: file_state_def written_file)
  have u: "unix_text line_a" "unix_text line_b"
    by (simp_all add: unix_text_def line_a_def line_b_def ends_with_def nl_cr_value)
  have sp: "split_inclusive line_a = [line_a]" "split_inclusive line_b = [line_b]" "line_a \<noteq> [nl]" "line_b \<noteq> [nl]"
      "line_b \<noteq> []" "line_a \<noteq> line_b"
    by (simp_all add: line_a_def line_b_def nl_cr_value)
  have blank: "common rs \<noteq> [[nl]]" if "take_sides [False] rs = [line_a]" for rs
    using common_subseq [of rs "[False]"] that sp(3) by (auto simp: subseq_singleton_left)
  show ?thesis
    using selected_hunks_exact [OF written_session plain_world_ok f, of line_a line_b, simplified, OF u]
  proof (elim exE conjE, goal_cases)
    case (1 rs)
    from 1(7) [rule_format, of "[True]"] 1(1-6) blank [of rs] sp show ?case
      by (intro exI [of _ rs]) (simp add: written_file(2))
  qed
qed


section \<open>Further deviations\<close>

text \<open>An agent write of contents that cannot be diffed clears the hunks of a tracked file silently: no event is sent and the ids stay in the turn index.\<close>

theorem undiffable_write_clears_silently:
  assumes "file_state st p = Some s" and "\<not> is_diffable (classify_string content)"
  shows "let st' = record_agent_write w p content k prev st
         in hunks_in (file_states st') p = [] \<and> turn_index st' = turn_index st \<and> sent_events st' = sent_events st"
  using assms by (simp add: record_agent_write_def Let_def put_file_def hunks_in_update)

text \<open>
  An untracked file whose text in the HEAD was replaced on disk by contents that cannot be diffed is reported as
  deleted: the contents just classified are overwritten by the recomputation.
\<close>

theorem undiffable_replacement_reported_deleted:
  assumes "file_state st p = None" and "tk_mode st = AllDirty"
    and "read_file_bounded (w_file w p) = Binary n" and "b \<noteq> []"
  shows "\<exists>s. file_state (process_file_change w p (Some (Full b)) st) p = Some s \<and>
             fs_current s = Missing \<and> map shape_of (fs_hunks s) = [deleted_shape b]"
proof -
  let ?st = "track_external p (Full b) (Binary n) st"
  have t: "file_state ?st p = Some \<lparr>fs_baseline = Full b, fs_current = Binary n, fs_hunks = [],
      fs_is_agent_file = False, fs_baseline_accepted = False\<rparr>"
    by (simp add: track_external_def)
  have "process_file_change w p (Some (Full b)) st = recompute_hunks w p None External ?st"
    using assms by (simp add: process_file_change_def Let_def is_diffable_def take_baseline_def is_gitignored_def)
  then show ?thesis
    using t assms(4)
    by (simp add: recompute_hunks_def Let_def put_file_def file_state_def AList.update_conv'
        find_matching_old_hunk_def fresh_hunks_def)
qed

text \<open>Patching one line of a text with carriage returns drops them from every line.\<close>

theorem patching_drops_carriage_returns:
  "patch_lines [CHR ''a'', cr, nl, CHR ''b'', cr, nl] 2 1 [CHR ''c'', cr, nl] = [CHR ''a'', nl, CHR ''c'', nl]"
  by (simp add: patch_lines_def Let_def lines_def line_of_def strip_last_def ends_with_def nl_cr_value)

end
