(* ===== verification/Hunk_Loc.thy ===== *)
theory Hunk_Loc
  imports Hunk_Actions
begin

text \<open>
  The lines-of-code sink (\<open>crates/hi-hunk-tracker/src/loc/mod.rs\<close>): it turns the tracker's events into
  attribution records whose sums are the lines each author added and removed. Line counts are far below
  the range of \<open>i64\<close>, so records hold integers. An event comes with the outcome of its record's write
  and the time the sink reads when it writes a removal.
\<close>

section \<open>Records\<close>

datatype author_type = AuthorAgent | AuthorHuman

datatype source_type = SrcAgentEdit | SrcExternalEditOnAgentFile | SrcExternal

datatype record_event_type = EvAdded | EvUpdated | EvRemoved

record hunk_record =
  hr_hunk_id :: hunk_id
  hr_file_path :: path
  hr_hunk_start :: nat
  hr_hunk_end :: nat
  hr_lines_added :: int
  hr_lines_removed :: int
  hr_author_type :: "author_type option"
  hr_author_id :: "string option"
  hr_agent_id :: string
  hr_session_id :: string
  hr_timestamp :: timestamp
  hr_prompt_index :: "nat option"
  hr_source_type :: "source_type option"
  hr_event_type :: record_event_type
  hr_removal_reason :: "hunk_removal_reason option"

record loc_sink_context =
  lc_session_id :: string
  lc_agent_id :: string
  lc_user_id :: "string option"
  lc_aggregate_tx :: bool

definition record_from_hunk ::
  "hunk \<Rightarrow> string \<Rightarrow> string \<Rightarrow> string option \<Rightarrow> record_event_type \<Rightarrow> hunk_source \<Rightarrow> hunk_record" where
  "record_from_hunk h session_id agent_id user_id ev attribution =
     (let (author, author_id, prompt, src) = (case attribution of
            AgentEdit p \<Rightarrow> (AuthorAgent, Some agent_id, Some p, SrcAgentEdit)
          | ExternalEditOnAgentFile \<Rightarrow> (AuthorHuman, user_id, None, SrcExternalEditOnAgentFile)
          | External \<Rightarrow> (AuthorHuman, user_id, None, SrcExternal));
          (start, count) = (if new_count (line_info h) = 0
                            then (old_start (line_info h), old_count (line_info h))
                            else (new_start (line_info h), new_count (line_info h)))
      in \<lparr>hr_hunk_id = h_id h, hr_file_path = h_path h, hr_hunk_start = start,
          hr_hunk_end = (if count = 0 then start else start + count - 1),
          hr_lines_added = int (new_count (line_info h)), hr_lines_removed = int (old_count (line_info h)),
          hr_author_type = Some author, hr_author_id = author_id, hr_agent_id = agent_id,
          hr_session_id = session_id, hr_timestamp = created_at h, hr_prompt_index = prompt,
          hr_source_type = Some src, hr_event_type = ev, hr_removal_reason = None\<rparr>)"

section \<open>The sink\<close>

datatype loc_aggregate =
    LinesChanged author_type int int path
  | LinesReverted int int

record loc_sink =
  ls_acc :: "(hunk_id \<times> int \<times> int) list"
  ls_records :: "hunk_record list"
  ls_aggregates :: "loc_aggregate list"

definition sink_new :: loc_sink where
  "sink_new = \<lparr>ls_acc = [], ls_records = [], ls_aggregates = []\<rparr>"

definition accumulate :: "hunk_record \<Rightarrow> (hunk_id \<times> int \<times> int) list \<Rightarrow> (hunk_id \<times> int \<times> int) list" where
  "accumulate r acc =
     (let (a, d) = unwrap_or (map_of acc (hr_hunk_id r)) (0, 0)
      in AList.update (hr_hunk_id r) (a + hr_lines_added r, d + hr_lines_removed r) acc)"

definition aggregate :: "loc_sink_context \<Rightarrow> loc_aggregate \<Rightarrow> loc_sink \<Rightarrow> loc_sink" where
  "aggregate ctx g sk = (if lc_aggregate_tx ctx then sk\<lparr>ls_aggregates := ls_aggregates sk @ [g]\<rparr> else sk)"

definition write_record :: "bool \<Rightarrow> hunk_record \<Rightarrow> loc_sink \<Rightarrow> loc_sink" where
  "write_record ok r sk = (if ok then sk\<lparr>ls_records := ls_records sk @ [r]\<rparr> else sk)"

definition record_change :: "loc_sink_context \<Rightarrow> bool \<Rightarrow> author_type \<Rightarrow> hunk_record \<Rightarrow> loc_sink \<Rightarrow> loc_sink" where
  "record_change ctx ok def_author r sk =
     write_record ok r
       (aggregate ctx (LinesChanged (unwrap_or (hr_author_type r) def_author) (hr_lines_added r) (hr_lines_removed r)
                        (hr_file_path r))
         (sk\<lparr>ls_acc := accumulate r (ls_acc sk)\<rparr>))"

fun handle_event :: "loc_sink_context \<Rightarrow> bool \<Rightarrow> timestamp \<Rightarrow> hunk_event \<Rightarrow> loc_sink \<Rightarrow> loc_sink" where
  "handle_event ctx ok now (HunkAdded p h) sk =
     record_change ctx ok AuthorAgent
       (record_from_hunk h (lc_session_id ctx) (lc_agent_id ctx) (lc_user_id ctx) EvAdded (source h)) sk"
| "handle_event ctx ok now (HunkContentChanged p h trigger prev_added prev_removed) sk =
     record_change ctx ok AuthorHuman
       ((record_from_hunk h (lc_session_id ctx) (lc_agent_id ctx) (lc_user_id ctx) EvUpdated trigger)
          \<lparr>hr_lines_added := int (new_count (line_info h)) - int prev_added,
           hr_lines_removed := int (old_count (line_info h)) - int prev_removed\<rparr>) sk"
| "handle_event ctx ok now (HunkRemoved p i reason) sk =
     (case reason of
        Accepted \<Rightarrow> sk\<lparr>ls_acc := AList.delete i (ls_acc sk)\<rparr>
      | _ \<Rightarrow>
          (case map_of (ls_acc sk) i of
             None \<Rightarrow> sk
           | Some (total_added, total_removed) \<Rightarrow>
               let sk1 = sk\<lparr>ls_acc := AList.delete i (ls_acc sk)\<rparr>
               in if total_added \<noteq> 0 \<or> total_removed \<noteq> 0 then
                    write_record ok
                      \<lparr>hr_hunk_id = i, hr_file_path = p, hr_hunk_start = 0, hr_hunk_end = 0,
                       hr_lines_added = - total_added, hr_lines_removed = - total_removed,
                       hr_author_type = None, hr_author_id = None, hr_agent_id = lc_agent_id ctx,
                       hr_session_id = lc_session_id ctx, hr_timestamp = now, hr_prompt_index = None,
                       hr_source_type = None, hr_event_type = EvRemoved, hr_removal_reason = Some reason\<rparr>
                      (aggregate ctx (LinesReverted (max total_added 0) (max total_removed 0)) sk1)
                  else sk1))"
| "handle_event ctx ok now (HunkMoved p i info) sk = sk"
| "handle_event ctx ok now (FileAdded p a) sk = sk"
| "handle_event ctx ok now (FileRemoved p) sk = sk"
| "handle_event ctx ok now (BaselineUpdated p) sk = sk"

text \<open>Events are handled in order; on cancellation the remaining ones are drained the same way.\<close>

definition run_loc_sink :: "loc_sink_context \<Rightarrow> (bool \<times> timestamp \<times> hunk_event) list \<Rightarrow> loc_sink" where
  "run_loc_sink ctx evs = fold (\<lambda>(ok, now, e). handle_event ctx ok now e) evs sink_new"

section \<open>Sums\<close>

definition lines_added_total :: "hunk_id \<Rightarrow> hunk_record list \<Rightarrow> int" where
  "lines_added_total i rs = sum_list (map hr_lines_added (filter (\<lambda>r. hr_hunk_id r = i) rs))"

definition lines_removed_total :: "hunk_id \<Rightarrow> hunk_record list \<Rightarrow> int" where
  "lines_removed_total i rs = sum_list (map hr_lines_removed (filter (\<lambda>r. hr_hunk_id r = i) rs))"

definition acc_of :: "loc_sink \<Rightarrow> hunk_id \<Rightarrow> int \<times> int" where
  "acc_of sk i = unwrap_or (map_of (ls_acc sk) i) (0, 0)"

text \<open>What a hunk's records sum to beyond its accumulated lines: the lines kept when it was accepted.\<close>

definition kept_lines :: "hunk_id \<Rightarrow> loc_sink \<Rightarrow> int \<times> int" where
  "kept_lines i sk =
     (lines_added_total i (ls_records sk) - fst (acc_of sk i), lines_removed_total i (ls_records sk) - snd (acc_of sk i))"

lemma totals_snoc [simp]:
  "lines_added_total i (rs @ [r]) = lines_added_total i rs + (if hr_hunk_id r = i then hr_lines_added r else 0)"
  "lines_removed_total i (rs @ [r]) = lines_removed_total i rs + (if hr_hunk_id r = i then hr_lines_removed r else 0)"
  by (simp_all add: lines_added_total_def lines_removed_total_def)

lemma aggregate_fields [simp]:
  "ls_acc (aggregate ctx g sk) = ls_acc sk" "ls_records (aggregate ctx g sk) = ls_records sk"
  by (simp_all add: aggregate_def)

lemma write_record_fields [simp]:
  "ls_acc (write_record ok r sk) = ls_acc sk"
  "ls_records (write_record True r sk) = ls_records sk @ [r]"
  by (simp_all add: write_record_def)

lemma record_change_kept: "kept_lines i (record_change ctx True a r sk) = kept_lines i sk"
  by (cases "map_of (ls_acc sk) (hr_hunk_id r)")
    (auto simp: kept_lines_def record_change_def acc_of_def accumulate_def AList.update_conv')

text \<open>Every event but the acceptance of the hunk keeps that difference.\<close>

lemma handle_event_kept:
  assumes "\<And>p. e \<noteq> HunkRemoved p i Accepted"
  shows "kept_lines i (handle_event ctx True now e sk) = kept_lines i sk"
proof (cases e)
  case (HunkRemoved p j reason)
  show ?thesis
  proof (cases "map_of (ls_acc sk) j")
    case None
    then show ?thesis using assms HunkRemoved
      by (cases reason) (auto simp: kept_lines_def acc_of_def AList.delete_conv')
  next
    case (Some t)
    then show ?thesis using assms HunkRemoved
      by (cases reason; cases t) (auto simp: kept_lines_def acc_of_def AList.delete_conv' Let_def)
  qed
qed (simp_all add: record_change_kept)

definition deliver :: "loc_sink_context \<Rightarrow> (timestamp \<times> hunk_event) list \<Rightarrow> loc_sink \<Rightarrow> loc_sink" where
  "deliver ctx evs sk = fold (\<lambda>(now, e). handle_event ctx True now e) evs sk"

lemma deliver_simps [simp]:
  "deliver ctx [] sk = sk" "deliver ctx ((now, e) # evs) sk = deliver ctx evs (handle_event ctx True now e sk)"
  "deliver ctx (evs @ evs') sk = deliver ctx evs' (deliver ctx evs sk)"
  by (simp_all add: deliver_def)

lemma run_loc_sink_deliver: "run_loc_sink ctx (map (Pair True) evs) = deliver ctx evs sink_new"
proof -
  have "fold (\<lambda>(ok, now, e). handle_event ctx ok now e) (map (Pair True) evs) sk = deliver ctx evs sk" for sk
    by (induction evs arbitrary: sk) auto
  then show ?thesis by (simp add: run_loc_sink_def)
qed

lemma deliver_kept:
  "(\<And>p. HunkRemoved p i Accepted \<notin> snd ` set evs) \<Longrightarrow> kept_lines i (deliver ctx evs sk) = kept_lines i sk"
proof (induction evs arbitrary: sk)
  case (Cons te evs)
  obtain t e where te: "te = (t, e)" by (cases te)
  have "\<And>p. e \<noteq> HunkRemoved p i Accepted" using Cons.prems te by fastforce
  with Cons te show ?case by (simp add: handle_event_kept)
qed simp

lemma removal_clears: "acc_of (handle_event ctx True now (HunkRemoved p i r) sk) i = (0, 0)"
  by (cases r; cases "map_of (ls_acc sk) i") (auto simp: acc_of_def AList.delete_conv' Let_def)

text \<open>
  C21. When all record writes succeed, a rejected or superseded hunk leaves no trace in the sums: if the
  sink holds nothing for a hunk after some events, then whatever further events other than its acceptance
  follow, once the hunk is removed as rejected or superseded the lines added and removed in its records sum to
  what they summed to before.
\<close>

theorem reverted_hunks_cancel:
  assumes "map_of (ls_acc (run_loc_sink ctx (map (Pair True) before))) i = None"
    and "\<And>p. HunkRemoved p i Accepted \<notin> snd ` set during" and "r \<noteq> Accepted"
  shows "let rs = ls_records (run_loc_sink ctx (map (Pair True) before));
             rs' = ls_records (run_loc_sink ctx (map (Pair True) (before @ during @ [(now, HunkRemoved p i r)])))
         in lines_added_total i rs' = lines_added_total i rs \<and> lines_removed_total i rs' = lines_removed_total i rs"
proof -
  let ?sk = "deliver ctx before sink_new"
  let ?sk' = "deliver ctx (during @ [(now, HunkRemoved p i r)]) ?sk"
  have "kept_lines i ?sk' = kept_lines i ?sk"
    using assms(2,3) by (intro deliver_kept) auto
  moreover have "acc_of ?sk i = (0, 0)" using assms(1) by (simp add: run_loc_sink_deliver acc_of_def)
  moreover have "acc_of ?sk' i = (0, 0)" using removal_clears by simp
  ultimately show ?thesis by (simp add: run_loc_sink_deliver kept_lines_def flip: map_append)
qed


definition sink_ctx :: loc_sink_context where
  "sink_ctx = \<lparr>lc_session_id = ''s'', lc_agent_id = ''g'', lc_user_id = None, lc_aggregate_tx = False\<rparr>"

definition sized_hunk :: "string \<Rightarrow> nat \<Rightarrow> nat \<Rightarrow> nat \<Rightarrow> string \<Rightarrow> hunk" where
  "sized_hunk i start o_count n_count txt =
     \<lparr>h_id = i, h_path = [''f''], line_info = \<lparr>old_start = start, old_count = o_count, new_start = start, new_count = n_count\<rparr>,
      source = AgentEdit 0, old_text = None, new_text = txt, h_patch = None, created_at = 0, selected = False\<rparr>"

theorem reverted_hunks_cancel_witness:
  "let rs = ls_records (run_loc_sink sink_ctx (map (Pair True) []));
       rs' = ls_records (run_loc_sink sink_ctx (map (Pair True)
               ([] @ [(0, HunkAdded [''f''] (sized_hunk ''x'' 1 2 5 ''t''))] @ [(0, HunkRemoved [''f''] ''x'' Rejected)])))
   in lines_added_total ''x'' rs' = lines_added_total ''x'' rs \<and> lines_removed_total ''x'' rs' = lines_removed_total ''x'' rs"
  by (rule reverted_hunks_cancel) (simp_all add: run_loc_sink_def sink_new_def)

text \<open>
  When a hunk is split, both parts report their change against the whole old hunk; when two hunks merge, the
  one whose id is not kept is never reported as removed.
\<close>

definition all_lines_added :: "hunk_record list \<Rightarrow> int" where
  "all_lines_added rs = sum_list (map hr_lines_added rs)"

lemma all_lines_added_snoc [simp]: "all_lines_added (rs @ [r]) = all_lines_added rs + hr_lines_added r"
  by (simp add: all_lines_added_def)

lemma record_change_records [simp]: "ls_records (record_change ctx True a r sk) = ls_records sk @ [r]"
  by (simp add: record_change_def)

lemma record_from_hunk_added [simp]: "hr_lines_added (record_from_hunk h s g u ev src) = int (new_count (line_info h))"
  by (simp add: record_from_hunk_def Let_def case_prod_beta split: hunk_source.split)

text \<open>
  The sums drift from the pending lines when hunks split or merge. With the one hunk recorded and split in
  two, the records sum to the new lines of the parts minus those of the old hunk; with two hunks recorded and
  merged into one that keeps the first id, they sum to the new lines of the merged hunk plus those of the second.
\<close>

theorem split_and_merge_miscounted:
  assumes "hunks_overlap a b" "hunks_overlap a c" "\<not> hunks_match_content a b" "\<not> hunks_match_content a c"
    and "h_id b = h_id a" "h_id c \<noteq> h_id a"
    and "hunks_overlap x z" "hunks_overlap y z" "\<not> hunks_match_content x z" "\<not> hunks_match_content y z"
    and "h_id z = h_id x"
  shows "all_lines_added (ls_records (run_loc_sink ctx (map (\<lambda>e. (True, now, e))
           (HunkAdded p a # emit_hunk_diff_events p [a] [b, c] src)))) =
         int (new_count (line_info b)) + int (new_count (line_info c)) - int (new_count (line_info a)) \<and>
         all_lines_added (ls_records (run_loc_sink ctx (map (\<lambda>e. (True, now, e))
           (HunkAdded p x # HunkAdded p y # emit_hunk_diff_events p [x, y] [z] src)))) =
         int (new_count (line_info z)) + int (new_count (line_info y))"
  using assms
  by (simp_all add: run_loc_sink_def emit_hunk_diff_events_def removal_events_def change_event_def Let_def
      sink_new_def all_lines_added_def)

theorem split_and_merge_miscounted_witness:
  "all_lines_added (ls_records (run_loc_sink sink_ctx (map (\<lambda>e. (True, 0, e))
     (HunkAdded [''f''] (sized_hunk ''x'' 1 5 10 ''t'') #
      emit_hunk_diff_events [''f''] [sized_hunk ''x'' 1 5 10 ''t'']
        [sized_hunk ''x'' 1 2 4 ''u'', sized_hunk ''y'' 4 2 6 ''v''] External)))) = 0"
  using split_and_merge_miscounted [of "sized_hunk ''x'' 1 5 10 ''t''" "sized_hunk ''x'' 1 2 4 ''u''"
      "sized_hunk ''y'' 4 2 6 ''v''" "sized_hunk ''x'' 1 1 3 ''p''" "sized_hunk ''x'' 1 1 7 ''q''"
      "sized_hunk ''y'' 2 1 3 ''p''" sink_ctx 0 "[''f'']" External]
  by (simp add: hunks_overlap_def hunks_match_content_def sized_hunk_def)

end
