(* ===== verification/Provider_Types.thy ===== *)
theory Provider_Types
  imports Run_State Routing
begin

text \<open>
  What the provider layer of \<open>hi-ai\<close> passes around: token usage and rate limits, completions and their
  content, the token estimates (\<open>types.rs\<close>), provider errors with their builders and the
  classification of an error as retryable, as a health failure, as fallback eligible or as a temporary
  overload (\<open>provider.rs\<close>, \<open>provider/error_details.rs\<close>, \<open>provider/number_parse.rs\<close>). An
  \<open>anyhow::Error\<close> is its chain, outermost first. The JSON parser is an argument.
\<close>

section \<open>Usage\<close>

record rate_limit_bucket =
  rl_limit :: u64
  rl_remaining :: u64
  rl_reset_seconds :: u64

definition bucket_has_data :: "rate_limit_bucket \<Rightarrow> bool" where
  "bucket_has_data b \<longleftrightarrow> 0 < rl_limit b \<or> 0 < rl_remaining b \<or> 0 < rl_reset_seconds b"

definition bucket_used :: "rate_limit_bucket \<Rightarrow> u64" where
  "bucket_used b = saturating_sub (rl_limit b) (rl_remaining b)"

definition saturating_mul :: "'a::len word \<Rightarrow> 'a word \<Rightarrow> 'a word" where
  "saturating_mul a b = (if unat a * unat b < 2 ^ LENGTH('a) then a * b else - 1)"

definition bucket_used_percent :: "rate_limit_bucket \<Rightarrow> u64 option" where
  "bucket_used_percent b =
     (if 0 < rl_limit b then Some (min (saturating_mul (bucket_used b) 100 div rl_limit b) 100) else None)"

record rate_limit_state =
  requests_min :: rate_limit_bucket
  requests_hour :: rate_limit_bucket
  tokens_min :: rate_limit_bucket
  tokens_hour :: rate_limit_bucket
  captured_at_unix_seconds :: u64

definition rate_limit_has_data :: "rate_limit_state \<Rightarrow> bool" where
  "rate_limit_has_data r \<longleftrightarrow> bucket_has_data (requests_min r) \<or> bucket_has_data (requests_hour r) \<or>
     bucket_has_data (tokens_min r) \<or> bucket_has_data (tokens_hour r)"

record token_usage =
  us_input_tokens :: u64
  us_output_tokens :: u64
  cache_read_tokens :: u64
  cache_creation_tokens :: u64
  input_includes_cache :: bool
  context_occupancy :: u64
  rate_limits :: "rate_limit_state option"
  estimated :: bool

definition usage_default :: token_usage where
  "usage_default = \<lparr>us_input_tokens = 0, us_output_tokens = 0, cache_read_tokens = 0, cache_creation_tokens = 0,
     input_includes_cache = False, context_occupancy = 0, rate_limits = None, estimated = False\<rparr>"

definition usage_total :: "token_usage \<Rightarrow> u64" where
  "usage_total u = saturating_add (us_input_tokens u) (us_output_tokens u)"

definition usage_is_zero :: "token_usage \<Rightarrow> bool" where
  "usage_is_zero u \<longleftrightarrow> us_input_tokens u = 0 \<and> us_output_tokens u = 0 \<and> cache_read_tokens u = 0 \<and> cache_creation_tokens u = 0"

definition usage_add :: "token_usage \<Rightarrow> token_usage \<Rightarrow> token_usage" where
  "usage_add self other = self\<lparr>
     us_input_tokens := saturating_add (us_input_tokens self) (us_input_tokens other),
     us_output_tokens := saturating_add (us_output_tokens self) (us_output_tokens other),
     cache_read_tokens := saturating_add (cache_read_tokens self) (cache_read_tokens other),
     cache_creation_tokens := saturating_add (cache_creation_tokens self) (cache_creation_tokens other),
     rate_limits := (if rate_limits other \<noteq> None then rate_limits other else rate_limits self),
     estimated := estimated self \<or> estimated other\<rparr>"

definition effective_input_tokens :: "token_usage \<Rightarrow> u64" where
  "effective_input_tokens u =
     (if input_includes_cache u then us_input_tokens u
      else saturating_add (saturating_add (us_input_tokens u) (cache_read_tokens u)) (cache_creation_tokens u))"

section \<open>Completions\<close>

datatype content =
  TextContent string
| Thinking string "string option"
| ToolCallContent string string string
| ToolResult string string
| ImageContent string string
| ProviderReplay string string "json list"

datatype tool_call_channel = Native | TextFallback | Mixed | NoChannel

record completion =
  cp_content :: "content list"
  cp_usage :: token_usage
  stop_reason :: "string option"
  refusal :: "string option"
  cp_tool_call_channel :: tool_call_channel

definition completion_tool_calls :: "completion \<Rightarrow> (string \<times> string \<times> string) list" where
  "completion_tool_calls c =
     List.map_filter (\<lambda>x. case x of ToolCallContent i n a \<Rightarrow> Some (i, n, a) | _ \<Rightarrow> None) (cp_content c)"

text \<open>Text lengths are below \<open>2 ^ 63\<close> on every target, so the conversion to \<open>u64\<close> loses nothing.\<close>

definition estimate_bytes :: "string \<Rightarrow> nat \<Rightarrow> u64" where
  "estimate_bytes t per = (if t = [] then 0 else of_nat ((length t + per - 1) div per))"

definition estimate_text_tokens :: "string \<Rightarrow> u64" where
  "estimate_text_tokens t = estimate_bytes t 4"

definition estimate_json_tokens :: "string \<Rightarrow> u64" where
  "estimate_json_tokens t = estimate_bytes t 3"

fun estimate_content_tokens :: "content \<Rightarrow> u64" where
  "estimate_content_tokens (TextContent t) = estimate_text_tokens t"
| "estimate_content_tokens (Thinking t sig) = saturating_add (estimate_text_tokens t)
     (case sig of Some s \<Rightarrow> estimate_text_tokens s | None \<Rightarrow> 0)"
| "estimate_content_tokens (ToolCallContent i n a) = saturating_add
     (saturating_add (estimate_text_tokens i) (estimate_text_tokens n)) (estimate_json_tokens a)"
| "estimate_content_tokens (ToolResult c out) = saturating_add (estimate_text_tokens c) (estimate_text_tokens out)"
| "estimate_content_tokens (ImageContent d m) = saturating_add (estimate_text_tokens d) (estimate_text_tokens m)"
| "estimate_content_tokens (ProviderReplay p d xs) = 0"

definition estimate_messages_tokens :: "content list list \<Rightarrow> u64" where
  "estimate_messages_tokens ms = foldl saturating_add 0 (map estimate_content_tokens (concat ms))"

fun estimate_generated_content_tokens :: "content \<Rightarrow> u64" where
  "estimate_generated_content_tokens (TextContent t) = estimate_text_tokens t"
| "estimate_generated_content_tokens (Thinking t _) = estimate_text_tokens t"
| "estimate_generated_content_tokens (ToolCallContent _ n a) =
     saturating_add (estimate_text_tokens n) (estimate_json_tokens a)"
| "estimate_generated_content_tokens (ToolResult _ out) = estimate_text_tokens out"
| "estimate_generated_content_tokens (ImageContent d _) = estimate_text_tokens d"
| "estimate_generated_content_tokens (ProviderReplay p d xs) = 0"

definition estimate_completion_output_tokens :: "content list \<Rightarrow> u64" where
  "estimate_completion_output_tokens cs = foldl saturating_add 0 (map estimate_generated_content_tokens cs)"

text \<open>A tool is its name, its description and the text of its parameter schema.\<close>

definition estimate_tool_schema_tokens :: "(string \<times> string \<times> string) list \<Rightarrow> u64" where
  "estimate_tool_schema_tokens tools = foldl (\<lambda>total (n, d, p). saturating_add total
     (saturating_add (saturating_add (estimate_text_tokens n) (estimate_text_tokens d)) (estimate_json_tokens p)))
     0 tools"

definition estimate_request_input_tokens :: "content list list \<Rightarrow> (string \<times> string \<times> string) list \<Rightarrow> u64" where
  "estimate_request_input_tokens ms tools =
     saturating_add (estimate_messages_tokens ms) (estimate_tool_schema_tokens tools)"

section \<open>Searching text\<close>

fun str_find :: "string \<Rightarrow> string \<Rightarrow> nat option" where
  "str_find needle [] = (if needle = [] then Some 0 else None)"
| "str_find needle (c # cs) =
     (if prefix needle (c # cs) then Some 0 else map_option Suc (str_find needle cs))"

definition str_contains :: "string \<Rightarrow> string \<Rightarrow> bool" where
  "str_contains t needle \<longleftrightarrow> str_find needle t \<noteq> None"

definition mentions_any :: "string \<Rightarrow> string list \<Rightarrow> bool" where
  "mentions_any t needles \<longleftrightarrow> (\<exists>needle \<in> set needles. str_contains t needle)"

definition is_digit_char :: "char \<Rightarrow> bool" where
  "is_digit_char c \<longleftrightarrow> (let n = of_char c :: nat in 48 \<le> n \<and> n \<le> 57)"

definition digits_value :: "string \<Rightarrow> nat" where
  "digits_value ds = foldl (\<lambda>v c. 10 * v + (of_char c - 48)) 0 ds"

text \<open>\<open>str::parse\<close> of a text of decimal digits into an unsigned integer of a given bound.\<close>

definition parse_digits :: "nat \<Rightarrow> string \<Rightarrow> nat option" where
  "parse_digits bound ds = (if ds \<noteq> [] \<and> list_all is_digit_char ds \<and> digits_value ds < bound
     then Some (digits_value ds) else None)"

fun take_number :: "bool \<Rightarrow> string \<Rightarrow> string" where
  "take_number seen [] = []"
| "take_number seen (c # cs) =
     (if is_digit_char c then c # take_number True cs
      else if seen \<and> c \<in> set '',_'' then take_number seen cs
      else if seen then []
      else take_number seen cs)"

definition number_after :: "string \<Rightarrow> string \<Rightarrow> nat option" where
  "number_after t marker = (case str_find marker t of None \<Rightarrow> None
     | Some i \<Rightarrow> parse_digits (2 ^ 32) (take_number False (drop (i + length marker) t)))"

definition number_before :: "string \<Rightarrow> string \<Rightarrow> nat option" where
  "number_before t marker = (case str_find marker t of None \<Rightarrow> None
     | Some i \<Rightarrow> parse_digits (2 ^ 32) (rev (take_number False (rev (take i t)))))"

fun first_some :: "('a \<Rightarrow> 'b option) \<Rightarrow> 'a list \<Rightarrow> 'b option" where
  "first_some f [] = None"
| "first_some f (x # xs) = (case f x of Some y \<Rightarrow> Some y | None \<Rightarrow> first_some f xs)"

definition number_after_any :: "string \<Rightarrow> string list \<Rightarrow> nat option" where
  "number_after_any t markers = first_some (number_after t) markers"

definition number_before_any :: "string \<Rightarrow> string list \<Rightarrow> nat option" where
  "number_before_any t markers = first_some (number_before t) markers"

text \<open>The loop of \<open>largest_number\<close> over the text with a blank appended.\<close>

fun largest_loop :: "nat option \<Rightarrow> string \<Rightarrow> string \<Rightarrow> nat option" where
  "largest_loop best cur [] = best"
| "largest_loop best cur (c # cs) =
     (if is_digit_char c then largest_loop best (cur @ [c]) cs
      else if c \<in> set '',_'' \<and> cur \<noteq> [] then largest_loop best cur cs
      else if cur \<noteq> [] then
        largest_loop (case parse_digits (2 ^ 32) cur of
            Some v \<Rightarrow> Some (case best of None \<Rightarrow> v | Some p \<Rightarrow> max p v) | None \<Rightarrow> best) [] cs
      else largest_loop best cur cs)"

definition largest_number :: "string \<Rightarrow> nat option" where
  "largest_number t = largest_loop None [] (t @ '' '')"

definition upper_bound_in_range :: "string \<Rightarrow> nat option" where
  "upper_bound_in_range t = (case str_find ''['' t of None \<Rightarrow> None
     | Some i \<Rightarrow> (case str_find '']'' (drop i t) of None \<Rightarrow> None
         | Some n \<Rightarrow> largest_number (take (n + 1) (drop i t))))"

section \<open>Fields of a JSON error body\<close>

text \<open>
  The three recursive searches share their shape: the field of the object itself if it has the wanted
  type, then the values in order, then the elements of an array.
\<close>

fun field_recursive :: "(json \<Rightarrow> 'a option) \<Rightarrow> string \<Rightarrow> json \<Rightarrow> 'a option"
  and field_values :: "(json \<Rightarrow> 'a option) \<Rightarrow> string \<Rightarrow> (string \<times> json) list \<Rightarrow> 'a option"
  and field_elements :: "(json \<Rightarrow> 'a option) \<Rightarrow> string \<Rightarrow> json list \<Rightarrow> 'a option" where
  "field_recursive get key (JObject fs) =
     (case Option.bind (map_of fs key) get of Some a \<Rightarrow> Some a | None \<Rightarrow> field_values get key fs)"
| "field_recursive get key (JArray vs) = field_elements get key vs"
| "field_recursive get key JNull = None"
| "field_recursive get key (JBool b) = None"
| "field_recursive get key (JNumber n) = None"
| "field_recursive get key (JString t) = None"
| "field_values get key [] = None"
| "field_values get key ((k, v) # fs) =
     (case field_recursive get key v of Some a \<Rightarrow> Some a | None \<Rightarrow> field_values get key fs)"
| "field_elements get key [] = None"
| "field_elements get key (v # vs) =
     (case field_recursive get key v of Some a \<Rightarrow> Some a | None \<Rightarrow> field_elements get key vs)"

definition json_as_u64 :: "json \<Rightarrow> nat option" where
  "json_as_u64 v = (case v of JNumber n \<Rightarrow> parse_digits (2 ^ 64) n | _ \<Rightarrow> None)"

definition json_as_bool :: "json \<Rightarrow> bool option" where
  "json_as_bool v = (case v of JBool b \<Rightarrow> Some b | _ \<Rightarrow> None)"

definition json_as_code :: "json \<Rightarrow> string option" where
  "json_as_code v = (case v of JNumber n \<Rightarrow> Some n | JString t \<Rightarrow> Some t | _ \<Rightarrow> None)"

definition u64_field_recursive :: "json \<Rightarrow> string \<Rightarrow> nat option" where
  "u64_field_recursive v key = field_recursive json_as_u64 key v"

definition bool_field_recursive :: "json \<Rightarrow> string \<Rightarrow> bool option" where
  "bool_field_recursive v key = field_recursive json_as_bool key v"

definition code_field_recursive :: "json \<Rightarrow> string option" where
  "code_field_recursive v = field_recursive json_as_code ''code'' v"

text \<open>\<open>rfind\<close> of a single character.\<close>

definition rfind_char :: "char \<Rightarrow> string \<Rightarrow> nat option" where
  "rfind_char c t = (case str_find [c] (rev t) of None \<Rightarrow> None | Some i \<Rightarrow> Some (length t - 1 - i))"

type_synonym json_parser = "string \<Rightarrow> json option"

definition json_value_from_text :: "json_parser \<Rightarrow> string \<Rightarrow> json option" where
  "json_value_from_text parse t = (case parse t of Some v \<Rightarrow> Some v
     | None \<Rightarrow> (case (str_find ''{'' t, rfind_char (CHR ''}'') t) of
           (Some start, Some stop) \<Rightarrow>
             if stop \<le> start then None else parse (take (stop + 1 - start) (drop start t))
         | _ \<Rightarrow> None))"

definition retry_after_seconds_from_text :: "json_parser \<Rightarrow> string \<Rightarrow> nat option" where
  "retry_after_seconds_from_text parse t =
     Option.bind (json_value_from_text parse t) (\<lambda>v. u64_field_recursive v ''retry_after_seconds'')"

definition json_bool_field :: "json_parser \<Rightarrow> string \<Rightarrow> string \<Rightarrow> bool option" where
  "json_bool_field parse t key = Option.bind (json_value_from_text parse t) (\<lambda>v. bool_field_recursive v key)"

definition json_code_field :: "json_parser \<Rightarrow> string \<Rightarrow> string option" where
  "json_code_field parse t = Option.bind (json_value_from_text parse t) code_field_recursive"

section \<open>Provider errors\<close>

datatype provider_error_kind =
  Auth | RateLimit | CapacityUnavailable | ModelUnavailable | Outage | UnsupportedRequestShape
| PolicyBlocked | UnsupportedTools | RequestTooLarge | QualityRejected | ToolProtocol
| MalformedStream | EmptyCompletion | PaymentRequired | OtherKind

fun error_kind_as_str :: "provider_error_kind \<Rightarrow> string" where
  "error_kind_as_str Auth = ''auth''"
| "error_kind_as_str RateLimit = ''rate_limit''"
| "error_kind_as_str CapacityUnavailable = ''capacity''"
| "error_kind_as_str ModelUnavailable = ''request''"
| "error_kind_as_str Outage = ''request''"
| "error_kind_as_str UnsupportedRequestShape = ''unsupported_request_shape''"
| "error_kind_as_str PolicyBlocked = ''policy_blocked''"
| "error_kind_as_str UnsupportedTools = ''unsupported_tools''"
| "error_kind_as_str RequestTooLarge = ''request_too_large''"
| "error_kind_as_str QualityRejected = ''quality_rejected''"
| "error_kind_as_str ToolProtocol = ''tool_protocol''"
| "error_kind_as_str MalformedStream = ''malformed_stream''"
| "error_kind_as_str EmptyCompletion = ''empty_completion''"
| "error_kind_as_str PaymentRequired = ''payment''"
| "error_kind_as_str OtherKind = ''other''"

datatype request_failure_reason = AttemptsExhausted | BackoffExhausted | DeadlineExceeded

record physical_attempt_evidence =
  pa_physical_attempt :: u32
  pa_route :: string
  pa_http_status :: "u16 option"
  pa_failure_kind :: "string option"

record request_failure_evidence =
  rf_reason :: request_failure_reason
  rf_operation_id :: string
  rf_attempts :: u32
  rf_attempt_limit :: u32
  rf_backoff_ms :: u64
  rf_recent_attempts :: "physical_attempt_evidence list"

record provider_error =
  pe_kind :: provider_error_kind
  pe_message :: string
  pe_usage :: token_usage
  pe_code :: "string option"
  pe_http_status :: "u16 option"
  pe_retryable :: "bool option"
  pe_retry_after_seconds :: "nat option"
  pe_request_failure :: "request_failure_evidence option"

definition provider_error_new :: "provider_error_kind \<Rightarrow> string \<Rightarrow> provider_error" where
  "provider_error_new k m = \<lparr>pe_kind = k, pe_message = m, pe_usage = usage_default, pe_code = None,
     pe_http_status = None, pe_retryable = None, pe_retry_after_seconds = None, pe_request_failure = None\<rparr>"

definition with_usage :: "provider_error \<Rightarrow> token_usage \<Rightarrow> provider_error" where
  "with_usage e u = e\<lparr>pe_usage := u\<rparr>"

definition with_api_contract :: "provider_error \<Rightarrow> string option \<Rightarrow> bool option \<Rightarrow> nat option \<Rightarrow> provider_error" where
  "with_api_contract e c r s = e\<lparr>pe_code := c, pe_retryable := r, pe_retry_after_seconds := s\<rparr>"

definition with_http_status :: "provider_error \<Rightarrow> u16 option \<Rightarrow> provider_error" where
  "with_http_status e s = e\<lparr>pe_http_status := s\<rparr>"

text \<open>
  A link of an error chain is a provider error, displayed as its message, or another error of which
  only the display matters. The chain is never empty; \<open>to_string\<close> displays its head.
\<close>

datatype error_link = ProviderLink provider_error | OtherLink string

type_synonym any_error = "error_link \<times> error_link list"

definition error_to_string :: "any_error \<Rightarrow> string" where
  "error_to_string e = (case fst e of ProviderLink p \<Rightarrow> pe_message p | OtherLink m \<Rightarrow> m)"

definition provider_error_details :: "any_error \<Rightarrow> provider_error option" where
  "provider_error_details e =
     first_some (\<lambda>l. case l of ProviderLink p \<Rightarrow> Some p | OtherLink _ \<Rightarrow> None) (fst e # snd e)"

text \<open>Conversion of a provider error into an \<open>anyhow::Error\<close>.\<close>

definition of_provider_error :: "provider_error \<Rightarrow> any_error" where
  "of_provider_error p = (ProviderLink p, [])"

definition get_error_kind :: "any_error \<Rightarrow> provider_error_kind option" where
  "get_error_kind e = map_option pe_kind (provider_error_details e)"

definition provider_error_text :: "any_error \<Rightarrow> string" where
  "provider_error_text e = (case provider_error_details e of Some p \<Rightarrow> pe_message p | None \<Rightarrow> error_to_string e)"

definition provider_error_retryable :: "json_parser \<Rightarrow> any_error \<Rightarrow> bool option" where
  "provider_error_retryable parse e = (case Option.bind (provider_error_details e) pe_retryable of
     Some r \<Rightarrow> Some r | None \<Rightarrow> json_bool_field parse (provider_error_text e) ''retryable'')"

definition provider_retry_after_seconds :: "json_parser \<Rightarrow> any_error \<Rightarrow> nat option" where
  "provider_retry_after_seconds parse e = (case Option.bind (provider_error_details e) pe_retry_after_seconds of
     Some n \<Rightarrow> Some n | None \<Rightarrow> retry_after_seconds_from_text parse (provider_error_text e))"

definition provider_error_usage :: "any_error \<Rightarrow> token_usage" where
  "provider_error_usage e = (case provider_error_details e of Some p \<Rightarrow> pe_usage p | None \<Rightarrow> usage_default)"

definition is_http_auth_rejection :: "any_error \<Rightarrow> bool" where
  "is_http_auth_rejection e \<longleftrightarrow> get_error_kind e = Some Auth \<or>
     str_contains (error_to_string e) ''returned 401'' \<or> str_contains (error_to_string e) ''returned 403''"

definition provider_error_affects_health :: "json_parser \<Rightarrow> any_error \<Rightarrow> bool" where
  "provider_error_affects_health parse e \<longleftrightarrow> provider_error_retryable parse e \<noteq> Some False \<and>
     get_error_kind e \<in> Some ` {RateLimit, CapacityUnavailable, Outage, MalformedStream}"

definition provider_error_is_fallback_eligible :: "json_parser \<Rightarrow> any_error \<Rightarrow> bool" where
  "provider_error_is_fallback_eligible parse e = (case provider_error_retryable parse e of
     Some r \<Rightarrow> r
   | None \<Rightarrow> get_error_kind e \<in> Some ` {RateLimit, CapacityUnavailable, ModelUnavailable, Outage,
       MalformedStream, EmptyCompletion})"

definition provider_route_error_is_retryable :: "json_parser \<Rightarrow> any_error \<Rightarrow> bool" where
  "provider_route_error_is_retryable parse e = (case get_error_kind e of None \<Rightarrow> False
     | Some k \<Rightarrow>
       if k \<notin> {CapacityUnavailable, ModelUnavailable, Outage} then False
       else (case provider_error_retryable parse e of Some r \<Rightarrow> r
         | None \<Rightarrow>
           let t = provider_error_text e; lower = to_ascii_lowercase t in
           if k = CapacityUnavailable then True
           else if k = ModelUnavailable then
             \<not> mentions_any lower [''unknown model'', ''model not supported'', ''model not enabled''] \<and>
             (provider_retry_after_seconds parse e \<noteq> None \<or> json_bool_field parse t ''retryable'' = Some True \<or>
              mentions_any lower [''temporarily unavailable'', ''temporary unavailable'',
                ''not currently serviceable'', ''try again''])
           else False))"

definition provider_error_is_temporary_overload :: "json_parser \<Rightarrow> any_error \<Rightarrow> bool" where
  "provider_error_is_temporary_overload parse e \<longleftrightarrow> provider_error_retryable parse e \<noteq> Some False \<and>
     get_error_kind e \<in> Some ` {RateLimit, CapacityUnavailable, ModelUnavailable, Outage} \<and>
     (let t = provider_error_text e; lower = to_ascii_lowercase t in
        json_code_field parse t = Some ''1305'' \<or>
        mentions_any lower [''temporarily overloaded'', ''temporary overload'', ''provider overloaded'',
          ''server overloaded'', ''model overloaded'', ''glm overloaded'', ''glm-5.2 overloaded'',
          ''temporarily at capacity'', ''not currently serviceable''] \<or>
        mentions_any lower [''overloaded'', ''over capacity''] \<and>
        mentions_any lower [''try again'', ''retry'', ''temporarily'', ''temporary''])"

section \<open>Output limits\<close>

definition context_overflow_available_output_tokens :: "string \<Rightarrow> nat option" where
  "context_overflow_available_output_tokens lower =
     (if \<not> mentions_any lower [''maximum context length'', ''context length''] \<or>
         \<not> mentions_any lower [''in the completion'', ''output tokens''] then None
      else case number_after_any lower [''maximum context length is'', ''maximum context length of'',
          ''context length is'', ''context window is''] of
        None \<Rightarrow> None
      | Some max_context \<Rightarrow> (case number_before_any lower ['' in the messages'', '' input tokens'',
            '' prompt tokens'', '' tokens in the prompt''] of
          None \<Rightarrow> None
        | Some prompt_tokens \<Rightarrow> if max_context \<le> prompt_tokens then Some 0 else Some (max_context - prompt_tokens)))"

text \<open>The outer option is the presence of an \<open>OutputCapError\<close>, the inner one its limit.\<close>

definition output_cap_error_from_text :: "string \<Rightarrow> nat option option" where
  "output_cap_error_from_text t =
     (let lower = to_ascii_lowercase t in
      case context_overflow_available_output_tokens lower of
        Some available \<Rightarrow> Some (Some available)
      | None \<Rightarrow>
          if \<not> (mentions_any lower [''max_tokens'', ''max output'', ''max_output_tokens'', ''maximum output'',
                  ''output tokens'', ''in the completion''] \<and>
                mentions_any lower [''less than or equal to'', ''at most'', ''max allowed'', ''maximum allowed'',
                  ''must be between'', ''should be ['', ''range of input length'', ''greater than'']) then None
          else Some (case number_after_any lower [''less than or equal to'', ''at most'', ''max allowed'',
                  ''maximum allowed'', ''maximum of'', ''max output tokens is'', ''max_output_tokens is''] of
              Some n \<Rightarrow> Some n
            | None \<Rightarrow> (case upper_bound_in_range lower of Some n \<Rightarrow> Some n | None \<Rightarrow> largest_number lower)))"

definition provider_output_cap_error :: "any_error \<Rightarrow> nat option option" where
  "provider_output_cap_error e = output_cap_error_from_text (provider_error_text e)"

definition is_pipenetwork_coding_route :: "string \<Rightarrow> bool" where
  "is_pipenetwork_coding_route m \<longleftrightarrow> m \<in> {''ipop/coder-balanced'', ''pipe/auto-coder'',
     ''pipe/deepseek-v4-flash-vision-exp'', ''pipe/deepseek-v4-flash-0731'', ''pipe/deepseek-v4-flash''}"

definition effective_coding_agent_max_tokens :: "string \<Rightarrow> u32 \<Rightarrow> bool \<Rightarrow> u32 option \<Rightarrow> u32" where
  "effective_coding_agent_max_tokens m configured_max_tokens explicit advertised_max =
     (let advertised = (case advertised_max of Some l \<Rightarrow> if 0 < l then Some l else None | None \<Rightarrow> None);
          configured = (if \<not> explicit \<and> is_pipenetwork_coding_route m then max configured_max_tokens 8192
                        else configured_max_tokens)
      in case advertised of
           Some l \<Rightarrow> if explicit then min configured l
                     else if is_pipenetwork_coding_route m then l
                     else min configured l
         | None \<Rightarrow> configured)"

definition is_billing_or_quota_text :: "string \<Rightarrow> bool" where
  "is_billing_or_quota_text t = mentions_any (to_ascii_lowercase t)
     [''out of credits'', ''run out of credits'', ''insufficient credits'', ''insufficient_quota'',
      ''insufficient quota'', ''quota exceeded'', ''need a grok subscription'', ''add credits'',
      ''buy credits'', ''payment-signature'', ''insufficient banked x402'']"

text \<open>The key check before a credential is saved; \<open>{err:#}\<close> joins the displays of the chain.\<close>

datatype key_check = KeyAccepted | KeyRejected string | Unverified string

definition link_display :: "error_link \<Rightarrow> string" where
  "link_display l = (case l of ProviderLink p \<Rightarrow> pe_message p | OtherLink m \<Rightarrow> m)"

fun join_displays :: "string list \<Rightarrow> string" where
  "join_displays [] = []"
| "join_displays [d] = d"
| "join_displays (d # ds) = d @ '': '' @ join_displays ds"

definition error_chain_text :: "any_error \<Rightarrow> string" where
  "error_chain_text e = join_displays (map link_display (fst e # snd e))"

definition key_check_from_list_models :: "(any_error, 'm list) result \<Rightarrow> key_check" where
  "key_check_from_list_models r = (case r of Inr _ \<Rightarrow> KeyAccepted
     | Inl e \<Rightarrow> if is_http_auth_rejection e then KeyRejected (error_chain_text e)
               else Unverified (error_chain_text e))"

section \<open>Lemmas on usage and error classes\<close>

text \<open>The four token counters.\<close>

definition token_counters :: "(token_usage \<Rightarrow> u64) list" where
  "token_counters = [us_input_tokens, us_output_tokens, cache_read_tokens, cache_creation_tokens]"

abbreviation u64_cap :: "nat \<Rightarrow> nat" where
  "u64_cap n \<equiv> min n (2 ^ 64 - 1)"

lemma usage_add_counter:
  "c \<in> set token_counters \<Longrightarrow> unat (c (usage_add u v)) = u64_cap (unat (c u) + unat (c v))"
  by (auto simp: token_counters_def usage_add_def unat_saturating_add)

lemma usage_default_counter [simp]: "c \<in> set token_counters \<Longrightarrow> c usage_default = 0"
  by (auto simp: token_counters_def usage_default_def)

lemma usage_is_zero_counter: "usage_is_zero u \<longleftrightarrow> (\<forall>c \<in> set token_counters. c u = 0)"
  by (simp add: usage_is_zero_def token_counters_def)

lemma details_of_provider_error [simp]: "provider_error_details (of_provider_error p) = Some p"
  by (simp add: provider_error_details_def of_provider_error_def)

lemma usage_of_provider_error [simp]: "provider_error_usage (of_provider_error (with_usage p u)) = u"
  by (simp add: provider_error_usage_def with_usage_def)

text \<open>A health failure without a contrary retry contract also lets the chain move on.\<close>

lemma health_failure_is_eligible:
  "provider_error_affects_health parse e \<Longrightarrow> provider_error_is_fallback_eligible parse e"
  by (auto simp: provider_error_affects_health_def provider_error_is_fallback_eligible_def
      split: option.splits)

lemma effective_max_tokens_bounds:
  "advertised = Some l \<Longrightarrow> 0 < l \<Longrightarrow> effective_coding_agent_max_tokens m c x advertised \<le> l"
  by (simp add: effective_coding_agent_max_tokens_def Let_def)

end
