(* ===== verification/Request_Execution.thy ===== *)
theory Request_Execution
  imports Provider_Types Resource_Uri Step_System "HOL-Library.AList"
begin

text \<open>
  The ledger of one inference operation, \<open>hi-ai/src/request_execution.rs\<close> with its diagnostics: the
  allowance of physical sends shared by every clone of a request, reservations, the fan-out plan, the
  backoff allowance, the dispatch loop with its replays and redirects, and the progress clock. Every
  method locks the state, so a history is a sequence of locked sections. Durations are nanoseconds.
  The HTTP client, the URL type and BLAKE3 (in
  hexadecimal) are arguments.
\<close>

section \<open>State\<close>

record execution_policy =
  max_attempts :: u32
  max_backoff :: nat
  no_progress_timeout :: nat

definition execution_policy_default :: execution_policy where
  "execution_policy_default = \<lparr>max_attempts = 4, max_backoff = 60 * 1000000000, no_progress_timeout = 300 * 1000000000\<rparr>"

datatype attempt_state =
  Started u32
| Response u16
| Retrying u64
| FailedAttempt string
| WaitingForApproval
| ApprovalCompleted

record attempt_event =
  ae_operation_id :: string
  ae_request_id :: string
  ae_physical_attempt :: u32
  ae_provider :: string
  ae_route :: string
  ae_model :: string
  ae_state :: attempt_state

text \<open>
  The identities map a payload digest to its request id and its number of sends; the map is only
  looked up and tested for emptiness, so it is an association list. The fan-out plan is its number of
  initial dispatches.
\<close>

record execution_state =
  es_attempts :: u32
  es_reserved :: u32
  es_fanout :: "u32 option"
  es_backoff :: nat
  es_identities :: "(string \<times> string \<times> u32) list"
  es_last :: "attempt_event option"
  es_recent_attempts :: "physical_attempt_evidence list"

definition execution_state_default :: execution_state where
  "execution_state_default = \<lparr>es_attempts = 0, es_reserved = 0, es_fanout = None, es_backoff = 0,
     es_identities = [], es_last = None, es_recent_attempts = []\<rparr>"

definition attempt_limit :: "execution_policy \<Rightarrow> execution_state \<Rightarrow> u32" where
  "attempt_limit p st = (case es_fanout st of
     Some n \<Rightarrow> if 0 < max_attempts p then saturating_add n (saturating_sub (max_attempts p) 1) else max_attempts p
   | None \<Rightarrow> max_attempts p)"

definition remaining_attempts :: "execution_policy \<Rightarrow> execution_state \<Rightarrow> u32" where
  "remaining_attempts p st =
     saturating_sub (attempt_limit p st) (saturating_add (es_attempts st) (es_reserved st))"

section \<open>Local failures\<close>

definition exhausted :: "string \<Rightarrow> string \<Rightarrow> provider_error" where
  "exhausted code message = with_api_contract (provider_error_new Outage message) (Some code) (Some False) None"

fun failure_code_message :: "request_failure_reason \<Rightarrow> string \<times> string" where
  "failure_code_message AttemptsExhausted =
     (''request_attempts_exhausted'', ''model request exhausted its physical attempt allowance'')"
| "failure_code_message BackoffExhausted =
     (''request_backoff_exhausted'', ''model request exhausted its recovery wait allowance'')"
| "failure_code_message DeadlineExceeded =
     (''request_deadline'', ''model request exceeded its configured HTTP deadline'')"

definition last_attempt_text :: "physical_attempt_evidence list \<Rightarrow> string" where
  "last_attempt_text as = (if as = [] then []
     else case pa_failure_kind (last as) of
         Some k \<Rightarrow> ''; last attempt: '' @ k
       | None \<Rightarrow> (case pa_http_status (last as) of
           Some s \<Rightarrow> ''; last HTTP response: '' @ decimal (unat s)
         | None \<Rightarrow> ''; last attempt had no HTTP response''))"

definition local_failure :: "string \<Rightarrow> execution_policy \<Rightarrow> request_failure_reason \<Rightarrow> execution_state \<Rightarrow> provider_error" where
  "local_failure op p reason st =
     (let evidence = \<lparr>rf_reason = reason, rf_operation_id = op, rf_attempts = es_attempts st,
            rf_attempt_limit = attempt_limit p st,
            rf_backoff_ms = of_nat (min (es_backoff st div 1000000) (2 ^ 64 - 1)),
            rf_recent_attempts = es_recent_attempts st\<rparr>;
          (code, message) = failure_code_message reason
      in (exhausted code (message @ '' ('' @ decimal (unat (rf_attempts evidence)) @ ''/'' @
            decimal (unat (rf_attempt_limit evidence)) @ '' sends'' @
            last_attempt_text (rf_recent_attempts evidence) @ '')''))\<lparr>pe_request_failure := Some evidence\<rparr>)"

section \<open>The locked sections\<close>

definition allowance_spent :: "execution_policy \<Rightarrow> execution_state \<Rightarrow> bool" where
  "allowance_spent p st \<longleftrightarrow> saturating_sub (attempt_limit p st) (es_reserved st) \<le> es_attempts st"

definition ensure_available :: "string \<Rightarrow> execution_policy \<Rightarrow> execution_state \<Rightarrow> (provider_error, unit) result" where
  "ensure_available op p st =
     (if allowance_spent p st then Inl (local_failure op p AttemptsExhausted st) else Inr ())"

definition plan_fanout :: "u32 \<Rightarrow> execution_state \<Rightarrow> (string, unit) result \<times> execution_state" where
  "plan_fanout n st =
     (if n = 0 then (Inl ''fanout requires an initial dispatch'', st)
      else case es_fanout st of
          Some m \<Rightarrow> if m = n then (Inr (), st)
                   else (Inl ''cannot change an inference operation's fanout plan'', st)
        | None \<Rightarrow> (Inr (), st\<lparr>es_fanout := Some n\<rparr>))"

text \<open>\<open>reserve\<close> returns the granted count, which the reservation gives back when dropped.\<close>

definition execution_reserve :: "execution_policy \<Rightarrow> u32 \<Rightarrow> execution_state \<Rightarrow> u32 \<times> execution_state" where
  "execution_reserve p n st =
     (let c = min n (saturating_sub (attempt_limit p st) (saturating_add (es_attempts st) (es_reserved st)))
      in (c, st\<lparr>es_reserved := es_reserved st + c\<rparr>))"

definition reservation_drop :: "u32 \<Rightarrow> execution_state \<Rightarrow> execution_state" where
  "reservation_drop c st = st\<lparr>es_reserved := es_reserved st - c\<rparr>"

text \<open>The charge that \<open>backoff\<close> makes before it sleeps.\<close>

definition charge_backoff :: "string \<Rightarrow> execution_policy \<Rightarrow> nat \<Rightarrow> execution_state
    \<Rightarrow> (provider_error, unit) result \<times> execution_state" where
  "charge_backoff op p delay st =
     (if max_backoff p - es_backoff st < delay then (Inl (local_failure op p BackoffExhausted st), st)
      else (Inr (), st\<lparr>es_backoff := es_backoff st + delay\<rparr>))"

definition record_dispatch :: "physical_attempt_evidence list \<Rightarrow> attempt_event \<Rightarrow> physical_attempt_evidence list" where
  "record_dispatch as e = (if length as = 8 then tl as else as) @
     [\<lparr>pa_physical_attempt = ae_physical_attempt e, pa_route = ae_route e, pa_http_status = None,
       pa_failure_kind = None\<rparr>]"

text \<open>The first retained attempt with the ordinal is updated.\<close>

fun update_attempt :: "u32 \<Rightarrow> u16 option \<Rightarrow> string option \<Rightarrow> physical_attempt_evidence list
    \<Rightarrow> physical_attempt_evidence list" where
  "update_attempt n status failure [] = []"
| "update_attempt n status failure (a # as) =
     (if pa_physical_attempt a = n then
        a\<lparr>pa_http_status := (case status of Some s \<Rightarrow> Some s | None \<Rightarrow> pa_http_status a),
          pa_failure_kind := (case pa_failure_kind a of None \<Rightarrow> failure | Some k \<Rightarrow> Some k)\<rparr> # as
      else a # update_attempt n status failure as)"

definition record_attempt_result :: "u32 \<Rightarrow> u16 option \<Rightarrow> string option \<Rightarrow> execution_state \<Rightarrow> execution_state" where
  "record_attempt_result n status failure st =
     st\<lparr>es_recent_attempts := update_attempt n status failure (es_recent_attempts st)\<rparr>"

definition record_provider_failure :: "u32 option \<Rightarrow> any_error \<Rightarrow> execution_state \<Rightarrow> execution_state" where
  "record_provider_failure attempt e st = (case attempt of None \<Rightarrow> st
     | Some n \<Rightarrow> (case provider_error_details e of None \<Rightarrow> st
         | Some pe \<Rightarrow>
             if pe_request_failure pe \<noteq> None then st
             else record_attempt_result n (pe_http_status pe)
               (Some (if pe_code pe = Some ''request_stalled'' then ''no_model_progress''
                      else error_kind_as_str (pe_kind pe))) st))"

text \<open>
  The section of the dispatch loop that acquires one send: the request id of the payload is fixed on
  its first send, and the replay number counts its earlier sends.
\<close>

definition request_id_for :: "string \<Rightarrow> string option \<Rightarrow> string \<Rightarrow> execution_state \<Rightarrow> string \<times> u32" where
  "request_id_for op initial_id identity st = (case map_of (es_identities st) identity of
     Some entry \<Rightarrow> entry
   | None \<Rightarrow> (if es_identities st = [] then (case initial_id of Some i \<Rightarrow> i | None \<Rightarrow> op)
              else op @ ''-'' @ take 12 identity, 0))"

definition acquire_send :: "string \<Rightarrow> execution_policy \<Rightarrow> string option \<Rightarrow> string \<Rightarrow> string \<Rightarrow> string \<Rightarrow> string
    \<Rightarrow> execution_state \<Rightarrow> (provider_error, attempt_event) result \<times> execution_state" where
  "acquire_send op p initial_id identity provider route model st =
     (if allowance_spent p st then (Inl (local_failure op p AttemptsExhausted st), st)
      else
        let (request_id, replay) = request_id_for op initial_id identity st;
            ev = \<lparr>ae_operation_id = op, ae_request_id = request_id,
              ae_physical_attempt = es_attempts st + 1, ae_provider = provider, ae_route = route,
              ae_model = model, ae_state = Started replay\<rparr>
        in (Inr ev, st\<lparr>es_identities := AList.update identity (request_id, replay + 1) (es_identities st),
              es_attempts := es_attempts st + 1, es_last := Some ev,
              es_recent_attempts := record_dispatch (es_recent_attempts st) ev\<rparr>))"

section \<open>Dispatch\<close>

text \<open>
  The route recorded for a send is a digest of its endpoint. \<open>clean\<close> is the third-party URL parser
  followed by the removal of user name, password, query and fragment; a text it does not accept is
  stripped of the same parts by hand.
\<close>

definition normalized_identity :: "string \<Rightarrow> string" where
  "normalized_identity v = (let t = trim v in if t = [] then ''unknown'' else t)"

definition before_first :: "string \<Rightarrow> string \<Rightarrow> string" where
  "before_first pat t = (case split_once pat t of Some (h, _) \<Rightarrow> h | None \<Rightarrow> t)"

definition sanitized_endpoint_identity :: "(string \<Rightarrow> string option) \<Rightarrow> string \<Rightarrow> string" where
  "sanitized_endpoint_identity clean endpoint = (case clean endpoint of Some u \<Rightarrow> u
     | None \<Rightarrow>
        (let bare = before_first ''?'' (before_first ''#'' endpoint) in
         case split_once ''://'' bare of
           None \<Rightarrow> bare
         | Some (scheme, rest) \<Rightarrow>
             (let n = (case str_find ''/'' rest of Some i \<Rightarrow> i | None \<Rightarrow> length rest);
                  authority = take n rest;
                  host = (case rfind_char (CHR ''@'') authority of Some i \<Rightarrow> drop (i + 1) authority | None \<Rightarrow> authority)
              in scheme @ ''://'' @ host @ drop n rest)))"

definition endpoint_capability_route :: "(string \<Rightarrow> string) \<Rightarrow> (string \<Rightarrow> string option) \<Rightarrow> string \<Rightarrow> string \<Rightarrow> string" where
  "endpoint_capability_route blake3 clean route endpoint =
     (let r = normalized_identity route; e = trim endpoint in
      if e = [] then r else r @ ''@endpoint:blake3:'' @ blake3 (sanitized_endpoint_identity clean e))"

text \<open>The operations of the URL type that the redirect rule uses.\<close>

record 'u url_ops =
  host_str :: "'u \<Rightarrow> string option"
  port_or_known_default :: "'u \<Rightarrow> nat option"
  url_scheme :: "'u \<Rightarrow> string"
  url_join :: "'u \<Rightarrow> string \<Rightarrow> 'u option"
  url_as_str :: "'u \<Rightarrow> string"

definition redirect_leaves_origin :: "'u url_ops \<Rightarrow> 'u \<Rightarrow> 'u \<Rightarrow> bool" where
  "redirect_leaves_origin ops from to \<longleftrightarrow> host_str ops from \<noteq> host_str ops to \<or>
     port_or_known_default ops from \<noteq> port_or_known_default ops to \<or> url_scheme ops from \<noteq> url_scheme ops to"

record 'u http_request =
  hr_url :: 'u
  hr_body :: "string option"
  hr_headers :: "(string \<times> string) list"

text \<open>
  What awaiting the client yields within the HTTP deadline: a response with its status, its
  \<open>Location\<close> and itself; a transport error, marked when it is a timeout, connect or request error; or
  the deadline. Other holders of the ledger may act during an await, so the environment also returns
  the ledger. A wait reports whether it ended before the deadline.
\<close>

datatype 'r http_outcome = Replied u16 "string option" 'r | TransportFailure bool | DeadlinePassed

record ('u, 'r, 'w) http_env =
  he_urls :: "'u url_ops"
  he_blake3 :: "string \<Rightarrow> string"
  he_clean :: "string \<Rightarrow> string option"
  he_execute :: "'u http_request \<Rightarrow> execution_state \<Rightarrow> 'w \<Rightarrow> 'r http_outcome \<times> execution_state \<times> 'w"
  he_sleep :: "nat \<Rightarrow> execution_state \<Rightarrow> 'w \<Rightarrow> bool \<times> execution_state \<times> 'w"

definition payload_identity :: "('u, 'r, 'w) http_env \<Rightarrow> 'u \<Rightarrow> string \<Rightarrow> string" where
  "payload_identity env url body = he_blake3 env (url_as_str (he_urls env) url @ [CHR 0x00] @ body)"

definition id_char :: "char \<Rightarrow> bool" where
  "id_char c \<longleftrightarrow> (let n = of_char c :: nat in 48 \<le> n \<and> n \<le> 57 \<or> 65 \<le> n \<and> n \<le> 90 \<or> 97 \<le> n \<and> n \<le> 122 \<or>
     n = 45 \<or> n = 95)"

definition initial_request_id :: "'u http_request \<Rightarrow> string option" where
  "initial_request_id req = (case map_of (hr_headers req) ''x-request-id'' of
     Some v \<Rightarrow> if v \<noteq> [] \<and> length v \<le> 96 \<and> list_all id_char v then Some v else None
   | None \<Rightarrow> None)"

definition attempt_request :: "'u http_request \<Rightarrow> attempt_event \<Rightarrow> u32 \<Rightarrow> string \<Rightarrow> 'u http_request" where
  "attempt_request req ev replay identity = req\<lparr>hr_headers :=
     AList.update ''idempotency-key'' (ae_request_id ev @ '':'' @ take 24 identity)
       (AList.update ''x-request-attempt'' (decimal (unat replay))
         (AList.update ''x-request-id'' (ae_request_id ev) (hr_headers req)))\<rparr>"

type_synonym ('r, 'w) dispatch_result =
  "((provider_error, 'r) result \<times> attempt_event list \<times> execution_state \<times> 'w) option"

definition with_events :: "attempt_event list \<Rightarrow> ('r, 'w) dispatch_result \<Rightarrow> ('r, 'w) dispatch_result" where
  "with_events es = map_option (\<lambda>(r, es', st, w). (r, es @ es', st, w))"

definition replay_delay_ms :: "u32 \<Rightarrow> nat" where
  "replay_delay_ms attempts = 500 * 2 ^ min (unat attempts) 3"

text \<open>
  The loop of \<open>dispatch_controlled\<close>. Each turn acquires one send before it leaves the process; same-origin
  redirects and transport failures that may be replayed go round again.
\<close>

fun dispatch_loop :: "('u, 'r, 'w) http_env \<Rightarrow> string \<Rightarrow> execution_policy \<Rightarrow> bool \<Rightarrow> string \<Rightarrow> string
    \<Rightarrow> string option \<Rightarrow> string \<Rightarrow> nat \<Rightarrow> 'u http_request \<Rightarrow> string \<Rightarrow> execution_state \<Rightarrow> 'w
    \<Rightarrow> ('r, 'w) dispatch_result" where
  "dispatch_loop env op p replayable provider model initial body 0 req identity st w = None"
| "dispatch_loop env op p replayable provider model initial body (Suc n) req identity st w =
     (case acquire_send op p initial identity provider
         (endpoint_capability_route (he_blake3 env) (he_clean env) provider
           (url_as_str (he_urls env) (hr_url req))) model st of
       (Inl e, st1) \<Rightarrow> Some (Inl e, [], st1, w)
     | (Inr ev, st1) \<Rightarrow>
        (let replay = (case ae_state ev of Started r \<Rightarrow> r | _ \<Rightarrow> 0);
             (out, st2, w2) = he_execute env (attempt_request req ev replay identity) st1 w;
             k = ae_physical_attempt ev
         in case out of
           DeadlinePassed \<Rightarrow>
             (let st3 = record_attempt_result k None (Some ''deadline'') st2
              in Some (Inl (local_failure op p DeadlineExceeded st3), [ev], st3, w2))
         | Replied status loc resp \<Rightarrow>
             (let st3 = record_attempt_result k (Some status) None st2;
                  es = [ev, ev\<lparr>ae_state := Response status\<rparr>]
              in if replayable \<and> (status = 307 \<or> status = 308) then
                   (case Option.bind loc (url_join (he_urls env) (hr_url req)) of
                      None \<Rightarrow> Some (Inl (exhausted ''invalid_inference_redirect''
                                ''model endpoint returned an invalid redirect''), es, st3, w2)
                    | Some target \<Rightarrow>
                        if redirect_leaves_origin (he_urls env) (hr_url req) target then
                          Some (Inl (exhausted ''unsafe_inference_redirect''
                            ''refusing model redirect across origins''), es, st3, w2)
                        else with_events es (dispatch_loop env op p replayable provider model initial body n
                               (req\<lparr>hr_url := target\<rparr>) (payload_identity env target body) st3 w2))
                 else Some (Inr resp, es, st3, w2))
         | TransportFailure may_replay \<Rightarrow>
             (let st3 = record_attempt_result k None (Some ''transport_failure'') st2;
                  es = [ev, ev\<lparr>ae_state := FailedAttempt ''transport_failure''\<rparr>]
              in if \<not> replayable \<or> \<not> may_replay then
                   Some (Inl (exhausted ''transport_failure'' ''request to model endpoint failed''), es, st3, w2)
                 else case ensure_available op p st3 of
                   Inl e \<Rightarrow> Some (Inl e, es, st3, w2)
                 | Inr _ \<Rightarrow>
                     (let ms = replay_delay_ms (es_attempts st3);
                          es' = es @ [ev\<lparr>ae_state := Retrying (of_nat ms)\<rparr>]
                      in case charge_backoff op p (ms * 1000000) st3 of
                           (Inl e, st4) \<Rightarrow> Some (Inl e, es', st4, w2)
                         | (Inr _, st4) \<Rightarrow>
                             (case he_sleep env (ms * 1000000) st4 w2 of
                                (False, st5, w5) \<Rightarrow>
                                  Some (Inl (local_failure op p DeadlineExceeded st5), es', st5, w5)
                              | (True, st5, w5) \<Rightarrow>
                                  with_events es' (dispatch_loop env op p replayable provider model initial body n
                                    req identity st5 w5))))))"

definition dispatch_controlled :: "('u, 'r, 'w) http_env \<Rightarrow> string \<Rightarrow> execution_policy \<Rightarrow> bool \<Rightarrow> string \<Rightarrow> string
    \<Rightarrow> nat \<Rightarrow> 'u http_request option \<Rightarrow> execution_state \<Rightarrow> 'w \<Rightarrow> ('r, 'w) dispatch_result" where
  "dispatch_controlled env op p replayable provider model fuel built st w = (case built of
     None \<Rightarrow> Some (Inl (exhausted ''invalid_inference_request'' ''could not build model request''), [], st, w)
   | Some req \<Rightarrow> (case hr_body req of
       None \<Rightarrow> Some (Inl (exhausted ''non_replayable_request''
                 ''model request body must be buffered before dispatch''), [], st, w)
     | Some body \<Rightarrow> dispatch_loop env op p replayable provider model (initial_request_id req) body fuel req
                    (payload_identity env (hr_url req) body) st w))"

section \<open>Histories of the ledger\<close>

text \<open>
  A step is one locked section. The state is paired with the counts of the live reservations, held by
  the callers; a reservation is dropped once.
\<close>

datatype execution_op =
  PlanFanout u32
| ReserveSends u32
| DropReservation nat
| Backoff nat
| AcquireSend "string option" string string string string
| AttemptResult u32 "u16 option" "string option"

fun remove_nth :: "nat \<Rightarrow> 'a list \<Rightarrow> 'a list" where
  "remove_nth n [] = []"
| "remove_nth 0 (x # xs) = xs"
| "remove_nth (Suc n) (x # xs) = x # remove_nth n xs"

fun execution_step :: "string \<Rightarrow> execution_policy \<Rightarrow> execution_op \<Rightarrow> execution_state \<times> u32 list
    \<Rightarrow> execution_state \<times> u32 list" where
  "execution_step op p (PlanFanout n) (st, rs) = (snd (plan_fanout n st), rs)"
| "execution_step op p (ReserveSends n) (st, rs) = (let (c, st') = execution_reserve p n st in (st', c # rs))"
| "execution_step op p (DropReservation i) (st, rs) =
     (if i < length rs then (reservation_drop (rs ! i) st, remove_nth i rs) else (st, rs))"
| "execution_step op p (Backoff d) (st, rs) = (snd (charge_backoff op p d st), rs)"
| "execution_step op p (AcquireSend i identity provider route model) (st, rs) =
     (snd (acquire_send op p i identity provider route model st), rs)"
| "execution_step op p (AttemptResult n s f) (st, rs) = (record_attempt_result n s f st, rs)"

definition execution_inv :: "execution_policy \<Rightarrow> execution_state \<times> u32 list \<Rightarrow> bool" where
  "execution_inv p = (\<lambda>(st, rs).
     unat (es_attempts st) + unat (es_reserved st) \<le> unat (attempt_limit p st) \<and>
     unat (es_reserved st) = sum_list (map unat rs) \<and>
     es_backoff st \<le> max_backoff p \<and> length (es_recent_attempts st) \<le> 8 \<and> es_fanout st \<noteq> Some 0)"

text \<open>What no section undoes: sends and waits spent, and a limit once granted.\<close>

definition execution_adv :: "execution_policy \<Rightarrow> execution_state \<times> u32 list \<Rightarrow> execution_state \<times> u32 list \<Rightarrow> bool" where
  "execution_adv p s t \<longleftrightarrow> es_attempts (fst s) \<le> es_attempts (fst t) \<and> es_backoff (fst s) \<le> es_backoff (fst t) \<and>
     attempt_limit p (fst s) \<le> attempt_limit p (fst t)"

lemma allowance_spent_iff:
  "allowance_spent p st \<longleftrightarrow> unat (attempt_limit p st) \<le> unat (es_attempts st) + unat (es_reserved st)"
  by (auto simp: allowance_spent_def word_le_nat_alt unat_saturating_sub)

lemma unat_add_small:
  fixes a b c :: "'a::len word"
  assumes "unat a + unat b \<le> unat c"
  shows "unat (a + b) = unat a + unat b"
proof -
  have "unat a + unat b < 2 ^ LENGTH('a)" using assms unsigned_less by (rule le_less_trans)
  then show ?thesis by (simp add: unat_word_ariths)
qed

lemma attempt_limit_fields [simp]:
  "attempt_limit p (st\<lparr>es_attempts := a\<rparr>) = attempt_limit p st"
  "attempt_limit p (st\<lparr>es_reserved := a\<rparr>) = attempt_limit p st"
  "attempt_limit p (st\<lparr>es_backoff := d\<rparr>) = attempt_limit p st"
  "attempt_limit p (st\<lparr>es_identities := m\<rparr>) = attempt_limit p st"
  "attempt_limit p (st\<lparr>es_last := e\<rparr>) = attempt_limit p st"
  "attempt_limit p (st\<lparr>es_recent_attempts := xs\<rparr>) = attempt_limit p st"
  by (simp_all add: attempt_limit_def)

lemma fanout_raises_limit:
  assumes "es_fanout st = None" "n \<noteq> 0"
  shows "attempt_limit p st \<le> attempt_limit p (st\<lparr>es_fanout := Some n\<rparr>)"
proof -
  have "0 < unat n" using assms(2) by (simp add: unat_gt_0)
  moreover have "unat (max_attempts p) < 2 ^ 32" using unsigned_less [of "max_attempts p", where 'a = nat] by simp
  ultimately show ?thesis
    using assms(1) by (auto simp: attempt_limit_def word_le_nat_alt unat_saturating_add unat_saturating_sub)
qed

lemma sum_list_remove_nth:
  "i < length rs \<Longrightarrow> sum_list (map f (remove_nth i rs)) + f (rs ! i) = (sum_list (map f rs) :: nat)"
  by (induction i rs rule: remove_nth.induct) auto

lemma length_record_dispatch: "length as \<le> 8 \<Longrightarrow> length (record_dispatch as e) \<le> 8"
  by (auto simp: record_dispatch_def)

lemma length_update_attempt [simp]: "length (update_attempt n s f as) = length as"
  by (induction n s f as rule: update_attempt.induct) auto

lemma fanout_step:
  assumes "execution_inv p (st, rs)"
  shows "execution_inv p (snd (plan_fanout n st), rs) \<and> execution_adv p (st, rs) (snd (plan_fanout n st), rs)"
proof (cases "n = 0 \<or> es_fanout st \<noteq> None")
  case True
  then have "snd (plan_fanout n st) = st" by (auto simp: plan_fanout_def split: option.splits)
  with assms show ?thesis by (simp add: execution_adv_def)
next
  case False
  then have "snd (plan_fanout n st) = st\<lparr>es_fanout := Some n\<rparr>" by (auto simp: plan_fanout_def)
  with assms fanout_raises_limit [of st n p] False show ?thesis
    by (auto simp: execution_inv_def execution_adv_def word_le_nat_alt)
qed

lemma reserve_step:
  assumes "execution_inv p (st, rs)" "execution_reserve p n st = (c, st')"
  shows "execution_inv p (st', c # rs) \<and> execution_adv p (st, rs) (st', c # rs)"
proof -
  let ?l = "unat (attempt_limit p st)"
  have inv: "unat (es_attempts st) + unat (es_reserved st) \<le> ?l" using assms by (simp add: execution_inv_def)
  have st': "st' = st\<lparr>es_reserved := es_reserved st + c\<rparr>"
    and c: "c \<le> saturating_sub (attempt_limit p st) (saturating_add (es_attempts st) (es_reserved st))"
    using assms(2) by (auto simp: execution_reserve_def Let_def)
  have u32: "?l < 2 ^ 32" using unsigned_less [of "attempt_limit p st", where 'a = nat] by simp
  have "unat c \<le> ?l - (unat (es_attempts st) + unat (es_reserved st))"
    using c inv u32
    by (simp add: word_le_nat_alt unat_saturating_sub unat_saturating_add min_def split: if_splits)
  then have le: "unat (es_attempts st) + (unat (es_reserved st) + unat c) \<le> ?l" using inv by linarith
  have "unat (es_reserved st + c) = unat (es_reserved st) + unat c"
    by (rule unat_add_small [of _ _ "attempt_limit p st"]) (use le in linarith)
  with assms(1) le show ?thesis by (auto simp: st' execution_inv_def execution_adv_def)
qed

lemma drop_step:
  assumes "execution_inv p (st, rs)" "i < length rs"
  shows "execution_inv p (reservation_drop (rs ! i) st, remove_nth i rs)"
proof -
  note sm = sum_list_remove_nth [OF assms(2), of unat]
  then have le: "rs ! i \<le> es_reserved st" using assms(1) by (simp add: execution_inv_def word_le_nat_alt)
  then have "unat (es_reserved st - rs ! i) = unat (es_reserved st) - unat (rs ! i)" by (rule unat_sub)
  with assms(1) sm show ?thesis by (auto simp: execution_inv_def reservation_drop_def)
qed

lemma acquire_step:
  assumes "execution_inv p (st, rs)"
  shows "execution_inv p (snd (acquire_send op p i identity provider route model st), rs) \<and>
    execution_adv p (st, rs) (snd (acquire_send op p i identity provider route model st), rs)"
proof (cases "allowance_spent p st")
  case True
  with assms show ?thesis by (simp add: acquire_send_def execution_adv_def)
next
  case False
  then have lt: "unat (es_attempts st) + 1 + unat (es_reserved st) \<le> unat (attempt_limit p st)"
    by (simp add: allowance_spent_iff)
  then have one: "unat (es_attempts st + 1) = unat (es_attempts st) + 1"
    using unat_add_small [of "es_attempts st" 1 "attempt_limit p st"] by simp
  from False assms lt show ?thesis
    by (auto simp: acquire_send_def execution_inv_def execution_adv_def case_prod_beta Let_def
        length_record_dispatch one word_le_nat_alt)
qed

lemma execution_step_keeps:
  assumes "execution_inv p (st, rs)"
  shows "execution_inv p (execution_step op p a (st, rs)) \<and>
    execution_adv p (st, rs) (execution_step op p a (st, rs))"
proof (cases a)
  case (ReserveSends n)
  then show ?thesis
    using reserve_step [OF assms] by (cases "execution_reserve p n st") simp
next
  case (DropReservation i)
  with assms drop_step [OF assms, of i] show ?thesis
    by (auto simp: execution_adv_def reservation_drop_def)
next
  case (Backoff d)
  with assms show ?thesis by (auto simp: charge_backoff_def execution_inv_def execution_adv_def)
next
  case (AttemptResult n s f)
  with assms show ?thesis
    by (auto simp: record_attempt_result_def execution_inv_def execution_adv_def)
qed (use assms fanout_step acquire_step in auto)

interpretation execution: ordered_steps "execution_step op p" "execution_inv p" "execution_adv p" for op p
proof
  show "execution_inv p s \<Longrightarrow> execution_inv p (execution_step op p a s)" for s a
    using execution_step_keeps by (cases s) blast
  show "execution_inv p s \<Longrightarrow> execution_adv p s (execution_step op p a s)" for s a
    using execution_step_keeps by (cases s) blast
qed (auto simp: execution_adv_def)

lemma execution_default_inv [simp]: "execution_inv p (execution_state_default, [])"
  by (simp add: execution_inv_def execution_state_default_def)

section \<open>Dispatch within the allowance\<close>

text \<open>
  During an await other holders of the same ledger run any of its locked sections: they reserve, send,
  wait, and drop reservations they held before the await or made during it. The live reservations are
  theirs, so they are part of the world, read by \<open>held\<close>.
\<close>

definition others_use_ledger :: "('u, 'r, 'w) http_env \<Rightarrow> string \<Rightarrow> execution_policy \<Rightarrow> ('w \<Rightarrow> u32 list) \<Rightarrow> bool" where
  "others_use_ledger env op p held \<longleftrightarrow>
     (\<forall>req st w out st' w'. execution_inv p (st, held w) \<and> he_execute env req st w = (out, st', w') \<longrightarrow>
        (\<exists>ops. fold (execution_step op p) ops (st, held w) = (st', held w'))) \<and>
     (\<forall>d st w woke st' w'. execution_inv p (st, held w) \<and> he_sleep env d st w = (woke, st', w') \<longrightarrow>
        (\<exists>ops. fold (execution_step op p) ops (st, held w) = (st', held w')))"

text \<open>The sends in a list of events are its \<open>Started\<close> events.\<close>

definition count_sends :: "attempt_event list \<Rightarrow> nat" where
  "count_sends es = length (filter (\<lambda>e. case ae_state e of Started _ \<Rightarrow> True | _ \<Rightarrow> False) es)"

lemma ledger_run_keeps:
  assumes "\<exists>ops. fold (execution_step op p) ops (st, rs) = (st', rs')" "execution_inv p (st, rs)"
  shows "execution_inv p (st', rs') \<and> es_attempts st \<le> es_attempts st'"
proof -
  obtain ops where ops: "fold (execution_step op p) ops (st, rs) = (st', rs')" using assms(1) by blast
  show ?thesis
    using execution.run_inv [OF assms(2), of op ops] execution.run_adv [OF assms(2), of op ops]
    by (simp add: ops execution_adv_def)
qed

lemma execute_keeps:
  assumes "others_use_ledger env op p held" "he_execute env req st w = (out, st', w')" "execution_inv p (st, held w)"
  shows "execution_inv p (st', held w') \<and> es_attempts st \<le> es_attempts st'"
  using assms unfolding others_use_ledger_def by (intro ledger_run_keeps [of op p st "held w"]) blast+

lemma sleep_keeps:
  assumes "others_use_ledger env op p held" "he_sleep env d st w = (woke, st', w')" "execution_inv p (st, held w)"
  shows "execution_inv p (st', held w') \<and> es_attempts st \<le> es_attempts st'"
  using assms unfolding others_use_ledger_def by (intro ledger_run_keeps [of op p st "held w"]) blast+

lemma inv_record [simp]: "execution_inv p (record_attempt_result k s f st, rs) \<longleftrightarrow> execution_inv p (st, rs)"
  by (auto simp: execution_inv_def record_attempt_result_def)

lemma attempts_record [simp]: "es_attempts (record_attempt_result k s f st) = es_attempts st"
  by (simp add: record_attempt_result_def)

lemma charge_backoff_ok:
  assumes "charge_backoff op p d st = (r, st')" "execution_inv p (st, rs)"
  shows "execution_inv p (st', rs) \<and> es_attempts st' = es_attempts st"
  using assms by (auto simp: execution_inv_def charge_backoff_def split: if_splits)

lemma acquire_send_ok:
  assumes "acquire_send op p i identity provider route model st = (Inr ev, st')" "execution_inv p (st, rs)"
  shows "execution_inv p (st', rs) \<and> unat (es_attempts st') = unat (es_attempts st) + 1 \<and> (\<exists>r. ae_state ev = Started r)"
proof -
  have sp: "\<not> allowance_spent p st" using assms(1) by (auto simp: acquire_send_def)
  then have "unat (es_attempts st) + unat (1::u32) \<le> unat (attempt_limit p st)" by (simp add: allowance_spent_iff)
  then have "unat (es_attempts st + 1) = unat (es_attempts st) + 1" using unat_add_small by fastforce
  then show ?thesis
    using assms(1) sp acquire_step [OF assms(2), of op i identity provider route model]
    by (auto simp: acquire_send_def case_prod_beta Let_def)
qed

lemma acquire_send_refused:
  "acquire_send op p i identity provider route model st = (Inl e, st') \<Longrightarrow> st' = st"
  by (auto simp: acquire_send_def case_prod_beta Let_def split: if_splits)

definition dispatch_done :: "execution_policy \<Rightarrow> ('w \<Rightarrow> u32 list) \<Rightarrow> nat \<Rightarrow> ('r, 'w) dispatch_result \<Rightarrow> bool" where
  "dispatch_done p held a d \<longleftrightarrow> (\<exists>r es st w. d = Some (r, es, st, w) \<and> execution_inv p (st, held w) \<and>
     a + count_sends es \<le> unat (es_attempts st))"

lemma count_sends_simps [simp]:
  "count_sends [] = 0"
  "ae_state e = Started r \<Longrightarrow> count_sends (e # es) = Suc (count_sends es)"
  "\<nexists>r. ae_state e = Started r \<Longrightarrow> count_sends (e # es) = count_sends es"
  "count_sends (es @ es') = count_sends es + count_sends es'"
  by (auto simp: count_sends_def split: attempt_state.splits)

lemma dispatch_done_with_events:
  "dispatch_done p held (a + count_sends es) d \<Longrightarrow> dispatch_done p held a (with_events es d)"
  by (fastforce simp: dispatch_done_def with_events_def)

lemma dispatch_done_less: "dispatch_done p held b d \<Longrightarrow> a \<le> b \<Longrightarrow> dispatch_done p held a d"
  by (fastforce simp: dispatch_done_def)

lemma dispatch_done_Some:
  "execution_inv p (st, held w) \<Longrightarrow> a + count_sends es \<le> unat (es_attempts st)
    \<Longrightarrow> dispatch_done p held a (Some (r, es, st, w))"
  by (simp add: dispatch_done_def)

lemma dispatch_loop_done:
  assumes env: "others_use_ledger env op p held"
  shows "execution_inv p (st, held w) \<Longrightarrow> 2 ^ 32 \<le> unat (es_attempts st) + n \<Longrightarrow> dispatch_done p held (unat (es_attempts st))
    (dispatch_loop env op p replayable provider model initial body n req identity st w)"
proof (induction n arbitrary: req identity st w)
  case 0
  then show ?case using unsigned_less [of "es_attempts st", where 'a = nat] by simp
next
  case (Suc n)
  let ?acq = "acquire_send op p initial identity provider
      (endpoint_capability_route (he_blake3 env) (he_clean env) provider
        (url_as_str (he_urls env) (hr_url req))) model st"
  show ?case
  proof (cases "fst ?acq")
    case (Inl e)
    then obtain st1 where "?acq = (Inl e, st1)" by (cases ?acq) auto
    moreover from this have "st1 = st" by (rule acquire_send_refused)
    ultimately show ?thesis using Suc.prems(1) by (simp add: dispatch_done_Some)
  next
    case (Inr ev)
    then obtain st1 where acq: "?acq = (Inr ev, st1)" by (cases ?acq) auto
    note ok1 = acquire_send_ok [OF acq Suc.prems(1)]
    then obtain rn where started: "ae_state ev = Started rn" by blast
    obtain out st2 w2 where exe: "he_execute env (attempt_request req ev rn identity) st1 w = (out, st2, w2)"
      by (cases "he_execute env (attempt_request req ev rn identity) st1 w") auto
    have ok2: "execution_inv p (st2, held w2)" "unat (es_attempts st) + 1 \<le> unat (es_attempts st2)"
      using execute_keeps [OF env exe] ok1 by (auto simp: word_le_nat_alt)
    note again = Suc.IH
    have go: "dispatch_done p held (unat (es_attempts st)) (with_events es (dispatch_loop env op p replayable
        provider model initial body n req' identity' st' w'))"
      if "execution_inv p (st', held w')" "es_attempts st2 \<le> es_attempts st'" "count_sends es = 1" for es req' identity' st' w'
    proof (rule dispatch_done_with_events, rule dispatch_done_less)
      show "dispatch_done p held (unat (es_attempts st')) (dispatch_loop env op p replayable
          provider model initial body n req' identity' st' w')"
        using that ok2 Suc.prems(2) by (intro again) (auto simp: word_le_nat_alt)
    qed (use that ok2 in \<open>auto simp: word_le_nat_alt\<close>)
    show ?thesis
    proof (cases out)
      case (Replied status loc resp)
      show ?thesis
        using ok2 go by (auto simp: acq exe started Replied Let_def dispatch_done_Some split: option.splits)
    next
      case (TransportFailure may_replay)
      let ?st3 = "record_attempt_result (ae_physical_attempt ev) None (Some ''transport_failure'') st2"
      obtain r st4 where chg: "charge_backoff op p (replay_delay_ms (es_attempts st2) * 1000000) ?st3 = (r, st4)"
        by (cases "charge_backoff op p (replay_delay_ms (es_attempts st2) * 1000000) ?st3") auto
      have ok4: "execution_inv p (st4, held w2)" "es_attempts st4 = es_attempts st2"
        using charge_backoff_ok [OF chg] ok2 by auto
      obtain woke st5 w5 where slp: "he_sleep env (replay_delay_ms (es_attempts st2) * 1000000) st4 w2 = (woke, st5, w5)"
        by (cases "he_sleep env (replay_delay_ms (es_attempts st2) * 1000000) st4 w2") auto
      have ok5: "execution_inv p (st5, held w5)" "es_attempts st2 \<le> es_attempts st5"
        using sleep_keeps [OF env slp] ok4 by auto
      then have "unat (es_attempts st) + 1 \<le> unat (es_attempts st5)" using ok2(2) by (simp add: word_le_nat_alt)
      then show ?thesis
        using ok2 ok4 ok5 go
        by (auto simp: acq exe started TransportFailure chg slp Let_def dispatch_done_Some
            split: sum.splits bool.splits)
    next
      case DeadlinePassed
      show ?thesis using ok2 by (auto simp: acq exe started DeadlinePassed Let_def dispatch_done_Some)
    qed
  qed
qed

section \<open>The progress clock\<close>

text \<open>What a provider streams to its caller. The wire audit is carried as its text.\<close>

datatype stream_event =
  AttemptEvent attempt_event
| TextEvent string
| ReasoningEvent string
| ToolCallDelta nat "string option" "string option" string
| WireAuditEvent string
| Status string
| WarningEvent string

record progress_state =
  last_progress :: "nat option"
  paused_at :: "nat option"
  physical_attempt :: "(string \<times> u32) option"

definition progress_default :: progress_state where
  "progress_default = \<lparr>last_progress = None, paused_at = None, physical_attempt = None\<rparr>"

definition touch :: "nat \<Rightarrow> progress_state \<Rightarrow> progress_state" where
  "touch now s = s\<lparr>last_progress := map_option (\<lambda>_. now) (last_progress s),
     paused_at := map_option (\<lambda>_. now) (paused_at s)\<rparr>"

fun progress_observe :: "nat \<Rightarrow> stream_event \<Rightarrow> progress_state \<Rightarrow> progress_state" where
  "progress_observe now (TextEvent t) s = (if t \<noteq> [] then touch now s else s)"
| "progress_observe now (ReasoningEvent t) s = (if t \<noteq> [] then touch now s else s)"
| "progress_observe now (ToolCallDelta i d n args) s = (if args \<noteq> [] then touch now s else s)"
| "progress_observe now (AttemptEvent ev) s = (case ae_state ev of
     Started _ \<Rightarrow>
       (let attempt = (ae_operation_id ev, ae_physical_attempt ev) in
        if physical_attempt s = Some attempt then s
        else s\<lparr>physical_attempt := Some attempt, last_progress := Some now, paused_at := None\<rparr>)
   | ApprovalCompleted \<Rightarrow> (case paused_at s of
         Some p \<Rightarrow> s\<lparr>paused_at := None, last_progress := map_option (\<lambda>l. l + (now - p)) (last_progress s)\<rparr>
       | None \<Rightarrow> s)
   | WaitingForApproval \<Rightarrow> s\<lparr>paused_at := (case paused_at s of Some p \<Rightarrow> Some p | None \<Rightarrow> Some now)\<rparr>
   | _ \<Rightarrow> s)"
| "progress_observe now (WireAuditEvent a) s = s"
| "progress_observe now (Status t) s = s"
| "progress_observe now (WarningEvent t) s = s"

text \<open>The deadline \<open>watch\<close> sleeps until, and its test when the deadline fires.\<close>

definition progress_deadline :: "nat \<Rightarrow> progress_state \<Rightarrow> nat option" where
  "progress_deadline timeout s = (if paused_at s = None then map_option (\<lambda>l. l + timeout) (last_progress s) else None)"

definition progress_stalled :: "nat \<Rightarrow> nat \<Rightarrow> progress_state \<Rightarrow> bool" where
  "progress_stalled timeout now s \<longleftrightarrow> paused_at s = None \<and>
     (case last_progress s of Some l \<Rightarrow> timeout \<le> now - l | None \<Rightarrow> False)"

text \<open>
  Time spent waiting for an approval does not count against the stream: the deadline after the approval
  is the one before it, moved by the length of the wait.
\<close>

theorem approval_wait_not_counted:
  assumes "paused_at s = None" "ae_state e1 = WaitingForApproval" "ae_state e2 = ApprovalCompleted" "t1 \<le> t2"
  shows "progress_deadline timeout (progress_observe t2 (AttemptEvent e2) (progress_observe t1 (AttemptEvent e1) s))
       = map_option (\<lambda>d. d + (t2 - t1)) (progress_deadline timeout s)"
    and "progress_deadline timeout (progress_observe t1 (AttemptEvent e1) s) = None"
  using assms by (auto simp: progress_deadline_def option.map_comp comp_def intro!: map_option_cong)

section \<open>Properties\<close>

text \<open>
  C3. Send allowance. After any history of the ledger's operations, in any interleaving, the sends made
  and the sends held by live reservations together stay within the attempt limit, the recovery waits
  within the backoff allowance, and at most eight attempts are retained as evidence. No operation
  returns spent sends or waits, and the limit never falls.
\<close>

theorem sends_within_allowance:
  "case fold (execution_step op p) ops (execution_state_default, []) of (st, rs) \<Rightarrow>
     unat (es_attempts st) + sum_list (map unat rs) \<le> unat (attempt_limit p st) \<and>
     unat (attempt_limit p st) \<le> unat (max_attempts p) + (case es_fanout st of Some n \<Rightarrow> unat n - 1 | None \<Rightarrow> 0) \<and>
     es_backoff st \<le> max_backoff p \<and> length (es_recent_attempts st) \<le> 8 \<and>
     execution_adv p (st, rs) (execution_step op p next_op (st, rs))"
proof -
  obtain st rs where f: "fold (execution_step op p) ops (execution_state_default, []) = (st, rs)"
    by (cases "fold (execution_step op p) ops (execution_state_default, [])")
  have inv: "execution_inv p (st, rs)"
    using execution.run_inv [OF execution_default_inv [of p], of op ops] by (simp add: f)
  have "unat (attempt_limit p st) \<le> unat (max_attempts p) + (case es_fanout st of Some n \<Rightarrow> unat n - 1 | None \<Rightarrow> 0)"
    using inv by (auto simp: attempt_limit_def execution_inv_def unat_saturating_add unat_saturating_sub
        unat_gt_0 Suc_le_eq split: option.splits)
  with inv execution.step_adv [OF inv] show ?thesis by (simp add: f execution_inv_def)
qed

text \<open>
  C24. Dispatch returns. Against any HTTP endpoint, redirecting and failing as it likes, and with any
  operations of other holders of the ledger during the awaits, the dropping of reservations they
  already held included, a dispatch ends after at most \<open>2 ^ 32\<close> turns, and the sends it made are all
  charged: the sends charged before and those of this dispatch, with the reservations live at the end,
  stay within the attempt limit.
\<close>

theorem dispatch_returns:
  assumes "others_use_ledger env op p held" "execution_inv p (st, held w)" "2 ^ 32 \<le> fuel"
  shows "\<exists>r es st' w'. dispatch_controlled env op p replayable provider model fuel built st w = Some (r, es, st', w') \<and>
    unat (es_attempts st) + count_sends es \<le> unat (es_attempts st') \<and>
    unat (es_attempts st') + sum_list (map unat (held w')) \<le> unat (attempt_limit p st')"
proof -
  have "dispatch_done p held (unat (es_attempts st))
      (dispatch_controlled env op p replayable provider model fuel built st w)"
    using assms(2, 3)
    by (auto simp: dispatch_controlled_def dispatch_done_Some intro!: dispatch_loop_done [OF assms(1)]
        split: option.splits)
  then show ?thesis by (fastforce simp: dispatch_done_def execution_inv_def)
qed

text \<open>
  An endpoint that redirects every request to the same URL, for ever, while the other holders of the
  ledger drop one of their reservations at every send.
\<close>

definition circular_env :: "(unit, unit, u32 list) http_env" where
  "circular_env = \<lparr>he_urls = \<lparr>host_str = \<lambda>_. None, port_or_known_default = \<lambda>_. None, url_scheme = \<lambda>_. ''https'',
       url_join = \<lambda>_ _. Some (), url_as_str = \<lambda>_. ''https://model''\<rparr>,
     he_blake3 = \<lambda>t. t, he_clean = \<lambda>u. Some u,
     he_execute = \<lambda>_ st rs. (Replied 307 (Some ''/'') (),
       execution_step ''op'' execution_policy_default (DropReservation 0) (st, rs)),
     he_sleep = \<lambda>_ st w. (True, st, w)\<rparr>"

lemma circular_env_uses_ledger: "others_use_ledger circular_env ''op'' execution_policy_default (\<lambda>rs. rs)"
proof -
  let ?step = "execution_step ''op'' execution_policy_default"
  have "\<exists>ops. fold ?step ops s = ?step (DropReservation 0) s" for s by (rule exI [of _ "[DropReservation 0]"]) simp
  moreover have "\<exists>ops. fold ?step ops s = s" for s by (rule exI [of _ "[]"]) simp
  ultimately show ?thesis
    by (auto simp: others_use_ledger_def circular_env_def simp del: fold_simps execution_step.simps) metis
qed

theorem dispatch_returns_witness:
  "\<exists>r es st' rs'. dispatch_controlled circular_env ''op'' execution_policy_default True ''openai'' ''m'' (2 ^ 32)
     (Some \<lparr>hr_url = (), hr_body = Some ''{}'', hr_headers = []\<rparr>) (execution_state_default\<lparr>es_reserved := 2\<rparr>) [2]
       = Some (r, es, st', rs') \<and>
     count_sends es \<le> unat (es_attempts st') \<and>
     unat (es_attempts st') + sum_list (map unat rs') \<le> unat (attempt_limit execution_policy_default st')"
proof -
  have "execution_inv execution_policy_default (execution_state_default\<lparr>es_reserved := 2\<rparr>, [2])"
    by (simp add: execution_inv_def execution_state_default_def execution_policy_default_def attempt_limit_def)
  from dispatch_returns [OF circular_env_uses_ledger this order_refl, of True "''openai''" "''m''"
      "Some \<lparr>hr_url = (), hr_body = Some ''{}'', hr_headers = []\<rparr>"]
  show ?thesis by (simp add: execution_state_default_def)
qed

end
