(* ===== verification/Float64.thy ===== *)
theory Float64
  imports Complex_Main "HOL-Library.Log_Nat"
begin

text \<open>
  The part of IEEE 754 binary64 arithmetic the sources use on counts and durations: conversion of an
  unsigned integer, division, addition and subtraction, rounded to nearest with ties to even. Values
  are the rational numbers the floats denote. The operands are counts below \<open>2 ^ 64\<close> and sums of such
  a count and a quotient of two, so no result leaves the range of normal numbers and neither
  subnormals nor infinities arise.
\<close>

definition round_even :: "rat \<Rightarrow> int" where
  "round_even y = (let f = \<lfloor>y\<rfloor>; r = y - of_int f in
     if r < 1 / 2 then f else if 1 / 2 < r then f + 1 else if even f then f else f + 1)"

text \<open>The binary exponent of a positive rational: \<open>2 ^ e \<le> x < 2 ^ (e + 1)\<close>.\<close>

definition binary_exponent :: "rat \<Rightarrow> int" where
  "binary_exponent x = (let (n, d) = quotient_of x; k = bitlen n - bitlen d in
     if x < 2 powi k then k - 1 else k)"

definition f64_round :: "rat \<Rightarrow> rat" where
  "f64_round x = (if x \<le> 0 then 0 else
     let u = 2 powi (binary_exponent x - 52) in of_int (round_even (x / u)) * u)"

definition f64_of_nat :: "nat \<Rightarrow> rat" where
  "f64_of_nat n = f64_round (of_nat n)"

definition f64_div :: "rat \<Rightarrow> rat \<Rightarrow> rat" where
  "f64_div a b = f64_round (a / b)"

text \<open>The sum of two values that are not negative; a difference is rounded alike on either side of 0.\<close>

definition f64_add :: "rat \<Rightarrow> rat \<Rightarrow> rat" where
  "f64_add a b = f64_round (a + b)"

definition f64_sub :: "rat \<Rightarrow> rat \<Rightarrow> rat" where
  "f64_sub a b = (if a < b then - f64_round (b - a) else f64_round (a - b))"

section \<open>Rounding\<close>

lemma round_even_of_int [simp]: "round_even (of_int m) = m"
  by (simp add: round_even_def)

lemma round_even_error: "\<bar>of_int (round_even y) - y\<bar> \<le> 1 / 2"
proof -
  have "of_int \<lfloor>y\<rfloor> \<le> y" "y < of_int \<lfloor>y\<rfloor> + 1" by linarith+
  then show ?thesis by (auto simp: round_even_def Let_def abs_le_iff)
qed

lemma round_even_ge: "of_int m \<le> y \<Longrightarrow> m \<le> round_even y"
  by (auto simp: round_even_def Let_def le_floor_iff intro: order_trans [of _ "\<lfloor>y\<rfloor>"])

lemma power_int_split: "2 powi (a + b) = 2 powi a * (2::rat) powi b"
  by (simp add: power_int_add)

lemma bitlen_powi:
  assumes "0 < n"
  shows "2 powi (bitlen n - 1) \<le> (of_int n::rat)" and "(of_int n::rat) < 2 powi (bitlen n)"
proof -
  have b: "2 ^ nat (bitlen n - 1) \<le> n \<and> n < 2 ^ nat (bitlen n)" using assms by (rule bitlen_bounds)
  have pos: "0 < bitlen n" using assms by (simp add: bitlen_def compute_floorlog)
  have "(of_int (2 ^ nat (bitlen n - 1))::rat) \<le> of_int n" using b of_int_le_iff by blast
  then show "2 powi (bitlen n - 1) \<le> (of_int n::rat)" using pos by (simp add: power_int_def)
  have "(of_int n::rat) < of_int (2 ^ nat (bitlen n))" using b of_int_less_iff by blast
  then show "(of_int n::rat) < 2 powi (bitlen n)" using pos by (simp add: power_int_def)
qed

lemma binary_exponent_bounds:
  assumes "0 < x"
  shows "2 powi (binary_exponent x) \<le> x" and "x < 2 powi (binary_exponent x + 1)"
proof -
  obtain n d where q: "quotient_of x = (n, d)" by (cases "quotient_of x")
  have d: "0 < d" and x: "x = of_int n / of_int d"
    using q by (auto simp: quotient_of_denom_pos quotient_of_div)
  with assms have n: "0 < n" by (simp add: zero_less_divide_iff)
  let ?bn = "bitlen n" and ?bd = "bitlen d"
  note nb = bitlen_powi [OF n] and db = bitlen_powi [OF d]
  have dpos: "(0::rat) < of_int d" using d by simp
  have "2 powi (?bn - ?bd - 1) * of_int d \<le> 2 powi (?bn - ?bd - 1) * (2 powi ?bd::rat)"
    using db(2) by (intro mult_left_mono) auto
  also have "\<dots> = 2 powi (?bn - 1)"
    by (simp add: power_int_split [symmetric])
  also note nb(1)
  finally have lo: "2 powi (?bn - ?bd - 1) \<le> x" using dpos by (simp add: x pos_le_divide_eq)
  have "of_int n < (2 powi ?bn::rat)" by (rule nb(2))
  also have "\<dots> = 2 powi (?bn - ?bd + 1) * 2 powi (?bd - 1)"
    by (simp add: power_int_split [symmetric])
  also have "\<dots> \<le> 2 powi (?bn - ?bd + 1) * of_int d"
    using db(1) by (intro mult_left_mono) auto
  finally have hi: "x < 2 powi (?bn - ?bd + 1)" using dpos by (simp add: x pos_divide_less_eq)
  show "2 powi (binary_exponent x) \<le> x" "x < 2 powi (binary_exponent x + 1)"
    using lo hi by (auto simp: binary_exponent_def q Let_def)
qed

lemma powi_neg: "(2::rat) powi (- int n) = 1 / 2 ^ n"
  by (simp add: power_int_def power_one_over)

lemma powi_mono: "a \<le> b \<Longrightarrow> 2 powi a \<le> (2::rat) powi b"
  by (rule power_int_increasing) simp_all

lemma powi_less_cancel: "2 powi a < (2::rat) powi b \<Longrightarrow> a < b"
  using powi_mono [of b a] by (meson leD not_le_imp_less)

text \<open>The rounding error is at most half a unit in the last place.\<close>

lemma f64_round_error:
  assumes "0 < x" "x < 2 powi k"
  shows "\<bar>f64_round x - x\<bar> \<le> 2 powi (k - 54)"
proof -
  let ?e = "binary_exponent x"
  let ?u = "2 powi (?e - 52) :: rat"
  have u: "0 < ?u" by simp
  have "2 powi ?e < (2::rat) powi k" using binary_exponent_bounds(1) [OF assms(1)] assms(2) by simp
  then have e: "?e < k" by (rule powi_less_cancel)
  have "f64_round x - x = (of_int (round_even (x / ?u)) - x / ?u) * ?u"
    using assms u by (simp add: f64_round_def Let_def left_diff_distrib)
  then have "\<bar>f64_round x - x\<bar> = \<bar>of_int (round_even (x / ?u)) - x / ?u\<bar> * ?u"
    using u by (simp add: abs_mult)
  also have "\<dots> \<le> 1 / 2 * ?u"
    using round_even_error u by (intro mult_right_mono) auto
  also have "\<dots> = 2 powi (?e - 53)"
    using power_int_split [of "?e - 53" 1] by simp
  also have "\<dots> \<le> 2 powi (k - 54)" using e by (intro powi_mono) simp
  finally show ?thesis .
qed

lemma f64_round_near:
  assumes "0 \<le> x" "x < 2 powi k"
  shows "\<bar>f64_round x - x\<bar> \<le> 2 powi (k - 54)"
proof (cases "x = 0")
  case True
  then show ?thesis by (simp add: f64_round_def)
next
  case False
  with assms show ?thesis by (intro f64_round_error) simp_all
qed

lemma f64_round_nonneg [simp]: "0 \<le> f64_round x"
  using round_even_ge [of 0 "x / 2 powi (binary_exponent x - 52)"] by (simp add: f64_round_def Let_def)

lemma f64_sub_near:
  assumes "0 \<le> a" "a < 2 powi k" "0 \<le> b" "b < 2 powi k"
  shows "\<bar>f64_sub a b - (a - b)\<bar> \<le> 2 powi (k - 54)"
proof (cases "a < b")
  case True
  then show ?thesis using f64_round_near [of "b - a" k] assms by (simp add: f64_sub_def abs_le_iff)
next
  case False
  then show ?thesis using f64_round_near [of "a - b" k] assms by (simp add: f64_sub_def)
qed

text \<open>Rounding does not cross a power of two from above.\<close>

lemma f64_round_ge_power:
  assumes "2 powi k \<le> x" "x < 2 powi (k + 1)"
  shows "2 powi k \<le> f64_round x"
proof -
  have pos: "0 < x" using assms(1) zero_less_power_int [of 2 k] by (meson less_le_trans zero_less_numeral)
  have e: "binary_exponent x = k"
  proof -
    note b = binary_exponent_bounds [OF pos]
    have "2 powi k < (2::rat) powi (binary_exponent x + 1)" using b assms by simp
    moreover have "2 powi binary_exponent x < (2::rat) powi (k + 1)" using b assms by simp
    ultimately show ?thesis by (auto dest!: powi_less_cancel)
  qed
  have k: "2 powi k = 2 ^ 52 * (2 powi (k - 52)::rat)"
    using power_int_split [of 52 "k - 52"] by simp
  then have "of_int (2 ^ 52) \<le> x / 2 powi (k - 52)"
    using assms(1) by (simp add: pos_le_divide_eq)
  then have "2 ^ 52 \<le> round_even (x / 2 powi (k - 52))" by (rule round_even_ge)
  then have "(of_int (2 ^ 52)::rat) \<le> of_int (round_even (x / 2 powi (k - 52)))"
    by (rule of_int_le_iff [THEN iffD2])
  then have "of_int (2 ^ 52) * 2 powi (k - 52) \<le> of_int (round_even (x / 2 powi (k - 52))) * (2 powi (k - 52)::rat)"
    by (rule mult_right_mono) simp
  then show ?thesis using pos e k by (simp add: f64_round_def Let_def)
qed

text \<open>Counts below \<open>2 ^ 53\<close> are represented exactly.\<close>

lemma f64_of_nat_exact:
  assumes "n < 2 ^ 53"
  shows "f64_of_nat n = of_nat n"
proof (cases "n = 0")
  case False
  let ?x = "of_nat n :: rat" and ?e = "binary_exponent (of_nat n)"
  have pos: "0 < ?x" using False by simp
  have "?x < of_nat (2 ^ 53)" using assms of_nat_less_iff by blast
  then have "2 powi ?e < (2::rat) powi 53"
    using binary_exponent_bounds(1) [OF pos] by (simp add: power_int_def)
  then have e: "?e \<le> 52" using powi_less_cancel by fastforce
  have "?x / 2 powi (?e - 52) = ?x * 2 powi (52 - ?e)"
    by (simp add: power_int_diff field_simps)
  also have "\<dots> = of_int (int n * 2 ^ nat (52 - ?e))"
    using e by (simp add: power_int_def)
  finally have "of_int (round_even (?x / 2 powi (?e - 52))) = ?x / 2 powi (?e - 52)"
    by (metis round_even_of_int)
  with pos show ?thesis by (simp add: f64_of_nat_def f64_round_def Let_def)
qed (simp add: f64_of_nat_def f64_round_def)

section \<open>Comparing a quotient of counts with one half\<close>

lemma f64_half_below:
  assumes "2 * m < n" "n < 2 ^ 53"
  shows "f64_div (f64_of_nat m) (f64_of_nat n) < 1 / 2"
proof (cases "m = 0")
  case False
  let ?x = "of_nat m / of_nat n :: rat"
  have n: "(0::rat) < of_nat n" using assms by simp
  have "2 * int m + 1 \<le> int n" using assms by linarith
  then have "(of_int (2 * int m + 1)::rat) \<le> of_int (int n)" by (rule of_int_le_iff [THEN iffD2])
  then have "2 * of_nat m + 1 \<le> (of_nat n::rat)" by simp
  then have x: "?x \<le> 1 / 2 - 1 / (2 * of_nat n)" using n by (simp add: field_simps)
  have "(of_nat n::rat) < of_nat (2 ^ 53)" using assms of_nat_less_iff by blast
  then have "1 / (2 * of_nat n) > (1 / 2 ^ 54 :: rat)" using n by (simp add: field_simps)
  with x have x': "?x < 1 / 2 - 1 / 2 ^ 54" by (rule order.strict_trans1 [OF _ diff_strict_left_mono])
  have pos: "0 < ?x" using False n by simp
  have "?x < 1 / 2" using x' by (rule order.strict_trans) simp
  then have "\<bar>f64_round ?x - ?x\<bar> \<le> 2 powi (- 1 - 54)"
    using pos by (intro f64_round_error) (simp_all add: power_int_minus)
  then have "f64_round ?x - ?x \<le> 2 powi (- 1 - 54)" by (rule abs_le_D1)
  then have "f64_round ?x \<le> ?x + 2 powi (- 1 - 54)" by (simp only: diff_le_eq add.commute)
  also have "(2::rat) powi (- 1 - 54) = 1 / 2 ^ 55" using powi_neg [of 55] by simp
  also have "?x + 1 / 2 ^ 55 < 1 / 2 - 1 / 2 ^ 54 + (1 / 2 ^ 55 :: rat)" using x' by (rule add_strict_right_mono)
  also have "\<dots> \<le> 1 / 2" by simp
  finally show ?thesis using assms by (simp add: f64_div_def f64_of_nat_exact)
qed (simp add: f64_div_def f64_of_nat_def f64_round_def)

lemma f64_half_above:
  assumes "n \<le> 2 * m" "m \<le> n" "0 < n" "n < 2 ^ 53"
  shows "1 / 2 \<le> f64_div (f64_of_nat m) (f64_of_nat n)"
proof -
  let ?x = "of_nat m / of_nat n :: rat"
  have n: "(0::rat) < of_nat n" using assms by simp
  have "(of_nat n::rat) \<le> of_nat (2 * m)" using assms(1) of_nat_le_iff by blast
  then have lo: "1 / 2 \<le> ?x" using n by (simp add: field_simps)
  have "1 / 2 \<le> f64_round ?x"
  proof (cases "m = n")
    case True
    then have "?x = 1" using n by simp
    moreover have "2 powi 0 \<le> f64_round (1::rat)" by (rule f64_round_ge_power) simp_all
    ultimately show ?thesis by simp
  next
    case False
    then have "m < n" using assms(2) by simp
    then have "?x < 1" using n by simp
    then have "2 powi (- 1) \<le> f64_round ?x"
      using lo by (intro f64_round_ge_power) (simp_all add: power_int_minus)
    then show ?thesis by (simp add: power_int_minus)
  qed
  then show ?thesis using assms by (simp add: f64_div_def f64_of_nat_exact)
qed

text \<open>A rounded rate reaches one half exactly when at least half of the counted items are meant.\<close>

lemma f64_rate_half:
  assumes "m \<le> n" "0 < n" "n < 2 ^ 53"
  shows "1 / 2 \<le> f64_div (f64_of_nat m) (f64_of_nat n) \<longleftrightarrow> n \<le> 2 * m"
  using f64_half_below [of m n] f64_half_above [of n m] assms by (meson leD leI)

end
