(* ===== verification/Circuit_Breaker.thy ===== *)
theory Circuit_Breaker
  imports Hi_Prelude Step_System Float64
begin

text \<open>
  The circuit breaker of \<open>hi-ai/src/circuit_breaker.rs\<close>: its configuration and state, the half-open
  probe slots, \<open>check\<close> and \<open>record\<close> with the observer events they emit. Instants and durations are
  nanoseconds of the monotonic clock, counted from its origin. \<open>record\<close> reads the clock once and \<open>check\<close>
  up to three times, each under the lock, so the readings of successive calls never decrease. The
  theory shows exactly when a check is admitted and that the breaker never rejects for ever, how far
  the wait it prints is from the wait that remains, and that the deque of recent outcomes answers like
  the full outcome history.
\<close>

section \<open>Types\<close>

datatype breaker_state = Closed | Open | HalfOpen

datatype breaker_outcome = Success | Failure

record breaker_event =
  previous :: breaker_state
  current :: breaker_state
  rejected :: bool

text \<open>The error rate threshold is the rational number the \<open>f64\<close> denotes.\<close>

record breaker_config =
  window_duration :: nat
  min_samples :: nat
  error_rate_threshold :: rat
  open_duration :: nat
  half_open_max_probes :: nat
  half_open_probe_timeout :: nat

definition secs :: "nat \<Rightarrow> nat" where
  "secs n = n * 1000000000"

definition breaker_config_server :: breaker_config where
  "breaker_config_server = \<lparr>window_duration = secs 60, min_samples = 10, error_rate_threshold = 1 / 2,
     open_duration = secs 10, half_open_max_probes = 1, half_open_probe_timeout = secs 300\<rparr>"

definition breaker_config_client :: breaker_config where
  "breaker_config_client = \<lparr>window_duration = secs 60, min_samples = 5, error_rate_threshold = 1 / 2,
     open_duration = secs 60, half_open_max_probes = 1, half_open_probe_timeout = secs 300\<rparr>"

record breaker =
  br_state :: breaker_state
  opened_at :: "nat option"
  half_open_probes :: nat
  half_open_probe_granted_at :: "nat option"
  br_window :: "(nat \<times> bool) list"

text \<open>
  The wait of a rejection message: \<open>Duration::as_secs_f64\<close> adds the seconds and the rounded quotient of
  the nanoseconds, and \<open>{:.1}\<close> prints the exact value of the float with one decimal, ties to even.
\<close>

definition as_secs_f64 :: "nat \<Rightarrow> rat" where
  "as_secs_f64 n = f64_add (f64_of_nat (n div 1000000000))
     (f64_div (f64_of_nat (n mod 1000000000)) (f64_of_nat 1000000000))"

definition one_decimal :: "rat \<Rightarrow> string" where
  "one_decimal x = (let n = nat (round_even (10 * \<bar>x\<bar>))
     in (if x < 0 then ''-'' else []) @ decimal (n div 10) @ ''.'' @ decimal (n mod 10))"

definition open_message :: "rat \<Rightarrow> string" where
  "open_message x = ''circuit breaker open; retry after '' @ one_decimal x @ ''s''"

definition exhausted_message :: string where
  "exhausted_message = ''circuit breaker half-open; probe slots exhausted''"

section \<open>Operations\<close>

definition breaker_new :: breaker where
  "breaker_new = \<lparr>br_state = Closed, opened_at = None, half_open_probes = 0,
     half_open_probe_granted_at = None, br_window = []\<rparr>"

text \<open>
  \<open>t2\<close> is the reading behind \<open>granted.elapsed()\<close> and \<open>t3\<close> the one stored as the time of the grant; an
  elapsed time saturates at 0.
\<close>

definition grant_probe :: "nat \<Rightarrow> nat \<Rightarrow> nat \<times> nat \<Rightarrow> breaker \<Rightarrow> (string, unit) result \<times> breaker" where
  "grant_probe max_probes probe_timeout clock b = (let (t2, t3) = clock in
     if half_open_probes b < max_probes then
       (Inr (), b\<lparr>half_open_probes := half_open_probes b + 1, half_open_probe_granted_at := Some t3\<rparr>)
     else if (case half_open_probe_granted_at b of None \<Rightarrow> True
              | Some granted \<Rightarrow> probe_timeout \<le> t2 - granted) then
       (Inr (), b\<lparr>half_open_probe_granted_at := Some t3\<rparr>)
     else (Inl exhausted_message, b))"

text \<open>
  The events handed to the observer. The transition counter and the trace line that accompany a change
  of state are telemetry and are left out.
\<close>

definition observe :: "breaker_state \<Rightarrow> breaker_state \<Rightarrow> bool \<Rightarrow> breaker_event list" where
  "observe p c r = [\<lparr>previous = p, current = c, rejected = r\<rparr>]"

definition is_open :: "breaker \<Rightarrow> bool" where
  "is_open b = (br_state b = Open)"

definition breaker_grant :: "breaker_config \<Rightarrow> nat \<times> nat \<Rightarrow> breaker_state \<Rightarrow> breaker
    \<Rightarrow> (string, unit) result \<times> breaker \<times> breaker_event list" where
  "breaker_grant cfg clock prev b =
     (let (r, b') = grant_probe (half_open_max_probes cfg) (half_open_probe_timeout cfg) clock b in
      (r, b', if br_state b' \<noteq> prev \<or> \<not> is_ok r then observe prev (br_state b') (\<not> is_ok r) else []))"

text \<open>
  The three readings of the clock, in the order they are made: \<open>t1\<close> decides whether the open period is
  over, \<open>t2\<close> gives the wait of the message or the age of the last probe, \<open>t3\<close> is the time of a grant.
\<close>

definition breaker_check :: "breaker_config \<Rightarrow> nat \<times> nat \<times> nat \<Rightarrow> breaker
    \<Rightarrow> (string, unit) result \<times> breaker \<times> breaker_event list" where
  "breaker_check cfg clock b = (let (t1, t2, t3) = clock in case br_state b of
       Closed \<Rightarrow> (Inr (), b, [])
     | Open \<Rightarrow> (case opened_at b of
           Some opened \<Rightarrow>
             if open_duration cfg \<le> t1 - opened
             then breaker_grant cfg (t2, t3) Open (b\<lparr>br_state := HalfOpen, half_open_probes := 0\<rparr>)
             else (Inl (open_message (f64_sub (as_secs_f64 (open_duration cfg)) (as_secs_f64 (t2 - opened)))),
                   b, observe Open Open True)
         | None \<Rightarrow> breaker_grant cfg (t2, t3) Open b)
     | HalfOpen \<Rightarrow> breaker_grant cfg (t2, t3) HalfOpen b)"

text \<open>The eviction loop: pop the front while it is older than the cutoff.\<close>

fun evict :: "nat \<Rightarrow> (nat \<times> bool) list \<Rightarrow> (nat \<times> bool) list" where
  "evict cutoff [] = []"
| "evict cutoff ((ts, ok) # w) = (if ts < cutoff then evict cutoff w else (ts, ok) # w)"

text \<open>\<open>now.checked_sub(window_duration)\<close> is absent when the clock is younger than the window.\<close>

definition evict_expired :: "breaker_config \<Rightarrow> nat \<Rightarrow> (nat \<times> bool) list \<Rightarrow> (nat \<times> bool) list" where
  "evict_expired cfg now w = (if window_duration cfg \<le> now then evict (now - window_duration cfg) w else w)"

definition count_failures :: "(nat \<times> bool) list \<Rightarrow> nat" where
  "count_failures w = length (filter (\<lambda>(_, ok). \<not> ok) w)"

definition error_rate :: "(nat \<times> bool) list \<Rightarrow> rat" where
  "error_rate w = (if length w = 0 then 0 else f64_div (f64_of_nat (count_failures w)) (f64_of_nat (length w)))"

definition should_trip :: "breaker_config \<Rightarrow> (nat \<times> bool) list \<Rightarrow> bool" where
  "should_trip cfg w \<longleftrightarrow> min_samples cfg \<le> length w \<and>
     error_rate_threshold cfg \<le> f64_div (f64_of_nat (count_failures w)) (f64_of_nat (length w))"

definition breaker_record :: "breaker_config \<Rightarrow> nat \<Rightarrow> breaker_outcome \<Rightarrow> breaker
    \<Rightarrow> breaker \<times> breaker_event list" where
  "breaker_record cfg now outcome b =
     (let is_success = (outcome = Success);
          w = evict_expired cfg now (br_window b) @ [(now, is_success)];
          b' = (case br_state b of
              HalfOpen \<Rightarrow>
                if is_success
                then b\<lparr>br_state := Closed, opened_at := None, half_open_probes := 0,
                       half_open_probe_granted_at := None, br_window := []\<rparr>
                else b\<lparr>br_state := Open, opened_at := Some now, half_open_probes := 0,
                       half_open_probe_granted_at := None, br_window := w\<rparr>
            | Closed \<Rightarrow>
                if should_trip cfg w then b\<lparr>br_state := Open, opened_at := Some now, br_window := w\<rparr>
                else b\<lparr>br_window := w\<rparr>
            | Open \<Rightarrow> b\<lparr>br_window := w\<rparr>)
      in (b', if br_state b' \<noteq> br_state b then observe (br_state b) (br_state b') False else []))"

lemmas breaker_defs = breaker_check_def breaker_grant_def grant_probe_def breaker_record_def observe_def

section \<open>Histories of calls\<close>

text \<open>
  Every call locks the breaker, so a run is a sequence of calls. A step waits some time and makes one
  call; the state carries the last reading of the clock. A check says how much later its second and
  third reading are.
\<close>

datatype breaker_call = CallCheck nat nat | CallRecord breaker_outcome

definition check_clock :: "nat \<Rightarrow> nat \<Rightarrow> nat \<Rightarrow> nat \<times> nat \<times> nat" where
  "check_clock t d2 d3 = (t, t + d2, t + d2 + d3)"

fun breaker_step :: "breaker_config \<Rightarrow> nat \<times> breaker_call \<Rightarrow> nat \<times> breaker \<Rightarrow> nat \<times> breaker" where
  "breaker_step cfg (dt, CallCheck d2 d3) (now, b) =
     (now + dt + d2 + d3, fst (snd (breaker_check cfg (check_clock (now + dt) d2 d3) b)))"
| "breaker_step cfg (dt, CallRecord out) (now, b) = (now + dt, fst (breaker_record cfg (now + dt) out b))"

definition past :: "nat \<Rightarrow> nat option \<Rightarrow> bool" where
  "past now t \<longleftrightarrow> (case t of None \<Rightarrow> False | Some x \<Rightarrow> x \<le> now)"

definition breaker_inv :: "breaker_config \<Rightarrow> nat \<times> breaker \<Rightarrow> bool" where
  "breaker_inv cfg = (\<lambda>(now, b).
     sorted (map fst (br_window b)) \<and> (\<forall>(t, _) \<in> set (br_window b). t \<le> now) \<and>
     half_open_probes b \<le> half_open_max_probes cfg \<and>
     (case br_state b of
        Closed \<Rightarrow> opened_at b = None \<and> half_open_probes b = 0 \<and> half_open_probe_granted_at b = None
      | Open \<Rightarrow> past now (opened_at b) \<and> half_open_probes b = 0 \<and> half_open_probe_granted_at b = None
      | HalfOpen \<Rightarrow> past now (half_open_probe_granted_at b)))"

lemma past_simps [simp]: "\<not> past now None" "past now (Some t) \<longleftrightarrow> t \<le> now"
  by (simp_all add: past_def)

lemma past_later: "past now t \<Longrightarrow> past (now + dt) t"
  by (auto simp: past_def split: option.splits)

lemma evict_filter: "sorted (map fst w) \<Longrightarrow> evict c w = filter (\<lambda>(t, _). c \<le> t) w"
proof (induction c w rule: evict.induct)
  case (2 c ts ok w)
  then show ?case by (auto simp: not_less intro!: filter_True [symmetric])
qed simp

text \<open>Both branches of the eviction keep the outcomes at most one window old.\<close>

lemma evict_expired_filter:
  "sorted (map fst w) \<Longrightarrow> evict_expired cfg now w = filter (\<lambda>(t, _). now \<le> t + window_duration cfg) w"
  by (auto simp: evict_expired_def evict_filter le_diff_conv intro!: filter_True [symmetric])

lemma sorted_window:
  assumes "sorted (map fst w)" "\<forall>(t, _) \<in> set w. t \<le> now"
  shows "sorted (map fst (evict_expired cfg now w @ [(now, ok)]))"
    and "\<forall>(t, _) \<in> set (evict_expired cfg now w @ [(now, ok)]). t \<le> now"
  using assms by (auto simp: evict_expired_filter sorted_append intro: sorted_filter)

lemma check_inv:
  assumes "breaker_inv cfg (now, b)" "now \<le> t3"
  shows "breaker_inv cfg (t3, fst (snd (breaker_check cfg (t1, t2, t3) b)))"
  using assms
  by (cases "br_state b"; cases "opened_at b"; cases "half_open_probe_granted_at b")
    (auto simp: breaker_inv_def breaker_check_def breaker_grant_def grant_probe_def)

lemma record_inv:
  assumes "breaker_inv cfg (now, b)"
  shows "breaker_inv cfg (now + dt, fst (breaker_record cfg (now + dt) out b))"
proof -
  have s: "sorted (map fst (br_window b))" "\<forall>(t, _) \<in> set (br_window b). t \<le> now + dt"
    using assms by (auto simp: breaker_inv_def intro: trans_le_add1)
  show ?thesis
    using assms sorted_window [OF s]
    by (cases "br_state b") (auto simp: breaker_inv_def breaker_record_def Let_def past_later)
qed

interpretation breaker: step_system "breaker_step cfg" "breaker_inv cfg" for cfg
proof
  fix s a
  show "breaker_inv cfg s \<Longrightarrow> breaker_inv cfg (breaker_step cfg a s)"
    by (cases a; cases s; cases "snd a") (auto simp: check_clock_def intro!: check_inv record_inv)
qed

lemma breaker_new_inv [simp]: "breaker_inv cfg (now, breaker_new)"
  by (simp add: breaker_inv_def breaker_new_def)

lemmas breaker_run_inv = breaker.run_inv [OF breaker_new_inv]

section \<open>Admission\<close>

lemma grant_admits:
  "is_ok (fst (breaker_grant cfg (t2, t3) p b)) \<longleftrightarrow> half_open_probes b < half_open_max_probes cfg \<or>
     (case half_open_probe_granted_at b of None \<Rightarrow> True | Some t \<Rightarrow> half_open_probe_timeout cfg \<le> t2 - t)"
  by (auto simp: breaker_grant_def grant_probe_def split: option.splits)

definition admission :: "breaker_config \<Rightarrow> nat \<Rightarrow> nat \<Rightarrow> breaker \<Rightarrow> bool" where
  "admission cfg t1 t2 b = (case br_state b of
       Closed \<Rightarrow> True
     | Open \<Rightarrow> open_duration cfg \<le> t1 - the (opened_at b)
     | HalfOpen \<Rightarrow> half_open_probes b < half_open_max_probes cfg \<or>
         half_open_probe_timeout cfg \<le> t2 - the (half_open_probe_granted_at b))"

lemma check_admission:
  assumes "breaker_inv cfg (now, b)"
  shows "is_ok (fst (breaker_check cfg (t1, t2, t3) b)) \<longleftrightarrow> admission cfg t1 t2 b"
  using assms
  by (cases "br_state b")
    (auto simp: breaker_inv_def breaker_check_def admission_def grant_admits past_def split: option.splits)

lemma admission_later:
  assumes "breaker_inv cfg (now, b)" "open_duration cfg \<le> t1 - now" "half_open_probe_timeout cfg \<le> t1 - now"
    and "t1 \<le> t2"
  shows "admission cfg t1 t2 b"
  using assms
  by (cases "br_state b") (auto simp: breaker_inv_def admission_def past_def split: option.splits)

section \<open>The wait in the message\<close>

lemma near_diff:
  fixes x y z :: rat
  assumes "\<bar>z - (x - y)\<bar> \<le> e1" "\<bar>x - u\<bar> \<le> e2" "\<bar>y - v\<bar> \<le> e3" "e1 + e2 + e3 \<le> e"
  shows "\<bar>z - (u - v)\<bar> \<le> e"
  using assms by linarith

lemma near_sum:
  fixes x y z :: rat
  assumes "\<bar>z - (x + y)\<bar> \<le> e1" "\<bar>y - v\<bar> \<le> e2" "e1 + e2 \<le> e"
  shows "\<bar>z - (x + v)\<bar> \<le> e"
  using assms by linarith

lemma near_below:
  fixes x y :: rat
  assumes "\<bar>y - v\<bar> \<le> e" "e \<le> 1" "v < 1" "x < c"
  shows "x + y < c + 2"
  using assms by linarith

lemma as_secs_f64_near:
  assumes "n < secs (2 ^ 32)"
  shows "\<bar>as_secs_f64 n - of_nat n / 10 ^ 9\<bar> \<le> 2 powi (- 20)" "0 \<le> as_secs_f64 n" "as_secs_f64 n < 2 powi 33"
proof -
  let ?q = "n div 1000000000" and ?r = "n mod 1000000000"
  let ?d = "f64_div (f64_of_nat ?r) (f64_of_nat 1000000000)"
  have q: "?q < 2 ^ 32" using assms by (simp add: secs_def div_less_iff_less_mult)
  then have q': "(of_nat ?q::rat) < 2 ^ 32" by (metis of_nat_less_iff of_nat_numeral of_nat_power)
  have exact: "f64_of_nat ?q = of_nat ?q" "f64_of_nat ?r = of_nat ?r" "f64_of_nat 1000000000 = 1000000000"
    using q by (simp_all add: f64_of_nat_exact)
  have r: "(of_nat ?r::rat) < 1000000000" using of_nat_less_iff [of ?r 1000000000, where 'a = rat] by simp
  have d: "\<bar>?d - of_nat ?r / 1000000000\<bar> \<le> 2 powi (0 - 54)" "0 \<le> ?d"
    using r f64_round_near [of "of_nat ?r / 1000000000" 0] by (simp_all add: f64_div_def exact)
  have pow: "(2::rat) powi (0 - 54) = 1 / 2 ^ 54" "(2::rat) powi (33 - 54) = 1 / 2 ^ 21"
      "(2::rat) powi (- 20) = 1 / 2 ^ 20" "(2::rat) powi 33 = 2 ^ 33"
    using powi_neg [of 54] powi_neg [of 21] powi_neg [of 20] by (simp_all add: power_int_def)
  have "(of_nat ?r::rat) / 1000000000 < 1" using r by simp
  then have small: "of_nat ?q + ?d < 2 ^ 32 + 2" using q' by (intro near_below [OF d(1)]) (simp_all add: pow)
  have sum: "\<bar>as_secs_f64 n - (of_nat ?q + ?d)\<bar> \<le> 2 powi (33 - 54)"
    unfolding as_secs_f64_def f64_add_def exact(1) using d(2) small by (intro f64_round_near) (simp_all add: pow(4))
  have "(of_nat (?q * 1000000000 + ?r)::rat) = of_nat n" by (simp only: div_mult_mod_eq)
  then have "(of_nat n::rat) = of_nat ?q * 1000000000 + of_nat ?r"
    by (simp only: of_nat_add of_nat_mult of_nat_numeral)
  then have n: "(of_nat n::rat) / 10 ^ 9 = of_nat ?q + of_nat ?r / 1000000000" by (simp add: field_simps)
  show "\<bar>as_secs_f64 n - of_nat n / 10 ^ 9\<bar> \<le> 2 powi (- 20)"
    using sum d(1) unfolding n pow by (rule near_sum) simp
  show "0 \<le> as_secs_f64 n" by (simp add: as_secs_f64_def f64_add_def)
  have "as_secs_f64 n \<le> of_nat ?q + ?d + 1 / 2 ^ 21" using sum unfolding pow by linarith
  then show "as_secs_f64 n < 2 powi 33" using small unfolding pow by simp
qed

lemma printed_wait_near:
  assumes "n < secs (2 ^ 32)" "m < secs (2 ^ 32)"
  shows "\<bar>f64_sub (as_secs_f64 n) (as_secs_f64 m) - (of_nat n - of_nat m) / 10 ^ 9\<bar> \<le> 1 / 10 ^ 5"
proof -
  note n = as_secs_f64_near [OF assms(1)] and m = as_secs_f64_near [OF assms(2)]
  have d: "\<bar>f64_sub (as_secs_f64 n) (as_secs_f64 m) - (as_secs_f64 n - as_secs_f64 m)\<bar> \<le> 2 powi (33 - 54)"
    using n(2, 3) m(2, 3) by (intro f64_sub_near)
  have pow: "(2::rat) powi (33 - 54) = 1 / 2 ^ 21" "(2::rat) powi (- 20) = 1 / 2 ^ 20"
    using powi_neg [of 21] powi_neg [of 20] by simp_all
  show ?thesis
    using d n(1) m(1) unfolding diff_divide_distrib pow by (rule near_diff) simp
qed

section \<open>The full history as the specification\<close>

text \<open>
  The specification keeps every outcome since the last recovery and decides whether to trip on those
  at most one window old. The decision is a parameter: the one of the code divides rounded counts, the
  one of a threshold of one half counts.
\<close>

definition recent :: "breaker_config \<Rightarrow> nat \<Rightarrow> (nat \<times> bool) list \<Rightarrow> (nat \<times> bool) list" where
  "recent cfg now h = filter (\<lambda>(t, _). now \<le> t + window_duration cfg) h"

definition half_failed :: "breaker_config \<Rightarrow> (nat \<times> bool) list \<Rightarrow> bool" where
  "half_failed cfg r \<longleftrightarrow> min_samples cfg \<le> length r \<and> length r \<le> 2 * count_failures r"

definition history_record :: "((nat \<times> bool) list \<Rightarrow> bool) \<Rightarrow> breaker_config \<Rightarrow> nat \<Rightarrow> breaker_outcome \<Rightarrow> breaker
    \<Rightarrow> breaker \<times> breaker_event list" where
  "history_record trips cfg now outcome b =
     (let h = br_window b @ [(now, outcome = Success)]; r = recent cfg now h;
          b' = (case (br_state b, outcome) of
              (HalfOpen, Success) \<Rightarrow> breaker_new
            | (HalfOpen, Failure) \<Rightarrow> breaker_new\<lparr>br_state := Open, opened_at := Some now, br_window := h\<rparr>
            | (Closed, _) \<Rightarrow>
                if trips r then b\<lparr>br_state := Open, opened_at := Some now, br_window := h\<rparr>
                else b\<lparr>br_window := h\<rparr>
            | (Open, _) \<Rightarrow> b\<lparr>br_window := h\<rparr>)
      in (b', if br_state b' \<noteq> br_state b then observe (br_state b) (br_state b') False else []))"

text \<open>What the callers and the observer see of a run: the answers of the checks and the events.\<close>

fun breaker_trace :: "breaker_config \<Rightarrow> (nat \<Rightarrow> breaker_outcome \<Rightarrow> breaker \<Rightarrow> breaker \<times> breaker_event list)
    \<Rightarrow> (nat \<times> breaker_call) list \<Rightarrow> nat \<times> breaker
    \<Rightarrow> ((string, unit) result option \<times> breaker_event list) list" where
  "breaker_trace cfg rec [] s = []"
| "breaker_trace cfg rec ((dt, CallCheck d2 d3) # calls) (now, b) =
     (let (r, b', es) = breaker_check cfg (check_clock (now + dt) d2 d3) b
      in (Some r, es) # breaker_trace cfg rec calls (now + dt + d2 + d3, b'))"
| "breaker_trace cfg rec ((dt, CallRecord out) # calls) (now, b) =
     (let (b', es) = rec (now + dt) out b
      in (None, es) # breaker_trace cfg rec calls (now + dt, b'))"

text \<open>The deque holds the recent part of the history, and the other fields agree.\<close>

definition window_of_history :: "breaker_config \<Rightarrow> nat \<Rightarrow> breaker \<Rightarrow> breaker \<Rightarrow> bool" where
  "window_of_history cfg now b a \<longleftrightarrow> b = a\<lparr>br_window := br_window b\<rparr> \<and>
     sorted (map fst (br_window a)) \<and> (\<forall>(t, _) \<in> set (br_window a). t \<le> now) \<and>
     (\<exists>c \<le> now. br_window b = recent cfg c (br_window a))"

lemma new_of_history [simp]: "window_of_history cfg now breaker_new breaker_new"
  by (auto simp: window_of_history_def breaker_new_def recent_def)

lemma new_window [simp]: "br_window breaker_new = []"
  by (simp add: breaker_new_def)

lemma count_failures_le: "count_failures w \<le> length w"
  by (simp add: count_failures_def)

lemma should_trip_half:
  assumes "error_rate_threshold cfg = 1 / 2" "w \<noteq> []" "length w < 2 ^ 53"
  shows "should_trip cfg w \<longleftrightarrow> half_failed cfg w"
  using assms(2, 3) f64_rate_half [OF count_failures_le, of w]
  unfolding should_trip_def half_failed_def assms(1) by simp

lemma sim_check:
  assumes "window_of_history cfg now b a" "now \<le> t"
  shows "fst (breaker_check cfg clock b) = fst (breaker_check cfg clock a)"
    and "snd (snd (breaker_check cfg clock b)) = snd (snd (breaker_check cfg clock a))"
    and "window_of_history cfg t (fst (snd (breaker_check cfg clock b))) (fst (snd (breaker_check cfg clock a)))"
    and "br_window (fst (snd (breaker_check cfg clock a))) = br_window a"
proof -
  obtain w where b: "b = a\<lparr>br_window := w\<rparr>" using assms by (auto simp: window_of_history_def)
  have chk: "breaker_check cfg clock (a\<lparr>br_window := w\<rparr>) =
      (let (r, a', es) = breaker_check cfg clock a in (r, a'\<lparr>br_window := w\<rparr>, es))"
    by (auto simp: breaker_check_def breaker_grant_def grant_probe_def Let_def
        split: breaker_state.splits option.splits prod.splits)
  show keep: "br_window (fst (snd (breaker_check cfg clock a))) = br_window a"
    by (auto simp: breaker_check_def breaker_grant_def grant_probe_def Let_def
        split: breaker_state.splits option.splits prod.splits)
  show "fst (breaker_check cfg clock b) = fst (breaker_check cfg clock a)"
    and "snd (snd (breaker_check cfg clock b)) = snd (snd (breaker_check cfg clock a))"
    by (simp_all add: b chk case_prod_beta)
  show "window_of_history cfg t (fst (snd (breaker_check cfg clock b))) (fst (snd (breaker_check cfg clock a)))"
    using assms by (auto simp: window_of_history_def b chk keep case_prod_beta intro: order_trans)
qed

text \<open>The two decisions have to agree on windows no longer than the history and its new outcome.\<close>

definition decides_like :: "breaker_config \<Rightarrow> ((nat \<times> bool) list \<Rightarrow> bool) \<Rightarrow> nat \<Rightarrow> bool" where
  "decides_like cfg trips n \<longleftrightarrow> (\<forall>w. w \<noteq> [] \<and> length w \<le> n \<longrightarrow> should_trip cfg w = trips w)"

lemma sim_record:
  assumes sim: "window_of_history cfg now b a" and trips: "decides_like cfg trips (length (br_window a) + 1)"
  shows "window_of_history cfg (now + dt) (fst (breaker_record cfg (now + dt) out b))
           (fst (history_record trips cfg (now + dt) out a))"
    and "snd (breaker_record cfg (now + dt) out b) = snd (history_record trips cfg (now + dt) out a)"
    and "length (br_window (fst (history_record trips cfg (now + dt) out a))) \<le> length (br_window a) + 1"
proof -
  let ?t = "now + dt"
  obtain w c where b: "b = a\<lparr>br_window := w\<rparr>" and w: "w = recent cfg c (br_window a)" "c \<le> now"
    and srt: "sorted (map fst (br_window a))" "\<forall>(t, _) \<in> set (br_window a). t \<le> now"
    using sim by (auto simp: window_of_history_def)
  have ev: "evict_expired cfg ?t w = recent cfg ?t (br_window a)"
    using w srt(1) by (auto simp: evict_expired_filter sorted_filter recent_def intro!: filter_cong)
  have app: "recent cfg ?t (br_window a @ [(?t, x)]) = recent cfg ?t (br_window a) @ [(?t, x)]" for x
    by (simp add: recent_def)
  have "length (recent cfg ?t (br_window a)) \<le> length (br_window a)" by (simp only: recent_def length_filter_le)
  then have trip: "should_trip cfg (recent cfg ?t (br_window a) @ [(?t, x)]) \<longleftrightarrow>
      trips (recent cfg ?t (br_window a) @ [(?t, x)])" for x
    using trips by (simp add: decides_like_def)
  have rel: "window_of_history cfg ?t (y\<lparr>br_window := recent cfg ?t (br_window a) @ [(?t, x)]\<rparr>)
      (y\<lparr>br_window := br_window a @ [(?t, x)]\<rparr>)" for x y
    using srt by (auto simp: window_of_history_def app [symmetric] sorted_append intro: trans_le_add1)
  have full: "a\<lparr>br_state := s, opened_at := t, half_open_probes := 0,
      half_open_probe_granted_at := None, br_window := v\<rparr> =
      breaker_new\<lparr>br_state := s, opened_at := t, br_window := v\<rparr>" for s t v
    by (simp add: breaker_new_def)
  have idle: "breaker_new\<lparr>br_state := Closed, opened_at := None, br_window := []\<rparr> = breaker_new"
    by (simp add: breaker_new_def)
  note defs = breaker_record_def history_record_def b ev app trip Let_def full idle
  show "window_of_history cfg ?t (fst (breaker_record cfg ?t out b)) (fst (history_record trips cfg ?t out a))"
    using rel by (cases "br_state a"; cases out) (simp_all add: defs)
  show "snd (breaker_record cfg ?t out b) = snd (history_record trips cfg ?t out a)"
    by (cases "br_state a"; cases out) (simp_all add: defs breaker_new_def)
  show "length (br_window (fst (history_record trips cfg ?t out a))) \<le> length (br_window a) + 1"
    by (cases "br_state a"; cases out) (simp_all add: history_record_def Let_def breaker_new_def)
qed

lemma traces_agree:
  assumes "window_of_history cfg now b a" "decides_like cfg trips (length (br_window a) + length calls)"
  shows "breaker_trace cfg (breaker_record cfg) calls (now, b) =
         breaker_trace cfg (history_record trips cfg) calls (now, a)"
  using assms
proof (induction calls arbitrary: now b a)
  case (Cons call calls)
  obtain dt op where call: "call = (dt, op)" by (cases call)
  show ?case
  proof (cases op)
    case (CallCheck d2 d3)
    have like: "decides_like cfg trips (length (br_window a) + length calls)"
      using Cons.prems(2) by (simp add: decides_like_def)
    have "now \<le> now + dt + d2 + d3" by simp
    note sim = sim_check [OF Cons.prems(1) this, of "check_clock (now + dt) d2 d3"]
    from Cons.IH [OF sim(3)] sim(1, 2, 4) like show ?thesis
      by (simp add: call CallCheck case_prod_beta)
  next
    case (CallRecord out)
    have "decides_like cfg trips (length (br_window a) + 1)" using Cons.prems(2) by (simp add: decides_like_def)
    note sim = sim_record [OF Cons.prems(1) this, of dt out]
    have "decides_like cfg trips (length (br_window (fst (history_record trips cfg (now + dt) out a))) + length calls)"
      using sim(3) Cons.prems(2) by (simp add: decides_like_def)
    from Cons.IH [OF sim(1) this] sim(2) show ?thesis
      by (simp add: call CallRecord case_prod_beta)
  qed
qed simp

lemma code_decides [simp]: "decides_like cfg (should_trip cfg) n"
  by (simp add: decides_like_def)

lemma counting_decides: "error_rate_threshold cfg = 1 / 2 \<Longrightarrow> n < 2 ^ 53 \<Longrightarrow> decides_like cfg (half_failed cfg) n"
  by (simp add: decides_like_def should_trip_half)

section \<open>Properties\<close>

text \<open>A run of the client preset: five failures, one per nanosecond, trip the breaker.\<close>

definition failing_calls :: "(nat \<times> breaker_call) list" where
  "failing_calls = [(1, CallRecord Failure), (1, CallRecord Failure), (1, CallRecord Failure),
     (1, CallRecord Failure), (1, CallRecord Failure)]"

definition tripped_breaker :: breaker where
  "tripped_breaker = \<lparr>br_state = Open, opened_at = Some 5, half_open_probes = 0,
     half_open_probe_granted_at = None, br_window = map (\<lambda>t. (t, False)) [1, 2, 3, 4, 5]\<rparr>"

lemma client_trips:
  "fold (breaker_step breaker_config_client) failing_calls (0, breaker_new) = (5, tripped_breaker)"
proof -
  have th: "error_rate_threshold breaker_config_client = 1 / 2"
    and cfg: "min_samples breaker_config_client = 5" "window_duration breaker_config_client = secs 60"
    by (simp_all add: breaker_config_client_def)
  show ?thesis
    by (simp add: failing_calls_def breaker_new_def breaker_record_def tripped_breaker_def Let_def
        evict_expired_def should_trip_half [OF th] half_failed_def count_failures_def cfg secs_def)
qed

text \<open>
  C4. Admission and recovery. After any history of checks and recorded outcomes, a check whose readings
  \<open>t1\<close>, \<open>t2\<close>, \<open>t3\<close> of the clock follow that history is admitted exactly when the breaker is closed, or it
  is open and the open period is over at \<open>t1\<close>, or it is half open and a probe slot is free or the last
  granted probe is older than the probe timeout at \<open>t2\<close>. So the breaker never rejects for ever: a check
  made once both the open period and the probe timeout have passed with no further call is admitted,
  whatever probes were lost. A rejection by an open breaker prints, with one decimal, a number of
  seconds within ten microseconds of the wait that remains at \<open>t2\<close> (for periods below \<open>2 ^ 32\<close> seconds).
\<close>

theorem breaker_recovers:
  assumes "fold (breaker_step cfg) calls (start, breaker_new) = (now, b)"
    and "now \<le> t1" "t1 \<le> t2" "t2 \<le> t3"
  shows "(is_ok (fst (breaker_check cfg (t1, t2, t3) b)) \<longleftrightarrow>
            br_state b = Closed \<or>
            br_state b = Open \<and> (\<exists>t \<le> now. opened_at b = Some t \<and> t + open_duration cfg \<le> t1) \<or>
            br_state b = HalfOpen \<and> (half_open_probes b < half_open_max_probes cfg \<or>
              (\<exists>t \<le> now. half_open_probe_granted_at b = Some t \<and> t + half_open_probe_timeout cfg \<le> t2))) \<and>
         (now + open_duration cfg \<le> t1 \<and> now + half_open_probe_timeout cfg \<le> t1
            \<longrightarrow> is_ok (fst (breaker_check cfg (t1, t2, t3) b))) \<and>
         (br_state b = Open \<and> \<not> is_ok (fst (breaker_check cfg (t1, t2, t3) b)) \<and>
            open_duration cfg < secs (2 ^ 32) \<and> t2 - the (opened_at b) < secs (2 ^ 32) \<longrightarrow>
            (\<exists>x. fst (breaker_check cfg (t1, t2, t3) b) = Inl (open_message x) \<and>
              \<bar>x - (of_nat (the (opened_at b) + open_duration cfg) - of_nat t2) / 10 ^ 9\<bar> \<le> 1 / 10 ^ 5))"
proof -
  have inv: "breaker_inv cfg (now, b)" using breaker_run_inv [of cfg calls start] assms(1) by simp
  note adm = check_admission [OF inv, of t1 t2 t3]
  show ?thesis
  proof (intro conjI impI)
    show "is_ok (fst (breaker_check cfg (t1, t2, t3) b)) \<longleftrightarrow>
            br_state b = Closed \<or>
            br_state b = Open \<and> (\<exists>t \<le> now. opened_at b = Some t \<and> t + open_duration cfg \<le> t1) \<or>
            br_state b = HalfOpen \<and> (half_open_probes b < half_open_max_probes cfg \<or>
              (\<exists>t \<le> now. half_open_probe_granted_at b = Some t \<and> t + half_open_probe_timeout cfg \<le> t2))"
      using inv assms(2-4) unfolding adm
      by (cases "br_state b") (auto simp: breaker_inv_def admission_def past_def split: option.splits)
  next
    assume "now + open_duration cfg \<le> t1 \<and> now + half_open_probe_timeout cfg \<le> t1"
    then show "is_ok (fst (breaker_check cfg (t1, t2, t3) b))"
      using admission_later [OF inv _ _ assms(3)] adm by (simp add: le_diff_conv2 assms(2) add.commute)
  next
    assume rejected: "br_state b = Open \<and> \<not> is_ok (fst (breaker_check cfg (t1, t2, t3) b)) \<and>
            open_duration cfg < secs (2 ^ 32) \<and> t2 - the (opened_at b) < secs (2 ^ 32)"
    then obtain t where t: "opened_at b = Some t" "t \<le> now"
      using inv by (auto simp: breaker_inv_def past_def split: option.splits)
    then have wait: "of_nat (the (opened_at b) + open_duration cfg) - of_nat t2 =
        (of_nat (open_duration cfg) - of_nat (t2 - t) :: rat)"
      using assms by (simp add: of_nat_diff)
    from t rejected adm have "\<not> open_duration cfg \<le> t1 - t" by (auto simp: admission_def)
    with t rejected show "\<exists>x. fst (breaker_check cfg (t1, t2, t3) b) = Inl (open_message x) \<and>
        \<bar>x - (of_nat (the (opened_at b) + open_duration cfg) - of_nat t2) / 10 ^ 9\<bar> \<le> 1 / 10 ^ 5"
      unfolding wait using printed_wait_near [of "open_duration cfg" "t2 - t"]
      by (intro exI [of _ "f64_sub (as_secs_f64 (open_duration cfg)) (as_secs_f64 (t2 - t))"])
        (simp add: breaker_check_def)
  qed
qed

theorem breaker_recovers_witness:
  "is_ok (fst (breaker_check breaker_config_client (5 + secs 300, 5 + secs 300, 5 + secs 300) tripped_breaker)) \<and>
   \<not> is_ok (fst (breaker_check breaker_config_client (5 + secs 59, 5 + secs 61, 5 + secs 61) tripped_breaker)) \<and>
   is_ok (fst (breaker_check breaker_config_client (5 + secs 60, 5 + secs 60, 5 + secs 60) tripped_breaker))"
proof -
  have cfg: "open_duration breaker_config_client = secs 60"
      "half_open_probe_timeout breaker_config_client = secs 300"
    by (simp_all add: breaker_config_client_def)
  have b: "br_state tripped_breaker = Open" "opened_at tripped_breaker = Some 5"
    by (simp_all add: tripped_breaker_def)
  note now = breaker_recovers [OF client_trips]
  show ?thesis
    using now [of "5 + secs 300" "5 + secs 300" "5 + secs 300"] now [of "5 + secs 59" "5 + secs 61" "5 + secs 61"]
      now [of "5 + secs 60" "5 + secs 60" "5 + secs 60"]
    by (simp add: cfg b secs_def)
qed

text \<open>
  C32. Sliding window. For every configuration the breaker's checks answer, and its observer sees,
  exactly what a breaker would show that kept every outcome since its last recovery and decided on
  those at most one window old, by the rounded rate of failures. With the threshold one half of both
  presets, and fewer than \<open>2 ^ 53\<close> calls, rounding plays no part in that decision: it is that at least
  \<open>min_samples\<close> outcomes are that recent and at least half of them failed.
\<close>

theorem breaker_refines_history:
  "breaker_trace cfg (breaker_record cfg) calls (start, breaker_new)
     = breaker_trace cfg (history_record (should_trip cfg) cfg) calls (start, breaker_new) \<and>
   (error_rate_threshold cfg = 1 / 2 \<and> length calls < 2 ^ 53 \<longrightarrow>
      breaker_trace cfg (breaker_record cfg) calls (start, breaker_new)
        = breaker_trace cfg (history_record (half_failed cfg) cfg) calls (start, breaker_new))"
proof (intro conjI impI)
  show "breaker_trace cfg (breaker_record cfg) calls (start, breaker_new)
     = breaker_trace cfg (history_record (should_trip cfg) cfg) calls (start, breaker_new)"
    by (rule traces_agree) simp_all
next
  assume "error_rate_threshold cfg = 1 / 2 \<and> length calls < 2 ^ 53"
  then show "breaker_trace cfg (breaker_record cfg) calls (start, breaker_new)
     = breaker_trace cfg (history_record (half_failed cfg) cfg) calls (start, breaker_new)"
    by (intro traces_agree counting_decides) simp_all
qed

theorem breaker_refines_history_witness:
  "breaker_trace breaker_config_client (breaker_record breaker_config_client) failing_calls (0, breaker_new)
   = breaker_trace breaker_config_client (history_record (half_failed breaker_config_client) breaker_config_client)
       failing_calls (0, breaker_new)"
proof -
  have "error_rate_threshold breaker_config_client = 1 / 2" by (simp add: breaker_config_client_def)
  moreover have "length failing_calls < 2 ^ 53" by (simp add: failing_calls_def)
  ultimately show ?thesis using breaker_refines_history by blast
qed

text \<open>
  A comment on \<open>grant_probe\<close> says that reclaiming a slot keeps the concurrency bound even when the old
  probe is still alive. With one slot, a probe granted when the open period ends and a second one
  granted after the probe timeout are both admitted, with no outcome recorded between them.
\<close>

theorem reclaimed_slot_exceeds_probe_bound:
  assumes "t1 = 5 + secs 60" "t2 = 5 + secs 360"
    and "breaker_check breaker_config_client (t1, t1, t1) tripped_breaker = (r1, b1, es1)"
    and "breaker_check breaker_config_client (t2, t2, t2) b1 = (r2, b2, es2)"
  shows "half_open_max_probes breaker_config_client = 1" "r1 = Inr ()" "r2 = Inr ()"
  using assms
  by (auto simp: breaker_config_client_def breaker_check_def breaker_grant_def grant_probe_def
      tripped_breaker_def secs_def)

end
