(* ===== verification/Provider_Fallback.thy ===== *)
theory Provider_Fallback
  imports Request_Execution Circuit_Breaker "HOL-Library.Sublist"
begin

text \<open>
  The chain of backends of \<open>hi-ai/src/fallback.rs\<close> and the capability intersection it advertises
  (\<open>provider_capabilities.rs\<close>). A backend is whatever its \<open>stream\<close> does to the request ledger and to a
  world of which only the clock is read here; the chain composes the circuit breakers, the request
  ledger and the error classes. One request is followed at a time: what other requests do to the
  breakers between its calls is left out. The theory shows how the answer of the chain relates to the
  calls it made, and that no reported usage is lost.
\<close>

section \<open>Capabilities\<close>

record tool_choice_capabilities =
  automatic :: bool
  required :: bool
  disabled :: bool
  specific_tool :: bool

datatype strict_schema_dialect = NoDialect | Draft7 | Draft202012 | OpenAiSubset

record request_limits =
  max_input_tokens :: "u32 option"
  max_output_tokens :: "u32 option"
  max_tools :: "u32 option"
  max_tool_argument_bytes :: "u32 option"

record modalities =
  text_input :: bool
  image_input :: bool
  audio_input :: bool
  text_output :: bool
  image_output :: bool
  audio_output :: bool

datatype usage_reporting = NoReport | Final | Streamed
datatype cancellation_support = NoCancel | Cooperative | TransportAbort

record provider_capabilities =
  native_tool_calls :: bool
  tool_choice :: tool_choice_capabilities
  parallel_tool_calls :: bool
  pc_strict_schema_dialect :: strict_schema_dialect
  streamed_tool_call_deltas :: bool
  pc_request_limits :: request_limits
  structured_output :: bool
  pc_modalities :: modalities
  pc_usage_reporting :: usage_reporting
  replay_plain_text :: bool
  replay_signed_or_encrypted :: bool
  cancellation :: cancellation_support
  actual_model_revision :: "string option"

text \<open>The derived \<open>Ord\<close> of the two enumerations is the order of their variants.\<close>

fun report_rank :: "usage_reporting \<Rightarrow> nat" where
  "report_rank NoReport = 0" | "report_rank Final = 1" | "report_rank Streamed = 2"

fun cancel_rank :: "cancellation_support \<Rightarrow> nat" where
  "cancel_rank NoCancel = 0" | "cancel_rank Cooperative = 1" | "cancel_rank TransportAbort = 2"

definition intersect_limit :: "u32 option \<Rightarrow> u32 option \<Rightarrow> u32 option" where
  "intersect_limit l r = (case (l, r) of (Some a, Some b) \<Rightarrow> Some (min a b) | _ \<Rightarrow> None)"

definition limits_intersection :: "request_limits \<Rightarrow> request_limits \<Rightarrow> request_limits" where
  "limits_intersection a b = \<lparr>
     max_input_tokens = intersect_limit (max_input_tokens a) (max_input_tokens b),
     max_output_tokens = intersect_limit (max_output_tokens a) (max_output_tokens b),
     max_tools = intersect_limit (max_tools a) (max_tools b),
     max_tool_argument_bytes = intersect_limit (max_tool_argument_bytes a) (max_tool_argument_bytes b)\<rparr>"

definition modalities_intersection :: "modalities \<Rightarrow> modalities \<Rightarrow> modalities" where
  "modalities_intersection a b = \<lparr>
     text_input = (text_input a \<and> text_input b), image_input = (image_input a \<and> image_input b),
     audio_input = (audio_input a \<and> audio_input b), text_output = (text_output a \<and> text_output b),
     image_output = (image_output a \<and> image_output b), audio_output = (audio_output a \<and> audio_output b)\<rparr>"

definition conservative_intersection :: "provider_capabilities \<Rightarrow> provider_capabilities \<Rightarrow> provider_capabilities" where
  "conservative_intersection a b = \<lparr>
     native_tool_calls = (native_tool_calls a \<and> native_tool_calls b),
     tool_choice = \<lparr>
       automatic = (automatic (tool_choice a) \<and> automatic (tool_choice b)),
       required = (required (tool_choice a) \<and> required (tool_choice b)),
       disabled = (disabled (tool_choice a) \<and> disabled (tool_choice b)),
       specific_tool = (specific_tool (tool_choice a) \<and> specific_tool (tool_choice b))\<rparr>,
     parallel_tool_calls = (parallel_tool_calls a \<and> parallel_tool_calls b),
     pc_strict_schema_dialect = (if pc_strict_schema_dialect a = pc_strict_schema_dialect b
       then pc_strict_schema_dialect a else NoDialect),
     streamed_tool_call_deltas = (streamed_tool_call_deltas a \<and> streamed_tool_call_deltas b),
     pc_request_limits = limits_intersection (pc_request_limits a) (pc_request_limits b),
     structured_output = (structured_output a \<and> structured_output b),
     pc_modalities = modalities_intersection (pc_modalities a) (pc_modalities b),
     pc_usage_reporting = (if report_rank (pc_usage_reporting a) \<le> report_rank (pc_usage_reporting b)
       then pc_usage_reporting a else pc_usage_reporting b),
     replay_plain_text = (replay_plain_text a \<and> replay_plain_text b),
     replay_signed_or_encrypted = (replay_signed_or_encrypted a \<and> replay_signed_or_encrypted b),
     cancellation = (if cancel_rank (cancellation a) \<le> cancel_rank (cancellation b)
       then cancellation a else cancellation b),
     actual_model_revision = (if actual_model_revision a = actual_model_revision b
       then actual_model_revision a else None)\<rparr>"

definition capabilities_default :: provider_capabilities where
  "capabilities_default = \<lparr>native_tool_calls = False,
     tool_choice = \<lparr>automatic = False, required = False, disabled = False, specific_tool = False\<rparr>,
     parallel_tool_calls = False, pc_strict_schema_dialect = NoDialect, streamed_tool_call_deltas = False,
     pc_request_limits = \<lparr>max_input_tokens = None, max_output_tokens = None, max_tools = None,
       max_tool_argument_bytes = None\<rparr>,
     structured_output = False,
     pc_modalities = \<lparr>text_input = True, image_input = False, audio_input = False, text_output = True,
       image_output = False, audio_output = False\<rparr>,
     pc_usage_reporting = NoReport, replay_plain_text = False, replay_signed_or_encrypted = False,
     cancellation = NoCancel, actual_model_revision = None\<rparr>"

section \<open>The chain\<close>

text \<open>The fields of a request that this layer reads; the others are carried along.\<close>

record 'q chat_request =
  rq_model :: string
  rq_user_turn :: bool
  rq_rest :: 'q

type_synonym provider_result = "(any_error, completion) result"

record ('q, 'w) backend =
  bk_stream :: "'q chat_request \<Rightarrow> execution_state \<Rightarrow> 'w \<Rightarrow> provider_result \<times> stream_event list \<times> execution_state \<times> 'w"
  bk_capabilities :: provider_capabilities
  bk_model :: string
  bk_label :: string
  bk_capability_route :: string

text \<open>
  The chain and its breakers have one length by construction, so each backend is paired with its
  breaker. The environment of the chain: the breaker configuration, the readings of the clock by the
  next check and by the next record, the JSON parser, and the identity and policy of the request's
  ledger.
\<close>

record 'w chain_env =
  ce_config :: breaker_config
  ce_clock :: "'w \<Rightarrow> nat \<times> nat \<times> nat"
  ce_now :: "'w \<Rightarrow> nat"
  ce_parse :: json_parser
  ce_operation :: string
  ce_policy :: execution_policy

record 'w chain_result =
  cr_result :: provider_result
  cr_events :: "stream_event list"
  cr_breakers :: "breaker list"
  cr_observed :: "breaker_event list"
  cr_execution :: execution_state
  cr_world :: 'w

definition fallback_new :: "('q, 'w) backend list \<Rightarrow> (string, (('q, 'w) backend \<times> breaker) list) result" where
  "fallback_new chain = (if chain = [] then Inl ''fallback chain must not be empty''
     else Inr (map (\<lambda>b. (b, breaker_new)) chain))"

definition fallback_capabilities :: "('q, 'w) backend list \<Rightarrow> provider_capabilities" where
  "fallback_capabilities chain = (case map bk_capabilities chain of
     [] \<Rightarrow> capabilities_default | c # cs \<Rightarrow> foldl conservative_intersection c cs)"

definition error_with_usage :: "any_error \<Rightarrow> token_usage \<Rightarrow> provider_error" where
  "error_with_usage err u = with_usage (case provider_error_details err of
     Some p \<Rightarrow> p
   | None \<Rightarrow> provider_error_new (case get_error_kind err of Some k \<Rightarrow> k | None \<Rightarrow> OtherKind) (error_to_string err)) u"

text \<open>The UTF-8 encoding of the dash in the status texts.\<close>

definition em_dash :: string where
  "em_dash = bytes [226, 128, 148]"

text \<open>Real output, or a refusal.\<close>

definition has_output :: "completion \<Rightarrow> bool" where
  "has_output c \<longleftrightarrow> cp_content c \<noteq> [] \<or> refusal c \<noteq> None \<or> stop_reason c = Some ''refusal''"

definition fold_prior_usage :: "token_usage \<Rightarrow> completion \<Rightarrow> completion" where
  "fold_prior_usage prior c =
     (if usage_is_zero prior then c
      else c\<lparr>cp_usage := (usage_add (cp_usage c) prior)\<lparr>
             context_occupancy := context_occupancy (cp_usage c),
             input_includes_cache := input_includes_cache (cp_usage c),
             rate_limits := (case rate_limits (cp_usage c) of Some r \<Rightarrow> Some r | None \<Rightarrow> rate_limits prior)\<rparr>\<rparr>)"

definition health_outcome :: "json_parser \<Rightarrow> any_error \<Rightarrow> breaker_outcome" where
  "health_outcome parse err = (if provider_error_affects_health parse err then Failure else Success)"

text \<open>A turn of the loop that goes on puts its events and its breaker before those of the rest.\<close>

definition go_on :: "stream_event list \<Rightarrow> breaker_event list \<Rightarrow> breaker \<Rightarrow> 'w chain_result \<Rightarrow> 'w chain_result" where
  "go_on es obs k r = r\<lparr>cr_events := es @ cr_events r, cr_breakers := k # cr_breakers r, cr_observed := obs @ cr_observed r\<rparr>"

definition fallback_stop :: "provider_result \<Rightarrow> stream_event list \<Rightarrow> breaker_event list \<Rightarrow> breaker
    \<Rightarrow> (('q, 'w) backend \<times> breaker) list \<Rightarrow> execution_state \<Rightarrow> 'w \<Rightarrow> 'w chain_result" where
  "fallback_stop res es obs k rest st w = \<lparr>cr_result = res, cr_events = es, cr_breakers = k # map snd rest,
     cr_observed = obs, cr_execution = st, cr_world = w\<rparr>"

fun fallback_loop :: "'w chain_env \<Rightarrow> 'q chat_request \<Rightarrow> bool \<Rightarrow> token_usage \<Rightarrow> (('q, 'w) backend \<times> breaker) list
    \<Rightarrow> execution_state \<Rightarrow> 'w \<Rightarrow> 'w chain_result" where
  "fallback_loop env request first prior [] st w =
     \<lparr>cr_result = Inl (OtherLink ''fallback chain exhausted without producing a result'', []), cr_events = [],
      cr_breakers = [], cr_observed = [], cr_execution = st, cr_world = w\<rparr>"
| "fallback_loop env request first prior ((b, k) # rest) st w =
     (let is_last = (rest = []);
          next_label = (case rest of (b', _) # _ \<Rightarrow> bk_label b' | [] \<Rightarrow> []);
          (admitted, k1, obs) = breaker_check (ce_config env) (ce_clock env w) k
      in case admitted of
        Inl reason \<Rightarrow>
          if is_last then
            fallback_stop (Inl (of_provider_error (with_usage
                (provider_error_new Outage reason) prior)))
              [] obs k1 rest st w
          else go_on [Status (bk_label b @ '' circuit breaker open '' @ em_dash @ '' skipping to '' @ next_label)] obs k1
                 (fallback_loop env request False prior rest st w)
      | Inr _ \<Rightarrow>
          (let req = (if first then request else request\<lparr>rq_model := bk_model b\<rparr>) in
           case ensure_available (ce_operation env) (ce_policy env) st of
             Inl e \<Rightarrow> fallback_stop (Inl (of_provider_error (with_usage e (usage_add prior (pe_usage e))))) [] obs k1 rest st w
           | Inr _ \<Rightarrow>
               (let (res, es, st1, w1) = bk_stream b req st w in
                case res of
                  Inr c \<Rightarrow>
                    (let (k2, obs2) = breaker_record (ce_config env) (ce_now env w1) Success k1 in
                     if has_output c \<or> is_last then
                       fallback_stop (Inr (fold_prior_usage prior c)) es (obs @ obs2) k2 rest st1 w1
                     else go_on (es @ [Status (bk_label b @ '' returned nothing '' @ em_dash @ '' falling back to '' @ next_label)])
                            (obs @ obs2) k2
                            (fallback_loop env request False (usage_add prior (cp_usage c)) rest st1 w1))
                | Inl err \<Rightarrow>
                    (let (k2, obs2) = breaker_record (ce_config env) (ce_now env w1) (health_outcome (ce_parse env) err) k1;
                         prior' = usage_add prior (provider_error_usage err) in
                     if is_last then
                       fallback_stop (Inl (if usage_is_zero prior' then err else of_provider_error (error_with_usage err prior')))
                         es (obs @ obs2) k2 rest st1 w1
                     else if \<not> provider_error_is_fallback_eligible (ce_parse env) err then
                       fallback_stop (Inl (of_provider_error (error_with_usage err prior'))) es (obs @ obs2) k2 rest st1 w1
                     else go_on (es @ [Status (bk_label b @ '' failed ('' @ error_to_string err @
                              '') '' @ em_dash @ '' falling back to '' @ next_label)]) (obs @ obs2) k2
                            (fallback_loop env request False prior' rest st1 w1)))))"

definition fallback_stream :: "'w chain_env \<Rightarrow> (('q, 'w) backend \<times> breaker) list \<Rightarrow> 'q chat_request
    \<Rightarrow> execution_state \<Rightarrow> 'w \<Rightarrow> 'w chain_result" where
  "fallback_stream env chain request st w = fallback_loop env request True usage_default chain st w"

section \<open>The calls behind an answer\<close>

text \<open>
  To speak of the calls the chain makes, the backends keep a log of them in the world: the label of the
  backend, the model it was asked for and what it returned.
\<close>

type_synonym call_log = "(string \<times> string \<times> provider_result) list"

definition logs_calls :: "('w \<Rightarrow> call_log) \<Rightarrow> ('q, 'w) backend \<Rightarrow> bool" where
  "logs_calls calls_of b \<longleftrightarrow> (\<forall>req st w. calls_of (snd (snd (snd (bk_stream b req st w)))) =
     calls_of w @ [(bk_label b, rq_model req, fst (bk_stream b req st w))])"

definition result_usage :: "provider_result \<Rightarrow> token_usage" where
  "result_usage r = (case r of Inr c \<Rightarrow> cp_usage c | Inl e \<Rightarrow> provider_error_usage e)"

text \<open>An answer after which the chain moves on.\<close>

definition passes_on :: "json_parser \<Rightarrow> provider_result \<Rightarrow> bool" where
  "passes_on parse r = (case r of Inr c \<Rightarrow> \<not> has_output c | Inl e \<Rightarrow> provider_error_is_fallback_eligible parse e)"

text \<open>
  The same answer up to its usage: a completion in all its other fields; an error as it is, or as the
  provider error of its cause chain (one made from its kind and text when the chain has none) with
  another usage.
\<close>

definition same_answer :: "provider_result \<Rightarrow> provider_result \<Rightarrow> bool" where
  "same_answer r s \<longleftrightarrow> (case (r, s) of
     (Inr c, Inr d) \<Rightarrow> c = d\<lparr>cp_usage := cp_usage c\<rparr>
   | (Inl e, Inl f) \<Rightarrow> e = f \<or> e = of_provider_error (error_with_usage f (provider_error_usage e))
   | _ \<Rightarrow> False)"

text \<open>
  The errors the chain makes itself: the outage of a last backend whose breaker turns the request away,
  and the refusal of a ledger that has no send left.
\<close>

definition turned_away :: "'w chain_env \<Rightarrow> breaker \<Rightarrow> provider_result \<Rightarrow> bool" where
  "turned_away env k r \<longleftrightarrow>
     (\<exists>clock reason k' obs u. breaker_check (ce_config env) clock k = (Inl reason, k', obs) \<and>
        r = Inl (of_provider_error (with_usage (provider_error_new Outage reason) u))) \<or>
     (\<exists>st e u. ensure_available (ce_operation env) (ce_policy env) st = Inl e \<and>
        r = Inl (of_provider_error (with_usage e u)))"

definition calls_total :: "(token_usage \<Rightarrow> u64) \<Rightarrow> call_log \<Rightarrow> nat" where
  "calls_total c calls = sum_list (map (\<lambda>(_, _, r). unat (c (result_usage r))) calls)"

definition usage_accounted :: "token_usage \<Rightarrow> call_log \<Rightarrow> provider_result \<Rightarrow> bool" where
  "usage_accounted prior calls r \<longleftrightarrow>
     (\<forall>c \<in> set token_counters. unat (c (result_usage r)) = u64_cap (unat (c prior) + calls_total c calls))"

lemma usage_accounted_Nil [simp]:
  "usage_accounted prior [] (Inl (of_provider_error (with_usage e prior)))"
proof -
  have "unat (u::u64) = u64_cap (unat u)" for u by (simp add: min_def)
  then show ?thesis by (simp add: usage_accounted_def result_usage_def calls_total_def)
qed

lemma usage_accounted_Cons:
  assumes "usage_accounted (usage_add prior (result_usage r)) calls res"
  shows "usage_accounted prior ((l, m, r) # calls) res"
proof -
  have "u64_cap (u64_cap (a + b) + c) = u64_cap (a + (b + c))" for a b c :: nat by (simp add: min_def)
  then show ?thesis
    using assms unfolding usage_accounted_def calls_total_def by (simp add: usage_add_counter)
qed

lemma fold_prior_usage_accounted: "usage_accounted prior [(l, m, Inr c)] (Inr (fold_prior_usage prior c))"
proof -
  have other: "t (u\<lparr>context_occupancy := x, input_includes_cache := y, rate_limits := z\<rparr>) = t u"
    if "t \<in> set token_counters" for t u x y z
    using that by (auto simp: token_counters_def)
  show ?thesis
  proof (cases "usage_is_zero prior")
    case True
    then show ?thesis
      by (simp add: usage_accounted_def calls_total_def result_usage_def fold_prior_usage_def usage_is_zero_def
          token_counters_def min_def)
  next
    case False
    then show ?thesis
      by (simp add: usage_accounted_def calls_total_def result_usage_def fold_prior_usage_def other
          usage_add_counter add.commute)
  qed
qed

lemma error_usage_accounted:
  "usage_accounted prior [(l, m, Inl e)]
     (Inl (of_provider_error (error_with_usage e (usage_add prior (provider_error_usage e)))))"
  by (simp add: usage_accounted_def calls_total_def result_usage_def error_with_usage_def usage_add_counter)

lemma zero_usage_accounted:
  assumes "usage_is_zero (usage_add prior (provider_error_usage e))"
  shows "usage_accounted prior [(l, m, Inl e)] (Inl e)"
proof -
  have "unat (c prior) + unat (c (provider_error_usage e)) = 0" if "c \<in> set token_counters" for c
    using assms that usage_add_counter [OF that, of prior "provider_error_usage e"]
    by (auto simp: usage_is_zero_counter)
  then show ?thesis by (simp add: usage_accounted_def calls_total_def result_usage_def)
qed

lemma refused_send_usage [simp]: "ensure_available op p st = Inl e \<Longrightarrow> pe_usage e = usage_default"
  by (auto simp: ensure_available_def local_failure_def exhausted_def with_api_contract_def
      provider_error_new_def case_prod_beta Let_def split: if_splits)

text \<open>An answer explained by the calls made: see the property below.\<close>

definition explained :: "'w chain_env \<Rightarrow> breaker \<Rightarrow> token_usage \<Rightarrow> (string \<times> string) list \<Rightarrow> call_log
    \<Rightarrow> provider_result \<Rightarrow> bool" where
  "explained env k prior asked calls r \<longleftrightarrow> usage_accounted prior calls r \<and>
     subseq (map (\<lambda>(l, m, _). (l, m)) calls) asked \<and>
     (\<forall>x \<in> set (butlast calls). passes_on (ce_parse env) (snd (snd x))) \<and>
     (calls \<noteq> [] \<and> same_answer r (snd (snd (last calls))) \<or>
      (\<forall>x \<in> set calls. passes_on (ce_parse env) (snd (snd x))) \<and> turned_away env k r)"

lemma explained_none:
  "turned_away env k (Inl (of_provider_error (with_usage e prior)))
    \<Longrightarrow> explained env k prior asked [] (Inl (of_provider_error (with_usage e prior)))"
  by (simp add: explained_def)

lemma explained_skip: "explained env k prior asked calls r \<Longrightarrow> explained env k prior (a # asked) calls r"
  by (auto simp: explained_def)

lemma explained_one:
  "usage_accounted prior [(l, m, res)] r \<Longrightarrow> same_answer r res \<Longrightarrow> explained env k prior ((l, m) # asked) [(l, m, res)] r"
  by (simp add: explained_def)

lemma explained_more:
  "explained env k (usage_add prior (result_usage res)) asked calls r \<Longrightarrow> passes_on (ce_parse env) res
    \<Longrightarrow> explained env k prior ((l, m) # asked) ((l, m, res) # calls) r"
  by (auto simp: explained_def usage_accounted_Cons)

text \<open>The labels of the chain with the model each backend is asked for.\<close>

fun asked_models :: "bool \<Rightarrow> 'q chat_request \<Rightarrow> (('q, 'w) backend \<times> breaker) list \<Rightarrow> (string \<times> string) list" where
  "asked_models first request [] = []"
| "asked_models first request ((b, _) # rest) =
     (bk_label b, if first then rq_model request else bk_model b) # asked_models False request rest"

lemma same_answer_fold [simp]: "same_answer (Inr (fold_prior_usage prior c)) (Inr c)"
  by (simp add: same_answer_def fold_prior_usage_def)

lemma usage_error_with_usage [simp]: "provider_error_usage (of_provider_error (error_with_usage e u)) = u"
  by (simp add: provider_error_usage_def error_with_usage_def with_usage_def)

lemma same_answer_error [simp]:
  "same_answer (Inl e) (Inl e)" "same_answer (Inl (of_provider_error (error_with_usage e u))) (Inl e)"
  by (auto simp: same_answer_def)

lemma turned_away_breaker:
  "breaker_check (ce_config env) clock k = (Inl reason, k', obs)
    \<Longrightarrow> turned_away env k (Inl (of_provider_error (with_usage (provider_error_new Outage reason) u)))"
  unfolding turned_away_def by blast

lemma turned_away_ledger:
  "ensure_available (ce_operation env) (ce_policy env) st = Inl e
    \<Longrightarrow> turned_away env k (Inl (of_provider_error (with_usage e u)))"
  unfolding turned_away_def by blast

lemma go_on_simps [simp]:
  "cr_result (go_on es obs k r) = cr_result r" "cr_world (go_on es obs k r) = cr_world r"
  "cr_breakers (go_on es obs k r) = k # cr_breakers r"
  by (simp_all add: go_on_def)

lemma fallback_stop_simps [simp]:
  "cr_result (fallback_stop res es obs k rest st w) = res" "cr_world (fallback_stop res es obs k rest st w) = w"
  "cr_breakers (fallback_stop res es obs k rest st w) = k # map snd rest"
  by (simp_all add: fallback_stop_def)

lemma result_usage_simps [simp]:
  "result_usage (Inr c) = cp_usage c" "result_usage (Inl e) = provider_error_usage e"
  by (simp_all add: result_usage_def)

lemma passes_on_simps [simp]:
  "passes_on parse (Inr c) \<longleftrightarrow> \<not> has_output c"
  "passes_on parse (Inl e) \<longleftrightarrow> provider_error_is_fallback_eligible parse e"
  by (simp_all add: passes_on_def)

lemma usage_add_default_counter:
  "c \<in> set token_counters \<Longrightarrow> unat (c (usage_add prior usage_default)) = unat (c prior)"
  by (simp add: usage_add_counter min_def)

lemma explained_refused:
  "turned_away env k (Inl (of_provider_error (with_usage e (usage_add prior usage_default))))
    \<Longrightarrow> explained env k prior asked [] (Inl (of_provider_error (with_usage e (usage_add prior usage_default))))"
  by (simp add: explained_def usage_accounted_def result_usage_def calls_total_def usage_add_default_counter min_def)

lemma fallback_loop_explained:
  fixes env :: "'w chain_env"
  assumes "\<forall>(b, _) \<in> set chain. logs_calls calls_of b" "chain \<noteq> []"
  shows "\<exists>calls. calls_of (cr_world (fallback_loop env request first prior chain st w)) = calls_of w @ calls \<and>
    explained env (snd (last chain)) prior (asked_models first request chain) calls
      (cr_result (fallback_loop env request first prior chain st w))"
  using assms
proof (induction chain arbitrary: first prior st w)
  case (Cons bk rest)
  obtain b k where bk: "bk = (b, k)" by (cases bk)
  define good :: "'w chain_result \<Rightarrow> bool" where "good = (\<lambda>out. \<exists>calls. calls_of (cr_world out) = calls_of w @ calls \<and>
    explained env (snd (last (bk # rest))) prior (asked_models first request (bk # rest)) calls (cr_result out))"
  have logs: "logs_calls calls_of b" and rest: "\<forall>(b, _) \<in> set rest. logs_calls calls_of b"
    using Cons.prems(1) by (simp_all add: bk)
  let ?req = "if first then request else request\<lparr>rq_model := bk_model b\<rparr>"
  obtain adm k1 obs where chk: "breaker_check (ce_config env) (ce_clock env w) k = (adm, k1, obs)"
    by (cases "breaker_check (ce_config env) (ce_clock env w) k")
  obtain res es st1 w1 where str: "bk_stream b ?req st w = (res, es, st1, w1)"
    by (cases "bk_stream b ?req st w")
  have model: "rq_model ?req = (if first then rq_model request else bk_model b)" by simp
  have w1: "calls_of w1 = calls_of w @ [(bk_label b, rq_model ?req, res)]"
    using logs str by (metis logs_calls_def fst_conv snd_conv)
  have skip: "good (go_on es' obs' k' (fallback_loop env request False prior rest st w))"
    if "rest \<noteq> []" for es' obs' k'
    using Cons.IH [OF rest that, of False prior st w] that by (auto simp: good_def bk intro: explained_skip)
  have more: "good (go_on es' obs' k' (fallback_loop env request False (usage_add prior (result_usage res)) rest st1 w1))"
    if "rest \<noteq> []" "passes_on (ce_parse env) res" for es' obs' k'
    using Cons.IH [OF rest that(1), of False "usage_add prior (result_usage res)" st1 w1] that
    by (fastforce simp: good_def bk w1 intro: explained_more)
  have one: "good (fallback_stop r es' obs' k' rest st1 w1)"
    if "usage_accounted prior [(bk_label b, rq_model ?req, res)] r" "same_answer r res" for r es' obs' k'
    using explained_one [OF that] by (auto simp: good_def bk w1)
  have "good (fallback_loop env request first prior (bk # rest) st w)"
  proof (cases adm)
    case (Inl reason)
    note away = explained_none [OF turned_away_breaker [OF chk [unfolded Inl]]]
    show ?thesis
    proof (cases "rest = []")
      case True
      with away show ?thesis by (simp add: good_def bk chk Inl)
    qed (simp add: bk chk Inl Let_def skip)
  next
    case adm: (Inr u)
    show ?thesis
    proof (cases "ensure_available (ce_operation env) (ce_policy env) st")
      case (Inl e)
      then show ?thesis
        by (auto simp: good_def bk chk adm Let_def intro!: explained_refused turned_away_ledger [of _ st])
    next
      case av: (Inr v)
      show ?thesis
      proof (cases res)
        case (Inl err)
        with more one str show ?thesis
          by (cases "rest = []") (simp_all add: bk chk adm av Let_def case_prod_beta error_usage_accounted zero_usage_accounted)
      next
        case (Inr c)
        with more one str show ?thesis
          by (cases "rest = []") (simp_all add: bk chk adm av Let_def case_prod_beta fold_prior_usage_accounted)
      qed
    qed
  qed
  then show ?case by (simp only: good_def)
qed simp

section \<open>Properties\<close>

text \<open>
  C33. Accounting of a fallback. Whatever the backends do, the chain calls them in order, each at most
  once, the first with the requested model and the others with their own; it moves on only after an
  empty completion or an eligible error. Its answer is that of the last call but for the usage, with
  one exception: when every call it made, if any, was one to move on from, it may be an outage that
  gives the reason of the last backend's breaker, or the ledger's refusal. The usage of the answer is in
  either case, counter by counter, the saturated sum of what all the calls reported.
\<close>

theorem fallback_answer_explained:
  assumes "\<forall>(b, _) \<in> set chain. logs_calls calls_of b" "chain \<noteq> []"
  shows "\<exists>calls. calls_of (cr_world (fallback_stream env chain request st w)) = calls_of w @ calls \<and>
    (\<forall>c \<in> set token_counters.
       unat (c (result_usage (cr_result (fallback_stream env chain request st w)))) = u64_cap (calls_total c calls)) \<and>
    subseq (map (\<lambda>(l, m, _). (l, m)) calls) (asked_models True request chain) \<and>
    (\<forall>x \<in> set (butlast calls). passes_on (ce_parse env) (snd (snd x))) \<and>
    (calls \<noteq> [] \<and> same_answer (cr_result (fallback_stream env chain request st w)) (snd (snd (last calls))) \<or>
     (\<forall>x \<in> set calls. passes_on (ce_parse env) (snd (snd x))) \<and>
       turned_away env (snd (last chain)) (cr_result (fallback_stream env chain request st w)))"
  using fallback_loop_explained [OF assms, of env request True usage_default st w]
  by (simp add: fallback_stream_def explained_def usage_accounted_def)

text \<open>A chain of canned backends: the first returns nothing, the second answers.\<close>

definition canned :: "string \<Rightarrow> provider_result \<Rightarrow> (unit, call_log) backend" where
  "canned label res = \<lparr>bk_stream = \<lambda>req st w. (res, [], st, w @ [(label, rq_model req, res)]),
     bk_capabilities = capabilities_default, bk_model = ''m'', bk_label = label, bk_capability_route = label\<rparr>"

definition canned_completion :: "content list \<Rightarrow> u64 \<Rightarrow> u64 \<Rightarrow> completion" where
  "canned_completion cs i out = \<lparr>cp_content = cs,
     cp_usage = usage_default\<lparr>us_input_tokens := i, us_output_tokens := out, context_occupancy := i\<rparr>,
     stop_reason = None, refusal = None, cp_tool_call_channel = NoChannel\<rparr>"

definition sample_chain :: "((unit, call_log) backend \<times> breaker) list" where
  "sample_chain = [(canned ''primary'' (Inr (canned_completion [] 10 2)), breaker_new),
     (canned ''local'' (Inr (canned_completion [TextContent ''hello''] 3 4)), breaker_new)]"

definition sample_env :: "call_log chain_env" where
  "sample_env = \<lparr>ce_config = breaker_config_client, ce_clock = \<lambda>_. (0, 0, 0), ce_now = \<lambda>_. 0, ce_parse = \<lambda>_. None,
     ce_operation = ''op'', ce_policy = execution_policy_default\<rparr>"

definition sample_request :: "unit chat_request" where
  "sample_request = \<lparr>rq_model = ''primary'', rq_user_turn = True, rq_rest = ()\<rparr>"

theorem fallback_answer_explained_witness:
  "\<exists>calls. cr_world (fallback_stream sample_env sample_chain sample_request execution_state_default []) = calls \<and>
     unat (us_input_tokens (result_usage (cr_result
       (fallback_stream sample_env sample_chain sample_request execution_state_default [])))) =
       u64_cap (calls_total us_input_tokens calls)"
proof -
  have "\<forall>(b, _) \<in> set sample_chain. logs_calls (\<lambda>w. w) b" "sample_chain \<noteq> []"
    by (simp_all add: sample_chain_def logs_calls_def canned_def)
  from fallback_answer_explained [OF this, of sample_env sample_request execution_state_default "[]"]
  show ?thesis by (auto simp: token_counters_def)
qed

text \<open>
  A request whose allowance is spent is turned away after its backend's breaker was checked. When that
  check granted the half-open probe, no outcome is ever recorded for it: the backend was not called, yet
  with one slot every other request is turned away until the probe timeout, as if a probe were running.
\<close>

theorem spent_request_holds_probe:
  fixes b :: "('q, 'w) backend" and w :: 'w
  assumes clock: "ce_clock env w = (t1, t2, t3)"
    and open_over: "br_state k = Open" "opened_at k = Some t" "open_duration (ce_config env) \<le> t1 - t"
    and slots: "half_open_max_probes (ce_config env) = 1" "half_open_probe_granted_at k = None"
    and spent: "allowance_spent (ce_policy env) st"
    and out: "out = fallback_stream env [(b, k)] request st w"
  shows "cr_world out = w \<and> (\<exists>k'. cr_breakers out = [k'] \<and> half_open_probes k' = 1 \<and>
    (\<forall>u1 u2 u3. u2 - t3 < half_open_probe_timeout (ce_config env)
       \<longrightarrow> fst (breaker_check (ce_config env) (u1, u2, u3) k') = Inl exhausted_message))"
proof -
  let ?k = "k\<lparr>br_state := HalfOpen, half_open_probes := 1, half_open_probe_granted_at := Some t3\<rparr>"
  have chk: "breaker_check (ce_config env) (ce_clock env w) k = (Inr (), ?k, observe Open HalfOpen False)"
    using open_over slots by (simp add: clock breaker_check_def breaker_grant_def grant_probe_def)
  obtain e where refused: "ensure_available (ce_operation env) (ce_policy env) st = Inl e"
    using spent by (simp add: ensure_available_def)
  have "cr_breakers out = [?k]" "cr_world out = w"
    by (simp_all only: out fallback_stream_def fallback_loop.simps chk refused Let_def prod.case sum.case
        fallback_stop_simps list.map)
  moreover have "fst (breaker_check (ce_config env) (u1, u2, u3) ?k) = Inl exhausted_message"
    if "u2 - t3 < half_open_probe_timeout (ce_config env)" for u1 u2 u3
    using that slots by (simp add: breaker_check_def breaker_grant_def grant_probe_def not_le)
  ultimately show ?thesis by (intro conjI exI [of _ ?k]) simp_all
qed

text \<open>What the chain advertises, every member supports; a limit it advertises is the smallest of theirs.\<close>

lemma intersect_limit_le:
  "intersect_limit a b = Some m \<Longrightarrow> (\<exists>x. a = Some x \<and> m \<le> x) \<and> (\<exists>y. b = Some y \<and> m \<le> y)"
  by (auto simp: intersect_limit_def split: option.splits)

lemma intersection_fields [simp]:
  "native_tool_calls (conservative_intersection a b) \<longleftrightarrow> native_tool_calls a \<and> native_tool_calls b"
  "parallel_tool_calls (conservative_intersection a b) \<longleftrightarrow> parallel_tool_calls a \<and> parallel_tool_calls b"
  "structured_output (conservative_intersection a b) \<longleftrightarrow> structured_output a \<and> structured_output b"
  "max_output_tokens (pc_request_limits (conservative_intersection a b)) =
     intersect_limit (max_output_tokens (pc_request_limits a)) (max_output_tokens (pc_request_limits b))"
  by (simp_all add: conservative_intersection_def limits_intersection_def)

lemma fold_intersection_flags:
  "native_tool_calls (foldl conservative_intersection c cs) \<longleftrightarrow> (\<forall>x \<in> set (c # cs). native_tool_calls x)"
  "parallel_tool_calls (foldl conservative_intersection c cs) \<longleftrightarrow> (\<forall>x \<in> set (c # cs). parallel_tool_calls x)"
  "structured_output (foldl conservative_intersection c cs) \<longleftrightarrow> (\<forall>x \<in> set (c # cs). structured_output x)"
  by (induction cs arbitrary: c) auto

lemma fold_intersection_output_limit:
  "max_output_tokens (pc_request_limits (foldl conservative_intersection c cs)) = Some m \<Longrightarrow> x \<in> set (c # cs)
    \<Longrightarrow> \<exists>y. max_output_tokens (pc_request_limits x) = Some y \<and> m \<le> y"
proof (induction cs arbitrary: c x)
  case (Cons d cs)
  let ?cd = "conservative_intersection c d"
  have cd: "\<exists>y. max_output_tokens (pc_request_limits z) = Some y \<and> m \<le> y" if "z \<in> set (?cd # cs)" for z
    using Cons.IH [OF _ that] Cons.prems(1) by simp
  have "\<exists>y. intersect_limit (max_output_tokens (pc_request_limits c))
      (max_output_tokens (pc_request_limits d)) = Some y \<and> m \<le> y" using cd [of ?cd] by simp
  then have "(\<exists>u. max_output_tokens (pc_request_limits c) = Some u \<and> m \<le> u) \<and>
      (\<exists>v. max_output_tokens (pc_request_limits d) = Some v \<and> m \<le> v)"
    using intersect_limit_le order_trans by blast
  with Cons.prems(2) cd show ?case by auto
qed simp

theorem advertised_capabilities_hold:
  assumes "b \<in> set chain"
  shows "native_tool_calls (fallback_capabilities chain) \<longrightarrow> native_tool_calls (bk_capabilities b)"
    and "structured_output (fallback_capabilities chain) \<longrightarrow> structured_output (bk_capabilities b)"
    and "max_output_tokens (pc_request_limits (fallback_capabilities chain)) = Some m
      \<Longrightarrow> \<exists>y. max_output_tokens (pc_request_limits (bk_capabilities b)) = Some y \<and> m \<le> y"
proof -
  obtain c cs where cs: "map bk_capabilities chain = c # cs" using assms by (cases chain) auto
  then have b: "bk_capabilities b \<in> set (c # cs)" using assms by (metis image_eqI list.set_map)
  then show "native_tool_calls (fallback_capabilities chain) \<longrightarrow> native_tool_calls (bk_capabilities b)"
    and "structured_output (fallback_capabilities chain) \<longrightarrow> structured_output (bk_capabilities b)"
    using fold_intersection_flags [of c cs] by (simp_all only: fallback_capabilities_def cs list.case) blast+
  show "max_output_tokens (pc_request_limits (fallback_capabilities chain)) = Some m
      \<Longrightarrow> \<exists>y. max_output_tokens (pc_request_limits (bk_capabilities b)) = Some y \<and> m \<le> y"
    using fold_intersection_output_limit [OF _ b] by (simp only: fallback_capabilities_def cs list.case)
qed

end
