(* ===== verification/Concurrency_Limit.thy ===== *)
theory Concurrency_Limit
  imports Provider_Types Step_System
begin

text \<open>
  The request limiter of \<open>hi-ai/src/concurrency.rs\<close>: its configuration, the adaptive limit, and the
  tasks that acquire, hold and release permits through one mutex and one \<open>tokio::sync::Notify\<close>. A task
  creates its notification before it takes the lock; \<open>notify_waiters\<close> marks every notification created
  and not yet consumed, which is its documented behaviour. Every locked section, every spawned release
  and every notification is a step of its own, so the interleavings of the runtime are sequences of
  steps. Counters are natural numbers: none of them exceeds the number of requests made.
\<close>

section \<open>Configuration and state\<close>

record concurrency_config =
  max_concurrent :: nat
  foreground_reserved :: nat
  adaptive :: bool

definition concurrency_default :: concurrency_config where
  "concurrency_default = \<lparr>max_concurrent = 8, foreground_reserved = 1, adaptive = True\<rparr>"

definition concurrency_validate :: "concurrency_config \<Rightarrow> (string, concurrency_config) result" where
  "concurrency_validate cfg =
     (if max_concurrent cfg = 0 then Inl ''provider request concurrency must be at least one''
      else if max_concurrent cfg \<le> foreground_reserved cfg
      then Inl ''foreground-reserved provider slots must be below total concurrency''
      else Inr cfg)"

definition concurrency_of_limit :: "nat \<Rightarrow> concurrency_config" where
  "concurrency_of_limit n = \<lparr>max_concurrent = n, foreground_reserved = (if 1 < n then 1 else 0), adaptive = True\<rparr>"

record limit_state =
  in_flight :: nat
  auxiliary_in_flight :: nat
  current_limit :: nat
  success_streak :: nat
  last_throttle :: "nat option"

definition limit_new :: "concurrency_config \<Rightarrow> limit_state" where
  "limit_new cfg = \<lparr>in_flight = 0, auxiliary_in_flight = 0, current_limit = max_concurrent cfg,
     success_streak = 0, last_throttle = None\<rparr>"

definition productive_floor :: "concurrency_config \<Rightarrow> nat" where
  "productive_floor cfg = min (foreground_reserved cfg + 1) (max_concurrent cfg)"

definition admits :: "concurrency_config \<Rightarrow> bool \<Rightarrow> limit_state \<Rightarrow> bool" where
  "admits cfg aux st \<longleftrightarrow> in_flight st < current_limit st \<and>
     (\<not> aux \<or> auxiliary_in_flight st < current_limit st - foreground_reserved cfg)"

text \<open>One turn of the loop of \<open>acquire\<close> under the lock.\<close>

definition try_acquire :: "concurrency_config \<Rightarrow> bool \<Rightarrow> limit_state \<Rightarrow> bool \<times> limit_state" where
  "try_acquire cfg aux st =
     (let st1 = st\<lparr>current_limit := max (current_limit st) (productive_floor cfg)\<rparr> in
      if admits cfg aux st1
      then (True, st1\<lparr>in_flight := in_flight st1 + 1,
              auxiliary_in_flight := auxiliary_in_flight st1 + (if aux then 1 else 0)\<rparr>)
      else (False, st1))"

definition permit_release :: "bool \<Rightarrow> limit_state \<Rightarrow> limit_state" where
  "permit_release aux st = st\<lparr>in_flight := in_flight st - 1,
     auxiliary_in_flight := (if aux then auxiliary_in_flight st - 1 else auxiliary_in_flight st)\<rparr>"

definition is_throttled :: "(any_error, 'c) result \<Rightarrow> bool" where
  "is_throttled r = (case r of Inl e \<Rightarrow> get_error_kind e \<in> Some ` {RateLimit, CapacityUnavailable} | Inr _ \<Rightarrow> False)"

text \<open>\<open>ADAPTIVE_COOLDOWN\<close> is ten seconds, here in nanoseconds; \<open>RECOVERY_SUCCESSES\<close> is four.\<close>

definition record_result :: "concurrency_config \<Rightarrow> nat \<Rightarrow> (any_error, 'c) result \<Rightarrow> limit_state \<Rightarrow> limit_state" where
  "record_result cfg now r st =
     (if \<not> adaptive cfg then st
      else if is_throttled r then
        st\<lparr>current_limit := max (current_limit st - 1) (productive_floor cfg), success_streak := 0,
           last_throttle := Some now\<rparr>
      else if is_ok r then
        (let st1 = st\<lparr>success_streak := success_streak st + 1\<rparr>;
             cooled_down = (case last_throttle st of None \<Rightarrow> True | Some t \<Rightarrow> 10000000000 \<le> now - t)
         in if cooled_down \<and> 4 \<le> success_streak st1 \<and> current_limit st1 < max_concurrent cfg
            then st1\<lparr>current_limit := current_limit st1 + 1, success_streak := 0\<rparr>
            else st1)
      else st\<lparr>success_streak := 0\<rparr>)"

section \<open>Tasks\<close>

text \<open>
  A request is idle, armed (its notification exists, the lock is not yet taken), asleep on its
  notification, holds its permit before or after the result is recorded, or has dropped the permit and
  left the release to a spawned task. The flag of the first two tells whether a notification arrived. A
  waiting request and a running one may be cancelled at any time. \<open>ls_notifies\<close> counts the
  \<open>notify_waiters\<close> calls that are due.
\<close>

datatype task_phase = Idle | Armed bool | Sleeping bool | Holding | Recorded | Releasing

record limiter =
  ls_state :: limit_state
  ls_tasks :: "(bool \<times> task_phase) list"
  ls_notifies :: nat

datatype 'c limiter_action =
  Arm nat
| TryAcquire nat
| Wake nat
| CancelWait nat
| Settle nat nat "(any_error, 'c) result"
| DropPermit nat
| RunRelease nat
| RunNotify

definition set_phase :: "nat \<Rightarrow> task_phase \<Rightarrow> limiter \<Rightarrow> limiter" where
  "set_phase i ph s = s\<lparr>ls_tasks := (ls_tasks s)[i := (fst (ls_tasks s ! i), ph)]\<rparr>"

definition phase_of :: "limiter \<Rightarrow> nat \<Rightarrow> task_phase" where
  "phase_of s i = (if i < length (ls_tasks s) then snd (ls_tasks s ! i) else Idle)"

fun mark_woken :: "task_phase \<Rightarrow> task_phase" where
  "mark_woken (Armed _) = Armed True"
| "mark_woken (Sleeping _) = Sleeping True"
| "mark_woken ph = ph"

fun limiter_step :: "concurrency_config \<Rightarrow> 'c limiter_action \<Rightarrow> limiter \<Rightarrow> limiter" where
  "limiter_step cfg (Arm i) s =
     (if i < length (ls_tasks s) \<and> phase_of s i = Idle then set_phase i (Armed False) s else s)"
| "limiter_step cfg (TryAcquire i) s = (case phase_of s i of
     Armed woken \<Rightarrow>
       (let (ok, st) = try_acquire cfg (fst (ls_tasks s ! i)) (ls_state s)
        in set_phase i (if ok then Holding else Sleeping woken) (s\<lparr>ls_state := st\<rparr>))
   | _ \<Rightarrow> s)"
| "limiter_step cfg (Wake i) s = (if phase_of s i = Sleeping True then set_phase i (Armed False) s else s)"
| "limiter_step cfg (CancelWait i) s = (case phase_of s i of
     Armed _ \<Rightarrow> set_phase i Idle s | Sleeping _ \<Rightarrow> set_phase i Idle s | _ \<Rightarrow> s)"
| "limiter_step cfg (Settle i now r) s =
     (if phase_of s i = Holding
      then set_phase i Recorded (s\<lparr>ls_state := record_result cfg now r (ls_state s),
             ls_notifies := ls_notifies s + (if adaptive cfg then 1 else 0)\<rparr>)
      else s)"
| "limiter_step cfg (DropPermit i) s =
     (if phase_of s i = Holding \<or> phase_of s i = Recorded then set_phase i Releasing s else s)"
| "limiter_step cfg (RunRelease i) s =
     (if phase_of s i = Releasing
      then set_phase i Idle (s\<lparr>ls_state := permit_release (fst (ls_tasks s ! i)) (ls_state s),
             ls_notifies := ls_notifies s + 1\<rparr>)
      else s)"
| "limiter_step cfg RunNotify s =
     (if 0 < ls_notifies s
      then s\<lparr>ls_notifies := ls_notifies s - 1, ls_tasks := map (apsnd mark_woken) (ls_tasks s)\<rparr>
      else s)"

text \<open>A limiter serving tasks of the given kinds, auxiliary or not.\<close>

definition limiter_new :: "concurrency_config \<Rightarrow> bool list \<Rightarrow> limiter" where
  "limiter_new cfg kinds = \<lparr>ls_state = limit_new cfg, ls_tasks = map (\<lambda>aux. (aux, Idle)) kinds, ls_notifies = 0\<rparr>"

section \<open>Invariant\<close>

text \<open>A task that has not given back its permit.\<close>

definition holds_permit :: "task_phase \<Rightarrow> bool" where
  "holds_permit ph \<longleftrightarrow> ph = Holding \<or> ph = Recorded \<or> ph = Releasing"

definition permits :: "limiter \<Rightarrow> nat" where
  "permits s = length (filter (\<lambda>t. holds_permit (snd t)) (ls_tasks s))"

definition auxiliary_permits :: "limiter \<Rightarrow> nat" where
  "auxiliary_permits s = length (filter (\<lambda>t. holds_permit (snd t) \<and> fst t) (ls_tasks s))"

definition limits_ok :: "concurrency_config \<Rightarrow> limit_state \<Rightarrow> bool" where
  "limits_ok cfg st \<longleftrightarrow> productive_floor cfg \<le> current_limit st \<and> current_limit st \<le> max_concurrent cfg \<and>
     in_flight st \<le> max_concurrent cfg \<and> auxiliary_in_flight st \<le> max_concurrent cfg - foreground_reserved cfg"

definition no_lost_wakeup :: "concurrency_config \<Rightarrow> limiter \<Rightarrow> bool" where
  "no_lost_wakeup cfg s \<longleftrightarrow> ls_notifies s = 0 \<longrightarrow>
     (\<forall>i < length (ls_tasks s). snd (ls_tasks s ! i) = Sleeping False \<longrightarrow> \<not> admits cfg (fst (ls_tasks s ! i)) (ls_state s))"

definition limiter_inv :: "concurrency_config \<Rightarrow> limiter \<Rightarrow> bool" where
  "limiter_inv cfg s \<longleftrightarrow> limits_ok cfg (ls_state s) \<and> in_flight (ls_state s) = permits s \<and>
     auxiliary_in_flight (ls_state s) = auxiliary_permits s \<and> no_lost_wakeup cfg s"

lemma count_update:
  "i < length xs \<Longrightarrow> length (filter P (xs[i := x])) + (if P (xs ! i) then 1 else 0)
     = length (filter P xs) + (if P x then 1 else 0)"
proof (induction xs arbitrary: i)
  case (Cons y ys)
  then show ?case by (cases i) auto
qed simp

lemma length_filter_mono: "(\<And>x. P x \<Longrightarrow> Q x) \<Longrightarrow> length (filter P xs) \<le> length (filter Q xs)"
  by (induction xs) auto

lemma phase_index: "phase_of s i \<noteq> Idle \<Longrightarrow> i < length (ls_tasks s)"
  by (simp add: phase_of_def split: if_splits)

lemma phase_of_eq: "i < length (ls_tasks s) \<Longrightarrow> phase_of s i = snd (ls_tasks s ! i)"
  by (simp add: phase_of_def)

text \<open>How the counts of permits move with a task's phase.\<close>

lemma set_phase_counts:
  assumes "i < length (ls_tasks s)"
  shows "permits (set_phase i ph s) + of_bool (holds_permit (phase_of s i)) = permits s + of_bool (holds_permit ph)"
    and "auxiliary_permits (set_phase i ph s) + of_bool (holds_permit (phase_of s i) \<and> fst (ls_tasks s ! i))
           = auxiliary_permits s + of_bool (holds_permit ph \<and> fst (ls_tasks s ! i))"
  using count_update [OF assms, of "\<lambda>t. holds_permit (snd t)" "(fst (ls_tasks s ! i), ph)"]
    count_update [OF assms, of "\<lambda>t. holds_permit (snd t) \<and> fst t" "(fst (ls_tasks s ! i), ph)"] assms
  by (simp_all add: permits_def auxiliary_permits_def set_phase_def phase_of_eq case_prod_beta of_bool_def)

lemma fst_update_phase [simp]: "fst (xs[i := (fst (xs ! i), ph)] ! j) = fst (xs ! j)"
  by (cases "i < length xs"; cases "i = j") (auto simp: not_less list_update_beyond)

lemma set_phase_fields [simp]:
  "ls_state (set_phase i ph s) = ls_state s" "ls_notifies (set_phase i ph s) = ls_notifies s"
  "length (ls_tasks (set_phase i ph s)) = length (ls_tasks s)"
  "fst (ls_tasks (set_phase i ph s) ! j) = fst (ls_tasks s ! j)"
  by (simp_all add: set_phase_def)

lemma other_fields [simp]:
  "permits (s\<lparr>ls_state := st\<rparr>) = permits s" "auxiliary_permits (s\<lparr>ls_state := st\<rparr>) = auxiliary_permits s"
  "permits (s\<lparr>ls_notifies := n\<rparr>) = permits s" "auxiliary_permits (s\<lparr>ls_notifies := n\<rparr>) = auxiliary_permits s"
  "phase_of (s\<lparr>ls_state := st\<rparr>) i = phase_of s i" "phase_of (s\<lparr>ls_notifies := n\<rparr>) i = phase_of s i"
  by (simp_all add: permits_def auxiliary_permits_def phase_of_def)

lemma holds_permit_simps [simp]:
  "\<not> holds_permit Idle" "\<not> holds_permit (Armed b)" "\<not> holds_permit (Sleeping b)"
  "holds_permit Holding" "holds_permit Recorded" "holds_permit Releasing"
  by (simp_all add: holds_permit_def)

text \<open>No wake-up is lost when a phase changes while the admission test is no more permissive than before.\<close>

lemma set_phase_no_lost:
  assumes "no_lost_wakeup cfg s" "i < length (ls_tasks s)" "ls_state s' = st" "ls_tasks s' = ls_tasks s"
    and "ls_notifies s' = ls_notifies s"
    and "\<And>aux. admits cfg aux st \<Longrightarrow> admits cfg aux (ls_state s)"
    and "ph = Sleeping False \<Longrightarrow> \<not> admits cfg (fst (ls_tasks s ! i)) st"
  shows "no_lost_wakeup cfg (set_phase i ph s')"
  using assms by (auto simp: no_lost_wakeup_def set_phase_def nth_list_update)

lemma try_acquire_limits:
  assumes "limits_ok cfg st" "try_acquire cfg aux st = (ok, st')"
  shows "limits_ok cfg st' \<and> in_flight st' = in_flight st + of_bool ok \<and>
    auxiliary_in_flight st' = auxiliary_in_flight st + of_bool (ok \<and> aux) \<and> current_limit st' = current_limit st \<and>
    (\<not> ok \<longrightarrow> \<not> admits cfg aux st')"
proof -
  have "max (current_limit st) (productive_floor cfg) = current_limit st" using assms(1) by (simp add: limits_ok_def)
  with assms show ?thesis
    by (auto simp: try_acquire_def Let_def limits_ok_def admits_def split: if_splits)
qed

lemma admits_mono:
  assumes "admits cfg aux st'" "in_flight st \<le> in_flight st'" "auxiliary_in_flight st \<le> auxiliary_in_flight st'"
    and "current_limit st = current_limit st'"
  shows "admits cfg aux st"
  using assms by (auto simp: admits_def)

lemma record_result_limits:
  "limits_ok cfg st \<Longrightarrow> limits_ok cfg (record_result cfg now r st) \<and>
    in_flight (record_result cfg now r st) = in_flight st \<and>
    auxiliary_in_flight (record_result cfg now r st) = auxiliary_in_flight st"
  by (auto simp: record_result_def limits_ok_def productive_floor_def Let_def)

text \<open>A task that keeps or lacks a permit changes its phase; the limits are untouched.\<close>

lemma phase_change_inv:
  assumes "limiter_inv cfg s" "i < length (ls_tasks s)" "holds_permit ph = holds_permit (phase_of s i)" "ph \<noteq> Sleeping False"
  shows "limiter_inv cfg (set_phase i ph s)"
  using assms set_phase_counts [OF assms(2), of ph] set_phase_no_lost [of cfg s i s "ls_state s" ph]
  by (simp add: limiter_inv_def)

lemma try_step_inv:
  assumes inv: "limiter_inv cfg s" and i: "phase_of s i = Armed woken"
    and acq: "try_acquire cfg (fst (ls_tasks s ! i)) (ls_state s) = (ok, st)"
  shows "limiter_inv cfg (set_phase i (if ok then Holding else Sleeping woken) (s\<lparr>ls_state := st\<rparr>))"
proof -
  let ?s = "s\<lparr>ls_state := st\<rparr>" and ?ph = "if ok then Holding else Sleeping woken"
  have len: "i < length (ls_tasks s)" using i by (intro phase_index) simp
  note lim = try_acquire_limits [OF _ acq]
  then have lims: "limits_ok cfg st" "in_flight st = in_flight (ls_state s) + of_bool ok"
      "auxiliary_in_flight st = auxiliary_in_flight (ls_state s) + of_bool (ok \<and> fst (ls_tasks s ! i))"
      "current_limit st = current_limit (ls_state s)" "\<not> ok \<longrightarrow> \<not> admits cfg (fst (ls_tasks s ! i)) st"
    using inv by (auto simp: limiter_inv_def)
  have "no_lost_wakeup cfg (set_phase i ?ph ?s)"
  proof (rule set_phase_no_lost [of cfg s i ?s st])
    show "admits cfg aux (ls_state s)" if "admits cfg aux st" for aux
      using that by (rule admits_mono) (simp_all add: lims)
  qed (use inv len lims in \<open>auto simp: limiter_inv_def split: if_splits\<close>)
  then show ?thesis
    using inv lims set_phase_counts [of i ?s ?ph] len i by (auto simp: limiter_inv_def)
qed

lemma settle_step_inv:
  assumes inv: "limiter_inv cfg s"
  shows "limiter_inv cfg (limiter_step cfg (Settle i now r) s)"
proof (cases "phase_of s i = Holding"; cases "adaptive cfg")
  assume i: "phase_of s i = Holding" and True: "adaptive cfg"
  have len: "i < length (ls_tasks s)" using i by (intro phase_index) simp
  show ?thesis
    using inv i True len record_result_limits [of cfg "ls_state s" now r]
      set_phase_counts [of i "s\<lparr>ls_state := record_result cfg now r (ls_state s), ls_notifies := ls_notifies s + 1\<rparr>" Recorded]
    by (simp add: limiter_inv_def no_lost_wakeup_def)
next
  assume i: "phase_of s i = Holding" and False: "\<not> adaptive cfg"
  have len: "i < length (ls_tasks s)" using i by (intro phase_index) simp
  with inv i False show ?thesis
    by (simp add: record_result_def phase_change_inv)
qed (use inv in simp_all)

lemma release_step_inv:
  assumes inv: "limiter_inv cfg s"
  shows "limiter_inv cfg (limiter_step cfg (RunRelease i) s)"
proof (cases "phase_of s i = Releasing")
  case i: True
  have len: "i < length (ls_tasks s)" using i by (intro phase_index) simp
  let ?s = "s\<lparr>ls_state := permit_release (fst (ls_tasks s ! i)) (ls_state s), ls_notifies := ls_notifies s + 1\<rparr>"
  show ?thesis
    using inv i len set_phase_counts [of i ?s Idle]
    by (auto simp: limiter_inv_def no_lost_wakeup_def permit_release_def limits_ok_def)
qed (use inv in simp)

lemma notify_step_inv:
  assumes "limiter_inv cfg s"
  shows "limiter_inv cfg (limiter_step cfg RunNotify s)"
proof -
  have h: "holds_permit (mark_woken ph) = holds_permit ph" for ph by (cases ph) simp_all
  have m: "mark_woken ph \<noteq> Sleeping False" for ph by (cases ph) simp_all
  show ?thesis
    using assms
    by (auto simp: limiter_inv_def no_lost_wakeup_def permits_def auxiliary_permits_def filter_map comp_def h m)
qed

interpretation limiter: step_system "limiter_step cfg" "limiter_inv cfg" for cfg
proof
  fix s :: limiter and a :: "'c limiter_action"
  assume inv: "limiter_inv cfg s"
  show "limiter_inv cfg (limiter_step cfg a s)"
  proof (cases a)
    case (TryAcquire i)
    then show ?thesis using inv try_step_inv by (auto simp: case_prod_beta split: task_phase.splits)
  next
    case (Settle i now r)
    show ?thesis unfolding Settle using inv by (rule settle_step_inv)
  next
    case (RunRelease i)
    show ?thesis unfolding RunRelease using inv by (rule release_step_inv)
  next
    case RunNotify
    show ?thesis unfolding RunNotify using inv by (rule notify_step_inv)
  qed (use inv in \<open>auto simp: phase_change_inv phase_index split: task_phase.splits\<close>)
qed

lemma limiter_new_inv:
  assumes "concurrency_validate cfg = Inr c"
  shows "limiter_inv cfg (limiter_new cfg kinds)"
  by (auto simp: limiter_inv_def limiter_new_def limit_new_def limits_ok_def productive_floor_def permits_def
      auxiliary_permits_def no_lost_wakeup_def filter_map comp_def)

section \<open>Properties\<close>

text \<open>
  C40. Admission and progress of the limiter. In every reachable state of a validated limiter, at most
  \<open>max_concurrent\<close> permits are out, of which at most \<open>max_concurrent - foreground_reserved\<close> are
  auxiliary, and auxiliary requests always have a slot the adaptive limit cannot take away. No wake-up
  is lost: when no notification is due, a request asleep without one could not be admitted, and some
  other request still holds a permit whose release will notify it.
\<close>

theorem limiter_bounded_and_live:
  assumes "concurrency_validate cfg = Inr cfg'" "s = fold (limiter_step cfg) acts (limiter_new cfg kinds)"
  shows "permits s \<le> max_concurrent cfg \<and> auxiliary_permits s \<le> max_concurrent cfg - foreground_reserved cfg \<and>
    foreground_reserved cfg < current_limit (ls_state s) \<and>
    (\<forall>i. phase_of s i = Sleeping False \<and> ls_notifies s = 0 \<longrightarrow>
       \<not> admits cfg (fst (ls_tasks s ! i)) (ls_state s) \<and> (\<exists>j. holds_permit (phase_of s j)))"
proof -
  have v: "0 < max_concurrent cfg" "foreground_reserved cfg < max_concurrent cfg"
    using assms(1) by (auto simp: concurrency_validate_def split: if_splits)
  have inv: "limiter_inv cfg s" using limiter.run_inv [OF limiter_new_inv [OF assms(1)]] assms(2) by simp
  then have lim: "foreground_reserved cfg < current_limit (ls_state s)"
    using v by (auto simp: limiter_inv_def limits_ok_def productive_floor_def)
  have "\<not> admits cfg (fst (ls_tasks s ! i)) (ls_state s) \<and> (\<exists>j. holds_permit (phase_of s j))"
    if i: "phase_of s i = Sleeping False" "ls_notifies s = 0" for i
  proof -
    have len: "i < length (ls_tasks s)" using i by (intro phase_index) simp
    then have no: "\<not> admits cfg (fst (ls_tasks s ! i)) (ls_state s)"
      using inv i by (auto simp: limiter_inv_def no_lost_wakeup_def phase_of_eq)
    have "auxiliary_permits s \<le> permits s"
      unfolding auxiliary_permits_def permits_def by (rule length_filter_mono) auto
    then have "permits s \<noteq> 0" using no inv lim by (auto simp: admits_def limiter_inv_def)
    then obtain t where "t \<in> set (ls_tasks s)" "holds_permit (snd t)"
      by (auto simp: permits_def filter_empty_conv)
    then obtain j where "j < length (ls_tasks s)" "holds_permit (snd (ls_tasks s ! j))" by (auto simp: in_set_conv_nth)
    with no show ?thesis by (metis phase_of_eq)
  qed
  with inv lim show ?thesis by (auto simp: limiter_inv_def limits_ok_def)
qed

text \<open>Two requests contend for a limiter of one slot; the second falls asleep.\<close>

definition contended_run :: "unit limiter_action list" where
  "contended_run = [Arm 0, Arm 1, TryAcquire 0, TryAcquire 1]"

theorem limiter_bounded_and_live_witness:
  "concurrency_validate (concurrency_of_limit 1) = Inr (concurrency_of_limit 1) \<and>
   phase_of (fold (limiter_step (concurrency_of_limit 1)) contended_run
     (limiter_new (concurrency_of_limit 1) [False, True])) 1 = Sleeping False \<and>
   (\<exists>j. holds_permit (phase_of (fold (limiter_step (concurrency_of_limit 1)) contended_run
     (limiter_new (concurrency_of_limit 1) [False, True])) j))"
proof -
  let ?cfg = "concurrency_of_limit 1"
  let ?s = "fold (limiter_step ?cfg) contended_run (limiter_new ?cfg [False, True])"
  have v: "concurrency_validate ?cfg = Inr ?cfg" by (simp add: concurrency_validate_def concurrency_of_limit_def)
  have s: "phase_of ?s 1 = Sleeping False" "ls_notifies ?s = 0"
    by (simp_all add: contended_run_def limiter_new_def phase_of_def set_phase_def try_acquire_def admits_def
        limit_new_def productive_floor_def concurrency_of_limit_def Let_def)
  show ?thesis using limiter_bounded_and_live [OF v, of ?s contended_run "[False, True]"] v s by blast
qed

end
