(* ===== verification/Policy.thy ===== *)
theory Policy
  imports Run_State "HOL-Library.Multiset" "HOL-Library.Countable"
begin

text \<open>
  Capability and approval contracts, \<open>hi-policy/src/lib.rs\<close>: classification of tools, resource scopes,
  the canonical form of authorization material and the operation digest bound to an approval. BLAKE3 of
  the printed JSON is one argument, \<open>hash\<close>. The theory shows what two operations with one digest have
  in common.
\<close>

section \<open>Capabilities and scopes\<close>

datatype capability_kind =
  CapWorkspaceRead | CapWorkspaceWrite | CapProcessExecution | CapNetworkAccess
| CapDelegateApplication | CapWorkflowExecution

definition capability_kind_for_tool :: "string \<Rightarrow> capability_kind" where
  "capability_kind_for_tool tool =
     (if tool \<in> {''read'', ''list'', ''grep'', ''glob'', ''git_diff'', ''bash_output''} then CapWorkspaceRead
      else if tool \<in> {''write'', ''edit'', ''multi_edit'', ''apply_patch'', ''delete'', ''move'', ''memory_update'',
          ''memory_forget''} then CapWorkspaceWrite
      else if tool \<in> {''bash'', ''shell''} then CapProcessExecution
      else if tool \<in> {''web_search'', ''web_fetch'', ''web_download'', ''http_request'', ''research'', ''research_read'',
          ''browser_exec'', ''use_tool''} then CapNetworkAccess
      else if tool \<in> {''delegate'', ''explore''} then CapDelegateApplication
      else if tool \<in> {''workflow'', ''run_workflow''} then CapWorkflowExecution
      else CapProcessExecution)"

definition capability_is_read_only :: "capability_kind \<Rightarrow> bool" where
  "capability_is_read_only k \<longleftrightarrow> k = CapWorkspaceRead"

definition normalize_command :: "string \<Rightarrow> string" where
  "normalize_command c = trim c"

definition normalize_cwd :: "string \<Rightarrow> string" where
  "normalize_cwd c = trim c"

datatype resource_scope =
  ScopeWorkspace string
| ScopePaths string "string list"
| ScopeCommand string string string
| ScopeWorkflow string string
| ScopeOperation string string

text \<open>Sorting with removal of adjacent duplicates.\<close>

definition canonical_scope :: "resource_scope \<Rightarrow> resource_scope" where
  "canonical_scope s = (case s of ScopePaths w ps \<Rightarrow> ScopePaths w (remdups_adj (sort ps)) | other \<Rightarrow> other)"

section \<open>Canonical JSON\<close>

fun canonical_json_value :: "json \<Rightarrow> json"
  and canonical_values :: "json list \<Rightarrow> json list"
  and canonical_entries :: "(string \<times> json) list \<Rightarrow> (string \<times> json) list" where
  "canonical_json_value (JArray vs) = JArray (canonical_values vs)"
| "canonical_json_value (JObject fs) = JObject (sort_key fst (canonical_entries fs))"
| "canonical_json_value JNull = JNull"
| "canonical_json_value (JBool b) = JBool b"
| "canonical_json_value (JNumber n) = JNumber n"
| "canonical_json_value (JString t) = JString t"
| "canonical_values [] = []"
| "canonical_values (v # vs) = canonical_json_value v # canonical_values vs"
| "canonical_entries [] = []"
| "canonical_entries ((k, v) # fs) = (k, canonical_json_value v) # canonical_entries fs"

text \<open>How serde writes the two tagged types.\<close>

fun capability_json :: "capability_kind \<Rightarrow> json" where
  "capability_json CapWorkspaceRead = JString ''workspace_read''"
| "capability_json CapWorkspaceWrite = JString ''workspace_write''"
| "capability_json CapProcessExecution = JString ''process_execution''"
| "capability_json CapNetworkAccess = JString ''network_access''"
| "capability_json CapDelegateApplication = JString ''delegate_application''"
| "capability_json CapWorkflowExecution = JString ''workflow_execution''"

fun scope_json :: "resource_scope \<Rightarrow> json" where
  "scope_json (ScopeWorkspace w) = JObject [(''type'', JString ''workspace''), (''workspace_id'', JString w)]"
| "scope_json (ScopePaths w ps) = JObject [(''type'', JString ''paths''), (''workspace_id'', JString w),
     (''paths'', JArray (map JString ps))]"
| "scope_json (ScopeCommand w c d) = JObject [(''type'', JString ''command''), (''workspace_id'', JString w),
     (''command'', JString c), (''cwd'', JString d)]"
| "scope_json (ScopeWorkflow f r) = JObject [(''type'', JString ''workflow''), (''workflow_id'', JString f),
     (''run_id'', JString r)]"
| "scope_json (ScopeOperation w l) = JObject [(''type'', JString ''operation''), (''workspace_id'', JString w),
     (''label'', JString l)]"

definition digest_material :: "capability_kind \<Rightarrow> string \<Rightarrow> json \<Rightarrow> string \<Rightarrow> resource_scope \<Rightarrow> string option \<Rightarrow> json" where
  "digest_material kind tool arguments workspace_id sc prepared = canonical_json_value (JObject
     [(''kind'', capability_json kind), (''tool'', JString tool), (''arguments'', arguments),
      (''workspace_id'', JString workspace_id), (''scope'', scope_json (canonical_scope sc)),
      (''prepared_mutation'', case prepared of Some p \<Rightarrow> JString p | None \<Rightarrow> JNull)])"

definition digest_calculate :: "(json \<Rightarrow> string) \<Rightarrow> capability_kind \<Rightarrow> string \<Rightarrow> json \<Rightarrow> string
    \<Rightarrow> resource_scope \<Rightarrow> string option \<Rightarrow> string" where
  "digest_calculate hash kind tool arguments workspace_id sc prepared =
     hash (digest_material kind tool arguments workspace_id sc prepared)"

section \<open>Approval records\<close>

datatype approval_state = ApPending | ApApproved | ApDenied | ApExpired | ApConsumed | ApAbandoned

record capability_request =
  cq_approval_id :: string
  cq_capability :: capability_kind
  cq_scope :: resource_scope
  cq_operation_digest :: string
  cq_tool :: string
  cq_run_id :: "string option"
  cq_session_id :: "string option"
  cq_title :: string
  cq_redacted_detail :: string
  cq_created_at_ms :: u64
  cq_expires_at_ms :: u64

record approval_record =
  ap_request :: capability_request
  ap_state :: approval_state
  ap_decided_at_ms :: "u64 option"
  ap_consumed_at_ms :: "u64 option"

datatype approval_decision = DecideApproved | DecideDenied | DecideCancelled | DecideUnavailable

definition approval_request :: "string \<Rightarrow> u64 \<Rightarrow> capability_kind \<Rightarrow> resource_scope \<Rightarrow> string \<Rightarrow> string \<Rightarrow> string option
    \<Rightarrow> string option \<Rightarrow> string \<Rightarrow> string \<Rightarrow> capability_request" where
  "approval_request uuid now cap sc digest tool run session title detail =
     \<lparr>cq_approval_id = uuid, cq_capability = cap, cq_scope = sc, cq_operation_digest = digest, cq_tool = tool,
      cq_run_id = run, cq_session_id = session, cq_title = title, cq_redacted_detail = detail,
      cq_created_at_ms = now, cq_expires_at_ms = saturating_add now (24 * 60 * 60 * 1000)\<rparr>"

text \<open>The type \<open>Authorization\<close>: what the policy hook answers before a side effect.\<close>

datatype authorization =
  AuthAllowed
| AuthRequiresApproval capability_request
| AuthDenied string

text \<open>Printing is \<open>serde_json::to_string\<close>, an argument.\<close>

definition canonical_fields :: "(json \<Rightarrow> string) \<Rightarrow> (string \<times> json) list \<Rightarrow> string" where
  "canonical_fields print entries = print (canonical_json_value (JObject entries))"

section \<open>Scope identities, provenance and audit\<close>

datatype scope_kind = ScopeUser | ScopeWorkspaceKind | ScopeWorktree | ScopeSession | ScopeRun | ScopeAttempt

record scope_ref =
  sr_scope_id :: string
  sr_kind :: scope_kind
  sr_parent_scope_id :: "string option"
  sr_workspace_id :: "string option"
  sr_owner_id :: string
  sr_inherited :: bool
  sr_expires_at_ms :: "u64 option"

record principal =
  principal_id :: string
  principal_kind :: string

record provenance =
  pv_principal :: principal
  pv_source :: string
  pv_run_id :: "string option"
  pv_attempt_id :: "string option"
  pv_parent_ref :: "string option"
  pv_correlation_id :: "string option"
  pv_policy_version :: "string option"

record policy_snapshot =
  ps_version :: string
  ps_digest :: string

record policy_decision =
  pd_decision :: string
  pd_reason :: string
  pd_principal :: principal
  pd_scope :: "scope_ref option"
  pd_policy :: policy_snapshot
  pd_approval_id :: "string option"
  pd_operation_digest :: string
  pd_decided_at_ms :: u64

record policy_audit =
  pa_audit_id :: string
  pa_decision :: policy_decision
  pa_provenance :: provenance
  pa_route_ref :: "string option"
  pa_effect_ref :: "string option"
  pa_event_ref :: "string option"

section \<open>What the canonical form identifies\<close>

text \<open>Objects whose keys are distinct at every level, as a JSON map has them.\<close>

fun json_wf :: "json \<Rightarrow> bool"
  and json_wfs :: "json list \<Rightarrow> bool"
  and json_wf_entries :: "(string \<times> json) list \<Rightarrow> bool" where
  "json_wf (JArray vs) = json_wfs vs"
| "json_wf (JObject fs) = (distinct (map fst fs) \<and> json_wf_entries fs)"
| "json_wf JNull = True"
| "json_wf (JBool b) = True"
| "json_wf (JNumber n) = True"
| "json_wf (JString t) = True"
| "json_wfs [] = True"
| "json_wfs (v # vs) = (json_wf v \<and> json_wfs vs)"
| "json_wf_entries [] = True"
| "json_wf_entries ((k, v) # fs) = (json_wf v \<and> json_wf_entries fs)"

text \<open>Equality of JSON values: the order of an object's entries does not matter.\<close>

inductive json_same :: "json \<Rightarrow> json \<Rightarrow> bool" where
  same_null: "json_same JNull JNull"
| same_bool: "json_same (JBool b) (JBool b)"
| same_number: "json_same (JNumber n) (JNumber n)"
| same_string: "json_same (JString t) (JString t)"
| same_array: "list_all2 json_same vs ws \<Longrightarrow> json_same (JArray vs) (JArray ws)"
| same_object: "mset gs' = mset gs \<Longrightarrow> list_all2 (\<lambda>x y. fst x = fst y \<and> json_same (snd x) (snd y)) fs gs'
    \<Longrightarrow> json_same (JObject fs) (JObject gs)"


text \<open>The two mutual helpers are maps.\<close>

lemma canonical_values_map [simp]: "canonical_values vs = map canonical_json_value vs"
  by (induction vs) simp_all

lemma canonical_entries_map [simp]: "canonical_entries fs = map (\<lambda>(k, v). (k, canonical_json_value v)) fs"
  by (induction fs) auto

lemma json_wfs_all [simp]: "json_wfs vs \<longleftrightarrow> (\<forall>v \<in> set vs. json_wf v)"
  by (induction vs) simp_all

lemma json_wf_entries_all [simp]: "json_wf_entries fs \<longleftrightarrow> (\<forall>(k, v) \<in> set fs. json_wf v)"
  by (induction fs) auto

lemma canonical_entry_keys: "map fst (map (\<lambda>(k, v). (k, canonical_json_value v)) fs) = map fst fs"
  by (induction fs) auto

lemma mset_map_preimage:
  assumes "mset (map f gs) = mset ys"
  shows "\<exists>gs'. mset gs' = mset gs \<and> map f gs' = ys"
  using assms
proof (induction ys arbitrary: gs)
  case Nil
  then show ?case by simp
next
  case (Cons y ys)
  have "set (map f gs) = set (y # ys)" using Cons.prems by (rule mset_eq_setD)
  then obtain g where g: "g \<in> set gs" "f g = y" by (metis imageE list.set_intros(1) list.set_map)
  then have "mset (map f (remove1 g gs)) = mset ys"
    using Cons.prems by (simp add: image_mset_Diff)
  then obtain hs where "mset hs = mset (remove1 g gs)" "map f hs = ys" using Cons.IH by blast
  then have "mset (g # hs) = mset gs \<and> map f (g # hs) = y # ys" using g by simp
  then show ?case by (rule exI)
qed

lemma sort_key_unique:
  assumes "mset xs = mset ys" "distinct (map f ys)"
  shows "sort_key f xs = sort_key f ys"
proof (rule sort_key_inj_key_eq)
  show "mset xs = mset (sort_key f ys)" using assms by simp
  show "inj_on f (set xs)" using assms by (metis distinct_map mset_eq_setD)
  show "sorted (map f (sort_key f ys))" by simp
qed

lemma same_canonical: "json_same a b \<Longrightarrow> json_wf b \<Longrightarrow> canonical_json_value a = canonical_json_value b"
proof (induction rule: json_same.induct)
  case (same_array vs ws)
  then have "list_all2 (\<lambda>v w. canonical_json_value v = canonical_json_value w) vs ws"
    by (auto simp: list_all2_conv_all_nth)
  then show ?case by (simp add: list_all2_conv_all_nth list_eq_iff_nth_eq)
next
  case (same_object gs' gs fs)
  let ?c = "\<lambda>(k::string, v). (k, canonical_json_value v)"
  have "set gs' = set gs" using same_object.hyps by (metis mset_eq_setD)
  then have wf: "\<forall>(k, v) \<in> set gs'. json_wf v" using same_object.prems by simp
  have "map ?c fs = map ?c gs'"
    using same_object.IH wf
    by (auto simp: list_all2_conv_all_nth list_eq_iff_nth_eq split_beta)
  moreover have "mset (map ?c gs') = mset (map ?c gs)" using same_object.hyps by simp
  moreover have "distinct (map fst (map ?c gs))"
    unfolding canonical_entry_keys using same_object.prems by simp
  ultimately show ?case by (simp add: sort_key_unique del: map_map)
qed simp_all

lemma canonical_same: "canonical_json_value a = canonical_json_value b \<Longrightarrow> json_same a b"
proof (induction a arbitrary: b)
  case (JArray vs)
  obtain ws where ws: "b = JArray ws" "map canonical_json_value vs = map canonical_json_value ws"
    using JArray.prems by (cases b) simp_all
  then have "list_all2 json_same vs ws"
    using JArray.IH by (auto simp: list_all2_conv_all_nth list_eq_iff_nth_eq)
  then show ?case using ws by (simp add: json_same.same_array)
next
  case (JObject fs)
  let ?c = "\<lambda>(k::string, v). (k, canonical_json_value v)"
  obtain gs where gs: "b = JObject gs" "sort_key fst (map ?c fs) = sort_key fst (map ?c gs)"
    using JObject.prems by (cases b) simp_all
  then have "mset (map ?c gs) = mset (map ?c fs)" by (metis mset_sort)
  then obtain gs' where g: "mset gs' = mset gs" "map ?c gs' = map ?c fs"
    using mset_map_preimage by blast
  have "list_all2 (\<lambda>x y. fst x = fst y \<and> json_same (snd x) (snd y)) fs gs'"
  proof (rule list_all2_all_nthI)
    show len: "length fs = length gs'" using g(2) by (metis length_map)
    fix i assume i: "i < length fs"
    then have "?c (fs ! i) = ?c (gs' ! i)" using len arg_cong [OF g(2), of "\<lambda>l. l ! i"] by simp
    moreover have "snd (fs ! i) \<in> Basic_BNFs.snds (fs ! i)" by (rule snds.intros)
    ultimately show "fst (fs ! i) = fst (gs' ! i) \<and> json_same (snd (fs ! i)) (snd (gs' ! i))"
      using JObject.IH [OF nth_mem [OF i]] by (simp add: split_beta)
  qed
  then show ?case using g gs by (simp add: json_same.same_object)
qed (case_tac b; auto intro: json_same.intros)+


inductive_simps json_same_null [simp]: "json_same JNull b"
inductive_simps json_same_bool [simp]: "json_same (JBool x) b"
inductive_simps json_same_number [simp]: "json_same (JNumber n) b"
inductive_simps json_same_string [simp]: "json_same (JString t) b"
inductive_simps json_same_array [simp]: "json_same (JArray vs) b"
inductive_simps json_same_object: "json_same (JObject fs) b"

lemma json_same_lookup:
  assumes "json_same (JObject fs) (JObject gs)" "distinct (map fst gs)" "map_of fs k = Some v"
  shows "\<exists>w. map_of gs k = Some w \<and> json_same v w"
proof -
  obtain gs' where g: "mset gs' = mset gs" "list_all2 (\<lambda>x y. fst x = fst y \<and> json_same (snd x) (snd y)) fs gs'"
    using assms(1) by (auto simp: json_same_object)
  obtain i where i: "i < length fs" "fs ! i = (k, v)"
    using assms(3) by (metis in_set_conv_nth map_of_SomeD)
  then have w: "fst (gs' ! i) = k" "json_same v (snd (gs' ! i))" "i < length gs'"
    using g(2) by (auto simp: list_all2_conv_all_nth)
  then have "(k, snd (gs' ! i)) \<in> set gs" using g(1) by (metis mset_eq_setD nth_mem prod.collapse)
  then show ?thesis using w assms(2) by auto
qed

lemma json_same_refl: "json_same a a"
  by (rule canonical_same) (rule refl)

lemma string_arrays_same: "list_all2 json_same (map JString ps) (map JString qs) \<longleftrightarrow> ps = qs"
  by (auto simp: list_all2_conv_all_nth list_eq_iff_nth_eq)

text \<open>What a scope is: the paths of a scope count as a set.\<close>

fun scope_same :: "resource_scope \<Rightarrow> resource_scope \<Rightarrow> bool" where
  "scope_same (ScopePaths w ps) (ScopePaths v qs) = (w = v \<and> set ps = set qs)"
| "scope_same s t = (s = t)"

lemma distinct_sorted_dedup: "sorted xs \<Longrightarrow> distinct (remdups_adj xs)" for xs :: "'a::linorder list"
  by (induction xs rule: remdups_adj.induct) (auto simp: less_le)

lemma sorted_dedup_set: "remdups_adj (sort ps) = remdups_adj (sort qs) \<longleftrightarrow> set ps = set qs" for ps qs :: "string list"
proof
  assume "remdups_adj (sort ps) = remdups_adj (sort qs)"
  then show "set ps = set qs" by (metis remdups_adj_set set_sort)
next
  assume "set ps = set qs"
  moreover have "remdups_adj (sort xs) = sorted_list_of_set (set xs)" for xs :: "string list"
    by (rule sorted_distinct_set_unique)
       (simp_all add: sorted_remdups_adj distinct_sorted_dedup)
  ultimately show "remdups_adj (sort ps) = remdups_adj (sort qs)" by simp
qed

lemma canonical_scope_eq: "canonical_scope s = canonical_scope t \<longleftrightarrow> scope_same s t"
  by (cases s; cases t) (simp_all add: canonical_scope_def sorted_dedup_set)

lemma scope_json_keys: "\<exists>fs. scope_json s = JObject fs \<and> distinct (map fst fs)"
  by (cases s) simp_all

lemma json_same_scope: "json_same (scope_json s) (scope_json t) \<longleftrightarrow> s = t"
proof
  assume same: "json_same (scope_json s) (scope_json t)"
  obtain fs gs where j: "scope_json s = JObject fs" "scope_json t = JObject gs" "distinct (map fst gs)"
    using scope_json_keys by metis
  note look = json_same_lookup [OF same [unfolded j(1,2)] j(3)]
  show "s = t"
    using look [of "''type''"] look [of "''workspace_id''"] look [of "''paths''"] look [of "''command''"]
      look [of "''cwd''"] look [of "''workflow_id''"] look [of "''run_id''"] look [of "''label''"] j(1,2)
    by (cases s; cases t) (auto simp: string_arrays_same)
qed (simp add: json_same_refl)


lemma capability_json_same: "json_same (capability_json k) (capability_json l) \<longleftrightarrow> k = l"
  by (cases k; cases l) simp_all

text \<open>The six entries of the authorization material.\<close>

definition material_entries :: "capability_kind \<Rightarrow> string \<Rightarrow> json \<Rightarrow> string \<Rightarrow> resource_scope \<Rightarrow> string option
    \<Rightarrow> (string \<times> json) list" where
  "material_entries kind tool arguments workspace_id sc prepared =
     [(''kind'', capability_json kind), (''tool'', JString tool), (''arguments'', arguments),
      (''workspace_id'', JString workspace_id), (''scope'', scope_json (canonical_scope sc)),
      (''prepared_mutation'', case prepared of Some p \<Rightarrow> JString p | None \<Rightarrow> JNull)]"

lemma digest_material_entries:
  "digest_material kind tool args w sc prep = canonical_json_value (JObject (material_entries kind tool args w sc prep))"
  by (simp only: digest_material_def material_entries_def)

lemma json_wf_scope: "json_wf (scope_json s)"
  by (cases s) auto

lemma json_wf_material:
  assumes "json_wf args"
  shows "json_wf (JObject (material_entries kind tool args w sc prep))"
proof -
  have "json_wf (capability_json kind)" by (cases kind) simp_all
  then show ?thesis using assms by (simp add: material_entries_def json_wf_scope split: option.splits)
qed

lemma material_same:
  "json_same (JObject (material_entries k t a w s p)) (JObject (material_entries k' t' a' w' s' p'))
     \<longleftrightarrow> k = k' \<and> t = t' \<and> json_same a a' \<and> w = w' \<and> scope_same s s' \<and> p = p'" (is "?same = ?parts")
proof
  assume ?same
  note look = json_same_lookup [OF this, simplified material_entries_def]
  have k: "k = k'" using look [of "''kind''"] by (simp add: capability_json_same)
  have t: "t = t'" using look [of "''tool''"] by simp
  have a: "json_same a a'" using look [of "''arguments''"] by simp
  have w: "w = w'" using look [of "''workspace_id''"] by simp
  have s: "scope_same s s'" using look [of "''scope''"] by (simp add: json_same_scope canonical_scope_eq)
  have p: "p = p'" using look [of "''prepared_mutation''"] by (simp split: option.splits)
  show ?parts using k t a w s p by blast
next
  assume parts: ?parts
  then have sc: "canonical_scope s = canonical_scope s'" by (simp add: canonical_scope_eq)
  show ?same
    by (rule json_same.same_object [OF refl])
       (use parts sc json_same_refl in \<open>simp add: material_entries_def\<close>)
qed

lemma same_material:
  assumes "json_wf a" "json_wf a'"
  shows "digest_material k t a w s p = digest_material k' t' a' w' s' p'
     \<longleftrightarrow> k = k' \<and> t = t' \<and> json_same a a' \<and> w = w' \<and> scope_same s s' \<and> p = p'"
  using same_canonical [OF _ json_wf_material [OF assms(2)]] canonical_same
  by (metis digest_material_entries material_same)


section \<open>Digests\<close>

text \<open>
  C6. An operation digest identifies the operation: when the hash does not collide on the material of two
  operations, their digests are equal exactly when capability, tool, workspace and prepared mutation
  are the same, the arguments are the same JSON value whatever the order of object entries at any
  depth, and the scopes are the same with paths taken as a set.
\<close>

theorem digest_identifies_operation:
  assumes "json_wf a" "json_wf a'"
    and "inj_on hash {digest_material k t a w s p, digest_material k' t' a' w' s' p'}"
  shows "digest_calculate hash k t a w s p = digest_calculate hash k' t' a' w' s' p'
     \<longleftrightarrow> k = k' \<and> t = t' \<and> json_same a a' \<and> w = w' \<and> scope_same s s' \<and> p = p'"
  unfolding digest_calculate_def
  using inj_on_eq_iff [OF assms(3)] same_material [OF assms(1,2)] by simp

text \<open>Witness of C6: two spellings of one write, with a hash that is injective on JSON values.\<close>

instance json :: countable
  by countable_datatype

definition unary_hash :: "json \<Rightarrow> string" where
  "unary_hash j = replicate (to_nat j) CHR ''a''"

lemma inj_unary_hash: "inj unary_hash"
  by (auto simp: inj_def unary_hash_def dest: arg_cong [of _ _ length])

theorem digest_identifies_operation_witness:
  "digest_calculate unary_hash CapWorkspaceWrite ''write''
       (JObject [(''path'', JString ''a''), (''content'', JString ''x'')]) ''ws'' (ScopePaths ''ws'' [''b'', ''a'', ''b'']) None
     = digest_calculate unary_hash CapWorkspaceWrite ''write''
       (JObject [(''content'', JString ''x''), (''path'', JString ''a'')]) ''ws'' (ScopePaths ''ws'' [''a'', ''b'']) None"
proof -
  have "json_same (JObject [(''path'', JString ''a''), (''content'', JString ''x'')])
      (JObject [(''content'', JString ''x''), (''path'', JString ''a'')])"
    by (rule json_same.same_object [of "[(''path'', JString ''a''), (''content'', JString ''x'')]"]) simp_all
  then show ?thesis
    using inj_on_subset [OF inj_unary_hash subset_UNIV]
    by (subst digest_identifies_operation) auto
qed

section \<open>Classification\<close>

text \<open>
  Only six tools run without a stronger capability than reading, and a tool the classifier does not
  know counts as a process.
\<close>

theorem read_only_tools:
  "capability_is_read_only (capability_kind_for_tool tool)
     \<longleftrightarrow> tool \<in> {''read'', ''list'', ''grep'', ''glob'', ''git_diff'', ''bash_output''}"
  by (simp add: capability_is_read_only_def capability_kind_for_tool_def)

end
