(* ===== verification/Sql_Table.thy ===== *)
theory Sql_Table
  imports Hi_Prelude
begin

text \<open>
  The little of SQL that the stores of \<open>hi-control\<close> use, over tables as lists of rows: updates of the rows
  that satisfy a condition with the number of rows changed, insertion under unique columns, and the
  signed integers SQLite stores. A \<open>u64\<close> is written with \<open>as i64\<close> and read back with \<open>as u64\<close>, so a row
  keeps the word itself, and a comparison made by the database compares its signed reading.
\<close>

section \<open>Rows\<close>

text \<open>The rows that satisfy a condition are updated.\<close>

definition sql_update :: "('r \<Rightarrow> bool) \<Rightarrow> ('r \<Rightarrow> 'r) \<Rightarrow> 'r list \<Rightarrow> 'r list" where
  "sql_update c f t = map (\<lambda>r. if c r then f r else r) t"

definition sql_changed :: "('r \<Rightarrow> bool) \<Rightarrow> 'r list \<Rightarrow> nat" where
  "sql_changed c t = length (filter c t)"

definition sql_insert :: "('r \<Rightarrow> bool) \<Rightarrow> 'r \<Rightarrow> 'r list \<Rightarrow> 'r list option" where
  "sql_insert clash r t = (if \<exists>q \<in> set t. clash q then None else Some (t @ [r]))"

section \<open>Integers\<close>

text \<open>\<open>COALESCE(MAX(c), 0)\<close> over a column of signed integers.\<close>

definition sql_max :: "int list \<Rightarrow> int" where
  "sql_max xs = (case xs of [] \<Rightarrow> 0 | y # ys \<Rightarrow> fold max ys y)"

text \<open>One more than an \<open>i64\<close>: SQLite goes over to a real number past the largest, which does not read
  back as an integer.\<close>

definition sql_succ :: "int \<Rightarrow> int option" where
  "sql_succ i = (if i + 1 < 2 ^ 63 then Some (i + 1) else None)"

lemma sint_small: "n < 2 ^ 63 \<Longrightarrow> sint (of_nat n :: u64) = int n"
  by (simp add: signed_of_nat signed_take_bit_int_eq_self)

lemma sint_unat_small: "unat w < 2 ^ 63 \<Longrightarrow> sint w = int (unat w)" for w :: u64
  using sint_small [of "unat w"] by simp

section \<open>Facts\<close>

lemma sql_update_set: "set (sql_update c f t) = (\<lambda>r. if c r then f r else r) ` set t"
  by (simp add: sql_update_def)

lemma sql_update_keeps: "(\<And>r. k (f r) = k r) \<Longrightarrow> map k (sql_update c f t) = map k t"
  by (simp add: sql_update_def)

lemma sql_update_none: "sql_changed c t = 0 \<Longrightarrow> sql_update c f t = t"
  by (induction t) (auto simp: sql_changed_def sql_update_def split: if_splits)

lemma find_sql_update:
  assumes "\<And>r. k (f r) = k r"
  shows "find (\<lambda>r. k r = i) (sql_update c f t)
    = map_option (\<lambda>r. if c r then f r else r) (find (\<lambda>r. k r = i) t)"
  by (induction t) (auto simp: sql_update_def assms)

lemma find_key:
  assumes "distinct (map k t)" "r \<in> set t"
  shows "find (\<lambda>q. k q = k r) t = Some r"
  using assms by (induction t) (auto simp: image_iff)

lemma find_key_Some: "find (\<lambda>q. k q = i) t = Some r \<Longrightarrow> r \<in> set t \<and> k r = i"
  by (auto simp: find_Some_iff)

lemma sql_insert_Some: "sql_insert c r t = Some t' \<longleftrightarrow> (\<forall>q \<in> set t. \<not> c q) \<and> t' = t @ [r]"
  by (auto simp: sql_insert_def)

lemma sql_changed_key:
  assumes "distinct (map k t)" "r \<in> set t" "c r" "\<And>q. c q \<Longrightarrow> k q = k r"
  shows "sql_changed c t = 1"
proof -
  have "filter c t = [r]" using assms
  proof (induction t)
    case (Cons q t)
    show ?case
    proof (cases "q = r")
      case True
      then have "k r \<notin> k ` set t" using Cons.prems(1) by simp
      then have "\<forall>p \<in> set t. \<not> c p" using Cons.prems(4) by (metis image_eqI)
      then show ?thesis using True Cons.prems(3) by simp
    next
      case False
      then have r: "r \<in> set t" using Cons.prems(2) by simp
      then have "k q \<noteq> k r" using Cons.prems(1) by (metis distinct.simps(2) image_eqI list.set_map list.simps(9))
      then have "\<not> c q" using Cons.prems(4) by blast
      moreover have "filter c t = [r]" using Cons.IH [OF _ r Cons.prems(3,4)] Cons.prems(1) by simp
      ultimately show ?thesis by simp
    qed
  qed simp
  then show ?thesis by (simp add: sql_changed_def)
qed

lemma sql_max_bound: "x \<in> set xs \<Longrightarrow> x \<le> sql_max xs"
  by (cases xs) (simp_all add: sql_max_def Max_ge flip: Max.set_eq_fold)

end
