(* ===== verification/Approval_Store.thy ===== *)
theory Approval_Store
  imports Policy Step_System Sql_Table
begin

text \<open>
  The durable approvals of \<open>hi-control/src/lib.rs\<close> (\<open>impl ApprovalStore for ControlStore\<close>): a table of
  requests that a user decides and an executor claims. Every operation runs under the connection
  mutex, and those that decide or claim are transactions, so a history is a sequence of operations
  whatever the number of processes. The clock is an argument. Timestamps are \<open>u64\<close> in Rust and \<open>i64\<close> in
  SQL: a comparison made by the database is signed, one made in Rust is not. The theory shows that an
  approval authorizes one operation at most.
\<close>

section \<open>Rows and results\<close>

record approval_row =
  av_approval_id :: string
  av_run_id :: "string option"
  av_request :: capability_request
  av_state :: approval_state
  av_created_at_ms :: u64
  av_expires_at_ms :: u64
  av_decided_at_ms :: "u64 option"
  av_consumed_at_ms :: "u64 option"

type_synonym approval_table = "approval_row list"

datatype approval_error =
  ApprovalDatabase
| ApprovalNotFound
| ApprovalNotPending approval_state
| ApprovalNotApproved approval_state
| ApprovalDigestMismatch
| ApprovalPast
| ApprovalConsumedConcurrently

fun approval_state_name :: "approval_state \<Rightarrow> string" where
  "approval_state_name ApPending = ''pending''"
| "approval_state_name ApApproved = ''approved''"
| "approval_state_name ApDenied = ''denied''"
| "approval_state_name ApExpired = ''expired''"
| "approval_state_name ApConsumed = ''consumed''"
| "approval_state_name ApAbandoned = ''abandoned''"

definition approval_state_of_name :: "string \<Rightarrow> approval_state option" where
  "approval_state_of_name n =
     (if n = ''pending'' then Some ApPending else if n = ''approved'' then Some ApApproved
      else if n = ''denied'' then Some ApDenied else if n = ''expired'' then Some ApExpired
      else if n = ''consumed'' then Some ApConsumed else if n = ''abandoned'' then Some ApAbandoned else None)"

lemma approval_state_name_roundtrip: "approval_state_of_name (approval_state_name s) = Some s"
  by (cases s) (simp_all add: approval_state_of_name_def)

definition approval_from_row :: "approval_row \<Rightarrow> approval_record" where
  "approval_from_row r = \<lparr>ap_request = av_request r, ap_state = av_state r, ap_decided_at_ms = av_decided_at_ms r,
     ap_consumed_at_ms = av_consumed_at_ms r\<rparr>"

definition find_approval :: "string \<Rightarrow> approval_table \<Rightarrow> approval_row option" where
  "find_approval i t = find (\<lambda>r. av_approval_id r = i) t"

definition approval_row_of :: "string \<Rightarrow> approval_table \<Rightarrow> approval_record option" where
  "approval_row_of i t = map_option approval_from_row (find_approval i t)"

definition approval_open :: "approval_row \<Rightarrow> bool" where
  "approval_open r \<longleftrightarrow> av_state r = ApPending \<or> av_state r = ApApproved"

definition with_state :: "approval_state \<Rightarrow> approval_row \<Rightarrow> approval_row" where
  "with_state s r = r\<lparr>av_state := s\<rparr>"

section \<open>Operations\<close>

definition create_approval :: "capability_request \<Rightarrow> approval_table
    \<Rightarrow> (approval_error, approval_record) result \<times> approval_table" where
  "create_approval req t =
     (if \<exists>r \<in> set t. av_approval_id r = cq_approval_id req then (Inl ApprovalDatabase, t)
      else (Inr \<lparr>ap_request = req, ap_state = ApPending, ap_decided_at_ms = None, ap_consumed_at_ms = None\<rparr>,
        t @ [\<lparr>av_approval_id = cq_approval_id req, av_run_id = cq_run_id req, av_request = req, av_state = ApPending,
              av_created_at_ms = cq_created_at_ms req, av_expires_at_ms = cq_expires_at_ms req,
              av_decided_at_ms = None, av_consumed_at_ms = None\<rparr>]))"

definition get_approval :: "string \<Rightarrow> u64 \<Rightarrow> approval_table \<Rightarrow> approval_record option \<times> approval_table" where
  "get_approval i now t =
     (let t' = sql_update (\<lambda>r. av_approval_id r = i \<and> approval_open r \<and> sint (av_expires_at_ms r) \<le> sint now)
                 (with_state ApExpired) t
      in (approval_row_of i t', t'))"

fun decided_state :: "approval_decision \<Rightarrow> approval_state" where
  "decided_state DecideApproved = ApApproved"
| "decided_state DecideDenied = ApDenied"
| "decided_state DecideCancelled = ApDenied"
| "decided_state DecideUnavailable = ApDenied"

definition decide_approval :: "string \<Rightarrow> approval_decision \<Rightarrow> u64 \<Rightarrow> approval_table
    \<Rightarrow> (approval_error, approval_record) result \<times> approval_table" where
  "decide_approval i d now t =
     (case approval_row_of i t of
        None \<Rightarrow> (Inl ApprovalNotFound, t)
      | Some current \<Rightarrow>
          if ap_state current \<noteq> ApPending then (Inl (ApprovalNotPending (ap_state current)), t)
          else let s = (if cq_expires_at_ms (ap_request current) \<le> now then ApExpired else decided_state d)
               in (Inr (current\<lparr>ap_state := s, ap_decided_at_ms := Some now\<rparr>),
                   sql_update (\<lambda>r. av_approval_id r = i) (\<lambda>r. r\<lparr>av_state := s, av_decided_at_ms := Some now\<rparr>) t))"

definition claim_approval :: "string \<Rightarrow> string \<Rightarrow> u64 \<Rightarrow> approval_table
    \<Rightarrow> (approval_error, approval_record) result \<times> approval_table" where
  "claim_approval i digest now t =
     (case approval_row_of i t of
        None \<Rightarrow> (Inl ApprovalNotFound, t)
      | Some current \<Rightarrow>
          if cq_operation_digest (ap_request current) \<noteq> digest then (Inl ApprovalDigestMismatch, t)
          else if ap_state current \<noteq> ApApproved then (Inl (ApprovalNotApproved (ap_state current)), t)
          else if cq_expires_at_ms (ap_request current) \<le> now then
            (Inl ApprovalPast, sql_update (\<lambda>r. av_approval_id r = i) (with_state ApExpired) t)
          else let c = (\<lambda>r. av_approval_id r = i \<and> av_state r = ApApproved)
               in if sql_changed c t \<noteq> 1 then (Inl ApprovalConsumedConcurrently, t)
                  else (Inr (current\<lparr>ap_state := ApConsumed, ap_consumed_at_ms := Some now\<rparr>),
                        sql_update c (\<lambda>r. r\<lparr>av_state := ApConsumed, av_consumed_at_ms := Some now\<rparr>) t))"

definition abandon_run_approvals :: "string \<Rightarrow> approval_table \<Rightarrow> nat \<times> approval_table" where
  "abandon_run_approvals run t =
     (let c = (\<lambda>r. av_run_id r = Some run \<and> approval_open r)
      in (sql_changed c t, sql_update c (with_state ApAbandoned) t))"

definition abandon_interactive :: "approval_table \<Rightarrow> nat \<times> approval_table" where
  "abandon_interactive t =
     (let c = (\<lambda>r. av_run_id r = None \<and> approval_open r)
      in (sql_changed c t, sql_update c (with_state ApAbandoned) t))"

definition pending_approvals :: "u64 \<Rightarrow> approval_table \<Rightarrow> approval_record list \<times> approval_table" where
  "pending_approvals now t =
     (let t' = sql_update (\<lambda>r. approval_open r \<and> sint (av_expires_at_ms r) \<le> sint now) (with_state ApExpired) t
      in (map approval_from_row (sort_key (\<lambda>r. sint (av_created_at_ms r)) (filter approval_open t')), t'))"

section \<open>Histories\<close>

datatype approval_op =
  OpCreate capability_request
| OpGet string u64
| OpDecide string approval_decision u64
| OpClaim string string u64
| OpAbandonRun string
| OpAbandonInteractive
| OpPending u64

fun approval_step :: "approval_op \<Rightarrow> approval_table \<Rightarrow> approval_table" where
  "approval_step (OpCreate req) t = snd (create_approval req t)"
| "approval_step (OpGet i now) t = snd (get_approval i now t)"
| "approval_step (OpDecide i d now) t = snd (decide_approval i d now t)"
| "approval_step (OpClaim i digest now) t = snd (claim_approval i digest now t)"
| "approval_step (OpAbandonRun run) t = snd (abandon_run_approvals run t)"
| "approval_step OpAbandonInteractive t = snd (abandon_interactive t)"
| "approval_step (OpPending now) t = snd (pending_approvals now t)"

abbreviation approval_history :: "approval_op list \<Rightarrow> approval_table" where
  "approval_history ops \<equiv> fold approval_step ops []"


lemma find_approval_id: "find_approval i t = Some r \<Longrightarrow> av_approval_id r = i"
  by (auto simp: find_approval_def find_Some_iff)

lemma find_approval_none: "find_approval i t = None \<longleftrightarrow> (\<forall>r \<in> set t. av_approval_id r \<noteq> i)"
  by (auto simp: find_approval_def find_None_iff)

lemma find_approval_update:
  assumes "\<And>r. av_approval_id (f r) = av_approval_id r"
  shows "find_approval i (sql_update c f t) = map_option (\<lambda>r. if c r then f r else r) (find_approval i t)"
  by (induction t) (auto simp: find_approval_def sql_update_def assms)

lemma find_approval_append:
  "find_approval i (t @ [r]) = (case find_approval i t of Some q \<Rightarrow> Some q
     | None \<Rightarrow> if av_approval_id r = i then Some r else None)"
  by (induction t) (auto simp: find_approval_def)

lemma with_state_id [simp]: "av_approval_id (with_state s r) = av_approval_id r"
  by (simp add: with_state_def)

lemmas find_updates =
  find_approval_update [where f = "with_state s" for s]
  find_approval_update [where f = "\<lambda>r. r\<lparr>av_state := s, av_decided_at_ms := d\<rparr>" for s d]
  find_approval_update [where f = "\<lambda>r. r\<lparr>av_state := s, av_consumed_at_ms := d\<rparr>" for s d]

text \<open>How the state of one approval may move.\<close>

definition approval_moves :: "approval_state \<Rightarrow> approval_state \<Rightarrow> bool" where
  "approval_moves s s' \<longleftrightarrow> s = s' \<or> s = ApPending \<or> (s = ApApproved \<and> s' \<noteq> ApPending \<and> s' \<noteq> ApDenied)"

definition approval_adv :: "approval_table \<Rightarrow> approval_table \<Rightarrow> bool" where
  "approval_adv t t' \<longleftrightarrow> (\<forall>i r. find_approval i t = Some r \<longrightarrow>
     (\<exists>r'. find_approval i t' = Some r' \<and> av_request r' = av_request r \<and> approval_moves (av_state r) (av_state r')))"

text \<open>One step, seen from one approval.\<close>

lemma approval_step_row:
  assumes "find_approval i t = Some r"
  shows "\<exists>r'. find_approval i (approval_step a t) = Some r' \<and> av_request r' = av_request r
     \<and> (av_state r' = av_state r
        \<or> av_state r = ApPending \<and> av_state r' \<in> {ApDenied, ApExpired, ApAbandoned}
        \<or> av_state r = ApPending \<and> av_state r' = ApApproved
            \<and> (\<exists>now. a = OpDecide i DecideApproved now \<and> now < cq_expires_at_ms (av_request r))
        \<or> av_state r = ApApproved \<and> av_state r' \<in> {ApConsumed, ApExpired, ApAbandoned})"
proof (cases a)
  case (OpCreate req)
  then show ?thesis using assms by (auto simp: create_approval_def find_approval_append)
next
  case (OpGet j now)
  then show ?thesis using assms
    by (auto simp: get_approval_def Let_def find_updates approval_open_def with_state_def)
next
  case (OpDecide j d now)
  then show ?thesis using assms
    by (cases d; cases "j = i")
       (auto simp: decide_approval_def approval_row_of_def Let_def find_updates approval_from_row_def
          not_le find_approval_id split: option.splits)
next
  case (OpClaim j digest now)
  then show ?thesis using assms
    by (cases "j = i")
       (auto simp: claim_approval_def approval_row_of_def Let_def find_updates approval_from_row_def
          with_state_def find_approval_id split: option.splits)
next
  case (OpAbandonRun run)
  then show ?thesis using assms
    by (auto simp: abandon_run_approvals_def Let_def find_updates approval_open_def with_state_def)
next
  case OpAbandonInteractive
  then show ?thesis using assms
    by (auto simp: abandon_interactive_def Let_def find_updates approval_open_def with_state_def)
next
  case (OpPending now)
  then show ?thesis using assms
    by (auto simp: pending_approvals_def Let_def find_updates approval_open_def with_state_def)
qed


lemma approval_moves_trans: "approval_moves s s' \<Longrightarrow> approval_moves s' s'' \<Longrightarrow> approval_moves s s''"
  by (auto simp: approval_moves_def)

lemma approval_advI:
  "(\<And>i r. find_approval i t = Some r \<Longrightarrow> \<exists>r'. find_approval i t' = Some r' \<and> av_request r' = av_request r
     \<and> approval_moves (av_state r) (av_state r')) \<Longrightarrow> approval_adv t t'"
  by (simp add: approval_adv_def)

lemma approval_advD:
  "approval_adv t t' \<Longrightarrow> find_approval i t = Some r \<Longrightarrow> \<exists>r'. find_approval i t' = Some r' \<and> av_request r' = av_request r
     \<and> approval_moves (av_state r) (av_state r')"
  by (simp add: approval_adv_def)

lemma approval_adv_trans:
  assumes "approval_adv t t'" "approval_adv t' t''"
  shows "approval_adv t t''"
proof (rule approval_advI)
  fix i r
  assume "find_approval i t = Some r"
  then obtain r' where r': "find_approval i t' = Some r'" "av_request r' = av_request r"
      "approval_moves (av_state r) (av_state r')" using approval_advD [OF assms(1)] by blast
  then obtain r'' where "find_approval i t'' = Some r''" "av_request r'' = av_request r'"
      "approval_moves (av_state r') (av_state r'')" using approval_advD [OF assms(2)] by blast
  then show "\<exists>r''. find_approval i t'' = Some r'' \<and> av_request r'' = av_request r
      \<and> approval_moves (av_state r) (av_state r'')"
    using r' approval_moves_trans by auto
qed

interpretation approvals: ordered_steps approval_step "\<lambda>_. True" approval_adv
proof unfold_locales
  fix t t' t'' :: approval_table and a
  show "approval_adv t t" by (auto simp: approval_adv_def approval_moves_def)
  show "approval_adv t t' \<Longrightarrow> approval_adv t' t'' \<Longrightarrow> approval_adv t t''"
    by (rule approval_adv_trans)
  show "approval_adv t (approval_step a t)"
  proof (rule approval_advI)
    fix i r
    assume "find_approval i t = Some r"
    from approval_step_row [OF this, of a]
    show "\<exists>r'. find_approval i (approval_step a t) = Some r' \<and> av_request r' = av_request r
        \<and> approval_moves (av_state r) (av_state r')"
      by (auto simp: approval_moves_def)
  qed
qed simp

lemma approval_appears:
  assumes "find_approval i t = None" "find_approval i (approval_step a t) = Some r"
  shows "\<exists>req. a = OpCreate req \<and> cq_approval_id req = i \<and> av_request r = req \<and> av_state r = ApPending"
proof (cases a)
  case (OpCreate req)
  then show ?thesis using assms
    by (auto simp: create_approval_def find_approval_append split: if_splits)
next
  case (OpDecide j d now)
  then show ?thesis using assms
    by (auto simp: decide_approval_def Let_def find_updates split: option.splits if_splits)
next
  case (OpClaim j digest now)
  then show ?thesis using assms
    by (auto simp: claim_approval_def Let_def find_updates split: option.splits if_splits)
qed (use assms in \<open>auto simp: get_approval_def abandon_run_approvals_def abandon_interactive_def pending_approvals_def
      Let_def find_updates\<close>)

text \<open>A row comes from a request, and an approved or consumed one from a timely approval.\<close>

definition approved_in :: "string \<Rightarrow> capability_request \<Rightarrow> approval_op list \<Rightarrow> bool" where
  "approved_in i req ops \<longleftrightarrow> (\<exists>us now vs. ops = us @ OpDecide i DecideApproved now # vs
     \<and> now < cq_expires_at_ms req \<and> map_option av_state (find_approval i (approval_history us)) = Some ApPending)"

lemma approved_in_append: "approved_in i req ops \<Longrightarrow> approved_in i req (ops @ [a])"
  unfolding approved_in_def by (metis append.assoc append_Cons)

lemma approval_origin:
  assumes "find_approval i (approval_history ops) = Some r"
  shows "OpCreate (av_request r) \<in> set ops \<and> cq_approval_id (av_request r) = i
     \<and> (av_state r \<in> {ApApproved, ApConsumed} \<longrightarrow> approved_in i (av_request r) ops)"
  using assms
proof (induction ops arbitrary: r rule: rev_induct)
  case Nil
  then show ?case by (simp add: find_approval_def)
next
  case (snoc a ops)
  let ?t = "approval_history ops"
  have find: "find_approval i (approval_step a ?t) = Some r" using snoc.prems by simp
  show ?case
  proof (cases "find_approval i ?t")
    case None
    then show ?thesis using approval_appears [OF None find] by auto
  next
    case (Some q)
    note origin = snoc.IH [OF Some]
    have same: "av_request r = av_request q" using approval_step_row [OF Some, of a] find by auto
    have "approved_in i (av_request r) (ops @ [a])" if fin: "av_state r \<in> {ApApproved, ApConsumed}"
    proof (cases "av_state q \<in> {ApApproved, ApConsumed}")
      case True
      then show ?thesis using origin same approved_in_append by simp
    next
      case False
      then obtain now where "a = OpDecide i DecideApproved now" "now < cq_expires_at_ms (av_request q)"
          "av_state q = ApPending"
        using approval_step_row [OF Some, of a] find fin by auto
      then show ?thesis
        unfolding approved_in_def same using Some
        by (intro exI [of _ ops] exI [of _ now] exI [of _ "[]"]) simp
    qed
    then show ?thesis using origin same by auto
  qed
qed

text \<open>Claims succeed on approved rows only, and leave them consumed.\<close>

lemma claim_ok:
  assumes "fst (claim_approval i d now t) = Inr rec"
  shows "\<exists>r. find_approval i t = Some r \<and> av_state r = ApApproved \<and> cq_operation_digest (av_request r) = d
     \<and> now < cq_expires_at_ms (av_request r)
     \<and> (\<exists>r'. find_approval i (snd (claim_approval i d now t)) = Some r' \<and> av_state r' = ApConsumed)"
  using assms
  by (auto simp: claim_approval_def approval_row_of_def approval_from_row_def Let_def find_updates not_le
      find_approval_id split: option.splits if_splits)

lemma consumed_stays:
  assumes "find_approval i t = Some r" "av_state r \<notin> {ApPending, ApApproved}"
  shows "\<not> is_ok (fst (claim_approval i d now (fold approval_step ops t)))"
proof
  assume "is_ok (fst (claim_approval i d now (fold approval_step ops t)))"
  then obtain q where "find_approval i (fold approval_step ops t) = Some q" "av_state q = ApApproved"
    using claim_ok by (metis is_ok_iff)
  moreover have "approval_adv t (fold approval_step ops t)" by (rule approvals.run_adv) simp
  ultimately have "approval_moves (av_state r) ApApproved" using approval_advD [OF _ assms(1)] by fastforce
  then show False using assms(2) by (auto simp: approval_moves_def)
qed

text \<open>
  C2. Approvals are single use. When a claim succeeds after some history of the store, the approval was
  created with exactly the claimed operation digest, it was pending when it was approved, the
  approval and the claim both came before its expiry, and no claim on it ever succeeds again
  whatever operations follow.
\<close>

theorem approval_single_use:
  assumes "fst (claim_approval i d now (approval_history ops)) = Inr rec"
  shows "\<exists>req. OpCreate req \<in> set ops \<and> cq_approval_id req = i \<and> cq_operation_digest req = d
       \<and> now < cq_expires_at_ms req \<and> approved_in i req ops
       \<and> (\<forall>later d' now'. \<not> is_ok (fst (claim_approval i d' now'
            (fold approval_step later (snd (claim_approval i d now (approval_history ops)))))))"
proof -
  obtain r r' where r: "find_approval i (approval_history ops) = Some r" "av_state r = ApApproved"
      "cq_operation_digest (av_request r) = d" "now < cq_expires_at_ms (av_request r)"
      "find_approval i (snd (claim_approval i d now (approval_history ops))) = Some r'" "av_state r' = ApConsumed"
    using claim_ok [OF assms] by blast
  then show ?thesis using approval_origin [OF r(1)] consumed_stays [OF r(5)] by auto
qed

text \<open>Witness of C2: a command that is approved after one second and run after two.\<close>

definition sample_command_request :: capability_request where
  "sample_command_request = approval_request ''ap-1'' 1000 CapProcessExecution (ScopeCommand ''ws'' ''ls'' ''/'') ''d1'' ''bash''
     None (Some ''s'') ''Run ls'' ''ls''"

theorem approval_single_use_witness:
  "\<not> is_ok (fst (claim_approval ''ap-1'' ''d1'' 3001
     (snd (claim_approval ''ap-1'' ''d1'' 3000
       (approval_history [OpCreate sample_command_request, OpDecide ''ap-1'' DecideApproved 2000])))))"
proof -
  let ?t = "approval_history [OpCreate sample_command_request, OpDecide ''ap-1'' DecideApproved 2000]"
  have exp: "cq_expires_at_ms sample_command_request = 86401000"
    by (simp add: sample_command_request_def approval_request_def saturating_add_def)
  have "is_ok (fst (claim_approval ''ap-1'' ''d1'' 3000 ?t))"
    using exp
    by (simp add: create_approval_def decide_approval_def claim_approval_def approval_row_of_def find_approval_def
        approval_from_row_def sql_update_def sql_changed_def Let_def)
       (simp add: sample_command_request_def approval_request_def saturating_add_def)
  then obtain rec where "fst (claim_approval ''ap-1'' ''d1'' 3000 ?t) = Inr rec" by (auto simp: is_ok_iff)
  from approval_single_use [OF this] have
    "\<forall>later d' now'. \<not> is_ok (fst (claim_approval ''ap-1'' d' now'
        (fold approval_step later (snd (claim_approval ''ap-1'' ''d1'' 3000 ?t)))))" by blast
  from this [rule_format, of "''d1''" 3001 "[]"] show ?thesis by simp
qed

end
