(* ===== verification/Event_Log.thy ===== *)
theory Event_Log
  imports Run_State Step_System Sql_Table
begin

text \<open>
  The durable event stream: the contracts of \<open>hi-events/src/lib.rs\<close> and the \<open>run_events\<close> table of
  \<open>hi-control/src/lib.rs\<close>. A row keeps the event it serializes; serde writes and reads these derived
  types without loss, so the text column is the event itself, and \<open>event_bytes\<close>, which nothing reads,
  is left out. SQLite integers are signed: a \<open>u64\<close> is stored with its bits and compared as an \<open>i64\<close>.
  The theory shows that the table is an append-only list with one entry per event id.
\<close>

section \<open>Events\<close>

record event_context =
  ec_workspace_id :: "string option"
  ec_session_id :: "string option"
  ec_run_id :: "string option"
  ec_attempt_id :: "string option"
  ec_scope_id :: "string option"
  ec_actor_id :: "string option"
  ec_workflow_id :: "string option"
  ec_parent_event_id :: "string option"
  ec_correlation_id :: "string option"

datatype event_durability = BestEffort | DurabilityRequired

datatype activity_verb =
  VerbStart | VerbRequest | VerbWait | VerbResume | VerbRead | VerbWrite | VerbExecute | VerbVerify
| VerbApprove | VerbDeny | VerbTrigger | VerbComplete | VerbFail | VerbCancel | VerbChange

datatype activity_object =
  ObjRun | ObjTool | ObjCapability | ObjApproval | ObjWorkflow | ObjPhase | ObjVerification | ObjWorkspace
| ObjGit | ObjLoop | ObjTrigger | ObjRace

datatype activity_state =
  ActPending | ActRunning | ActWaiting | ActSucceeded | ActFailed | ActDenied | ActTimedOut | ActCancelled
| ActAbandoned

record activity_ref =
  actref_kind :: string
  actref_id :: string

record semantic_activity =
  sa_verb :: activity_verb
  sa_object :: activity_object
  sa_state :: activity_state
  sa_group_key :: string
  sa_title :: string
  sa_detail :: "string option"
  sa_refs :: "activity_ref list"
  sa_progress :: "u8 option"

datatype event_kind =
  EvRunStarted | EvAttemptClaimed | EvAttemptRenewed | EvAttemptLeaseLost | EvAttemptCompleted | EvAttemptFailed
| EvRunWaiting | EvRunResumed | EvRunCompleted | EvRunFailed | EvRunCancelled | EvToolRequested | EvToolStarted
| EvToolCompleted | EvToolDenied | EvToolTimedOut | EvCapabilityRequested | EvPolicyEvaluated | EvRouteSelected
| EvEffectPlanned | EvEffectStarted | EvEffectCompleted | EvEffectFailed | EvEffectDenied | EvEffectUnknown
| EvEffectReconciled | EvAuditRecorded | EvApprovalDecided | EvApprovalConsumed | EvWorkflowStarted
| EvWorkflowPaused | EvWorkflowResumed | EvWorkflowCompleted | EvWorkflowFailed | EvPhaseStarted | EvPhaseCompleted
| EvVerificationStarted | EvVerificationCompleted | EvGitChanged | EvLoopFired | EvTriggerAccepted
| EvTriggerSkipped | EvTriggerStarted | EvTriggerCompleted | EvTriggerFailed | EvRaceStarted
| EvRaceCandidateStarted | EvRaceCandidateCompleted | EvRaceCandidateScored | EvRaceWinnerReady | EvRaceApplied
| EvRaceCancelled | EvRaceWorkspaceConflict

record event_payload =
  pl_fields :: "(string, json) btree_map"
  pl_raw_ref :: "string option"

record run_event =
  ev_schema_version :: u16
  ev_event_id :: string
  ev_sequence :: u64
  ev_occurred_at_ms :: u64
  ev_context :: event_context
  ev_kind :: event_kind
  ev_activity :: semantic_activity
  ev_payload :: event_payload
  ev_durability :: event_durability

definition event_schema_version :: u16 where "event_schema_version = 1"

definition run_event_new :: "string \<Rightarrow> u64 \<Rightarrow> event_kind \<Rightarrow> event_context \<Rightarrow> semantic_activity \<Rightarrow> run_event" where
  "run_event_new uuid now k context activity =
     \<lparr>ev_schema_version = event_schema_version, ev_event_id = uuid, ev_sequence = 0, ev_occurred_at_ms = now,
      ev_context = context, ev_kind = k, ev_activity = activity,
      ev_payload = \<lparr>pl_fields = [], pl_raw_ref = None\<rparr>, ev_durability = BestEffort\<rparr>"

definition event_required :: "run_event \<Rightarrow> run_event" where
  "event_required e = e\<lparr>ev_durability := DurabilityRequired\<rparr>"

definition event_with_field :: "string \<Rightarrow> json \<Rightarrow> run_event \<Rightarrow> run_event" where
  "event_with_field key v e = e\<lparr>ev_payload := (ev_payload e)\<lparr>pl_fields := bt_insert key v (pl_fields (ev_payload e))\<rparr>\<rparr>"

definition event_with_raw_ref :: "string \<Rightarrow> run_event \<Rightarrow> run_event" where
  "event_with_raw_ref r e = e\<lparr>ev_payload := (ev_payload e)\<lparr>pl_raw_ref := Some r\<rparr>\<rparr>"

record event_receipt =
  rc_event_id :: string
  rc_sequence :: u64

datatype event_log_error =
  UnsupportedSchema u16
| EventDatabase

section \<open>The table\<close>

record event_row =
  er_sequence :: u64
  er_event_id :: string
  er_occurred_at_ms :: u64
  er_event :: run_event

type_synonym event_table = "event_row list"

definition max_event_sequence :: "event_table \<Rightarrow> u64" where
  "max_event_sequence t = word_of_int (sql_max (map (\<lambda>r. sint (er_sequence r)) t))"

text \<open>The insertion fails on a duplicate primary key or event id.\<close>

definition insert_event_row :: "event_row \<Rightarrow> event_table \<Rightarrow> event_table option" where
  "insert_event_row r t =
     (if \<exists>q \<in> set t. er_sequence q = er_sequence r \<or> er_event_id q = er_event_id r then None else Some (t @ [r]))"

definition append_event_in_transaction :: "run_event \<Rightarrow> event_table
    \<Rightarrow> (event_log_error, event_receipt) result \<times> event_table" where
  "append_event_in_transaction e t =
     (case find (\<lambda>r. er_event_id r = ev_event_id e) t of
        Some r \<Rightarrow> (Inr \<lparr>rc_event_id = ev_event_id e, rc_sequence = er_sequence r\<rparr>, t)
      | None \<Rightarrow>
          (case sql_succ (sql_max (map (\<lambda>r. sint (er_sequence r)) t)) of
             None \<Rightarrow> (Inl EventDatabase, t)
           | Some i \<Rightarrow>
               let s = word_of_int i;
                   row = \<lparr>er_sequence = s, er_event_id = ev_event_id e, er_occurred_at_ms = ev_occurred_at_ms e,
                          er_event = e\<lparr>ev_sequence := s\<rparr>\<rparr>
               in (case insert_event_row row t of
                     None \<Rightarrow> (Inl EventDatabase, t)
                   | Some t' \<Rightarrow> (Inr \<lparr>rc_event_id = ev_event_id e, rc_sequence = s\<rparr>, t'))))"

definition append_event :: "run_event \<Rightarrow> event_table \<Rightarrow> (event_log_error, event_receipt) result \<times> event_table" where
  "append_event e t =
     (if ev_schema_version e \<noteq> event_schema_version then (Inl (UnsupportedSchema (ev_schema_version e)), t)
      else append_event_in_transaction e t)"

definition replay_events :: "u64 \<Rightarrow> event_table \<Rightarrow> run_event list" where
  "replay_events after t =
     map er_event (sort_key (\<lambda>r. sint (er_sequence r)) (filter (\<lambda>r. sint after < sint (er_sequence r)) t))"


section \<open>The log as a list\<close>

text \<open>The reference: events in order of arrival, the first of each id, numbered from one.\<close>

definition spec_append :: "run_event \<Rightarrow> run_event list \<Rightarrow> run_event list" where
  "spec_append e l =
     (if ev_schema_version e \<noteq> event_schema_version \<or> (\<exists>d \<in> set l. ev_event_id d = ev_event_id e) then l
      else l @ [e\<lparr>ev_sequence := of_nat (length l + 1)\<rparr>])"

definition numbered :: "event_table \<Rightarrow> bool" where
  "numbered t \<longleftrightarrow> length t < 2 ^ 63 \<and> map er_sequence t = map (\<lambda>i. of_nat (i + 1)) [0..<length t]
     \<and> (\<forall>r \<in> set t. ev_event_id (er_event r) = er_event_id r)"

lemma numbered_sints:
  assumes "numbered t"
  shows "map (\<lambda>r. sint (er_sequence r)) t = map (\<lambda>i. int (i + 1)) [0..<length t]"
proof -
  have "map (\<lambda>r. sint (er_sequence r)) t = map sint (map (\<lambda>i. of_nat (i + 1) :: u64) [0..<length t])"
    using assms by (simp add: numbered_def flip: map_map comp_def [of sint er_sequence])
  also have "\<dots> = map (\<lambda>i. int (i + 1)) [0..<length t]"
    using assms by (auto simp: numbered_def sint_small simp del: of_nat_Suc of_nat_add)
  finally show ?thesis .
qed

lemma sql_max_upt: "sql_max (map (\<lambda>i. int (i + 1)) [0..<n]) = int n"
proof (cases n)
  case (Suc m)
  have "fold max (map (\<lambda>i. int (i + 1)) [1..<k]) 1 = int k" if "0 < k" for k
    using that
  proof (induction k)
    case (Suc k)
    then show ?case by (cases "k = 0") simp_all
  qed simp
  then show ?thesis using Suc by (simp add: sql_max_def upt_conv_Cons del: upt_Suc)
qed (simp add: sql_max_def)

lemma numbered_max: "numbered t \<Longrightarrow> sql_max (map (\<lambda>r. sint (er_sequence r)) t) = int (length t)"
  by (simp only: numbered_sints sql_max_upt)

lemma numbered_Nil [simp]: "numbered []"
  by (simp add: numbered_def)

text \<open>What an append does to a numbered table.\<close>

lemma append_numbered:
  assumes n: "numbered t" and v: "ev_schema_version e = event_schema_version"
    and fresh: "\<forall>r \<in> set t. er_event_id r \<noteq> ev_event_id e" and room: "length t + 1 < 2 ^ 63"
  shows "append_event e t = (Inr \<lparr>rc_event_id = ev_event_id e, rc_sequence = of_nat (length t + 1)\<rparr>,
     t @ [\<lparr>er_sequence = of_nat (length t + 1), er_event_id = ev_event_id e,
           er_occurred_at_ms = ev_occurred_at_ms e, er_event = e\<lparr>ev_sequence := of_nat (length t + 1)\<rparr>\<rparr>])"
proof -
  have f: "find (\<lambda>r. er_event_id r = ev_event_id e) t = None" using fresh by (auto simp: find_None_iff)
  have s: "sql_succ (sql_max (map (\<lambda>r. sint (er_sequence r)) t)) = Some (int (length t + 1))"
    using room by (simp add: numbered_max [OF n] sql_succ_def)
  have "er_sequence r \<noteq> of_nat (length t + 1)" if "r \<in> set t" for r
  proof -
    have "sint (er_sequence r) \<in> set (map (\<lambda>r. sint (er_sequence r)) t)" using that by auto
    then have "sint (er_sequence r) \<in> set (map (\<lambda>i. int (i + 1)) [0..<length t])"
      by (simp only: numbered_sints [OF n])
    then have "sint (er_sequence r) \<le> int (length t)" by auto
    then show ?thesis using sint_small [of "length t + 1"] room by auto
  qed
  then show ?thesis
    using f s v fresh
    by (auto simp: append_event_def append_event_in_transaction_def insert_event_row_def Let_def
          simp del: of_nat_add of_nat_Suc)
qed


lemma append_known:
  assumes "ev_schema_version e = event_schema_version" "r \<in> set t" "er_event_id r = ev_event_id e"
  shows "\<exists>q \<in> set t. er_event_id q = ev_event_id e
     \<and> append_event e t = (Inr \<lparr>rc_event_id = ev_event_id e, rc_sequence = er_sequence q\<rparr>, t)"
proof -
  obtain q where q: "find (\<lambda>r. er_event_id r = ev_event_id e) t = Some q"
    using assms(2,3) by (metis (mono_tags, lifting) find_None_iff option.exhaust)
  then have "q \<in> set t" "er_event_id q = ev_event_id e" by (auto simp: find_Some_iff)
  then show ?thesis using q assms(1) by (auto simp: append_event_def append_event_in_transaction_def)
qed

lemma append_full:
  assumes "numbered t" "\<not> length t + 1 < 2 ^ 63" "\<forall>r \<in> set t. er_event_id r \<noteq> ev_event_id e"
    "ev_schema_version e = event_schema_version"
  shows "append_event e t = (Inl EventDatabase, t)"
proof -
  have "find (\<lambda>r. er_event_id r = ev_event_id e) t = None" using assms(3) by (auto simp: find_None_iff)
  moreover have "sql_succ (sql_max (map (\<lambda>r. sint (er_sequence r)) t)) = None"
    using assms(2) by (simp add: numbered_max [OF assms(1)] sql_succ_def)
  ultimately show ?thesis using assms(4) by (simp add: append_event_def append_event_in_transaction_def)
qed

text \<open>An append either leaves the table alone or adds the next number.\<close>

lemma append_event_cases:
  assumes "numbered t"
  obtains (kept) "snd (append_event e t) = t"
  | (added) "snd (append_event e t) = t @ [\<lparr>er_sequence = of_nat (length t + 1), er_event_id = ev_event_id e,
        er_occurred_at_ms = ev_occurred_at_ms e, er_event = e\<lparr>ev_sequence := of_nat (length t + 1)\<rparr>\<rparr>]"
      "length t + 1 < 2 ^ 63" "\<forall>r \<in> set t. er_event_id r \<noteq> ev_event_id e"
proof -
  consider "ev_schema_version e \<noteq> event_schema_version"
    | r where "ev_schema_version e = event_schema_version" "r \<in> set t" "er_event_id r = ev_event_id e"
    | "ev_schema_version e = event_schema_version" "\<forall>r \<in> set t. er_event_id r \<noteq> ev_event_id e"
      "length t + 1 < 2 ^ 63"
    | "ev_schema_version e = event_schema_version" "\<forall>r \<in> set t. er_event_id r \<noteq> ev_event_id e"
      "\<not> length t + 1 < 2 ^ 63"
    by blast
  then show thesis
  proof cases
    case 1
    then show thesis by (intro kept) (simp add: append_event_def)
  next
    case 2
    then show thesis using append_known kept by (metis snd_conv)
  next
    case 3
    then show thesis using append_numbered [OF assms] added by simp
  next
    case 4
    then show thesis using append_full [OF assms] kept by simp
  qed
qed

lemma append_keeps_numbered:
  assumes "numbered t"
  shows "numbered (snd (append_event e t))"
  using assms
proof (cases rule: append_event_cases [of t e])
  case added
  then show ?thesis using assms by (auto simp: numbered_def simp del: of_nat_add of_nat_Suc)
qed (simp add: assms)

interpretation event_log: ordered_steps "\<lambda>e t. snd (append_event e t)" numbered prefix
proof unfold_locales
  fix t e
  assume n: "numbered t"
  show "numbered (snd (append_event e t))" using n by (rule append_keeps_numbered)
  show "prefix t (snd (append_event e t))" using n by (cases rule: append_event_cases [of t e]) simp_all
qed (auto intro: prefix_order.trans)


lemma append_refines:
  assumes "numbered t" "length t + 1 < 2 ^ 63"
  shows "map er_event (snd (append_event e t)) = spec_append e (map er_event t)"
proof -
  have ids: "(\<exists>d \<in> set (map er_event t). ev_event_id d = ev_event_id e)
      \<longleftrightarrow> (\<exists>r \<in> set t. er_event_id r = ev_event_id e)"
    using assms(1) by (auto simp: numbered_def)
  consider "ev_schema_version e \<noteq> event_schema_version"
    | r where "ev_schema_version e = event_schema_version" "r \<in> set t" "er_event_id r = ev_event_id e"
    | "ev_schema_version e = event_schema_version" "\<forall>r \<in> set t. er_event_id r \<noteq> ev_event_id e"
    by blast
  then show ?thesis
  proof cases
    case 1
    then show ?thesis by (simp add: append_event_def spec_append_def)
  next
    case 2
    then have "snd (append_event e t) = t" using append_known by (metis snd_conv)
    then show ?thesis using 2 ids by (auto simp: spec_append_def)
  next
    case 3
    then show ?thesis
      using append_numbered [OF assms(1) 3(1) 3(2) assms(2)] ids
      by (auto simp: spec_append_def simp del: of_nat_add of_nat_Suc)
  qed
qed

lemma spec_append_length: "length (spec_append e l) \<le> Suc (length l)"
  by (simp add: spec_append_def)

lemma spec_log_length: "length (fold spec_append es l) \<le> length es + length l"
proof (induction es arbitrary: l)
  case (Cons e es)
  show ?case using Cons [of "spec_append e l"] spec_append_length [of e l] by simp
qed simp

lemma log_refines:
  assumes "numbered t" "length es + length t < 2 ^ 63"
  shows "map er_event (fold (\<lambda>e t. snd (append_event e t)) es t) = fold spec_append es (map er_event t)"
  using assms
proof (induction es arbitrary: t)
  case (Cons e es)
  let ?t = "snd (append_event e t)"
  have m: "map er_event ?t = spec_append e (map er_event t)" using append_refines Cons.prems by simp
  then have "length ?t \<le> Suc (length t)" by (metis length_map spec_append_length)
  then show ?case using Cons.IH [of ?t] append_keeps_numbered [OF Cons.prems(1)] Cons.prems(2) m by simp
qed simp

lemma numbered_nth:
  assumes "numbered t" "i < length t"
  shows "er_sequence (t ! i) = of_nat (i + 1)" "sint (er_sequence (t ! i)) = int (i + 1)"
proof -
  have "map er_sequence t = map (\<lambda>i. of_nat (i + 1)) [0..<length t]" using assms(1) by (simp add: numbered_def)
  then show s: "er_sequence (t ! i) = of_nat (i + 1)" using assms(2)
    by (metis (no_types, lifting) add_0 diff_zero length_upt nth_map nth_upt)
  show "sint (er_sequence (t ! i)) = int (i + 1)"
    unfolding s using assms by (intro sint_small) (auto simp: numbered_def)
qed

lemma replay_numbered:
  assumes n: "numbered t" and k: "unat k < 2 ^ 63"
  shows "replay_events k t = map er_event (drop (unat k) t)"
proof -
  let ?s = "\<lambda>r. sint (er_sequence r)"
  have low: "\<not> sint k < ?s r" if "r \<in> set (take (unat k) t)" for r
    using that k by (auto simp: in_set_conv_nth numbered_nth(2) [OF n] sint_unat_small simp del: of_nat_unat)
  have high: "sint k < ?s r" if "r \<in> set (drop (unat k) t)" for r
    using that k by (auto simp: in_set_conv_nth numbered_nth(2) [OF n] sint_unat_small simp del: of_nat_unat)
  have "filter (\<lambda>r. sint k < ?s r) (take (unat k) t @ drop (unat k) t) = drop (unat k) t"
    unfolding filter_append using low high by (simp add: filter_empty_conv filter_id_conv)
  moreover have "sorted (map ?s (drop (unat k) t))"
    by (simp add: sorted_iff_nth_mono numbered_nth(2) [OF n] flip: drop_map)
  ultimately show ?thesis by (simp add: replay_events_def sort_key_id_if_sorted)
qed


lemma append_receipt:
  assumes n: "numbered t" and room: "length t + 1 < 2 ^ 63" and v: "ev_schema_version e = event_schema_version"
  shows "\<exists>i < length (snd (append_event e t)). er_event_id (snd (append_event e t) ! i) = ev_event_id e
     \<and> fst (append_event e t) = Inr \<lparr>rc_event_id = ev_event_id e, rc_sequence = of_nat (i + 1)\<rparr>"
proof (cases "\<exists>r \<in> set t. er_event_id r = ev_event_id e")
  case True
  then obtain q where q: "q \<in> set t" "er_event_id q = ev_event_id e"
      "append_event e t = (Inr \<lparr>rc_event_id = ev_event_id e, rc_sequence = er_sequence q\<rparr>, t)"
    using append_known [OF v] by blast
  then obtain i where i: "i < length t" "t ! i = q" by (auto simp: in_set_conv_nth)
  then have "er_sequence q = of_nat (i + 1)" using numbered_nth(1) [OF n] by blast
  then show ?thesis using q i by auto
next
  case False
  then show ?thesis
    using append_numbered [OF n v _ room]
    by (intro exI [of _ "length t"]) (auto simp del: of_nat_add of_nat_Suc)
qed

text \<open>
  C36. The event table refines an append-only list that keeps the first event of each id: after any sequence
  of appends the replay after a sequence number is that list without its first entries, the largest
  number is its length, the earlier stream is a prefix of the later one, and a further append is
  acknowledged with the position its event has in the list.
\<close>

theorem event_log_refines_list:
  assumes "length es + length ds < 2 ^ 63 - 1" "unat k < 2 ^ 63" "ev_schema_version e = event_schema_version"
  defines "spec \<equiv> fold spec_append es []"
    and "table \<equiv> fold (\<lambda>e t. snd (append_event e t)) es []"
    and "later \<equiv> fold (\<lambda>e t. snd (append_event e t)) (es @ ds) []"
  shows "replay_events k table = drop (unat k) spec
    \<and> max_event_sequence table = of_nat (length spec)
    \<and> prefix (replay_events 0 table) (replay_events 0 later)
    \<and> (\<exists>n < length (spec_append e spec). ev_event_id (spec_append e spec ! n) = ev_event_id e
        \<and> fst (append_event e table) = Inr \<lparr>rc_event_id = ev_event_id e, rc_sequence = of_nat (n + 1)\<rparr>)"
proof -
  have num: "numbered table" "numbered later"
    unfolding table_def later_def by (rule event_log.run_inv, simp)+
  have tab: "map er_event table = spec"
    unfolding table_def spec_def using log_refines [of "[]" es] assms(1) by simp
  have len: "length table = length spec" using tab by (metis length_map)
  have "length spec \<le> length es" unfolding spec_def using spec_log_length [of es "[]"] by simp
  then have room: "length table + 1 < 2 ^ 63" using assms(1) len by simp
  have rep: "replay_events k table = drop (unat k) spec"
    using replay_numbered [OF num(1) assms(2)] tab by (simp flip: drop_map)
  have mx: "max_event_sequence table = of_nat (length spec)"
    by (simp add: max_event_sequence_def numbered_max [OF num(1)] len)
  have "prefix table later"
    unfolding later_def fold_append comp_def by (fold table_def) (rule event_log.run_adv [OF num(1)])
  then have pre: "prefix (replay_events 0 table) (replay_events 0 later)"
    using replay_numbered [OF num(1), of 0] replay_numbered [OF num(2), of 0] by (simp add: map_mono_prefix)
  have m: "map er_event (snd (append_event e table)) = spec_append e spec"
    using append_refines [OF num(1) room] tab by simp
  have ids: "\<forall>r \<in> set (snd (append_event e table)). ev_event_id (er_event r) = er_event_id r"
    using append_keeps_numbered [OF num(1)] by (simp add: numbered_def)
  obtain n where n: "n < length (snd (append_event e table))"
      "er_event_id (snd (append_event e table) ! n) = ev_event_id e"
      "fst (append_event e table) = Inr \<lparr>rc_event_id = ev_event_id e, rc_sequence = of_nat (n + 1)\<rparr>"
    using append_receipt [OF num(1) room assms(3)] by blast
  then have "n < length (spec_append e spec) \<and> ev_event_id (spec_append e spec ! n) = ev_event_id e"
    using ids n(1,2) by (simp flip: m)
  then show ?thesis using n(3) rep mx pre by blast
qed

text \<open>Witness of C36: the second publication of an event is answered with its first position.\<close>

definition sample_event :: "string \<Rightarrow> run_event" where
  "sample_event i = run_event_new i 5 EvRunStarted
     \<lparr>ec_workspace_id = None, ec_session_id = None, ec_run_id = Some ''r'', ec_attempt_id = None, ec_scope_id = None,
      ec_actor_id = None, ec_workflow_id = None, ec_parent_event_id = None, ec_correlation_id = None\<rparr>
     \<lparr>sa_verb = VerbStart, sa_object = ObjRun, sa_state = ActRunning, sa_group_key = ''run'', sa_title = ''Run'',
      sa_detail = None, sa_refs = [], sa_progress = None\<rparr>"

theorem event_log_refines_list_witness:
  "replay_events 1 (fold (\<lambda>e t. snd (append_event e t)) [sample_event ''a'', sample_event ''b'', sample_event ''a''] [])
     = [(sample_event ''b'')\<lparr>ev_sequence := 2\<rparr>]"
  using event_log_refines_list [of "[sample_event ''a'', sample_event ''b'', sample_event ''a'']" "[]" 1 "sample_event ''a''"]
  by (simp add: spec_append_def sample_event_def run_event_new_def event_schema_version_def)

end
