(* ===== verification/Control_Store.thy ===== *)
theory Control_Store
  imports Policy Sql_Table
begin

text \<open>
  The durable control plane, \<open>hi-control/src/lib.rs\<close>: runs, their leased attempts, the effects an attempt
  plans and settles, scopes, resources, artifacts and the audit trail, as tables of one SQLite
  database that several processes open. Every operation of the source is here with its branches; the
  identifiers it draws and the clock are arguments. The operations that are SQL transactions are one
  step, the others are composed of the statements they run, which are definitions of their own
  because another process can run between two of them. JSON columns keep the value they serialize.
\<close>

section \<open>Records\<close>

datatype run_kind = KindInteractive | KindWorkflow | KindLoop | KindDelegation | KindVerification | KindOther

datatype run_status =
  RunQueued | RunRunning | RunWaiting | RunSucceeded | RunFailed | RunCancelled | RunAbandoned

datatype desired_state = DesiredRun | DesiredPause | DesiredCancel

datatype attempt_status =
  AttemptRunning | AttemptWaiting | AttemptSucceeded | AttemptFailed | AttemptLost | AttemptCancelled

datatype effect_status =
  EffectPlanned | EffectStarted | EffectSucceeded | EffectFailed | EffectDenied | EffectUnknown | EffectReconciled

datatype resource_kind = ResMemory | ResSkill | ResArtifact | ResCredentialReference

datatype control_error =
  CtlDatabase
| RunNotFound string
| AttemptNotFound string
| EffectNotFound string
| RunIsTerminal string
| AttemptBusy string
| LeaseLost string
| CtlInvalid string

fun run_status_as_str :: "run_status \<Rightarrow> string" where
  "run_status_as_str RunQueued = ''queued''"
| "run_status_as_str RunRunning = ''running''"
| "run_status_as_str RunWaiting = ''waiting''"
| "run_status_as_str RunSucceeded = ''succeeded''"
| "run_status_as_str RunFailed = ''failed''"
| "run_status_as_str RunCancelled = ''cancelled''"
| "run_status_as_str RunAbandoned = ''abandoned''"

definition run_status_from_str :: "string \<Rightarrow> (control_error, run_status) result" where
  "run_status_from_str v =
     (if v = ''queued'' then Inr RunQueued else if v = ''running'' then Inr RunRunning
      else if v = ''waiting'' then Inr RunWaiting else if v = ''succeeded'' then Inr RunSucceeded
      else if v = ''failed'' then Inr RunFailed else if v = ''cancelled'' then Inr RunCancelled
      else if v = ''abandoned'' then Inr RunAbandoned else Inl (CtlInvalid (''unknown run status '' @ v)))"

fun effect_status_as_str :: "effect_status \<Rightarrow> string" where
  "effect_status_as_str EffectPlanned = ''planned''"
| "effect_status_as_str EffectStarted = ''started''"
| "effect_status_as_str EffectSucceeded = ''succeeded''"
| "effect_status_as_str EffectFailed = ''failed''"
| "effect_status_as_str EffectDenied = ''denied''"
| "effect_status_as_str EffectUnknown = ''unknown''"
| "effect_status_as_str EffectReconciled = ''reconciled''"

definition effect_status_of_str :: "string \<Rightarrow> (control_error, effect_status) result" where
  "effect_status_of_str v =
     (if v = ''planned'' then Inr EffectPlanned else if v = ''started'' then Inr EffectStarted
      else if v = ''succeeded'' then Inr EffectSucceeded else if v = ''failed'' then Inr EffectFailed
      else if v = ''denied'' then Inr EffectDenied else if v = ''unknown'' then Inr EffectUnknown
      else if v = ''reconciled'' then Inr EffectReconciled
      else Inl (CtlInvalid (''unknown effect status '' @ v)))"

lemma status_columns_roundtrip:
  "run_status_from_str (run_status_as_str s) = Inr s" "effect_status_of_str (effect_status_as_str e) = Inr e"
  by (cases s; simp add: run_status_from_str_def) (cases e; simp add: effect_status_of_str_def)

record route_snapshot =
  rt_harness :: "string option"
  rt_provider :: "string option"
  rt_model :: "string option"
  rt_capability_digest :: "string option"

record run_record =
  rn_run_id :: string
  rn_kind :: run_kind
  rn_workspace_id :: "string option"
  rn_scope :: "scope_ref option"
  rn_session_id :: "string option"
  rn_parent_run_id :: "string option"
  rn_status :: run_status
  rn_desired_state :: desired_state
  rn_policy_snapshot :: "policy_snapshot option"
  rn_route_snapshot :: "route_snapshot option"
  rn_provenance :: "provenance option"
  rn_created_at_ms :: u64
  rn_updated_at_ms :: u64

record new_run =
  nr_run_id :: "string option"
  nr_kind :: run_kind
  nr_workspace_id :: "string option"
  nr_scope :: "scope_ref option"
  nr_session_id :: "string option"
  nr_parent_run_id :: "string option"
  nr_policy_snapshot :: "policy_snapshot option"
  nr_route_snapshot :: "route_snapshot option"
  nr_provenance :: "provenance option"
  nr_desired_state :: desired_state

record attempt =
  att_attempt_id :: string
  att_run_id :: string
  att_number :: u32
  att_worker_id :: string
  att_status :: attempt_status
  att_lease_generation :: u64
  att_lease_expires_at_ms :: u64
  att_last_heartbeat_at_ms :: u64
  att_started_at_ms :: u64
  att_finished_at_ms :: "u64 option"
  att_error :: "string option"

record attempt_lease =
  al_attempt :: attempt
  al_fencing_token :: u64

record control_artifact =
  ct_hash :: string
  ct_media_type :: string
  ct_size_bytes :: "u64 option"
  ct_scope_id :: "string option"
  ct_sensitivity :: string
  ct_producer_run_id :: "string option"
  ct_producer_attempt_id :: "string option"

record scoped_resource =
  res_resource_id :: string
  res_kind :: resource_kind
  res_scope :: scope_ref
  res_owner_id :: string
  res_digest :: string
  res_sensitivity :: string
  res_provenance :: "provenance option"
  res_expires_at_ms :: "u64 option"

record effect_record =
  eff_effect_id :: string
  eff_run_id :: string
  eff_attempt_id :: string
  eff_fencing_token :: u64
  eff_capability :: capability_kind
  eff_tool :: string
  eff_operation_digest :: string
  eff_idempotency_key :: string
  eff_scope :: "scope_ref option"
  eff_provenance :: "provenance option"
  eff_status :: effect_status
  eff_input_ref :: "control_artifact option"
  eff_output_ref :: "control_artifact option"
  eff_mutation_ref :: "control_artifact option"
  eff_external_ref :: "string option"
  eff_error :: "string option"
  eff_created_at_ms :: u64
  eff_updated_at_ms :: u64

record new_effect =
  ne_effect_id :: "string option"
  ne_run_id :: string
  ne_attempt_id :: string
  ne_fencing_token :: u64
  ne_capability :: capability_kind
  ne_tool :: string
  ne_operation_digest :: string
  ne_idempotency_key :: string
  ne_scope :: "scope_ref option"
  ne_provenance :: "provenance option"
  ne_input_ref :: "control_artifact option"

record audit_record =
  aud_audit_id :: string
  aud_decision :: string
  aud_actor :: principal
  aud_source :: string
  aud_scope :: "scope_ref option"
  aud_provenance :: "provenance option"
  aud_policy_snapshot :: "policy_snapshot option"
  aud_operation_digest :: "string option"
  aud_approval_id :: "string option"
  aud_route :: "route_snapshot option"
  aud_effect_id :: "string option"
  aud_event_id :: "string option"
  aud_detail :: "string option"
  aud_created_at_ms :: u64

record effect_outcome =
  eo_status :: effect_status
  eo_output_ref :: "control_artifact option"
  eo_mutation_ref :: "control_artifact option"
  eo_external_ref :: "string option"
  eo_error :: "string option"

text \<open>The tables. An artifact row is the reference with its time of registration, a resource row keeps
  the id of its scope only.\<close>

record control_db =
  db_runs :: "run_record list"
  db_attempts :: "attempt list"
  db_effects :: "effect_record list"
  db_audit :: "audit_record list"
  db_scopes :: "scope_ref list"
  db_resources :: "(scoped_resource \<times> string) list"
  db_artifacts :: "(control_artifact \<times> u64) list"

definition empty_db :: control_db where
  "empty_db = \<lparr>db_runs = [], db_attempts = [], db_effects = [], db_audit = [], db_scopes = [], db_resources = [],
     db_artifacts = []\<rparr>"

section \<open>Helpers\<close>

definition ascii_alphanumeric :: "char \<Rightarrow> bool" where
  "ascii_alphanumeric c \<longleftrightarrow> of_char c \<in> {48..57::nat} \<or> of_char c \<in> {65..90::nat} \<or> of_char c \<in> {97..122::nat}"

definition validate_control_id :: "string \<Rightarrow> string \<Rightarrow> (control_error, unit) result" where
  "validate_control_id v label =
     ensure (v \<noteq> [] \<and> length v \<le> 128 \<and>
             list_all (\<lambda>c. ascii_alphanumeric c \<or> c = CHR ''-'' \<or> c = CHR ''_'' \<or> c = CHR ''.'') v)
       (CtlInvalid (''invalid '' @ label)) (Inr ())"

fun attempt_active :: "attempt_status \<Rightarrow> bool" where
  "attempt_active AttemptRunning = True"
| "attempt_active AttemptWaiting = True"
| "attempt_active _ = False"

fun run_terminal :: "run_status \<Rightarrow> bool" where
  "run_terminal RunSucceeded = True"
| "run_terminal RunFailed = True"
| "run_terminal RunCancelled = True"
| "run_terminal RunAbandoned = True"
| "run_terminal _ = False"

fun effect_open :: "effect_status \<Rightarrow> bool" where
  "effect_open EffectPlanned = True"
| "effect_open EffectStarted = True"
| "effect_open _ = False"

fun effect_settled :: "effect_status \<Rightarrow> bool" where
  "effect_settled EffectSucceeded = True"
| "effect_settled EffectFailed = True"
| "effect_settled EffectDenied = True"
| "effect_settled _ = False"

definition load_attempt_locked :: "control_db \<Rightarrow> string \<Rightarrow> attempt option" where
  "load_attempt_locked db i = find (\<lambda>a. att_attempt_id a = i) (db_attempts db)"

definition load_effect_locked :: "control_db \<Rightarrow> string \<Rightarrow> effect_record option" where
  "load_effect_locked db i = find (\<lambda>e. eff_effect_id e = i) (db_effects db)"

definition get_run :: "control_db \<Rightarrow> string \<Rightarrow> run_record option" where
  "get_run db i = find (\<lambda>r. rn_run_id r = i) (db_runs db)"

definition effect_matches_outcome :: "effect_record \<Rightarrow> effect_outcome \<Rightarrow> bool" where
  "effect_matches_outcome e out \<longleftrightarrow> eff_status e = eo_status out \<and> eff_output_ref e = eo_output_ref out
     \<and> eff_mutation_ref e = eo_mutation_ref out \<and> eff_external_ref e = eo_external_ref out
     \<and> eff_error e = eo_error out"

section \<open>Runs\<close>

definition insert_run :: "run_record \<Rightarrow> control_db \<Rightarrow> control_db option" where
  "insert_run r db = map_option (\<lambda>t. db\<lparr>db_runs := t\<rparr>) (sql_insert (\<lambda>q. rn_run_id q = rn_run_id r) r (db_runs db))"

definition create_run :: "string \<Rightarrow> u64 \<Rightarrow> new_run \<Rightarrow> control_db \<Rightarrow> (control_error, run_record) result \<times> control_db" where
  "create_run uuid now n db =
     (let i = case_option uuid id (nr_run_id n)
      in case validate_control_id i ''run_id'' of
           Inl e \<Rightarrow> (Inl e, db)
         | Inr _ \<Rightarrow>
             let r = \<lparr>rn_run_id = i, rn_kind = nr_kind n, rn_workspace_id = nr_workspace_id n, rn_scope = nr_scope n,
                      rn_session_id = nr_session_id n, rn_parent_run_id = nr_parent_run_id n, rn_status = RunQueued,
                      rn_desired_state = nr_desired_state n, rn_policy_snapshot = nr_policy_snapshot n,
                      rn_route_snapshot = nr_route_snapshot n, rn_provenance = nr_provenance n,
                      rn_created_at_ms = now, rn_updated_at_ms = now\<rparr>
             in (case insert_run r db of None \<Rightarrow> (Inl CtlDatabase, db) | Some db' \<Rightarrow> (Inr r, db')))"

definition requeue_cond :: "string \<Rightarrow> run_record \<Rightarrow> bool" where
  "requeue_cond i r \<longleftrightarrow> rn_run_id r = i \<and> run_terminal (rn_status r)"

definition requeue_stmt :: "string \<Rightarrow> u64 \<Rightarrow> control_db \<Rightarrow> control_db" where
  "requeue_stmt i now db = db\<lparr>db_runs := sql_update (requeue_cond i)
     (\<lambda>r. r\<lparr>rn_status := RunQueued, rn_desired_state := DesiredRun, rn_updated_at_ms := now\<rparr>) (db_runs db)\<rparr>"

definition requeue_run :: "string \<Rightarrow> u64 \<Rightarrow> control_db \<Rightarrow> (control_error, unit) result \<times> control_db" where
  "requeue_run i now db =
     (if sql_changed (requeue_cond i) (db_runs db) = 0
      then (case get_run db i of None \<Rightarrow> (Inl (RunNotFound i), db) | Some _ \<Rightarrow> (Inr (), db))
      else (Inr (), requeue_stmt i now db))"

text \<open>The last statement of \<open>complete_attempt\<close>.\<close>

definition set_run_status :: "string \<Rightarrow> run_status \<Rightarrow> u64 \<Rightarrow> control_db \<Rightarrow> control_db" where
  "set_run_status i s now db = db\<lparr>db_runs := sql_update (\<lambda>r. rn_run_id r = i)
     (\<lambda>r. r\<lparr>rn_status := s, rn_updated_at_ms := now\<rparr>) (db_runs db)\<rparr>"

section \<open>Attempts\<close>

definition attempts_of :: "control_db \<Rightarrow> string \<Rightarrow> attempt list" where
  "attempts_of db i = filter (\<lambda>a. att_run_id a = i) (db_attempts db)"

definition lease_expiry :: "u64 \<Rightarrow> u64 \<Rightarrow> u64" where
  "lease_expiry now ttl = saturating_add now (max ttl 1)"

definition insert_attempt :: "attempt \<Rightarrow> control_db \<Rightarrow> control_db option" where
  "insert_attempt a db =
     (if get_run db (att_run_id a) = None then None
      else map_option (\<lambda>t. db\<lparr>db_attempts := t\<rparr>)
        (sql_insert (\<lambda>q. att_attempt_id q = att_attempt_id a
            \<or> att_run_id q = att_run_id a \<and> att_number q = att_number a) a (db_attempts db)))"

definition claim_attempt :: "string \<Rightarrow> string \<Rightarrow> string \<Rightarrow> u64 \<Rightarrow> u64 \<Rightarrow> control_db
    \<Rightarrow> (control_error, attempt_lease) result \<times> control_db" where
  "claim_attempt uuid run worker now ttl db =
     (case validate_control_id worker ''worker_id'' of
        Inl e \<Rightarrow> (Inl e, db)
      | Inr _ \<Rightarrow>
        (case get_run db run of
           None \<Rightarrow> (Inl (RunNotFound run), db)
         | Some r \<Rightarrow>
           if run_terminal (rn_status r) then (Inl (RunIsTerminal run), db)
           else if \<exists>a \<in> set (attempts_of db run). attempt_active (att_status a) then (Inl (AttemptBusy run), db)
           else
             let number = word_of_int (sql_max (map (\<lambda>a. uint (att_number a)) (attempts_of db run)) + 1)
             in (case sql_succ (sql_max (map (\<lambda>a. sint (att_lease_generation a)) (attempts_of db run))) of
                   None \<Rightarrow> (Inl CtlDatabase, db)
                 | Some g \<Rightarrow>
                   let token = word_of_int g;
                       a = \<lparr>att_attempt_id = uuid, att_run_id = run, att_number = number, att_worker_id = worker,
                            att_status = AttemptRunning, att_lease_generation = token,
                            att_lease_expires_at_ms = lease_expiry now ttl, att_last_heartbeat_at_ms = now,
                            att_started_at_ms = now, att_finished_at_ms = None, att_error = None\<rparr>
                   in (case insert_attempt a db of
                         None \<Rightarrow> (Inl CtlDatabase, db)
                       | Some db' \<Rightarrow> (Inr \<lparr>al_attempt = a, al_fencing_token = token\<rparr>,
                                       set_run_status run RunRunning now db')))))"

text \<open>The condition shared by the statements that need a live lease; the database compares signed.\<close>

definition lease_live :: "string \<Rightarrow> u64 \<Rightarrow> u64 \<Rightarrow> attempt \<Rightarrow> bool" where
  "lease_live i token now a \<longleftrightarrow> att_attempt_id a = i \<and> att_lease_generation a = token
     \<and> attempt_active (att_status a) \<and> sint now \<le> sint (att_lease_expires_at_ms a)"

definition renew_stmt :: "string \<Rightarrow> u64 \<Rightarrow> u64 \<Rightarrow> u64 \<Rightarrow> control_db \<Rightarrow> control_db" where
  "renew_stmt i token now ttl db = db\<lparr>db_attempts := sql_update (lease_live i token now)
     (\<lambda>a. a\<lparr>att_lease_expires_at_ms := lease_expiry now ttl, att_last_heartbeat_at_ms := now\<rparr>) (db_attempts db)\<rparr>"

definition renew_attempt :: "string \<Rightarrow> u64 \<Rightarrow> u64 \<Rightarrow> u64 \<Rightarrow> control_db
    \<Rightarrow> (control_error, attempt_lease) result \<times> control_db" where
  "renew_attempt i token now ttl db =
     (if sql_changed (lease_live i token now) (db_attempts db) \<noteq> 1 then (Inl (LeaseLost i), renew_stmt i token now ttl db)
      else let db' = renew_stmt i token now ttl db
           in (case load_attempt_locked db' i of
                 None \<Rightarrow> (Inl (AttemptNotFound i), db')
               | Some a \<Rightarrow> (Inr \<lparr>al_attempt = a, al_fencing_token = token\<rparr>, db')))"

definition finish_stmt :: "string \<Rightarrow> u64 \<Rightarrow> attempt_status \<Rightarrow> u64 \<Rightarrow> string option \<Rightarrow> control_db \<Rightarrow> control_db" where
  "finish_stmt i token s now err db = db\<lparr>db_attempts := sql_update (lease_live i token now)
     (\<lambda>a. a\<lparr>att_status := s, att_finished_at_ms := Some now, att_lease_expires_at_ms := 0, att_error := err\<rparr>)
     (db_attempts db)\<rparr>"

text \<open>The two active statuses are refused before this point; the source marks them unreachable.\<close>

fun run_status_after :: "attempt_status \<Rightarrow> run_status" where
  "run_status_after AttemptSucceeded = RunSucceeded"
| "run_status_after AttemptCancelled = RunCancelled"
| "run_status_after AttemptFailed = RunFailed"
| "run_status_after AttemptLost = RunQueued"
| "run_status_after AttemptRunning = RunRunning"
| "run_status_after AttemptWaiting = RunWaiting"

definition complete_attempt :: "string \<Rightarrow> u64 \<Rightarrow> attempt_status \<Rightarrow> u64 \<Rightarrow> string option \<Rightarrow> control_db
    \<Rightarrow> (control_error, attempt) result \<times> control_db" where
  "complete_attempt i token s now err db =
     (if attempt_active s then (Inl (CtlInvalid ''completion status must be terminal''), db)
      else
        let db' = finish_stmt i token s now err db
        in if sql_changed (lease_live i token now) (db_attempts db) \<noteq> 1 then (Inl (LeaseLost i), db')
           else (case load_attempt_locked db' i of
                   None \<Rightarrow> (Inl (AttemptNotFound i), db')
                 | Some a \<Rightarrow> (Inr a, set_run_status (att_run_id a) (run_status_after s) now db')))"

text \<open>The statements that the recovery transaction runs for one expired attempt.\<close>

definition lose_attempt :: "u64 \<Rightarrow> string \<times> string \<Rightarrow> control_db \<Rightarrow> control_db" where
  "lose_attempt now ar db =
     db\<lparr>db_attempts := sql_update (\<lambda>a. att_attempt_id a = fst ar \<and> attempt_active (att_status a))
          (\<lambda>a. a\<lparr>att_status := AttemptLost, att_finished_at_ms := Some now, att_lease_expires_at_ms := 0,
                 att_error := Some ''lease expired''\<rparr>) (db_attempts db),
        db_effects := sql_update (\<lambda>e. eff_attempt_id e = fst ar \<and> effect_open (eff_status e))
          (\<lambda>e. e\<lparr>eff_status := EffectUnknown, eff_updated_at_ms := now,
                 eff_error := Some (case_option ''attempt lease expired while effect was active'' id (eff_error e))\<rparr>)
          (db_effects db),
        db_runs := sql_update (\<lambda>r. rn_run_id r = snd ar \<and> rn_status r = RunRunning)
          (\<lambda>r. r\<lparr>rn_status := RunQueued, rn_updated_at_ms := now\<rparr>) (db_runs db)\<rparr>"

definition lease_expired :: "u64 \<Rightarrow> attempt \<Rightarrow> bool" where
  "lease_expired now a \<longleftrightarrow> attempt_active (att_status a) \<and> sint (att_lease_expires_at_ms a) < sint now"

definition expired_attempts :: "u64 \<Rightarrow> control_db \<Rightarrow> (string \<times> string) list" where
  "expired_attempts now db =
     map (\<lambda>a. (att_attempt_id a, att_run_id a)) (filter (lease_expired now) (db_attempts db))"

definition recover_expired_attempts :: "u64 \<Rightarrow> control_db \<Rightarrow> string list \<times> control_db" where
  "recover_expired_attempts now db =
     (map fst (expired_attempts now db), fold (lose_attempt now) (expired_attempts now db) db)"

section \<open>Effects\<close>

definition insert_effect :: "effect_record \<Rightarrow> control_db \<Rightarrow> control_db option" where
  "insert_effect e db =
     (if get_run db (eff_run_id e) = None \<or> load_attempt_locked db (eff_attempt_id e) = None then None
      else map_option (\<lambda>t. db\<lparr>db_effects := t\<rparr>)
        (sql_insert (\<lambda>q. eff_effect_id q = eff_effect_id e \<or> eff_idempotency_key q = eff_idempotency_key e)
           e (db_effects db)))"

text \<open>The same lease read in Rust, which compares unsigned.\<close>

definition holds_lease :: "u64 \<Rightarrow> u64 \<Rightarrow> attempt \<Rightarrow> bool" where
  "holds_lease token now a \<longleftrightarrow> att_lease_generation a = token \<and> attempt_active (att_status a)
     \<and> now \<le> att_lease_expires_at_ms a"

definition planned_effect :: "string \<Rightarrow> new_effect \<Rightarrow> u64 \<Rightarrow> effect_record" where
  "planned_effect uuid n now =
     \<lparr>eff_effect_id = case_option uuid id (ne_effect_id n), eff_run_id = ne_run_id n, eff_attempt_id = ne_attempt_id n,
      eff_fencing_token = ne_fencing_token n, eff_capability = ne_capability n, eff_tool = ne_tool n,
      eff_operation_digest = ne_operation_digest n, eff_idempotency_key = ne_idempotency_key n,
      eff_scope = ne_scope n, eff_provenance = ne_provenance n, eff_status = EffectPlanned,
      eff_input_ref = ne_input_ref n, eff_output_ref = None, eff_mutation_ref = None, eff_external_ref = None,
      eff_error = None, eff_created_at_ms = now, eff_updated_at_ms = now\<rparr>"

definition record_effect :: "string \<Rightarrow> new_effect \<Rightarrow> u64 \<Rightarrow> control_db
    \<Rightarrow> (control_error, effect_record) result \<times> control_db" where
  "record_effect uuid n now db =
     (case validate_control_id (ne_idempotency_key n) ''idempotency_key'' of
        Inl e \<Rightarrow> (Inl e, db)
      | Inr _ \<Rightarrow>
        (case load_attempt_locked db (ne_attempt_id n) of
           None \<Rightarrow> (Inl (AttemptNotFound (ne_attempt_id n)), db)
         | Some a \<Rightarrow>
           if att_run_id a \<noteq> ne_run_id n \<or> \<not> holds_lease (ne_fencing_token n) now a
           then (Inl (LeaseLost (ne_attempt_id n)), db)
           else
             let e = planned_effect uuid n now
             in (case find (\<lambda>q. eff_idempotency_key q = eff_idempotency_key e) (db_effects db) of
                   Some q \<Rightarrow>
                     (case load_effect_locked db (eff_effect_id q) of
                        None \<Rightarrow> (Inl (EffectNotFound (eff_effect_id q)), db)
                      | Some old \<Rightarrow>
                          if eff_run_id old \<noteq> eff_run_id e \<or> eff_attempt_id old \<noteq> eff_attempt_id e
                             \<or> eff_operation_digest old \<noteq> eff_operation_digest e
                          then (Inl (CtlInvalid ''idempotency key was reused for a different effect''), db)
                          else (Inr old, db))
                 | None \<Rightarrow> (case insert_effect e db of None \<Rightarrow> (Inl CtlDatabase, db) | Some db' \<Rightarrow> (Inr e, db')))))"

definition start_cond :: "string \<Rightarrow> u64 \<Rightarrow> effect_record \<Rightarrow> bool" where
  "start_cond i token e \<longleftrightarrow> eff_effect_id e = i \<and> eff_fencing_token e = token \<and> eff_status e = EffectPlanned"

definition start_stmt :: "string \<Rightarrow> u64 \<Rightarrow> u64 \<Rightarrow> control_db \<Rightarrow> control_db" where
  "start_stmt i token now db = db\<lparr>db_effects := sql_update (start_cond i token)
     (\<lambda>e. e\<lparr>eff_status := EffectStarted, eff_updated_at_ms := now\<rparr>) (db_effects db)\<rparr>"

text \<open>Both branches after the update load the effect again.\<close>

definition start_effect :: "string \<Rightarrow> u64 \<Rightarrow> u64 \<Rightarrow> control_db \<Rightarrow> (control_error, effect_record) result \<times> control_db" where
  "start_effect i token now db =
     (case load_effect_locked db i of
        None \<Rightarrow> (Inl (EffectNotFound i), db)
      | Some e \<Rightarrow>
        (case load_attempt_locked db (eff_attempt_id e) of
           None \<Rightarrow> (Inl (AttemptNotFound (eff_attempt_id e)), db)
         | Some a \<Rightarrow>
           if \<not> holds_lease token now a then (Inl (LeaseLost (eff_attempt_id e)), db)
           else let db' = start_stmt i token now db
                in (case load_effect_locked db' i of None \<Rightarrow> (Inl (EffectNotFound i), db') | Some e' \<Rightarrow> (Inr e', db'))))"

definition with_outcome :: "effect_status \<Rightarrow> effect_outcome \<Rightarrow> u64 \<Rightarrow> effect_record \<Rightarrow> effect_record" where
  "with_outcome s out now e = e\<lparr>eff_status := s, eff_output_ref := eo_output_ref out,
     eff_mutation_ref := eo_mutation_ref out, eff_external_ref := eo_external_ref out, eff_error := eo_error out,
     eff_updated_at_ms := now\<rparr>"

definition complete_cond :: "string \<Rightarrow> u64 \<Rightarrow> effect_record \<Rightarrow> bool" where
  "complete_cond i token e \<longleftrightarrow> eff_effect_id e = i \<and> eff_fencing_token e = token \<and> effect_open (eff_status e)"

definition complete_effect :: "string \<Rightarrow> u64 \<Rightarrow> effect_outcome \<Rightarrow> u64 \<Rightarrow> control_db
    \<Rightarrow> (control_error, effect_record) result \<times> control_db" where
  "complete_effect i token out now db =
     (if \<not> effect_settled (eo_status out)
      then (Inl (CtlInvalid ''effect completion status must be succeeded, failed, or denied''), db)
      else
       (case load_effect_locked db i of
          None \<Rightarrow> (Inl (EffectNotFound i), db)
        | Some e \<Rightarrow>
          if eff_fencing_token e \<noteq> token then (Inl (LeaseLost (eff_attempt_id e)), db)
          else if effect_settled (eff_status e) then
            (if effect_matches_outcome e out then (Inr e, db)
             else (Inl (CtlInvalid (''effect '' @ i @ '' already has a conflicting terminal outcome'')), db))
          else
           (case load_attempt_locked db (eff_attempt_id e) of
              None \<Rightarrow> (Inl (AttemptNotFound (eff_attempt_id e)), db)
            | Some a \<Rightarrow>
              if \<not> holds_lease token now a then (Inl (LeaseLost (eff_attempt_id e)), db)
              else if \<not> effect_open (eff_status e) then
                (Inl (CtlInvalid (''effect '' @ i @ '' cannot be completed from status '' @
                   effect_status_as_str (eff_status e))), db)
              else if sql_changed (complete_cond i token) (db_effects db) \<noteq> 1 then
                (if effect_matches_outcome e out then (Inr e, db)
                 else (Inl (CtlInvalid (''effect '' @ i @ '' changed while completing it'')), db))
              else
                let db' = db\<lparr>db_effects := sql_update (complete_cond i token)
                            (with_outcome (eo_status out) out now) (db_effects db)\<rparr>
                in (case load_effect_locked db' i of
                      None \<Rightarrow> (Inl (EffectNotFound i), db)
                    | Some e' \<Rightarrow> (Inr e', db')))))"

definition reconcile_cond :: "string \<Rightarrow> effect_record \<Rightarrow> bool" where
  "reconcile_cond i e \<longleftrightarrow> eff_effect_id e = i \<and> eff_status e = EffectUnknown"

definition reconcile_stmt :: "string \<Rightarrow> effect_outcome \<Rightarrow> u64 \<Rightarrow> control_db \<Rightarrow> control_db" where
  "reconcile_stmt i out now db = db\<lparr>db_effects := sql_update (reconcile_cond i)
     (with_outcome EffectReconciled out now) (db_effects db)\<rparr>"

definition reconcile_effect :: "string \<Rightarrow> effect_outcome \<Rightarrow> u64 \<Rightarrow> control_db
    \<Rightarrow> (control_error, effect_record) result \<times> control_db" where
  "reconcile_effect i out now db =
     (if eo_status out \<notin> {EffectSucceeded, EffectFailed, EffectReconciled}
      then (Inl (CtlInvalid ''reconciliation must resolve an effect''), db)
      else
        let db' = reconcile_stmt i out now db
        in if sql_changed (reconcile_cond i) (db_effects db) \<noteq> 1 then (Inl (EffectNotFound i), db')
           else (case load_effect_locked db' i of None \<Rightarrow> (Inl (EffectNotFound i), db') | Some e \<Rightarrow> (Inr e, db')))"

section \<open>Audit, scopes, resources and artifacts\<close>

definition record_audit :: "audit_record \<Rightarrow> control_db \<Rightarrow> (control_error, unit) result \<times> control_db" where
  "record_audit a db =
     (case sql_insert (\<lambda>q. aud_audit_id q = aud_audit_id a) a (db_audit db) of
        None \<Rightarrow> (Inl CtlDatabase, db)
      | Some t \<Rightarrow> (Inr (), db\<lparr>db_audit := t\<rparr>))"

definition find_scope :: "scope_ref list \<Rightarrow> string \<Rightarrow> scope_ref option" where
  "find_scope t i = find (\<lambda>s. sr_scope_id s = i) t"

definition insert_scope :: "scope_ref \<Rightarrow> control_db \<Rightarrow> control_db option" where
  "insert_scope s db =
     map_option (\<lambda>t. db\<lparr>db_scopes := t\<rparr>) (sql_insert (\<lambda>q. sr_scope_id q = sr_scope_id s) s (db_scopes db))"

definition missing_parent :: "scope_ref \<Rightarrow> control_db \<Rightarrow> string option" where
  "missing_parent s db = Option.bind (sr_parent_scope_id s)
     (\<lambda>p. if find_scope (db_scopes db) p = None then Some p else None)"

definition register_scope :: "scope_ref \<Rightarrow> control_db \<Rightarrow> (control_error, unit) result \<times> control_db" where
  "register_scope s db =
     (case validate_control_id (sr_scope_id s) ''scope_id'' of
        Inl e \<Rightarrow> (Inl e, db)
      | Inr _ \<Rightarrow>
        (case missing_parent s db of
           Some p \<Rightarrow> (Inl (CtlInvalid (''scope parent does not exist: '' @ p)), db)
         | None \<Rightarrow> (case insert_scope s db of None \<Rightarrow> (Inl CtlDatabase, db) | Some db' \<Rightarrow> (Inr (), db'))))"

definition register_resource :: "scoped_resource \<Rightarrow> control_db \<Rightarrow> (control_error, unit) result \<times> control_db" where
  "register_resource r db =
     (case validate_control_id (res_resource_id r) ''resource_id'' of
        Inl e \<Rightarrow> (Inl e, db)
      | Inr _ \<Rightarrow>
        (case sql_insert (\<lambda>q. res_resource_id (fst q) = res_resource_id r) (r, sr_scope_id (res_scope r))
                (db_resources db) of
           None \<Rightarrow> (Inl CtlDatabase, db) | Some t \<Rightarrow> (Inr (), db\<lparr>db_resources := t\<rparr>)))"

text \<open>\<open>INSERT OR IGNORE\<close>: the first registration of a hash stays.\<close>

definition register_artifact :: "control_artifact \<Rightarrow> u64 \<Rightarrow> control_db \<Rightarrow> (control_error, unit) result \<times> control_db" where
  "register_artifact a now db =
     (case sql_insert (\<lambda>q. ct_hash (fst q) = ct_hash a) (a, now) (db_artifacts db) of
        None \<Rightarrow> (Inr (), db) | Some t \<Rightarrow> (Inr (), db\<lparr>db_artifacts := t\<rparr>))"

definition scope_parent :: "scope_ref list \<Rightarrow> string \<Rightarrow> string option" where
  "scope_parent t i = Option.bind (find_scope t i) sr_parent_scope_id"

text \<open>The loop over parents; \<open>None\<close> when it does not end.\<close>

partial_function (option) scope_climb :: "scope_ref list \<Rightarrow> string \<Rightarrow> string \<Rightarrow> bool option" where
  "scope_climb t target cursor =
     (case scope_parent t cursor of
        None \<Rightarrow> Some False
      | Some p \<Rightarrow> if p = target then Some True else scope_climb t target p)"

definition scope_allows :: "string \<Rightarrow> string \<Rightarrow> string \<Rightarrow> u64 \<Rightarrow> control_db \<Rightarrow> bool option" where
  "scope_allows resource consumer owner now db =
     (case find_scope (db_scopes db) resource of
        None \<Rightarrow> Some False
      | Some s \<Rightarrow>
        if sr_owner_id s \<noteq> owner \<or> (case sr_expires_at_ms s of None \<Rightarrow> False | Some v \<Rightarrow> v \<le> now) then Some False
        else if resource = consumer then Some True
        else if \<not> sr_inherited s then Some False
        else scope_climb (db_scopes db) resource consumer)"

end
