(* ===== verification/Control_Correct.thy ===== *)
theory Control_Correct
  imports Control_Store Step_System
begin

text \<open>
  Correctness of the control plane. The steps are the statements and transactions of the operations,
  so what holds in every reachable database holds between any two statements, whichever process runs
  them and wherever one dies. The theory shows that a run has one live lease at most, that a lost
  lease stays without effect, that recovery makes a run claimable again, that the tables stay well
  formed, and that the walk up the scopes ends with the right answer.
\<close>

section \<open>Steps\<close>

text \<open>
  An effect is inserted after its attempt was read; the identity and the generation it was read with
  never change. A scope is inserted after its parent was read, and scopes are never removed.
\<close>

inductive control_step :: "control_db \<Rightarrow> control_db \<Rightarrow> bool" where
  step_insert_run: "insert_run r db = Some db' \<Longrightarrow> rn_status r = RunQueued \<Longrightarrow> control_step db db'"
| step_requeue: "control_step db (requeue_stmt i now db)"
| step_claim: "control_step db (snd (claim_attempt uuid run worker now ttl db))"
| step_renew: "control_step db (renew_stmt i token now ttl db)"
| step_finish: "\<not> attempt_active s \<Longrightarrow> control_step db (finish_stmt i token s now err db)"
| step_set_run_status: "control_step db (set_run_status i rs now db)"
| step_recover: "control_step db (snd (recover_expired_attempts now db))"
| step_insert_effect: "insert_effect e db = Some db' \<Longrightarrow> a \<in> set (db_attempts db) \<Longrightarrow> att_attempt_id a = eff_attempt_id e
    \<Longrightarrow> att_run_id a = eff_run_id e \<Longrightarrow> att_lease_generation a = eff_fencing_token e
    \<Longrightarrow> eff_status e = EffectPlanned \<Longrightarrow> control_step db db'"
| step_start_effect: "control_step db (start_stmt i token now db)"
| step_complete_effect: "control_step db (snd (complete_effect i token out now db))"
| step_reconcile: "control_step db (reconcile_stmt i out now db)"
| step_audit: "control_step db (snd (record_audit au db))"
| step_insert_scope: "insert_scope sc db = Some db' \<Longrightarrow> missing_parent sc db = None \<Longrightarrow> control_step db db'"
| step_resource: "control_step db (snd (register_resource rs db))"
| step_artifact: "control_step db (snd (register_artifact ar now db))"

section \<open>Well-formed tables\<close>

definition attempts_ok :: "attempt list \<Rightarrow> bool" where
  "attempts_ok t \<longleftrightarrow> distinct (map att_attempt_id t) \<and> (\<forall>a \<in> set t. 0 < sint (att_lease_generation a))
     \<and> (\<forall>a \<in> set t. \<forall>b \<in> set t. att_run_id a = att_run_id b \<and> att_lease_generation a = att_lease_generation b \<longrightarrow> a = b)
     \<and> (\<forall>a \<in> set t. \<forall>b \<in> set t. att_run_id a = att_run_id b \<and> attempt_active (att_status a)
          \<longrightarrow> sint (att_lease_generation b) \<le> sint (att_lease_generation a))
     \<and> (\<forall>a \<in> set t. \<not> attempt_active (att_status a) \<longrightarrow> att_lease_expires_at_ms a = 0 \<and> att_finished_at_ms a \<noteq> None)"

text \<open>Generations count the attempts of a run, and the attempt number agrees as long as it fits.\<close>

definition numbers_ok :: "attempt list \<Rightarrow> bool" where
  "numbers_ok t \<longleftrightarrow> (\<forall>a \<in> set t. sint (att_lease_generation a) \<le> int (length (filter (\<lambda>b. att_run_id b = att_run_id a) t))
     \<and> (sint (att_lease_generation a) < 2 ^ 32 \<longrightarrow> uint (att_number a) = sint (att_lease_generation a)))"

definition effects_ok :: "attempt list \<Rightarrow> effect_record list \<Rightarrow> bool" where
  "effects_ok as es \<longleftrightarrow> distinct (map eff_effect_id es) \<and> distinct (map eff_idempotency_key es)
     \<and> (\<forall>e \<in> set es. \<exists>a \<in> set as. att_attempt_id a = eff_attempt_id e \<and> att_run_id a = eff_run_id e
          \<and> att_lease_generation a = eff_fencing_token e
          \<and> (eff_status e \<in> {EffectUnknown, EffectReconciled} \<longrightarrow> \<not> attempt_active (att_status a)))"

definition scopes_ok :: "scope_ref list \<Rightarrow> bool" where
  "scopes_ok t \<longleftrightarrow> distinct (map sr_scope_id t)
     \<and> (\<forall>k < length t. \<forall>p. sr_parent_scope_id (t ! k) = Some p \<longrightarrow> (\<exists>j < k. sr_scope_id (t ! j) = p))"

definition control_wf :: "control_db \<Rightarrow> bool" where
  "control_wf db \<longleftrightarrow> distinct (map rn_run_id (db_runs db))
     \<and> (\<forall>a \<in> set (db_attempts db). \<exists>r \<in> set (db_runs db). rn_run_id r = att_run_id a)
     \<and> attempts_ok (db_attempts db) \<and> numbers_ok (db_attempts db) \<and> effects_ok (db_attempts db) (db_effects db) \<and> scopes_ok (db_scopes db)
     \<and> distinct (map aud_audit_id (db_audit db)) \<and> distinct (map (res_resource_id \<circ> fst) (db_resources db))
     \<and> distinct (map (ct_hash \<circ> fst) (db_artifacts db))"

lemma control_wf_empty: "control_wf empty_db"
  by (simp add: control_wf_def empty_db_def attempts_ok_def numbers_ok_def effects_ok_def scopes_ok_def)

text \<open>Updates of attempts keep what identifies them and never revive one.\<close>

definition attempt_evolves :: "attempt \<Rightarrow> attempt \<Rightarrow> bool" where
  "attempt_evolves a b \<longleftrightarrow> att_attempt_id b = att_attempt_id a \<and> att_run_id b = att_run_id a
     \<and> att_number b = att_number a \<and> att_worker_id b = att_worker_id a
     \<and> att_lease_generation b = att_lease_generation a \<and> (\<not> attempt_active (att_status a) \<longrightarrow> b = a)
     \<and> (attempt_active (att_status a) \<and> \<not> attempt_active (att_status b)
          \<longrightarrow> att_lease_expires_at_ms b = 0 \<and> att_finished_at_ms b \<noteq> None)"

lemma attempt_evolvesD:
  assumes "attempt_evolves a b"
  shows "att_attempt_id b = att_attempt_id a" "att_run_id b = att_run_id a"
    "att_lease_generation b = att_lease_generation a"
    "attempt_active (att_status b) \<Longrightarrow> attempt_active (att_status a)"
  using assms by (auto simp: attempt_evolves_def)

lemma attempt_evolves_refl [simp]: "attempt_evolves a a"
  by (simp add: attempt_evolves_def)

lemma attempts_ok_map:
  assumes ok: "attempts_ok t" and g: "\<And>a. a \<in> set t \<Longrightarrow> attempt_evolves a (g a)"
  shows "attempts_ok (map g t)"
proof -
  have "map att_attempt_id (map g t) = map att_attempt_id t" using g by (auto simp: attempt_evolves_def)
  then have d: "distinct (map att_attempt_id (map g t))" using ok by (simp only: attempts_ok_def)
  have same: "g a = g b" if "a \<in> set t" "b \<in> set t" "att_run_id (g a) = att_run_id (g b)"
      "att_lease_generation (g a) = att_lease_generation (g b)" for a b
    using that ok attempt_evolvesD(2,3) [OF g] unfolding attempts_ok_def by metis
  have newest: "sint (att_lease_generation (g b)) \<le> sint (att_lease_generation (g a))"
    if "a \<in> set t" "b \<in> set t" "att_run_id (g a) = att_run_id (g b)" "attempt_active (att_status (g a))" for a b
    using that ok attempt_evolvesD(2,3,4) [OF g] unfolding attempts_ok_def by metis
  have pos: "0 < sint (att_lease_generation (g a))" if "a \<in> set t" for a
    using that ok attempt_evolvesD(3) [OF g] unfolding attempts_ok_def by metis
  have fini: "att_lease_expires_at_ms (g a) = 0 \<and> att_finished_at_ms (g a) \<noteq> None"
    if "a \<in> set t" "\<not> attempt_active (att_status (g a))" for a
    using that ok g [of a] unfolding attempts_ok_def attempt_evolves_def by metis
  show ?thesis
    unfolding attempts_ok_def using d same newest pos fini by (simp only: set_map ball_simps(9)) blast
qed

lemma numbers_ok_map:
  assumes "numbers_ok t" "\<And>a. a \<in> set t \<Longrightarrow> attempt_evolves a (g a)"
  shows "numbers_ok (map g t)"
proof -
  have "filter (\<lambda>b. att_run_id b = r) (map g t) = map g (filter (\<lambda>b. att_run_id b = r) t)" for r
    using attempt_evolvesD(2) [OF assms(2)] by (auto simp: filter_map comp_def intro!: arg_cong [of _ _ "map g"] filter_cong)
  moreover have "att_number (g a) = att_number a" if "a \<in> set t" for a
    using assms(2) [OF that] by (simp add: attempt_evolves_def)
  ultimately show ?thesis using assms(1) attempt_evolvesD(2,3) [OF assms(2)] by (simp add: numbers_ok_def)
qed

text \<open>An effect keeps its identity; a settled or reconciled one keeps everything.\<close>

definition effect_evolves :: "attempt list \<Rightarrow> effect_record \<Rightarrow> effect_record \<Rightarrow> bool" where
  "effect_evolves as e f \<longleftrightarrow> eff_effect_id f = eff_effect_id e \<and> eff_attempt_id f = eff_attempt_id e
     \<and> eff_run_id f = eff_run_id e \<and> eff_fencing_token f = eff_fencing_token e
     \<and> eff_idempotency_key f = eff_idempotency_key e \<and> eff_operation_digest f = eff_operation_digest e
     \<and> (effect_settled (eff_status e) \<or> eff_status e = EffectReconciled \<longrightarrow> f = e)
     \<and> (eff_status e = EffectUnknown \<longrightarrow> f = e \<or> eff_status f = EffectReconciled)
     \<and> (effect_open (eff_status e) \<and> (\<exists>a \<in> set as. att_attempt_id a = eff_attempt_id e \<and> \<not> attempt_active (att_status a))
          \<longrightarrow> effect_open (eff_status f))"

lemma effect_evolves_refl [simp]: "effect_evolves as e e"
  by (auto simp: effect_evolves_def)

lemma effects_ok_map:
  assumes ok: "effects_ok as es"
    and ids: "\<And>e. e \<in> set es \<Longrightarrow> effect_evolves as e (h e)"
    and g: "\<And>a. a \<in> set as \<Longrightarrow> attempt_evolves a (g a)"
    and lost: "\<And>e a. e \<in> set es \<Longrightarrow> a \<in> set as \<Longrightarrow> att_attempt_id a = eff_attempt_id e \<Longrightarrow> effect_open (eff_status e)
      \<Longrightarrow> eff_status (h e) \<in> {EffectUnknown, EffectReconciled} \<Longrightarrow> \<not> attempt_active (att_status (g a))"
  shows "effects_ok (map g as) (map h es)"
proof -
  have "map eff_effect_id (map h es) = map eff_effect_id es"
      "map eff_idempotency_key (map h es) = map eff_idempotency_key es"
    using ids by (auto simp: effect_evolves_def)
  then have d: "distinct (map eff_effect_id (map h es))" "distinct (map eff_idempotency_key (map h es))"
    using ok by (simp_all only: effects_ok_def)
  have "\<exists>b \<in> set (map g as). att_attempt_id b = eff_attempt_id (h e) \<and> att_run_id b = eff_run_id (h e)
      \<and> att_lease_generation b = eff_fencing_token (h e)
      \<and> (eff_status (h e) \<in> {EffectUnknown, EffectReconciled} \<longrightarrow> \<not> attempt_active (att_status b))"
    if e: "e \<in> set es" for e
  proof -
    obtain a where a: "a \<in> set as" "att_attempt_id a = eff_attempt_id e" "att_run_id a = eff_run_id e"
        "att_lease_generation a = eff_fencing_token e"
        "eff_status e \<in> {EffectUnknown, EffectReconciled} \<Longrightarrow> \<not> attempt_active (att_status a)"
      using ok e by (auto simp: effects_ok_def)
    have "\<not> attempt_active (att_status (g a))" if "eff_status (h e) \<in> {EffectUnknown, EffectReconciled}"
    proof (cases "effect_open (eff_status e)")
      case True
      then show ?thesis using that lost [OF e a(1,2) True] by blast
    next
      case False
      then have "eff_status e \<in> {EffectUnknown, EffectReconciled}"
        using that ids [OF e] by (cases "eff_status e") (auto simp: effect_evolves_def)
      then show ?thesis using a(5) attempt_evolvesD(4) [OF g [OF a(1)]] by blast
    qed
    then show ?thesis using a ids [OF e] g [OF a(1)]
      by (intro bexI [of _ "g a"]) (auto simp: effect_evolves_def attempt_evolves_def)
  qed
  then show ?thesis using d by (simp add: effects_ok_def)
qed

definition control_adv :: "control_db \<Rightarrow> control_db \<Rightarrow> bool" where
  "control_adv db db' \<longleftrightarrow> (\<forall>a \<in> set (db_attempts db). \<exists>b \<in> set (db_attempts db'). attempt_evolves a b)
     \<and> (\<forall>e \<in> set (db_effects db). \<exists>f \<in> set (db_effects db'). effect_evolves (db_attempts db) e f)
     \<and> prefix (db_scopes db) (db_scopes db')
     \<and> set (map rn_run_id (db_runs db)) \<subseteq> set (map rn_run_id (db_runs db'))"

lemma attempt_evolves_trans: "attempt_evolves a b \<Longrightarrow> attempt_evolves b c \<Longrightarrow> attempt_evolves a c"
  by (auto simp: attempt_evolves_def)

lemma effect_evolves_trans:
  assumes "effect_evolves as e f" "effect_evolves bs f g" "\<forall>a \<in> set as. \<exists>b \<in> set bs. attempt_evolves a b"
  shows "effect_evolves as e g"
proof -
  have "\<exists>b \<in> set bs. att_attempt_id b = eff_attempt_id f \<and> \<not> attempt_active (att_status b)"
    if "\<exists>a \<in> set as. att_attempt_id a = eff_attempt_id e \<and> \<not> attempt_active (att_status a)"
    using that assms(1,3) by (auto simp: attempt_evolves_def effect_evolves_def)
  then show ?thesis using assms(1,2) unfolding effect_evolves_def
    by (cases "eff_status e"; cases "eff_status f") auto
qed

lemma control_adv_refl: "control_adv db db"
  unfolding control_adv_def using attempt_evolves_refl effect_evolves_refl by blast

lemma control_adv_trans:
  assumes "control_adv x y" "control_adv y z"
  shows "control_adv x z"
proof -
  have att: "\<forall>a \<in> set (db_attempts x). \<exists>b \<in> set (db_attempts y). attempt_evolves a b"
    using assms(1) by (simp add: control_adv_def)
  have "\<forall>a \<in> set (db_attempts x). \<exists>b \<in> set (db_attempts z). attempt_evolves a b"
    using att assms(2) attempt_evolves_trans unfolding control_adv_def by meson
  moreover have "\<forall>e \<in> set (db_effects x). \<exists>f \<in> set (db_effects z). effect_evolves (db_attempts x) e f"
    using assms effect_evolves_trans [OF _ _ att] unfolding control_adv_def by meson
  ultimately show ?thesis
    using assms unfolding control_adv_def by (meson order_trans prefix_order.trans)
qed

section \<open>Every step keeps the tables well formed\<close>

text \<open>Steps that only rewrite rows of runs, attempts and effects.\<close>

lemma rewrite_step:
  assumes wf: "control_wf db"
    and runs: "map rn_run_id (db_runs db') = map rn_run_id (db_runs db)"
    and att: "db_attempts db' = map g (db_attempts db)" and eff: "db_effects db' = map h (db_effects db)"
    and rest: "db_scopes db' = db_scopes db" "db_audit db' = db_audit db" "db_resources db' = db_resources db"
      "db_artifacts db' = db_artifacts db"
    and g: "\<And>a. a \<in> set (db_attempts db) \<Longrightarrow> attempt_evolves a (g a)"
    and h: "\<And>e. e \<in> set (db_effects db) \<Longrightarrow> effect_evolves (db_attempts db) e (h e)"
    and lost: "\<And>e a. e \<in> set (db_effects db) \<Longrightarrow> a \<in> set (db_attempts db) \<Longrightarrow> att_attempt_id a = eff_attempt_id e
      \<Longrightarrow> effect_open (eff_status e) \<Longrightarrow> eff_status (h e) \<in> {EffectUnknown, EffectReconciled}
      \<Longrightarrow> \<not> attempt_active (att_status (g a))"
  shows "control_wf db' \<and> control_adv db db'"
proof
  have ids: "set (map rn_run_id (db_runs db')) = set (map rn_run_id (db_runs db))" using runs by simp
  have "\<exists>r \<in> set (db_runs db'). rn_run_id r = att_run_id (g a)" if a: "a \<in> set (db_attempts db)" for a
  proof -
    obtain r where "r \<in> set (db_runs db)" "rn_run_id r = att_run_id a"
      using wf a unfolding control_wf_def by blast
    then have "att_run_id (g a) \<in> set (map rn_run_id (db_runs db'))"
      unfolding ids attempt_evolvesD(2) [OF g [OF a]] by (metis image_eqI set_map)
    then show ?thesis by auto
  qed
  then show "control_wf db'"
    using wf attempts_ok_map [of "db_attempts db" g, OF _ g] numbers_ok_map [of "db_attempts db" g, OF _ g] effects_ok_map [of "db_attempts db" "db_effects db" h g, OF _ h g lost]
    unfolding control_wf_def runs att eff rest by (auto simp only: set_map ball_simps(9))
  show "control_adv db db'"
    unfolding control_adv_def att eff rest ids using g h by auto
qed

text \<open>Statements that touch the runs only.\<close>

lemma runs_step:
  assumes "control_wf db" "map rn_run_id rs = map rn_run_id (db_runs db)"
  shows "control_wf (db\<lparr>db_runs := rs\<rparr>) \<and> control_adv db (db\<lparr>db_runs := rs\<rparr>)"
  by (rule rewrite_step [where g = "\<lambda>a. a" and h = "\<lambda>e. e"]) (use assms in auto)

lemma attempts_step:
  assumes "control_wf db" "\<And>a. c a \<Longrightarrow> attempt_evolves a (f a)"
  shows "control_wf (db\<lparr>db_attempts := sql_update c f (db_attempts db)\<rparr>)
    \<and> control_adv db (db\<lparr>db_attempts := sql_update c f (db_attempts db)\<rparr>)"
  by (rule rewrite_step [where g = "\<lambda>a. if c a then f a else a" and h = "\<lambda>e. e"])
     (use assms in \<open>auto simp: sql_update_def\<close>)

lemma effects_step:
  assumes "control_wf db"
    and "\<And>e. e \<in> set (db_effects db) \<Longrightarrow> c e \<Longrightarrow> effect_evolves (db_attempts db) e (f e)
      \<and> (effect_open (eff_status e) \<longrightarrow> eff_status (f e) \<notin> {EffectUnknown, EffectReconciled})"
  shows "control_wf (db\<lparr>db_effects := sql_update c f (db_effects db)\<rparr>)
    \<and> control_adv db (db\<lparr>db_effects := sql_update c f (db_effects db)\<rparr>)"
  by (rule rewrite_step [where g = "\<lambda>a. a" and h = "\<lambda>e. if c e then f e else e"])
     (use assms in \<open>auto simp: sql_update_def split: if_splits\<close>)

section \<open>Recovery\<close>

lemma sql_update_twice:
  assumes "\<And>r. c r \<Longrightarrow> \<not> d (f r)"
  shows "sql_update d f (sql_update c f t) = sql_update (\<lambda>r. c r \<or> d r) f t"
  using assms by (auto simp: sql_update_def)

definition lost_row :: "u64 \<Rightarrow> attempt \<Rightarrow> attempt" where
  "lost_row now a = a\<lparr>att_status := AttemptLost, att_finished_at_ms := Some now, att_lease_expires_at_ms := 0,
     att_error := Some ''lease expired''\<rparr>"

definition unknown_row :: "u64 \<Rightarrow> effect_record \<Rightarrow> effect_record" where
  "unknown_row now e = e\<lparr>eff_status := EffectUnknown, eff_updated_at_ms := now,
     eff_error := Some (case_option ''attempt lease expired while effect was active'' id (eff_error e))\<rparr>"

definition queued_row :: "u64 \<Rightarrow> run_record \<Rightarrow> run_record" where
  "queued_row now r = r\<lparr>rn_status := RunQueued, rn_updated_at_ms := now\<rparr>"

text \<open>All at once: what the loop of the transaction amounts to.\<close>

definition lose_all :: "u64 \<Rightarrow> string set \<Rightarrow> string set \<Rightarrow> control_db \<Rightarrow> control_db" where
  "lose_all now as rs db =
     db\<lparr>db_attempts := sql_update (\<lambda>a. att_attempt_id a \<in> as \<and> attempt_active (att_status a)) (lost_row now) (db_attempts db),
        db_effects := sql_update (\<lambda>e. eff_attempt_id e \<in> as \<and> effect_open (eff_status e)) (unknown_row now) (db_effects db),
        db_runs := sql_update (\<lambda>r. rn_run_id r \<in> rs \<and> rn_status r = RunRunning) (queued_row now) (db_runs db)\<rparr>"

lemma lose_attempt_all: "lose_attempt now ar = lose_all now {fst ar} {snd ar}"
  by (rule ext) (simp add: lose_attempt_def lose_all_def lost_row_def [abs_def] unknown_row_def [abs_def]
      queued_row_def [abs_def])

lemma lose_all_twice: "lose_all now as' rs' (lose_all now as rs db) = lose_all now (as \<union> as') (rs \<union> rs') db"
  unfolding lose_all_def
  by (simp add: sql_update_twice lost_row_def unknown_row_def queued_row_def conj_disj_distribR)

lemma lose_all_none: "lose_all now {} {} db = db"
  by (simp add: lose_all_def sql_update_def)

lemma fold_lose: "fold (lose_attempt now) l (lose_all now as rs db) = lose_all now (as \<union> fst ` set l) (rs \<union> snd ` set l) db"
proof (induction l arbitrary: as rs)
  case (Cons ar l)
  have "lose_attempt now ar (lose_all now as rs db) = lose_all now (as \<union> {fst ar}) (rs \<union> {snd ar}) db"
    by (simp only: lose_attempt_all lose_all_twice)
  then show ?case using Cons [of "as \<union> {fst ar}" "rs \<union> {snd ar}"] by simp
qed simp

lemma recover_all:
  "snd (recover_expired_attempts now db) =
     lose_all now (fst ` set (expired_attempts now db)) (snd ` set (expired_attempts now db)) db"
  using fold_lose [of now "expired_attempts now db" "{}" "{}" db]
  by (simp add: recover_expired_attempts_def lose_all_none)

lemma expired_id:
  assumes "distinct (map att_attempt_id (db_attempts db))" "a \<in> set (db_attempts db)"
  shows "att_attempt_id a \<in> fst ` set (expired_attempts now db) \<longleftrightarrow> lease_expired now a"
proof
  assume "att_attempt_id a \<in> fst ` set (expired_attempts now db)"
  then obtain b where "b \<in> set (db_attempts db)" "lease_expired now b" "att_attempt_id b = att_attempt_id a"
    by (auto simp: expired_attempts_def)
  then show "lease_expired now a" using assms by (metis distinct_map inj_onD)
next
  assume "lease_expired now a"
  then show "att_attempt_id a \<in> fst ` set (expired_attempts now db)"
    using assms(2) by (force simp: expired_attempts_def)
qed

lemma recover_step:
  assumes wf: "control_wf db"
  shows "control_wf (snd (recover_expired_attempts now db)) \<and> control_adv db (snd (recover_expired_attempts now db))"
proof -
  let ?as = "fst ` set (expired_attempts now db)"
  have ids: "distinct (map att_attempt_id (db_attempts db))" using wf by (simp add: control_wf_def attempts_ok_def)
  have active: "attempt_active (att_status a)" if "a \<in> set (db_attempts db)" "att_attempt_id a \<in> ?as" for a
    using that expired_id [OF ids that(1)] by (simp add: lease_expired_def)
  let ?g = "\<lambda>a. if att_attempt_id a \<in> ?as \<and> attempt_active (att_status a) then lost_row now a else a"
  let ?h = "\<lambda>e. if eff_attempt_id e \<in> ?as \<and> effect_open (eff_status e) then unknown_row now e else e"
  show ?thesis
    unfolding recover_all
  proof (rule rewrite_step [OF wf, where g = ?g and h = ?h])
    fix a
    show "attempt_evolves a (?g a)" by (auto simp: attempt_evolves_def lost_row_def)
  next
    fix e
    assume "e \<in> set (db_effects db)"
    show "effect_evolves (db_attempts db) e (?h e)"
    proof (cases "eff_attempt_id e \<in> ?as \<and> effect_open (eff_status e)")
      case True
      then have "\<not> (\<exists>a \<in> set (db_attempts db). att_attempt_id a = eff_attempt_id e \<and> \<not> attempt_active (att_status a))"
        using active by metis
      then show ?thesis using True by (cases "eff_status e") (auto simp: effect_evolves_def unknown_row_def)
    qed auto
  next
    fix e a
    assume "a \<in> set (db_attempts db)" "att_attempt_id a = eff_attempt_id e" "effect_open (eff_status e)"
      "eff_status (?h e) \<in> {EffectUnknown, EffectReconciled}"
    then show "\<not> attempt_active (att_status (?g a))"
      by (cases "eff_status e") (auto simp: lost_row_def split: if_splits)
  qed (simp_all add: lose_all_def sql_update_def queued_row_def comp_def if_distrib)
qed

section \<open>Insertions\<close>

lemma attempts_ok_insert:
  assumes "attempts_ok t" "\<forall>b \<in> set t. att_attempt_id b \<noteq> att_attempt_id a" "0 < sint (att_lease_generation a)"
    and below: "\<And>b. b \<in> set t \<Longrightarrow> att_run_id b = att_run_id a
      \<Longrightarrow> \<not> attempt_active (att_status b) \<and> sint (att_lease_generation b) < sint (att_lease_generation a)"
    and "attempt_active (att_status a)"
  shows "attempts_ok (t @ [a])"
proof -
  have "b = c" if "b \<in> set (t @ [a])" "c \<in> set (t @ [a])" "att_run_id b = att_run_id c"
      "att_lease_generation b = att_lease_generation c" for b c
    using that below [of b] below [of c] assms(1) by (auto simp: attempts_ok_def)
  moreover have "sint (att_lease_generation c) \<le> sint (att_lease_generation b)"
    if "b \<in> set (t @ [a])" "c \<in> set (t @ [a])" "att_run_id b = att_run_id c" "attempt_active (att_status b)" for b c
    using that below [of b] below [of c] assms(1) by (auto simp: attempts_ok_def)
  moreover have "distinct (map att_attempt_id (t @ [a]))" using assms(1,2) by (auto simp: attempts_ok_def)
  moreover have "0 < sint (att_lease_generation b)" if "b \<in> set (t @ [a])" for b
    using that assms(1,3) by (auto simp: attempts_ok_def)
  moreover have "att_lease_expires_at_ms b = 0 \<and> att_finished_at_ms b \<noteq> None"
    if "b \<in> set (t @ [a])" "\<not> attempt_active (att_status b)" for b
    using that assms(1,5) by (auto simp: attempts_ok_def)
  ultimately show ?thesis unfolding attempts_ok_def by blast
qed

lemma effects_ok_more_attempts: "effects_ok as es \<Longrightarrow> effects_ok (as @ bs) es"
  unfolding effects_ok_def by (metis Un_iff set_append)

lemma insert_adv:
  assumes "set (db_attempts db) \<subseteq> set (db_attempts db')" "set (db_effects db) \<subseteq> set (db_effects db')"
    "prefix (db_scopes db) (db_scopes db')" "set (map rn_run_id (db_runs db)) \<subseteq> set (map rn_run_id (db_runs db'))"
  shows "control_adv db db'"
  unfolding control_adv_def using assms attempt_evolves_refl effect_evolves_refl by blast

lemma get_run_Some: "get_run db i = Some r \<Longrightarrow> r \<in> set (db_runs db) \<and> rn_run_id r = i"
  unfolding get_run_def by (rule find_key_Some)

text \<open>The generation a claim draws is above every earlier one of the run.\<close>

lemma next_generation:
  assumes ok: "attempts_ok (db_attempts db)"
    and g: "sql_succ (sql_max (map (\<lambda>a. sint (att_lease_generation a)) (attempts_of db run))) = Some g"
  shows "0 < sint (word_of_int g :: u64)"
    and "a \<in> set (db_attempts db) \<Longrightarrow> att_run_id a = run \<Longrightarrow> sint (att_lease_generation a) < sint (word_of_int g :: u64)"
    and "sint (word_of_int g :: u64) = g"
proof -
  let ?gs = "map (\<lambda>a. sint (att_lease_generation a)) (attempts_of db run)"
  have "0 \<le> sql_max ?gs"
  proof (cases "attempts_of db run")
    case (Cons b bs)
    then have "b \<in> set (db_attempts db)" by (auto simp: attempts_of_def filter_eq_Cons_iff)
    then have "0 < sint (att_lease_generation b)" using ok by (simp add: attempts_ok_def)
    moreover have "sint (att_lease_generation b) \<le> sql_max ?gs" by (rule sql_max_bound) (simp add: Cons)
    ultimately show ?thesis by simp
  qed (simp add: sql_max_def)
  moreover from this have "sint (word_of_int g :: u64) = g"
    using g sint_small [of "nat g"] by (auto simp: sql_succ_def split: if_splits)
  moreover have "g = sql_max ?gs + 1" using g by (auto simp: sql_succ_def split: if_splits)
  ultimately show "0 < sint (word_of_int g :: u64)"
    and "a \<in> set (db_attempts db) \<Longrightarrow> att_run_id a = run \<Longrightarrow> sint (att_lease_generation a) < sint (word_of_int g :: u64)"
    and "sint (word_of_int g :: u64) = g"
    using sql_max_bound [of "sint (att_lease_generation a)" ?gs] by (auto simp: attempts_of_def)
qed

lemma sql_max_cases: "sql_max xs = 0 \<and> xs = [] \<or> sql_max xs \<in> set xs"
proof (cases xs)
  case (Cons y ys)
  have "Max (set (y # ys)) \<in> set (y # ys)" by (rule Max_in) auto
  then show ?thesis using Cons by (simp only: sql_max_def list.case Max.set_eq_fold) simp
qed (simp add: sql_max_def)

lemma next_number:
  assumes ok: "attempts_ok (db_attempts db)" "numbers_ok (db_attempts db)"
    and g: "sql_succ (sql_max (map (\<lambda>a. sint (att_lease_generation a)) (attempts_of db run))) = Some g"
  shows "g \<le> int (length (attempts_of db run)) + 1"
    and "g < 2 ^ 32 \<Longrightarrow> sql_max (map (\<lambda>a. uint (att_number a)) (attempts_of db run)) + 1 = g"
proof -
  let ?gs = "map (\<lambda>a. sint (att_lease_generation a)) (attempts_of db run)"
  have gm: "g = sql_max ?gs + 1" using g by (auto simp: sql_succ_def split: if_splits)
  have "sint (att_lease_generation a) \<le> int (length (attempts_of db run))" if "a \<in> set (attempts_of db run)" for a
    using ok(2) that by (auto simp: numbers_ok_def attempts_of_def)
  then show "g \<le> int (length (attempts_of db run)) + 1" using sql_max_cases [of ?gs] gm by auto
  assume small: "g < 2 ^ 32"
  have "uint (att_number a) = sint (att_lease_generation a)" if "a \<in> set (attempts_of db run)" for a
    using ok(2) that small gm sql_max_bound [of "sint (att_lease_generation a)" ?gs]
    by (auto simp: numbers_ok_def attempts_of_def)
  then have "map (\<lambda>a. uint (att_number a)) (attempts_of db run) = ?gs" by simp
  then show "sql_max (map (\<lambda>a. uint (att_number a)) (attempts_of db run)) + 1 = g" using gm by (simp only:)
qed

text \<open>The row of a successful claim.\<close>

definition claimed_row :: "string \<Rightarrow> string \<Rightarrow> string \<Rightarrow> u64 \<Rightarrow> u64 \<Rightarrow> u32 \<Rightarrow> u64 \<Rightarrow> attempt" where
  "claimed_row uuid run worker now ttl number token =
     \<lparr>att_attempt_id = uuid, att_run_id = run, att_number = number, att_worker_id = worker,
      att_status = AttemptRunning, att_lease_generation = token, att_lease_expires_at_ms = lease_expiry now ttl,
      att_last_heartbeat_at_ms = now, att_started_at_ms = now, att_finished_at_ms = None, att_error = None\<rparr>"

lemma claim_cases:
  obtains (failed) e where "claim_attempt uuid run worker now ttl db = (Inl e, db)"
  | (claimed) r g n where "claim_attempt uuid run worker now ttl db =
        (Inr \<lparr>al_attempt = claimed_row uuid run worker now ttl n (word_of_int g), al_fencing_token = word_of_int g\<rparr>,
         set_run_status run RunRunning now
           (db\<lparr>db_attempts := db_attempts db @ [claimed_row uuid run worker now ttl n (word_of_int g)]\<rparr>))"
      "get_run db run = Some r" "\<not> run_terminal (rn_status r)"
      "\<forall>a \<in> set (attempts_of db run). \<not> attempt_active (att_status a)"
      "sql_succ (sql_max (map (\<lambda>a. sint (att_lease_generation a)) (attempts_of db run))) = Some g"
      "\<forall>a \<in> set (db_attempts db). att_attempt_id a \<noteq> uuid"
      "n = word_of_int (sql_max (map (\<lambda>a. uint (att_number a)) (attempts_of db run)) + 1)"
proof -
  show thesis
  proof (cases "fst (claim_attempt uuid run worker now ttl db)")
    case (Inl e)
    then have "snd (claim_attempt uuid run worker now ttl db) = db"
      by (auto simp: claim_attempt_def Let_def split: sum.splits option.splits if_splits)
    then show thesis using Inl failed by (metis prod.collapse)
  next
    case (Inr l)
    let ?n = "word_of_int (sql_max (map (\<lambda>a. uint (att_number a)) (attempts_of db run)) + 1)"
    obtain r g db' where c: "get_run db run = Some r" "\<not> run_terminal (rn_status r)"
        "\<not> (\<exists>a \<in> set (attempts_of db run). attempt_active (att_status a))"
        "sql_succ (sql_max (map (\<lambda>a. sint (att_lease_generation a)) (attempts_of db run))) = Some g"
        "insert_attempt (claimed_row uuid run worker now ttl ?n (word_of_int g)) db = Some db'"
        "claim_attempt uuid run worker now ttl db =
        (Inr \<lparr>al_attempt = claimed_row uuid run worker now ttl ?n (word_of_int g), al_fencing_token = word_of_int g\<rparr>,
         set_run_status run RunRunning now db')"
      using Inr unfolding claim_attempt_def Let_def claimed_row_def
      by (auto split: sum.splits option.splits if_splits)
    have "db' = db\<lparr>db_attempts := db_attempts db @ [claimed_row uuid run worker now ttl ?n (word_of_int g)]\<rparr>"
      and "\<forall>a \<in> set (db_attempts db). att_attempt_id a \<noteq> uuid"
      using c(5) by (auto simp: insert_attempt_def sql_insert_Some claimed_row_def split: if_splits)
    then show thesis using c claimed by blast
  qed
qed

lemma claim_step:
  assumes wf: "control_wf db"
  shows "control_wf (snd (claim_attempt uuid run worker now ttl db))
    \<and> control_adv db (snd (claim_attempt uuid run worker now ttl db))"
proof (cases rule: claim_cases [of uuid run worker now ttl db])
  case failed
  then show ?thesis using wf control_adv_refl by simp
next
  case (claimed r g n)
  let ?a = "claimed_row uuid run worker now ttl n (word_of_int g)"
  let ?db = "db\<lparr>db_attempts := db_attempts db @ [?a]\<rparr>"
  have ok: "attempts_ok (db_attempts db)" using wf by (simp add: control_wf_def)
  have "attempts_ok (db_attempts db @ [?a])"
    using ok claimed(6) next_generation [OF ok claimed(5)] claimed(4)
    by (intro attempts_ok_insert) (auto simp: claimed_row_def attempts_of_def)
  moreover have "numbers_ok (db_attempts db @ [?a])"
  proof -
    have nums: "numbers_ok (db_attempts db)" using wf by (simp add: control_wf_def)
    have num: "uint n = g" if "g < 2 ^ 32"
    proof -
      have "n = word_of_int g" using claimed(7) next_number(2) [OF ok nums claimed(5) that] by (simp only:)
      moreover have "0 < g" using next_generation(1,3) [OF ok claimed(5)] by simp
      ultimately show ?thesis using that by (simp add: uint_word_of_int)
    qed
    have "sint (att_lease_generation ?a) = g" using next_generation(3) [OF ok claimed(5)] by (simp add: claimed_row_def)
    moreover have "g \<le> int (length (filter (\<lambda>b. att_run_id b = att_run_id ?a) (db_attempts db @ [?a])))"
      using next_number(1) [OF ok nums claimed(5)] by (simp add: claimed_row_def attempts_of_def)
    moreover have "g < 2 ^ 32 \<longrightarrow> uint (att_number ?a) = g" using num by (simp add: claimed_row_def)
    ultimately show ?thesis using nums by (auto simp: numbers_ok_def)
  qed
  moreover have "\<exists>q \<in> set (db_runs db). rn_run_id q = run" using get_run_Some [OF claimed(2)] by blast
  ultimately have "control_wf ?db" using wf effects_ok_more_attempts by (simp add: control_wf_def claimed_row_def)
  moreover have "control_adv db ?db" by (rule insert_adv) auto
  moreover have "map rn_run_id (db_runs (set_run_status run RunRunning now ?db)) = map rn_run_id (db_runs ?db)"
    by (simp add: set_run_status_def sql_update_keeps)
  ultimately show ?thesis
    using runs_step [of ?db] control_adv_trans claimed(1) by (simp add: set_run_status_def sql_update_keeps)
qed

lemma insert_run_step:
  assumes "control_wf db" "insert_run r db = Some db'"
  shows "control_wf db' \<and> control_adv db db'"
proof -
  have db': "db' = db\<lparr>db_runs := db_runs db @ [r]\<rparr>" "\<forall>q \<in> set (db_runs db). rn_run_id q \<noteq> rn_run_id r"
    using assms(2) by (auto simp: insert_run_def sql_insert_Some)
  moreover have "control_adv db db'" by (rule insert_adv) (auto simp: db'(1))
  ultimately show ?thesis using assms(1) by (auto simp: control_wf_def)
qed

lemma insert_effect_step:
  assumes wf: "control_wf db" and e: "insert_effect e db = Some db'" "eff_status e = EffectPlanned"
    and a: "a \<in> set (db_attempts db)" "att_attempt_id a = eff_attempt_id e" "att_run_id a = eff_run_id e"
      "att_lease_generation a = eff_fencing_token e"
  shows "control_wf db' \<and> control_adv db db'"
proof -
  have db': "db' = db\<lparr>db_effects := db_effects db @ [e]\<rparr>"
      "\<forall>q \<in> set (db_effects db). eff_effect_id q \<noteq> eff_effect_id e \<and> eff_idempotency_key q \<noteq> eff_idempotency_key e"
    using e(1) by (auto simp: insert_effect_def sql_insert_Some split: if_splits)
  have "effects_ok (db_attempts db) (db_effects db @ [e])"
    using wf db'(2) a e(2) by (auto simp: control_wf_def effects_ok_def)
  moreover have "control_adv db db'" by (rule insert_adv) (auto simp: db'(1))
  ultimately show ?thesis using wf db'(1) by (simp add: control_wf_def)
qed

lemma scopes_ok_insert:
  assumes "scopes_ok t" "\<forall>q \<in> set t. sr_scope_id q \<noteq> sr_scope_id s"
    "\<And>p. sr_parent_scope_id s = Some p \<Longrightarrow> \<exists>q \<in> set t. sr_scope_id q = p"
  shows "scopes_ok (t @ [s])"
proof -
  have "\<exists>j < k. sr_scope_id ((t @ [s]) ! j) = p"
    if k: "k < length (t @ [s])" "sr_parent_scope_id ((t @ [s]) ! k) = Some p" for k p
  proof (cases "k < length t")
    case True
    then have "sr_parent_scope_id (t ! k) = Some p" using k(2) by (simp add: nth_append)
    then obtain j where "j < k" "sr_scope_id (t ! j) = p"
      using assms(1) True unfolding scopes_ok_def by blast
    then show ?thesis using True by (intro exI [of _ j]) (simp add: nth_append)
  next
    case False
    then have "k = length t" using k(1) by simp
    then obtain q where "q \<in> set t" "sr_scope_id q = p" using assms(3) k(2) by auto
    then show ?thesis using \<open>k = length t\<close> by (auto simp: in_set_conv_nth nth_append)
  qed
  then show ?thesis using assms(1,2) by (auto simp: scopes_ok_def)
qed

lemma insert_scope_step:
  assumes wf: "control_wf db" and s: "insert_scope s db = Some db'" "missing_parent s db = None"
  shows "control_wf db' \<and> control_adv db db'"
proof -
  have db': "db' = db\<lparr>db_scopes := db_scopes db @ [s]\<rparr>" "\<forall>q \<in> set (db_scopes db). sr_scope_id q \<noteq> sr_scope_id s"
    using s(1) by (auto simp: insert_scope_def sql_insert_Some)
  have "\<exists>q \<in> set (db_scopes db). sr_scope_id q = p" if "sr_parent_scope_id s = Some p" for p
    using s(2) that by (auto simp: missing_parent_def find_scope_def find_None_iff split: if_splits)
  then have "scopes_ok (db_scopes db @ [s])" using wf db'(2) scopes_ok_insert by (simp add: control_wf_def)
  moreover have "control_adv db db'" by (rule insert_adv) (auto simp: db'(1))
  ultimately show ?thesis using wf db'(1) by (simp add: control_wf_def)
qed

lemma registry_step:
  assumes "control_wf db" "db_runs db' = db_runs db" "db_attempts db' = db_attempts db" "db_effects db' = db_effects db"
    "db_scopes db' = db_scopes db" "distinct (map aud_audit_id (db_audit db'))"
    "distinct (map (res_resource_id \<circ> fst) (db_resources db'))" "distinct (map (ct_hash \<circ> fst) (db_artifacts db'))"
  shows "control_wf db' \<and> control_adv db db'"
proof
  show "control_wf db'" using assms(1,6,7,8) unfolding control_wf_def assms(2-5) by blast
  show "control_adv db db'" by (rule insert_adv) (simp_all add: assms(2-5))
qed

lemma sql_insert_distinct:
  "sql_insert (\<lambda>q. k q = k r) r t = Some t' \<Longrightarrow> distinct (map k t) \<Longrightarrow> distinct (map k t')"
  by (auto simp: sql_insert_Some)

lemma audit_step:
  assumes "control_wf db"
  shows "control_wf (snd (record_audit au db)) \<and> control_adv db (snd (record_audit au db))"
proof (cases "sql_insert (\<lambda>q. aud_audit_id q = aud_audit_id au) au (db_audit db)")
  case (Some t)
  then show ?thesis using assms sql_insert_distinct [OF Some]
    by (intro registry_step [OF assms]) (simp_all add: record_audit_def control_wf_def)
qed (simp add: record_audit_def assms control_adv_refl)

lemma resource_step:
  assumes "control_wf db"
  shows "control_wf (snd (register_resource rs db)) \<and> control_adv db (snd (register_resource rs db))"
proof (cases "snd (register_resource rs db) = db")
  case False
  then obtain t where t: "sql_insert (\<lambda>q. res_resource_id (fst q) = res_resource_id rs) (rs, sr_scope_id (res_scope rs))
      (db_resources db) = Some t" "snd (register_resource rs db) = db\<lparr>db_resources := t\<rparr>"
    by (auto simp: register_resource_def split: sum.splits option.splits)
  then have "distinct (map (res_resource_id \<circ> fst) t)"
    using assms by (auto simp: sql_insert_Some control_wf_def)
  then show ?thesis using assms t(2) by (intro registry_step [OF assms]) (simp_all add: control_wf_def)
qed (simp add: assms control_adv_refl)

lemma artifact_step:
  assumes "control_wf db"
  shows "control_wf (snd (register_artifact ar now db)) \<and> control_adv db (snd (register_artifact ar now db))"
proof (cases "sql_insert (\<lambda>q. ct_hash (fst q) = ct_hash ar) (ar, now) (db_artifacts db)")
  case (Some t)
  then have "distinct (map (ct_hash \<circ> fst) t)" using assms by (auto simp: sql_insert_Some control_wf_def)
  then show ?thesis using assms Some
    by (intro registry_step [OF assms]) (simp_all add: register_artifact_def control_wf_def)
qed (simp add: register_artifact_def assms control_adv_refl)

text \<open>Effects.\<close>

lemma start_step:
  assumes "control_wf db"
  shows "control_wf (start_stmt i token now db) \<and> control_adv db (start_stmt i token now db)"
  unfolding start_stmt_def
  by (rule effects_step [OF assms]) (auto simp: start_cond_def effect_evolves_def)

lemma reconcile_step:
  assumes "control_wf db"
  shows "control_wf (reconcile_stmt i out now db) \<and> control_adv db (reconcile_stmt i out now db)"
  unfolding reconcile_stmt_def
  by (rule effects_step [OF assms]) (auto simp: reconcile_cond_def with_outcome_def effect_evolves_def)

text \<open>A completion that changes something was made by the holder of a live lease.\<close>

lemma complete_effect_cases:
  obtains (kept) "snd (complete_effect i token out now db) = db"
  | (settled) e a where "snd (complete_effect i token out now db) = db\<lparr>db_effects := sql_update (complete_cond i token)
        (with_outcome (eo_status out) out now) (db_effects db)\<rparr>"
      "load_effect_locked db i = Some e" "load_attempt_locked db (eff_attempt_id e) = Some a" "holds_lease token now a"
      "effect_settled (eo_status out)"
proof -
  let ?db = "db\<lparr>db_effects := sql_update (complete_cond i token) (with_outcome (eo_status out) out now) (db_effects db)\<rparr>"
  consider "\<not> effect_settled (eo_status out)" | "load_effect_locked db i = None"
    | e where "effect_settled (eo_status out)" "load_effect_locked db i = Some e"
      "load_attempt_locked db (eff_attempt_id e) = None"
    | e a where "effect_settled (eo_status out)" "load_effect_locked db i = Some e"
      "load_attempt_locked db (eff_attempt_id e) = Some a"
    by (metis option.exhaust)
  then show thesis
  proof cases
    case (4 e a)
    then have "snd (complete_effect i token out now db) = db
        \<or> holds_lease token now a \<and> snd (complete_effect i token out now db) = ?db"
      by (simp add: complete_effect_def Let_def split: option.split)
    then show thesis using kept settled 4 by blast
  qed (auto intro: kept simp: complete_effect_def split: option.splits)
qed

lemma complete_step:
  assumes wf: "control_wf db"
  shows "control_wf (snd (complete_effect i token out now db)) \<and> control_adv db (snd (complete_effect i token out now db))"
proof (cases rule: complete_effect_cases [of i token out now db])
  case kept
  then show ?thesis using wf control_adv_refl by simp
next
  case (settled e a)
  have ids: "distinct (map eff_effect_id (db_effects db))" "distinct (map att_attempt_id (db_attempts db))"
    using wf by (simp_all add: control_wf_def effects_ok_def attempts_ok_def)
  have live: "attempt_active (att_status b)" if "f \<in> set (db_effects db)" "complete_cond i token f" "b \<in> set (db_attempts db)"
    "att_attempt_id b = eff_attempt_id f" for f b
  proof -
    have "load_effect_locked db i = Some f"
      using find_key [OF ids(1) that(1)] that(2) by (simp add: load_effect_locked_def complete_cond_def)
    then have "load_attempt_locked db (eff_attempt_id f) = Some a" using settled(2,3) by simp
    moreover have "load_attempt_locked db (eff_attempt_id f) = Some b"
      using find_key [OF ids(2) that(3)] that(4) by (simp add: load_attempt_locked_def)
    ultimately show ?thesis using settled(4) by (simp add: holds_lease_def)
  qed
  show ?thesis
    unfolding settled(1)
  proof (rule effects_step [OF wf])
    fix f
    assume f: "f \<in> set (db_effects db)" "complete_cond i token f"
    then have "\<not> (\<exists>b \<in> set (db_attempts db). att_attempt_id b = eff_attempt_id f \<and> \<not> attempt_active (att_status b))"
      using live by blast
    then show "effect_evolves (db_attempts db) f (with_outcome (eo_status out) out now f)
        \<and> (effect_open (eff_status f) \<longrightarrow> eff_status (with_outcome (eo_status out) out now f) \<notin> {EffectUnknown, EffectReconciled})"
      using f(2) settled(5) by (cases "eff_status f") (auto simp: effect_evolves_def with_outcome_def complete_cond_def)
  qed
qed

lemma control_step_ok:
  assumes "control_step db db'" "control_wf db"
  shows "control_wf db' \<and> control_adv db db'"
  using assms
proof cases
  case (step_requeue i now)
  then show ?thesis using runs_step [OF assms(2)] by (simp add: requeue_stmt_def sql_update_keeps)
next
  case (step_set_run_status i rs now)
  then show ?thesis using runs_step [OF assms(2)] by (simp add: set_run_status_def sql_update_keeps)
next
  case (step_renew i token now ttl)
  show ?thesis unfolding step_renew renew_stmt_def
    by (rule attempts_step [OF assms(2)]) (auto simp: lease_live_def attempt_evolves_def)
next
  case (step_finish s i token now err)
  show ?thesis unfolding step_finish(1) finish_stmt_def
    by (rule attempts_step [OF assms(2)]) (use step_finish(2) in \<open>auto simp: lease_live_def attempt_evolves_def\<close>)
next
  case (step_insert_effect e a)
  then show ?thesis using insert_effect_step [OF assms(2)] by blast
next
  case (step_insert_run r)
  then show ?thesis using insert_run_step [OF assms(2)] by blast
next
  case (step_insert_scope sc)
  then show ?thesis using insert_scope_step [OF assms(2)] by blast
qed (simp_all only: claim_step recover_step start_step complete_step reconcile_step audit_step resource_step
      artifact_step simp_thms)

interpretation control: ordered_transitions control_step control_wf control_adv
  by unfold_locales (use control_step_ok control_adv_refl control_adv_trans in blast)+

end
