(* ===== verification/Control_Leases.thy ===== *)
theory Control_Leases
  imports Control_Correct
begin

text \<open>
  What the control plane promises its callers: every operation of the store is a sequence of the steps
  of the previous theory; a run has one live lease; a lost lease stays without effect; recovery
  makes work claimable again; effects are recorded once; the scope walk is exact.
\<close>

section \<open>Operations as steps\<close>

datatype control_op =
  CoCreateRun string u64 new_run
| CoRequeueRun string u64
| CoClaim string string string u64 u64
| CoRenew string u64 u64 u64
| CoCompleteAttempt string u64 attempt_status u64 "string option"
| CoRecover u64
| CoRecordEffect string new_effect u64
| CoStartEffect string u64 u64
| CoCompleteEffect string u64 effect_outcome u64
| CoReconcile string effect_outcome u64
| CoAudit audit_record
| CoScope scope_ref
| CoResource scoped_resource
| CoArtifact control_artifact u64

fun control_apply :: "control_op \<Rightarrow> control_db \<Rightarrow> control_db" where
  "control_apply (CoCreateRun uuid now n) db = snd (create_run uuid now n db)"
| "control_apply (CoRequeueRun i now) db = snd (requeue_run i now db)"
| "control_apply (CoClaim uuid run worker now ttl) db = snd (claim_attempt uuid run worker now ttl db)"
| "control_apply (CoRenew i token now ttl) db = snd (renew_attempt i token now ttl db)"
| "control_apply (CoCompleteAttempt i token s now err) db = snd (complete_attempt i token s now err db)"
| "control_apply (CoRecover now) db = snd (recover_expired_attempts now db)"
| "control_apply (CoRecordEffect uuid n now) db = snd (record_effect uuid n now db)"
| "control_apply (CoStartEffect i token now) db = snd (start_effect i token now db)"
| "control_apply (CoCompleteEffect i token out now) db = snd (complete_effect i token out now db)"
| "control_apply (CoReconcile i out now) db = snd (reconcile_effect i out now db)"
| "control_apply (CoAudit a) db = snd (record_audit a db)"
| "control_apply (CoScope s) db = snd (register_scope s db)"
| "control_apply (CoResource r) db = snd (register_resource r db)"
| "control_apply (CoArtifact a now) db = snd (register_artifact a now db)"

lemma create_run_steps: "control_step\<^sup>*\<^sup>* db (snd (create_run uuid now n db))"
  by (auto simp: create_run_def Let_def intro!: r_into_rtranclp control_step.step_insert_run split: sum.splits option.splits)

lemma complete_attempt_steps: "control_step\<^sup>*\<^sup>* db (snd (complete_attempt i token s now err db))"
proof (cases "attempt_active s")
  case False
  then have fin: "control_step\<^sup>*\<^sup>* db (finish_stmt i token s now err db)"
    by (blast intro: control_step.step_finish)
  then have "control_step\<^sup>*\<^sup>* db (set_run_status r rs now (finish_stmt i token s now err db))" for r rs
    by (rule rtranclp.rtrancl_into_rtrancl) (rule control_step.step_set_run_status)
  then show ?thesis using fin False by (auto simp: complete_attempt_def Let_def split: option.splits)
qed (simp add: complete_attempt_def)

lemma record_effect_steps: "control_step\<^sup>*\<^sup>* db (snd (record_effect uuid n now db))"
proof (cases "snd (record_effect uuid n now db) = db")
  case False
  then obtain a where a: "load_attempt_locked db (ne_attempt_id n) = Some a" "att_run_id a = ne_run_id n"
      "holds_lease (ne_fencing_token n) now a"
      "insert_effect (planned_effect uuid n now) db = Some (snd (record_effect uuid n now db))"
    unfolding record_effect_def Let_def by (auto split: sum.splits option.splits if_splits)
  have "a \<in> set (db_attempts db)" "att_attempt_id a = ne_attempt_id n"
    using a(1) find_key_Some unfolding load_attempt_locked_def by fastforce+
  then have "control_step db (snd (record_effect uuid n now db))"
    using a by (intro control_step.step_insert_effect [OF a(4)]) (auto simp: planned_effect_def holds_lease_def)
  then show ?thesis by simp
qed simp

lemma control_apply_steps: "control_step\<^sup>*\<^sup>* db (control_apply a db)"
proof (cases a)
  case (CoCreateRun uuid now n)
  then show ?thesis using create_run_steps by simp
next
  case (CoRequeueRun i now)
  then show ?thesis by (auto simp: requeue_run_def intro: control_step.step_requeue split: option.splits)
next
  case (CoRenew i token now ttl)
  then show ?thesis by (auto simp: renew_attempt_def Let_def intro: control_step.step_renew split: option.splits)
next
  case (CoCompleteAttempt i token s now err)
  then show ?thesis using complete_attempt_steps by simp
next
  case (CoRecordEffect uuid n now)
  then show ?thesis using record_effect_steps by simp
next
  case (CoStartEffect i token now)
  then show ?thesis by (auto simp: start_effect_def Let_def intro: control_step.step_start_effect split: option.splits)
next
  case (CoReconcile i out now)
  then show ?thesis by (auto simp: reconcile_effect_def Let_def intro: control_step.step_reconcile split: option.splits)
next
  case (CoScope s)
  then show ?thesis
    by (auto simp: register_scope_def intro!: r_into_rtranclp control_step.step_insert_scope split: sum.splits option.splits)
qed (auto intro: control_step.intros)

text \<open>Every database the operations can reach is reached by steps, whatever runs between the statements.\<close>

definition control_reachable :: "control_db \<Rightarrow> bool" where
  "control_reachable db \<longleftrightarrow> control_step\<^sup>*\<^sup>* empty_db db"

lemma reachable_wf: "control_reachable db \<Longrightarrow> control_wf db"
  unfolding control_reachable_def using control.steps_inv control_wf_empty by blast

lemma reachable_steps: "control_reachable db \<Longrightarrow> control_step\<^sup>*\<^sup>* db db' \<Longrightarrow> control_reachable db'"
  unfolding control_reachable_def by (rule rtranclp_trans)

lemma reachable_apply: "control_reachable db \<Longrightarrow> control_reachable (control_apply a db)"
  using reachable_steps control_apply_steps by blast

lemma reachable_history: "control_reachable (fold control_apply ops empty_db)"
proof -
  have "control_reachable db \<Longrightarrow> control_reachable (fold control_apply ops db)" for db
    by (induction ops arbitrary: db) (simp_all add: reachable_apply)
  then show ?thesis by (simp add: control_reachable_def)
qed

section \<open>Leases\<close>

lemma load_attempt_iff:
  "control_wf db \<Longrightarrow> load_attempt_locked db i = Some a \<longleftrightarrow> a \<in> set (db_attempts db) \<and> att_attempt_id a = i"
  unfolding load_attempt_locked_def control_wf_def attempts_ok_def
  using find_key [of att_attempt_id "db_attempts db" a] find_key_Some [of att_attempt_id i "db_attempts db" a] by auto

lemma load_effect_iff:
  "control_wf db \<Longrightarrow> load_effect_locked db i = Some e \<longleftrightarrow> e \<in> set (db_effects db) \<and> eff_effect_id e = i"
  unfolding load_effect_locked_def control_wf_def effects_ok_def
  using find_key [of eff_effect_id "db_effects db" e] find_key_Some [of eff_effect_id i "db_effects db" e] by auto

lemma get_run_iff:
  "control_wf db \<Longrightarrow> get_run db i = Some r \<longleftrightarrow> r \<in> set (db_runs db) \<and> rn_run_id r = i"
  unfolding get_run_def control_wf_def
  using find_key [of rn_run_id "db_runs db" r] find_key_Some [of rn_run_id i "db_runs db" r] by auto

lemma live_unique:
  assumes ok: "attempts_ok t" and a: "a \<in> set t" "attempt_active (att_status a)"
    and b: "b \<in> set t" "attempt_active (att_status b)" and run: "att_run_id a = att_run_id b"
  shows "a = b"
proof -
  have "sint (att_lease_generation b) \<le> sint (att_lease_generation a)" "sint (att_lease_generation a) \<le> sint (att_lease_generation b)"
    using ok a b run unfolding attempts_ok_def by metis+
  then have "sint (att_lease_generation a) = sint (att_lease_generation b)" by simp
  then have "att_lease_generation a = att_lease_generation b" using signed_word_eqI by blast
  then show ?thesis using ok a(1) b(1) run unfolding attempts_ok_def by blast
qed

text \<open>
  C10. A run has one live lease at most, in every database that any interleaving of statements reaches: of two
  attempts of a run one is finished, a live attempt has the highest fencing token of its run, no two
  attempts of a run share a token, and a claim succeeds only when every attempt of the run is
  finished, with a token above all of theirs.
\<close>

theorem one_live_lease:
  assumes "control_reachable db" "a \<in> set (db_attempts db)" "b \<in> set (db_attempts db)" "att_run_id a = att_run_id b"
  shows "(attempt_active (att_status a) \<and> attempt_active (att_status b) \<longrightarrow> a = b)
     \<and> (attempt_active (att_status a) \<and> b \<noteq> a \<longrightarrow> sint (att_lease_generation b) < sint (att_lease_generation a))
     \<and> (att_lease_generation a = att_lease_generation b \<longrightarrow> a = b)
     \<and> (\<forall>l. fst (claim_attempt uuid (att_run_id a) worker now ttl db) = Inr l
          \<longrightarrow> \<not> attempt_active (att_status a) \<and> sint (att_lease_generation a) < sint (al_fencing_token l))"
proof -
  have ok: "attempts_ok (db_attempts db)" using reachable_wf [OF assms(1)] by (simp add: control_wf_def)
  have distinct: "att_lease_generation a = att_lease_generation b \<Longrightarrow> a = b"
    using ok assms(2-4) unfolding attempts_ok_def by blast
  have lt: "sint (att_lease_generation b) < sint (att_lease_generation a)" if "attempt_active (att_status a)" "b \<noteq> a"
  proof -
    have "att_lease_generation b \<noteq> att_lease_generation a" using distinct that(2) by metis
    then have "sint (att_lease_generation b) \<noteq> sint (att_lease_generation a)" using signed_word_eqI by blast
    moreover have "sint (att_lease_generation b) \<le> sint (att_lease_generation a)"
      using ok assms(2-4) that(1) unfolding attempts_ok_def by metis
    ultimately show ?thesis by simp
  qed
  have "\<not> attempt_active (att_status a) \<and> sint (att_lease_generation a) < sint (al_fencing_token l)"
    if "fst (claim_attempt uuid (att_run_id a) worker now ttl db) = Inr l" for l
  proof (cases rule: claim_cases [of uuid "att_run_id a" worker now ttl db])
    case failed
    then show ?thesis using that by simp
  next
    case (claimed r g n)
    have "al_fencing_token l = word_of_int g" using that unfolding claimed(1) by auto
    then show ?thesis
      using next_generation(2) [OF ok claimed(5) assms(2)] claimed(4) assms(2) by (simp add: attempts_of_def)
  qed
  then show ?thesis using lt distinct live_unique [OF ok assms(2) _ assms(3) _ assms(4)] by blast
qed

text \<open>
  C22. The tables stay well formed under every operation: keys are unique, an attempt belongs to a run, and
  an effect belongs to an attempt of its run and carries that attempt's fencing token, so that the
  lookups the operations make after their first one never fail.
\<close>

theorem control_tables_well_formed:
  fixes db :: control_db and act :: control_op
  assumes "control_reachable db"
  defines "db' \<equiv> control_apply act db"
  shows "control_wf db'
     \<and> (\<forall>a \<in> set (db_attempts db'). load_attempt_locked db' (att_attempt_id a) = Some a
          \<and> (\<exists>r. get_run db' (att_run_id a) = Some r))
     \<and> (\<forall>e \<in> set (db_effects db'). load_effect_locked db' (eff_effect_id e) = Some e
          \<and> (\<exists>a. load_attempt_locked db' (eff_attempt_id e) = Some a \<and> att_run_id a = eff_run_id e
               \<and> att_lease_generation a = eff_fencing_token e))"
proof -
  have wf: "control_wf db'" unfolding db'_def by (intro reachable_wf reachable_apply assms(1))
  have "\<exists>r. get_run db' (att_run_id a) = Some r" if "a \<in> set (db_attempts db')" for a
    using wf that get_run_iff [OF wf] unfolding control_wf_def by blast
  moreover have "\<exists>a. load_attempt_locked db' (eff_attempt_id e) = Some a \<and> att_run_id a = eff_run_id e
      \<and> att_lease_generation a = eff_fencing_token e" if "e \<in> set (db_effects db')" for e
    using wf that load_attempt_iff [OF wf] unfolding control_wf_def effects_ok_def by metis
  ultimately show ?thesis using wf load_attempt_iff [OF wf] load_effect_iff [OF wf] by simp
qed

section \<open>Lost leases\<close>

lemma adv_attempt:
  assumes "control_adv db db'" "a \<in> set (db_attempts db)" "\<not> attempt_active (att_status a)"
  shows "a \<in> set (db_attempts db')"
  using assms unfolding control_adv_def attempt_evolves_def by metis

lemma dead_lease:
  assumes wf: "control_wf db" and a: "a \<in> set (db_attempts db)" "\<not> attempt_active (att_status a)"
  shows "sql_changed (lease_live (att_attempt_id a) token now) (db_attempts db) = 0"
proof -
  have "\<not> lease_live (att_attempt_id a) token now b" if "b \<in> set (db_attempts db)" for b
  proof
    assume "lease_live (att_attempt_id a) token now b"
    then have "att_attempt_id b = att_attempt_id a" "attempt_active (att_status b)" by (simp_all add: lease_live_def)
    moreover have "distinct (map att_attempt_id (db_attempts db))" using wf by (simp add: control_wf_def attempts_ok_def)
    ultimately show False using a that by (metis distinct_map inj_onD)
  qed
  then show ?thesis by (simp add: sql_changed_def filter_empty_conv)
qed

lemma dead_effect:
  assumes "load_effect_locked db i = Some f" "load_attempt_locked db (eff_attempt_id f) = Some a"
    "\<not> attempt_active (att_status a)"
  shows "start_effect i token now db = (Inl (LeaseLost (eff_attempt_id f)), db)"
    and "\<exists>r. complete_effect i token out now db = (r, db)
      \<and> (r = Inr f \<and> effect_settled (eff_status f) \<and> effect_matches_outcome f out \<or> (\<exists>e. r = Inl e))"
  using assms by (simp_all add: start_effect_def complete_effect_def holds_lease_def)

text \<open>
  The calls of \<open>record_effect\<close> and \<open>start_effect\<close> check the lease and write in separate statements, so a
  write can follow the end of the attempt when its check preceded it. The statements of such calls are
  steps like all others, which bounds what they can still do.
\<close>

lemma recovered_effect_ids:
  "map eff_effect_id (db_effects (snd (recover_expired_attempts now db))) = map eff_effect_id (db_effects db)"
proof -
  have "map eff_effect_id (db_effects (lose_attempt now x db)) = map eff_effect_id (db_effects db)" for x db
    by (auto simp: lose_attempt_def case_prod_beta Let_def intro!: sql_update_keeps)
  then have "map eff_effect_id (db_effects (fold (lose_attempt now) xs db)) = map eff_effect_id (db_effects db)" for xs
    by (induction xs arbitrary: db) auto
  then show ?thesis by (simp add: recover_expired_attempts_def Let_def)
qed

lemma completed_effect_ids:
  "map eff_effect_id (db_effects (snd (complete_effect i token out now db))) = map eff_effect_id (db_effects db)"
  by (auto simp: complete_effect_def Let_def with_outcome_def intro!: sql_update_keeps split: option.splits)

lemma other_effects:
  "insert_run r db = Some db' \<Longrightarrow> db_effects db' = db_effects db"
  "insert_scope sc db = Some db' \<Longrightarrow> db_effects db' = db_effects db"
  "db_effects (requeue_stmt i now db) = db_effects db" "db_effects (renew_stmt i token now ttl db) = db_effects db"
  "db_effects (finish_stmt i token s now err db) = db_effects db" "db_effects (set_run_status i rs now db) = db_effects db"
  "db_effects (snd (claim_attempt uuid run worker now ttl db)) = db_effects db"
  "db_effects (snd (record_audit au db)) = db_effects db" "db_effects (snd (register_resource res db)) = db_effects db"
  "db_effects (snd (register_artifact ar now db)) = db_effects db"
  by (auto simp: insert_run_def insert_scope_def requeue_stmt_def renew_stmt_def finish_stmt_def set_run_status_def
      claim_attempt_def insert_attempt_def record_audit_def register_resource_def register_artifact_def Let_def
      split: sum.splits option.splits if_splits)

lemma step_new_effect:
  assumes "control_step db db'" "f \<in> set (db_effects db')" "eff_effect_id f \<notin> eff_effect_id ` set (db_effects db)"
  shows "eff_status f = EffectPlanned"
  using assms(1)
proof (cases rule: control_step.cases)
  case (step_insert_effect e a)
  then show ?thesis using assms(2,3) by (auto simp: insert_effect_def sql_insert_Some split: if_splits)
next
  case (step_recover now)
  then show ?thesis using assms(2,3) recovered_effect_ids by (metis image_eqI image_set)
next
  case (step_complete_effect i token out now)
  then show ?thesis using assms(2,3) completed_effect_ids by (metis image_eqI image_set)
next
  case (step_start_effect i token now)
  then show ?thesis using assms(2,3) by (auto simp: start_stmt_def sql_update_set split: if_splits)
next
  case (step_reconcile i out now)
  then show ?thesis
    using assms(2,3) by (auto simp: reconcile_stmt_def sql_update_set with_outcome_def split: if_splits)
qed (use assms(2,3) in \<open>auto simp: other_effects\<close>)

text \<open>What becomes of the effects of an attempt that is finished in \<open>db\<close>.\<close>

definition after_loss :: "control_db \<Rightarrow> effect_record \<Rightarrow> bool" where
  "after_loss db f \<longleftrightarrow>
     (\<exists>e \<in> set (db_effects db). effect_evolves (db_attempts db) e f) \<or>
     eff_effect_id f \<notin> eff_effect_id ` set (db_effects db) \<and> effect_open (eff_status f)"

lemma after_loss_cases:
  assumes "a \<in> set (db_attempts db)" "\<not> attempt_active (att_status a)" "eff_attempt_id f = att_attempt_id a" "after_loss db f"
  shows "(\<exists>e \<in> set (db_effects db). eff_effect_id e = eff_effect_id f
      \<and> (f = e \<or> effect_open (eff_status e) \<and> effect_open (eff_status f)
           \<or> eff_status e = EffectUnknown \<and> eff_status f = EffectReconciled))
    \<or> eff_effect_id f \<notin> eff_effect_id ` set (db_effects db) \<and> effect_open (eff_status f)"
  using assms(4) unfolding after_loss_def
proof (elim disjE bexE conjE)
  fix e
  assume e: "e \<in> set (db_effects db)" "effect_evolves (db_attempts db) e f"
  then have "f = e \<or> effect_open (eff_status e) \<and> effect_open (eff_status f)
      \<or> eff_status e = EffectUnknown \<and> eff_status f = EffectReconciled" "eff_effect_id e = eff_effect_id f"
    using assms(1-3) by (cases "eff_status e"; auto simp: effect_evolves_def)+
  with e(1) show ?thesis by blast
qed simp

lemma step_effect_source:
  assumes "control_wf db" "control_step db db'" "f \<in> set (db_effects db')" "eff_effect_id f \<in> eff_effect_id ` set (db_effects db)"
  shows "\<exists>e \<in> set (db_effects db). effect_evolves (db_attempts db) e f"
proof -
  have ok: "control_wf db' \<and> control_adv db db'" using control_step_ok assms(1,2) by blast
  obtain e where e: "e \<in> set (db_effects db)" "eff_effect_id e = eff_effect_id f" using assms(4) by auto
  then obtain f' where f': "f' \<in> set (db_effects db')" "effect_evolves (db_attempts db) e f'"
    using ok by (auto simp: control_adv_def)
  then have "eff_effect_id f' = eff_effect_id f" using e by (simp add: effect_evolves_def)
  then have "f' = f" using ok f'(1) assms(3)
    by (auto simp: control_wf_def effects_ok_def distinct_map dest: inj_onD)
  with e f' show ?thesis by blast
qed

lemma steps_after_loss:
  assumes "control_step\<^sup>*\<^sup>* db db'" "control_wf db" "a \<in> set (db_attempts db)" "\<not> attempt_active (att_status a)"
    and "f \<in> set (db_effects db')" "eff_attempt_id f = att_attempt_id a"
  shows "after_loss db f"
  using assms
proof (induction arbitrary: f rule: rtranclp_induct)
  case base
  then show ?case unfolding after_loss_def using effect_evolves_refl by blast
next
  case (step db1 db2)
  have wf: "control_wf db1" and adv: "control_adv db db1"
    using control.steps_inv [OF step.hyps(1)] control.steps_adv [OF step.hyps(1)] step.prems(1) by blast+
  show ?case
  proof (cases "eff_effect_id f \<in> eff_effect_id ` set (db_effects db1)")
    case True
    obtain e where e: "e \<in> set (db_effects db1)" "effect_evolves (db_attempts db1) e f"
      using step_effect_source [OF wf step.hyps(2) step.prems(4) True] by blast
    have same: "eff_attempt_id e = att_attempt_id a" "eff_effect_id e = eff_effect_id f"
      using e(2) step.prems(5) by (simp_all add: effect_evolves_def)
    have a: "a \<in> set (db_attempts db1)" by (rule adv_attempt [OF adv step.prems(2,3)])
    have att: "\<forall>a \<in> set (db_attempts db). \<exists>b \<in> set (db_attempts db1). attempt_evolves a b"
      using adv by (simp add: control_adv_def)
    have "after_loss db e" using step.IH [OF step.prems(1-3) e(1) same(1)] .
    then show ?thesis
    proof (unfold after_loss_def, elim disjE bexE conjE)
      fix e0
      assume "e0 \<in> set (db_effects db)" "effect_evolves (db_attempts db) e0 e"
      with effect_evolves_trans [OF _ e(2) att]
      show "(\<exists>e \<in> set (db_effects db). effect_evolves (db_attempts db) e f) \<or>
        eff_effect_id f \<notin> eff_effect_id ` set (db_effects db) \<and> effect_open (eff_status f)" by blast
    next
      assume "eff_effect_id e \<notin> eff_effect_id ` set (db_effects db)" "effect_open (eff_status e)"
      with e(2) a same step.prems(3)
      show "(\<exists>e \<in> set (db_effects db). effect_evolves (db_attempts db) e f) \<or>
        eff_effect_id f \<notin> eff_effect_id ` set (db_effects db) \<and> effect_open (eff_status f)"
        by (auto simp: effect_evolves_def)
    qed
  next
    case False
    have "eff_status f = EffectPlanned" by (rule step_new_effect [OF step.hyps(2) step.prems(4) False])
    moreover have "eff_effect_id f \<notin> eff_effect_id ` set (db_effects db)"
      using False adv by (auto simp: control_adv_def effect_evolves_def image_iff) metis
    ultimately show ?thesis by (simp add: after_loss_def)
  qed
qed

text \<open>
  C14. A lost lease stays lost. Once an attempt is finished, then in every later database, whatever other
  callers do, its row is unchanged. A call of its holder that begins then is refused: renewals,
  completions, new effects, starts and completions of its effects all leave the database as it is, and
  each of them is an error, except the repetition of a completion whose outcome is already recorded.
  A call that had checked the lease before the attempt ended may still write, but no more than this: an
  effect of the attempt in a later database is one it had, unchanged when it was settled or reconciled,
  still planned or started when it was so, unknown or reconciled when it was unknown; or it is a late
  one that is planned or started. None of them is ever settled by the holder.
\<close>

theorem lost_lease_inert:
  assumes "control_reachable db" "a \<in> set (db_attempts db)" "\<not> attempt_active (att_status a)" "control_step\<^sup>*\<^sup>* db db'"
  shows "load_attempt_locked db' (att_attempt_id a) = Some a
     \<and> renew_attempt (att_attempt_id a) token now ttl db' = (Inl (LeaseLost (att_attempt_id a)), db')
     \<and> (\<exists>e. complete_attempt (att_attempt_id a) token s now err db' = (Inl e, db'))
     \<and> (ne_attempt_id n = att_attempt_id a \<longrightarrow> (\<exists>e. record_effect uuid n now db' = (Inl e, db')))
     \<and> (\<forall>f. load_effect_locked db' i = Some f \<and> eff_attempt_id f = att_attempt_id a
          \<longrightarrow> start_effect i token now db' = (Inl (LeaseLost (att_attempt_id a)), db')
            \<and> (\<exists>r. complete_effect i token out now db' = (r, db')
                 \<and> (r = Inr f \<and> effect_settled (eff_status f) \<and> effect_matches_outcome f out \<or> (\<exists>e. r = Inl e))))
     \<and> (\<forall>f \<in> set (db_effects db'). eff_attempt_id f = att_attempt_id a
          \<longrightarrow> (\<exists>e \<in> set (db_effects db). eff_effect_id e = eff_effect_id f
                \<and> (f = e \<or> effect_open (eff_status e) \<and> effect_open (eff_status f)
                     \<or> eff_status e = EffectUnknown \<and> eff_status f = EffectReconciled))
            \<or> eff_effect_id f \<notin> eff_effect_id ` set (db_effects db) \<and> effect_open (eff_status f))"
proof -
  have wf: "control_wf db'" using assms(1,4) reachable_steps reachable_wf by blast
  have adv: "control_adv db db'" using control.steps_adv [OF assms(4)] reachable_wf [OF assms(1)] by blast
  have a: "a \<in> set (db_attempts db')" using adv_attempt [OF adv assms(2,3)] .
  then have load: "load_attempt_locked db' (att_attempt_id a) = Some a" using load_attempt_iff [OF wf] by simp
  note dead = dead_lease [OF wf a assms(3)]
  have same: "finish_stmt (att_attempt_id a) token s now err db' = db'" "renew_stmt (att_attempt_id a) token now ttl db' = db'"
    by (simp_all add: finish_stmt_def renew_stmt_def sql_update_none [OF dead])
  have no: "\<not> holds_lease t now a" for t using assms(3) by (simp add: holds_lease_def)
  have "renew_attempt (att_attempt_id a) token now ttl db' = (Inl (LeaseLost (att_attempt_id a)), db')"
    by (simp add: renew_attempt_def dead same)
  moreover have "\<exists>e. complete_attempt (att_attempt_id a) token s now err db' = (Inl e, db')"
    by (simp add: complete_attempt_def dead same Let_def)
  moreover have "\<exists>e. record_effect uuid n now db' = (Inl e, db')" if "ne_attempt_id n = att_attempt_id a"
    using load no by (simp add: record_effect_def that split: sum.splits)
  moreover have "start_effect i token now db' = (Inl (LeaseLost (att_attempt_id a)), db')
      \<and> (\<exists>r. complete_effect i token out now db' = (r, db')
           \<and> (r = Inr f \<and> effect_settled (eff_status f) \<and> effect_matches_outcome f out \<or> (\<exists>e. r = Inl e)))"
    if "load_effect_locked db' i = Some f" "eff_attempt_id f = att_attempt_id a" for f
    using dead_effect [OF that(1) _ assms(3)] load that(2) by simp
  moreover have "(\<exists>e \<in> set (db_effects db). eff_effect_id e = eff_effect_id f
                \<and> (f = e \<or> effect_open (eff_status e) \<and> effect_open (eff_status f)
                     \<or> eff_status e = EffectUnknown \<and> eff_status f = EffectReconciled))
            \<or> eff_effect_id f \<notin> eff_effect_id ` set (db_effects db) \<and> effect_open (eff_status f)"
    if "f \<in> set (db_effects db')" "eff_attempt_id f = att_attempt_id a" for f
    using steps_after_loss [OF assms(4) reachable_wf [OF assms(1)] assms(2,3) that] after_loss_cases [OF assms(2,3) that(2)]
    by blast
  ultimately show ?thesis using load by blast
qed

text \<open>
  C39. An effect that is still planned or started when its attempt ends without a recovery stays so for good:
  no later call settles it, since completions need the lease and reconciliation only accepts effects
  in the state \<open>unknown\<close>, which recovery gives to effects of live attempts alone.
\<close>

theorem open_effect_outlives_attempt:
  assumes "control_reachable db" "e \<in> set (db_effects db)" "effect_open (eff_status e)"
    and "a \<in> set (db_attempts db)" "att_attempt_id a = eff_attempt_id e" "\<not> attempt_active (att_status a)"
    and "control_step\<^sup>*\<^sup>* db db'"
  shows "\<exists>f. load_effect_locked db' (eff_effect_id e) = Some f \<and> effect_open (eff_status f)
     \<and> \<not> is_ok (fst (reconcile_effect (eff_effect_id e) out now db'))
     \<and> \<not> is_ok (fst (complete_effect (eff_effect_id e) token out now db'))"
proof -
  have wf: "control_wf db'" using assms(1,7) reachable_steps reachable_wf by blast
  have adv: "control_adv db db'" using control.steps_adv [OF assms(7)] reachable_wf [OF assms(1)] by blast
  obtain f where f: "f \<in> set (db_effects db')" "effect_evolves (db_attempts db) e f"
    using adv assms(2) by (auto simp: control_adv_def)
  then have opn: "effect_open (eff_status f)" and ids: "eff_effect_id f = eff_effect_id e" "eff_attempt_id f = eff_attempt_id e"
    using assms(3-6) by (auto simp: effect_evolves_def)
  have load: "load_effect_locked db' (eff_effect_id e) = Some f" using load_effect_iff [OF wf] f(1) ids by simp
  have "\<not> reconcile_cond (eff_effect_id e) g" if "g \<in> set (db_effects db')" for g
  proof
    assume "reconcile_cond (eff_effect_id e) g"
    then have "load_effect_locked db' (eff_effect_id e) = Some g" "eff_status g = EffectUnknown"
      using load_effect_iff [OF wf] that by (simp_all add: reconcile_cond_def)
    then show False using load opn by simp
  qed
  then have "sql_changed (reconcile_cond (eff_effect_id e)) (db_effects db') = 0"
    by (simp add: sql_changed_def filter_empty_conv)
  then have "\<not> is_ok (fst (reconcile_effect (eff_effect_id e) out now db'))" by (simp add: reconcile_effect_def Let_def)
  moreover have "\<not> is_ok (fst (complete_effect (eff_effect_id e) token out now db'))"
  proof -
    have "\<not> effect_settled (eff_status f)" using opn by (cases "eff_status f") simp_all
    moreover have "load_attempt_locked db' (eff_attempt_id f) = Some a"
      using adv_attempt [OF adv assms(4,6)] load_attempt_iff [OF wf] assms(5) ids by simp
    ultimately show ?thesis using dead_effect(2) [OF load _ assms(6), of token out now] by auto
  qed
  ultimately show ?thesis using load opn by blast
qed

section \<open>Recovery\<close>

lemma uint_u32_of_int: "0 \<le> i \<Longrightarrow> i < 2 ^ 32 \<Longrightarrow> uint (word_of_int i :: u32) = i"
  by (simp add: uint_word_of_int)

lemma claim_succeeds:
  assumes wf: "control_wf db" and run: "get_run db run = Some r" "\<not> run_terminal (rn_status r)"
    and idle: "\<forall>a \<in> set (attempts_of db run). \<not> attempt_active (att_status a)"
    and worker: "is_ok (validate_control_id worker ''worker_id'')"
    and fresh: "\<forall>a \<in> set (db_attempts db). att_attempt_id a \<noteq> uuid"
    and few: "length (attempts_of db run) < 2 ^ 32 - 1"
  shows "\<exists>l. fst (claim_attempt uuid run worker now ttl db) = Inr l"
proof -
  let ?gs = "map (\<lambda>a. sint (att_lease_generation a)) (attempts_of db run)"
  have ok: "attempts_ok (db_attempts db)" "numbers_ok (db_attempts db)" using wf by (simp_all add: control_wf_def)
  have gen: "sint (att_lease_generation a) \<le> int (length (attempts_of db run))" if "a \<in> set (attempts_of db run)" for a
    using ok(2) that by (auto simp: numbers_ok_def attempts_of_def)
  then have "sql_max ?gs \<le> int (length (attempts_of db run))" using sql_max_cases [of ?gs] by auto
  then have g: "sql_succ (sql_max ?gs) = Some (sql_max ?gs + 1)" and small: "sql_max ?gs + 1 < 2 ^ 32"
    using few by (simp_all add: sql_succ_def)
  let ?n = "sql_max (map (\<lambda>a. uint (att_number a)) (attempts_of db run)) + 1"
  have n: "?n = sql_max ?gs + 1" by (rule next_number(2) [OF ok g small])
  have pos: "0 < sql_max ?gs + 1" using next_generation(1,3) [OF ok(1) g] by simp
  have "att_number a \<noteq> word_of_int ?n" if a: "a \<in> set (attempts_of db run)" for a
  proof -
    have le: "sint (att_lease_generation a) \<le> sql_max ?gs" using a by (intro sql_max_bound) simp
    then have "uint (att_number a) = sint (att_lease_generation a)"
      using ok(2) a small by (auto simp: numbers_ok_def attempts_of_def)
    moreover have "uint (word_of_int ?n :: u32) = sql_max ?gs + 1"
      unfolding n using small pos by (intro uint_u32_of_int) simp_all
    ultimately show ?thesis using le by auto
  qed
  then have ins: "insert_attempt (claimed_row uuid run worker now ttl (word_of_int ?n) token) db
      = Some (db\<lparr>db_attempts := db_attempts db @ [claimed_row uuid run worker now ttl (word_of_int ?n) token]\<rparr>)" for token
    using fresh run(1) by (auto simp: insert_attempt_def sql_insert_def claimed_row_def attempts_of_def)
  obtain u where "validate_control_id worker ''worker_id'' = Inr u" using worker by (auto simp: is_ok_iff)
  then show ?thesis
    using run idle g ins [unfolded claimed_row_def] unfolding claim_attempt_def Let_def by auto
qed

lemma recover_attempts:
  assumes wf: "control_wf db"
  shows "db_attempts (snd (recover_expired_attempts now db)) = sql_update (lease_expired now) (lost_row now) (db_attempts db)"
proof -
  have ids: "distinct (map att_attempt_id (db_attempts db))" using wf by (simp add: control_wf_def attempts_ok_def)
  have "(att_attempt_id a \<in> fst ` set (expired_attempts now db) \<and> attempt_active (att_status a)) = lease_expired now a"
    if "a \<in> set (db_attempts db)" for a
    using expired_id [OF ids that] by (auto simp: lease_expired_def)
  then show ?thesis unfolding recover_all lose_all_def by (simp add: sql_update_def)
qed

lemma recover_run:
  assumes "get_run db i = Some r"
  shows "\<exists>q. get_run (snd (recover_expired_attempts now db)) i = Some q
    \<and> rn_status q = (if rn_status r = RunRunning \<and> rn_status q \<noteq> RunRunning then RunQueued else rn_status r)"
  using assms unfolding recover_all lose_all_def get_run_def
  by (auto simp: find_sql_update [where k = rn_run_id] queued_row_def)

lemma recover_effect:
  assumes wf: "control_wf db" and e: "e \<in> set (db_effects db)" "effect_open (eff_status e)"
    and a: "a \<in> set (db_attempts db)" "att_attempt_id a = eff_attempt_id e" "lease_expired now a"
  shows "load_effect_locked (snd (recover_expired_attempts now db)) (eff_effect_id e) = Some (unknown_row now e)"
proof -
  have "eff_attempt_id e \<in> fst ` set (expired_attempts now db)"
    using a by (force simp: expired_attempts_def)
  moreover have "load_effect_locked db (eff_effect_id e) = Some e" using load_effect_iff [OF wf] e(1) by simp
  ultimately show ?thesis
    using e(2) unfolding recover_all lose_all_def load_effect_locked_def
    by (simp add: find_sql_update [where k = eff_effect_id] unknown_row_def)
qed

lemma reconcile_unknown:
  assumes wf: "control_wf db" and e: "load_effect_locked db i = Some e" "eff_status e = EffectUnknown"
    and out: "eo_status out \<in> {EffectSucceeded, EffectFailed, EffectReconciled}"
  shows "fst (reconcile_effect i out now db) = Inr (with_outcome EffectReconciled out now e)"
proof -
  have mem: "e \<in> set (db_effects db)" "eff_effect_id e = i" using load_effect_iff [OF wf] e(1) by auto
  have "sql_changed (reconcile_cond i) (db_effects db) = 1"
    by (rule sql_changed_key [of eff_effect_id _ e])
       (use wf mem e(2) in \<open>auto simp: reconcile_cond_def control_wf_def effects_ok_def\<close>)
  moreover have "load_effect_locked (reconcile_stmt i out now db) i = Some (with_outcome EffectReconciled out now e)"
    using e mem unfolding reconcile_stmt_def load_effect_locked_def
    by (simp add: find_sql_update [where k = eff_effect_id] with_outcome_def reconcile_cond_def)
  ultimately show ?thesis using out by (simp add: reconcile_effect_def Let_def)
qed

text \<open>
  C23. Recovery restores progress. When the leases of a run's live attempts have expired and the run is not
  terminal, then after \<open>recover_expired_attempts\<close> any worker with a valid name claims the run, with a
  token above every earlier one; and every effect the lost attempts had not settled is unknown, with
  the error it had, and can be reconciled.
\<close>

theorem recovery_restores_progress:
  assumes "control_reachable db" "get_run db run = Some r" "\<not> run_terminal (rn_status r)"
    and "\<forall>a \<in> set (attempts_of db run). attempt_active (att_status a) \<longrightarrow> lease_expired now a"
    and "is_ok (validate_control_id worker ''worker_id'')" "\<forall>a \<in> set (db_attempts db). att_attempt_id a \<noteq> uuid"
    and "length (attempts_of db run) < 2 ^ 32 - 1"
  defines "db' \<equiv> snd (recover_expired_attempts now db)"
  shows "(\<exists>l. fst (claim_attempt uuid run worker later ttl db') = Inr l
        \<and> (\<forall>a \<in> set (attempts_of db run). sint (att_lease_generation a) < sint (al_fencing_token l)))
     \<and> (\<forall>e \<in> set (db_effects db). \<forall>a \<in> set (db_attempts db). \<forall>out.
          att_attempt_id a = eff_attempt_id e \<and> lease_expired now a \<and> effect_open (eff_status e)
          \<and> eo_status out \<in> {EffectSucceeded, EffectFailed, EffectReconciled}
          \<longrightarrow> (\<exists>f. load_effect_locked db' (eff_effect_id e) = Some f \<and> eff_status f = EffectUnknown
                \<and> (\<exists>g. fst (reconcile_effect (eff_effect_id e) out later db') = Inr g \<and> eff_status g = EffectReconciled)))"
proof -
  have wf: "control_wf db" by (rule reachable_wf [OF assms(1)])
  have wf': "control_wf db'" unfolding db'_def using recover_step [OF wf] by blast
  have att: "attempts_of db' run = map (\<lambda>a. if lease_expired now a then lost_row now a else a) (attempts_of db run)"
    unfolding attempts_of_def db'_def recover_attempts [OF wf] sql_update_def
    by (simp add: filter_map comp_def lost_row_def if_distrib cong: if_cong)
  obtain q where q: "get_run db' run = Some q" "\<not> run_terminal (rn_status q)"
    using recover_run [OF assms(2), of now] assms(3) unfolding db'_def by (metis run_terminal.simps(5))
  have "\<forall>a \<in> set (attempts_of db' run). \<not> attempt_active (att_status a)"
    unfolding att using assms(4) by (auto simp: lost_row_def)
  moreover have "\<forall>a \<in> set (db_attempts db'). att_attempt_id a \<noteq> uuid"
    unfolding db'_def recover_attempts [OF wf] using assms(6) by (auto simp: sql_update_def lost_row_def)
  moreover have "length (attempts_of db' run) < 2 ^ 32 - 1" using assms(7) att by simp
  ultimately obtain l where l: "fst (claim_attempt uuid run worker later ttl db') = Inr l"
    using claim_succeeds [OF wf' q _ assms(5)] by blast
  have "sint (att_lease_generation a) < sint (al_fencing_token l)" if a: "a \<in> set (attempts_of db run)" for a
  proof (cases rule: claim_cases [of uuid run worker later ttl db'])
    case failed
    then show ?thesis using l by simp
  next
    case (claimed c g n)
    let ?b = "if lease_expired now a then lost_row now a else a"
    have "?b \<in> set (attempts_of db' run)" unfolding att using a by auto
    then have "sint (att_lease_generation ?b) < sint (word_of_int g :: u64)"
      using next_generation(2) [OF _ claimed(5)] wf' by (auto simp: control_wf_def attempts_of_def)
    moreover have "al_fencing_token l = word_of_int g" using l unfolding claimed(1) by auto
    ultimately show ?thesis by (auto simp: lost_row_def split: if_splits)
  qed
  moreover have "load_effect_locked db' (eff_effect_id e) = Some (unknown_row now e)
      \<and> fst (reconcile_effect (eff_effect_id e) out later db') = Inr (with_outcome EffectReconciled out later (unknown_row now e))"
    if "e \<in> set (db_effects db)" "a \<in> set (db_attempts db)" "att_attempt_id a = eff_attempt_id e" "lease_expired now a"
      "effect_open (eff_status e)" "eo_status out \<in> {EffectSucceeded, EffectFailed, EffectReconciled}" for e a out
    using recover_effect [OF wf that(1,5,2,3,4)] reconcile_unknown [OF wf' _ _ that(6)]
    unfolding db'_def by (simp add: unknown_row_def)
  ultimately show ?thesis using l by (fastforce simp: unknown_row_def with_outcome_def)
qed

end
