(* ===== verification/Control_Effects.thy ===== *)
theory Control_Effects
  imports Control_Leases
begin

text \<open>
  Effects are recorded and settled once under retries, the walk up the scopes of \<open>scope_allows\<close> ends with
  the right answer, and the two statements of \<open>complete_attempt\<close> leave a window for another process.
\<close>

section \<open>Effects\<close>

lemma key_unique:
  assumes "control_wf db" "e \<in> set (db_effects db)"
  shows "find (\<lambda>q. eff_idempotency_key q = eff_idempotency_key e) (db_effects db) = Some e"
  by (rule find_key) (use assms in \<open>auto simp: control_wf_def effects_ok_def\<close>)

lemma record_effect_row:
  assumes wf: "control_wf db" and ok: "fst (record_effect uuid n now db) = Inr e"
  shows "e \<in> set (db_effects (snd (record_effect uuid n now db))) \<and> eff_idempotency_key e = ne_idempotency_key n
    \<and> eff_run_id e = ne_run_id n \<and> eff_attempt_id e = ne_attempt_id n \<and> eff_operation_digest e = ne_operation_digest n"
proof -
  consider q where "find (\<lambda>q. eff_idempotency_key q = ne_idempotency_key n) (db_effects db) = Some q"
      "load_effect_locked db (eff_effect_id q) = Some e" "snd (record_effect uuid n now db) = db"
      "eff_run_id e = ne_run_id n" "eff_attempt_id e = ne_attempt_id n" "eff_operation_digest e = ne_operation_digest n"
    | "e = planned_effect uuid n now" "insert_effect e db = Some (snd (record_effect uuid n now db))"
    using ok unfolding record_effect_def Let_def
    by (fastforce simp: planned_effect_def split: sum.splits option.splits if_splits)
  then show ?thesis
  proof cases
    case (1 q)
    have q: "q \<in> set (db_effects db) \<and> eff_idempotency_key q = ne_idempotency_key n"
      by (rule find_key_Some [OF 1(1)])
    then have "q = e" using 1(2) load_effect_iff [OF wf, of "eff_effect_id q" q] by simp
    then show ?thesis using 1 q by simp
  next
    case 2
    then have "snd (record_effect uuid n now db) = db\<lparr>db_effects := db_effects db @ [e]\<rparr>"
      by (auto simp: insert_effect_def sql_insert_Some split: if_splits)
    then show ?thesis using 2(1) by (simp add: planned_effect_def)
  qed
qed

text \<open>A record with a known key inserts nothing.\<close>

lemma record_effect_known:
  assumes wf: "control_wf db" and e: "e \<in> set (db_effects db)" "eff_idempotency_key e = ne_idempotency_key n"
  shows "record_effect uuid n now db =
     (case validate_control_id (ne_idempotency_key n) ''idempotency_key'' of
        Inl x \<Rightarrow> (Inl x, db)
      | Inr _ \<Rightarrow> (case load_attempt_locked db (ne_attempt_id n) of
          None \<Rightarrow> (Inl (AttemptNotFound (ne_attempt_id n)), db)
        | Some a \<Rightarrow> if att_run_id a \<noteq> ne_run_id n \<or> \<not> holds_lease (ne_fencing_token n) now a
            then (Inl (LeaseLost (ne_attempt_id n)), db)
            else if eff_run_id e \<noteq> ne_run_id n \<or> eff_attempt_id e \<noteq> ne_attempt_id n
                 \<or> eff_operation_digest e \<noteq> ne_operation_digest n
            then (Inl (CtlInvalid ''idempotency key was reused for a different effect''), db)
            else (Inr e, db)))"
proof -
  have "find (\<lambda>q. eff_idempotency_key q = ne_idempotency_key n) (db_effects db) = Some e"
    using key_unique [OF wf e(1)] e(2) by simp
  moreover have "load_effect_locked db (eff_effect_id e) = Some e" using load_effect_iff [OF wf] e(1) by simp
  ultimately show ?thesis
    by (simp add: record_effect_def Let_def planned_effect_def split: sum.split option.split)
qed

text \<open>
  An effect is recorded once. After a successful \<open>record_effect\<close>, a repetition of the idempotency key at
  any later time, by any caller, inserts nothing: it returns the recorded effect when the caller
  holds the lease and names the same run, attempt and operation digest, and is an error otherwise.
\<close>

theorem effect_recorded_once:
  assumes "control_reachable db" "fst (record_effect uuid n now db) = Inr e"
    and "control_step\<^sup>*\<^sup>* (snd (record_effect uuid n now db)) db'" "ne_idempotency_key n' = ne_idempotency_key n"
  shows "\<exists>f. load_effect_locked db' (eff_effect_id e) = Some f
     \<and> snd (record_effect uuid' n' later db') = db'
     \<and> (\<forall>g. fst (record_effect uuid' n' later db') = Inr g \<longrightarrow> g = f \<and> ne_run_id n' = ne_run_id n
          \<and> ne_attempt_id n' = ne_attempt_id n \<and> ne_operation_digest n' = ne_operation_digest n)
     \<and> (\<forall>a. load_attempt_locked db' (ne_attempt_id n) = Some a \<and> att_run_id a = ne_run_id n
          \<and> holds_lease (ne_fencing_token n') later a \<and> is_ok (validate_control_id (ne_idempotency_key n) ''idempotency_key'')
          \<and> ne_run_id n' = ne_run_id n \<and> ne_attempt_id n' = ne_attempt_id n \<and> ne_operation_digest n' = ne_operation_digest n
          \<longrightarrow> fst (record_effect uuid' n' later db') = Inr f)"
proof -
  let ?db = "snd (record_effect uuid n now db)"
  have r: "control_reachable ?db" using assms(1) reachable_apply [of db "CoRecordEffect uuid n now"] by simp
  have wf: "control_wf db'" using reachable_wf reachable_steps [OF r assms(3)] by blast
  note row = record_effect_row [OF reachable_wf [OF assms(1)] assms(2)]
  obtain f where f: "f \<in> set (db_effects db')" "effect_evolves (db_attempts ?db) e f"
    using control.steps_adv [OF assms(3) reachable_wf [OF r]] row by (auto simp: control_adv_def)
  then have ids: "eff_effect_id f = eff_effect_id e" "eff_idempotency_key f = ne_idempotency_key n'"
      "eff_run_id f = ne_run_id n" "eff_attempt_id f = ne_attempt_id n" "eff_operation_digest f = ne_operation_digest n"
    using row assms(4) by (simp_all add: effect_evolves_def)
  have "load_effect_locked db' (eff_effect_id e) = Some f" using load_effect_iff [OF wf] f(1) ids(1) by simp
  moreover note known = record_effect_known [OF wf f(1) ids(2), of uuid' later]
  moreover have "snd (record_effect uuid' n' later db') = db'" unfolding known by (simp split: sum.split option.split)
  moreover have "g = f \<and> ne_run_id n' = ne_run_id n \<and> ne_attempt_id n' = ne_attempt_id n
      \<and> ne_operation_digest n' = ne_operation_digest n" if "fst (record_effect uuid' n' later db') = Inr g" for g
    using that unfolding known by (auto simp: ids split: sum.splits option.splits if_splits)
  moreover have "fst (record_effect uuid' n' later db') = Inr f"
    if "load_attempt_locked db' (ne_attempt_id n) = Some a" "att_run_id a = ne_run_id n"
      "holds_lease (ne_fencing_token n') later a" "is_ok (validate_control_id (ne_idempotency_key n) ''idempotency_key'')"
      "ne_run_id n' = ne_run_id n" "ne_attempt_id n' = ne_attempt_id n" "ne_operation_digest n' = ne_operation_digest n" for a
    using that unfolding known by (auto simp: ids assms(4) is_ok_iff)
  ultimately show ?thesis by blast
qed

lemma complete_effect_row:
  assumes ok: "fst (complete_effect i token out now db) = Inr e"
  shows "load_effect_locked (snd (complete_effect i token out now db)) i = Some e \<and> eff_fencing_token e = token
    \<and> effect_settled (eo_status out) \<and> effect_matches_outcome e out"
proof -
  have out: "effect_settled (eo_status out)" using ok by (simp add: complete_effect_def split: if_splits)
  then obtain f where f: "load_effect_locked db i = Some f" "eff_fencing_token f = token"
    using ok by (auto simp: complete_effect_def split: option.splits if_splits)
  show ?thesis
  proof (cases "effect_settled (eff_status f)")
    case True
    then show ?thesis using ok out f by (simp add: complete_effect_def split: if_splits)
  next
    case False
    then have no: "\<not> effect_matches_outcome f out" using out by (auto simp: effect_matches_outcome_def)
    let ?db = "db\<lparr>db_effects := sql_update (complete_cond i token) (with_outcome (eo_status out) out now) (db_effects db)\<rparr>"
    have id: "eff_effect_id f = i" using f(1) find_key_Some unfolding load_effect_locked_def by fastforce
    obtain a where a: "load_attempt_locked db (eff_attempt_id f) = Some a"
      using ok out f False by (auto simp: complete_effect_def split: option.splits)
    have opn: "effect_open (eff_status f)" "snd (complete_effect i token out now db) = ?db" "load_effect_locked ?db i = Some e"
      using ok out f False no a by (auto simp: complete_effect_def Let_def split: option.splits if_splits)
    have "load_effect_locked ?db i = Some (with_outcome (eo_status out) out now f)"
      using f opn(1) id unfolding load_effect_locked_def
      by (simp add: find_sql_update [where k = eff_effect_id] with_outcome_def complete_cond_def)
    then show ?thesis using opn out f(2) by (auto simp: with_outcome_def effect_matches_outcome_def)
  qed
qed

text \<open>
  The outcome of an effect is final. After \<open>complete_effect\<close> succeeds, then at any later time the effect
  holds exactly that outcome; completing it again with the same token and outcome returns it and
  changes nothing, and any other completion or reconciliation of it is an error that changes nothing.
\<close>

theorem effect_outcome_final:
  assumes "control_reachable db" "fst (complete_effect i token out now db) = Inr e"
    and "control_step\<^sup>*\<^sup>* (snd (complete_effect i token out now db)) db'"
  shows "effect_matches_outcome e out \<and> load_effect_locked db' i = Some e
     \<and> complete_effect i token out later db' = (Inr e, db')
     \<and> (\<exists>err. reconcile_effect i out' later db' = (Inl err, db'))
     \<and> (out' \<noteq> out \<or> token' \<noteq> token \<longrightarrow> (\<exists>err. complete_effect i token' out' later db' = (Inl err, db')))"
proof -
  let ?db = "snd (complete_effect i token out now db)"
  have wf: "control_wf db" by (rule reachable_wf [OF assms(1)])
  have r: "control_reachable ?db" using assms(1) reachable_apply [of db "CoCompleteEffect i token out now"] by simp
  have wf': "control_wf db'" using reachable_wf reachable_steps [OF r assms(3)] by blast
  have e: "load_effect_locked ?db i = Some e" "eff_fencing_token e = token" "effect_settled (eo_status out)"
      "effect_matches_outcome e out"
    using complete_effect_row [OF assms(2)] by simp_all
  have settled: "effect_settled (eff_status e)" using e(3,4) by (simp add: effect_matches_outcome_def)
  have mem: "e \<in> set (db_effects ?db)" "eff_effect_id e = i" using load_effect_iff [OF reachable_wf [OF r]] e(1) by auto
  obtain f where f: "f \<in> set (db_effects db')" "effect_evolves (db_attempts ?db) e f"
    using control.steps_adv [OF assms(3) reachable_wf [OF r]] mem(1) by (auto simp: control_adv_def)
  then have "f = e" using settled by (simp add: effect_evolves_def)
  then have load: "load_effect_locked db' i = Some e" using load_effect_iff [OF wf'] f(1) mem(2) by simp
  have "sql_changed (reconcile_cond i) (db_effects db') = 0"
  proof -
    have "\<not> reconcile_cond i g" if "g \<in> set (db_effects db')" for g
    proof
      assume "reconcile_cond i g"
      then have "load_effect_locked db' i = Some g" "eff_status g = EffectUnknown"
        using load_effect_iff [OF wf'] that by (simp_all add: reconcile_cond_def)
      then show False using load settled by simp
    qed
    then show ?thesis by (simp add: sql_changed_def filter_empty_conv)
  qed
  then have "\<exists>err. reconcile_effect i out' later db' = (Inl err, db')"
    by (simp add: reconcile_effect_def Let_def reconcile_stmt_def sql_update_none)
  moreover have "complete_effect i token out later db' = (Inr e, db')"
    using load e settled by (simp add: complete_effect_def)
  moreover have "\<exists>err. complete_effect i token' out' later db' = (Inl err, db')" if "out' \<noteq> out \<or> token' \<noteq> token"
  proof -
    have "effect_matches_outcome e out' \<Longrightarrow> out' = out"
      using e(4) by (simp add: effect_matches_outcome_def)
    then show ?thesis using that load e(2) settled by (auto simp: complete_effect_def)
  qed
  ultimately show ?thesis using e(4) load by blast
qed

section \<open>Scopes\<close>

abbreviation scope_above :: "scope_ref list \<Rightarrow> (string \<times> string) set" where
  "scope_above t \<equiv> {(x, y). scope_parent t x = Some y}\<^sup>+"

lemma scope_parent_earlier:
  assumes "scopes_ok t" "k < length t" "scope_parent t (sr_scope_id (t ! k)) = Some p"
  shows "\<exists>j < k. sr_scope_id (t ! j) = p"
proof -
  have "find_scope t (sr_scope_id (t ! k)) = Some (t ! k)"
    using assms(1,2) find_key [of sr_scope_id t "t ! k"] by (simp add: find_scope_def scopes_ok_def)
  then have "sr_parent_scope_id (t ! k) = Some p" using assms(3) by (simp add: scope_parent_def)
  then show ?thesis using assms(1,2) unfolding scopes_ok_def by blast
qed

lemma above_unfold: "(x, y) \<in> scope_above t \<longleftrightarrow> (\<exists>p. scope_parent t x = Some p \<and> (p = y \<or> (p, y) \<in> scope_above t))"
proof
  assume "(x, y) \<in> scope_above t"
  then show "\<exists>p. scope_parent t x = Some p \<and> (p = y \<or> (p, y) \<in> scope_above t)"
    by (cases rule: converse_tranclE) auto
next
  assume "\<exists>p. scope_parent t x = Some p \<and> (p = y \<or> (p, y) \<in> scope_above t)"
  then show "(x, y) \<in> scope_above t" by (auto intro: trancl_into_trancl2)
qed

lemma climb_exact:
  assumes "scopes_ok t" "k < length t"
  shows "scope_climb t target (sr_scope_id (t ! k)) = Some ((sr_scope_id (t ! k), target) \<in> scope_above t)"
  using assms(2)
proof (induction k rule: less_induct)
  case (less k)
  show ?case
  proof (cases "scope_parent t (sr_scope_id (t ! k))")
    case None
    then show ?thesis by (subst scope_climb.simps) (simp add: above_unfold [of "sr_scope_id (t ! k)"])
  next
    case (Some p)
    then obtain j where "j < k" "sr_scope_id (t ! j) = p" using scope_parent_earlier [OF assms(1) less.prems] by blast
    then have "scope_climb t target p = Some ((p, target) \<in> scope_above t)" using less by force
    then show ?thesis using Some
      by (subst scope_climb.simps) (auto simp: above_unfold [of "sr_scope_id (t ! k)"])
  qed
qed

lemma climb_total:
  assumes "scopes_ok t"
  shows "scope_climb t target i = Some ((i, target) \<in> scope_above t)"
proof (cases "find_scope t i")
  case None
  then have "scope_parent t i = None" by (simp add: scope_parent_def)
  then show ?thesis by (subst scope_climb.simps) (simp add: above_unfold [of i])
next
  case (Some s)
  then obtain k where "k < length t" "sr_scope_id (t ! k) = i"
    unfolding find_scope_def using find_key_Some by (metis in_set_conv_nth)
  then show ?thesis using climb_exact [OF assms] by blast
qed

text \<open>
  C38. The scope check ends and is exact: in every reachable database the walk over parents returns, and a
  resource is visible exactly when its scope exists, belongs to the owner, has not expired, and is
  the consumer's own scope or an inherited one above it.
\<close>

theorem scope_allows_exact:
  assumes "control_reachable db"
  shows "scope_allows resource consumer owner now db = Some (\<exists>s. find_scope (db_scopes db) resource = Some s
     \<and> sr_owner_id s = owner \<and> (\<forall>v. sr_expires_at_ms s = Some v \<longrightarrow> now < v)
     \<and> (resource = consumer \<or> sr_inherited s \<and> (consumer, resource) \<in> scope_above (db_scopes db)))"
proof -
  have "scopes_ok (db_scopes db)" using reachable_wf [OF assms] by (simp add: control_wf_def)
  then show ?thesis
    by (auto simp: scope_allows_def climb_total not_le split: option.splits)
qed

section \<open>The window inside complete_attempt\<close>

text \<open>
  The two updates of \<open>complete_attempt\<close> are not one transaction. Between them the attempt is finished and its
  run still counts as running, so another process that claims the run then succeeds, and the second
  update makes the run terminal under the new live attempt.
\<close>

theorem completion_window:
  fixes ttl :: u64
  assumes "control_reachable db" "load_attempt_locked db i = Some a" "lease_live i token now a"
    and "get_run db (att_run_id a) = Some r" "\<not> run_terminal (rn_status r)"
    and "is_ok (validate_control_id worker ''worker_id'')" "\<forall>b \<in> set (db_attempts db). att_attempt_id b \<noteq> uuid"
    and "length (attempts_of db (att_run_id a)) < 2 ^ 32 - 1"
  defines "db2 \<equiv> snd (claim_attempt uuid (att_run_id a) worker now ttl (finish_stmt i token AttemptSucceeded now None db))"
  shows "\<exists>l. fst (claim_attempt uuid (att_run_id a) worker now ttl (finish_stmt i token AttemptSucceeded now None db)) = Inr l
     \<and> control_reachable (set_run_status (att_run_id a) RunSucceeded now db2)
     \<and> al_attempt l \<in> set (db_attempts (set_run_status (att_run_id a) RunSucceeded now db2))
     \<and> attempt_active (att_status (al_attempt l)) \<and> att_run_id (al_attempt l) = att_run_id a
     \<and> map_option rn_status (get_run (set_run_status (att_run_id a) RunSucceeded now db2) (att_run_id a)) = Some RunSucceeded"
proof -
  let ?run = "att_run_id a" and ?db1 = "finish_stmt i token AttemptSucceeded now None db"
  have wf: "control_wf db" by (rule reachable_wf [OF assms(1)])
  have fin: "control_reachable ?db1"
    using reachable_steps [OF assms(1)] control_step.step_finish [of AttemptSucceeded] by (metis attempt_active.simps(3) r_into_rtranclp)
  have a: "a \<in> set (db_attempts db)" "attempt_active (att_status a)" "att_attempt_id a = i"
    using assms(2,3) load_attempt_iff [OF wf] by (auto simp: lease_live_def)
  let ?u = "\<lambda>b. if lease_live i token now b then b\<lparr>att_status := AttemptSucceeded, att_finished_at_ms := Some now,
      att_lease_expires_at_ms := 0, att_error := None\<rparr> else b"
  have att: "db_attempts ?db1 = map ?u (db_attempts db)" by (simp add: finish_stmt_def sql_update_def)
  have of: "attempts_of ?db1 ?run = map ?u (attempts_of db ?run)"
    unfolding attempts_of_def att by (simp add: filter_map comp_def if_distrib cong: if_cong)
  have idle: "\<not> attempt_active (att_status (?u b))" if b: "b \<in> set (attempts_of db ?run)" for b
  proof (cases "b = a")
    case True
    then show ?thesis using assms(3) by simp
  next
    case False
    then have "\<not> attempt_active (att_status b)"
      using live_unique [of "db_attempts db" a b] b a wf by (auto simp: control_wf_def attempts_of_def)
    then show ?thesis by simp
  qed
  have run: "get_run ?db1 ?run = Some r" using assms(4) by (simp add: get_run_def finish_stmt_def)
  obtain l where l: "fst (claim_attempt uuid ?run worker now ttl ?db1) = Inr l"
  proof -
    have "\<forall>b \<in> set (attempts_of ?db1 ?run). \<not> attempt_active (att_status b)" unfolding of set_map using idle by blast
    moreover have "\<forall>b \<in> set (db_attempts ?db1). att_attempt_id b \<noteq> uuid" unfolding att using assms(7) by auto
    moreover have "length (attempts_of ?db1 ?run) < 2 ^ 32 - 1" unfolding of using assms(8) by simp
    ultimately show thesis using claim_succeeds [OF reachable_wf [OF fin] run assms(5) _ assms(6)] that by blast
  qed
  show ?thesis
  proof (cases rule: claim_cases [of uuid ?run worker now ttl ?db1])
    case failed
    then show ?thesis using l by simp
  next
    case (claimed q g n)
    have "control_reachable (set_run_status ?run RunSucceeded now db2)"
      unfolding db2_def using reachable_steps [OF fin] control_step.step_claim control_step.step_set_run_status
      by (metis (no_types) converse_rtranclp_into_rtranclp rtranclp.rtrancl_refl)
    moreover have "map_option rn_status (get_run (set_run_status ?run RunSucceeded now db2) ?run) = Some RunSucceeded"
      using run get_run_Some [OF run] unfolding db2_def claimed(1) get_run_def set_run_status_def
      by (simp add: find_sql_update [where k = rn_run_id])
    moreover have "al_attempt l = claimed_row uuid ?run worker now ttl n (word_of_int g)" using l unfolding claimed(1) by auto
    then have "al_attempt l \<in> set (db_attempts (set_run_status ?run RunSucceeded now db2))
        \<and> attempt_active (att_status (al_attempt l)) \<and> att_run_id (al_attempt l) = ?run"
      unfolding db2_def claimed(1) by (simp add: claimed_row_def set_run_status_def)
    ultimately show ?thesis using l by blast
  qed
qed

text \<open>
  A lease whose expiry saturates is written as \<open>-1\<close>: the database sees it expired at once and recovery
  takes it away, while the checks made in Rust still accept its holder.
\<close>

theorem saturated_lease_reads_expired:
  assumes "attempt_active (att_status a)" "att_lease_expires_at_ms a = lease_expiry now (- 1)" "now \<noteq> 0" "0 \<le> sint later"
  shows "lease_expired later a \<and> \<not> lease_live (att_attempt_id a) (att_lease_generation a) later a
    \<and> holds_lease (att_lease_generation a) later a"
proof -
  have top: "max (- 1) 1 = (- 1 :: u64)" by (simp add: max_def) (simp add: word_le_nat_alt unat_u64_max [THEN iffD2])
  have "0 < unat now" using assms(3) by (simp add: unat_gt_0)
  then have "unat now + unat (max (- 1) 1 :: u64) \<ge> 2 ^ 64"
    unfolding top by (simp add: unat_u64_max [THEN iffD2])
  then have "lease_expiry now (- 1) = - 1" by (simp add: lease_expiry_def saturating_add_def)
  then show ?thesis using assms by (simp add: lease_expired_def lease_live_def holds_lease_def)
qed

end
