(* ===== verification/Control_Examples.thy ===== *)
theory Control_Examples
  imports Control_Effects
begin

text \<open>
  A small control database on which the theorems of the previous theories are applied: a run that a
  worker has claimed, with one planned effect, under a workspace scope with a session scope below.
\<close>

definition sample_new_run :: new_run where
  "sample_new_run = \<lparr>nr_run_id = Some ''r'', nr_kind = KindInteractive, nr_workspace_id = None, nr_scope = None,
     nr_session_id = None, nr_parent_run_id = None, nr_policy_snapshot = None, nr_route_snapshot = None,
     nr_provenance = None, nr_desired_state = DesiredRun\<rparr>"

definition sample_new_effect :: new_effect where
  "sample_new_effect = \<lparr>ne_effect_id = Some ''e'', ne_run_id = ''r'', ne_attempt_id = ''a'', ne_fencing_token = 1,
     ne_capability = CapWorkspaceWrite, ne_tool = ''write'', ne_operation_digest = ''d'', ne_idempotency_key = ''k'',
     ne_scope = None, ne_provenance = None, ne_input_ref = None\<rparr>"

definition sample_outcome :: "effect_status \<Rightarrow> effect_outcome" where
  "sample_outcome s = \<lparr>eo_status = s, eo_output_ref = None, eo_mutation_ref = None, eo_external_ref = None, eo_error = None\<rparr>"

definition sample_scope :: "string \<Rightarrow> string option \<Rightarrow> scope_ref" where
  "sample_scope i p = \<lparr>sr_scope_id = i, sr_kind = ScopeSession, sr_parent_scope_id = p, sr_workspace_id = None,
     sr_owner_id = ''u'', sr_inherited = True, sr_expires_at_ms = None\<rparr>"

definition claimed_ops :: "control_op list" where
  "claimed_ops = [CoCreateRun ''x'' 5 sample_new_run, CoClaim ''a'' ''r'' ''w'' 10 100, CoRecordEffect ''y'' sample_new_effect 20,
     CoScope (sample_scope ''s1'' None), CoScope (sample_scope ''s2'' (Some ''s1''))]"

definition claimed_db :: control_db where
  "claimed_db = fold control_apply claimed_ops empty_db"

lemma claimed_reachable: "control_reachable claimed_db"
  unfolding claimed_db_def by (rule reachable_history)

lemma sample_expiry: "lease_expiry 10 100 = 110" "lease_expiry 200 100 = 300"
  by (simp_all add: lease_expiry_def max_def saturating_add_def word_le_nat_alt)

lemmas control_eval =
  create_run_def claim_attempt_def record_effect_def register_scope_def insert_run_def insert_attempt_def insert_effect_def
  insert_scope_def missing_parent_def validate_control_id_def ascii_alphanumeric_def get_run_def load_attempt_locked_def
  load_effect_locked_def attempts_of_def sql_insert_def sql_update_def sql_changed_def sql_max_def sql_succ_def
  find_scope_def sample_expiry holds_lease_def planned_effect_def set_run_status_def
  complete_attempt_def finish_stmt_def lease_live_def Let_def sample_new_run_def sample_new_effect_def sample_scope_def
  sample_outcome_def empty_db_def is_ok_def

definition sample_attempt :: attempt where
  "sample_attempt = \<lparr>att_attempt_id = ''a'', att_run_id = ''r'', att_number = 1, att_worker_id = ''w'',
     att_status = AttemptRunning, att_lease_generation = 1, att_lease_expires_at_ms = 110,
     att_last_heartbeat_at_ms = 10, att_started_at_ms = 10, att_finished_at_ms = None, att_error = None\<rparr>"

lemma claimed_attempts: "db_attempts claimed_db = [sample_attempt]"
  by (simp add: claimed_db_def claimed_ops_def control_eval sample_attempt_def)

lemma claimed_effects: "db_effects claimed_db = [planned_effect ''y'' sample_new_effect 20]"
  by (simp add: claimed_db_def claimed_ops_def control_eval)

lemma claimed_scopes: "db_scopes claimed_db = [sample_scope ''s1'' None, sample_scope ''s2'' (Some ''s1'')]"
  by (simp add: claimed_db_def claimed_ops_def control_eval)

lemma claimed_run: "\<exists>r. get_run claimed_db ''r'' = Some r \<and> rn_status r = RunRunning"
  by (simp add: claimed_db_def claimed_ops_def control_eval)

section \<open>Leases\<close>

text \<open>Witness of C10: the live attempt of the sample database keeps its run.\<close>

theorem one_live_lease_witness:
  "\<not> is_ok (fst (claim_attempt ''b'' ''r'' ''w2'' 30 100 claimed_db))"
proof
  assume "is_ok (fst (claim_attempt ''b'' ''r'' ''w2'' 30 100 claimed_db))"
  then obtain l where "fst (claim_attempt ''b'' ''r'' ''w2'' 30 100 claimed_db) = Inr l" by (auto simp: is_ok_iff)
  then show False
    using one_live_lease [OF claimed_reachable, of sample_attempt sample_attempt "''b''" "''w2''" 30 100] claimed_attempts
    by (simp add: sample_attempt_def)
qed

definition finished_db :: control_db where
  "finished_db = control_apply (CoCompleteAttempt ''a'' 1 AttemptSucceeded 30 None) claimed_db"

definition finished_attempt :: attempt where
  "finished_attempt = sample_attempt\<lparr>att_status := AttemptSucceeded, att_finished_at_ms := Some 30,
     att_lease_expires_at_ms := 0\<rparr>"

lemma finished_reachable: "control_reachable finished_db"
  unfolding finished_db_def by (rule reachable_apply [OF claimed_reachable])

lemma finished_tables:
  "db_attempts finished_db = [finished_attempt]" "db_effects finished_db = [planned_effect ''y'' sample_new_effect 20]"
  by (simp_all add: finished_db_def complete_attempt_def claimed_attempts claimed_effects finish_stmt_def set_run_status_def
      sql_changed_def sql_update_def lease_live_def load_attempt_locked_def Let_def sample_attempt_def finished_attempt_def)

lemma finished_inactive: "\<not> attempt_active (att_status finished_attempt)" "att_attempt_id finished_attempt = ''a''"
  by (simp_all add: finished_attempt_def sample_attempt_def)

text \<open>Witness of C22: the planned effect leads to its attempt after it was started.\<close>

theorem control_tables_well_formed_witness:
  "\<exists>a. load_attempt_locked (control_apply (CoStartEffect ''e'' 1 30) claimed_db) ''a'' = Some a \<and> att_lease_generation a = 1"
proof -
  let ?e = "(planned_effect ''y'' sample_new_effect 20)\<lparr>eff_status := EffectStarted, eff_updated_at_ms := 30\<rparr>"
  have "?e \<in> set (db_effects (control_apply (CoStartEffect ''e'' 1 30) claimed_db))"
    by (simp add: start_effect_def start_stmt_def start_cond_def load_effect_locked_def load_attempt_locked_def claimed_attempts
        claimed_effects sql_update_def holds_lease_def Let_def planned_effect_def sample_new_effect_def sample_attempt_def)
  then show ?thesis
    using control_tables_well_formed [OF claimed_reachable, of "CoStartEffect ''e'' 1 30"]
    by (fastforce simp: planned_effect_def sample_new_effect_def)
qed

text \<open>Witness of C14: the worker of the finished attempt cannot renew.\<close>

theorem lost_lease_inert_witness:
  "renew_attempt ''a'' 1 40 100 finished_db = (Inl (LeaseLost ''a''), finished_db)"
  using lost_lease_inert [OF finished_reachable _ finished_inactive(1) rtranclp.rtrancl_refl] finished_tables(1)
    finished_inactive(2)
  by (metis list.set_intros(1))

text \<open>
  Such a late write: a call of \<open>record_effect\<close> checks the lease of the live sample attempt, another caller
  finishes the attempt, and the insertion of the first call still succeeds, so that the finished attempt
  gains a planned effect.
\<close>

definition late_new_effect :: new_effect where
  "late_new_effect = sample_new_effect\<lparr>ne_effect_id := Some ''e2'', ne_idempotency_key := ''k2''\<rparr>"

theorem late_effect_write:
  "load_attempt_locked claimed_db ''a'' = Some sample_attempt \<and> holds_lease 1 25 sample_attempt
     \<and> (\<exists>db. insert_effect (planned_effect ''z'' late_new_effect 25) finished_db = Some db \<and> control_reachable db
          \<and> load_attempt_locked db ''a'' = Some finished_attempt
          \<and> (\<exists>e. load_effect_locked db ''e2'' = Some e \<and> eff_attempt_id e = ''a'' \<and> eff_status e = EffectPlanned))"
proof -
  let ?e = "planned_effect ''z'' late_new_effect 25"
  have run: "get_run finished_db ''r'' \<noteq> None"
    by (simp add: finished_db_def claimed_db_def claimed_ops_def control_eval)
  have e: "eff_run_id ?e = ''r''" "eff_attempt_id ?e = ''a''" "eff_effect_id ?e = ''e2''" "eff_idempotency_key ?e = ''k2''"
      "eff_fencing_token ?e = 1" "eff_status ?e = EffectPlanned"
    by (simp_all add: planned_effect_def late_new_effect_def sample_new_effect_def)
  define db where "db = finished_db\<lparr>db_effects := db_effects finished_db @ [?e]\<rparr>"
  have ins: "insert_effect ?e finished_db = Some db"
    using run by (simp add: insert_effect_def db_def load_attempt_locked_def finished_tables finished_inactive(2)
        sql_insert_def planned_effect_def late_new_effect_def sample_new_effect_def)
  have "control_step finished_db db"
    by (rule control_step.step_insert_effect [OF ins, of finished_attempt])
      (simp_all add: e finished_tables finished_attempt_def sample_attempt_def)
  then have "control_reachable db" using reachable_steps [OF finished_reachable] by blast
  moreover have "load_attempt_locked db ''a'' = Some finished_attempt"
    by (simp add: db_def load_attempt_locked_def finished_tables finished_inactive(2))
  moreover have "load_effect_locked db ''e2'' = Some ?e"
    by (simp add: db_def load_effect_locked_def finished_tables e) (simp add: planned_effect_def sample_new_effect_def)
  moreover have "load_attempt_locked claimed_db ''a'' = Some sample_attempt" "holds_lease 1 25 sample_attempt"
    by (simp_all add: load_attempt_locked_def claimed_attempts sample_attempt_def holds_lease_def)
  ultimately show ?thesis using ins e by blast
qed

text \<open>Witness of C39: the planned effect of the finished attempt.\<close>

theorem open_effect_outlives_attempt_witness:
  "\<not> is_ok (fst (reconcile_effect ''e'' (sample_outcome EffectSucceeded) 50 finished_db))
     \<and> \<not> is_ok (fst (complete_effect ''e'' 1 (sample_outcome EffectSucceeded) 50 finished_db))"
proof -
  let ?e = "planned_effect ''y'' sample_new_effect 20"
  have e: "?e \<in> set (db_effects finished_db)" "effect_open (eff_status ?e)" "eff_effect_id ?e = ''e''"
      "att_attempt_id finished_attempt = eff_attempt_id ?e"
    by (simp_all add: finished_tables planned_effect_def sample_new_effect_def finished_inactive)
  have "finished_attempt \<in> set (db_attempts finished_db)" by (simp add: finished_tables)
  from open_effect_outlives_attempt [OF finished_reachable e(1,2) this e(4) finished_inactive(1) rtranclp.rtrancl_refl]
  show ?thesis unfolding e(3) by blast
qed

text \<open>Witness of C23: at time 200 the lease of the sample attempt has expired.\<close>

theorem recovery_restores_progress_witness:
  "is_ok (fst (claim_attempt ''b'' ''r'' ''w'' 200 100 (snd (recover_expired_attempts 200 claimed_db))))"
proof -
  obtain r where r: "get_run claimed_db ''r'' = Some r" "rn_status r = RunRunning" using claimed_run by blast
  have "\<forall>a \<in> set (attempts_of claimed_db ''r''). attempt_active (att_status a) \<longrightarrow> lease_expired 200 a"
    by (simp add: attempts_of_def claimed_attempts sample_attempt_def lease_expired_def)
  moreover have "is_ok (validate_control_id ''w'' ''worker_id'')"
    by (simp add: validate_control_id_def ascii_alphanumeric_def)
  moreover have "\<forall>a \<in> set (db_attempts claimed_db). att_attempt_id a \<noteq> ''b''"
    by (simp add: claimed_attempts sample_attempt_def)
  moreover have "length (attempts_of claimed_db ''r'') < 2 ^ 32 - 1" by (simp add: attempts_of_def claimed_attempts)
  ultimately show ?thesis
    using recovery_restores_progress [OF claimed_reachable r(1), of 200 "''w''" "''b''" 200 100] r(2) by (auto simp: is_ok_iff)
qed

section \<open>Effects and scopes\<close>

text \<open>Application: the key of the recorded effect is refused for another operation.\<close>

theorem effect_recorded_once_witness:
  "\<not> is_ok (fst (record_effect ''z'' (sample_new_effect\<lparr>ne_operation_digest := ''d2''\<rparr>) 30 claimed_db))"
proof -
  let ?n = "sample_new_effect\<lparr>ne_operation_digest := ''d2''\<rparr>"
  have same: "record_effect ''y'' sample_new_effect 20 claimed_db = (Inr (planned_effect ''y'' sample_new_effect 20), claimed_db)"
    by (simp add: record_effect_def claimed_attempts claimed_effects load_attempt_locked_def load_effect_locked_def Let_def
        holds_lease_def sample_attempt_def planned_effect_def sample_new_effect_def validate_control_id_def ascii_alphanumeric_def)
  have steps: "control_step\<^sup>*\<^sup>* (snd (record_effect ''y'' sample_new_effect 20 claimed_db)) claimed_db" by (simp add: same)
  have ok: "fst (record_effect ''y'' sample_new_effect 20 claimed_db) = Inr (planned_effect ''y'' sample_new_effect 20)"
    by (simp add: same)
  show ?thesis
    using effect_recorded_once [OF claimed_reachable ok steps, of ?n "''z''" 30]
    by (auto simp: is_ok_iff sample_new_effect_def)
qed

text \<open>Application: a succeeded effect cannot fail later.\<close>

theorem effect_outcome_final_witness:
  "\<not> is_ok (fst (complete_effect ''e'' 1 (sample_outcome EffectFailed) 40
     (snd (complete_effect ''e'' 1 (sample_outcome EffectSucceeded) 30 claimed_db))))"
proof -
  have "is_ok (fst (complete_effect ''e'' 1 (sample_outcome EffectSucceeded) 30 claimed_db))"
    by (simp add: complete_effect_def claimed_attempts claimed_effects load_attempt_locked_def load_effect_locked_def Let_def
        holds_lease_def sample_attempt_def planned_effect_def sample_new_effect_def sample_outcome_def complete_cond_def
        sql_changed_def sql_update_def with_outcome_def)
  then obtain e where e: "fst (complete_effect ''e'' 1 (sample_outcome EffectSucceeded) 30 claimed_db) = Inr e"
    by (auto simp: is_ok_iff)
  show ?thesis
    using effect_outcome_final [OF claimed_reachable e rtranclp.rtrancl_refl, of 40 "sample_outcome EffectFailed" 1]
    by (auto simp: sample_outcome_def)
qed

text \<open>Witness of C38: the workspace scope is visible from the session scope below it.\<close>

theorem scope_allows_exact_witness:
  "scope_allows ''s1'' ''s2'' ''u'' 0 claimed_db = Some True"
proof -
  have "scope_parent (db_scopes claimed_db) ''s2'' = Some ''s1''"
    by (simp add: claimed_scopes scope_parent_def find_scope_def sample_scope_def)
  then have "(''s2'', ''s1'') \<in> scope_above (db_scopes claimed_db)" by auto
  then show ?thesis
    using scope_allows_exact [OF claimed_reachable, of "''s1''" "''s2''" "''u''" 0]
    by (simp add: claimed_scopes find_scope_def sample_scope_def)
qed

end
