(* ===== verification/Simulation.thy ===== *)
theory Simulation
  imports Step_System
begin

text \<open>
  Refinement of a nondeterministic specification by a component whose operations act on a state one at a
  time: when every operation from related states is matched by a step of the specification, so is
  every history.
\<close>

fun runs :: "('op \<Rightarrow> 'a \<Rightarrow> 'a \<Rightarrow> bool) \<Rightarrow> 'op list \<Rightarrow> 'a \<Rightarrow> 'a \<Rightarrow> bool" where
  "runs spec [] a b \<longleftrightarrow> a = b"
| "runs spec (x # xs) a c \<longleftrightarrow> (\<exists>b. spec x a b \<and> runs spec xs b c)"

lemma runs_append: "runs spec (xs @ ys) a c \<longleftrightarrow> (\<exists>b. runs spec xs a b \<and> runs spec ys b c)"
  by (induction xs arbitrary: a) auto

locale forward_simulation =
  fixes step :: "'op \<Rightarrow> 'c \<Rightarrow> 'c"
    and spec :: "'op \<Rightarrow> 'a \<Rightarrow> 'a \<Rightarrow> bool"
    and rel :: "'a \<Rightarrow> 'c \<Rightarrow> bool"
  assumes sim: "rel a c \<Longrightarrow> \<exists>a'. spec x a a' \<and> rel a' (step x c)"
begin

lemma run_sim: "rel a c \<Longrightarrow> \<exists>a'. runs spec xs a a' \<and> rel a' (fold step xs c)"
proof (induction xs arbitrary: a c)
  case (Cons x xs)
  obtain b where b: "spec x a b" "rel b (step x c)" using sim [OF Cons.prems, of x] by blast
  then obtain a' where "runs spec xs b a'" "rel a' (fold step xs (step x c))" using Cons.IH by blast
  then show ?case using b by auto
qed simp

end

end
