(* ===== verification/Projection_Store.thy ===== *)
theory Projection_Store
  imports Control_Store Event_Log "HOL-Library.Product_Lexorder"
begin

text \<open>
  The durable projections of \<open>hi-control\<close> (\<open>projections.rs\<close>, \<open>projection_write.rs\<close> and the tables of
  \<open>schema.rs\<close>): workspace bindings, workspace operations, jobs, recoveries and session snapshots, each
  changed only together with a required event. A row keeps the record it serializes and the columns
  the queries read; an \<open>UPDATE\<close> rewrites some of the columns only, so the others keep their first value.
  Enumerations are stored under their distinct names and compared as values. The digest of a transition,
  BLAKE3 over its JSON, is an argument. A transaction that fails leaves no trace, so the steps inside
  one return the new database only on success.
\<close>

section \<open>Records\<close>

datatype projection_authority = ProjLocal | ProjPipeFs

datatype projection_state =
  PsReady | PsMutating | PsSettling | PsPendingRemote | PsLeaseUncertain | PsLeaseLost | PsConflict
| PsTranscriptPending | PsCleanupPending | PsRecoveryRequired | PsJournalCorrupt | PsIncompatible
| PsLocalAuditDegraded | PsClosed

record binding_record =
  bnd_binding_id :: string
  bnd_workspace_id :: string
  bnd_session_id :: "string option"
  bnd_epoch :: u64
  bnd_authority :: projection_authority
  bnd_state :: projection_state
  bnd_workspace_version :: "string option"
  bnd_capabilities :: "json option"
  bnd_revision :: u64
  bnd_opened_at_ms :: u64
  bnd_updated_at_ms :: u64
  bnd_closed_at_ms :: "u64 option"

datatype operation_replay_class = OrPureWorkspace | OrIdempotentExternal | OrNonReplayableExternal

datatype operation_status =
  OsAdmitted | OsExecuting | OsExecutionRecorded | OsSettling | OsDurable | OsNoChange | OsPending
| OsIndeterminate | OsLeaseLost | OsConflict | OsTranscriptPending | OsRecoveryRequired
| OsLocalAuditDegraded | OsFailed

record operation_record =
  or_operation_id :: string
  or_binding_id :: string
  or_epoch :: u64
  or_session_id :: "string option"
  or_run_id :: "string option"
  or_attempt_id :: "string option"
  or_job_id :: "string option"
  or_kind :: string
  or_replay_class :: operation_replay_class
  or_status :: operation_status
  or_operation_digest :: string
  or_idempotency_key :: string
  or_base_version :: "string option"
  or_result_version :: "string option"
  or_execution_ref :: "string option"
  or_settlement_ref :: "string option"
  or_error :: "string option"
  or_revision :: u64
  or_created_at_ms :: u64
  or_updated_at_ms :: u64
  or_settled_at_ms :: "u64 option"

datatype control_job_kind = CkProcess | CkReadAgent | CkWriteCandidate | CkHook | CkCompaction

datatype control_effect_scope = CsReadOnly | CsCandidateOnly | CsLiveWriter

datatype control_job_state =
  CjQueued | CjStarting | CjRunning | CjReadyToMerge | CjMerging | CjSettling | CjCancelRequested
| CjSucceeded | CjFailed | CjCancelled | CjDurabilityPending | CjRecoveryRequired | CjOrphaned | CjStale

fun control_job_terminal :: "control_job_state \<Rightarrow> bool" where
  "control_job_terminal CjSucceeded = True"
| "control_job_terminal CjFailed = True"
| "control_job_terminal CjCancelled = True"
| "control_job_terminal CjOrphaned = True"
| "control_job_terminal CjStale = True"
| "control_job_terminal _ = False"

record control_job_record =
  jr_job_id :: string
  jr_session_id :: "string option"
  jr_run_id :: "string option"
  jr_attempt_id :: "string option"
  jr_binding_id :: "string option"
  jr_epoch :: "u64 option"
  jr_kind :: control_job_kind
  jr_effect_scope :: control_effect_scope
  jr_state :: control_job_state
  jr_application_state :: "string option"
  jr_operation_digest :: "string option"
  jr_idempotency_key :: "string option"
  jr_candidate_ref :: "string option"
  jr_result_ref :: "string option"
  jr_workspace_version :: "string option"
  jr_error :: "string option"
  jr_revision :: u64
  jr_created_at_ms :: u64
  jr_updated_at_ms :: u64
  jr_cancel_requested_at_ms :: "u64 option"
  jr_finished_at_ms :: "u64 option"

datatype recovery_status_record = RrRequired | RrInspecting | RrRetrying | RrResolved | RrDiscarded | RrFailed

record workspace_recovery_record =
  wr_recovery_id :: string
  wr_binding_id :: "string option"
  wr_workspace_id :: string
  wr_session_id :: "string option"
  wr_operation_id :: "string option"
  wr_job_id :: "string option"
  wr_kind :: string
  wr_status :: recovery_status_record
  wr_digest :: "string option"
  wr_artifact_ref :: "string option"
  wr_detail :: "string option"
  wr_error :: "string option"
  wr_revision :: u64
  wr_created_at_ms :: u64
  wr_updated_at_ms :: u64
  wr_resolved_at_ms :: "u64 option"

record session_snapshot_record =
  sn_snapshot_id :: string
  sn_session_id :: string
  sn_reducer_version :: u32
  sn_through_sequence :: u64
  sn_state_ref :: string
  sn_state_digest :: string
  sn_state_bytes :: u64
  sn_revision :: u64
  sn_created_at_ms :: u64

datatype projection_transition =
  TrBinding binding_record
| TrOperation operation_record
| TrJob control_job_record
| TrRecovery workspace_recovery_record
| TrSnapshot session_snapshot_record

datatype projection_kind = PkBinding | PkOperation | PkJob | PkRecovery | PkSnapshot

fun projection_kind_as_str :: "projection_kind \<Rightarrow> string" where
  "projection_kind_as_str PkBinding = ''workspace_binding''"
| "projection_kind_as_str PkOperation = ''workspace_operation''"
| "projection_kind_as_str PkJob = ''job''"
| "projection_kind_as_str PkRecovery = ''workspace_recovery''"
| "projection_kind_as_str PkSnapshot = ''session_snapshot''"

record projection_receipt =
  rcp_kind :: projection_kind
  rcp_id :: string
  rcp_revision :: u64
  rcp_event :: event_receipt

fun transition_identity :: "projection_transition \<Rightarrow> projection_kind \<times> string \<times> u64" where
  "transition_identity (TrBinding r) = (PkBinding, bnd_binding_id r, bnd_revision r)"
| "transition_identity (TrOperation r) = (PkOperation, or_operation_id r, or_revision r)"
| "transition_identity (TrJob r) = (PkJob, jr_job_id r, jr_revision r)"
| "transition_identity (TrRecovery r) = (PkRecovery, wr_recovery_id r, wr_revision r)"
| "transition_identity (TrSnapshot r) = (PkSnapshot, sn_snapshot_id r, sn_revision r)"

definition validate_times :: "u64 \<Rightarrow> u64 \<Rightarrow> (control_error, unit) result" where
  "validate_times created updated =
     ensure (\<not> updated < created) (CtlInvalid ''projection update predates its creation'') (Inr ())"

fun validate_fields :: "projection_transition \<Rightarrow> (control_error, unit) result" where
  "validate_fields (TrBinding r) =
     and_then (validate_control_id (bnd_workspace_id r) ''workspace_id'') (\<lambda>_.
       validate_times (bnd_opened_at_ms r) (bnd_updated_at_ms r))"
| "validate_fields (TrOperation r) =
     and_then (validate_control_id (or_binding_id r) ''binding_id'') (\<lambda>_.
     and_then (validate_control_id (or_idempotency_key r) ''idempotency_key'') (\<lambda>_.
       validate_times (or_created_at_ms r) (or_updated_at_ms r)))"
| "validate_fields (TrJob r) = validate_times (jr_created_at_ms r) (jr_updated_at_ms r)"
| "validate_fields (TrRecovery r) =
     and_then (validate_control_id (wr_workspace_id r) ''workspace_id'') (\<lambda>_.
       validate_times (wr_created_at_ms r) (wr_updated_at_ms r))"
| "validate_fields (TrSnapshot r) =
     and_then (validate_control_id (sn_session_id r) ''session_id'') (\<lambda>_.
       ensure (\<not> (sn_state_ref r = [] \<or> sn_state_digest r = []))
         (CtlInvalid ''session snapshot requires state_ref and state_digest'') (Inr ()))"

definition validate_transition :: "projection_transition \<Rightarrow> (control_error, unit) result" where
  "validate_transition tr =
     (case transition_identity tr of (k, i, revn) \<Rightarrow>
        and_then (validate_control_id i ''projection id'') (\<lambda>_.
        ensure (revn \<noteq> 0) (CtlInvalid ''projection revision must start at one'') (validate_fields tr)))"

section \<open>Tables\<close>

record binding_columns =
  bc_workspace_id :: string
  bc_session_id :: "string option"
  bc_epoch :: u64
  bc_authority :: projection_authority
  bc_updated_at_ms :: u64

record operation_columns =
  oc_binding_id :: string
  oc_status :: operation_status
  oc_idempotency_key :: string
  oc_created_at_ms :: u64

record job_columns =
  jc_binding_id :: "string option"
  jc_state :: control_job_state
  jc_idempotency_key :: "string option"
  jc_created_at_ms :: u64
  jc_updated_at_ms :: u64

record recovery_columns =
  rvc_binding_id :: "string option"
  rvc_workspace_id :: string
  rvc_session_id :: "string option"
  rvc_operation_id :: "string option"
  rvc_job_id :: "string option"
  rvc_status :: recovery_status_record
  rvc_updated_at_ms :: u64

record snapshot_columns =
  sc_session_id :: string
  sc_through_sequence :: u64

record ('c, 'r) proj_row =
  pr_id :: string
  pr_columns :: 'c
  pr_revision :: u64
  pr_record :: 'r
  pr_last_event_id :: string

type_synonym ('c, 'r) proj_table = "('c, 'r) proj_row list"

record projection_event_row =
  pev_event_id :: string
  pev_kind :: string
  pev_projection_id :: string
  pev_revision :: u64
  pev_digest :: string

record projection_db =
  pdb_events :: event_table
  pdb_bindings :: "(binding_columns, binding_record) proj_table"
  pdb_operations :: "(operation_columns, operation_record) proj_table"
  pdb_jobs :: "(job_columns, control_job_record) proj_table"
  pdb_recoveries :: "(recovery_columns, workspace_recovery_record) proj_table"
  pdb_snapshots :: "(snapshot_columns, session_snapshot_record) proj_table"
  pdb_projected :: "projection_event_row list"

definition empty_projections :: projection_db where
  "empty_projections = \<lparr>pdb_events = [], pdb_bindings = [], pdb_operations = [], pdb_jobs = [],
     pdb_recoveries = [], pdb_snapshots = [], pdb_projected = []\<rparr>"

text \<open>The statements on a projection table. \<open>refs\<close> are the foreign keys of the row, all enforced, and
  \<open>clash\<close> its other unique columns; the check that the revision is positive reads it as a signed integer.\<close>

definition event_known :: "projection_db \<Rightarrow> string \<Rightarrow> bool" where
  "event_known db i \<longleftrightarrow> (\<exists>e \<in> set (pdb_events db). er_event_id e = i)"

definition row_known :: "('c, 'r) proj_table \<Rightarrow> string \<Rightarrow> bool" where
  "row_known t i \<longleftrightarrow> (\<exists>r \<in> set t. pr_id r = i)"

definition proj_insert :: "bool \<Rightarrow> ('c \<Rightarrow> bool) \<Rightarrow> ('c, 'r) proj_row \<Rightarrow> ('c, 'r) proj_table
    \<Rightarrow> (control_error, ('c, 'r) proj_table) result" where
  "proj_insert refs clash row t =
     (if \<not> (refs \<and> 1 \<le> sint (pr_revision row)) then Inl CtlDatabase
      else case sql_insert (\<lambda>q. pr_id q = pr_id row \<or> clash (pr_columns q)) row t of
             None \<Rightarrow> Inl CtlDatabase
           | Some t' \<Rightarrow> Inr t')"

definition proj_update :: "bool \<Rightarrow> string \<Rightarrow> u64 \<Rightarrow> ('c \<Rightarrow> 'c) \<Rightarrow> 'r \<Rightarrow> string \<Rightarrow> ('c, 'r) proj_table
    \<Rightarrow> (control_error, ('c, 'r) proj_table) result" where
  "proj_update refs i revn cols r ev t =
     (if row_known t i \<and> \<not> (refs \<and> 1 \<le> sint revn) then Inl CtlDatabase
      else Inr (sql_update (\<lambda>q. pr_id q = i)
             (\<lambda>q. q\<lparr>pr_columns := cols (pr_columns q), pr_revision := revn, pr_record := r, pr_last_event_id := ev\<rparr>) t))"

text \<open>The first revision is inserted, every later one updates its row.\<close>

definition proj_write :: "bool \<Rightarrow> bool \<Rightarrow> ('c \<Rightarrow> bool) \<Rightarrow> ('c \<Rightarrow> 'c) \<Rightarrow> ('c, 'r) proj_row \<Rightarrow> ('c, 'r) proj_table
    \<Rightarrow> (control_error, ('c, 'r) proj_table) result" where
  "proj_write refs refs' clash cf row t =
     (if pr_revision row = 1 then proj_insert refs clash row t
      else proj_update refs' (pr_id row) (pr_revision row) cf (pr_record row) (pr_last_event_id row) t)"

definition check_revision :: "('c, 'r) proj_table \<Rightarrow> string \<Rightarrow> u64 \<Rightarrow> ('r \<Rightarrow> bool) \<Rightarrow> (control_error, unit) result" where
  "check_revision t i revision immutable_matches =
     (case find (\<lambda>r. pr_id r = i) t of
        None \<Rightarrow>
          if revision = 1 then Inr ()
          else Inl (CtlInvalid (''projection '' @ i @ '' must begin at revision one''))
      | Some cur \<Rightarrow>
          if revision = pr_revision cur + 1 then
            (if immutable_matches (pr_record cur) then Inr ()
             else Inl (CtlInvalid (''projection '' @ i @ '' changed immutable identity fields'')))
          else Inl (CtlInvalid (''stale projection revision for '' @ i @ '': expected ''
                 @ decimal (unat (pr_revision cur + 1)) @ '', received '' @ decimal (unat revision))))"

section \<open>Writes\<close>

definition same_binding :: "binding_record \<Rightarrow> binding_record \<Rightarrow> bool" where
  "same_binding r old \<longleftrightarrow> bnd_workspace_id old = bnd_workspace_id r \<and> bnd_session_id old = bnd_session_id r
     \<and> bnd_epoch old = bnd_epoch r \<and> bnd_authority old = bnd_authority r \<and> bnd_opened_at_ms old = bnd_opened_at_ms r"

definition binding_row :: "binding_record \<Rightarrow> string \<Rightarrow> (binding_columns, binding_record) proj_row" where
  "binding_row r ev =
     \<lparr>pr_id = bnd_binding_id r,
      pr_columns = \<lparr>bc_workspace_id = bnd_workspace_id r, bc_session_id = bnd_session_id r,
        bc_epoch = bnd_epoch r, bc_authority = bnd_authority r, bc_updated_at_ms = bnd_updated_at_ms r\<rparr>,
      pr_revision = bnd_revision r, pr_record = r, pr_last_event_id = ev\<rparr>"

definition apply_binding :: "projection_db \<Rightarrow> binding_record \<Rightarrow> string \<Rightarrow> (control_error, projection_db) result" where
  "apply_binding db r ev =
     and_then (check_revision (pdb_bindings db) (bnd_binding_id r) (bnd_revision r) (same_binding r)) (\<lambda>_.
     and_then (proj_write (event_known db ev) (event_known db ev) (\<lambda>_. False)
                 (\<lambda>c. c\<lparr>bc_updated_at_ms := bnd_updated_at_ms r\<rparr>) (binding_row r ev) (pdb_bindings db)) (\<lambda>t.
     Inr (db\<lparr>pdb_bindings := t\<rparr>)))"

definition same_operation :: "operation_record \<Rightarrow> operation_record \<Rightarrow> bool" where
  "same_operation r old \<longleftrightarrow> or_binding_id old = or_binding_id r \<and> or_epoch old = or_epoch r
     \<and> or_idempotency_key old = or_idempotency_key r \<and> or_operation_digest old = or_operation_digest r
     \<and> or_created_at_ms old = or_created_at_ms r"

definition operation_row :: "operation_record \<Rightarrow> string \<Rightarrow> (operation_columns, operation_record) proj_row" where
  "operation_row r ev =
     \<lparr>pr_id = or_operation_id r,
      pr_columns = \<lparr>oc_binding_id = or_binding_id r, oc_status = or_status r,
        oc_idempotency_key = or_idempotency_key r, oc_created_at_ms = or_created_at_ms r\<rparr>,
      pr_revision = or_revision r, pr_record = r, pr_last_event_id = ev\<rparr>"

definition apply_operation :: "projection_db \<Rightarrow> operation_record \<Rightarrow> string \<Rightarrow> (control_error, projection_db) result" where
  "apply_operation db r ev =
     and_then (check_revision (pdb_operations db) (or_operation_id r) (or_revision r) (same_operation r)) (\<lambda>_.
     and_then (proj_write (event_known db ev \<and> row_known (pdb_bindings db) (or_binding_id r)) (event_known db ev)
                 (\<lambda>c. oc_idempotency_key c = or_idempotency_key r)
                 (\<lambda>c. c\<lparr>oc_status := or_status r\<rparr>) (operation_row r ev) (pdb_operations db)) (\<lambda>t.
     Inr (db\<lparr>pdb_operations := t\<rparr>)))"

definition same_job :: "control_job_record \<Rightarrow> control_job_record \<Rightarrow> bool" where
  "same_job r old \<longleftrightarrow> jr_binding_id old = jr_binding_id r \<and> jr_epoch old = jr_epoch r \<and> jr_kind old = jr_kind r
     \<and> jr_effect_scope old = jr_effect_scope r \<and> jr_idempotency_key old = jr_idempotency_key r
     \<and> jr_created_at_ms old = jr_created_at_ms r \<and> \<not> control_job_terminal (jr_state old)"

text \<open>A foreign key or a unique column that is null is never violated.\<close>

definition ref_or_null :: "('c, 'r) proj_table \<Rightarrow> string option \<Rightarrow> bool" where
  "ref_or_null t i = (case i of None \<Rightarrow> True | Some k \<Rightarrow> row_known t k)"

definition job_row :: "control_job_record \<Rightarrow> string \<Rightarrow> (job_columns, control_job_record) proj_row" where
  "job_row r ev =
     \<lparr>pr_id = jr_job_id r,
      pr_columns = \<lparr>jc_binding_id = jr_binding_id r, jc_state = jr_state r,
        jc_idempotency_key = jr_idempotency_key r, jc_created_at_ms = jr_created_at_ms r,
        jc_updated_at_ms = jr_updated_at_ms r\<rparr>,
      pr_revision = jr_revision r, pr_record = r, pr_last_event_id = ev\<rparr>"

definition apply_job :: "projection_db \<Rightarrow> control_job_record \<Rightarrow> string \<Rightarrow> (control_error, projection_db) result" where
  "apply_job db r ev =
     and_then (check_revision (pdb_jobs db) (jr_job_id r) (jr_revision r) (same_job r)) (\<lambda>_.
     and_then (proj_write (event_known db ev \<and> ref_or_null (pdb_bindings db) (jr_binding_id r)) (event_known db ev)
                 (\<lambda>c. jr_idempotency_key r \<noteq> None \<and> jc_idempotency_key c = jr_idempotency_key r)
                 (\<lambda>c. c\<lparr>jc_state := jr_state r, jc_updated_at_ms := jr_updated_at_ms r\<rparr>) (job_row r ev) (pdb_jobs db)) (\<lambda>t.
     Inr (db\<lparr>pdb_jobs := t\<rparr>)))"

definition same_recovery :: "workspace_recovery_record \<Rightarrow> workspace_recovery_record \<Rightarrow> bool" where
  "same_recovery r old \<longleftrightarrow> wr_binding_id old = wr_binding_id r \<and> wr_workspace_id old = wr_workspace_id r
     \<and> wr_operation_id old = wr_operation_id r \<and> wr_job_id old = wr_job_id r \<and> wr_kind old = wr_kind r
     \<and> wr_created_at_ms old = wr_created_at_ms r"

definition recovery_row :: "workspace_recovery_record \<Rightarrow> string \<Rightarrow> (recovery_columns, workspace_recovery_record) proj_row" where
  "recovery_row r ev =
     \<lparr>pr_id = wr_recovery_id r,
      pr_columns = \<lparr>rvc_binding_id = wr_binding_id r, rvc_workspace_id = wr_workspace_id r,
        rvc_session_id = wr_session_id r, rvc_operation_id = wr_operation_id r, rvc_job_id = wr_job_id r,
        rvc_status = wr_status r, rvc_updated_at_ms = wr_updated_at_ms r\<rparr>,
      pr_revision = wr_revision r, pr_record = r, pr_last_event_id = ev\<rparr>"

definition apply_recovery :: "projection_db \<Rightarrow> workspace_recovery_record \<Rightarrow> string \<Rightarrow> (control_error, projection_db) result" where
  "apply_recovery db r ev =
     and_then (check_revision (pdb_recoveries db) (wr_recovery_id r) (wr_revision r) (same_recovery r)) (\<lambda>_.
     and_then (proj_write (event_known db ev \<and> ref_or_null (pdb_bindings db) (wr_binding_id r)
                   \<and> ref_or_null (pdb_operations db) (wr_operation_id r) \<and> ref_or_null (pdb_jobs db) (wr_job_id r))
                 (event_known db ev) (\<lambda>_. False)
                 (\<lambda>c. c\<lparr>rvc_status := wr_status r, rvc_updated_at_ms := wr_updated_at_ms r\<rparr>)
                 (recovery_row r ev) (pdb_recoveries db)) (\<lambda>t.
     Inr (db\<lparr>pdb_recoveries := t\<rparr>)))"

definition snapshot_row :: "session_snapshot_record \<Rightarrow> string \<Rightarrow> (snapshot_columns, session_snapshot_record) proj_row" where
  "snapshot_row r ev =
     \<lparr>pr_id = sn_snapshot_id r,
      pr_columns = \<lparr>sc_session_id = sn_session_id r, sc_through_sequence = sn_through_sequence r\<rparr>,
      pr_revision = sn_revision r, pr_record = r, pr_last_event_id = ev\<rparr>"

definition apply_snapshot :: "projection_db \<Rightarrow> session_snapshot_record \<Rightarrow> string \<Rightarrow> (control_error, projection_db) result" where
  "apply_snapshot db r ev =
     ensure (sn_revision r = 1) (CtlInvalid ''session snapshots are immutable'')
     (and_then (check_revision (pdb_snapshots db) (sn_snapshot_id r) (sn_revision r) (\<lambda>_. False)) (\<lambda>_.
      and_then (proj_insert (event_known db ev)
                  (\<lambda>c. sc_session_id c = sn_session_id r \<and> sc_through_sequence c = sn_through_sequence r)
                  (snapshot_row r ev) (pdb_snapshots db)) (\<lambda>t.
      Inr (db\<lparr>pdb_snapshots := t\<rparr>))))"

fun apply_transition :: "projection_db \<Rightarrow> projection_transition \<Rightarrow> string \<Rightarrow> (control_error, projection_db) result" where
  "apply_transition db (TrBinding r) ev = apply_binding db r ev"
| "apply_transition db (TrOperation r) ev = apply_operation db r ev"
| "apply_transition db (TrJob r) ev = apply_job db r ev"
| "apply_transition db (TrRecovery r) ev = apply_recovery db r ev"
| "apply_transition db (TrSnapshot r) ev = apply_snapshot db r ev"

section \<open>Commits\<close>

definition existing_projection_event :: "projection_db \<Rightarrow> string \<Rightarrow> (projection_event_row \<times> run_event) option" where
  "existing_projection_event db i =
     (case find (\<lambda>p. pev_event_id p = i) (pdb_projected db) of
        None \<Rightarrow> None
      | Some p \<Rightarrow> map_option (\<lambda>e. (p, er_event e)) (find (\<lambda>e. er_event_id e = i) (pdb_events db)))"

definition insert_projected :: "projection_event_row \<Rightarrow> projection_db \<Rightarrow> (control_error, projection_db) result" where
  "insert_projected row db =
     (if \<not> event_known db (pev_event_id row) then Inl CtlDatabase
      else case sql_insert (\<lambda>q. pev_event_id q = pev_event_id row
               \<or> (pev_kind q = pev_kind row \<and> pev_projection_id q = pev_projection_id row
                  \<and> pev_revision q = pev_revision row)) row (pdb_projected db) of
             None \<Rightarrow> Inl CtlDatabase
           | Some t \<Rightarrow> Inr (db\<lparr>pdb_projected := t\<rparr>))"

definition commit_projection_in_transaction :: "(projection_transition \<Rightarrow> string) \<Rightarrow> projection_transition \<Rightarrow> run_event
    \<Rightarrow> projection_db \<Rightarrow> (control_error, projection_receipt \<times> projection_db) result" where
  "commit_projection_in_transaction digest tr e db =
     and_then (validate_transition tr) (\<lambda>_.
     ensure (ev_schema_version e = event_schema_version)
       (CtlInvalid (''unsupported event schema version '' @ decimal (unat (ev_schema_version e))))
     (ensure (ev_durability e = DurabilityRequired)
       (CtlInvalid ''projection transitions require a required-durability event'')
     (case transition_identity tr of (k, i, revn) \<Rightarrow>
       (case existing_projection_event db (ev_event_id e) of
          Some (p, old) \<Rightarrow>
            ensure (\<not> (pev_kind p \<noteq> projection_kind_as_str k \<or> pev_projection_id p \<noteq> i \<or> pev_revision p \<noteq> revn
                     \<or> pev_digest p \<noteq> digest tr \<or> old \<noteq> e\<lparr>ev_sequence := ev_sequence old\<rparr>))
              (CtlInvalid (''event '' @ ev_event_id e @ '' was reused for a different projection transition''))
              (Inr (\<lparr>rcp_kind = k, rcp_id = i, rcp_revision = revn,
                     rcp_event = \<lparr>rc_event_id = ev_event_id e, rc_sequence = ev_sequence old\<rparr>\<rparr>, db))
        | None \<Rightarrow>
            ensure (\<not> event_known db (ev_event_id e))
              (CtlInvalid (''event '' @ ev_event_id e @ '' is already committed without this projection''))
            (case append_event_in_transaction e (pdb_events db) of
               (Inl _, _) \<Rightarrow> Inl CtlDatabase
             | (Inr receipt, t) \<Rightarrow>
                 and_then (apply_transition (db\<lparr>pdb_events := t\<rparr>) tr (ev_event_id e)) (\<lambda>db'.
                 and_then (insert_projected \<lparr>pev_event_id = ev_event_id e, pev_kind = projection_kind_as_str k,
                             pev_projection_id = i, pev_revision = revn, pev_digest = digest tr\<rparr> db') (\<lambda>db''.
                 Inr (\<lparr>rcp_kind = k, rcp_id = i, rcp_revision = revn, rcp_event = receipt\<rparr>, db''))))))))"

fun commit_all :: "(projection_transition \<Rightarrow> string) \<Rightarrow> (projection_transition \<times> run_event) list
    \<Rightarrow> projection_db \<Rightarrow> (control_error, projection_receipt list \<times> projection_db) result" where
  "commit_all digest [] db = Inr ([], db)"
| "commit_all digest ((tr, e) # us) db =
     and_then (commit_projection_in_transaction digest tr e db) (\<lambda>(r, db').
     and_then (commit_all digest us db') (\<lambda>(rs, db''). Inr (r # rs, db'')))"

definition commit_projection_events :: "(projection_transition \<Rightarrow> string) \<Rightarrow> (projection_transition \<times> run_event) list
    \<Rightarrow> projection_db \<Rightarrow> (control_error, projection_receipt list) result \<times> projection_db" where
  "commit_projection_events digest us db =
     (case commit_all digest us db of
        Inl e \<Rightarrow> (Inl e, db)
      | Inr (rs, db') \<Rightarrow> (Inr rs, db'))"

definition commit_projection_event :: "(projection_transition \<Rightarrow> string) \<Rightarrow> projection_transition \<Rightarrow> run_event
    \<Rightarrow> projection_db \<Rightarrow> (control_error, projection_receipt) result \<times> projection_db" where
  "commit_projection_event digest tr e db =
     (case commit_projection_events digest [(tr, e)] db of
        (Inl err, db') \<Rightarrow> (Inl err, db')
      | (Inr rs, db') \<Rightarrow>
          ((if rs = [] then Inl (CtlInvalid ''projection receipt was missing'') else Inr (last rs)), db'))"

section \<open>Queries\<close>

definition get_projection :: "('c, 'r) proj_table \<Rightarrow> string \<Rightarrow> 'r option" where
  "get_projection t i = map_option pr_record (find (\<lambda>r. pr_id r = i) t)"

definition get_workspace_binding :: "projection_db \<Rightarrow> string \<Rightarrow> binding_record option" where
  "get_workspace_binding db i = get_projection (pdb_bindings db) i"

definition get_workspace_operation :: "projection_db \<Rightarrow> string \<Rightarrow> operation_record option" where
  "get_workspace_operation db i = get_projection (pdb_operations db) i"

definition get_job :: "projection_db \<Rightarrow> string \<Rightarrow> control_job_record option" where
  "get_job db i = get_projection (pdb_jobs db) i"

definition get_workspace_recovery :: "projection_db \<Rightarrow> string \<Rightarrow> workspace_recovery_record option" where
  "get_workspace_recovery db i = get_projection (pdb_recoveries db) i"

text \<open>\<open>ORDER BY\<close> compares the stored integers as signed and strings by their bytes.\<close>

definition query_projections :: "(('c, 'r) proj_row \<Rightarrow> bool) \<Rightarrow> (('c, 'r) proj_row \<Rightarrow> 'k::linorder)
    \<Rightarrow> ('c, 'r) proj_table \<Rightarrow> 'r list" where
  "query_projections c key t = map pr_record (sort_key key (filter c t))"

definition operations_for_binding :: "projection_db \<Rightarrow> string \<Rightarrow> operation_record list" where
  "operations_for_binding db b =
     query_projections (\<lambda>r. oc_binding_id (pr_columns r) = b)
       (\<lambda>r. (sint (oc_created_at_ms (pr_columns r)), pr_id r)) (pdb_operations db)"

definition jobs_for_binding :: "projection_db \<Rightarrow> string \<Rightarrow> control_job_record list" where
  "jobs_for_binding db b =
     query_projections (\<lambda>r. jc_binding_id (pr_columns r) = Some b)
       (\<lambda>r. (sint (jc_created_at_ms (pr_columns r)), pr_id r)) (pdb_jobs db)"

definition unsettled_jobs :: "projection_db \<Rightarrow> control_job_record list" where
  "unsettled_jobs db =
     query_projections (\<lambda>r. \<not> control_job_terminal (jc_state (pr_columns r)))
       (\<lambda>r. (sint (jc_updated_at_ms (pr_columns r)), pr_id r)) (pdb_jobs db)"

definition recoveries_for_workspace :: "projection_db \<Rightarrow> string \<Rightarrow> workspace_recovery_record list" where
  "recoveries_for_workspace db w =
     query_projections (\<lambda>r. rvc_workspace_id (pr_columns r) = w)
       (\<lambda>r. (- sint (rvc_updated_at_ms (pr_columns r)), pr_id r)) (pdb_recoveries db)"

definition recoveries_for_binding :: "projection_db \<Rightarrow> string \<Rightarrow> workspace_recovery_record list" where
  "recoveries_for_binding db b =
     query_projections (\<lambda>r. rvc_binding_id (pr_columns r) = Some b)
       (\<lambda>r. (sint (rvc_updated_at_ms (pr_columns r)), pr_id r)) (pdb_recoveries db)"

definition recoveries_for_session :: "projection_db \<Rightarrow> string \<Rightarrow> workspace_recovery_record list" where
  "recoveries_for_session db s =
     query_projections (\<lambda>r. rvc_session_id (pr_columns r) = Some s)
       (\<lambda>r. (- sint (rvc_updated_at_ms (pr_columns r)), pr_id r)) (pdb_recoveries db)"

definition recoveries_for_operation :: "projection_db \<Rightarrow> string \<Rightarrow> workspace_recovery_record list" where
  "recoveries_for_operation db i =
     query_projections (\<lambda>r. rvc_operation_id (pr_columns r) = Some i)
       (\<lambda>r. (sint (rvc_updated_at_ms (pr_columns r)), pr_id r)) (pdb_recoveries db)"

definition recoveries_for_job :: "projection_db \<Rightarrow> string \<Rightarrow> workspace_recovery_record list" where
  "recoveries_for_job db i =
     query_projections (\<lambda>r. rvc_job_id (pr_columns r) = Some i)
       (\<lambda>r. (sint (rvc_updated_at_ms (pr_columns r)), pr_id r)) (pdb_recoveries db)"

definition first_projection :: "'r list \<Rightarrow> 'r option" where
  "first_projection rs = (case rs of [] \<Rightarrow> None | r # _ \<Rightarrow> Some r)"

definition latest_workspace_binding :: "projection_db \<Rightarrow> string \<Rightarrow> binding_record option" where
  "latest_workspace_binding db w =
     first_projection (query_projections
       (\<lambda>r. bc_workspace_id (pr_columns r) = w \<and> bc_authority (pr_columns r) = ProjLocal)
       (\<lambda>r. (- sint (bc_epoch (pr_columns r)), - sint (bc_updated_at_ms (pr_columns r)))) (pdb_bindings db))"

definition latest_pipefs_binding :: "projection_db \<Rightarrow> string \<Rightarrow> binding_record option" where
  "latest_pipefs_binding db s =
     first_projection (query_projections
       (\<lambda>r. bc_session_id (pr_columns r) = Some s \<and> bc_authority (pr_columns r) = ProjPipeFs)
       (\<lambda>r. (- sint (bc_epoch (pr_columns r)), - sint (bc_updated_at_ms (pr_columns r)))) (pdb_bindings db))"

text \<open>The condition both queries for unsettled bindings share.\<close>

definition operation_settled_column :: "operation_status \<Rightarrow> bool" where
  "operation_settled_column s \<longleftrightarrow> s \<in> {OsDurable, OsNoChange, OsLocalAuditDegraded, OsFailed}"

definition recovery_closed_column :: "recovery_status_record \<Rightarrow> bool" where
  "recovery_closed_column s \<longleftrightarrow> s \<in> {RrResolved, RrDiscarded}"

definition binding_unsettled :: "projection_db \<Rightarrow> string \<Rightarrow> bool" where
  "binding_unsettled db b \<longleftrightarrow>
     (\<exists>j \<in> set (pdb_jobs db). jc_binding_id (pr_columns j) = Some b \<and> \<not> control_job_terminal (jc_state (pr_columns j)))
   \<or> (\<exists>q \<in> set (pdb_operations db). oc_binding_id (pr_columns q) = b \<and> \<not> operation_settled_column (oc_status (pr_columns q)))
   \<or> (\<exists>r \<in> set (pdb_recoveries db). rvc_binding_id (pr_columns r) = Some b \<and> \<not> recovery_closed_column (rvc_status (pr_columns r)))"

definition unsettled_workspace_bindings :: "projection_db \<Rightarrow> string \<Rightarrow> binding_record list" where
  "unsettled_workspace_bindings db w =
     query_projections (\<lambda>r. bc_workspace_id (pr_columns r) = w \<and> bc_authority (pr_columns r) = ProjLocal
         \<and> binding_unsettled db (pr_id r))
       (\<lambda>r. (sint (bc_epoch (pr_columns r)), sint (bc_updated_at_ms (pr_columns r)))) (pdb_bindings db)"

definition unsettled_pipefs_bindings :: "projection_db \<Rightarrow> string \<Rightarrow> binding_record list" where
  "unsettled_pipefs_bindings db s =
     query_projections (\<lambda>r. bc_session_id (pr_columns r) = Some s \<and> bc_authority (pr_columns r) = ProjPipeFs
         \<and> binding_unsettled db (pr_id r))
       (\<lambda>r. (sint (bc_epoch (pr_columns r)), sint (bc_updated_at_ms (pr_columns r)))) (pdb_bindings db)"

definition latest_session_snapshot :: "projection_db \<Rightarrow> string \<Rightarrow> session_snapshot_record option" where
  "latest_session_snapshot db s =
     first_projection (query_projections (\<lambda>r. sc_session_id (pr_columns r) = s)
       (\<lambda>r. - sint (sc_through_sequence (pr_columns r))) (pdb_snapshots db))"

end
