(* ===== verification/Projection_Correct.thy ===== *)
theory Projection_Correct
  imports Projection_Store Simulation
begin

text \<open>
  Correctness of the projection store. A transition is a version of one record: the store keeps the last
  version of each, in the order of its revisions, and the table of projection events keeps one row per
  version. The theory shows that a revision is committed by one event only, that a batch is all or
  nothing and can be retried at any later time, that the identity of a record never changes and a
  finished job never again, and that the store implements a map of version histories.
\<close>

section \<open>The current version of a projection\<close>

definition current_projection :: "projection_db \<Rightarrow> projection_kind \<Rightarrow> string \<Rightarrow> projection_transition option" where
  "current_projection db k i =
     (case k of
        PkBinding \<Rightarrow> map_option TrBinding (get_projection (pdb_bindings db) i)
      | PkOperation \<Rightarrow> map_option TrOperation (get_projection (pdb_operations db) i)
      | PkJob \<Rightarrow> map_option TrJob (get_projection (pdb_jobs db) i)
      | PkRecovery \<Rightarrow> map_option TrRecovery (get_projection (pdb_recoveries db) i)
      | PkSnapshot \<Rightarrow> map_option TrSnapshot (get_projection (pdb_snapshots db) i))"

abbreviation transition_revision :: "projection_transition \<Rightarrow> u64" where
  "transition_revision tr \<equiv> snd (snd (transition_identity tr))"

definition version_count :: "projection_db \<Rightarrow> projection_kind \<Rightarrow> string \<Rightarrow> nat" where
  "version_count db k i = (case current_projection db k i of None \<Rightarrow> 0 | Some tr \<Rightarrow> unat (transition_revision tr))"

text \<open>What a version must keep of its predecessor.\<close>

fun projection_successor :: "projection_transition \<Rightarrow> projection_transition \<Rightarrow> bool" where
  "projection_successor (TrBinding old) (TrBinding r) = same_binding r old"
| "projection_successor (TrOperation old) (TrOperation r) = same_operation r old"
| "projection_successor (TrJob old) (TrJob r) = same_job r old"
| "projection_successor (TrRecovery old) (TrRecovery r) = same_recovery r old"
| "projection_successor _ _ = False"

section \<open>One table\<close>

definition table_ok :: "('r \<Rightarrow> string) \<Rightarrow> ('r \<Rightarrow> u64) \<Rightarrow> ('c \<Rightarrow> 'r \<Rightarrow> bool) \<Rightarrow> ('c, 'r) proj_table \<Rightarrow> bool" where
  "table_ok idf revf cols t \<longleftrightarrow> distinct (map pr_id t) \<and>
     (\<forall>q \<in> set t. idf (pr_record q) = pr_id q \<and> revf (pr_record q) = pr_revision q \<and> 1 \<le> sint (pr_revision q)
        \<and> cols (pr_columns q) (pr_record q))"

lemma check_revision_ok:
  "check_revision t i n im = Inr () \<longleftrightarrow>
     (case find (\<lambda>r. pr_id r = i) t of None \<Rightarrow> n = 1 | Some cur \<Rightarrow> n = pr_revision cur + 1 \<and> im (pr_record cur))"
  by (simp add: check_revision_def split: option.split)

lemma find_None_key: "find (\<lambda>q. k q = i) t = None \<longleftrightarrow> i \<notin> k ` set t"
  by (auto simp: find_None_iff)

lemma row_known_find: "row_known t i \<longleftrightarrow> find (\<lambda>r. pr_id r = i) t \<noteq> None"
  by (auto simp: row_known_def find_None_iff)

lemma find_append_other: "find P (t @ [r]) = (case find P t of None \<Rightarrow> if P r then Some r else None | Some q \<Rightarrow> Some q)"
  by (induction t) auto

lemma sint_1_word: "sint (1 :: u64) = 1"
  using sint_small [of 1] by simp

text \<open>A write that succeeds puts the new version in place of the old one.\<close>

lemma proj_write_insert:
  assumes "proj_insert refs clash row t = Inr t'" "find (\<lambda>r. pr_id r = pr_id row) t = None"
  shows "t' = t @ [row]" "refs" "1 \<le> sint (pr_revision row)"
  using assms(1) by (auto simp: proj_insert_def sql_insert_def split: if_splits)

lemma proj_write_get:
  assumes ok: "table_ok idf revf cols t" and c: "check_revision t (pr_id row) (pr_revision row) im = Inr ()"
    and w: "proj_write refs refs' clash cf row t = Inr t'"
  shows "get_projection t' j = (if j = pr_id row then Some (pr_record row) else get_projection t j)"
proof (cases "find (\<lambda>r. pr_id r = pr_id row) t")
  case None
  then have "pr_revision row = 1" using c by (simp add: check_revision_ok)
  then have "t' = t @ [row]" using w None proj_write_insert(1) by (metis proj_write_def)
  then show ?thesis using None by (auto simp: get_projection_def find_append_other split: option.split)
next
  case (Some cur)
  then have cur: "cur \<in> set t" "pr_id cur = pr_id row" using find_key_Some by fast+
  have "1 \<le> sint (pr_revision cur)" using ok cur by (auto simp: table_ok_def)
  then have "pr_revision cur \<noteq> 0" by auto
  then have "pr_revision row \<noteq> 1" using c Some by (auto simp: check_revision_ok)
  then have t': "t' = sql_update (\<lambda>q. pr_id q = pr_id row) (\<lambda>q. q\<lparr>pr_columns := cf (pr_columns q),
      pr_revision := pr_revision row, pr_record := pr_record row, pr_last_event_id := pr_last_event_id row\<rparr>) t"
    using w by (auto simp: proj_write_def proj_update_def split: if_splits)
  show ?thesis unfolding t' get_projection_def
    by (subst find_sql_update) (auto simp: Some option.map_comp comp_def cur find_Some_iff intro!: option.map_cong)
qed

lemma proj_write_ok:
  assumes ok: "table_ok idf revf cols t" and c: "check_revision t (pr_id row) (pr_revision row) im = Inr ()"
    and w: "proj_write refs refs' clash cf row t = Inr t'"
    and row: "idf (pr_record row) = pr_id row" "revf (pr_record row) = pr_revision row" "cols (pr_columns row) (pr_record row)"
    and cf: "\<And>c old. cols c old \<Longrightarrow> im old \<Longrightarrow> cols (cf c) (pr_record row)"
  shows "table_ok idf revf cols t'"
proof (cases "find (\<lambda>r. pr_id r = pr_id row) t")
  case None
  then have "pr_revision row = 1" using c by (simp add: check_revision_ok)
  then have "t' = t @ [row]" "1 \<le> sint (pr_revision row)"
    using w None proj_write_insert(1,3) by (metis proj_write_def)+
  then show ?thesis using ok row None by (auto simp: table_ok_def find_None_key)
next
  case (Some cur)
  then have cur: "cur \<in> set t" "pr_id cur = pr_id row" using find_key_Some by fast+
  have "1 \<le> sint (pr_revision cur)" using ok cur by (auto simp: table_ok_def)
  then have n1: "pr_revision row \<noteq> 1" using c Some by (auto simp: check_revision_ok)
  have im: "im (pr_record cur)" using c Some by (simp add: check_revision_ok)
  have u: "proj_update refs' (pr_id row) (pr_revision row) cf (pr_record row) (pr_last_event_id row) t = Inr t'"
    using w n1 by (simp add: proj_write_def)
  have "row_known t (pr_id row)" using Some by (simp add: row_known_find)
  then have pos: "1 \<le> sint (pr_revision row)" and t': "t' = sql_update (\<lambda>q. pr_id q = pr_id row)
      (\<lambda>q. q\<lparr>pr_columns := cf (pr_columns q), pr_revision := pr_revision row, pr_record := pr_record row,
         pr_last_event_id := pr_last_event_id row\<rparr>) t"
    using u by (auto simp: proj_update_def split: if_splits)
  have new: "cols (cf (pr_columns q)) (pr_record row)" if "q \<in> set t" "pr_id q = pr_id row" for q
  proof -
    have d: "distinct (map pr_id t)" using ok by (simp add: table_ok_def)
    have "q = cur" using find_key [OF d that(1)] find_key [OF d cur(1)] that(2) cur(2) by simp
    moreover have "cols (pr_columns cur) (pr_record cur)" using ok cur(1) by (simp add: table_ok_def)
    ultimately show ?thesis using cf [OF _ im] by simp
  qed
  have "distinct (map pr_id t')" using ok unfolding t' by (subst sql_update_keeps) (simp_all add: table_ok_def)
  moreover have "idf (pr_record q) = pr_id q \<and> revf (pr_record q) = pr_revision q \<and> 1 \<le> sint (pr_revision q)
      \<and> cols (pr_columns q) (pr_record q)" if q: "q \<in> set t'" for q
  proof -
    obtain p where p: "p \<in> set t" "q = (if pr_id p = pr_id row then p\<lparr>pr_columns := cf (pr_columns p),
        pr_revision := pr_revision row, pr_record := pr_record row, pr_last_event_id := pr_last_event_id row\<rparr> else p)"
      using q unfolding t' sql_update_set by blast
    show ?thesis
    proof (cases "pr_id p = pr_id row")
      case True
      then show ?thesis using p row pos new [OF p(1) True] by simp
    next
      case False
      then show ?thesis using p ok by (simp add: table_ok_def)
    qed
  qed
  ultimately show ?thesis unfolding table_ok_def by blast
qed

lemma proj_write_revision:
  assumes ok: "table_ok idf revf cols t" and c: "check_revision t (pr_id row) (pr_revision row) im = Inr ()"
    and w: "proj_write refs refs' clash cf row t = Inr t'"
  shows "1 \<le> sint (pr_revision row)"
    and "case get_projection t (pr_id row) of None \<Rightarrow> pr_revision row = 1
         | Some old \<Rightarrow> pr_revision row = revf old + 1 \<and> im old"
proof -
  show r: "case get_projection t (pr_id row) of None \<Rightarrow> pr_revision row = 1
         | Some old \<Rightarrow> pr_revision row = revf old + 1 \<and> im old"
    using c ok by (auto simp: check_revision_ok get_projection_def table_ok_def dest: find_key_Some split: option.splits)
  show "1 \<le> sint (pr_revision row)"
  proof (cases "find (\<lambda>r. pr_id r = pr_id row) t")
    case None
    then have "pr_revision row = 1" using c by (simp add: check_revision_ok)
    then show ?thesis by (simp add: sint_1_word)
  next
    case (Some cur)
    then have "row_known t (pr_id row)" by (simp add: row_known_find)
    then show ?thesis using w
      by (auto simp: proj_write_def proj_update_def sint_1_word split: if_splits)
  qed
qed

section \<open>All tables\<close>

definition binding_columns_ok :: "binding_columns \<Rightarrow> binding_record \<Rightarrow> bool" where
  "binding_columns_ok c r \<longleftrightarrow> c = \<lparr>bc_workspace_id = bnd_workspace_id r, bc_session_id = bnd_session_id r,
     bc_epoch = bnd_epoch r, bc_authority = bnd_authority r, bc_updated_at_ms = bnd_updated_at_ms r\<rparr>"

definition operation_columns_ok :: "operation_columns \<Rightarrow> operation_record \<Rightarrow> bool" where
  "operation_columns_ok c r \<longleftrightarrow> c = \<lparr>oc_binding_id = or_binding_id r, oc_status = or_status r,
     oc_idempotency_key = or_idempotency_key r, oc_created_at_ms = or_created_at_ms r\<rparr>"

definition job_columns_ok :: "job_columns \<Rightarrow> control_job_record \<Rightarrow> bool" where
  "job_columns_ok c r \<longleftrightarrow> c = \<lparr>jc_binding_id = jr_binding_id r, jc_state = jr_state r,
     jc_idempotency_key = jr_idempotency_key r, jc_created_at_ms = jr_created_at_ms r,
     jc_updated_at_ms = jr_updated_at_ms r\<rparr>"

text \<open>The session of a recovery is the one column whose record may move on without it.\<close>

definition recovery_columns_ok :: "recovery_columns \<Rightarrow> workspace_recovery_record \<Rightarrow> bool" where
  "recovery_columns_ok c r \<longleftrightarrow> (\<exists>s. c = \<lparr>rvc_binding_id = wr_binding_id r, rvc_workspace_id = wr_workspace_id r,
     rvc_session_id = s, rvc_operation_id = wr_operation_id r, rvc_job_id = wr_job_id r,
     rvc_status = wr_status r, rvc_updated_at_ms = wr_updated_at_ms r\<rparr>)"

definition snapshot_columns_ok :: "snapshot_columns \<Rightarrow> session_snapshot_record \<Rightarrow> bool" where
  "snapshot_columns_ok c r \<longleftrightarrow> c = \<lparr>sc_session_id = sn_session_id r, sc_through_sequence = sn_through_sequence r\<rparr>"

definition tables_ok :: "projection_db \<Rightarrow> bool" where
  "tables_ok db \<longleftrightarrow> table_ok bnd_binding_id bnd_revision binding_columns_ok (pdb_bindings db)
     \<and> table_ok or_operation_id or_revision operation_columns_ok (pdb_operations db)
     \<and> table_ok jr_job_id jr_revision job_columns_ok (pdb_jobs db)
     \<and> table_ok wr_recovery_id wr_revision recovery_columns_ok (pdb_recoveries db)
     \<and> table_ok sn_snapshot_id sn_revision snapshot_columns_ok (pdb_snapshots db)"

text \<open>What a transition does when it is transition_applied.\<close>

definition transition_applied :: "projection_db \<Rightarrow> projection_transition \<Rightarrow> projection_db \<Rightarrow> bool" where
  "transition_applied db tr db' \<longleftrightarrow> (case transition_identity tr of (k, i, n) \<Rightarrow>
     pdb_events db' = pdb_events db \<and> pdb_projected db' = pdb_projected db \<and> tables_ok db'
     \<and> (\<forall>k' i'. current_projection db' k' i' = (if k' = k \<and> i' = i then Some tr else current_projection db k' i'))
     \<and> 1 \<le> sint n
     \<and> (case current_projection db k i of None \<Rightarrow> n = 1
        | Some old \<Rightarrow> n = transition_revision old + 1 \<and> projection_successor old tr))"

lemma table_written:
  assumes ok: "table_ok idf revf cols t" and c: "check_revision t i n im = Inr ()"
    and w: "proj_write refs refs' clash cf row t = Inr t'"
    and row: "pr_id row = i" "pr_revision row = n" "pr_record row = r" "idf r = i" "revf r = n" "cols (pr_columns row) r"
    and cf: "\<And>c old. cols c old \<Longrightarrow> im old \<Longrightarrow> cols (cf c) r"
  shows "table_ok idf revf cols t' \<and> 1 \<le> sint n
     \<and> (\<forall>j. get_projection t' j = (if j = i then Some r else get_projection t j))
     \<and> (case get_projection t i of None \<Rightarrow> n = 1 | Some old \<Rightarrow> n = revf old + 1 \<and> im old)"
proof -
  have c': "check_revision t (pr_id row) (pr_revision row) im = Inr ()" using c row by simp
  have "table_ok idf revf cols t'" by (rule proj_write_ok [OF ok c' w]) (simp_all add: row cf)
  then show ?thesis using proj_write_get [OF ok c' w] proj_write_revision [OF ok c' w] by (simp only: row) blast
qed

lemmas column_defs = binding_columns_ok_def operation_columns_ok_def job_columns_ok_def recovery_columns_ok_def
  snapshot_columns_ok_def

lemma row_fields [simp]:
  "pr_id (binding_row r ev) = bnd_binding_id r" "pr_revision (binding_row r ev) = bnd_revision r" "pr_record (binding_row r ev) = r"
  "binding_columns_ok (pr_columns (binding_row r ev)) r"
  "pr_id (operation_row q ev) = or_operation_id q" "pr_revision (operation_row q ev) = or_revision q" "pr_record (operation_row q ev) = q"
  "operation_columns_ok (pr_columns (operation_row q ev)) q"
  "pr_id (job_row j ev) = jr_job_id j" "pr_revision (job_row j ev) = jr_revision j" "pr_record (job_row j ev) = j"
  "job_columns_ok (pr_columns (job_row j ev)) j"
  "pr_id (recovery_row w ev) = wr_recovery_id w" "pr_revision (recovery_row w ev) = wr_revision w" "pr_record (recovery_row w ev) = w"
  "recovery_columns_ok (pr_columns (recovery_row w ev)) w"
  "pr_id (snapshot_row n ev) = sn_snapshot_id n" "pr_revision (snapshot_row n ev) = sn_revision n" "pr_record (snapshot_row n ev) = n"
  "snapshot_columns_ok (pr_columns (snapshot_row n ev)) n"
  by (simp_all add: binding_row_def operation_row_def job_row_def recovery_row_def snapshot_row_def column_defs)

lemma columns_step:
  "binding_columns_ok bc b \<Longrightarrow> same_binding b' b \<Longrightarrow> binding_columns_ok (bc\<lparr>bc_updated_at_ms := bnd_updated_at_ms b'\<rparr>) b'"
  "operation_columns_ok oc q \<Longrightarrow> same_operation q' q \<Longrightarrow> operation_columns_ok (oc\<lparr>oc_status := or_status q'\<rparr>) q'"
  "job_columns_ok jc j \<Longrightarrow> same_job j' j
     \<Longrightarrow> job_columns_ok (jc\<lparr>jc_state := jr_state j', jc_updated_at_ms := jr_updated_at_ms j'\<rparr>) j'"
  "recovery_columns_ok rc w \<Longrightarrow> same_recovery w' w
     \<Longrightarrow> recovery_columns_ok (rc\<lparr>rvc_status := wr_status w', rvc_updated_at_ms := wr_updated_at_ms w'\<rparr>) w'"
  by (auto simp: column_defs same_binding_def same_operation_def same_job_def same_recovery_def)

lemma transition_applied_binding:
  assumes "tables_ok db" "apply_binding db r ev = Inr db'"
  shows "transition_applied db (TrBinding r) db'"
proof -
  obtain t refs refs' clash where t: "check_revision (pdb_bindings db) (bnd_binding_id r) (bnd_revision r) (same_binding r) = Inr ()"
      "proj_write refs refs' clash (\<lambda>c. c\<lparr>bc_updated_at_ms := bnd_updated_at_ms r\<rparr>) (binding_row r ev) (pdb_bindings db) = Inr t"
      "db' = db\<lparr>pdb_bindings := t\<rparr>"
    using assms(2) by (auto simp: apply_binding_def)
  have ok: "table_ok bnd_binding_id bnd_revision binding_columns_ok (pdb_bindings db)" using assms(1) by (simp add: tables_ok_def)
  have "table_ok bnd_binding_id bnd_revision binding_columns_ok t \<and> 1 \<le> sint (bnd_revision r)
     \<and> (\<forall>j. get_projection t j = (if j = bnd_binding_id r then Some r else get_projection (pdb_bindings db) j))
     \<and> (case get_projection (pdb_bindings db) (bnd_binding_id r) of None \<Rightarrow> bnd_revision r = 1
        | Some old \<Rightarrow> bnd_revision r = bnd_revision old + 1 \<and> (same_binding r) old)"
    by (rule table_written [OF ok t(1,2)]) (simp_all add: columns_step)
  then show ?thesis using assms(1) t(3)
    by (auto simp: transition_applied_def tables_ok_def current_projection_def split: projection_kind.splits option.splits)
qed

lemma transition_applied_operation:
  assumes "tables_ok db" "apply_operation db r ev = Inr db'"
  shows "transition_applied db (TrOperation r) db'"
proof -
  obtain t refs refs' clash where t: "check_revision (pdb_operations db) (or_operation_id r) (or_revision r) (same_operation r) = Inr ()"
      "proj_write refs refs' clash (\<lambda>c. c\<lparr>oc_status := or_status r\<rparr>) (operation_row r ev) (pdb_operations db) = Inr t"
      "db' = db\<lparr>pdb_operations := t\<rparr>"
    using assms(2) by (auto simp: apply_operation_def)
  have ok: "table_ok or_operation_id or_revision operation_columns_ok (pdb_operations db)" using assms(1) by (simp add: tables_ok_def)
  have "table_ok or_operation_id or_revision operation_columns_ok t \<and> 1 \<le> sint (or_revision r)
     \<and> (\<forall>j. get_projection t j = (if j = or_operation_id r then Some r else get_projection (pdb_operations db) j))
     \<and> (case get_projection (pdb_operations db) (or_operation_id r) of None \<Rightarrow> or_revision r = 1
        | Some old \<Rightarrow> or_revision r = or_revision old + 1 \<and> (same_operation r) old)"
    by (rule table_written [OF ok t(1,2)]) (simp_all add: columns_step)
  then show ?thesis using assms(1) t(3)
    by (auto simp: transition_applied_def tables_ok_def current_projection_def split: projection_kind.splits option.splits)
qed

lemma transition_applied_job:
  assumes "tables_ok db" "apply_job db r ev = Inr db'"
  shows "transition_applied db (TrJob r) db'"
proof -
  obtain t refs refs' clash where t: "check_revision (pdb_jobs db) (jr_job_id r) (jr_revision r) (same_job r) = Inr ()"
      "proj_write refs refs' clash (\<lambda>c. c\<lparr>jc_state := jr_state r, jc_updated_at_ms := jr_updated_at_ms r\<rparr>) (job_row r ev) (pdb_jobs db) = Inr t"
      "db' = db\<lparr>pdb_jobs := t\<rparr>"
    using assms(2) by (auto simp: apply_job_def)
  have ok: "table_ok jr_job_id jr_revision job_columns_ok (pdb_jobs db)" using assms(1) by (simp add: tables_ok_def)
  have "table_ok jr_job_id jr_revision job_columns_ok t \<and> 1 \<le> sint (jr_revision r)
     \<and> (\<forall>j. get_projection t j = (if j = jr_job_id r then Some r else get_projection (pdb_jobs db) j))
     \<and> (case get_projection (pdb_jobs db) (jr_job_id r) of None \<Rightarrow> jr_revision r = 1
        | Some old \<Rightarrow> jr_revision r = jr_revision old + 1 \<and> (same_job r) old)"
    by (rule table_written [OF ok t(1,2)]) (simp_all add: columns_step)
  then show ?thesis using assms(1) t(3)
    by (auto simp: transition_applied_def tables_ok_def current_projection_def split: projection_kind.splits option.splits)
qed

lemma transition_applied_recovery:
  assumes "tables_ok db" "apply_recovery db r ev = Inr db'"
  shows "transition_applied db (TrRecovery r) db'"
proof -
  obtain t refs refs' clash where t: "check_revision (pdb_recoveries db) (wr_recovery_id r) (wr_revision r) (same_recovery r) = Inr ()"
      "proj_write refs refs' clash (\<lambda>c. c\<lparr>rvc_status := wr_status r, rvc_updated_at_ms := wr_updated_at_ms r\<rparr>) (recovery_row r ev) (pdb_recoveries db) = Inr t"
      "db' = db\<lparr>pdb_recoveries := t\<rparr>"
    using assms(2) by (auto simp: apply_recovery_def)
  have ok: "table_ok wr_recovery_id wr_revision recovery_columns_ok (pdb_recoveries db)" using assms(1) by (simp add: tables_ok_def)
  have "table_ok wr_recovery_id wr_revision recovery_columns_ok t \<and> 1 \<le> sint (wr_revision r)
     \<and> (\<forall>j. get_projection t j = (if j = wr_recovery_id r then Some r else get_projection (pdb_recoveries db) j))
     \<and> (case get_projection (pdb_recoveries db) (wr_recovery_id r) of None \<Rightarrow> wr_revision r = 1
        | Some old \<Rightarrow> wr_revision r = wr_revision old + 1 \<and> (same_recovery r) old)"
    by (rule table_written [OF ok t(1,2)]) (simp_all add: columns_step)
  then show ?thesis using assms(1) t(3)
    by (auto simp: transition_applied_def tables_ok_def current_projection_def split: projection_kind.splits option.splits)
qed

lemma transition_applied_snapshot:
  assumes "tables_ok db" "apply_snapshot db r ev = Inr db'"
  shows "transition_applied db (TrSnapshot r) db'"
proof -
  obtain t refs refs' clash where t: "check_revision (pdb_snapshots db) (sn_snapshot_id r) (sn_revision r) (\<lambda>_. False) = Inr ()"
      "proj_write refs refs' clash (\<lambda>c. c) (snapshot_row r ev) (pdb_snapshots db) = Inr t"
      "db' = db\<lparr>pdb_snapshots := t\<rparr>"
    using assms(2) by (auto simp: apply_snapshot_def proj_write_def)
  have ok: "table_ok sn_snapshot_id sn_revision snapshot_columns_ok (pdb_snapshots db)" using assms(1) by (simp add: tables_ok_def)
  have "table_ok sn_snapshot_id sn_revision snapshot_columns_ok t \<and> 1 \<le> sint (sn_revision r)
     \<and> (\<forall>j. get_projection t j = (if j = sn_snapshot_id r then Some r else get_projection (pdb_snapshots db) j))
     \<and> (case get_projection (pdb_snapshots db) (sn_snapshot_id r) of None \<Rightarrow> sn_revision r = 1
        | Some old \<Rightarrow> sn_revision r = sn_revision old + 1 \<and> (\<lambda>_. False) old)"
    by (rule table_written [OF ok t(1,2)]) simp_all
  then show ?thesis using assms(1) t(3)
    by (auto simp: transition_applied_def tables_ok_def current_projection_def split: projection_kind.splits option.splits)
qed

lemma apply_transition_applied:
  assumes "tables_ok db" "apply_transition db tr ev = Inr db'"
  shows "transition_applied db tr db'"
  using assms by (cases tr) (simp_all add: transition_applied_binding transition_applied_operation transition_applied_job transition_applied_recovery transition_applied_snapshot)

section \<open>Commits\<close>

abbreviation version_key :: "projection_event_row \<Rightarrow> string \<times> string \<times> u64" where
  "version_key p \<equiv> (pev_kind p, pev_projection_id p, pev_revision p)"

definition proj_inv :: "projection_db \<Rightarrow> bool" where
  "proj_inv db \<longleftrightarrow> tables_ok db \<and> numbered (pdb_events db) \<and> distinct (map er_event_id (pdb_events db))
     \<and> distinct (map pev_event_id (pdb_projected db)) \<and> distinct (map version_key (pdb_projected db))
     \<and> (\<forall>p \<in> set (pdb_projected db). event_known db (pev_event_id p))"

lemma proj_inv_empty: "proj_inv empty_projections"
  by (simp add: proj_inv_def empty_projections_def tables_ok_def table_ok_def)

lemma tables_ok_events [simp]:
  "tables_ok (db\<lparr>pdb_events := t\<rparr>) = tables_ok db" "tables_ok (db\<lparr>pdb_projected := ps\<rparr>) = tables_ok db"
  by (simp_all add: tables_ok_def)

lemma current_projection_events [simp]:
  "current_projection (db\<lparr>pdb_events := t\<rparr>) = current_projection db"
  "current_projection (db\<lparr>pdb_projected := ps\<rparr>) = current_projection db"
  by (simp_all add: current_projection_def fun_eq_iff split: projection_kind.split)

text \<open>A transition and its event are on record with this receipt.\<close>

definition transition_valid :: "projection_transition \<Rightarrow> run_event \<Rightarrow> bool" where
  "transition_valid tr e \<longleftrightarrow> validate_transition tr = Inr () \<and> ev_schema_version e = event_schema_version
     \<and> ev_durability e = DurabilityRequired"

definition projected_row :: "(projection_transition \<Rightarrow> string) \<Rightarrow> projection_transition \<Rightarrow> run_event \<Rightarrow> projection_event_row" where
  "projected_row digest tr e = (case transition_identity tr of (k, i, n) \<Rightarrow>
     \<lparr>pev_event_id = ev_event_id e, pev_kind = projection_kind_as_str k, pev_projection_id = i, pev_revision = n,
      pev_digest = digest tr\<rparr>)"

definition receipt_at :: "projection_transition \<Rightarrow> run_event \<Rightarrow> u64 \<Rightarrow> projection_receipt" where
  "receipt_at tr e s = (case transition_identity tr of (k, i, n) \<Rightarrow>
     \<lparr>rcp_kind = k, rcp_id = i, rcp_revision = n, rcp_event = \<lparr>rc_event_id = ev_event_id e, rc_sequence = s\<rparr>\<rparr>)"

definition committed :: "(projection_transition \<Rightarrow> string) \<Rightarrow> projection_transition \<Rightarrow> run_event \<Rightarrow> projection_receipt
    \<Rightarrow> projection_db \<Rightarrow> bool" where
  "committed digest tr e rcp db \<longleftrightarrow> transition_valid tr e \<and> projected_row digest tr e \<in> set (pdb_projected db)
     \<and> (\<exists>s. \<exists>row \<in> set (pdb_events db). er_event_id row = ev_event_id e \<and> er_event row = e\<lparr>ev_sequence := s\<rparr>
          \<and> rcp = receipt_at tr e s)"

definition new_event_row :: "event_table \<Rightarrow> run_event \<Rightarrow> event_row" where
  "new_event_row t e = \<lparr>er_sequence = of_nat (length t + 1), er_event_id = ev_event_id e,
     er_occurred_at_ms = ev_occurred_at_ms e, er_event = e\<lparr>ev_sequence := of_nat (length t + 1)\<rparr>\<rparr>"

lemma append_fresh_event:
  assumes "numbered t" "ev_schema_version e = event_schema_version" "\<forall>r \<in> set t. er_event_id r \<noteq> ev_event_id e"
    "append_event e t = (Inr receipt, t')"
  shows "t' = t @ [new_event_row t e]"
    "receipt = \<lparr>rc_event_id = ev_event_id e, rc_sequence = of_nat (length t + 1)\<rparr>" "numbered t'"
proof -
  have room: "length t + 1 < 2 ^ 63" using append_full [OF assms(1)] assms(2-4) by fastforce
  then show "t' = t @ [new_event_row t e]"
    "receipt = \<lparr>rc_event_id = ev_event_id e, rc_sequence = of_nat (length t + 1)\<rparr>"
    using append_numbered [OF assms(1-3) room] assms(4) by (simp_all add: new_event_row_def)
  show "numbered t'" using append_keeps_numbered [OF assms(1), of e] assms(4) by simp
qed

lemma existing_projection:
  assumes inv: "proj_inv db" and p: "p \<in> set (pdb_projected db)" "pev_event_id p = i"
    and row: "row \<in> set (pdb_events db)" "er_event_id row = i"
  shows "existing_projection_event db i = Some (p, er_event row)"
proof -
  have "find (\<lambda>q. pev_event_id q = i) (pdb_projected db) = Some p"
    using find_key [of pev_event_id "pdb_projected db" p] inv p by (simp add: proj_inv_def)
  moreover have "find (\<lambda>q. er_event_id q = i) (pdb_events db) = Some row"
    using find_key [of er_event_id "pdb_events db" row] inv row by (simp add: proj_inv_def)
  ultimately show ?thesis by (simp add: existing_projection_event_def)
qed

lemma committed_retry:
  assumes "proj_inv db" "committed digest tr e rcp db"
  shows "commit_projection_in_transaction digest tr e db = Inr (rcp, db)"
proof -
  obtain s row where row: "row \<in> set (pdb_events db)" "er_event_id row = ev_event_id e"
      "er_event row = e\<lparr>ev_sequence := s\<rparr>" "rcp = receipt_at tr e s"
    and v: "transition_valid tr e" and p: "projected_row digest tr e \<in> set (pdb_projected db)"
    using assms(2) by (auto simp: committed_def)
  obtain k i n where id: "transition_identity tr = (k, i, n)" by (cases "transition_identity tr") auto
  have "existing_projection_event db (ev_event_id e) = Some (projected_row digest tr e, e\<lparr>ev_sequence := s\<rparr>)"
    using existing_projection [OF assms(1) p _ row(1,2)] row(3) id by (simp add: projected_row_def)
  then show ?thesis using v id row(4)
    by (simp add: commit_projection_in_transaction_def transition_valid_def projected_row_def receipt_at_def)
qed

lemma existing_projection_Some:
  assumes "existing_projection_event db i = Some (p, old)"
  obtains row where "p \<in> set (pdb_projected db)" "pev_event_id p = i" "row \<in> set (pdb_events db)" "er_event_id row = i"
    "er_event row = old"
  using assms by (auto simp: existing_projection_event_def split: option.splits dest!: find_key_Some)

lemma projection_commit_cases:
  assumes inv: "proj_inv db" and c: "commit_projection_in_transaction digest tr e db = Inr (rcp, db')"
  obtains (replayed) "db' = db" "committed digest tr e rcp db"
  | (fresh) db1 where "transition_valid tr e" "\<not> event_known db (ev_event_id e)"
      "transition_applied (db\<lparr>pdb_events := pdb_events db @ [new_event_row (pdb_events db) e]\<rparr>) tr db1"
      "\<forall>q \<in> set (pdb_projected db). pev_event_id q \<noteq> ev_event_id e \<and> version_key q \<noteq> version_key (projected_row digest tr e)"
      "db' = db1\<lparr>pdb_projected := pdb_projected db @ [projected_row digest tr e]\<rparr>"
      "numbered (pdb_events db')" "rcp = receipt_at tr e (of_nat (length (pdb_events db) + 1))"
proof -
  obtain k i n where id: "transition_identity tr = (k, i, n)" by (cases "transition_identity tr") auto
  have v: "transition_valid tr e"
    using c by (simp add: commit_projection_in_transaction_def transition_valid_def)
  show thesis
  proof (cases "existing_projection_event db (ev_event_id e)")
    case (Some po)
    obtain p old where po: "po = (p, old)" by (cases po)
    obtain row where row: "p \<in> set (pdb_projected db)" "pev_event_id p = ev_event_id e" "row \<in> set (pdb_events db)"
        "er_event_id row = ev_event_id e" "er_event row = old"
      using existing_projection_Some Some po by blast
    have m: "pev_kind p = projection_kind_as_str k" "pev_projection_id p = i" "pev_revision p = n" "pev_digest p = digest tr"
        "old = e\<lparr>ev_sequence := ev_sequence old\<rparr>" "db' = db" "rcp = receipt_at tr e (ev_sequence old)"
      using c v Some po id
      by (auto simp: commit_projection_in_transaction_def transition_valid_def receipt_at_def)
    have "p = projected_row digest tr e" using m row(2) id by (cases p) (simp add: projected_row_def)
    then have "committed digest tr e rcp db" unfolding committed_def using v row m by blast
    then show thesis using replayed m(6) by blast
  next
    case None
    have un: "\<not> event_known db (ev_event_id e)"
      using c v None id by (simp add: commit_projection_in_transaction_def transition_valid_def)
    obtain receipt t db1 where a: "append_event_in_transaction e (pdb_events db) = (Inr receipt, t)"
        and ap: "apply_transition (db\<lparr>pdb_events := t\<rparr>) tr (ev_event_id e) = Inr db1"
        and ip: "insert_projected (projected_row digest tr e) db1 = Inr db'"
        and r: "rcp = \<lparr>rcp_kind = k, rcp_id = i, rcp_revision = n, rcp_event = receipt\<rparr>"
      using c v None id un
      by (auto simp: commit_projection_in_transaction_def transition_valid_def projected_row_def
            split: prod.splits sum.splits)
    have "append_event e (pdb_events db) = (Inr receipt, t)" using a v by (simp add: append_event_def transition_valid_def)
    then have t: "t = pdb_events db @ [new_event_row (pdb_events db) e]"
        "receipt = \<lparr>rc_event_id = ev_event_id e, rc_sequence = of_nat (length (pdb_events db) + 1)\<rparr>" "numbered t"
      using append_fresh_event [of "pdb_events db" e receipt t] inv un v
      by (auto simp: proj_inv_def event_known_def transition_valid_def)
    have apd: "transition_applied (db\<lparr>pdb_events := t\<rparr>) tr db1"
      using apply_transition_applied [OF _ ap] inv by (simp add: proj_inv_def)
    then have pp: "pdb_projected db1 = pdb_projected db" "pdb_events db1 = t" by (auto simp: transition_applied_def split: prod.splits)
    then have "db' = db1\<lparr>pdb_projected := pdb_projected db @ [projected_row digest tr e]\<rparr>"
        "\<forall>q \<in> set (pdb_projected db). pev_event_id q \<noteq> ev_event_id e \<and> version_key q \<noteq> version_key (projected_row digest tr e)"
      using ip id by (auto simp: insert_projected_def sql_insert_def projected_row_def split: if_splits)
    then show thesis using fresh [of db1] v un apd t pp r id by (simp add: receipt_at_def)
  qed
qed

section \<open>What commits keep\<close>

definition next_version :: "projection_transition \<Rightarrow> projection_transition \<Rightarrow> bool" where
  "next_version old new \<longleftrightarrow> projection_successor old new \<and> transition_revision new = transition_revision old + 1
     \<and> 1 \<le> sint (transition_revision new)"

definition proj_adv :: "projection_db \<Rightarrow> projection_db \<Rightarrow> bool" where
  "proj_adv db db' \<longleftrightarrow> prefix (pdb_events db) (pdb_events db') \<and> prefix (pdb_projected db) (pdb_projected db')
     \<and> (\<forall>k i old. current_projection db k i = Some old
          \<longrightarrow> (\<exists>new. current_projection db' k i = Some new \<and> next_version\<^sup>*\<^sup>* old new))"

lemma proj_adv_refl: "proj_adv db db"
  by (simp add: proj_adv_def)

lemma proj_adv_trans: "proj_adv db db' \<Longrightarrow> proj_adv db' db'' \<Longrightarrow> proj_adv db db''"
  unfolding proj_adv_def by (meson prefix_order.trans rtranclp_trans)

lemma committed_mono: "committed digest tr e rcp db \<Longrightarrow> proj_adv db db' \<Longrightarrow> committed digest tr e rcp db'"
  unfolding committed_def proj_adv_def by (meson set_mono_prefix subsetD)

lemma commit_one:
  assumes inv: "proj_inv db" and c: "commit_projection_in_transaction digest tr e db = Inr (rcp, db')"
  shows "proj_inv db' \<and> proj_adv db db' \<and> committed digest tr e rcp db'"
  using inv c
proof (cases rule: projection_commit_cases)
  case replayed
  then show ?thesis using inv by (simp add: proj_adv_refl)
next
  case (fresh db1)
  obtain k i n where id: "transition_identity tr = (k, i, n)" by (cases "transition_identity tr") auto
  let ?row = "new_event_row (pdb_events db) e"
  have a: "pdb_events db1 = pdb_events db @ [?row]" "tables_ok db1"
      "\<forall>k' i'. current_projection db1 k' i' = (if k' = k \<and> i' = i then Some tr else current_projection db k' i')"
      "1 \<le> sint n" "case current_projection db k i of None \<Rightarrow> n = 1
        | Some old \<Rightarrow> n = transition_revision old + 1 \<and> projection_successor old tr"
    using fresh(3) id by (simp_all add: transition_applied_def)
  have e': "pdb_events db' = pdb_events db @ [?row]"
      and p': "pdb_projected db' = pdb_projected db @ [projected_row digest tr e]"
    using fresh(5) a(1) by simp_all
  have "proj_inv db'"
    using inv fresh(2,4,5,6) a(1,2) e' p'
    by (auto simp: proj_inv_def event_known_def new_event_row_def projected_row_def split: prod.splits)
  moreover have "proj_adv db db'"
  proof -
    have "\<exists>new. current_projection db' k' i' = Some new \<and> next_version\<^sup>*\<^sup>* old new"
      if "current_projection db k' i' = Some old" for k' i' old
    proof (cases "k' = k \<and> i' = i")
      case True
      then have "next_version old tr" using a(4,5) that id by (simp add: next_version_def)
      then show ?thesis using True a(3) fresh(5) by auto
    next
      case False
      then show ?thesis using a(3) fresh(5) that by auto
    qed
    then show ?thesis using e' p' by (simp add: proj_adv_def)
  qed
  moreover have "committed digest tr e rcp db'"
    using fresh(1,7) e' p' unfolding committed_def
    by (intro conjI exI [of _ "of_nat (length (pdb_events db) + 1)"] bexI [of _ ?row])
      (simp_all add: new_event_row_def)
  ultimately show ?thesis by blast
qed

lemma commit_all_ok:
  assumes "proj_inv db" "commit_all digest us db = Inr (rs, db')"
  shows "proj_inv db' \<and> proj_adv db db' \<and> list_all2 (\<lambda>(tr, e) rcp. committed digest tr e rcp db') us rs"
  using assms
proof (induction us arbitrary: db rs)
  case (Cons u us)
  obtain tr e where u: "u = (tr, e)" by (cases u)
  obtain r db1 rs' where 1: "commit_projection_in_transaction digest tr e db = Inr (r, db1)"
      "commit_all digest us db1 = Inr (rs', db')" "rs = r # rs'"
    using Cons.prems(2) u by auto
  have o: "proj_inv db1" "proj_adv db db1" "committed digest tr e r db1" using commit_one [OF Cons.prems(1) 1(1)] by auto
  have "proj_inv db' \<and> proj_adv db1 db' \<and> list_all2 (\<lambda>(tr, e) rcp. committed digest tr e rcp db') us rs'"
    using Cons.IH [OF o(1) 1(2)] .
  then show ?case using o committed_mono proj_adv_trans 1(3) u by auto
qed (simp add: proj_adv_refl)

lemma commit_events_ok:
  assumes "proj_inv db"
  shows "proj_inv (snd (commit_projection_events digest us db))" "proj_adv db (snd (commit_projection_events digest us db))"
  using commit_all_ok [OF assms, of digest us]
  by (auto simp: commit_projection_events_def assms proj_adv_refl split: sum.split)

interpretation projections: ordered_steps "\<lambda>us db. snd (commit_projection_events digest us db)" proj_inv proj_adv
  for digest
  by unfold_locales (auto simp: commit_events_ok proj_adv_refl intro: proj_adv_trans)

text \<open>A batch that is on record is answered from the record.\<close>

lemma commit_all_retry:
  assumes "proj_inv db" "list_all2 (\<lambda>(tr, e) rcp. committed digest tr e rcp db) us rs"
  shows "commit_all digest us db = Inr (rs, db)"
  using assms(2)
proof (induction us rs rule: list_all2_induct)
  case (Cons u us r rs)
  then show ?case using committed_retry [OF assms(1)] by (cases u) auto
qed simp

lemma committed_batch_mono:
  assumes "list_all2 (\<lambda>(tr, e) rcp. committed digest tr e rcp db) us rs" "proj_adv db db'"
  shows "list_all2 (\<lambda>(tr, e) rcp. committed digest tr e rcp db') us rs"
  using assms by (auto elim!: list_all2_mono committed_mono)

text \<open>Two transitions on record with the same kind, identity and revision are the same.\<close>

lemma committed_unique:
  assumes inv: "proj_inv db" and c: "committed digest tr e rcp db" "committed digest tr' e' rcp' db"
    and same: "transition_identity tr' = transition_identity tr"
  shows "digest tr' = digest tr \<and> e'\<lparr>ev_sequence := 0\<rparr> = e\<lparr>ev_sequence := 0\<rparr> \<and> rcp' = rcp"
proof -
  obtain s row where 1: "row \<in> set (pdb_events db)" "er_event_id row = ev_event_id e" "er_event row = e\<lparr>ev_sequence := s\<rparr>"
      "rcp = receipt_at tr e s"
    using c(1) by (auto simp: committed_def)
  obtain s' row' where 2: "row' \<in> set (pdb_events db)" "er_event_id row' = ev_event_id e'"
      "er_event row' = e'\<lparr>ev_sequence := s'\<rparr>" "rcp' = receipt_at tr' e' s'"
    using c(2) by (auto simp: committed_def)
  have p: "projected_row digest tr e \<in> set (pdb_projected db)" "projected_row digest tr' e' \<in> set (pdb_projected db)"
    using c by (simp_all add: committed_def)
  have "version_key (projected_row digest tr' e') = version_key (projected_row digest tr e)"
    using same by (simp add: projected_row_def split: prod.split)
  then have q: "projected_row digest tr' e' = projected_row digest tr e"
    using p inv by (auto simp: proj_inv_def distinct_map dest: inj_onD)
  then have ids: "ev_event_id e' = ev_event_id e" "digest tr' = digest tr"
    using same by (simp_all add: projected_row_def split: prod.splits)
  have "inj_on er_event_id (set (pdb_events db))" using inv by (simp add: proj_inv_def distinct_map)
  then have "row' = row" using ids(1) 1(1,2) 2(1,2) by (simp add: inj_on_def)
  then have ev: "e'\<lparr>ev_sequence := s'\<rparr> = e\<lparr>ev_sequence := s\<rparr>" using 1(3) 2(3) by simp
  then have "s' = s" by (metis run_event.select_convs(3) run_event.surjective run_event.update_convs(3))
  moreover have "e'\<lparr>ev_sequence := 0\<rparr> = e\<lparr>ev_sequence := 0\<rparr>"
    using arg_cong [OF ev, of "\<lambda>x. x\<lparr>ev_sequence := 0\<rparr>"] by simp
  ultimately show ?thesis using ids 1(4) 2(4) same by (simp add: receipt_at_def)
qed

section \<open>The store as a map of version histories\<close>

type_synonym version_map = "projection_kind \<Rightarrow> string \<Rightarrow> projection_transition list"

text \<open>The specification: a version is appended to the history of its record when its revision is the next
  one and it keeps the identity of the version before.\<close>

definition version_append :: "projection_transition \<Rightarrow> version_map \<Rightarrow> version_map \<Rightarrow> bool" where
  "version_append tr h h' \<longleftrightarrow> (case transition_identity tr of (k, i, n) \<Rightarrow>
     unat n = length (h k i) + 1 \<and> (h k i = [] \<or> projection_successor (last (h k i)) tr)
     \<and> h' = h(k := (h k)(i := h k i @ [tr])))"

text \<open>A batch appends some of its versions, in their order.\<close>

definition batch_spec :: "(projection_transition \<times> run_event) list \<Rightarrow> version_map \<Rightarrow> version_map \<Rightarrow> bool" where
  "batch_spec us h h' \<longleftrightarrow> (\<exists>new. subseq new (map fst us) \<and> runs version_append new h h')"

definition recorded_versions :: "projection_db \<Rightarrow> projection_kind \<Rightarrow> string \<Rightarrow> (u64 \<times> string) list" where
  "recorded_versions db k i = map (\<lambda>p. (pev_revision p, pev_digest p))
     (filter (\<lambda>p. pev_kind p = projection_kind_as_str k \<and> pev_projection_id p = i) (pdb_projected db))"

definition holds_versions :: "(projection_transition \<Rightarrow> string) \<Rightarrow> version_map \<Rightarrow> projection_db \<Rightarrow> bool" where
  "holds_versions digest h db \<longleftrightarrow> (\<forall>k i.
     current_projection db k i = (if h k i = [] then None else Some (last (h k i)))
     \<and> length (h k i) < 2 ^ 63
     \<and> map transition_revision (h k i) = map (\<lambda>m. of_nat (m + 1)) [0..<length (h k i)]
     \<and> recorded_versions db k i = map (\<lambda>v. (transition_revision v, digest v)) (h k i))"

lemma projection_kind_as_str_inj [simp]: "projection_kind_as_str k = projection_kind_as_str k' \<longleftrightarrow> k = k'"
  by (cases k; cases k') simp_all

lemma last_revision:
  assumes "map transition_revision vs = map (\<lambda>m. of_nat (m + 1)) [0..<length vs]" "vs \<noteq> []"
  shows "transition_revision (last vs) = of_nat (length vs)"
proof -
  have "transition_revision (last vs) = last (map transition_revision vs)" using assms(2) by (simp add: last_map)
  also have "\<dots> = of_nat (length vs)" unfolding assms(1) using assms(2) by (simp add: last_map del: of_nat_add of_nat_Suc)
  finally show ?thesis .
qed

lemma signed_room:
  assumes "m < 2 ^ 63" "1 \<le> sint (of_nat (m + 1) :: u64)"
  shows "m + 1 < 2 ^ 63"
proof (rule ccontr)
  assume "\<not> ?thesis"
  then have "m + 1 = 2 ^ 63" using assms(1) by simp
  then have "(of_nat (m + 1) :: u64) = of_nat (2 ^ 63)" by simp
  moreover have "sint (of_nat (2 ^ 63) :: u64) < 0" by (simp add: signed_of_nat signed_take_bit_int_greater_eq_self_iff)
  ultimately show False using assms(2) by simp
qed

lemma commit_appends:
  assumes inv: "proj_inv db" and h: "holds_versions digest h db"
    and c: "commit_projection_in_transaction digest tr e db = Inr (rcp, db')"
  shows "\<exists>new h'. subseq new [tr] \<and> runs version_append new h h' \<and> holds_versions digest h' db'"
  using inv c
proof (cases rule: projection_commit_cases)
  case replayed
  then show ?thesis using h by (intro exI [of _ "[]"] exI [of _ h]) simp
next
  case (fresh db1)
  obtain k i n where id: "transition_identity tr = (k, i, n)" by (cases "transition_identity tr") auto
  let ?v = "h k i"
  let ?h = "h(k := (h k)(i := ?v @ [tr]))"
  have a: "\<forall>k' i'. current_projection db' k' i' = (if k' = k \<and> i' = i then Some tr else current_projection db k' i')"
      "1 \<le> sint n" "case current_projection db k i of None \<Rightarrow> n = 1
        | Some old \<Rightarrow> n = transition_revision old + 1 \<and> projection_successor old tr"
    using fresh(3,5) id by (simp_all add: transition_applied_def)
  have v: "length ?v < 2 ^ 63" "map transition_revision ?v = map (\<lambda>m. of_nat (m + 1)) [0..<length ?v]"
      "current_projection db k i = (if ?v = [] then None else Some (last ?v))"
    using h by (simp_all add: holds_versions_def)
  have n: "n = of_nat (length ?v + 1)" using a(3) v(3) last_revision [OF v(2)] by (cases "?v = []") simp_all
  have room: "length ?v + 1 < 2 ^ 63" using signed_room [OF v(1)] a(2) n by simp
  then have un: "unat n = length ?v + 1" unfolding n by (simp add: unsigned_of_nat take_bit_nat_eq_self del: of_nat_add of_nat_Suc)
  have app: "version_append tr h ?h" using un id a(3) v(3) by (auto simp: version_append_def split: if_splits)
  have rec: "recorded_versions db' k' i' = recorded_versions db k' i' @ (if k' = k \<and> i' = i then [(n, digest tr)] else [])" for k' i'
    using fresh(5) id by (auto simp: recorded_versions_def projected_row_def)
  have "holds_versions digest ?h db'"
    using h a(1) rec room v(2) id n unfolding holds_versions_def by (auto simp del: of_nat_add of_nat_Suc)
  then show ?thesis using app by (intro exI [of _ "[tr]"] exI [of _ ?h]) simp
qed

lemma commit_all_appends:
  assumes "proj_inv db" "holds_versions digest h db" "commit_all digest us db = Inr (rs, db')"
  shows "\<exists>h'. batch_spec us h h' \<and> holds_versions digest h' db'"
  using assms
proof (induction us arbitrary: db rs h)
  case Nil
  then show ?case unfolding batch_spec_def by (intro exI [of _ h] conjI exI [of _ "[]"]) simp_all
next
  case (Cons u us)
  obtain tr e where u: "u = (tr, e)" by (cases u)
  obtain r db1 rs' where 1: "commit_projection_in_transaction digest tr e db = Inr (r, db1)"
      "commit_all digest us db1 = Inr (rs', db')"
    using Cons.prems(3) u by auto
  obtain new h1 where 2: "subseq new [tr]" "runs version_append new h h1" "holds_versions digest h1 db1"
    using commit_appends [OF Cons.prems(1,2) 1(1)] by blast
  obtain more h' where 3: "subseq more (map fst us)" "runs version_append more h1 h'" "holds_versions digest h' db'"
    using Cons.IH [OF _ 2(3) 1(2)] commit_one [OF Cons.prems(1) 1(1)] by (auto simp: batch_spec_def)
  have "subseq (new @ more) ([tr] @ map fst us)" using 2(1) 3(1) by (rule list_emb_append_mono)
  moreover have "runs version_append (new @ more) h h'" using 2(2) 3(2) by (auto simp: runs_append)
  ultimately have "batch_spec (u # us) h h'" unfolding batch_spec_def u by auto
  then show ?case using 3(3) by blast
qed

interpretation versions: forward_simulation "\<lambda>us db. snd (commit_projection_events digest us db)" batch_spec
    "\<lambda>h db. proj_inv db \<and> holds_versions digest h db"
  for digest
proof unfold_locales
  fix h db us
  assume r: "proj_inv db \<and> holds_versions digest h db"
  show "\<exists>h'. batch_spec us h h' \<and> proj_inv (snd (commit_projection_events digest us db))
      \<and> holds_versions digest h' (snd (commit_projection_events digest us db))"
  proof (cases "commit_all digest us db")
    case (Inl err)
    have "batch_spec us h h" unfolding batch_spec_def by (intro exI [of _ "[]"]) simp
    then show ?thesis using r Inl by (auto simp: commit_projection_events_def)
  next
    case (Inr p)
    then show ?thesis using r commit_all_appends [of db digest h us] commit_events_ok(1) [of db digest us]
      by (cases p) (auto simp: commit_projection_events_def)
  qed
qed

lemma holds_no_versions: "holds_versions digest (\<lambda>_ _. []) empty_projections"
  by (simp add: holds_versions_def current_projection_def recorded_versions_def empty_projections_def get_projection_def
      split: projection_kind.split)

section \<open>Lineages\<close>

lemma next_version_later:
  assumes "next_version old new"
  shows "unat (transition_revision new) = unat (transition_revision old) + 1"
proof -
  have "transition_revision new \<noteq> 0" "transition_revision new = transition_revision old + 1"
    using assms by (auto simp: next_version_def)
  then show ?thesis by (metis Suc_eq_plus1 unatSuc add.commute)
qed

text \<open>What a later version has in common with an earlier one.\<close>

fun projection_keeps :: "projection_transition \<Rightarrow> projection_transition \<Rightarrow> bool" where
  "projection_keeps (TrBinding old) (TrBinding r) = same_binding r old"
| "projection_keeps (TrOperation old) (TrOperation r) = same_operation r old"
| "projection_keeps (TrJob old) (TrJob r) \<longleftrightarrow>
     (if control_job_terminal (jr_state old) then r = old else same_job (r\<lparr>jr_state := jr_state old\<rparr>) old)"
| "projection_keeps (TrRecovery old) (TrRecovery r) = same_recovery r old"
| "projection_keeps (TrSnapshot old) (TrSnapshot r) \<longleftrightarrow> r = old"
| "projection_keeps _ _ = False"

lemma projection_keeps_refl: "projection_keeps tr tr"
  by (cases tr) (simp_all add: same_binding_def same_operation_def same_job_def same_recovery_def)

lemma projection_keeps_step:
  assumes "projection_keeps old mid" "next_version mid new"
  shows "projection_keeps old new"
  using assms
  by (cases old; cases mid; cases new)
    (auto simp: next_version_def same_binding_def same_operation_def same_job_def same_recovery_def split: if_splits)

lemma lineage_keeps:
  assumes "next_version\<^sup>*\<^sup>* old new"
  shows "projection_keeps old new \<and> unat (transition_revision old) \<le> unat (transition_revision new)"
  using assms
proof (induction rule: rtranclp_induct)
  case (step mid new)
  then show ?case using projection_keeps_step next_version_later by fastforce
qed (simp add: projection_keeps_refl)

section \<open>Commits that go through\<close>

text \<open>The foreign keys and unique columns of a first revision.\<close>

fun references_ok :: "projection_db \<Rightarrow> projection_transition \<Rightarrow> bool" where
  "references_ok db (TrBinding r) \<longleftrightarrow> True"
| "references_ok db (TrOperation r) \<longleftrightarrow> row_known (pdb_bindings db) (or_binding_id r)
     \<and> (\<forall>q \<in> set (pdb_operations db). or_idempotency_key (pr_record q) \<noteq> or_idempotency_key r)"
| "references_ok db (TrJob r) \<longleftrightarrow> ref_or_null (pdb_bindings db) (jr_binding_id r)
     \<and> (jr_idempotency_key r = None \<or> (\<forall>q \<in> set (pdb_jobs db). jr_idempotency_key (pr_record q) \<noteq> jr_idempotency_key r))"
| "references_ok db (TrRecovery r) \<longleftrightarrow> ref_or_null (pdb_bindings db) (wr_binding_id r)
     \<and> ref_or_null (pdb_operations db) (wr_operation_id r) \<and> ref_or_null (pdb_jobs db) (wr_job_id r)"
| "references_ok db (TrSnapshot r) \<longleftrightarrow> (\<forall>q \<in> set (pdb_snapshots db).
     \<not> (sn_session_id (pr_record q) = sn_session_id r \<and> sn_through_sequence (pr_record q) = sn_through_sequence r))"

definition version_fits :: "projection_db \<Rightarrow> projection_transition \<Rightarrow> bool" where
  "version_fits db tr \<longleftrightarrow> (case transition_identity tr of (k, i, n) \<Rightarrow>
     (case current_projection db k i of None \<Rightarrow> n = 1 \<and> references_ok db tr | Some old \<Rightarrow> next_version old tr))"

lemma proj_write_succeeds:
  assumes ok: "table_ok idf revf cols t" and refs': "refs'" and pos: "1 \<le> sint (pr_revision row)"
    and first: "get_projection t (pr_id row) = None \<Longrightarrow> pr_revision row = 1 \<and> refs \<and> (\<forall>q \<in> set t. \<not> clash (pr_columns q))"
    and later: "\<And>old. get_projection t (pr_id row) = Some old \<Longrightarrow> pr_revision row = revf old + 1 \<and> im old"
  shows "check_revision t (pr_id row) (pr_revision row) im = Inr () \<and> (\<exists>t'. proj_write refs refs' clash cf row t = Inr t')"
proof (cases "find (\<lambda>r. pr_id r = pr_id row) t")
  case None
  then have "pr_revision row = 1 \<and> refs \<and> (\<forall>q \<in> set t. \<not> clash (pr_columns q))"
    using first by (simp add: get_projection_def)
  moreover have "\<forall>q \<in> set t. pr_id q \<noteq> pr_id row" using None by (simp add: find_None_iff)
  ultimately show ?thesis using None pos by (simp add: check_revision_ok proj_write_def proj_insert_def sql_insert_def)
next
  case (Some cur)
  then have cur: "cur \<in> set t" "pr_id cur = pr_id row" using find_key_Some by fast+
  then have "revf (pr_record cur) = pr_revision cur" "1 \<le> sint (pr_revision cur)" using ok by (auto simp: table_ok_def)
  moreover have "pr_revision row = revf (pr_record cur) + 1 \<and> im (pr_record cur)"
    using later [of "pr_record cur"] Some by (simp add: get_projection_def)
  moreover have "pr_revision row \<noteq> 1" using calculation by auto
  ultimately show ?thesis using Some refs' pos by (simp add: check_revision_ok proj_write_def proj_update_def)
qed

lemma apply_binding_succeeds:
  assumes ok: "tables_ok db" and fits: "version_fits db (TrBinding r)" and ev: "event_known db ev"
  shows "\<exists>db'. apply_binding db r ev = Inr db'"
proof -
  have t: "table_ok bnd_binding_id bnd_revision binding_columns_ok (pdb_bindings db)" using ok by (simp add: tables_ok_def)
  have pos: "1 \<le> sint (bnd_revision r)"
    using fits by (auto simp: version_fits_def current_projection_def next_version_def sint_1_word split: option.splits)
  have old: "bnd_revision r = bnd_revision q + 1 \<and> (same_binding r) q" if "get_projection (pdb_bindings db) (bnd_binding_id r) = Some q" for q
    using fits that by (simp add: version_fits_def current_projection_def next_version_def)
  have new: "bnd_revision r = 1 \<and> references_ok db (TrBinding r)" if "get_projection (pdb_bindings db) (bnd_binding_id r) = None"
    using fits that by (simp add: version_fits_def current_projection_def)
  have cols: "\<forall>q \<in> set (pdb_bindings db). binding_columns_ok (pr_columns q) (pr_record q)" using t by (simp add: table_ok_def)
  have "check_revision (pdb_bindings db) (pr_id (binding_row r ev)) (pr_revision (binding_row r ev)) (same_binding r) = Inr ()
    \<and> (\<exists>t'. proj_write (event_known db ev) (event_known db ev) (\<lambda>_. False)
          (\<lambda>c. c\<lparr>bc_updated_at_ms := bnd_updated_at_ms r\<rparr>) (binding_row r ev) (pdb_bindings db) = Inr t')"
    using pos old new ev cols by (intro proj_write_succeeds [OF t]) (auto simp: column_defs)
  then show ?thesis  by (auto simp: apply_binding_def)
qed

lemma apply_operation_succeeds:
  assumes ok: "tables_ok db" and fits: "version_fits db (TrOperation r)" and ev: "event_known db ev"
  shows "\<exists>db'. apply_operation db r ev = Inr db'"
proof -
  have t: "table_ok or_operation_id or_revision operation_columns_ok (pdb_operations db)" using ok by (simp add: tables_ok_def)
  have pos: "1 \<le> sint (or_revision r)"
    using fits by (auto simp: version_fits_def current_projection_def next_version_def sint_1_word split: option.splits)
  have old: "or_revision r = or_revision q + 1 \<and> (same_operation r) q" if "get_projection (pdb_operations db) (or_operation_id r) = Some q" for q
    using fits that by (simp add: version_fits_def current_projection_def next_version_def)
  have new: "or_revision r = 1 \<and> references_ok db (TrOperation r)" if "get_projection (pdb_operations db) (or_operation_id r) = None"
    using fits that by (simp add: version_fits_def current_projection_def)
  have cols: "\<forall>q \<in> set (pdb_operations db). operation_columns_ok (pr_columns q) (pr_record q)" using t by (simp add: table_ok_def)
  have "check_revision (pdb_operations db) (pr_id (operation_row r ev)) (pr_revision (operation_row r ev)) (same_operation r) = Inr ()
    \<and> (\<exists>t'. proj_write (event_known db ev \<and> row_known (pdb_bindings db) (or_binding_id r)) (event_known db ev) (\<lambda>c. oc_idempotency_key c = or_idempotency_key r)
          (\<lambda>c. c\<lparr>oc_status := or_status r\<rparr>) (operation_row r ev) (pdb_operations db) = Inr t')"
    using pos old new ev cols by (intro proj_write_succeeds [OF t]) (auto simp: column_defs)
  then show ?thesis  by (auto simp: apply_operation_def)
qed

lemma apply_job_succeeds:
  assumes ok: "tables_ok db" and fits: "version_fits db (TrJob r)" and ev: "event_known db ev"
  shows "\<exists>db'. apply_job db r ev = Inr db'"
proof -
  have t: "table_ok jr_job_id jr_revision job_columns_ok (pdb_jobs db)" using ok by (simp add: tables_ok_def)
  have pos: "1 \<le> sint (jr_revision r)"
    using fits by (auto simp: version_fits_def current_projection_def next_version_def sint_1_word split: option.splits)
  have old: "jr_revision r = jr_revision q + 1 \<and> (same_job r) q" if "get_projection (pdb_jobs db) (jr_job_id r) = Some q" for q
    using fits that by (simp add: version_fits_def current_projection_def next_version_def)
  have new: "jr_revision r = 1 \<and> references_ok db (TrJob r)" if "get_projection (pdb_jobs db) (jr_job_id r) = None"
    using fits that by (simp add: version_fits_def current_projection_def)
  have cols: "\<forall>q \<in> set (pdb_jobs db). job_columns_ok (pr_columns q) (pr_record q)" using t by (simp add: table_ok_def)
  have "check_revision (pdb_jobs db) (pr_id (job_row r ev)) (pr_revision (job_row r ev)) (same_job r) = Inr ()
    \<and> (\<exists>t'. proj_write (event_known db ev \<and> ref_or_null (pdb_bindings db) (jr_binding_id r)) (event_known db ev) (\<lambda>c. jr_idempotency_key r \<noteq> None \<and> jc_idempotency_key c = jr_idempotency_key r)
          (\<lambda>c. c\<lparr>jc_state := jr_state r, jc_updated_at_ms := jr_updated_at_ms r\<rparr>) (job_row r ev) (pdb_jobs db) = Inr t')"
    using pos old new ev cols by (intro proj_write_succeeds [OF t]) (auto simp: column_defs)
  then show ?thesis  by (auto simp: apply_job_def)
qed

lemma apply_recovery_succeeds:
  assumes ok: "tables_ok db" and fits: "version_fits db (TrRecovery r)" and ev: "event_known db ev"
  shows "\<exists>db'. apply_recovery db r ev = Inr db'"
proof -
  have t: "table_ok wr_recovery_id wr_revision recovery_columns_ok (pdb_recoveries db)" using ok by (simp add: tables_ok_def)
  have pos: "1 \<le> sint (wr_revision r)"
    using fits by (auto simp: version_fits_def current_projection_def next_version_def sint_1_word split: option.splits)
  have old: "wr_revision r = wr_revision q + 1 \<and> (same_recovery r) q" if "get_projection (pdb_recoveries db) (wr_recovery_id r) = Some q" for q
    using fits that by (simp add: version_fits_def current_projection_def next_version_def)
  have new: "wr_revision r = 1 \<and> references_ok db (TrRecovery r)" if "get_projection (pdb_recoveries db) (wr_recovery_id r) = None"
    using fits that by (simp add: version_fits_def current_projection_def)
  have cols: "\<forall>q \<in> set (pdb_recoveries db). recovery_columns_ok (pr_columns q) (pr_record q)" using t by (simp add: table_ok_def)
  have "check_revision (pdb_recoveries db) (pr_id (recovery_row r ev)) (pr_revision (recovery_row r ev)) (same_recovery r) = Inr ()
    \<and> (\<exists>t'. proj_write (event_known db ev \<and> ref_or_null (pdb_bindings db) (wr_binding_id r)
            \<and> ref_or_null (pdb_operations db) (wr_operation_id r) \<and> ref_or_null (pdb_jobs db) (wr_job_id r)) (event_known db ev) (\<lambda>_. False)
          (\<lambda>c. c\<lparr>rvc_status := wr_status r, rvc_updated_at_ms := wr_updated_at_ms r\<rparr>) (recovery_row r ev) (pdb_recoveries db) = Inr t')"
    using pos old new ev cols by (intro proj_write_succeeds [OF t]) (auto simp: column_defs)
  then show ?thesis  by (auto simp: apply_recovery_def)
qed

lemma apply_snapshot_succeeds:
  assumes ok: "tables_ok db" and fits: "version_fits db (TrSnapshot r)" and ev: "event_known db ev"
  shows "\<exists>db'. apply_snapshot db r ev = Inr db'"
proof -
  have t: "table_ok sn_snapshot_id sn_revision snapshot_columns_ok (pdb_snapshots db)" using ok by (simp add: tables_ok_def)
  have pos: "1 \<le> sint (sn_revision r)"
    using fits by (auto simp: version_fits_def current_projection_def next_version_def sint_1_word split: option.splits)
  have old: "sn_revision r = sn_revision q + 1 \<and> (\<lambda>_. False) q" if "get_projection (pdb_snapshots db) (sn_snapshot_id r) = Some q" for q
    using fits that by (simp add: version_fits_def current_projection_def next_version_def)
  have new: "sn_revision r = 1 \<and> references_ok db (TrSnapshot r)" if "get_projection (pdb_snapshots db) (sn_snapshot_id r) = None"
    using fits that by (simp add: version_fits_def current_projection_def)
  have cols: "\<forall>q \<in> set (pdb_snapshots db). snapshot_columns_ok (pr_columns q) (pr_record q)" using t by (simp add: table_ok_def)
  have "check_revision (pdb_snapshots db) (pr_id (snapshot_row r ev)) (pr_revision (snapshot_row r ev)) (\<lambda>_. False) = Inr ()
    \<and> (\<exists>t'. proj_write (event_known db ev) (event_known db ev) (\<lambda>c. sc_session_id c = sn_session_id r \<and> sc_through_sequence c = sn_through_sequence r)
          (\<lambda>c. c) (snapshot_row r ev) (pdb_snapshots db) = Inr t')"
    using pos old new ev cols by (intro proj_write_succeeds [OF t]) (auto simp: column_defs)
  then show ?thesis using new fits by (auto simp: apply_snapshot_def proj_write_def version_fits_def current_projection_def next_version_def split: option.splits)
qed

lemma apply_transition_succeeds:
  assumes "tables_ok db" "version_fits db tr" "event_known db ev"
  shows "\<exists>db'. apply_transition db tr ev = Inr db'"
  using assms
  by (cases tr) (simp_all add: apply_binding_succeeds apply_operation_succeeds apply_job_succeeds
      apply_recovery_succeeds apply_snapshot_succeeds)

lemma version_fits_events [simp]: "version_fits (db\<lparr>pdb_events := t\<rparr>) tr = version_fits db tr"
  by (cases tr) (simp_all add: version_fits_def split: option.split)

lemma version_fits_fresh:
  assumes h: "holds_versions digest h db" and fits: "version_fits db tr" and id: "transition_identity tr = (k, i, n)"
    and q: "q \<in> set (pdb_projected db)" "pev_kind q = projection_kind_as_str k" "pev_projection_id q = i"
  shows "pev_revision q \<noteq> n"
proof
  assume n: "pev_revision q = n"
  let ?v = "h k i"
  have v: "length ?v < 2 ^ 63" "map transition_revision ?v = map (\<lambda>m. of_nat (m + 1)) [0..<length ?v]"
      "current_projection db k i = (if ?v = [] then None else Some (last ?v))"
      "recorded_versions db k i = map (\<lambda>v. (transition_revision v, digest v)) ?v"
    using h by (simp_all add: holds_versions_def)
  have "(n, pev_digest q) \<in> set (recorded_versions db k i)" using q n by (auto simp: recorded_versions_def)
  then have "n \<in> set (map transition_revision ?v)" unfolding v(4) by auto
  then obtain m where m: "m < length ?v" "n = of_nat (m + 1)" unfolding v(2) by auto
  have "next_version (last ?v) tr" using fits id v(3) m(1) by (auto simp: version_fits_def split: if_splits)
  moreover have "transition_revision tr = n" using id by simp
  ultimately have "n = transition_revision (last ?v) + 1" and pos: "1 \<le> sint n" by (metis next_version_def)+
  then have n': "n = of_nat (length ?v + 1)" using last_revision [OF v(2)] m(1) by fastforce
  then have "length ?v + 1 < 2 ^ 63" using signed_room [OF v(1)] pos by simp
  moreover have small: "unat (of_nat x :: u64) = x" if "x < 2 ^ 63" for x
    using that by (simp add: unsigned_of_nat take_bit_nat_eq_self)
  ultimately show False using small [of "length ?v + 1"] small [of "m + 1"] m n' by simp
qed

lemma commit_lands:
  assumes inv: "proj_inv db" and h: "holds_versions digest h db" and v: "transition_valid tr e"
    and new: "\<not> event_known db (ev_event_id e)" and room: "length (pdb_events db) + 1 < 2 ^ 63"
    and fits: "version_fits db tr" and id: "transition_identity tr = (k, i, n)"
  shows "\<exists>rcp db'. commit_projection_event digest tr e db = (Inr rcp, db') \<and> current_projection db' k i = Some tr"
proof -
  let ?t = "pdb_events db @ [new_event_row (pdb_events db) e]"
  have "append_event e (pdb_events db)
      = (Inr \<lparr>rc_event_id = ev_event_id e, rc_sequence = of_nat (length (pdb_events db) + 1)\<rparr>, ?t)"
    using append_numbered [of "pdb_events db" e] inv v new room
    by (simp add: proj_inv_def transition_valid_def event_known_def new_event_row_def)
  then have a: "append_event_in_transaction e (pdb_events db)
      = (Inr \<lparr>rc_event_id = ev_event_id e, rc_sequence = of_nat (length (pdb_events db) + 1)\<rparr>, ?t)"
    using v by (simp add: append_event_def transition_valid_def)
  have k: "event_known (db\<lparr>pdb_events := ?t\<rparr>) (ev_event_id e)" by (simp add: event_known_def new_event_row_def)
  obtain db1 where db1: "apply_transition (db\<lparr>pdb_events := ?t\<rparr>) tr (ev_event_id e) = Inr db1"
    using apply_transition_succeeds [OF _ _ k, of tr] inv fits by (auto simp: proj_inv_def)
  have ap: "transition_applied (db\<lparr>pdb_events := ?t\<rparr>) tr db1" using apply_transition_applied [OF _ db1] inv by (simp add: proj_inv_def)
  then have e1: "pdb_events db1 = ?t" "pdb_projected db1 = pdb_projected db" "current_projection db1 k i = Some tr"
    using id by (simp_all add: transition_applied_def)
  have ex: "existing_projection_event db (ev_event_id e) = None"
    using new by (auto simp: existing_projection_event_def event_known_def find_None_iff split: option.split)
  have fr: "\<forall>q \<in> set (pdb_projected db). \<not> (pev_event_id q = ev_event_id e
      \<or> (pev_kind q = projection_kind_as_str k \<and> pev_projection_id q = i \<and> pev_revision q = n))"
    using inv new version_fits_fresh [OF h fits id] by (auto simp: proj_inv_def)
  have "insert_projected (projected_row digest tr e) db1
      = Inr (db1\<lparr>pdb_projected := pdb_projected db @ [projected_row digest tr e]\<rparr>)"
    using fr e1 id k by (auto simp: insert_projected_def sql_insert_def projected_row_def event_known_def)
  then show ?thesis using v id ex new a db1 e1
    by (simp add: commit_projection_event_def commit_projection_events_def commit_projection_in_transaction_def
        transition_valid_def projected_row_def)
qed

section \<open>Properties\<close>

abbreviation projection_run :: "(projection_transition \<Rightarrow> string)
    \<Rightarrow> (projection_transition \<times> run_event) list list \<Rightarrow> projection_db \<Rightarrow> projection_db" where
  "projection_run digest \<equiv> fold (\<lambda>us db. snd (commit_projection_events digest us db))"

text \<open>
  C26. Every revision of a projection is committed exactly once. After any history of batches, a batch that
  succeeded is answered with the same receipts whenever it is sent again, and changes nothing; and a
  transition that claims a revision the batch has taken is refused, unless it has the same digest and
  the same event, when it is answered with the batch's receipt and changes nothing either.
\<close>

theorem projection_revision_exactly_once:
  assumes "db = projection_run digest before empty_projections" "commit_projection_events digest us db = (Inr rs, db1)"
    "db2 = projection_run digest later db1"
  shows "commit_projection_events digest us db2 = (Inr rs, db2)
    \<and> (\<forall>n < length us. \<forall>tr e rcp db3. transition_identity tr = transition_identity (fst (us ! n))
         \<and> commit_projection_event digest tr e db2 = (Inr rcp, db3)
         \<longrightarrow> digest tr = digest (fst (us ! n)) \<and> e\<lparr>ev_sequence := 0\<rparr> = (snd (us ! n))\<lparr>ev_sequence := 0\<rparr>
             \<and> rcp = rs ! n \<and> db3 = db2)"
proof -
  have inv: "proj_inv db" unfolding assms(1) by (rule projections.run_inv) (rule proj_inv_empty)
  have all: "commit_all digest us db = Inr (rs, db1)"
    using assms(2) by (auto simp: commit_projection_events_def split: sum.splits prod.splits)
  have 1: "proj_inv db1" "list_all2 (\<lambda>(tr, e) rcp. committed digest tr e rcp db1) us rs"
    using commit_all_ok [OF inv all] by auto
  have inv2: "proj_inv db2" and adv: "proj_adv db1 db2"
    unfolding assms(3) using 1(1) projections.run_inv projections.run_adv by blast+
  have on: "list_all2 (\<lambda>(tr, e) rcp. committed digest tr e rcp db2) us rs"
    using committed_batch_mono [OF 1(2) adv] .
  have cas: "digest tr = digest (fst (us ! n)) \<and> e\<lparr>ev_sequence := 0\<rparr> = (snd (us ! n))\<lparr>ev_sequence := 0\<rparr>
      \<and> rcp = rs ! n \<and> db3 = db2"
    if n: "n < length us" and id: "transition_identity tr = transition_identity (fst (us ! n))"
      and c: "commit_projection_event digest tr e db2 = (Inr rcp, db3)" for n tr e rcp db3
  proof -
    have one: "commit_projection_in_transaction digest tr e db2 = Inr (rcp, db3)"
      using c by (auto simp: commit_projection_event_def commit_projection_events_def split: sum.splits prod.splits if_splits)
    have 3: "proj_inv db3" "proj_adv db2 db3" "committed digest tr e rcp db3" using commit_one [OF inv2 one] by blast+
    have 4: "committed digest (fst (us ! n)) (snd (us ! n)) (rs ! n) db2"
      using list_all2_nthD [OF on n] by (simp add: case_prod_beta)
    from committed_unique [OF 3(1) committed_mono [OF 4 3(2)] 3(3) id]
    have same: "digest tr = digest (fst (us ! n))" "e\<lparr>ev_sequence := 0\<rparr> = (snd (us ! n))\<lparr>ev_sequence := 0\<rparr>" "rcp = rs ! n"
      by auto
    have taken: "projected_row digest (fst (us ! n)) (snd (us ! n)) \<in> set (pdb_projected db2)"
        "version_key (projected_row digest (fst (us ! n)) (snd (us ! n))) = version_key (projected_row digest tr e)"
      using 4 id by (simp_all add: committed_def projected_row_def split: prod.split)
    from inv2 one have "db3 = db2"
    proof (cases rule: projection_commit_cases)
      case (fresh db')
      then show ?thesis using taken by blast
    qed
    then show ?thesis using same by blast
  qed
  have "commit_projection_events digest us db2 = (Inr rs, db2)"
    using commit_all_retry [OF inv2 on] by (simp add: commit_projection_events_def)
  then show ?thesis using cas by blast
qed

text \<open>
  C17. A record keeps its identity for good. Once a projection is stored, every later database has it, at
  the same or a later revision, with its identifying fields unchanged; a job that has finished and a
  session snapshot are not changed at all.
\<close>

theorem projection_identity_stable:
  assumes "db = projection_run digest before empty_projections" "db' = projection_run digest later db"
    "current_projection db k i = Some old"
  shows "\<exists>new. current_projection db' k i = Some new \<and> projection_keeps old new
    \<and> unat (transition_revision old) \<le> unat (transition_revision new)"
proof -
  have "proj_inv db" unfolding assms(1) by (rule projections.run_inv) (rule proj_inv_empty)
  then have "proj_adv db db'" unfolding assms(2) by (rule projections.run_adv)
  then show ?thesis using assms(3) lineage_keeps unfolding proj_adv_def by blast
qed

text \<open>
  C29. The projection store implements a map of version histories. For any sequence of batches there is a
  run of the specification, in which each batch appends some of its transitions in their order, each
  as the next revision of its record and in agreement with the version before; at the end the store
  holds the last version of every history, and its table of projection events lists the revisions and
  digests of all of them. Nothing is refused without a reason: a valid transition with a new event, the
  next revision of its record, and its references in place is committed and becomes the last version.
\<close>

theorem projections_refine_version_map:
  defines "db \<equiv> \<lambda>digest hist. projection_run digest hist empty_projections"
  shows "(\<exists>h. runs batch_spec hist (\<lambda>_ _. []) h
       \<and> (\<forall>k i. current_projection (db digest hist) k i = (if h k i = [] then None else Some (last (h k i)))
           \<and> recorded_versions (db digest hist) k i = map (\<lambda>v. (transition_revision v, digest v)) (h k i)))
    \<and> (\<forall>tr e k i n. transition_valid tr e \<and> \<not> event_known (db digest hist) (ev_event_id e)
         \<and> length (pdb_events (db digest hist)) + 1 < 2 ^ 63 \<and> version_fits (db digest hist) tr
         \<and> transition_identity tr = (k, i, n)
         \<longrightarrow> (\<exists>rcp db'. commit_projection_event digest tr e (db digest hist) = (Inr rcp, db')
               \<and> current_projection db' k i = Some tr))"
proof -
  obtain h where h: "runs batch_spec hist (\<lambda>_ _. []) h" "proj_inv (db digest hist)" "holds_versions digest h (db digest hist)"
    unfolding db_def using versions.run_sim [of empty_projections digest "\<lambda>_ _. []" hist] proj_inv_empty holds_no_versions
    by blast
  then have "\<forall>k i. current_projection (db digest hist) k i = (if h k i = [] then None else Some (last (h k i)))
      \<and> recorded_versions (db digest hist) k i = map (\<lambda>v. (transition_revision v, digest v)) (h k i)"
    by (simp add: holds_versions_def)
  then show ?thesis using h commit_lands [OF h(2,3)] by blast
qed

section \<open>Examples\<close>

definition sample_binding_record :: binding_record where
  "sample_binding_record = \<lparr>bnd_binding_id = ''b-1'', bnd_workspace_id = ''w-1'', bnd_session_id = None, bnd_epoch = 0,
     bnd_authority = ProjLocal, bnd_state = PsReady, bnd_workspace_version = None, bnd_capabilities = None, bnd_revision = 1,
     bnd_opened_at_ms = 5, bnd_updated_at_ms = 5, bnd_closed_at_ms = None\<rparr>"

definition binding_event :: run_event where
  "binding_event = event_required (sample_event ''e-1'')"

lemma sample_binding_record_valid: "transition_valid (TrBinding sample_binding_record) binding_event"
  by (simp add: transition_valid_def validate_transition_def sample_binding_record_def validate_control_id_def
      validate_times_def binding_event_def event_required_def sample_event_def run_event_new_def ascii_alphanumeric_def)

lemma sample_binding_commits:
  "\<exists>rcp db. commit_projection_event digest (TrBinding sample_binding_record) binding_event empty_projections = (Inr rcp, db)
     \<and> current_projection db PkBinding ''b-1'' = Some (TrBinding sample_binding_record)"
proof (rule commit_lands [OF proj_inv_empty holds_no_versions sample_binding_record_valid])
  show "version_fits empty_projections (TrBinding sample_binding_record)"
    by (simp add: version_fits_def current_projection_def sample_binding_record_def empty_projections_def get_projection_def)
qed (simp_all add: event_known_def empty_projections_def sample_binding_record_def)

lemma sample_binding_batch:
  "\<exists>rs db. commit_projection_events digest [(TrBinding sample_binding_record, binding_event)] empty_projections = (Inr rs, db)
     \<and> current_projection db PkBinding ''b-1'' = Some (TrBinding sample_binding_record)"
  using sample_binding_commits [of digest] by (auto simp: commit_projection_event_def split: prod.splits sum.splits)

text \<open>Witness of C26: the first revision of a binding, sent twice.\<close>

theorem projection_revision_exactly_once_witness:
  "\<exists>rs db. commit_projection_events (\<lambda>_. ''d'') [(TrBinding sample_binding_record, binding_event)] empty_projections = (Inr rs, db)
     \<and> commit_projection_events (\<lambda>_. ''d'') [(TrBinding sample_binding_record, binding_event)] db = (Inr rs, db)"
proof -
  obtain rs db where c: "commit_projection_events (\<lambda>_. ''d'') [(TrBinding sample_binding_record, binding_event)] empty_projections
      = (Inr rs, db)"
    using sample_binding_batch by blast
  then show ?thesis using projection_revision_exactly_once [of empty_projections "\<lambda>_. ''d''" "[]" _ rs db db "[]"] by auto
qed

text \<open>Witness of C17: the binding is still there after an empty batch.\<close>

theorem projection_identity_stable_witness:
  "\<exists>new. current_projection (projection_run (\<lambda>_. ''d'') [[]]
       (projection_run (\<lambda>_. ''d'') [[(TrBinding sample_binding_record, binding_event)]] empty_projections)) PkBinding ''b-1'' = Some new
     \<and> projection_keeps (TrBinding sample_binding_record) new"
proof -
  have "current_projection (projection_run (\<lambda>_. ''d'') [[(TrBinding sample_binding_record, binding_event)]] empty_projections)
      PkBinding ''b-1'' = Some (TrBinding sample_binding_record)"
    using sample_binding_batch [of "\<lambda>_. ''d''"] by auto
  from projection_identity_stable [OF refl refl this] show ?thesis by blast
qed

text \<open>Witness of C29: the first revision of a binding lands in an empty store.\<close>

theorem projections_refine_version_map_witness:
  "\<exists>rcp db. commit_projection_event (\<lambda>_. ''d'') (TrBinding sample_binding_record) binding_event empty_projections = (Inr rcp, db)
     \<and> current_projection db PkBinding ''b-1'' = Some (TrBinding sample_binding_record)"
proof -
  have "transition_identity (TrBinding sample_binding_record) = (PkBinding, ''b-1'', 1)" by (simp add: sample_binding_record_def)
  moreover have "version_fits empty_projections (TrBinding sample_binding_record)"
    by (simp add: version_fits_def current_projection_def sample_binding_record_def empty_projections_def get_projection_def)
  moreover have "\<not> event_known empty_projections (ev_event_id binding_event)" "pdb_events empty_projections = []"
    by (simp_all add: event_known_def empty_projections_def)
  ultimately show ?thesis
    using projections_refine_version_map [of "[]" "\<lambda>_. ''d''"] sample_binding_record_valid by simp
qed

end
