(* ===== verification/Spec2Isabelle.thy ===== *)
theory Spec2Isabelle
  imports
    Executor_Correct Controller_Correct Replay Contract Resource_Uri Routing Hunk_Review Hunk_Loc
    Provider_Fallback Concurrency_Limit Approval_Store Event_Log Control_Examples Simulation
    Projection_Store Projection_Correct
begin

text \<open>
  \<^bold>\<open>The program.\<close> \<open>hi\<close> is a coding agent. Besides its user interfaces, provider clients and tools, which
  talk to terminals, networks and processes, it has a core of state machines that decide what the
  agent may do: the RSI runtime (\<open>crates/hi-rsi-runtime\<close>), which describes managed runs, their workflow
  graphs and their budgets; the executor (\<open>crates/hi-agent-runtime\<close>), which drives a graph stage by
  stage; the workspace layer (\<open>crates/hi-workspace\<close>), which admits mutations and background jobs on a
  workspace and fences them when something is left unsettled; the router (\<open>crates/hi-routing\<close>), which
  selects a model and a harness; the request layer in front of the model providers (\<open>crates/hi-ai\<close>), which
  limits, accounts, retries and reroutes inference requests; the hunk tracker (\<open>crates/hi-hunk-tracker\<close>), which keeps the changes the
  agent and others made to files until the user accepts or rejects them; and the control plane (\<open>crates/hi-policy\<close>,
  \<open>crates/hi-events\<close>, \<open>crates/hi-control\<close>), the local database through which processes share approvals, runs with
  leased attempts, effects, scopes and events. This development models that core.

  \<^bold>\<open>How the parts interact.\<close> A worker hands over a descriptor (\<open>contract.rs\<close>) with identity, policy, budgets
  and optionally a workflow graph. The graph (\<open>workflow.rs\<close>) is validated; the executor runs it on a run
  state (\<open>state.rs\<close>), reserving one call per stage in the budget ledger (\<open>budget.rs\<close>), polling the stages
  of a wave concurrently, applying their outcomes in order and sealing checkpoints. A recorded run
  can be replayed (\<open>replay.rs\<close>). Tools that change a workspace ask the controller (\<open>in_memory.rs\<close>) for a
  permit, one at a time, and settle it; long work is registered in the job registry
  (\<open>job_registry.rs\<close>), which the controller owns. Writes of the agent and file system notifications reach
  the hunk tracker's actor as commands; it diffs each tracked file against its baseline, answers queries,
  patches baselines and files when hunks are accepted or rejected, and sends events, from which the
  lines-of-code sink derives attribution records. A model request passes the concurrency limiter
  (\<open>concurrency.rs\<close>) and the fallback chain (\<open>fallback.rs\<close>), which asks each backend's circuit breaker
  (\<open>circuit_breaker.rs\<close>) and the request's send ledger (\<open>request_execution.rs\<close>) before it calls the backend;
  the backend's HTTP sends draw on the same ledger. Before a side effect the operation's digest is computed
  (\<open>hi-policy\<close>) and an approval with that digest is claimed; a worker claims a run, records, starts and completes
  its effects under the fencing token of its attempt, and publishes events (\<open>hi-control\<close>).

  \<^bold>\<open>Theories.\<close>
  \<^item> \<open>Hi_Prelude\<close>: machine integers with checked and saturating operations, results as sums with the error
    on the left, \<open>ensure!\<close> and the question-mark operator, strings as UTF-8 bytes, \<open>str::trim\<close>.
  \<^item> \<open>Ordered_Map\<close>: \<open>BTreeMap\<close> and \<open>BTreeSet\<close> as sorted lists; the locale \<open>ordered_map\<close> states what clients
    rely on, and the representation interprets it.
  \<^item> \<open>Step_System\<close>: the locales of state machines (\<open>step_system\<close>, \<open>ordered_steps\<close>, \<open>transition_system\<close>,
    \<open>ordered_transitions\<close>): an invariant every step keeps and an order no step goes back in.
  \<^item> \<open>Budget\<close>: \<open>budget.rs\<close>. \<open>BudgetLedger\<close> is the record \<open>budget_ledger\<close>; \<open>reserve\<close>, \<open>commit\<close>, \<open>release\<close>, \<open>consume\<close>
    and \<open>merge_consumption_floor\<close> are \<open>ledger_reserve\<close> and so on, each returning its result and the ledger
    it leaves behind, on error paths too. Histories of the shared ledger interpret \<open>ordered_steps\<close>. Shown:
    limits are never exceeded, a settled reservation stays settled (C1, \<open>settled_reservation_stays_settled\<close>), exact effects of each operation.
  \<^item> \<open>Run_State\<close>: the records of \<open>state.rs\<close> and their validation.
  \<^item> \<open>Workflow_Graph\<close>, \<open>Workflow_Validation\<close>: \<open>workflow.rs\<close>, its validator with three graph searches, and what a
    validated graph guarantees (C7 to C9, \<open>valid_graph_connected_and_limited\<close>).
  \<^item> \<open>Workflow_Executor\<close>, \<open>Executor_Correct\<close>: \<open>hi-agent-runtime/src/lib.rs\<close>, from \<open>execute\<close> and \<open>resume\<close> down to the
    reservation guards, and what every started or resumed run guarantees whatever its driver does (C12, C13, C15, C16,
    \<open>failed_round_keeps_history\<close>, \<open>validated_graph_no_dead_end\<close>).
  \<^item> \<open>Workspace_Model\<close>: the contract types of \<open>model.rs\<close>.
  \<^item> \<open>Job_Registry\<close>, \<open>Job_Registry_Correct\<close>: \<open>job_registry*.rs\<close> and \<open>job_output.rs\<close>; the registry's operations as
    steps that interpret \<open>ordered_transitions\<close> (C18 to C20); output and admission (\<open>append_output_bounded\<close>,
    \<open>admission_all_or_nothing\<close>).
  \<^item> \<open>Workspace_Controller\<close>, \<open>Controller_Correct\<close>: \<open>in_memory*.rs\<close> and \<open>controller.rs\<close>; the controller with the
    permits its callers hold interprets \<open>transition_system\<close>, twice (C25, C27, C30, \<open>live_permit_settles\<close>,
    \<open>rebind_fences_old_binding\<close>).
  \<^item> \<open>Replay\<close>: \<open>replay.rs\<close>, a refinement of the plain list of recorded exchanges (C31).
  \<^item> \<open>Contract\<close>: \<open>contract.rs\<close>, admission and validation of descriptors, used by C37.
  \<^item> \<open>Resource_Uri\<close>: \<open>hi-workspace/src/resource.rs\<close>, round trip and confinement (C34, C35).
  \<^item> \<open>Routing\<close>: \<open>hi-routing/src/lib.rs\<close>, first fit with true reasons (\<open>route_first_fit\<close>).
  \<^item> \<open>Text_Lines\<close>: \<open>str::lines\<close>, \<open>join\<close> and splitting at newlines.
  \<^item> \<open>Hunk_Diff\<close>: \<open>diff.rs\<close> and the hunk types of \<open>types.rs\<close>. \<open>Hunk_Regions\<close>: what hunks mean, as the changed regions of
    a line alignment, and that patching a selection of regions takes exactly their sides.
  \<^item> \<open>Hunk_State\<close>, \<open>Hunk_Tracker\<close>, \<open>Hunk_Actions\<close>: the actor (\<open>actor/*.rs\<close>). \<open>HunkTrackerActor\<close> is the record \<open>tracker\<close>, its
    methods are functions of the same names, and \<open>world\<close> is what a command sees of disk, git and diff.
  \<^item> \<open>Hunk_Invariant\<close>, \<open>Hunk_Tracker_Correct\<close>: the invariant of ids, turns and hunks, kept by every command and
    every coalesced batch; the actor's turns interpret \<open>transition_system\<close>. \<open>Hunk_Review\<close>: what follows from it
    (C5, C11, C28, \<open>turn_index_equals_scan\<close>) and where the actions fall short; reading and classifying files.
  \<^item> \<open>Hunk_Loc\<close>: the lines-of-code sink (\<open>loc/mod.rs\<close>); reverted hunks cancel in its sums (C21).
  \<^item> \<open>Float64\<close>: conversion and arithmetic of \<open>f64\<close> with round to nearest, its error, and when a rounded rate reaches
    one half.
  \<^item> \<open>Circuit_Breaker\<close>: \<open>circuit_breaker.rs\<close> with each reading of the clock and the text of its rejections; runs of
    calls interpret \<open>step_system\<close>. When a check is admitted, and how far the printed wait is from the real one (C4);
    the breaker answers like the whole outcome history would (C32).
  \<^item> \<open>Provider_Types\<close>: usage, completions, token estimates and provider errors with their classes (\<open>types.rs\<close>,
    \<open>provider.rs\<close> and its submodules).
  \<^item> \<open>Request_Execution\<close>: \<open>request_execution.rs\<close>, the ledger of sends as \<open>ordered_steps\<close> (C3), the dispatch loop, which
    returns whatever the endpoint and the other holders of the ledger do (C24), and the progress clock.
  \<^item> \<open>Provider_Fallback\<close>: \<open>fallback.rs\<close> over breakers, ledger and error classes (C33), and capability intersection.
  \<^item> \<open>Concurrency_Limit\<close>: \<open>concurrency.rs\<close> with its tasks and notifications as steps of a \<open>step_system\<close> (C40).
  \<^item> \<open>Policy\<close>: \<open>hi-policy/src/lib.rs\<close>: classification of tools, canonical JSON and operation digests, which identify
    the operation (C6), approval requests and records.
  \<^item> \<open>Sql_Table\<close>: updates, insertions under unique columns and the signed integers of SQLite.
  \<^item> \<open>Approval_Store\<close>: the approvals of \<open>hi-control/src/lib.rs\<close> as \<open>ordered_steps\<close>; an approval is used once (C2).
  \<^item> \<open>Event_Log\<close>: \<open>hi-events/src/lib.rs\<close> and the event table, a refinement of an append-only list (C36), as \<open>ordered_steps\<close>.
  \<^item> \<open>Control_Store\<close>: \<open>ControlStore\<close> of \<open>hi-control/src/lib.rs\<close>; the tables are the record \<open>control_db\<close>, the methods are
    functions of the same names. \<open>Control_Correct\<close>: its statements as steps that interpret \<open>ordered_transitions\<close>, with
    the invariant of the tables. \<open>Control_Leases\<close>: operations are sequences of steps; leases, recovery and finished
    attempts (C10, C14, C22, C23, C39). \<open>Control_Effects\<close>: effects and scopes (C38, \<open>effect_recorded_once\<close>,
    \<open>effect_outcome_final\<close>). \<open>Control_Examples\<close>: a database on which these theorems are applied.
  \<^item> \<open>Simulation\<close>: the locale of forward simulations with acceptance, which the projections interpret.
  \<^item> \<open>Projection_Store\<close>: the workspace projections of \<open>hi-control\<close> (\<open>projection*.rs\<close>): records of workspaces,
    operations, jobs, recoveries and snapshots, each with a revision, and the events that change them. \<open>Projection_Correct\<close>:
    identity of records (C17), retries and taken revisions (C26), refinement of a map of version histories (C29).
  \<^item> This theory: managed runs, across contract, graph, executor and ledger (C37).

  \<^bold>\<open>Conventions.\<close> A method on \<open>&mut self\<close> is a function from the old state to a result and the new state. What
  the sources protect with a mutex runs to completion per call, so a concurrent history is a sequence
  of calls: a list of operations for the ledger, a step relation with arbitrary arguments for the
  registry and the controller. UUIDs, the clock, deadlines and failpoints are arguments; theorems that
  need a fresh identifier say so. Strings are their UTF-8 bytes, so lengths are in bytes. JSON
  encoding and decoding and BLAKE3 are function arguments. In the hunk tracker a \<open>HashMap\<close> is a list of entries
  whose iteration order is an argument; the \<open>similar\<close> diff and \<open>gix\<close> are functions of the \<open>world\<close>, of which the
  theorems assume that a diff's lines make up the two texts (and are their lines, for texts without carriage
  returns), that iteration permutes the keys and, where they say so, that writes succeed. Restored snapshots must
  satisfy the invariant themselves and contain no identifier still to be drawn. What a command reads of the world
  does not change while the command runs. Line counts are natural numbers, saturating where the code saturates.

  In the request layer, instants and durations are nanoseconds of the monotonic clock; the readings a locked section
  makes are its arguments. Backends and the HTTP client are functions that may change the ledger and a world of their
  own; the dispatch theorem asks that they change the ledger by its operations only, on the reservations that are live
  in that world.

  In the control plane a SQL transaction or a single statement is one step and several processes may interleave
  theirs; a JSON column keeps the value it serializes; a timestamp keeps its 64 bits and is compared signed by the
  database and unsigned by Rust. A foreign key or unique column that fails is the error \<open>CtlDatabase\<close>.

  \<^bold>\<open>The stage driver\<close> is code the executor only calls. It is a record of two functions: one polls a stage at
  its n-th poll, with a state of the driver's own, and may act on the shared ledger; one stores a
  checkpoint. The executor polls the stages of a wave in the order of their slots, as \<open>try_join_all\<close>
  does when all are ready to be polled. Dropping the future of a run half-way is not modelled;
  reservations dropped on errors are.

  \<^bold>\<open>Fuel.\<close> The depth-first cycle search of graph validation has fuel, and the number of edges plus two always
  suffices (C7). The two breadth-first searches terminate by a measure. The executor takes a number of
  rounds and a number of polls per wave; \<open>None\<close> means that they ran out. For a driver that answers every
  stage by its poll number K, more than K polls and more rounds than the graph's transition limit are
  enough (C13). The dispatch loop takes a number of turns; \<open>2 ^ 32\<close> are enough, since each turn charges a send to a
  32-bit counter (C24).

  \<^bold>\<open>Deviations found.\<close> Releasing a reservation that differs from the live one leaks it
  (\<open>mismatched_release_leaks\<close>); the cycle check rejects some graphs whose cycles are limited
  (\<open>cycle_check_conservative\<close>); settling a mutation can forget a recovery that a job raised meanwhile (C30). In the
  hunk tracker, a rejection whose write fails still leaves its turn (\<open>failed_reject_leaves_turn\<close>), patching an empty text loses the final
  newline (\<open>empty_side_loses_newline\<close>) and patching drops carriage returns (\<open>patching_drops_carriage_returns\<close>), writes of contents that
  cannot be diffed clear hunks silently (\<open>undiffable_write_clears_silently\<close>) or report a file as deleted
  (\<open>undiffable_replacement_reported_deleted\<close>), and the attribution sums drift when hunks split or merge
  (\<open>split_and_merge_miscounted\<close>). In the request layer, reclaiming a probe slot admits more probes than the
  bound (\<open>reclaimed_slot_exceeds_probe_bound\<close>), and a request whose sends are spent keeps the probe it was
  granted (\<open>spent_request_holds_probe\<close>). In the control plane, effects left open by a completed attempt can never be
  settled (C39), \<open>complete_attempt\<close> is not atomic (\<open>completion_window\<close>), an effect can be recorded for an attempt that
  ended after its lease was checked (\<open>late_effect_write\<close>), and a saturated lease is expired for the database and live for
  Rust (\<open>saturated_lease_reads_expired\<close>). The executor accepts a report carried in by a checkpoint without comparing it
  with the run (\<open>carried_report_of_another_run\<close>).

  \<^bold>\<open>Not modelled.\<close> Terminal, voice and browser interfaces, the wire formats and authentication of the providers,
  tools, PipeFS, storage and network services: they are I/O with the outside world. Of the hunk tracker, the channel
  handle, the JSONL writer and the \<open>gix\<close> handles are left out. Of the request layer, the telemetry, the
  capability registry and the mixture-of-agents route are left out. Of the control plane, the journaled
  workspace controller comes next; opening and migrating the database is I/O. The harness loop, verified candidates and
  settings have logic of their own and are not modelled yet.
\<close>

section \<open>Managed runs\<close>

lemma ledger_new_limits:
  "amount_in (limits (ledger_new b)) ModelCalls = ucast (model_calls b)"
  "amount_in (limits (ledger_new b)) ToolCalls = tool_calls b"
  "amount_in (limits (ledger_new b)) InputTokens = input_tokens b"
  "amount_in (limits (ledger_new b)) OutputTokens = output_tokens b"
  "amount_in (limits (ledger_new b)) CostMicrousd = cost_microusd b"
  "amount_in (limits (ledger_new b)) RepairIterations = ucast (repair_iterations b)"
  by (simp_all add: ledger_new_def amount_in_def)

lemma descriptor_graph_ok:
  assumes "descriptor_workflow_graph decode desc roles tools = Some (Inr g)"
  shows "validate_graph roles tools g = Some (Inr ())" and "wg_entry g = po_workflow_entrypoint (de_policy desc)"
  using assms by (auto simp: descriptor_workflow_graph_def split: option.splits sum.splits)

text \<open>C37. A managed run does what its descriptor allows: when a run on the graph the descriptor authorises, with a
  ledger opened on the descriptor's budgets, succeeds, whether started on any state or resumed from any
  checkpoint, the graph starts at the declared entry point and none of its paths from there reaches
  success without a trusted verification gate; the last report is a passing verdict attested by the
  supervisor, on this run and candidate unless the run added no report to those it was given; the
  attempts counted, those of the start included, are within the transition limit and every stage
  attempted since is within its iteration limit; and the six kinds of consumption the ledger counts
  (model and tool calls, input and output tokens, cost and repairs) are within the descriptor's
  budgets. The budgets of CPU, memory, disk, wall time and trace size are not kept by the ledger.\<close>

theorem managed_run_verified_and_bounded:
  assumes "descriptor_workflow_graph decode desc roles tools = Some (Inr g)"
    and "run_ended hash rounds polls g d start st
      \<lparr>wd_driver = w, wd_ledger = ledger_run ops (shared_new (de_budgets desc))\<rparr> (Inr Succeeded, st', wd')"
    and "bt_wf (rs_attempts start)"
  shows "wg_entry g = po_workflow_entrypoint (de_policy desc) \<and>
    (\<forall>p. edge_path (wg_edges g) p \<and> hd p = wg_entry g \<and> kind_at g (last p) = Some TerminalSuccess \<longrightarrow>
      (\<exists>i \<in> set p. \<exists>s. bt_get (wg_stages g) i = Some s \<and> sd_kind s = VerificationGate \<and> sd_trusted s)) \<and>
    rs_verification st' \<noteq> [] \<and> vr_passed (last (rs_verification st')) \<and>
    vr_supervisor_attestation (last (rs_verification st')) \<notin> {None, Some []} \<and>
    (vr_run_id (last (rs_verification st')) = rs_run_id st \<and>
       vr_candidate_id (last (rs_verification st')) = rs_candidate_id st \<or>
     rs_verification st' = rs_verification start) \<and>
    sum_list (map unat (bt_values (rs_attempts start))) \<le> sum_list (map unat (bt_values (rs_attempts st'))) \<and>
    sum_list (map unat (bt_values (rs_attempts st'))) \<le> unat (maximum_transitions (wg_limits g)) \<and>
    (\<forall>i a def limit. bt_get (rs_attempts st') i = Some a \<and> bt_get (wg_stages g) i = Some def \<and>
       sd_iteration_limit def = Some limit \<longrightarrow> a \<le> limit \<or> bt_get (rs_attempts start) i = Some a) \<and>
    (let spent = (\<lambda>k. unat (amount_in (consumed (usage (sl_ledger (wd_ledger wd')))) k)); b = de_budgets desc
     in spent ModelCalls \<le> unat (model_calls b) \<and> spent ToolCalls \<le> unat (tool_calls b) \<and>
        spent InputTokens \<le> unat (input_tokens b) \<and> spent OutputTokens \<le> unat (output_tokens b) \<and>
        spent CostMicrousd \<le> unat (cost_microusd b) \<and> spent RepairIterations \<le> unat (repair_iterations b))"
proof -
  note g = descriptor_graph_ok [OF assms(1)]
  note report = verified_report_of_run [OF assms(2,3)]
  note bound = run_bounded [OF assms(2,3)]
  have wide: "unat (ucast c :: u64) = unat (c :: u32)" for c
  proof -
    have "unat c < 2 ^ 64" using unsigned_less [of c, where ?'a = nat] by simp
    then show ?thesis by (simp add: unsigned_ucast_eq unsigned_take_bit_eq take_bit_nat_eq_self)
  qed
  have gates: "\<forall>p. edge_path (wg_edges g) p \<and> hd p = wg_entry g \<and> kind_at g (last p) = Some TerminalSuccess \<longrightarrow>
      (\<exists>i \<in> set p. \<exists>s. bt_get (wg_stages g) i = Some s \<and> sd_kind s = VerificationGate \<and> sd_trusted s)"
    using success_path_gate [OF g(1)] by blast
  have its: "\<forall>i a def limit. bt_get (rs_attempts st') i = Some a \<and> bt_get (wg_stages g) i = Some def \<and>
       sd_iteration_limit def = Some limit \<longrightarrow> a \<le> limit \<or> bt_get (rs_attempts start) i = Some a"
    using bound(1) by (simp add: iterations_kept_def)
  from bound(2) [of ModelCalls] bound(2) [of ToolCalls] bound(2) [of InputTokens] bound(2) [of OutputTokens]
    bound(2) [of CostMicrousd] bound(2) [of RepairIterations] bound(1) g(2) gates report its
  show ?thesis by (simp add: ledger_new_limits wide Let_def attempts_sum_values)
qed

text \<open>The sample descriptor, opened on the budgets and the entry of a one-gate graph.\<close>

definition gate_descriptor :: managed_runtime_descriptor where
  "gate_descriptor =
     sample_descriptor\<lparr>de_budgets := sample_budgets,
       de_policy := (de_policy sample_descriptor)\<lparr>po_workflow_entrypoint := ''verify''\<rparr>\<rparr>"

lemma gate_graph_authorised:
  "descriptor_workflow_graph (\<lambda>_. Inr gate_graph) gate_descriptor {} {} = Some (Inr gate_graph)"
proof -
  have "validate_graph {} {} gate_graph = Some (Inr ())" by code_simp
  moreover have "wg_entry gate_graph = ''verify''" by (simp add: gate_graph_def)
  ultimately show ?thesis
    by (simp add: descriptor_workflow_graph_def gate_descriptor_def sample_descriptor_def)
qed

theorem managed_run_verified_and_bounded_witness:
  "\<exists>st' wd'. run_ended (\<lambda>_. Inr ''h'') 4 2 gate_graph gate_driver gate_state gate_state gate_world
       (Inr Succeeded, st', wd') \<and>
     vr_run_id (last (rs_verification st')) = ''run'' \<and>
     unat (amount_in (consumed (usage (sl_ledger (wd_ledger wd')))) ModelCalls) \<le> unat (model_calls sample_budgets)"
proof -
  from gate_run obtain st' wd'
    where "execute 4 2 gate_graph gate_driver gate_state gate_world = Some (Inr Succeeded, st', wd')"
    by (auto simp: numeral_eq_Suc)
  then have r: "run_ended (\<lambda>_. Inr ''h'') 4 2 gate_graph gate_driver gate_state gate_state gate_world
      (Inr Succeeded, st', wd')" by (simp add: run_ended_def)
  have b: "de_budgets gate_descriptor = sample_budgets" by (simp add: gate_descriptor_def)
  from r have "run_ended (\<lambda>_. Inr ''h'') 4 2 gate_graph gate_driver gate_state gate_state
      \<lparr>wd_driver = (), wd_ledger = ledger_run [] (shared_new (de_budgets gate_descriptor))\<rparr> (Inr Succeeded, st', wd')"
    by (simp add: gate_world_def b)
  from managed_run_verified_and_bounded [OF gate_graph_authorised this gate_facts(3)] r gate_facts(1,4)
  show ?thesis by (auto simp: Let_def b)
qed

end
